(* ===== verification/Fc_Prelude.thy ===== *)
theory Fc_Prelude
  imports Complex_Main "HOL-Library.Word" "HOL-Library.AList" "HOL-Library.Product_Lexorder"
begin

text \<open>
  The prelude of the FinChain development: exceptions as values, the sequencing of
  throwing code, the arithmetic of the fc library as a parameter, 128-bit
  intermediate products, and generic lemmas on lists and association lists.

  \<^item> C++ exceptions are values of the type \<open>chain_error\<close>; code that may throw
    returns \<open>chain_error + 'a\<close> and is sequenced by \<open>bind\<close>; \<open>fc_assert\<close> is
    \<^verbatim>\<open>FC_ASSERT\<close>.
  \<^item> \<^verbatim>\<open>share_type\<close> is \<^verbatim>\<open>fc::safe<int64_t>\<close> (protocol/types.hpp). The fc library is a
    git submodule that is not part of the repository, so its arithmetic is a parameter:
    the record \<open>fc_lib\<close> holds the operations the chain calls and the locale
    \<open>fc_laws\<close> states what the chain relies on, namely that a checked operation
    returns exactly the mathematical result when this fits an \<open>int64\<close> and throws
    otherwise. Every definition that adds or subtracts share amounts takes the record as
    its first argument.
  \<^item> the 128-bit unsigned intermediates (\<^verbatim>\<open>fc::uint128\<close> and boost's
    \<^verbatim>\<open>uint128_t\<close>) are words of 128 bits.
\<close>

named_theorems ok_simps \<open>facts that turn a successful step into its conditions\<close>

section \<open>Exceptions as values\<close>

datatype chain_error =
    Assert_Exception string
  | Overflow_Exception
  | Unknown_Object
  | Uniqueness_Exception
  | Divide_By_Zero
  | Black_Swan_Exception
  | Unlinkable_Block_Exception
  | Insufficient_Feeds
  | Chain_Exception string

type_synonym 'a result = "chain_error + 'a"

definition bind :: "'a result \<Rightarrow> ('a \<Rightarrow> 'b result) \<Rightarrow> 'b result" where
  "bind m f = (case m of Inl e \<Rightarrow> Inl e | Inr x \<Rightarrow> f x)"

definition fc_assert :: "bool \<Rightarrow> string \<Rightarrow> unit result" where
  "fc_assert c msg = (if c then Inr () else Inl (Assert_Exception msg))"

definition graphene_assert :: "bool \<Rightarrow> chain_error \<Rightarrow> unit result" where
  "graphene_assert c e = (if c then Inr () else Inl e)"

definition the_object :: "'a option \<Rightarrow> 'a result" where
  "the_object x = (case x of None \<Rightarrow> Inl Unknown_Object | Some a \<Rightarrow> Inr a)"

lemma bind_Inl [simp]: "bind (Inl e) f = Inl e"
  and bind_Inr [simp]: "bind (Inr x) f = f x"
  by (simp_all add: bind_def)

lemma bind_eq_Inr [ok_simps]: "bind m f = Inr y \<longleftrightarrow> (\<exists>x. m = Inr x \<and> f x = Inr y)"
  by (cases m) auto

lemma bind_eq_Inl:
  "bind m f = Inl e \<longleftrightarrow> m = Inl e \<or> (\<exists>x. m = Inr x \<and> f x = Inl e)"
  by (cases m) auto

lemma bind_result_assoc: "bind (bind m f) g = bind m (\<lambda>x. bind (f x) g)"
  by (cases m) auto

lemma bind_cong [fundef_cong]:
  "m = m' \<Longrightarrow> (\<And>x. m' = Inr x \<Longrightarrow> f x = g x) \<Longrightarrow> bind m f = bind m' g"
  by (cases m') auto

lemma bind_if: "bind (if c then a else b) f = (if c then bind a f else bind b f)"
  by simp

lemma fc_assert_Inr [ok_simps]: "fc_assert c msg = Inr u \<longleftrightarrow> c"
  by (simp add: fc_assert_def)

lemma fc_assert_Inl: "fc_assert c msg = Inl e \<longleftrightarrow> \<not> c \<and> e = Assert_Exception msg"
  by (auto simp: fc_assert_def)

lemma fc_assert_True [simp]: "fc_assert True msg = Inr ()"
  and fc_assert_False [simp]: "fc_assert False msg = Inl (Assert_Exception msg)"
  by (simp_all add: fc_assert_def)

lemma graphene_assert_Inr [ok_simps]: "graphene_assert c e = Inr u \<longleftrightarrow> c"
  by (simp add: graphene_assert_def)

lemma graphene_assert_Inl: "graphene_assert c e = Inl e' \<longleftrightarrow> \<not> c \<and> e' = e"
  by (auto simp: graphene_assert_def)

lemma graphene_assert_True [simp]: "graphene_assert True e = Inr ()"
  and graphene_assert_False [simp]: "graphene_assert False e = Inl e"
  by (simp_all add: graphene_assert_def)

lemma the_object_Inr [ok_simps]: "the_object x = Inr a \<longleftrightarrow> x = Some a"
  by (cases x) (auto simp: the_object_def)

lemma the_object_simps [simp]:
  "the_object None = Inl Unknown_Object" "the_object (Some a) = Inr a"
  by (simp_all add: the_object_def)

text \<open>A \<^verbatim>\<open>for\<close> loop whose body may throw: the exception leaves the loop.\<close>

primrec fold_result :: "('a \<Rightarrow> 's \<Rightarrow> 's result) \<Rightarrow> 'a list \<Rightarrow> 's \<Rightarrow> 's result" where
  "fold_result f [] s = Inr s"
| "fold_result f (x # xs) s = bind (f x s) (fold_result f xs)"

lemma fold_result_append:
  "fold_result f (xs @ ys) s = bind (fold_result f xs s) (fold_result f ys)"
  by (induction xs arbitrary: s) (auto simp: bind_result_assoc intro!: bind_cong)

lemma fold_result_cong [fundef_cong]:
  "xs = ys \<Longrightarrow> s = t \<Longrightarrow> (\<And>x u. x \<in> set ys \<Longrightarrow> f x u = g x u) \<Longrightarrow>
   fold_result f xs s = fold_result g ys t"
proof (induction ys arbitrary: xs s t)
  case (Cons y ys)
  then show ?case by (auto intro!: bind_cong)
qed simp

lemma fold_result_invariant:
  assumes "fold_result f xs s = Inr s'" and "P s"
    and "\<And>x s s'. x \<in> set xs \<Longrightarrow> P s \<Longrightarrow> f x s = Inr s' \<Longrightarrow> P s'"
  shows "P s'"
  using assms
proof (induction xs arbitrary: s)
  case (Cons x xs)
  then obtain t where t: "f x s = Inr t" "fold_result f xs t = Inr s'"
    by (auto simp: ok_simps)
  with Cons.prems have "P t" by (auto intro: Cons.prems(3))
  then show ?case using Cons.IH [OF t(2)] Cons.prems(3) by auto
qed simp

section \<open>Loops with fuel\<close>

text \<open>
  A \<^verbatim>\<open>while\<close> loop whose body may throw, return from the enclosing function or go on. The locale \<open>shrinking_loop\<close> is
  the contract of a body that makes some size smaller whenever it goes on; then the loop ends, and with more fuel than this
  size the run gives the result of the loop as the source has it (\<open>loop_result\<close>, which knows no fuel).
\<close>

datatype ('s, 'r) loop_step = Finish 'r | Continue 's

fun run_loop :: "nat \<Rightarrow> ('s \<Rightarrow> ('s, 'r) loop_step result) \<Rightarrow> 's \<Rightarrow> 'r result" where
  "run_loop 0 body st = Inl (Chain_Exception ''out of fuel'')"
| "run_loop (Suc n) body st =
     bind (body st) (\<lambda>r. case r of Finish x \<Rightarrow> Inr x | Continue st' \<Rightarrow> run_loop n body st')"

declare run_loop.simps(2) [simp del]

inductive loop_result :: "('s \<Rightarrow> ('s, 'r) loop_step result) \<Rightarrow> 's \<Rightarrow> 'r result \<Rightarrow> bool" for body where
  throw: "body st = Inl e \<Longrightarrow> loop_result body st (Inl e)"
| finish: "body st = Inr (Finish x) \<Longrightarrow> loop_result body st (Inr x)"
| continue: "body st = Inr (Continue st') \<Longrightarrow> loop_result body st' r \<Longrightarrow> loop_result body st r"

lemma run_loop_invariant:
  assumes "run_loop n body st = Inr x" "I st"
    and "\<And>st st'. I st \<Longrightarrow> body st = Inr (Continue st') \<Longrightarrow> I st'"
    and "\<And>st x. I st \<Longrightarrow> body st = Inr (Finish x) \<Longrightarrow> Q x"
  shows "Q x"
  using assms(1,2)
proof (induction n arbitrary: st)
  case (Suc n)
  then obtain r where r: "body st = Inr r" "(case r of Finish x \<Rightarrow> Inr x | Continue st' \<Rightarrow> run_loop n body st') = Inr x"
    by (auto simp: run_loop.simps(2) ok_simps)
  show ?case
  proof (cases r)
    case (Finish y)
    then show ?thesis using assms(4) [OF Suc.prems(2)] r by simp
  next
    case (Continue st')
    then have "run_loop n body st' = Inr x" "I st'" using assms(3) [OF Suc.prems(2)] r by simp_all
    then show ?thesis by (rule Suc.IH)
  qed
qed simp

locale shrinking_loop =
  fixes body :: "'s \<Rightarrow> ('s, 'r) loop_step result"
    and inv :: "'s \<Rightarrow> bool"
    and size :: "'s \<Rightarrow> nat"
  assumes shrinks: "inv st \<Longrightarrow> body st = Inr (Continue st') \<Longrightarrow> inv st' \<and> size st' < size st"
begin

lemma run_loop_result: "inv st \<Longrightarrow> size st < n \<Longrightarrow> loop_result body st (run_loop n body st)"
proof (induction n arbitrary: st)
  case (Suc n)
  show ?case
  proof (cases "body st")
    case (Inl e)
    then show ?thesis by (simp add: run_loop.simps(2) loop_result.throw)
  next
    case (Inr r)
    show ?thesis
    proof (cases r)
      case (Finish x)
      then show ?thesis using Inr by (simp add: run_loop.simps(2) loop_result.finish)
    next
      case (Continue st')
      then have b: "body st = Inr (Continue st')" using Inr by simp
      have "loop_result body st' (run_loop n body st')"
        using shrinks [OF Suc.prems(1) b] Suc.prems(2) by (intro Suc.IH) simp_all
      then show ?thesis using loop_result.continue [of body st st'] b by (simp add: run_loop.simps(2))
    qed
  qed
qed simp

end

section \<open>Machine integers and the fc library\<close>

type_synonym share_type = int
type_synonym u8 = "8 word"
type_synonym u16 = "16 word"
type_synonym u32 = "32 word"
type_synonym u64 = "64 word"
type_synonym u128 = "128 word"
type_synonym time_point_sec = "32 word"
type_synonym block_id = "u32 \<times> nat"

definition in_int64 :: "int \<Rightarrow> bool" where
  "in_int64 x \<longleftrightarrow> - (2 ^ 63) \<le> x \<and> x < 2 ^ 63"

lemma in_int64_0 [simp]: "in_int64 0" and in_int64_1 [simp]: "in_int64 1"
  by (simp_all add: in_int64_def)

record fc_lib =
  safe_add :: "int \<Rightarrow> int \<Rightarrow> int result"
  safe_sub :: "int \<Rightarrow> int \<Rightarrow> int result"
  safe_mul :: "int \<Rightarrow> int \<Rightarrow> int result"
  safe_neg :: "int \<Rightarrow> int result"
  to_share :: "u128 \<Rightarrow> int result"
  safe_add32 :: "u32 \<Rightarrow> u32 \<Rightarrow> u32 result"
  claim_addresses :: "nat \<Rightarrow> nat list"

text \<open>
  \<open>safe_add\<close>, \<open>safe_sub\<close>, \<open>safe_mul\<close> and \<open>safe_neg\<close> are the operators of
  \<^verbatim>\<open>fc::safe<int64_t>\<close>; \<open>to_share\<close> is \<^verbatim>\<open>share_type(x.to_uint64())\<close> on a 128-bit value;
  \<open>safe_add32\<close> is the addition of \<^verbatim>\<open>fc::safe<uint32_t>\<close>, the type of lock times; \<open>claim_addresses\<close> are
  the hashes of a public key that may own a genesis balance (its address and its four \<^verbatim>\<open>pts_address\<close>es).
\<close>

locale fc_laws =
  fixes F :: fc_lib
  assumes safe_add_Inr: "safe_add F a b = Inr c \<longleftrightarrow> c = a + b \<and> in_int64 c"
    and safe_sub_Inr: "safe_sub F a b = Inr c \<longleftrightarrow> c = a - b \<and> in_int64 c"
    and safe_mul_Inr: "safe_mul F a b = Inr c \<longleftrightarrow> c = a * b \<and> in_int64 c"
    and safe_neg_Inr: "safe_neg F a = Inr c \<longleftrightarrow> c = - a \<and> in_int64 c"
    and to_share_small: "uint w < 2 ^ 63 \<Longrightarrow> to_share F w = Inr (uint w)"
    and safe_add32_Inr: "safe_add32 F x y = Inr z \<longleftrightarrow> z = x + y \<and> uint x + uint y < 2 ^ 32"
begin

lemmas safe_Inr = safe_add_Inr safe_sub_Inr safe_mul_Inr safe_neg_Inr

lemma safe_add_ok [simp]: "in_int64 (a + b) \<Longrightarrow> safe_add F a b = Inr (a + b)"
  and safe_sub_ok [simp]: "in_int64 (a - b) \<Longrightarrow> safe_sub F a b = Inr (a - b)"
  and safe_mul_ok [simp]: "in_int64 (a * b) \<Longrightarrow> safe_mul F a b = Inr (a * b)"
  and safe_neg_ok [simp]: "in_int64 (- a) \<Longrightarrow> safe_neg F a = Inr (- a)"
  by (simp_all add: safe_Inr)

end

text \<open>The overflow-checked 64-bit arithmetic that satisfies the laws.\<close>

definition checked64 :: "int \<Rightarrow> int result" where
  "checked64 x = (if in_int64 x then Inr x else Inl Overflow_Exception)"

definition fc_int64 :: fc_lib where
  "fc_int64 = \<lparr> safe_add = \<lambda>a b. checked64 (a + b), safe_sub = \<lambda>a b. checked64 (a - b),
     safe_mul = \<lambda>a b. checked64 (a * b), safe_neg = \<lambda>a. checked64 (- a),
     to_share = \<lambda>w. checked64 (uint w),
     safe_add32 = \<lambda>x y. if uint x + uint y < 2 ^ 32 then Inr (x + y) else Inl Overflow_Exception, claim_addresses = \<lambda>k. [k] \<rparr>"

lemma checked64_Inr: "checked64 x = Inr c \<longleftrightarrow> c = x \<and> in_int64 c"
  by (auto simp: checked64_def)

interpretation fc64: fc_laws fc_int64
proof unfold_locales
  fix w :: u128
  assume "uint w < 2 ^ 63"
  moreover have "0 \<le> uint w" by simp
  ultimately have "in_int64 (uint w)" unfolding in_int64_def by linarith
  then show "to_share fc_int64 w = Inr (uint w)"
    by (simp add: fc_int64_def checked64_def)
qed (auto simp: fc_int64_def checked64_Inr)

section \<open>128-bit products\<close>

text \<open>\<open>uint128(a) * b / c\<close>, the way the chain scales an amount by a ratio.\<close>

definition u128_muldiv :: "int \<Rightarrow> int \<Rightarrow> int \<Rightarrow> u128" where
  "u128_muldiv a b c = (word_of_int a * word_of_int b) div word_of_int c"

lemma uint_u128_of_int: "0 \<le> a \<Longrightarrow> a < 2 ^ 128 \<Longrightarrow> uint (word_of_int a :: u128) = a"
  by (simp add: uint_word_of_int)

lemma uint_u128_mult:
  assumes "0 \<le> a" "0 \<le> b" "a * b < 2 ^ 128"
  shows "uint (word_of_int a * word_of_int b :: u128) = a * b"
  unfolding wi_hom_mult using assms by (simp add: uint_u128_of_int del: wi_hom_mult of_int_mult)

lemma uint_u128_muldiv:
  assumes "0 \<le> a" "0 \<le> b" "0 < c" "c < 2 ^ 128" "a * b < 2 ^ 128"
  shows "uint (u128_muldiv a b c) = a * b div c"
  using assms by (simp add: u128_muldiv_def uint_div uint_u128_mult uint_u128_of_int)

lemma int64_mult_u128:
  fixes a b :: int
  assumes "0 \<le> a" "a < 2 ^ 64" "0 \<le> b" "b < 2 ^ 64"
  shows "a * b < 2 ^ 128"
proof -
  have "a * b \<le> (2 ^ 64 - 1) * (2 ^ 64 - 1)"
    using assms by (intro mult_mono) auto
  also have "\<dots> < (2 :: int) ^ 128" by simp
  finally show ?thesis .
qed

lemma uint_u128_muldiv_int64:
  assumes "0 \<le> a" "a < 2 ^ 64" "0 \<le> b" "b < 2 ^ 64" "0 < c" "c < 2 ^ 64"
  shows "uint (u128_muldiv a b c) = a * b div c"
proof -
  have "c < 2 ^ 128" using assms(6) by simp
  with assms int64_mult_u128 [of a b] show ?thesis by (intro uint_u128_muldiv) auto
qed

lemma muldiv_le:
  fixes a b c :: int
  assumes "0 \<le> a" "0 \<le> b" "b \<le> c" "0 < c"
  shows "a * b div c \<le> a"
proof -
  have "a * b \<le> a * c" using assms by (simp add: mult_left_mono)
  then have "a * b div c \<le> a * c div c" using assms by (intro zdiv_mono1) auto
  then show ?thesis using assms by simp
qed

lemma muldiv_nonneg: "0 \<le> a \<Longrightarrow> 0 \<le> b \<Longrightarrow> 0 < c \<Longrightarrow> 0 \<le> a * b div (c :: int)"
  by (simp add: pos_imp_zdiv_nonneg_iff)

lemma uint_u16_lt [simp]: "uint (w :: u16) < 2 ^ 64"
  using uint_lt2p [of w] by simp

lemma uint_u32_lt [simp]: "uint (w :: u32) < 2 ^ 64"
  using uint_lt2p [of w] by simp

section \<open>Lists and association lists\<close>

lemma sum_list_map_add:
  "sum_list (map (\<lambda>x. f x + g x) xs) = sum_list (map f xs) + (sum_list (map g xs) :: int)"
  by (induction xs) auto

text \<open>Lookups in association lists are kept as lookups.\<close>

declare map_of_eq_Some_iff [simp del]

end
