(* ===== verification/Object_Database.thy ===== *)
theory Object_Database
  imports Fc_Prelude
begin

text \<open>
  The typed tables of libraries/db: \<^verbatim>\<open>generic_index\<close> over a
  \<^verbatim>\<open>boost::multi_index_container\<close> keyed by object id, with the id allocation of
  \<^verbatim>\<open>primary_index\<close>.

  A table is the next free instance number and the rows in ascending order of their
  instance number, the order of the first (by id) index. Unique keys of further indices are
  a relation \<open>clash\<close>: two rows clash when they agree on a unique key. Secondary indices
  and observers are callbacks that do not change the table and are left out.

  The locale \<open>object_table\<close> states what the chain relies on when it changes tables:
  what a lookup returns after a change and how a change moves the total of a quantity over
  all rows. It is interpreted on the operations of this theory.
\<close>

section \<open>Tables\<close>

record 'o index =
  next_id :: nat
  rows :: "(nat \<times> 'o) list"

definition empty_index :: "'o index" where
  "empty_index = \<lparr> next_id = 0, rows = [] \<rparr>"

definition index_find :: "'o index \<Rightarrow> nat \<Rightarrow> 'o option" where
  "index_find idx = map_of (rows idx)"

definition index_get :: "'o index \<Rightarrow> nat \<Rightarrow> 'o result" where
  "index_get idx k = the_object (index_find idx k)"

definition violates :: "('o \<Rightarrow> 'o \<Rightarrow> bool) \<Rightarrow> (nat \<times> 'o) list \<Rightarrow> nat \<Rightarrow> 'o \<Rightarrow> bool" where
  "violates clash rs k x \<longleftrightarrow> list_ex (\<lambda>(k', y). k' \<noteq> k \<and> clash x y) rs"

fun row_insert :: "nat \<Rightarrow> 'o \<Rightarrow> (nat \<times> 'o) list \<Rightarrow> (nat \<times> 'o) list" where
  "row_insert k x [] = [(k, x)]"
| "row_insert k x ((k', y) # rs) =
     (if k < k' then (k, x) # (k', y) # rs else (k', y) # row_insert k x rs)"

definition row_put :: "nat \<Rightarrow> 'o \<Rightarrow> (nat \<times> 'o) list \<Rightarrow> (nat \<times> 'o) list" where
  "row_put k x rs = map (\<lambda>(k', y). if k' = k then (k', x) else (k', y)) rs"

definition row_delete :: "nat \<Rightarrow> (nat \<times> 'o) list \<Rightarrow> (nat \<times> 'o) list" where
  "row_delete k rs = filter (\<lambda>(k', y). k' \<noteq> k) rs"

definition index_insert :: "('o \<Rightarrow> 'o \<Rightarrow> bool) \<Rightarrow> 'o index \<Rightarrow> nat \<Rightarrow> 'o \<Rightarrow> 'o index result" where
  "index_insert clash idx k x =
     bind (graphene_assert (index_find idx k = None \<and> \<not> violates clash (rows idx) k x)
            Uniqueness_Exception) (\<lambda>_.
     Inr (idx\<lparr>rows := row_insert k x (rows idx)\<rparr>))"

definition index_create ::
  "('o \<Rightarrow> 'o \<Rightarrow> bool) \<Rightarrow> 'o index \<Rightarrow> 'o \<Rightarrow> ('o index \<times> nat) result" where
  "index_create clash idx x =
     bind (index_insert clash idx (next_id idx) x) (\<lambda>idx'.
     Inr (idx'\<lparr>next_id := next_id idx + 1\<rparr>, next_id idx))"

definition index_modify ::
  "('o \<Rightarrow> 'o \<Rightarrow> bool) \<Rightarrow> 'o index \<Rightarrow> nat \<Rightarrow> ('o \<Rightarrow> 'o result) \<Rightarrow> 'o index result" where
  "index_modify clash idx k f =
     bind (index_get idx k) (\<lambda>x.
     bind (f x) (\<lambda>x'.
     bind (graphene_assert (\<not> violates clash (rows idx) k x') Uniqueness_Exception) (\<lambda>_.
     Inr (idx\<lparr>rows := row_put k x' (rows idx)\<rparr>))))"

definition index_remove :: "'o index \<Rightarrow> nat \<Rightarrow> 'o index result" where
  "index_remove idx k =
     bind (index_get idx k) (\<lambda>_. Inr (idx\<lparr>rows := row_delete k (rows idx)\<rparr>))"

definition set_next_id :: "'o index \<Rightarrow> nat \<Rightarrow> 'o index" where
  "set_next_id idx n = idx\<lparr>next_id := n\<rparr>"

text \<open>Rows are in strictly ascending order of id, and every id is below the next one.\<close>

definition sorted_rows :: "(nat \<times> 'o) list \<Rightarrow> bool" where
  "sorted_rows rs \<longleftrightarrow> sorted_wrt (<) (map fst rs)"

definition index_inv :: "'o index \<Rightarrow> bool" where
  "index_inv idx \<longleftrightarrow> sorted_rows (rows idx) \<and> (\<forall>k \<in> fst ` set (rows idx). k < next_id idx)"

text \<open>The sum of a quantity over all rows.\<close>

definition total :: "('o \<Rightarrow> int) \<Rightarrow> 'o index \<Rightarrow> int" where
  "total q idx = sum_list (map (\<lambda>(k, x). q x) (rows idx))"

section \<open>Row lists\<close>

lemma set_row_insert [simp]: "set (row_insert k x rs) = insert (k, x) (set rs)"
  by (induction k x rs rule: row_insert.induct) auto

lemma map_of_row_insert:
  "k \<notin> fst ` set rs \<Longrightarrow> map_of (row_insert k x rs) = (map_of rs)(k \<mapsto> x)"
  by (induction k x rs rule: row_insert.induct) (auto simp: fun_upd_twist)

lemma sorted_rows_insert:
  "sorted_rows rs \<Longrightarrow> k \<notin> fst ` set rs \<Longrightarrow> sorted_rows (row_insert k x rs)"
proof (induction k x rs rule: row_insert.induct)
  case (2 k x k' y rs)
  then show ?case by (fastforce simp: sorted_rows_def)
qed (simp add: sorted_rows_def)

lemma sorted_rows_distinct: "sorted_rows rs \<Longrightarrow> distinct (map fst rs)"
  by (simp add: sorted_rows_def strict_sorted_iff)

lemma row_put_simps [simp]:
  "row_put k x [] = []"
  "row_put k x ((k', y) # rs) = (if k' = k then (k', x) else (k', y)) # row_put k x rs"
  by (simp_all add: row_put_def)

lemma keys_row_put [simp]: "map fst (row_put k x rs) = map fst rs"
  by (induction rs) (auto simp: row_put_def)

lemma map_of_row_put:
  "map_of (row_put k x rs) =
     (if k \<in> fst ` set rs then (map_of rs)(k \<mapsto> x) else map_of rs)"
proof (induction rs)
  case (Cons r rs)
  then show ?case by (cases r) (auto simp: fun_upd_twist)
qed simp

lemma map_of_row_delete: "map_of (row_delete k rs) = (map_of rs)(k := None)"
  by (induction rs) (auto simp: row_delete_def fun_eq_iff)

lemma set_row_delete: "set (row_delete k rs) = {r \<in> set rs. fst r \<noteq> k}"
  by (auto simp: row_delete_def)

lemma sorted_rows_delete: "sorted_rows rs \<Longrightarrow> sorted_rows (row_delete k rs)"
  by (induction rs) (auto simp: row_delete_def sorted_rows_def)

lemma sorted_rows_put [simp]: "sorted_rows (row_put k x rs) = sorted_rows rs"
  by (simp add: sorted_rows_def)

lemma sum_row_insert:
  "sum_list (map g (row_insert k x rs)) = g (k, x) + sum_list (map (g :: _ \<Rightarrow> int) rs)"
  by (induction k x rs rule: row_insert.induct) auto

lemma sum_row_delete:
  assumes "distinct (map fst rs)" and "map_of rs k = Some x"
  shows "sum_list (map g (row_delete k rs)) = sum_list (map (g :: _ \<Rightarrow> int) rs) - g (k, x)"
  using assms
proof (induction rs)
  case (Cons r rs)
  have "k \<notin> fst ` set rs \<Longrightarrow> row_delete k rs = rs"
    by (force simp: row_delete_def filter_id_conv)
  with Cons show ?case by (cases r) (auto simp: row_delete_def split: if_splits)
qed simp

lemma sum_row_put:
  assumes "distinct (map fst rs)" and "map_of rs k = Some x"
  shows "sum_list (map g (row_put k x' rs)) =
         sum_list (map (g :: _ \<Rightarrow> int) rs) - g (k, x) + g (k, x')"
  using assms
proof (induction rs)
  case (Cons r rs)
  have "k \<notin> fst ` set rs \<Longrightarrow> row_put k x' rs = rs"
    by (force simp: row_put_def intro: map_idI)
  with Cons show ?case by (cases r) (auto split: if_splits)
qed simp

lemma rows_of_map: "distinct (map fst rs) \<Longrightarrow> map (\<lambda>k. (k, the (map_of rs k))) (map fst rs) = rs"
  by (auto intro!: map_idI simp: map_of_is_SomeI)

lemma sorted_rows_eqI:
  assumes "sorted_rows rs" "sorted_rows rs'" "map_of rs = map_of rs'"
  shows "rs = rs'"
proof -
  have d: "distinct (map fst rs)" "distinct (map fst rs')"
    using assms sorted_rows_distinct by blast+
  have "set (map fst rs) = set (map fst rs')"
    using assms(3) by (metis dom_map_of_conv_image_fst list.set_map)
  then have "map fst rs = map fst rs'"
    using assms by (intro strict_sorted_equal) (auto simp: sorted_rows_def)
  then show ?thesis using rows_of_map [OF d(1)] rows_of_map [OF d(2)] assms(3) by simp
qed

section \<open>The table operations\<close>

lemma index_insert_Inr:
  "index_insert clash idx k x = Inr idx' \<longleftrightarrow>
     index_find idx k = None \<and> \<not> violates clash (rows idx) k x \<and>
     idx' = idx\<lparr>rows := row_insert k x (rows idx)\<rparr>"
  by (auto simp: index_insert_def ok_simps)

lemma index_create_Inr:
  "index_create clash idx x = Inr (idx', k) \<longleftrightarrow>
     k = next_id idx \<and> index_find idx k = None \<and> \<not> violates clash (rows idx) k x \<and>
     idx' = idx\<lparr>rows := row_insert k x (rows idx), next_id := k + 1\<rparr>"
  by (auto simp: index_create_def index_insert_Inr ok_simps)

lemma index_modify_Inr:
  "index_modify clash idx k f = Inr idx' \<longleftrightarrow>
     (\<exists>x x'. index_find idx k = Some x \<and> f x = Inr x' \<and> \<not> violates clash (rows idx) k x' \<and>
       idx' = idx\<lparr>rows := row_put k x' (rows idx)\<rparr>)"
  by (auto simp: index_modify_def index_get_def ok_simps)

lemma index_remove_Inr:
  "index_remove idx k = Inr idx' \<longleftrightarrow>
     (\<exists>x. index_find idx k = Some x) \<and> idx' = idx\<lparr>rows := row_delete k (rows idx)\<rparr>"
  by (auto simp: index_remove_def index_get_def ok_simps)

lemmas index_Inr = index_insert_Inr index_create_Inr index_modify_Inr index_remove_Inr

lemma index_find_None: "index_find idx k = None \<longleftrightarrow> k \<notin> fst ` set (rows idx)"
  by (simp add: index_find_def map_of_eq_None_iff)

lemma index_find_Some_key: "index_find idx k = Some x \<Longrightarrow> k \<in> fst ` set (rows idx)"
  using index_find_None [of idx k] by auto

lemma index_inv_fresh: "index_inv idx \<Longrightarrow> index_find idx (next_id idx) = None"
  by (auto simp: index_inv_def index_find_None)

lemma index_inv_distinct: "index_inv idx \<Longrightarrow> distinct (map fst (rows idx))"
  by (simp add: index_inv_def sorted_rows_distinct)

text \<open>
  A client of a table sees a lookup, the three changes and the total of a quantity over the
  rows. The laws say what a lookup returns after each change and by how much the total
  moves.
\<close>

locale object_table =
  fixes inv :: "'t \<Rightarrow> bool"
    and find :: "'t \<Rightarrow> nat \<Rightarrow> 'o option"
    and make :: "'t \<Rightarrow> 'o \<Rightarrow> ('t \<times> nat) result"
    and change :: "'t \<Rightarrow> nat \<Rightarrow> ('o \<Rightarrow> 'o result) \<Rightarrow> 't result"
    and drop_row :: "'t \<Rightarrow> nat \<Rightarrow> 't result"
    and sum_of :: "('o \<Rightarrow> int) \<Rightarrow> 't \<Rightarrow> int"
  assumes make_inv: "inv t \<Longrightarrow> make t x = Inr (t', k) \<Longrightarrow> inv t'"
    and make_fresh: "inv t \<Longrightarrow> make t x = Inr (t', k) \<Longrightarrow> find t k = None"
    and make_find: "inv t \<Longrightarrow> make t x = Inr (t', k) \<Longrightarrow> find t' = (find t)(k \<mapsto> x)"
    and make_sum: "inv t \<Longrightarrow> make t x = Inr (t', k) \<Longrightarrow> sum_of q t' = sum_of q t + q x"
    and change_inv: "inv t \<Longrightarrow> change t k f = Inr t' \<Longrightarrow> inv t'"
    and change_find: "inv t \<Longrightarrow> change t k f = Inr t' \<Longrightarrow>
      \<exists>x x'. find t k = Some x \<and> f x = Inr x' \<and> find t' = (find t)(k \<mapsto> x') \<and>
        (\<forall>q. sum_of q t' = sum_of q t - q x + q x')"
    and drop_inv: "inv t \<Longrightarrow> drop_row t k = Inr t' \<Longrightarrow> inv t'"
    and drop_find: "inv t \<Longrightarrow> drop_row t k = Inr t' \<Longrightarrow>
      \<exists>x. find t k = Some x \<and> find t' = (find t)(k := None) \<and>
        (\<forall>q. sum_of q t' = sum_of q t - q x)"
begin

lemma change_sum:
  assumes "inv t" "change t k f = Inr t'" "\<And>x x'. find t k = Some x \<Longrightarrow> f x = Inr x' \<Longrightarrow> q x' = q x + d"
  shows "sum_of q t' = sum_of q t + d"
  using change_find [OF assms(1,2)] assms(3) by fastforce

text \<open>Moving an amount from one row to another keeps the total.\<close>

lemma move_between:
  assumes "inv t" "change t a f = Inr t1" "change t1 b g = Inr t2"
    and "\<And>x x'. f x = Inr x' \<Longrightarrow> q x' = q x - d"
    and "\<And>x x'. g x = Inr x' \<Longrightarrow> q x' = q x + d"
  shows "sum_of q t2 = sum_of q t"
proof -
  have "sum_of q t1 = sum_of q t + - d"
    using assms(1,2,4) by (intro change_sum) auto
  moreover have "sum_of q t2 = sum_of q t1 + d"
    using change_inv [OF assms(1,2)] assms(3,5) by (intro change_sum) auto
  ultimately show ?thesis by simp
qed

end

interpretation tbl: object_table index_inv index_find "index_create clash" "index_modify clash"
  index_remove total for clash
proof unfold_locales
  fix t t' :: "'a index" and x k
  assume t: "index_inv t" "index_create clash t x = Inr (t', k)"
  then have f: "k = next_id t" "k \<notin> fst ` set (rows t)"
    "t' = t\<lparr>rows := row_insert k x (rows t), next_id := k + 1\<rparr>"
    by (auto simp: index_Inr index_find_None)
  show "index_inv t'" using t(1) f by (auto simp: index_inv_def sorted_rows_insert)
  show "index_find t k = None" using f by (simp add: index_find_None)
  show "index_find t' = (index_find t)(k \<mapsto> x)"
    using f map_of_row_insert [of k "rows t" x] by (auto simp: index_find_def)
  show "total q t' = total q t + q x" for q
    using f by (simp add: total_def sum_row_insert)
next
  fix t t' :: "'a index" and k f
  assume t: "index_inv t" "index_modify clash t k f = Inr t'"
  then obtain x x' where x: "index_find t k = Some x" "f x = Inr x'"
    and t': "t' = t\<lparr>rows := row_put k x' (rows t)\<rparr>"
    by (auto simp: index_Inr)
  have keys: "fst ` set (rows t') = fst ` set (rows t)"
    using t' by (metis index.select_convs(2) index.surjective index.update_convs(2) keys_row_put list.set_map)
  show "index_inv t'" using t(1) t' keys by (auto simp: index_inv_def)
  have "index_find t' = (index_find t)(k \<mapsto> x')"
    using t' x index_find_Some_key [OF x(1)] by (auto simp: index_find_def map_of_row_put)
  moreover have "total q t' = total q t - q x + q x'" for q
    using t(1) t' x by (simp add: total_def sum_row_put index_inv_distinct index_find_def)
  ultimately show "\<exists>x x'. index_find t k = Some x \<and> f x = Inr x' \<and>
      index_find t' = (index_find t)(k \<mapsto> x') \<and> (\<forall>q. total q t' = total q t - q x + q x')"
    using x by blast
next
  fix t t' :: "'a index" and k
  assume t: "index_inv t" "index_remove t k = Inr t'"
  then obtain x where x: "index_find t k = Some x" and t': "t' = t\<lparr>rows := row_delete k (rows t)\<rparr>"
    by (auto simp: index_Inr)
  show "index_inv t'" using t(1) t' by (auto simp: index_inv_def sorted_rows_delete set_row_delete)
  have "index_find t' = (index_find t)(k := None)"
    using t' by (auto simp: index_find_def map_of_row_delete)
  moreover have "total q t' = total q t - q x" for q
    using t(1) t' x by (simp add: total_def sum_row_delete index_inv_distinct index_find_def)
  ultimately show "\<exists>x. index_find t k = Some x \<and> index_find t' = (index_find t)(k := None) \<and>
      (\<forall>q. total q t' = total q t - q x)"
    using x by blast
qed

end
