(* ===== verification/Undo_Database.thy ===== *)
theory Undo_Database
  imports Object_Database
begin

text \<open>
  \<^verbatim>\<open>object_database\<close> and \<^verbatim>\<open>undo_database\<close> of libraries/db: tables by (space, type), the
  stack of undo states, the three change hooks, undo, merge, commit, pop\_commit and the
  sessions.

  The abstract specification is a stack of snapshots: \<open>history d\<close> is the list of the
  database contents at the start of every open undo state. The refinement lemmas say that
  a logged change leaves the history alone, that starting a session pushes the present
  contents, that undo and pop\_commit return to the top snapshot, and that merge drops
  the top snapshot and keeps the contents.

  \<^verbatim>\<open>_stack\<close> is a list whose head is the back of the deque. The unordered containers of an
  undo state are association lists; the lemmas hold for every order of their entries.
  Undefined behaviour (\<^verbatim>\<open>back()\<close> of an empty deque) is an exception of its own.
\<close>

section \<open>State\<close>

text \<open>A table is named by \<^verbatim>\<open>object_id_type::space_type()\<close>, an object by its table and instance.\<close>

type_synonym index_id = nat
type_synonym object_id = "index_id \<times> nat"

record 'o undo_state =
  old_values :: "(object_id \<times> 'o) list"
  old_index_next_ids :: "(index_id \<times> nat) list"
  new_ids :: "object_id list"
  removed :: "(object_id \<times> 'o) list"

definition empty_undo_state :: "'o undo_state" where
  "empty_undo_state = \<lparr> old_values = [], old_index_next_ids = [], new_ids = [], removed = [] \<rparr>"

record 'o object_database =
  indexes :: "index_id \<rightharpoonup> 'o index"
  active_sessions :: nat
  disabled :: bool
  stack :: "'o undo_state list"
  max_size :: nat

definition init_object_database :: "(index_id \<rightharpoonup> 'o index) \<Rightarrow> 'o object_database" where
  "init_object_database idxs =
     \<lparr> indexes = idxs, active_sessions = 0, disabled = False, stack = [], max_size = 256 \<rparr>"

definition get_index :: "'o object_database \<Rightarrow> index_id \<Rightarrow> 'o index result" where
  "get_index d i = (case indexes d i of None \<Rightarrow> Inl (Assert_Exception ''no index'') | Some x \<Rightarrow> Inr x)"

definition put_index :: "'o object_database \<Rightarrow> index_id \<Rightarrow> 'o index \<Rightarrow> 'o object_database" where
  "put_index d i x = d\<lparr>indexes := (indexes d)(i \<mapsto> x)\<rparr>"

definition find_object :: "'o object_database \<Rightarrow> object_id \<Rightarrow> 'o option result" where
  "find_object d oid = bind (get_index d (fst oid)) (\<lambda>x. Inr (index_find x (snd oid)))"

definition get_object :: "'o object_database \<Rightarrow> object_id \<Rightarrow> 'o result" where
  "get_object d oid = bind (get_index d (fst oid)) (\<lambda>x. index_get x (snd oid))"

section \<open>The hooks\<close>

definition back_state :: "'o object_database \<Rightarrow> 'o undo_state \<times> 'o undo_state list" where
  "back_state d = (case stack d of [] \<Rightarrow> (empty_undo_state, []) | st # rest \<Rightarrow> (st, rest))"

definition note_create :: "object_id \<Rightarrow> 'o undo_state \<Rightarrow> 'o undo_state" where
  "note_create oid st =
     st\<lparr>old_index_next_ids :=
          (if map_of (old_index_next_ids st) (fst oid) = None
           then (fst oid, snd oid) # old_index_next_ids st else old_index_next_ids st),
        new_ids := List.insert oid (new_ids st)\<rparr>"

definition note_modify :: "object_id \<Rightarrow> 'o \<Rightarrow> 'o undo_state \<Rightarrow> 'o undo_state" where
  "note_modify oid v st =
     (if oid \<in> set (new_ids st) then st
      else if map_of (old_values st) oid \<noteq> None then st
      else st\<lparr>old_values := (oid, v) # old_values st\<rparr>)"

definition note_remove :: "object_id \<Rightarrow> 'o \<Rightarrow> 'o undo_state \<Rightarrow> 'o undo_state" where
  "note_remove oid v st =
     (if oid \<in> set (new_ids st) then st\<lparr>new_ids := removeAll oid (new_ids st)\<rparr>
      else (case map_of (old_values st) oid of
          Some w \<Rightarrow> st\<lparr>removed := AList.update oid w (removed st),
                      old_values := AList.delete oid (old_values st)\<rparr>
        | None \<Rightarrow>
            if map_of (removed st) oid \<noteq> None then st
            else st\<lparr>removed := (oid, v) # removed st\<rparr>))"

definition on_create :: "'o object_database \<Rightarrow> object_id \<Rightarrow> 'o object_database" where
  "on_create d oid =
     (if disabled d then d
      else let (st, rest) = back_state d in d\<lparr>stack := note_create oid st # rest\<rparr>)"

definition on_modify :: "'o object_database \<Rightarrow> object_id \<Rightarrow> 'o \<Rightarrow> 'o object_database" where
  "on_modify d oid v =
     (if disabled d then d
      else let (st, rest) = back_state d in d\<lparr>stack := note_modify oid v st # rest\<rparr>)"

definition on_remove :: "'o object_database \<Rightarrow> object_id \<Rightarrow> 'o \<Rightarrow> 'o object_database" where
  "on_remove d oid v =
     (if disabled d then d
      else let (st, rest) = back_state d in d\<lparr>stack := note_remove oid v st # rest\<rparr>)"

section \<open>The changes of the object database\<close>

definition db_create ::
  "('o \<Rightarrow> 'o \<Rightarrow> bool) \<Rightarrow> 'o object_database \<Rightarrow> index_id \<Rightarrow> 'o
     \<Rightarrow> ('o object_database \<times> object_id) result" where
  "db_create clash d i v =
     bind (get_index d i) (\<lambda>x.
     bind (index_create clash x v) (\<lambda>(x', k).
     Inr (on_create (put_index d i x') (i, k), (i, k))))"

definition db_modify ::
  "('o \<Rightarrow> 'o \<Rightarrow> bool) \<Rightarrow> 'o object_database \<Rightarrow> object_id \<Rightarrow> ('o \<Rightarrow> 'o result)
     \<Rightarrow> 'o object_database result" where
  "db_modify clash d oid f =
     bind (get_object d oid) (\<lambda>v.
     bind (get_index d (fst oid)) (\<lambda>x.
     bind (index_modify clash x (snd oid) f) (\<lambda>x'.
     Inr (put_index (on_modify d oid v) (fst oid) x'))))"

definition db_remove :: "'o object_database \<Rightarrow> object_id \<Rightarrow> 'o object_database result" where
  "db_remove d oid =
     bind (get_object d oid) (\<lambda>v.
     bind (get_index d (fst oid)) (\<lambda>x.
     bind (index_remove x (snd oid)) (\<lambda>x'.
     Inr (put_index (on_remove d oid v) (fst oid) x'))))"

definition db_insert ::
  "('o \<Rightarrow> 'o \<Rightarrow> bool) \<Rightarrow> 'o object_database \<Rightarrow> object_id \<Rightarrow> 'o \<Rightarrow> 'o object_database result" where
  "db_insert clash d oid v =
     bind (get_index d (fst oid)) (\<lambda>x.
     bind (index_insert clash x (snd oid) v) (\<lambda>x'.
     Inr (put_index d (fst oid) x')))"

definition db_set_next_id :: "'o object_database \<Rightarrow> index_id \<Rightarrow> nat \<Rightarrow> 'o object_database result" where
  "db_set_next_id d i n = bind (get_index d i) (\<lambda>x. Inr (put_index d i (set_next_id x n)))"

section \<open>Undo, merge, commit\<close>

definition restore_state ::
  "('o \<Rightarrow> 'o \<Rightarrow> bool) \<Rightarrow> 'o undo_state \<Rightarrow> 'o object_database \<Rightarrow> 'o object_database result" where
  "restore_state clash st d =
     bind (fold_result (\<lambda>(oid, v) d. db_modify clash d oid (\<lambda>_. Inr v)) (old_values st) d) (\<lambda>d.
     bind (fold_result (\<lambda>oid d. db_remove d oid) (new_ids st) d) (\<lambda>d.
     bind (fold_result (\<lambda>(i, n) d. db_set_next_id d i n) (old_index_next_ids st) d) (\<lambda>d.
     fold_result (\<lambda>(oid, v) d. db_insert clash d oid v) (removed st) d)))"

definition undo :: "('o \<Rightarrow> 'o \<Rightarrow> bool) \<Rightarrow> 'o object_database \<Rightarrow> 'o object_database result" where
  "undo clash d =
     bind (fc_assert (\<not> disabled d) ''!_disabled'') (\<lambda>_.
     bind (fc_assert (active_sessions d > 0) ''_active_sessions > 0'') (\<lambda>_.
     (case stack d of
        [] \<Rightarrow> Inl (Chain_Exception ''back() of an empty deque'')
      | st # rest \<Rightarrow>
          bind (restore_state clash st (d\<lparr>disabled := True\<rparr>)) (\<lambda>d'.
          Inr (d'\<lparr>stack := rest, disabled := False, active_sessions := active_sessions d - 1\<rparr>)))))"

definition merge_old_value :: "object_id \<times> 'o \<Rightarrow> 'o undo_state \<Rightarrow> 'o undo_state" where
  "merge_old_value item prev =
     (if fst item \<in> set (new_ids prev) then prev
      else if map_of (old_values prev) (fst item) \<noteq> None then prev
      else prev\<lparr>old_values := item # old_values prev\<rparr>)"

definition merge_next_id :: "index_id \<times> nat \<Rightarrow> 'o undo_state \<Rightarrow> 'o undo_state" where
  "merge_next_id item prev =
     (if map_of (old_index_next_ids prev) (fst item) = None
      then prev\<lparr>old_index_next_ids := item # old_index_next_ids prev\<rparr> else prev)"

definition merge_removed :: "object_id \<times> 'o \<Rightarrow> 'o undo_state \<Rightarrow> 'o undo_state" where
  "merge_removed item prev =
     (if fst item \<in> set (new_ids prev) then prev\<lparr>new_ids := removeAll (fst item) (new_ids prev)\<rparr>
      else (case map_of (old_values prev) (fst item) of
          Some w \<Rightarrow> prev\<lparr>removed := AList.update (fst item) w (removed prev),
                        old_values := AList.delete (fst item) (old_values prev)\<rparr>
        | None \<Rightarrow> prev\<lparr>removed := AList.update (fst item) (snd item) (removed prev)\<rparr>))"

definition merge_states :: "'o undo_state \<Rightarrow> 'o undo_state \<Rightarrow> 'o undo_state" where
  "merge_states prev st =
     (let p1 = fold merge_old_value (old_values st) prev;
          p2 = p1\<lparr>new_ids := fold List.insert (new_ids st) (new_ids p1)\<rparr>;
          p3 = fold merge_next_id (old_index_next_ids st) p2
      in fold merge_removed (removed st) p3)"

definition merge :: "'o object_database \<Rightarrow> 'o object_database result" where
  "merge d =
     bind (fc_assert (active_sessions d > 0) ''_active_sessions > 0'') (\<lambda>_.
     if active_sessions d = 1 \<and> length (stack d) = 1
     then Inr (d\<lparr>stack := [], active_sessions := 0\<rparr>)
     else bind (fc_assert (length (stack d) \<ge> 2) ''_stack.size() >= 2'') (\<lambda>_.
       Inr (d\<lparr>stack := merge_states (stack d ! 1) (stack d ! 0) # drop 2 (stack d),
              active_sessions := active_sessions d - 1\<rparr>)))"

definition commit :: "'o object_database \<Rightarrow> 'o object_database result" where
  "commit d =
     bind (fc_assert (active_sessions d > 0) ''_active_sessions > 0'') (\<lambda>_.
     Inr (d\<lparr>active_sessions := active_sessions d - 1\<rparr>))"

definition pop_commit :: "('o \<Rightarrow> 'o \<Rightarrow> bool) \<Rightarrow> 'o object_database \<Rightarrow> 'o object_database result" where
  "pop_commit clash d =
     bind (fc_assert (active_sessions d = 0) ''_active_sessions == 0'') (\<lambda>_.
     (case stack d of
        [] \<Rightarrow> Inl (Assert_Exception ''!_stack.empty()'')
      | st # rest \<Rightarrow>
          bind (restore_state clash st (d\<lparr>disabled := True\<rparr>)) (\<lambda>d'.
          Inr (d'\<lparr>stack := rest, disabled := False\<rparr>))))"

text \<open>\<open>start_undo_session\<close> returns the database and the new session.\<close>

record undo_session =
  apply_undo :: bool
  disable_on_exit :: bool

definition start_undo_session :: "bool \<Rightarrow> 'o object_database \<Rightarrow> 'o object_database \<times> undo_session" where
  "start_undo_session force_enable d =
     (if disabled d \<and> \<not> force_enable then (d, \<lparr>apply_undo = True, disable_on_exit = False\<rparr>)
      else (d\<lparr>disabled := (if force_enable then False else disabled d),
              stack := empty_undo_state # take (max_size d) (stack d),
              active_sessions := active_sessions d + 1\<rparr>,
            \<lparr>apply_undo = True, disable_on_exit = disabled d \<and> force_enable\<rparr>))"

definition session_commit :: "undo_session \<Rightarrow> 'o object_database \<Rightarrow> ('o object_database \<times> undo_session) result" where
  "session_commit s d = bind (commit d) (\<lambda>d'. Inr (d', s\<lparr>apply_undo := False\<rparr>))"

definition session_undo ::
  "('o \<Rightarrow> 'o \<Rightarrow> bool) \<Rightarrow> undo_session \<Rightarrow> 'o object_database \<Rightarrow> ('o object_database \<times> undo_session) result" where
  "session_undo clash s d =
     bind (if apply_undo s then undo clash d else Inr d) (\<lambda>d'. Inr (d', s\<lparr>apply_undo := False\<rparr>))"

definition session_merge :: "undo_session \<Rightarrow> 'o object_database \<Rightarrow> ('o object_database \<times> undo_session) result" where
  "session_merge s d =
     bind (if apply_undo s then merge d else Inr d) (\<lambda>d'. Inr (d', s\<lparr>apply_undo := False\<rparr>))"

definition session_destroy ::
  "('o \<Rightarrow> 'o \<Rightarrow> bool) \<Rightarrow> undo_session \<Rightarrow> 'o object_database \<Rightarrow> 'o object_database result" where
  "session_destroy clash s d =
     bind (if apply_undo s then undo clash d else Inr d) (\<lambda>d'.
     Inr (if disable_on_exit s then d'\<lparr>disabled := True\<rparr> else d'))"

section \<open>The specification: snapshots\<close>

record 'o snapshot =
  objects :: "object_id \<rightharpoonup> 'o"
  nexts :: "index_id \<rightharpoonup> nat"

definition snap :: "'o object_database \<Rightarrow> 'o snapshot" where
  "snap d = \<lparr> objects = (\<lambda>oid. Option.bind (indexes d (fst oid)) (\<lambda>x. index_find x (snd oid))),
              nexts = (\<lambda>i. map_option next_id (indexes d i)) \<rparr>"

definition revert :: "'o undo_state \<Rightarrow> 'o snapshot \<Rightarrow> 'o snapshot" where
  "revert st s =
     \<lparr> objects = (\<lambda>oid. if oid \<in> set (new_ids st) then None
         else (objects s ++ map_of (removed st) ++ map_of (old_values st)) oid),
       nexts = nexts s ++ map_of (old_index_next_ids st) \<rparr>"

primrec history :: "'o undo_state list \<Rightarrow> 'o snapshot \<Rightarrow> 'o snapshot list" where
  "history [] s = []"
| "history (st # sts) s = revert st s # history sts (revert st s)"

text \<open>Ids below the next one of their table; an undo state that fits the present contents.\<close>

definition wf_snap :: "'o snapshot \<Rightarrow> bool" where
  "wf_snap s \<longleftrightarrow> (\<forall>i k. (i, k) \<in> dom (objects s) \<longrightarrow> (\<exists>n. nexts s i = Some n \<and> k < n))"

definition fits :: "'o undo_state \<Rightarrow> 'o snapshot \<Rightarrow> bool" where
  "fits st s \<longleftrightarrow>
     distinct (map fst (old_values st)) \<and> distinct (map fst (removed st)) \<and> distinct (new_ids st) \<and>
     distinct (map fst (old_index_next_ids st)) \<and>
     set (new_ids st) \<inter> fst ` set (old_values st) = {} \<and>
     set (new_ids st) \<subseteq> dom (objects s) \<and> fst ` set (old_values st) \<subseteq> dom (objects s) \<and>
     fst ` set (removed st) \<inter> dom (objects s) = {} \<and>
     (\<forall>i n. map_of (old_index_next_ids st) i = Some n \<longrightarrow> (\<exists>m. nexts s i = Some m \<and> n \<le> m)) \<and>
     (\<forall>i k. (i, k) \<in> set (new_ids st) \<longrightarrow>
        (\<exists>n. map_of (old_index_next_ids st) i = Some n \<and> n \<le> k))"

primrec wf_history :: "'o undo_state list \<Rightarrow> 'o snapshot \<Rightarrow> bool" where
  "wf_history [] s = wf_snap s"
| "wf_history (st # sts) s = (wf_snap s \<and> fits st s \<and> wf_history sts (revert st s))"

definition db_inv :: "'o object_database \<Rightarrow> bool" where
  "db_inv d \<longleftrightarrow> (\<forall>i x. indexes d i = Some x \<longrightarrow> sorted_rows (rows x)) \<and>
     wf_history (stack d) (snap d)"

section \<open>The hooks keep the history\<close>

lemma keys_delete: "fst ` set (AList.delete k xs) = fst ` set xs - {k}"
  by (auto simp: AList.delete_eq)

lemma keys_update: "fst ` set (AList.update k v xs) = insert k (fst ` set xs)"
  by (simp add: dom_update)

lemma fits_next:
  "fits st s \<Longrightarrow> map_of (old_index_next_ids st) i = Some n \<Longrightarrow> \<exists>m. nexts s i = Some m \<and> n \<le> m"
  by (simp add: fits_def)

lemma revert_removed_dom:
  assumes "fits st s" "oid \<in> fst ` set (removed st)"
  shows "oid \<in> dom (objects (revert st s))"
proof -
  have "oid \<notin> set (new_ids st)" using assms by (auto simp: fits_def)
  with assms(2) show ?thesis
    by (simp add: revert_def domIff map_add_None map_of_eq_None_iff)
qed

lemma nexts_revert_le:
  assumes "fits st s" "nexts (revert st s) i = Some n" "nexts s i = Some m"
  shows "n \<le> m"
proof (cases "map_of (old_index_next_ids st) i")
  case None
  with assms show ?thesis by (simp add: revert_def map_add_def)
next
  case (Some n')
  with assms(2) have "n' = n" by (simp add: revert_def)
  with fits_next [OF assms(1) Some] assms(3) show ?thesis by auto
qed

lemma wf_snapD: "wf_snap s \<Longrightarrow> (i, k) \<in> dom (objects s) \<Longrightarrow> \<exists>n. nexts s i = Some n \<and> k < n"
  by (simp add: wf_snap_def)

lemma fresh_not_removed:
  assumes "fits st s" "wf_snap (revert st s)" "nexts s i = Some k"
  shows "(i, k) \<notin> fst ` set (removed st)"
proof
  assume "(i, k) \<in> fst ` set (removed st)"
  then obtain n where "nexts (revert st s) i = Some n" "k < n"
    using wf_snapD [OF assms(2) revert_removed_dom [OF assms(1)]] by blast
  with nexts_revert_le [OF assms(1) _ assms(3)] show False by fastforce
qed

lemma fresh_not_present: "wf_snap s \<Longrightarrow> nexts s i = Some k \<Longrightarrow> (i, k) \<notin> dom (objects s)"
  by (auto dest: wf_snapD [of s i k] simp del: domIff)

lemma note_create_revert:
  fixes v
  assumes "fits st s" "wf_snap s" "wf_snap (revert st s)" "nexts s i = Some k"
  defines "s' \<equiv> s\<lparr>objects := (objects s)((i, k) \<mapsto> v), nexts := (nexts s)(i \<mapsto> k + 1)\<rparr>"
  shows "revert (note_create (i, k) st) s' = revert st s" and "fits (note_create (i, k) st) s'"
proof -
  have new: "(i, k) \<notin> dom (objects s)" "(i, k) \<notin> fst ` set (removed st)"
    "(i, k) \<notin> fst ` set (old_values st)" "(i, k) \<notin> set (new_ids st)"
    using fresh_not_present [OF assms(2,4)] fresh_not_removed [OF assms(1,3,4)] assms(1)
    by (auto simp: fits_def)
  have old: "map_of (old_values st) (i, k) = None" "map_of (removed st) (i, k) = None"
    using new by (simp_all add: map_of_eq_None_iff)
  show "revert (note_create (i, k) st) s' = revert st s"
    using new old assms(4)
    by (auto simp: revert_def note_create_def s'_def fun_eq_iff map_add_def split: option.splits)
  show "fits (note_create (i, k) st) s'"
  proof (cases "map_of (old_index_next_ids st) i")
    case None
    then have "(i, k') \<notin> set (new_ids st)" for k' using assms(1) by (fastforce simp: fits_def)
    with None assms(1,4) new show ?thesis
      by (auto simp: fits_def note_create_def s'_def map_of_eq_None_iff)
  next
    case (Some n)
    then have "n \<le> k" using fits_next [OF assms(1)] assms(4) by fastforce
    with Some assms(1,4) new show ?thesis
      by (auto simp: fits_def note_create_def s'_def simp del: map_of_eq_Some_iff)
  qed
qed

lemma note_modify_revert:
  fixes w
  assumes "fits st s" "objects s oid = Some v"
  defines "s' \<equiv> s\<lparr>objects := (objects s)(oid \<mapsto> w)\<rparr>"
  shows "revert (note_modify oid v st) s' = revert st s" and "fits (note_modify oid v st) s'"
proof -
  have rem: "map_of (removed st) oid = None"
    using assms by (auto simp: fits_def map_of_eq_None_iff)
  show "revert (note_modify oid v st) s' = revert st s"
    using rem assms(2) by (auto simp: revert_def note_modify_def s'_def fun_eq_iff map_add_def
        split: option.splits if_splits)
  show "fits (note_modify oid v st) s'"
    using assms(1,2) by (auto simp: fits_def note_modify_def s'_def map_of_eq_None_iff)
qed

lemma note_remove_revert:
  assumes "fits st s" "objects s oid = Some v"
  defines "s' \<equiv> s\<lparr>objects := (objects s)(oid := None)\<rparr>"
  shows "revert (note_remove oid v st) s' = revert st s" and "fits (note_remove oid v st) s'"
proof -
  have rem: "map_of (removed st) oid = None" "oid \<notin> fst ` set (removed st)"
    using assms by (auto simp: fits_def map_of_eq_None_iff)
  have nov: "oid \<in> set (new_ids st) \<Longrightarrow> map_of (old_values st) oid = None"
    using assms(1) by (auto simp: fits_def map_of_eq_None_iff)
  show "revert (note_remove oid v st) s' = revert st s"
  proof (cases "oid \<in> set (new_ids st)")
    case True
    then show ?thesis using nov rem by (auto simp: revert_def note_remove_def s'_def fun_eq_iff map_add_def split: option.split)
  next
    case False
    show ?thesis
    proof (cases "map_of (old_values st) oid")
      case None
      then show ?thesis using False rem assms(2)
        by (simp add: revert_def note_remove_def s'_def fun_eq_iff map_add_def split: option.split)
    next
      case (Some w)
      then show ?thesis using False rem assms(2)
        by (simp add: revert_def note_remove_def s'_def fun_eq_iff map_add_def update_conv' delete_conv' split: option.split)
    qed
  qed
  show "fits (note_remove oid v st) s'"
    using assms(1,2) rem
    by (auto simp: fits_def note_remove_def s'_def keys_update keys_delete
        distinct_delete distinct_update distinct_removeAll map_of_eq_None_iff split: option.splits)
qed

section \<open>Merging two undo states\<close>

lemma fold_merge_old_value_frame [simp]:
  "new_ids (fold merge_old_value xs p) = new_ids p"
  "removed (fold merge_old_value xs p) = removed p"
  "old_index_next_ids (fold merge_old_value xs p) = old_index_next_ids p"
  by (induction xs arbitrary: p) (auto simp: merge_old_value_def)

lemma map_of_merge_old_value:
  "map_of (old_values (merge_old_value x p)) =
     (map_of [x] |` (- set (new_ids p))) ++ map_of (old_values p)"
  by (auto simp: merge_old_value_def fun_eq_iff map_add_def restrict_map_def split: option.splits)

lemma map_of_fold_merge_old_value:
  "distinct (map fst xs) \<Longrightarrow>
   map_of (old_values (fold merge_old_value xs p)) =
     (map_of xs |` (- set (new_ids p))) ++ map_of (old_values p)"
proof (induction xs arbitrary: p)
  case (Cons x xs)
  have "new_ids (merge_old_value x p) = new_ids p" by (auto simp: merge_old_value_def)
  moreover have "map_of xs (fst x) = None" using Cons.prems by (simp add: map_of_eq_None_iff)
  ultimately show ?case using Cons
    by (auto simp: map_of_merge_old_value fun_eq_iff map_add_def restrict_map_def
        split: option.splits)
qed (simp add: restrict_map_def fun_eq_iff map_add_def split: option.splits)

lemma distinct_fold_merge_old_value:
  "distinct (map fst (old_values p)) \<Longrightarrow> distinct (map fst (old_values (fold merge_old_value xs p)))"
  by (induction xs arbitrary: p) (auto simp: merge_old_value_def map_of_eq_None_iff)

lemma fold_merge_next_id_frame [simp]:
  "new_ids (fold merge_next_id xs p) = new_ids p"
  "removed (fold merge_next_id xs p) = removed p"
  "old_values (fold merge_next_id xs p) = old_values p"
  by (induction xs arbitrary: p) (auto simp: merge_next_id_def)

lemma map_of_fold_merge_next_id:
  "distinct (map fst xs) \<Longrightarrow>
   map_of (old_index_next_ids (fold merge_next_id xs p)) = map_of xs ++ map_of (old_index_next_ids p)"
proof (induction xs arbitrary: p)
  case (Cons x xs)
  have "map_of xs (fst x) = None" using Cons.prems by (simp add: map_of_eq_None_iff)
  then show ?case using Cons
    by (auto simp: merge_next_id_def fun_eq_iff map_add_def split: option.splits)
qed simp

lemma distinct_fold_merge_next_id:
  "distinct (map fst (old_index_next_ids p)) \<Longrightarrow>
   distinct (map fst (old_index_next_ids (fold merge_next_id xs p)))"
  by (induction xs arbitrary: p) (auto simp: merge_next_id_def map_of_eq_None_iff)

lemma fold_merge_removed_frame [simp]:
  "old_index_next_ids (fold merge_removed xs p) = old_index_next_ids p"
  by (induction xs arbitrary: p) (auto simp: merge_removed_def split: option.splits)

lemma set_fold_merge_removed:
  "set (new_ids (fold merge_removed xs p)) = set (new_ids p) - fst ` set xs"
  by (induction xs arbitrary: p) (auto simp: merge_removed_def split: option.splits)

lemma distinct_fold_merge_removed:
  "distinct (new_ids p) \<Longrightarrow> distinct (new_ids (fold merge_removed xs p))"
  "distinct (map fst (old_values p)) \<Longrightarrow> distinct (map fst (old_values (fold merge_removed xs p)))"
  "distinct (map fst (removed p)) \<Longrightarrow> distinct (map fst (removed (fold merge_removed xs p)))"
  by (induction xs arbitrary: p)
    (auto simp: merge_removed_def distinct_removeAll distinct_delete distinct_update
      split: option.splits)

lemma map_of_merge_removed:
  assumes dis: "set (new_ids p) \<inter> fst ` set (old_values p) = {}"
  shows "set (new_ids (merge_removed x p)) = set (new_ids p) - {fst x}"
    and "map_of (old_values (merge_removed x p)) = (map_of (old_values p))(fst x := None)"
    and "map_of (removed (merge_removed x p)) =
      (if fst x \<in> set (new_ids p) then map_of (removed p)
       else (map_of (removed p))(fst x \<mapsto>
         (case map_of (old_values p) (fst x) of Some w \<Rightarrow> w | None \<Rightarrow> snd x)))"
    and "set (new_ids (merge_removed x p)) \<inter> fst ` set (old_values (merge_removed x p)) = {}"
proof -
  have "fst x \<in> set (new_ids p) \<Longrightarrow> map_of (old_values p) (fst x) = None"
    using dis by (auto simp: map_of_eq_None_iff)
  then show "map_of (old_values (merge_removed x p)) = (map_of (old_values p))(fst x := None)"
    by (auto simp: merge_removed_def delete_conv' fun_upd_idem split: option.splits)
  show "set (new_ids (merge_removed x p)) = set (new_ids p) - {fst x}"
    by (auto simp: merge_removed_def split: option.splits)
  show "map_of (removed (merge_removed x p)) =
      (if fst x \<in> set (new_ids p) then map_of (removed p)
       else (map_of (removed p))(fst x \<mapsto>
         (case map_of (old_values p) (fst x) of Some w \<Rightarrow> w | None \<Rightarrow> snd x)))"
    by (simp add: merge_removed_def update_conv' split: option.splits)
  show "set (new_ids (merge_removed x p)) \<inter> fst ` set (old_values (merge_removed x p)) = {}"
    using dis by (auto simp: merge_removed_def keys_delete split: option.splits)
qed

lemma map_of_fold_merge_removed:
  assumes "distinct (map fst xs)" "set (new_ids p) \<inter> fst ` set (old_values p) = {}"
  shows "map_of (old_values (fold merge_removed xs p)) = map_of (old_values p) |` (- fst ` set xs) \<and>
    map_of (removed (fold merge_removed xs p)) =
      map_of (removed p) ++ (map_of xs ++ map_of (old_values p)) |` (fst ` set xs - set (new_ids p))"
  using assms
proof (induction xs arbitrary: p)
  case (Cons x xs)
  note step = map_of_merge_removed [OF Cons.prems(2), of x]
  have "fst x \<notin> fst ` set xs" "distinct (map fst xs)" using Cons.prems(1) by simp_all
  then have IH:
    "map_of (old_values (fold merge_removed (x # xs) p)) oid =
       ((map_of (old_values p))(fst x := None) |` (- fst ` set xs)) oid"
    "map_of (removed (fold merge_removed (x # xs) p)) oid =
       (map_of (removed (merge_removed x p)) ++ (map_of xs ++ (map_of (old_values p))(fst x := None))
          |` (fst ` set xs - (set (new_ids p) - {fst x}))) oid" for oid
    using Cons.IH [OF _ step(4), unfolded step(1,2)] by (simp_all only: fold_simps)
  show ?case
  proof (intro conjI ext)
    fix oid
    show "map_of (old_values (fold merge_removed (x # xs) p)) oid =
        (map_of (old_values p) |` (- fst ` set (x # xs))) oid"
      unfolding IH by (auto simp: restrict_map_def)
    show "map_of (removed (fold merge_removed (x # xs) p)) oid =
        (map_of (removed p) ++ (map_of (x # xs) ++ map_of (old_values p))
          |` (fst ` set (x # xs) - set (new_ids p))) oid"
      unfolding IH step(3) using \<open>fst x \<notin> fst ` set xs\<close>
      by (cases "oid = fst x") (simp_all add: restrict_map_def map_add_def split: option.splits)
  qed
qed (simp add: restrict_map_def fun_eq_iff map_add_def)

lemma fits_disjoint:
  assumes "fits st s"
  shows "oid \<in> set (new_ids st) \<Longrightarrow> map_of (old_values st) oid = None"
    and "oid \<in> set (new_ids st) \<Longrightarrow> map_of (removed st) oid = None"
    and "oid \<in> set (new_ids st) \<Longrightarrow> objects (revert st s) oid = None"
    and "oid \<in> set (new_ids st) \<Longrightarrow> \<exists>v. objects s oid = Some v"
    and "map_of (removed st) oid = Some v \<Longrightarrow> objects s oid = None"
    and "map_of (old_values st) oid = Some v \<Longrightarrow> \<exists>v. objects s oid = Some v"
    and "map_of (old_values st) oid = Some v \<Longrightarrow> map_of (removed st) oid = None"
proof -
  have f: "set (new_ids st) \<inter> fst ` set (old_values st) = {}" "set (new_ids st) \<subseteq> dom (objects s)"
    "fst ` set (old_values st) \<subseteq> dom (objects s)" "fst ` set (removed st) \<inter> dom (objects s) = {}"
    using assms by (simp_all add: fits_def)
  show "oid \<in> set (new_ids st) \<Longrightarrow> map_of (old_values st) oid = None"
    using f(1) by (auto simp: map_of_eq_None_iff)
  show "oid \<in> set (new_ids st) \<Longrightarrow> map_of (removed st) oid = None"
    using f(2,4) by (auto simp: map_of_eq_None_iff)
  show "oid \<in> set (new_ids st) \<Longrightarrow> objects (revert st s) oid = None"
    by (simp add: revert_def)
  show "oid \<in> set (new_ids st) \<Longrightarrow> \<exists>v. objects s oid = Some v"
    using f(2) by auto
  show "map_of (removed st) oid = Some v \<Longrightarrow> objects s oid = None"
    using f(4) by (force dest: map_of_SomeD)
  show "map_of (old_values st) oid = Some v \<Longrightarrow> \<exists>v. objects s oid = Some v"
    using f(3) by (force dest: map_of_SomeD)
  show "map_of (old_values st) oid = Some v \<Longrightarrow> map_of (removed st) oid = None"
    using f(3,4) by (force dest: map_of_SomeD simp: map_of_eq_None_iff)
qed

text \<open>The relationship of an object to an undo state, as in the matrix of \<^verbatim>\<open>merge\<close>.\<close>

lemma fits_cases:
  assumes "fits st s"
  obtains (new) v where "oid \<in> set (new_ids st)" "map_of (old_values st) oid = None"
      "map_of (removed st) oid = None" "objects s oid = Some v" "objects (revert st s) oid = None"
    | (upd) w v where "oid \<notin> set (new_ids st)" "map_of (old_values st) oid = Some w"
      "map_of (removed st) oid = None" "objects s oid = Some v" "objects (revert st s) oid = Some w"
    | (del) w where "oid \<notin> set (new_ids st)" "map_of (old_values st) oid = None"
      "map_of (removed st) oid = Some w" "objects s oid = None" "objects (revert st s) oid = Some w"
    | (nop) "oid \<notin> set (new_ids st)" "map_of (old_values st) oid = None"
      "map_of (removed st) oid = None" "objects (revert st s) oid = objects s oid"
proof (cases "oid \<in> set (new_ids st)")
  case True
  with fits_disjoint [OF assms, of oid] new show ?thesis by blast
next
  case False
  show ?thesis
  proof (cases "map_of (old_values st) oid")
    case None
    with False fits_disjoint(5) [OF assms, of oid] del nop show ?thesis
      by (cases "map_of (removed st) oid") (simp_all add: revert_def map_add_def)
  next
    case (Some w)
    with False fits_disjoint(6,7) [OF assms Some] upd show ?thesis
      by (auto simp: revert_def map_add_def)
  qed
qed

lemma merge_states_views:
  assumes st: "fits st s" and prev: "fits prev (revert st s)"
  defines "m \<equiv> merge_states prev st"
    and "old \<equiv> (map_of (old_values st) |` (- set (new_ids prev))) ++ map_of (old_values prev)"
  shows "set (new_ids m) = (set (new_ids prev) \<union> set (new_ids st)) - fst ` set (removed st)"
    and "map_of (old_index_next_ids m) =
           map_of (old_index_next_ids st) ++ map_of (old_index_next_ids prev)"
    and "map_of (old_values m) = old |` (- fst ` set (removed st))"
    and "map_of (removed m) = map_of (removed prev) ++ (map_of (removed st) ++ old)
           |` (fst ` set (removed st) - (set (new_ids prev) \<union> set (new_ids st)))"
proof -
  define p where "p = fold merge_next_id (old_index_next_ids st)
    ((fold merge_old_value (old_values st) prev)
      \<lparr>new_ids := fold List.insert (new_ids st) (new_ids (fold merge_old_value (old_values st) prev))\<rparr>)"
  have m: "m = fold merge_removed (removed st) p"
    by (simp add: m_def merge_states_def p_def Let_def)
  have d: "distinct (map fst (old_values st))" "distinct (map fst (removed st))"
    "distinct (map fst (old_index_next_ids st))"
    using st by (simp_all add: fits_def)
  have ins: "set (fold List.insert ys xs) = set ys \<union> set xs" for ys xs :: "object_id list"
    by (induction ys arbitrary: xs) auto
  have p: "set (new_ids p) = set (new_ids prev) \<union> set (new_ids st)" "removed p = removed prev"
    "map_of (old_values p) = old"
    "map_of (old_index_next_ids p) = map_of (old_index_next_ids st) ++ map_of (old_index_next_ids prev)"
    using d by (auto simp: p_def ins old_def map_of_fold_merge_old_value map_of_fold_merge_next_id)
  have "oid \<notin> dom old" if "oid \<in> set (new_ids p)" for oid
    using that fits_disjoint(1,3) [OF st, of oid] fits_disjoint(1,6) [OF prev, of oid] p(1)
    by (cases "map_of (old_values prev) oid") (auto simp: old_def restrict_map_def map_add_def split: if_splits)
  then have dis: "set (new_ids p) \<inter> fst ` set (old_values p) = {}"
    unfolding p(3) [symmetric] by (force simp: dom_map_of_conv_image_fst)
  show "set (new_ids m) = (set (new_ids prev) \<union> set (new_ids st)) - fst ` set (removed st)"
    by (simp add: m set_fold_merge_removed p(1))
  show "map_of (old_index_next_ids m) =
      map_of (old_index_next_ids st) ++ map_of (old_index_next_ids prev)"
    by (simp add: m p(4))
  show "map_of (old_values m) = old |` (- fst ` set (removed st))"
    "map_of (removed m) = map_of (removed prev) ++ (map_of (removed st) ++ old)
       |` (fst ` set (removed st) - (set (new_ids prev) \<union> set (new_ids st)))"
    using map_of_fold_merge_removed [OF d(2) dis] by (simp_all add: m p)
qed

lemma fits_new:
  "fits st s \<Longrightarrow> (i, k) \<in> set (new_ids st) \<Longrightarrow>
   \<exists>n. map_of (old_index_next_ids st) i = Some n \<and> n \<le> k"
  by (simp add: fits_def)

lemma new_not_removed_before:
  assumes "fits st s" "fits prev (revert st s)" "wf_snap (revert prev (revert st s))"
    and "oid \<in> set (new_ids st)"
  shows "map_of (removed prev) oid = None"
proof (rule ccontr)
  obtain i k where oid: "oid = (i, k)" by (cases oid)
  assume "map_of (removed prev) oid \<noteq> None"
  then have "(i, k) \<in> dom (objects (revert prev (revert st s)))"
    using assms(2) oid by (intro revert_removed_dom) (simp_all add: map_of_eq_None_iff)
  then obtain n' where n': "nexts (revert prev (revert st s)) i = Some n'" "k < n'"
    using wf_snapD [OF assms(3)] by blast
  obtain n where n: "map_of (old_index_next_ids st) i = Some n" "n \<le> k"
    using fits_new [OF assms(1)] assms(4) oid by blast
  then have "nexts (revert st s) i = Some n" by (simp add: revert_def)
  with nexts_revert_le [OF assms(2) n'(1)] n' n show False by fastforce
qed

lemma merge_states_revert:
  assumes st: "fits st s" and prev: "fits prev (revert st s)"
    and wf: "wf_snap (revert prev (revert st s))"
  shows "revert (merge_states prev st) s = revert prev (revert st s)"
proof (rule snapshot.equality)
  note v = merge_states_views [OF st prev]
  show "nexts (revert (merge_states prev st) s) = nexts (revert prev (revert st s))"
    by (simp add: revert_def v(2))
  show "objects (revert (merge_states prev st) s) = objects (revert prev (revert st s))"
  proof
    fix oid
    have r: "oid \<in> fst ` set (removed st) \<longleftrightarrow> map_of (removed st) oid \<noteq> None"
      by (simp add: map_of_eq_None_iff)
    show "objects (revert (merge_states prev st) s) oid = objects (revert prev (revert st s)) oid"
      using new_not_removed_before [OF st prev wf, of oid] r
      by (cases rule: fits_cases [OF st, of oid]; cases rule: fits_cases [OF prev, of oid])
        (simp_all add: revert_def v(1,3,4) restrict_map_def map_add_def)
  qed
qed simp

lemma distinct_merge_states:
  assumes "fits st s" "fits prev s'"
  shows "distinct (map fst (old_values (merge_states prev st)))"
    "distinct (map fst (removed (merge_states prev st)))"
    "distinct (new_ids (merge_states prev st))"
    "distinct (map fst (old_index_next_ids (merge_states prev st)))"
proof -
  have ins: "distinct xs \<Longrightarrow> distinct (fold List.insert ys xs)" for ys xs :: "object_id list"
    by (induction ys arbitrary: xs) auto
  show "distinct (map fst (old_values (merge_states prev st)))"
    "distinct (map fst (removed (merge_states prev st)))"
    "distinct (new_ids (merge_states prev st))"
    "distinct (map fst (old_index_next_ids (merge_states prev st)))"
    using assms ins
    by (simp_all add: merge_states_def Let_def fits_def distinct_fold_merge_removed
        distinct_fold_merge_old_value distinct_fold_merge_next_id)
qed

lemma keys_iff: "oid \<in> fst ` set xs \<longleftrightarrow> (\<exists>v. map_of xs oid = Some v)"
  by (simp flip: dom_map_of_conv_image_fst add: dom_def)

lemma merge_states_new:
  assumes st: "fits st s" and prev: "fits prev (revert st s)" and m: "(i, k) \<in> set (new_ids (merge_states prev st))"
  shows "\<exists>n. map_of (old_index_next_ids (merge_states prev st)) i = Some n \<and> n \<le> k"
proof (cases "(i, k) \<in> set (new_ids prev)")
  case True
  with fits_new [OF prev] show ?thesis by (fastforce simp: merge_states_views(2) [OF st prev])
next
  case False
  then obtain n where n: "map_of (old_index_next_ids st) i = Some n" "n \<le> k"
    using fits_new [OF st, of i k] m by (auto simp: merge_states_views(1) [OF st prev])
  then have "nexts (revert st s) i = Some n" by (simp add: revert_def)
  then have "map_of (old_index_next_ids prev) i = Some n' \<Longrightarrow> n' \<le> n" for n'
    using fits_next [OF prev] by fastforce
  with n show ?thesis
    by (cases "map_of (old_index_next_ids prev) i")
      (auto simp: merge_states_views(2) [OF st prev] map_add_def intro: order_trans)
qed

lemma merge_states_next:
  assumes st: "fits st s" and prev: "fits prev (revert st s)"
    and m: "map_of (old_index_next_ids (merge_states prev st)) i = Some n"
  shows "\<exists>m. nexts s i = Some m \<and> n \<le> m"
proof (cases "map_of (old_index_next_ids prev) i")
  case None
  with m show ?thesis using fits_next [OF st]
    by (simp add: merge_states_views(2) [OF st prev] map_add_def)
next
  case (Some n')
  with m have "n' = n" by (simp add: merge_states_views(2) [OF st prev])
  with Some obtain m where m: "nexts (revert st s) i = Some m" "n \<le> m"
    using fits_next [OF prev] by blast
  show ?thesis
  proof (cases "map_of (old_index_next_ids st) i")
    case None
    with m show ?thesis by (simp add: revert_def map_add_def)
  next
    case (Some m')
    with m have "m' = m" by (simp add: revert_def)
    with fits_next [OF st Some] m show ?thesis by (auto intro: order_trans)
  qed
qed

lemma merge_states_at:
  assumes st: "fits st s" and prev: "fits prev (revert st s)"
    and wf: "wf_snap (revert prev (revert st s))"
  defines "m \<equiv> merge_states prev st"
  shows "(oid \<in> set (new_ids m) \<longrightarrow> map_of (old_values m) oid = None \<and> objects s oid \<noteq> None) \<and>
    (map_of (old_values m) oid \<noteq> None \<longrightarrow> objects s oid \<noteq> None) \<and>
    (map_of (removed m) oid \<noteq> None \<longrightarrow> objects s oid = None)"
proof -
  have r: "oid \<in> fst ` set (removed st) \<longleftrightarrow> map_of (removed st) oid \<noteq> None"
    by (simp add: map_of_eq_None_iff)
  note v = merge_states_views [OF st prev, folded m_def]
  show ?thesis
    using new_not_removed_before [OF st prev wf, of oid] r
    by (cases rule: fits_cases [OF st, of oid]; cases rule: fits_cases [OF prev, of oid])
      (simp_all add: revert_def v(1,3,4) restrict_map_def map_add_def)
qed

lemma merge_states_fits:
  assumes st: "fits st s" and prev: "fits prev (revert st s)"
    and wf: "wf_snap (revert prev (revert st s))"
  shows "fits (merge_states prev st) s"
proof -
  let ?m = "merge_states prev st"
  have at: "oid \<in> set (new_ids ?m) \<Longrightarrow> oid \<notin> fst ` set (old_values ?m)"
    "oid \<in> set (new_ids ?m) \<Longrightarrow> oid \<in> dom (objects s)"
    "oid \<in> fst ` set (old_values ?m) \<Longrightarrow> oid \<in> dom (objects s)"
    "oid \<in> fst ` set (removed ?m) \<Longrightarrow> oid \<notin> dom (objects s)" for oid
    using merge_states_at [OF st prev wf, of oid] by (auto simp: keys_iff)
  have "set (new_ids ?m) \<inter> fst ` set (old_values ?m) = {}" using at(1) by blast
  moreover have "set (new_ids ?m) \<subseteq> dom (objects s)" using at(2) by blast
  moreover have "fst ` set (old_values ?m) \<subseteq> dom (objects s)" using at(3) by blast
  moreover have "fst ` set (removed ?m) \<inter> dom (objects s) = {}" using at(4) by blast
  ultimately show ?thesis
    unfolding fits_def
    using distinct_merge_states [OF st prev] merge_states_new [OF st prev]
      merge_states_next [OF st prev] by simp
qed

section \<open>The database operations on snapshots\<close>

definition sorted_db :: "'o object_database \<Rightarrow> bool" where
  "sorted_db d \<longleftrightarrow> (\<forall>i x. indexes d i = Some x \<longrightarrow> sorted_rows (rows x))"

definition same_frame :: "'o object_database \<Rightarrow> 'o object_database \<Rightarrow> bool" where
  "same_frame d d' \<longleftrightarrow> active_sessions d' = active_sessions d \<and> disabled d' = disabled d \<and>
     max_size d' = max_size d"

definition logged :: "('o undo_state \<Rightarrow> 'o undo_state) \<Rightarrow> 'o object_database \<Rightarrow> 'o undo_state list" where
  "logged f d = (if disabled d then stack d else f (fst (back_state d)) # snd (back_state d))"

lemma same_frame_refl [simp]: "same_frame d d"
  and same_frame_trans: "same_frame d d' \<Longrightarrow> same_frame d' d'' \<Longrightarrow> same_frame d d''"
  by (simp_all add: same_frame_def)

lemma on_hooks:
  "on_create d oid = d\<lparr>stack := logged (note_create oid) d\<rparr>"
  "on_modify d oid v = d\<lparr>stack := logged (note_modify oid v) d\<rparr>"
  "on_remove d oid v = d\<lparr>stack := logged (note_remove oid v) d\<rparr>"
  by (simp_all add: on_create_def on_modify_def on_remove_def logged_def split: prod.split)

lemma snap_indexes: "indexes d = indexes d' \<Longrightarrow> snap d = snap d'"
  by (simp add: snap_def)

lemma snap_update [simp]:
  "snap (d\<lparr>stack := x\<rparr>) = snap d" "snap (d\<lparr>disabled := b\<rparr>) = snap d"
  "snap (d\<lparr>active_sessions := n\<rparr>) = snap d"
  by (simp_all add: snap_def)

lemma put_index_frame [simp]:
  "stack (put_index d i x) = stack d" "disabled (put_index d i x) = disabled d"
  "back_state (put_index d i x) = back_state d"
  "same_frame d (put_index d i x)" "same_frame d ((put_index d i x)\<lparr>stack := st\<rparr>)"
  "same_frame d (put_index (d\<lparr>stack := st\<rparr>) i x)"
  by (simp_all add: put_index_def same_frame_def back_state_def)

lemma get_index_Inr: "get_index d i = Inr x \<longleftrightarrow> indexes d i = Some x"
  by (simp add: get_index_def split: option.split)

lemma get_object_Inr: "get_object d oid = Inr v \<longleftrightarrow> objects (snap d) oid = Some v"
  by (cases "indexes d (fst oid)")
    (auto simp: get_object_def snap_def get_index_def index_get_def ok_simps)

lemma sorted_db_put: "sorted_db d \<Longrightarrow> sorted_rows (rows x) \<Longrightarrow> sorted_db (put_index d i x)"
  by (auto simp: sorted_db_def put_index_def)

lemma sorted_db_update [simp]:
  "sorted_db (d\<lparr>stack := x\<rparr>) = sorted_db d" "sorted_db (d\<lparr>disabled := b\<rparr>) = sorted_db d"
  "sorted_db (d\<lparr>active_sessions := n\<rparr>) = sorted_db d"
  by (simp_all add: sorted_db_def)

lemma snap_put_row:
  assumes "indexes d i = Some x" "index_find x' = (index_find x)(k := ov)"
  shows "snap (put_index d i x') =
    (snap d)\<lparr>objects := (objects (snap d))((i, k) := ov), nexts := (nexts (snap d))(i \<mapsto> next_id x')\<rparr>"
  using assms by (auto simp: snap_def put_index_def fun_eq_iff)

lemma snap_put_row_same:
  assumes "indexes d i = Some x" "index_find x' = (index_find x)(k := ov)" "next_id x' = next_id x"
  shows "snap (put_index d i x') = (snap d)\<lparr>objects := (objects (snap d))((i, k) := ov)\<rparr>"
proof -
  have "(nexts (snap d))(i \<mapsto> next_id x') = nexts (snap d)"
    using assms by (auto simp: snap_def)
  then show ?thesis using snap_put_row [OF assms(1,2)] by simp
qed

lemma db_create_effect:
  assumes "sorted_db d" "db_create clash d i v = Inr (d', oid)"
  shows "\<exists>k. oid = (i, k) \<and> nexts (snap d) i = Some k \<and>
    snap d' = (snap d)\<lparr>objects := (objects (snap d))((i, k) \<mapsto> v), nexts := (nexts (snap d))(i \<mapsto> k + 1)\<rparr> \<and>
    sorted_db d' \<and> stack d' = logged (note_create (i, k)) d \<and> same_frame d d'"
proof -
  obtain x where x: "indexes d i = Some x"
    and k: "index_find x (next_id x) = None"
    and oid: "oid = (i, next_id x)"
    and d': "d' = on_create (put_index d i (x\<lparr>rows := row_insert (next_id x) v (rows x),
               next_id := next_id x + 1\<rparr>)) (i, next_id x)"
    using assms(2) by (auto simp: db_create_def ok_simps get_index_Inr index_create_Inr)
  let ?x = "x\<lparr>rows := row_insert (next_id x) v (rows x), next_id := next_id x + 1\<rparr>"
  have "index_find ?x = (index_find x)(next_id x \<mapsto> v)"
    using k by (simp add: index_find_def index_find_None map_of_row_insert map_of_eq_None_iff)
  moreover have "sorted_rows (rows ?x)"
    using assms(1) x k by (simp add: sorted_db_def sorted_rows_insert index_find_None)
  moreover have "nexts (snap d) i = Some (next_id x)" using x by (simp add: snap_def)
  ultimately show ?thesis
    using x snap_put_row [of d i x ?x] assms(1)
    by (intro exI [of _ "next_id x"])
      (simp add: oid d' on_hooks sorted_db_put logged_def)
qed

lemma db_modify_effect:
  assumes "sorted_db d" "db_modify clash d oid f = Inr d'"
  shows "\<exists>v w. objects (snap d) oid = Some v \<and> f v = Inr w \<and>
    snap d' = (snap d)\<lparr>objects := (objects (snap d))(oid \<mapsto> w)\<rparr> \<and>
    sorted_db d' \<and> stack d' = logged (note_modify oid v) d \<and> same_frame d d'"
proof -
  obtain v x w where v: "objects (snap d) oid = Some v" and x: "indexes d (fst oid) = Some x"
    and f: "index_find x (snd oid) = Some v" "f v = Inr w"
    and d': "d' = put_index (on_modify d oid v) (fst oid) (x\<lparr>rows := row_put (snd oid) w (rows x)\<rparr>)"
    using assms(2)
    by (auto simp: db_modify_def ok_simps get_object_Inr get_index_Inr index_modify_Inr snap_def)
  let ?x = "x\<lparr>rows := row_put (snd oid) w (rows x)\<rparr>"
  have "index_find ?x = (index_find x)(snd oid \<mapsto> w)"
    using index_find_Some_key [OF f(1)] by (simp add: index_find_def map_of_row_put)
  then have "snap (put_index d (fst oid) ?x) = (snap d)\<lparr>objects := (objects (snap d))(oid \<mapsto> w)\<rparr>"
    using snap_put_row_same [OF x, of ?x "snd oid"] by simp
  moreover have "snap d' = snap (put_index d (fst oid) ?x)"
    by (rule snap_indexes) (simp add: d' on_hooks put_index_def)
  moreover have "sorted_db d'"
    using assms(1) x by (auto simp: d' on_hooks sorted_db_def put_index_def)
  ultimately show ?thesis using v f by (simp add: d' on_hooks)
qed

lemma db_remove_effect:
  assumes "sorted_db d" "db_remove d oid = Inr d'"
  shows "\<exists>v. objects (snap d) oid = Some v \<and>
    snap d' = (snap d)\<lparr>objects := (objects (snap d))(oid := None)\<rparr> \<and>
    sorted_db d' \<and> stack d' = logged (note_remove oid v) d \<and> same_frame d d'"
proof -
  obtain v x where v: "objects (snap d) oid = Some v" and x: "indexes d (fst oid) = Some x"
    and d': "d' = put_index (on_remove d oid v) (fst oid) (x\<lparr>rows := row_delete (snd oid) (rows x)\<rparr>)"
    using assms(2)
    by (auto simp: db_remove_def ok_simps get_object_Inr get_index_Inr index_remove_Inr)
  let ?x = "x\<lparr>rows := row_delete (snd oid) (rows x)\<rparr>"
  have "index_find ?x = (index_find x)(snd oid := None)"
    by (simp add: index_find_def map_of_row_delete)
  then have "snap (put_index d (fst oid) ?x) = (snap d)\<lparr>objects := (objects (snap d))(oid := None)\<rparr>"
    using snap_put_row_same [OF x, of ?x "snd oid"] by simp
  moreover have "snap d' = snap (put_index d (fst oid) ?x)"
    by (rule snap_indexes) (simp add: d' on_hooks put_index_def)
  moreover have "sorted_db d'"
    using assms(1) x by (auto simp: d' on_hooks sorted_db_def put_index_def sorted_rows_delete)
  ultimately show ?thesis using v by (simp add: d' on_hooks)
qed

lemma db_insert_effect:
  assumes "sorted_db d" "db_insert clash d oid v = Inr d'"
  shows "objects (snap d) oid = None \<and>
    snap d' = (snap d)\<lparr>objects := (objects (snap d))(oid \<mapsto> v)\<rparr> \<and>
    sorted_db d' \<and> stack d' = stack d \<and> same_frame d d'"
proof -
  obtain x where x: "indexes d (fst oid) = Some x" and k: "index_find x (snd oid) = None"
    and d': "d' = put_index d (fst oid) (x\<lparr>rows := row_insert (snd oid) v (rows x)\<rparr>)"
    using assms(2) by (auto simp: db_insert_def ok_simps get_index_Inr index_insert_Inr)
  let ?x = "x\<lparr>rows := row_insert (snd oid) v (rows x)\<rparr>"
  have "index_find ?x = (index_find x)(snd oid \<mapsto> v)"
    using k by (simp add: index_find_def map_of_row_insert map_of_eq_None_iff)
  moreover have "sorted_rows (rows ?x)"
    using assms(1) x k by (simp add: sorted_db_def sorted_rows_insert index_find_None)
  ultimately show ?thesis
    using snap_put_row_same [OF x, of ?x "snd oid"] assms(1) x k
    by (auto simp: d' sorted_db_put snap_def)
qed

lemma db_set_next_id_effect:
  assumes "sorted_db d" "db_set_next_id d i n = Inr d'"
  shows "snap d' = (snap d)\<lparr>nexts := (nexts (snap d))(i \<mapsto> n)\<rparr> \<and>
    sorted_db d' \<and> stack d' = stack d \<and> same_frame d d'"
proof -
  obtain x where x: "indexes d i = Some x" and d': "d' = put_index d i (x\<lparr>next_id := n\<rparr>)"
    using assms(2) by (auto simp: db_set_next_id_def ok_simps get_index_Inr set_next_id_def)
  have "snap d' = (snap d)\<lparr>nexts := (nexts (snap d))(i \<mapsto> n)\<rparr>"
    using x by (auto simp: d' snap_def put_index_def fun_eq_iff index_find_def)
  then show ?thesis using assms(1) x by (auto simp: d' sorted_db_def put_index_def same_frame_def)
qed

section \<open>Restoring an undo state\<close>

text \<open>The four loops of \<^verbatim>\<open>undo\<close>, on a database whose logging is off.\<close>

definition silent :: "'o object_database \<Rightarrow> 'o object_database \<Rightarrow> bool" where
  "silent d d' \<longleftrightarrow> sorted_db d' \<and> stack d' = stack d \<and> same_frame d d'"

lemma silent_trans: "silent d d' \<Longrightarrow> silent d' d'' \<Longrightarrow> silent d d''"
  by (auto simp: silent_def intro: same_frame_trans)

lemma silent_disabled: "silent d d' \<Longrightarrow> disabled d' = disabled d"
  by (simp add: silent_def same_frame_def)

lemma fold_silent:
  assumes step: "\<And>x d d'. sorted_db d \<Longrightarrow> disabled d \<Longrightarrow> f x d = Inr d' \<Longrightarrow>
      snap d' = g x (snap d) \<and> silent d d'"
    and "sorted_db d" "disabled d" "fold_result f xs d = Inr d'"
  shows "snap d' = fold g xs (snap d) \<and> silent d d'"
  using assms(2-4)
proof (induction xs arbitrary: d)
  case (Cons x xs)
  obtain d1 where d1: "f x d = Inr d1" "fold_result f xs d1 = Inr d'"
    using Cons.prems(3) by (auto simp: ok_simps)
  have s1: "snap d1 = g x (snap d)" "silent d d1" using step [OF Cons.prems(1,2) d1(1)] by simp_all
  then have "snap d' = fold g xs (snap d1)" "silent d1 d'"
    using Cons.IH [OF _ _ d1(2)] Cons.prems(2) by (auto simp: silent_def same_frame_def)
  with s1 show ?case by (auto intro: silent_trans)
qed (simp add: silent_def)

lemma map_add_upd_map_of:
  "k \<notin> fst ` set xs \<Longrightarrow> m(k \<mapsto> v) ++ map_of xs = (m ++ map_of xs)(k \<mapsto> v)"
  by (simp add: map_add_upd_left dom_map_of_conv_image_fst)

lemma fold_put_objects:
  "distinct (map fst xs) \<Longrightarrow>
   fold (\<lambda>(oid, v) s. s\<lparr>objects := (objects s)(oid \<mapsto> v)\<rparr>) xs s = s\<lparr>objects := objects s ++ map_of xs\<rparr>"
  by (induction xs arbitrary: s) (auto simp: map_add_upd_map_of simp del: fun_upd_apply)

lemma fold_put_nexts:
  "distinct (map fst xs) \<Longrightarrow>
   fold (\<lambda>(i, n) s. s\<lparr>nexts := (nexts s)(i \<mapsto> n)\<rparr>) xs s = s\<lparr>nexts := nexts s ++ map_of xs\<rparr>"
  by (induction xs arbitrary: s) (auto simp: map_add_upd_map_of simp del: fun_upd_apply)

lemma fold_drop_objects:
  "fold (\<lambda>oid s. s\<lparr>objects := (objects s)(oid := None)\<rparr>) xs s = s\<lparr>objects := objects s |` (- set xs)\<rparr>"
  by (induction xs arbitrary: s) (auto simp: restrict_map_def fun_eq_iff intro!: snapshot.equality)

lemma restore_old_values:
  assumes "sorted_db d" "disabled d" "distinct (map fst xs)"
    and "fold_result (\<lambda>(oid, v) d. db_modify clash d oid (\<lambda>_. Inr v)) xs d = Inr d'"
  shows "snap d' = (snap d)\<lparr>objects := objects (snap d) ++ map_of xs\<rparr> \<and> silent d d'"
  unfolding fold_put_objects [OF assms(3), symmetric]
  using assms(1,2,4)
  by (intro fold_silent) (auto dest: db_modify_effect simp: silent_def logged_def)

lemma restore_new_ids:
  assumes "sorted_db d" "disabled d" "fold_result (\<lambda>oid d. db_remove d oid) xs d = Inr d'"
  shows "snap d' = (snap d)\<lparr>objects := objects (snap d) |` (- set xs)\<rparr> \<and> silent d d'"
  unfolding fold_drop_objects [symmetric]
  using assms by (intro fold_silent) (auto dest: db_remove_effect simp: silent_def logged_def)

lemma restore_next_ids:
  assumes "sorted_db d" "disabled d" "distinct (map fst xs)"
    and "fold_result (\<lambda>(i, n) d. db_set_next_id d i n) xs d = Inr d'"
  shows "snap d' = (snap d)\<lparr>nexts := nexts (snap d) ++ map_of xs\<rparr> \<and> silent d d'"
  unfolding fold_put_nexts [OF assms(3), symmetric]
  using assms(1,2,4)
  by (intro fold_silent) (auto dest: db_set_next_id_effect simp: silent_def)

lemma restore_removed:
  assumes "sorted_db d" "disabled d" "distinct (map fst xs)"
    and "fold_result (\<lambda>(oid, v) d. db_insert clash d oid v) xs d = Inr d'"
  shows "snap d' = (snap d)\<lparr>objects := objects (snap d) ++ map_of xs\<rparr> \<and> silent d d'"
  unfolding fold_put_objects [OF assms(3), symmetric]
  using assms(1,2,4)
  by (intro fold_silent) (auto dest: db_insert_effect simp: silent_def)

lemma revert_loops:
  assumes "fits st s"
  shows "(objects s ++ map_of (old_values st)) |` (- set (new_ids st)) ++ map_of (removed st) =
    objects (revert st s)"
proof
  fix oid
  show "((objects s ++ map_of (old_values st)) |` (- set (new_ids st)) ++ map_of (removed st)) oid =
      objects (revert st s) oid"
    by (cases rule: fits_cases [OF assms, of oid]) (simp_all add: map_add_def restrict_map_def)
qed

lemma restore_state_effect:
  assumes "sorted_db d" "disabled d" "fits st (snap d)" "restore_state clash st d = Inr d'"
  shows "snap d' = revert st (snap d) \<and> silent d d'"
proof -
  have dist: "distinct (map fst (old_values st))" "distinct (map fst (removed st))"
    "distinct (map fst (old_index_next_ids st))"
    using assms(3) by (simp_all add: fits_def)
  obtain d1 d2 d3 where
    1: "fold_result (\<lambda>(oid, v) d. db_modify clash d oid (\<lambda>_. Inr v)) (old_values st) d = Inr d1" and
    2: "fold_result (\<lambda>oid d. db_remove d oid) (new_ids st) d1 = Inr d2" and
    3: "fold_result (\<lambda>(i, n) d. db_set_next_id d i n) (old_index_next_ids st) d2 = Inr d3" and
    4: "fold_result (\<lambda>(oid, v) d. db_insert clash d oid v) (removed st) d3 = Inr d'"
    using assms(4) by (auto simp: restore_state_def ok_simps)
  note r1 = restore_old_values [OF assms(1,2) dist(1) 1]
  then have s1: "sorted_db d1" "disabled d1" using assms(2) by (auto simp: silent_def same_frame_def)
  note r2 = restore_new_ids [OF s1 2]
  then have s2: "sorted_db d2" "disabled d2" using s1 by (simp_all add: silent_def same_frame_def)
  note r3 = restore_next_ids [OF s2 dist(3) 3]
  then have s3: "sorted_db d3" "disabled d3" using s2 by (simp_all add: silent_def same_frame_def)
  note r4 = restore_removed [OF s3 dist(2) 4]
  have "objects (snap d') = objects (revert st (snap d))"
    using r1 r2 r3 r4 by (simp add: revert_loops [OF assms(3), symmetric])
  moreover have "nexts (snap d') = nexts (revert st (snap d))"
    using r1 r2 r3 r4 by (simp add: revert_def)
  ultimately show ?thesis using r1 r2 r3 r4 by (auto intro: snapshot.equality silent_trans)
qed

text \<open>
  The loops succeed when no two different objects among the present ones and the saved
  ones share a unique key.
\<close>

definition conflict_free :: "('o \<Rightarrow> 'o \<Rightarrow> bool) \<Rightarrow> (object_id \<times> 'o) set \<Rightarrow> bool" where
  "conflict_free clash P \<longleftrightarrow>
     (\<forall>(a, v) \<in> P. \<forall>(b, w) \<in> P. fst a = fst b \<and> a \<noteq> b \<longrightarrow> \<not> clash v w)"

definition pool :: "'o undo_state \<Rightarrow> 'o snapshot \<Rightarrow> (object_id \<times> 'o) set" where
  "pool st s = {(oid, v). objects s oid = Some v} \<union> set (old_values st) \<union> set (removed st)"

definition drawn_from :: "(object_id \<times> 'o) set \<Rightarrow> 'o object_database \<Rightarrow> bool" where
  "drawn_from P d \<longleftrightarrow> (\<forall>oid v. objects (snap d) oid = Some v \<longrightarrow> (oid, v) \<in> P)"

lemma no_violation:
  assumes "sorted_db d" "conflict_free clash P" "drawn_from P d" "(oid, v) \<in> P"
    "indexes d (fst oid) = Some x"
  shows "\<not> violates clash (rows x) (snd oid) v"
proof
  assume "violates clash (rows x) (snd oid) v"
  then obtain k w where kw: "(k, w) \<in> set (rows x)" "k \<noteq> snd oid" "clash v w"
    by (auto simp: violates_def list_ex_iff)
  have "distinct (map fst (rows x))" using assms(1,5) sorted_rows_distinct by (auto simp: sorted_db_def)
  then have "objects (snap d) (fst oid, k) = Some w"
    using kw(1) assms(5) by (simp add: snap_def index_find_def)
  then have "((fst oid, k), w) \<in> P" using assms(3) by (simp add: drawn_from_def)
  with assms(2,4) kw show False by (cases oid) (fastforce simp: conflict_free_def)
qed

lemma db_modify_succeeds:
  assumes "sorted_db d" "conflict_free clash P" "drawn_from P d" "(oid, v) \<in> P"
    "oid \<in> dom (objects (snap d))"
  shows "\<exists>d'. db_modify clash d oid (\<lambda>_. Inr v) = Inr d' \<and> drawn_from P d'"
proof -
  obtain x w where x: "indexes d (fst oid) = Some x" "index_find x (snd oid) = Some w"
    using assms(5) by (auto simp: snap_def dom_def bind_eq_Some_conv)
  then have "get_object d oid = Inr w" by (simp add: get_object_Inr snap_def)
  with x no_violation [OF assms(1-4) x(1)]
  obtain d' where d': "db_modify clash d oid (\<lambda>_. Inr v) = Inr d'"
    by (auto simp: db_modify_def get_index_def index_modify_def index_get_def)
  moreover have "drawn_from P d'"
    using db_modify_effect [OF assms(1) d'] assms(3,4) by (auto simp: drawn_from_def split: if_splits)
  ultimately show ?thesis by blast
qed

lemma db_remove_succeeds:
  assumes "sorted_db d" "drawn_from P d" "oid \<in> dom (objects (snap d))"
  shows "\<exists>d'. db_remove d oid = Inr d' \<and> drawn_from P d'"
proof -
  obtain x w where x: "indexes d (fst oid) = Some x" "index_find x (snd oid) = Some w"
    using assms(3) by (auto simp: snap_def dom_def bind_eq_Some_conv)
  then have "get_object d oid = Inr w" by (simp add: get_object_Inr snap_def)
  with x obtain d' where d': "db_remove d oid = Inr d'"
    by (auto simp: db_remove_def get_index_def index_remove_def index_get_def)
  moreover have "drawn_from P d'"
    using db_remove_effect [OF assms(1) d'] assms(2) by (auto simp: drawn_from_def split: if_splits)
  ultimately show ?thesis by blast
qed

lemma db_insert_succeeds:
  assumes "sorted_db d" "conflict_free clash P" "drawn_from P d" "(oid, v) \<in> P"
    "oid \<notin> dom (objects (snap d))" "fst oid \<in> dom (nexts (snap d))"
  shows "\<exists>d'. db_insert clash d oid v = Inr d' \<and> drawn_from P d'"
proof -
  obtain x where x: "indexes d (fst oid) = Some x" "index_find x (snd oid) = None"
    using assms(5,6) by (cases "indexes d (fst oid)") (auto simp: snap_def domIff)
  with no_violation [OF assms(1-4) x(1)]
  obtain d' where d': "db_insert clash d oid v = Inr d'"
    by (auto simp: db_insert_def get_index_def index_insert_def)
  moreover have "drawn_from P d'"
    using db_insert_effect [OF assms(1) d'] assms(3,4) by (auto simp: drawn_from_def split: if_splits)
  ultimately show ?thesis by blast
qed

lemma fold_succeeds:
  assumes step: "\<And>x d. x \<in> set xs \<Longrightarrow> I x d \<Longrightarrow> J d \<Longrightarrow> \<exists>d'. f x d = Inr d' \<and> J d' \<and>
      (\<forall>y \<in> set xs. y \<noteq> x \<longrightarrow> I y d \<longrightarrow> I y d')"
    and "\<forall>x \<in> set xs. I x d" "J d" "distinct xs"
  shows "\<exists>d'. fold_result f xs d = Inr d' \<and> J d'"
  using assms
proof (induction xs arbitrary: d)
  case (Cons x xs)
  obtain d1 where d1: "f x d = Inr d1" "J d1" "\<forall>y \<in> set xs. I y d1"
    using Cons.prems(1) [of x d] Cons.prems(2-4) by fastforce
  have "\<exists>d'. fold_result f xs d1 = Inr d' \<and> J d'"
  proof (rule Cons.IH)
    fix y d
    assume "y \<in> set xs" "I y d" "J d"
    then show "\<exists>d'. f y d = Inr d' \<and> J d' \<and> (\<forall>z \<in> set xs. z \<noteq> y \<longrightarrow> I z d \<longrightarrow> I z d')"
      using Cons.prems(1) [of y d] by fastforce
  qed (use d1 Cons.prems(4) in simp_all)
  with d1 show ?case by simp
qed simp

text \<open>What every loop of the restoration keeps.\<close>

definition restorable :: "(object_id \<times> 'o) set \<Rightarrow> object_id set \<Rightarrow> index_id set \<Rightarrow>
    'o object_database \<Rightarrow> bool" where
  "restorable P D idx d \<longleftrightarrow> sorted_db d \<and> drawn_from P d \<and> dom (nexts (snap d)) = idx \<and>
     dom (objects (snap d)) = D"

lemma restore_old_values_succeeds:
  assumes "conflict_free clash P" "restorable P D idx d" "set xs \<subseteq> P" "fst ` set xs \<subseteq> D" "distinct xs"
  shows "\<exists>d'. fold_result (\<lambda>(oid, v) d. db_modify clash d oid (\<lambda>_. Inr v)) xs d = Inr d' \<and>
    restorable P D idx d'"
proof (rule fold_succeeds [where I = "\<lambda>_ _. True"])
  fix x and d :: "'a object_database"
  assume x: "x \<in> set xs" "restorable P D idx d"
  obtain oid v where [simp]: "x = (oid, v)" by (cases x)
  have d: "sorted_db d" "drawn_from P d" "(oid, v) \<in> P" "oid \<in> dom (objects (snap d))"
    using x assms(3,4) by (force simp: restorable_def)+
  obtain d' where d': "db_modify clash d oid (\<lambda>_. Inr v) = Inr d'" "drawn_from P d'"
    using db_modify_succeeds [OF d(1) assms(1) d(2-4)] by blast
  then have "restorable P D idx d'"
    using db_modify_effect [OF d(1) d'(1)] x(2) d(4) by (auto simp: restorable_def split: if_splits)
  with d' show "\<exists>d'. (case x of (oid, v) \<Rightarrow> \<lambda>d. db_modify clash d oid (\<lambda>_. Inr v)) d = Inr d' \<and>
      restorable P D idx d' \<and> (\<forall>y \<in> set xs. y \<noteq> x \<longrightarrow> True \<longrightarrow> True)" by simp
qed (use assms in simp_all)

lemma restore_new_ids_succeeds:
  assumes "sorted_db d" "drawn_from P d" "dom (nexts (snap d)) = idx" "set xs \<subseteq> dom (objects (snap d))" "distinct xs"
  shows "\<exists>d'. fold_result (\<lambda>oid d. db_remove d oid) xs d = Inr d' \<and>
    sorted_db d' \<and> drawn_from P d' \<and> dom (nexts (snap d')) = idx"
proof (rule fold_succeeds [where I = "\<lambda>oid d. oid \<in> dom (objects (snap d))"])
  fix x and d :: "'a object_database"
  assume x: "x \<in> set xs" "x \<in> dom (objects (snap d))"
    "sorted_db d \<and> drawn_from P d \<and> dom (nexts (snap d)) = idx"
  then obtain d' where d': "db_remove d x = Inr d'" "drawn_from P d'"
    using db_remove_succeeds by blast
  with db_remove_effect [OF _ d'(1)] x
  show "\<exists>d'. db_remove d x = Inr d' \<and> (sorted_db d' \<and> drawn_from P d' \<and> dom (nexts (snap d')) = idx) \<and>
      (\<forall>y \<in> set xs. y \<noteq> x \<longrightarrow> y \<in> dom (objects (snap d)) \<longrightarrow> y \<in> dom (objects (snap d')))"
    by auto
qed (use assms in auto)

lemma restore_next_ids_succeeds:
  assumes "sorted_db d" "drawn_from P d" "dom (nexts (snap d)) = idx" "fst ` set xs \<subseteq> idx" "distinct xs"
    "dom (objects (snap d)) = D"
  shows "\<exists>d'. fold_result (\<lambda>(i, n) d. db_set_next_id d i n) xs d = Inr d' \<and>
    sorted_db d' \<and> drawn_from P d' \<and> dom (nexts (snap d')) = idx \<and> dom (objects (snap d')) = D"
proof (rule fold_succeeds [where I = "\<lambda>_ _. True"])
  fix x and d :: "'a object_database"
  assume x: "x \<in> set xs" "sorted_db d \<and> drawn_from P d \<and> dom (nexts (snap d)) = idx \<and>
    dom (objects (snap d)) = D"
  obtain i n where [simp]: "x = (i, n)" by (cases x)
  have "i \<in> dom (nexts (snap d))" using x assms(4) by auto
  then obtain d' where d': "db_set_next_id d i n = Inr d'"
    by (auto simp: db_set_next_id_def get_index_def snap_def)
  with db_set_next_id_effect [OF _ d'] x \<open>i \<in> dom (nexts (snap d))\<close>
  show "\<exists>d'. (case x of (i, n) \<Rightarrow> \<lambda>d. db_set_next_id d i n) d = Inr d' \<and>
      (sorted_db d' \<and> drawn_from P d' \<and> dom (nexts (snap d')) = idx \<and> dom (objects (snap d')) = D) \<and>
      (\<forall>y \<in> set xs. y \<noteq> x \<longrightarrow> True \<longrightarrow> True)"
    by (auto simp: drawn_from_def)
qed (use assms in simp_all)

lemma restore_removed_succeeds:
  assumes "conflict_free clash P" "sorted_db d" "drawn_from P d" "dom (nexts (snap d)) = idx"
    "set xs \<subseteq> P" "fst ` set xs \<inter> dom (objects (snap d)) = {}" "fst ` fst ` set xs \<subseteq> idx"
    "distinct (map fst xs)"
  shows "\<exists>d'. fold_result (\<lambda>(oid, v) d. db_insert clash d oid v) xs d = Inr d' \<and>
    sorted_db d' \<and> drawn_from P d' \<and> dom (nexts (snap d')) = idx"
proof (rule fold_succeeds [where I = "\<lambda>x d. fst x \<notin> dom (objects (snap d))"])
  fix x and d :: "'a object_database"
  assume x: "x \<in> set xs" "fst x \<notin> dom (objects (snap d))"
    "sorted_db d \<and> drawn_from P d \<and> dom (nexts (snap d)) = idx"
  obtain oid v where [simp]: "x = (oid, v)" by (cases x)
  have "(oid, v) \<in> P" "fst oid \<in> dom (nexts (snap d))" using x assms(5,7) by force+
  then obtain d' where d': "db_insert clash d oid v = Inr d'" "drawn_from P d'"
    using db_insert_succeeds [OF _ assms(1)] x by (metis fst_conv \<open>x = (oid, v)\<close>)
  have "y \<in> set xs \<Longrightarrow> y \<noteq> x \<Longrightarrow> fst y \<noteq> oid" for y
    using x(1) assms(8) eq_key_imp_eq_value [of xs oid "snd y" v] by (cases y) auto
  with db_insert_effect [OF _ d'(1)] x d'
  show "\<exists>d'. (case x of (oid, v) \<Rightarrow> \<lambda>d. db_insert clash d oid v) d = Inr d' \<and>
      (sorted_db d' \<and> drawn_from P d' \<and> dom (nexts (snap d')) = idx) \<and>
      (\<forall>y \<in> set xs. y \<noteq> x \<longrightarrow> fst y \<notin> dom (objects (snap d)) \<longrightarrow> fst y \<notin> dom (objects (snap d')))"
    by auto
qed (use assms in \<open>auto simp: distinct_map\<close>)

lemma restore_state_succeeds:
  assumes "sorted_db d" "disabled d" "fits st (snap d)" "wf_snap (revert st (snap d))"
    "conflict_free clash (pool st (snap d))"
  shows "\<exists>d'. restore_state clash st d = Inr d'"
proof -
  let ?P = "pool st (snap d)" and ?idx = "dom (nexts (snap d))"
  have dist: "distinct (map fst (old_values st))" "distinct (map fst (removed st))" "distinct (new_ids st)"
    "distinct (map fst (old_index_next_ids st))" and dom:
    "set (new_ids st) \<subseteq> dom (objects (snap d))" "fst ` set (old_values st) \<subseteq> dom (objects (snap d))"
    using assms(3) by (simp_all add: fits_def)
  have idx: "fst ` set (old_index_next_ids st) \<subseteq> ?idx"
  proof
    fix i
    assume "i \<in> fst ` set (old_index_next_ids st)"
    then obtain n where "map_of (old_index_next_ids st) i = Some n" unfolding keys_iff by blast
    then show "i \<in> ?idx" using fits_next [OF assms(3)] by blast
  qed
  have "restorable ?P (dom (objects (snap d))) ?idx d"
    using assms(1) by (auto simp: restorable_def drawn_from_def pool_def)
  moreover have "set (old_values st) \<subseteq> ?P" by (auto simp: pool_def)
  ultimately obtain d1 where
    1: "fold_result (\<lambda>(oid, v) d. db_modify clash d oid (\<lambda>_. Inr v)) (old_values st) d = Inr d1"
    and r1: "restorable ?P (dom (objects (snap d))) ?idx d1"
    using restore_old_values_succeeds [OF assms(5)] dom(2) dist(1) unfolding distinct_map by blast
  note e1 = restore_old_values [OF assms(1,2) dist(1) 1]
  obtain d2 where 2: "fold_result (\<lambda>oid d. db_remove d oid) (new_ids st) d1 = Inr d2"
    and r2: "sorted_db d2" "drawn_from ?P d2" "dom (nexts (snap d2)) = ?idx"
    using restore_new_ids_succeeds [of d1 ?P ?idx "new_ids st"] r1 dom(1) dist(3)
    unfolding restorable_def by blast
  have e2: "objects (snap d2) = objects (snap d1) |` (- set (new_ids st))"
    using restore_new_ids [OF _ _ 2] r1 e1 assms(2) by (auto simp: restorable_def silent_disabled)
  obtain d3 where 3: "fold_result (\<lambda>(i, n) d. db_set_next_id d i n) (old_index_next_ids st) d2 = Inr d3"
    and r3: "sorted_db d3" "drawn_from ?P d3" "dom (nexts (snap d3)) = ?idx"
      "dom (objects (snap d3)) = dom (objects (snap d2))"
    using restore_next_ids_succeeds [OF r2 idx _ refl] dist(4) unfolding distinct_map by blast
  have "fst ` set (removed st) \<inter> dom (objects (snap d3)) = {}"
    using assms(3) r1 by (auto simp: r3(4) e2 fits_def restorable_def)
  moreover have "fst ` fst ` set (removed st) \<subseteq> ?idx"
  proof -
    have "fst oid \<in> ?idx" if "oid \<in> fst ` set (removed st)" for oid
      using wf_snapD [OF assms(4), of "fst oid" "snd oid"] revert_removed_dom [OF assms(3) that] idx
      by (auto simp: revert_def map_add_Some_iff keys_iff subset_iff)
    then show ?thesis by blast
  qed
  ultimately obtain d4 where "fold_result (\<lambda>(oid, v) d. db_insert clash d oid v) (removed st) d3 = Inr d4"
    using restore_removed_succeeds [OF assms(5) r3(1,2,3), of "removed st"] dist(2)
    by (auto simp: pool_def)
  with 1 2 3 show ?thesis by (simp add: restore_state_def)
qed

section \<open>The undo database implements a stack of snapshots\<close>

lemma db_inv_sorted: "db_inv d \<Longrightarrow> sorted_db d"
  by (simp add: db_inv_def sorted_db_def)

lemma fits_empty [simp]: "fits empty_undo_state s"
  by (simp add: fits_def empty_undo_state_def)

lemma revert_empty [simp]: "revert empty_undo_state s = s"
  by (simp add: revert_def empty_undo_state_def)

definition open_history :: "'o object_database \<Rightarrow> 'o snapshot list" where
  "open_history d = (if stack d = [] then [snap d] else history (stack d) (snap d))"

lemma wf_back_state:
  assumes "db_inv d" "back_state d = (st, rest)"
  shows "wf_snap (snap d)" "fits st (snap d)" "wf_snap (revert st (snap d))"
    "wf_history rest (revert st (snap d))" "history (st # rest) (snap d) = open_history d"
proof -
  have "wf_history (stack d) (snap d)" using assms(1) by (simp add: db_inv_def)
  moreover have "wf_history sts s \<Longrightarrow> wf_snap s" for sts and s :: "'a snapshot" by (cases sts) auto
  ultimately show "wf_snap (snap d)" "fits st (snap d)" "wf_snap (revert st (snap d))"
    "wf_history rest (revert st (snap d))" "history (st # rest) (snap d) = open_history d"
    using assms(2) by (auto simp: back_state_def open_history_def split: list.splits)
qed

lemma logged_change:
  assumes "db_inv d" "\<not> disabled d" "sorted_db d'" "same_frame d d'" "wf_snap (snap d')"
    and "back_state d = (st, rest)" "stack d' = f st # rest"
    and "revert (f st) (snap d') = revert st (snap d)" "fits (f st) (snap d')"
  shows "db_inv d' \<and> history (stack d') (snap d') = open_history d \<and> same_frame d d'"
proof -
  note w = wf_back_state [OF assms(1,6)]
  have "history (f st # rest) (snap d') = open_history d"
    using w(5) assms(8) by simp
  moreover have "db_inv d'"
    using assms w(4) by (simp add: db_inv_def sorted_db_def)
  ultimately show ?thesis using assms(4,7) by simp
qed

lemma wf_snap_upd:
  "wf_snap s \<Longrightarrow> oid \<in> dom (objects s) \<Longrightarrow> wf_snap (s\<lparr>objects := (objects s)(oid := v)\<rparr>)"
  by (auto simp: wf_snap_def split: if_splits)

lemma db_create_history:
  assumes "db_inv d" "\<not> disabled d" "db_create clash d i v = Inr (d', oid)"
  shows "db_inv d' \<and> history (stack d') (snap d') = open_history d \<and> same_frame d d'"
proof -
  obtain st rest where b: "back_state d = (st, rest)" by (cases "back_state d")
  note w = wf_back_state [OF assms(1) b]
  obtain k where k: "nexts (snap d) i = Some k"
    "snap d' = (snap d)\<lparr>objects := (objects (snap d))((i, k) \<mapsto> v), nexts := (nexts (snap d))(i \<mapsto> k + 1)\<rparr>"
    "sorted_db d'" "stack d' = logged (note_create (i, k)) d" "same_frame d d'"
    using db_create_effect [OF db_inv_sorted [OF assms(1)] assms(3)] by blast
  have "wf_snap (snap d')"
    using w(1) k(1) unfolding k(2) by (fastforce simp: wf_snap_def split: if_splits)
  then show ?thesis
    using note_create_revert [OF w(2,1,3) k(1), of v] k assms(1,2) b
    by (intro logged_change [where f = "note_create (i, k)"]) (simp_all add: logged_def)
qed

lemma db_modify_history:
  assumes "db_inv d" "\<not> disabled d" "db_modify clash d oid f = Inr d'"
  shows "db_inv d' \<and> history (stack d') (snap d') = open_history d \<and> same_frame d d'"
proof -
  obtain st rest where b: "back_state d = (st, rest)" by (cases "back_state d")
  note w = wf_back_state [OF assms(1) b]
  obtain v u where v: "objects (snap d) oid = Some v"
    "snap d' = (snap d)\<lparr>objects := (objects (snap d))(oid \<mapsto> u)\<rparr>"
    "sorted_db d'" "stack d' = logged (note_modify oid v) d" "same_frame d d'"
    using db_modify_effect [OF db_inv_sorted [OF assms(1)] assms(3)] by blast
  then show ?thesis
    using note_modify_revert [OF w(2) v(1), of u] wf_snap_upd [OF w(1), of oid "Some u"] assms(1,2) b
    by (intro logged_change [where f = "note_modify oid v"]) (auto simp: logged_def)
qed

lemma db_remove_history:
  assumes "db_inv d" "\<not> disabled d" "db_remove d oid = Inr d'"
  shows "db_inv d' \<and> history (stack d') (snap d') = open_history d \<and> same_frame d d'"
proof -
  obtain st rest where b: "back_state d = (st, rest)" by (cases "back_state d")
  note w = wf_back_state [OF assms(1) b]
  obtain v where v: "objects (snap d) oid = Some v"
    "snap d' = (snap d)\<lparr>objects := (objects (snap d))(oid := None)\<rparr>"
    "sorted_db d'" "stack d' = logged (note_remove oid v) d" "same_frame d d'"
    using
      db_remove_effect [OF db_inv_sorted [OF assms(1)] assms(3)] by blast
  then show ?thesis
    using note_remove_revert [OF w(2) v(1)] wf_snap_upd [OF w(1), of oid None] assms(1,2) b
    by (intro logged_change [where f = "note_remove oid v"]) (auto simp: logged_def)
qed

lemma undo_history:
  assumes "db_inv d" "undo clash d = Inr d'"
  shows "stack d \<noteq> [] \<and> snap d' = hd (history (stack d) (snap d)) \<and>
    history (stack d') (snap d') = tl (history (stack d) (snap d)) \<and> db_inv d' \<and>
    \<not> disabled d' \<and> active_sessions d' = active_sessions d - 1 \<and> max_size d' = max_size d"
proof -
  obtain st rest d1 where st: "stack d = st # rest" "restore_state clash st (d\<lparr>disabled := True\<rparr>) = Inr d1"
    and d': "d' = d1\<lparr>stack := rest, disabled := False, active_sessions := active_sessions d - 1\<rparr>"
    using assms(2) by (auto simp: undo_def ok_simps split: list.splits)
  have inv: "sorted_db (d\<lparr>disabled := True\<rparr>)" "fits st (snap d)" "wf_history rest (revert st (snap d))"
    using assms(1) st(1) by (auto simp: db_inv_def sorted_db_def)
  then have "snap d1 = revert st (snap d)" "silent (d\<lparr>disabled := True\<rparr>) d1"
    using restore_state_effect [OF inv(1) _ _ st(2)] by auto
  moreover from this have "db_inv d'"
    using inv(3) by (auto simp: d' db_inv_def silent_def sorted_db_def)
  ultimately show ?thesis by (auto simp: d' st(1) silent_def same_frame_def)
qed

lemma undo_succeeds:
  assumes "db_inv d" "\<not> disabled d" "active_sessions d > 0" "stack d = st # rest"
    "conflict_free clash (pool st (snap d))"
  shows "\<exists>d'. undo clash d = Inr d'"
proof -
  have "wf_history (st # rest) (snap d)" using assms(1,4) by (simp add: db_inv_def)
  then have "fits st (snap d)" "wf_snap (revert st (snap d))" by (cases rest; auto)+
  then have "\<exists>d1. restore_state clash st (d\<lparr>disabled := True\<rparr>) = Inr d1"
    using assms(1,5) by (intro restore_state_succeeds) (simp_all add: db_inv_sorted)
  then show ?thesis using assms(2-4) by (auto simp: undo_def)
qed

lemma pop_commit_history:
  assumes "db_inv d" "pop_commit clash d = Inr d'"
  shows "stack d \<noteq> [] \<and> snap d' = hd (history (stack d) (snap d)) \<and>
    history (stack d') (snap d') = tl (history (stack d) (snap d)) \<and> db_inv d' \<and>
    \<not> disabled d' \<and> active_sessions d' = 0"
proof -
  obtain st rest d1 where st: "stack d = st # rest" "restore_state clash st (d\<lparr>disabled := True\<rparr>) = Inr d1"
    and d': "d' = d1\<lparr>stack := rest, disabled := False\<rparr>" and "active_sessions d = 0"
    using assms(2) by (auto simp: pop_commit_def ok_simps split: list.splits)
  have inv: "sorted_db (d\<lparr>disabled := True\<rparr>)" "fits st (snap d)" "wf_history rest (revert st (snap d))"
    using assms(1) st(1) by (auto simp: db_inv_def sorted_db_def)
  then have "snap d1 = revert st (snap d)" "silent (d\<lparr>disabled := True\<rparr>) d1"
    using restore_state_effect [OF inv(1) _ _ st(2)] by auto
  moreover from this have "db_inv d'"
    using inv(3) by (auto simp: d' db_inv_def silent_def sorted_db_def)
  ultimately show ?thesis using \<open>active_sessions d = 0\<close> by (auto simp: d' st(1) silent_def same_frame_def)
qed

lemma merge_history:
  assumes "db_inv d" "merge d = Inr d'"
  shows "snap d' = snap d \<and> history (stack d') (snap d') = tl (history (stack d) (snap d)) \<and> db_inv d' \<and>
    disabled d' = disabled d \<and> active_sessions d' = active_sessions d - 1 \<and> max_size d' = max_size d"
proof (cases "active_sessions d = 1 \<and> length (stack d) = 1")
  case True
  then obtain st where "stack d = [st]" by (auto simp: length_Suc_conv)
  with True assms show ?thesis by (auto simp: merge_def db_inv_def snap_def)
next
  case False
  then have len: "2 \<le> length (stack d)"
    and d': "d' = d\<lparr>stack := merge_states (stack d ! 1) (stack d ! 0) # drop 2 (stack d),
      active_sessions := active_sessions d - 1\<rparr>"
    using assms(2) by (auto simp: merge_def ok_simps split: if_splits)
  then obtain st prev rest where st: "stack d = st # prev # rest"
    by (cases "stack d"; cases "tl (stack d)") auto
  have wf: "wf_snap (snap d)" "fits st (snap d)" "fits prev (revert st (snap d))"
    "wf_history rest (revert prev (revert st (snap d)))" "wf_snap (revert prev (revert st (snap d)))"
    using assms(1) st by (cases rest; simp add: db_inv_def; fail)+
  note m = merge_states_revert [OF wf(2,3,5)] merge_states_fits [OF wf(2,3,5)]
  have "db_inv d'" using m wf(1,4) assms(1) by (auto simp: d' st db_inv_def)
  with m show ?thesis by (simp add: d' st)
qed

lemma history_take:
  "history (take n sts) s = take n (history sts s)"
  by (induction sts arbitrary: n s) (auto simp: take_Cons split: nat.split)

lemma wf_history_take: "wf_history sts s \<Longrightarrow> wf_history (take n sts) s"
proof (induction sts arbitrary: n s)
  case (Cons st sts)
  then show ?case by (cases n) auto
qed simp

lemma start_undo_session_history:
  assumes "db_inv d" "\<not> disabled d \<or> force_enable" "start_undo_session force_enable d = (d', s)"
  shows "snap d' = snap d \<and>
    history (stack d') (snap d') = snap d # take (max_size d) (history (stack d) (snap d)) \<and>
    db_inv d' \<and> \<not> disabled d' \<and> active_sessions d' = active_sessions d + 1 \<and> stack d' \<noteq> []"
proof -
  have d': "d' = d\<lparr>disabled := False, stack := empty_undo_state # take (max_size d) (stack d),
      active_sessions := active_sessions d + 1\<rparr>"
    using assms(2,3) by (cases "disabled d") (auto simp: start_undo_session_def)
  have "wf_history (stack d) (snap d)" using assms(1) by (simp add: db_inv_def)
  moreover from this have "wf_snap (snap d)" by (cases "stack d") auto
  ultimately show ?thesis
    using assms(1) by (auto simp: d' db_inv_def history_take wf_history_take)
qed

section \<open>Sessions\<close>

text \<open>
  What code inside an undo session may do: logged changes, and inner sessions that are
  undone or merged before it ends. The number bounds the nesting of inner sessions.
\<close>

inductive session_body :: "('o \<Rightarrow> 'o \<Rightarrow> bool) \<Rightarrow> nat \<Rightarrow> 'o object_database \<Rightarrow> 'o object_database \<Rightarrow> bool"
  for clash where
  body_refl: "session_body clash j d d"
| body_create: "session_body clash j d d1 \<Longrightarrow> db_create clash d1 i v = Inr (d2, oid) \<Longrightarrow>
    session_body clash j d d2"
| body_modify: "session_body clash j d d1 \<Longrightarrow> db_modify clash d1 oid f = Inr d2 \<Longrightarrow>
    session_body clash j d d2"
| body_remove: "session_body clash j d d1 \<Longrightarrow> db_remove d1 oid = Inr d2 \<Longrightarrow> session_body clash j d d2"
| body_undone: "session_body clash (Suc j) d d1 \<Longrightarrow> start_undo_session False d1 = (d2, s) \<Longrightarrow>
    session_body clash j d2 d3 \<Longrightarrow> session_undo clash s d3 = Inr (d4, s') \<Longrightarrow>
    session_body clash (Suc j) d d4"
| body_merged: "session_body clash (Suc j) d d1 \<Longrightarrow> start_undo_session False d1 = (d2, s) \<Longrightarrow>
    session_body clash j d2 d3 \<Longrightarrow> session_merge s d3 = Inr (d4, s') \<Longrightarrow>
    session_body clash (Suc j) d d4"

lemma start_session_apply: "start_undo_session b d = (d', s) \<Longrightarrow> apply_undo s"
  by (auto simp: start_undo_session_def split: if_splits)

lemma start_session_max_size: "start_undo_session b d = (d', s) \<Longrightarrow> max_size d' = max_size d"
  by (auto simp: start_undo_session_def split: if_splits)

lemma session_undo_Inr:
  "apply_undo s \<Longrightarrow> session_undo clash s d = Inr (d', s') \<Longrightarrow> undo clash d = Inr d'"
  by (auto simp: session_undo_def ok_simps)

lemma session_merge_Inr:
  "apply_undo s \<Longrightarrow> session_merge s d = Inr (d', s') \<Longrightarrow> merge d = Inr d'"
  by (auto simp: session_merge_def ok_simps)

text \<open>The database is enabled, has an open undo state, and its history starts with \<open>h\<close>.\<close>

definition in_session :: "nat \<Rightarrow> 'o snapshot list \<Rightarrow> 'o object_database \<Rightarrow> bool" where
  "in_session n h d \<longleftrightarrow> db_inv d \<and> \<not> disabled d \<and> stack d \<noteq> [] \<and> max_size d = n \<and>
     take (length h) (history (stack d) (snap d)) = h"

lemma length_history [simp]: "length (history sts s) = length sts"
  by (induction sts arbitrary: s) auto

lemma in_session_change:
  assumes "in_session n h d" "db_inv d' \<and> history (stack d') (snap d') = open_history d \<and> same_frame d d'"
  shows "in_session n h d'"
proof -
  have "history (stack d') (snap d') = history (stack d) (snap d)"
    using assms by (simp add: in_session_def open_history_def)
  moreover from this have "stack d' \<noteq> []"
    using assms(1) by (metis in_session_def length_0_conv length_history)
  ultimately show ?thesis using assms by (simp add: in_session_def same_frame_def)
qed

lemma in_session_push:
  assumes "in_session n h d" "length h \<le> n" "start_undo_session False d = (d', s)"
  shows "in_session n (snap d # h) d'"
  using start_undo_session_history [of d False d' s] start_session_max_size [OF assms(3)] assms
  by (auto simp: in_session_def min_absorb1)

lemma in_session_pop:
  assumes "in_session n (x # h) d" "h \<noteq> []"
    and "db_inv d'" "\<not> disabled d'" "max_size d' = max_size d"
      "history (stack d') (snap d') = tl (history (stack d) (snap d))"
  shows "in_session n h d'"
proof -
  have "take (length h) (tl (history (stack d) (snap d))) = h"
    using assms(1) by (cases "history (stack d) (snap d)") (auto simp: in_session_def)
  moreover from this assms(2,6) have "stack d' \<noteq> []" by (metis history.simps(1) take_Nil)
  ultimately show ?thesis using assms by (simp add: in_session_def)
qed

lemma session_body_keeps:
  assumes "session_body clash j d d'" "in_session n h d" "h \<noteq> []" "length h + j \<le> Suc n"
  shows "in_session n h d'"
  using assms
proof (induction arbitrary: h rule: session_body.induct)
  case (body_create j d d1 i v d2 oid)
  then show ?case using db_create_history in_session_change by (metis in_session_def)
next
  case (body_modify j d d1 oid f d2)
  then show ?case using db_modify_history in_session_change by (metis in_session_def)
next
  case (body_remove j d d1 oid d2)
  then show ?case using db_remove_history in_session_change by (metis in_session_def)
next
  case (body_undone j d d1 d2 s d3 d4 s')
  have "in_session n h d1" using body_undone by simp
  then have "in_session n (snap d1 # h) d2" using body_undone by (intro in_session_push) auto
  then have d3: "in_session n (snap d1 # h) d3" using body_undone by auto
  have "undo clash d3 = Inr d4"
    using session_undo_Inr start_session_apply body_undone.hyps by blast
  then show ?case using undo_history [of d3 clash d4] d3 body_undone.prems(2)
    by (intro in_session_pop [OF d3]) (auto simp: in_session_def)
next
  case (body_merged j d d1 d2 s d3 d4 s')
  have "in_session n h d1" using body_merged by simp
  then have "in_session n (snap d1 # h) d2" using body_merged by (intro in_session_push) auto
  then have d3: "in_session n (snap d1 # h) d3" using body_merged by auto
  have "merge d3 = Inr d4"
    using session_merge_Inr start_session_apply body_merged.hyps by blast
  then show ?case using merge_history [of d3 d4] d3 body_merged.prems(2)
    by (intro in_session_pop [OF d3]) (auto simp: in_session_def)
qed

lemma snap_determines_indexes:
  assumes "sorted_db d" "sorted_db d'" "snap d' = snap d"
  shows "indexes d' = indexes d"
proof
  fix i
  have n: "map_option next_id (indexes d' i) = map_option next_id (indexes d i)"
    using arg_cong [OF assms(3), of nexts] by (simp add: snap_def fun_eq_iff)
  have o: "Option.bind (indexes d' i) (\<lambda>x. index_find x k) = Option.bind (indexes d i) (\<lambda>x. index_find x k)" for k
    using arg_cong [OF assms(3), of objects] by (simp add: snap_def fun_eq_iff)
  show "indexes d' i = indexes d i"
  proof (cases "indexes d i")
    case None
    with n show ?thesis by simp
  next
    case (Some x)
    with n obtain x' where x': "indexes d' i = Some x'" "next_id x' = next_id x" by auto
    have "map_of (rows x') = map_of (rows x)"
      using o Some x' by (auto simp: index_find_def)
    then have "rows x' = rows x"
      using assms(1,2) Some x' by (intro sorted_rows_eqI) (auto simp: sorted_db_def)
    with x' Some show ?thesis by simp
  qed
qed

lemma in_session_start:
  assumes "db_inv d" "\<not> disabled d" "start_undo_session False d = (d1, s)"
  shows "in_session (max_size d) [snap d] d1"
proof -
  note h = start_undo_session_history [OF assms(1) _ assms(3)]
  then have "history (stack d1) (snap d1) = snap d # take (max_size d) (history (stack d) (snap d))"
    using assms(2) by blast
  then show ?thesis using h start_session_max_size [OF assms(3)] assms(2)
    unfolding in_session_def by auto
qed

lemma undo_after_body:
  assumes "db_inv d" "\<not> disabled d" "start_undo_session False d = (d1, s)"
    "session_body clash j d1 d2" "j \<le> max_size d" "session_undo clash s d2 = Inr (d3, s')"
  shows "indexes d3 = indexes d \<and> db_inv d3 \<and> \<not> disabled d3"
proof -
  have d2: "in_session (max_size d) [snap d] d2"
    using session_body_keeps [OF assms(4) in_session_start [OF assms(1-3)]] assms(5) by simp
  have "undo clash d2 = Inr d3" using session_undo_Inr start_session_apply assms(3,6) by blast
  then have u: "snap d3 = hd (history (stack d2) (snap d2))" "db_inv d3" "\<not> disabled d3"
    using undo_history d2 by (auto simp: in_session_def)
  have "hd (history (stack d2) (snap d2)) = snap d"
    using d2 by (cases "history (stack d2) (snap d2)") (auto simp: in_session_def)
  with u assms(1) show ?thesis
    using snap_determines_indexes db_inv_sorted by metis
qed

section \<open>Properties\<close>

text \<open>
  C7. Undo restores the database exactly. Take a session on an enabled database, let it do any
  logged creations, modifications and removals and any inner sessions that are undone or merged, nested
  no deeper than \<^verbatim>\<open>max_size()\<close>, and undo it: when no two distinct objects among the present
  and the saved ones agree on a unique key, the undo returns, and every table has the rows
  and the next id it had when the session started.
\<close>

theorem undo_session_restores:
  assumes "db_inv d" "\<not> disabled d" "start_undo_session False d = (d1, s)"
    "session_body clash j d1 d2" "j \<le> max_size d"
    "active_sessions d2 > 0" "conflict_free clash (pool (hd (stack d2)) (snap d2))"
  shows "\<exists>d3 s'. session_undo clash s d2 = Inr (d3, s') \<and> indexes d3 = indexes d \<and>
    db_inv d3 \<and> \<not> disabled d3"
proof -
  have d2: "db_inv d2" "\<not> disabled d2" "stack d2 = hd (stack d2) # tl (stack d2)"
    using session_body_keeps [OF assms(4) in_session_start [OF assms(1-3)]] assms(5)
    by (simp_all add: in_session_def)
  obtain d3 where "undo clash d2 = Inr d3"
    using undo_succeeds [OF d2(1,2) assms(6) d2(3) assms(7)] by blast
  then obtain s' where "session_undo clash s d2 = Inr (d3, s')"
    using start_session_apply [OF assms(3)] by (simp add: session_undo_def)
  with undo_after_body [OF assms(1-5)] show ?thesis by blast
qed

text \<open>A database with one table that holds one object, whose value is its unique key.\<close>

definition demo_db :: "nat object_database" where
  "demo_db = init_object_database [3 \<mapsto> \<lparr> next_id = 3, rows = [(2, 5)] \<rparr>]"

lemma demo_db_inv: "db_inv demo_db"
  by (auto simp: db_inv_def demo_db_def init_object_database_def sorted_rows_def wf_snap_def snap_def
      index_find_def split: if_splits)

text \<open>In a session, the object gets the value \<open>a\<close> and then an object \<open>b\<close> is created.\<close>

definition demo_body :: "nat \<Rightarrow> nat \<Rightarrow> nat object_database \<Rightarrow> nat object_database result" where
  "demo_body a b d = bind (db_modify (=) d (3, 2) (\<lambda>x. Inr a)) (\<lambda>d.
     bind (db_create (=) d 3 b) (\<lambda>(d, _). Inr d))"

lemma demo_body_session:
  assumes "demo_body a b d = Inr d'"
  shows "session_body (=) 0 d d'"
proof -
  obtain d1 oid where "db_modify (=) d (3, 2) (\<lambda>x. Inr a) = Inr d1" "db_create (=) d1 3 b = Inr (d', oid)"
    using assms by (auto simp: demo_body_def ok_simps)
  then show ?thesis by (rule body_create [OF body_modify [OF body_refl]])
qed

lemmas demo_simps = demo_db_def init_object_database_def start_undo_session_def demo_body_def
  db_modify_def db_create_def get_object_def get_index_def index_get_def index_find_def index_modify_def
  index_create_def index_insert_def violates_def put_index_def on_create_def on_modify_def back_state_def
  note_create_def note_modify_def empty_undo_state_def row_put_def

definition demo_after :: "nat \<Rightarrow> nat \<Rightarrow> nat object_database" where
  "demo_after a b = \<lparr> indexes = [3 \<mapsto> \<lparr> next_id = 4, rows = [(2, a), (3, b)] \<rparr>],
     active_sessions = 1, disabled = False,
     stack = [\<lparr> old_values = [((3, 2), 5)], old_index_next_ids = [(3, 3)], new_ids = [(3, 3)], removed = [] \<rparr>],
     max_size = 256 \<rparr>"

lemma demo_run:
  assumes "start_undo_session False demo_db = (d1, s)" "a \<noteq> b"
  shows "demo_body a b d1 = Inr (demo_after a b)"
proof -
  have "d1 = demo_db\<lparr>stack := [empty_undo_state], active_sessions := 1\<rparr>"
    using assms(1) by (simp add: demo_simps)
  then show ?thesis using assms(2) by (simp add: demo_simps demo_after_def)
qed

theorem undo_session_restores_witness:
  "\<exists>d1 s d3 s'. start_undo_session False demo_db = (d1, s) \<and>
     demo_body 6 7 d1 = Inr (demo_after 6 7) \<and>
     session_undo (=) s (demo_after 6 7) = Inr (d3, s') \<and> indexes d3 = indexes demo_db"
proof -
  obtain d1 s where 1: "start_undo_session False demo_db = (d1, s)" by (cases "start_undo_session False demo_db")
  have 2: "demo_body 6 7 d1 = Inr (demo_after 6 7)" using demo_run [OF 1] by simp
  have "conflict_free (=) (pool (hd (stack (demo_after 6 7))) (snap (demo_after 6 7)))"
    by (auto simp: conflict_free_def pool_def demo_after_def snap_def index_find_def split: if_splits)
  then obtain d3 s' where "session_undo (=) s (demo_after 6 7) = Inr (d3, s')" "indexes d3 = indexes demo_db"
    using undo_session_restores [OF demo_db_inv _ 1 demo_body_session [OF 2]]
    by (auto simp: demo_db_def init_object_database_def demo_after_def)
  with 1 2 show ?thesis by blast
qed

text \<open>
  Merging the two innermost undo states keeps the contents of the database and drops the
  snapshot of the inner session from the stack of snapshots: undoing the merged state later leads to
  the start of the outer session.
\<close>

theorem merge_drops_inner_snapshot:
  assumes "db_inv d" "merge d = Inr d'"
  shows "snap d' = snap d \<and> history (stack d') (snap d') = tl (history (stack d) (snap d)) \<and> db_inv d'"
  using merge_history [OF assms] by blast

definition demo_nested :: "nat object_database" where
  "demo_nested = \<lparr> indexes = [3 \<mapsto> \<lparr> next_id = 5, rows = [(2, 8), (4, 9)] \<rparr>],
     active_sessions = 2, disabled = False,
     stack = [\<lparr> old_values = [((3, 2), 6)], old_index_next_ids = [(3, 4)], new_ids = [(3, 4)],
                removed = [((3, 3), 7)] \<rparr>,
              \<lparr> old_values = [((3, 2), 5)], old_index_next_ids = [(3, 3)], new_ids = [(3, 3)], removed = [] \<rparr>],
     max_size = 256 \<rparr>"

lemma demo_nested_inv: "db_inv demo_nested"
  by (auto simp: db_inv_def demo_nested_def sorted_rows_def wf_snap_def snap_def fits_def revert_def
      index_find_def map_add_def split: if_splits)

theorem merge_drops_inner_snapshot_witness:
  "\<exists>d'. merge demo_nested = Inr d' \<and> db_inv d' \<and>
     stack d' = [\<lparr> old_values = [((3, 2), 5)], old_index_next_ids = [(3, 3)], new_ids = [(3, 4)], removed = [] \<rparr>] \<and>
     history (stack d') (snap d') = tl (history (stack demo_nested) (snap demo_nested))"
proof -
  let ?d = "demo_nested\<lparr>active_sessions := 1,
    stack := [\<lparr> old_values = [((3, 2), 5)], old_index_next_ids = [(3, 3)], new_ids = [(3, 4)], removed = [] \<rparr>]\<rparr>"
  have "merge demo_nested = Inr ?d"
    by (simp add: merge_def demo_nested_def merge_states_def merge_old_value_def merge_next_id_def
        merge_removed_def)
  with merge_drops_inner_snapshot [OF demo_nested_inv this] show ?thesis by auto
qed


text \<open>
  C28. \<^verbatim>\<open>pop_commit\<close> takes the last committed undo state off the stack and returns the contents to the
  snapshot under it; the remaining snapshots stay as they were.
\<close>

theorem pop_commit_returns_to_snapshot:
  assumes "db_inv d" "pop_commit clash d = Inr d'"
  shows "snap d' = hd (history (stack d) (snap d)) \<and>
    history (stack d') (snap d') = tl (history (stack d) (snap d)) \<and> db_inv d' \<and> \<not> disabled d'"
  using pop_commit_history [OF assms] by blast

theorem pop_commit_returns_to_snapshot_witness:
  "\<exists>d'. pop_commit (=) ((demo_after 6 7)\<lparr>active_sessions := 0\<rparr>) = Inr d' \<and> db_inv d' \<and> stack d' = []"
proof -
  let ?d = "(demo_after 6 7)\<lparr>active_sessions := 0\<rparr>"
  have inv: "db_inv ?d"
    by (auto simp: db_inv_def demo_after_def sorted_rows_def wf_snap_def snap_def fits_def revert_def
        index_find_def map_add_def split: if_splits)
  obtain d' where d': "pop_commit (=) ?d = Inr d'" "stack d' = []"
    by (simp add: pop_commit_def restore_state_def demo_after_def db_modify_def get_object_def get_index_def
        index_get_def index_find_def index_modify_def violates_def on_modify_def put_index_def row_put_def
        db_remove_def index_remove_def on_remove_def row_delete_def db_set_next_id_def)
  with pop_commit_returns_to_snapshot [OF inv d'(1)] show ?thesis by blast
qed

end
