(* ===== verification/Asset_Price.thy ===== *)
theory Asset_Price
  imports Fc_Prelude
begin

text \<open>
  Assets, prices and price feeds (libraries/chain/protocol/asset.cpp, asset.hpp): comparison
  of prices by 128-bit cross products, conversion of an amount by a price, call price and
  short squeeze price by reducing a rational until both parts fit the share supply.

  \<^verbatim>\<open>boost::rational<int128_t>\<close> is a normalized pair of integers. The denominators stay
  positive, which the reduction loops use.
\<close>

section \<open>Assets\<close>

record asset =
  amount :: share_type
  asset_id :: nat

abbreviation mk_asset :: "share_type \<Rightarrow> nat \<Rightarrow> asset" where
  "mk_asset a i \<equiv> \<lparr> amount = a, asset_id = i \<rparr>"

definition GRAPHENE_MAX_SHARE_SUPPLY :: int where
  "GRAPHENE_MAX_SHARE_SUPPLY = 1000000000000000000"

definition GRAPHENE_COLLATERAL_RATIO_DENOM :: int where
  "GRAPHENE_COLLATERAL_RATIO_DENOM = 1000"

definition GRAPHENE_MIN_COLLATERAL_RATIO :: int where
  "GRAPHENE_MIN_COLLATERAL_RATIO = 1001"

definition GRAPHENE_MAX_COLLATERAL_RATIO :: int where
  "GRAPHENE_MAX_COLLATERAL_RATIO = 32000"

definition asset_add :: "fc_lib \<Rightarrow> asset \<Rightarrow> asset \<Rightarrow> asset result" where
  "asset_add F a b =
     bind (fc_assert (asset_id a = asset_id b) ''a.asset_id == b.asset_id'') (\<lambda>_.
     bind (safe_add F (amount a) (amount b)) (\<lambda>c. Inr (mk_asset c (asset_id a))))"

definition asset_sub :: "fc_lib \<Rightarrow> asset \<Rightarrow> asset \<Rightarrow> asset result" where
  "asset_sub F a b =
     bind (fc_assert (asset_id a = asset_id b) ''a.asset_id == b.asset_id'') (\<lambda>_.
     bind (safe_sub F (amount a) (amount b)) (\<lambda>c. Inr (mk_asset c (asset_id a))))"

definition asset_neg :: "fc_lib \<Rightarrow> asset \<Rightarrow> asset result" where
  "asset_neg F a = bind (safe_neg F (amount a)) (\<lambda>c. Inr (mk_asset c (asset_id a)))"

definition asset_lt :: "asset \<Rightarrow> asset \<Rightarrow> bool result" where
  "asset_lt a b =
     bind (fc_assert (asset_id a = asset_id b) ''a.asset_id == b.asset_id'') (\<lambda>_.
     Inr (amount a < amount b))"

definition asset_le :: "asset \<Rightarrow> asset \<Rightarrow> bool result" where
  "asset_le a b = (if a = b then Inr True else asset_lt a b)"

definition asset_gt :: "asset \<Rightarrow> asset \<Rightarrow> bool result" where
  "asset_gt a b = bind (asset_le a b) (\<lambda>r. Inr (\<not> r))"

definition asset_ge :: "asset \<Rightarrow> asset \<Rightarrow> bool result" where
  "asset_ge a b = bind (asset_lt a b) (\<lambda>r. Inr (\<not> r))"

definition scaled_precision :: "u8 \<Rightarrow> share_type result" where
  "scaled_precision p = bind (fc_assert (p < 19) ''precision < 19'') (\<lambda>_. Inr (10 ^ unat p))"

section \<open>Prices\<close>

record price =
  base :: asset
  quote :: asset

definition cross :: "price \<Rightarrow> price \<Rightarrow> u128" where
  "cross a b = word_of_int (amount (quote b)) * word_of_int (amount (base a))"

definition price_eq :: "price \<Rightarrow> price \<Rightarrow> bool" where
  "price_eq a b \<longleftrightarrow>
     (if (asset_id (base a), asset_id (quote a)) \<noteq> (asset_id (base b), asset_id (quote b)) then False
      else cross a b = cross b a)"

definition price_lt :: "price \<Rightarrow> price \<Rightarrow> bool" where
  "price_lt a b \<longleftrightarrow>
     (if asset_id (base a) < asset_id (base b) then True
      else if asset_id (base a) > asset_id (base b) then False
      else if asset_id (quote a) < asset_id (quote b) then True
      else if asset_id (quote a) > asset_id (quote b) then False
      else cross a b < cross b a)"

definition price_le :: "price \<Rightarrow> price \<Rightarrow> bool" where
  "price_le a b \<longleftrightarrow> price_eq a b \<or> price_lt a b"

definition price_gt :: "price \<Rightarrow> price \<Rightarrow> bool" where
  "price_gt a b \<longleftrightarrow> \<not> price_le a b"

definition price_ge :: "price \<Rightarrow> price \<Rightarrow> bool" where
  "price_ge a b \<longleftrightarrow> \<not> price_lt a b"

definition price_inv :: "price \<Rightarrow> price" where
  "price_inv p = \<lparr> base = quote p, quote = base p \<rparr>"

definition scale :: "int \<Rightarrow> int \<Rightarrow> int \<Rightarrow> nat \<Rightarrow> asset result" where
  "scale x num den i =
     (let r = u128_muldiv x num den in
      bind (fc_assert (uint r \<le> GRAPHENE_MAX_SHARE_SUPPLY) ''result <= GRAPHENE_MAX_SHARE_SUPPLY'') (\<lambda>_.
      Inr (mk_asset (uint r) i)))"

definition asset_mul :: "asset \<Rightarrow> price \<Rightarrow> asset result" where
  "asset_mul a p =
     (if asset_id a = asset_id (base p) then
        bind (fc_assert (amount (base p) > 0) ''b.base.amount.value > 0'') (\<lambda>_.
        scale (amount a) (amount (quote p)) (amount (base p)) (asset_id (quote p)))
      else if asset_id a = asset_id (quote p) then
        bind (fc_assert (amount (quote p) > 0) ''b.quote.amount.value > 0'') (\<lambda>_.
        scale (amount a) (amount (base p)) (amount (quote p)) (asset_id (base p)))
      else Inl (Assert_Exception ''invalid asset * price''))"

definition asset_div :: "asset \<Rightarrow> asset \<Rightarrow> price result" where
  "asset_div b q =
     bind (fc_assert (asset_id b \<noteq> asset_id q) ''base.asset_id != quote.asset_id'') (\<lambda>_.
     Inr \<lparr> base = b, quote = q \<rparr>)"

definition price_max :: "nat \<Rightarrow> nat \<Rightarrow> price result" where
  "price_max b q = asset_div (mk_asset GRAPHENE_MAX_SHARE_SUPPLY b) (mk_asset 1 q)"

definition price_min :: "nat \<Rightarrow> nat \<Rightarrow> price result" where
  "price_min b q = asset_div (mk_asset 1 b) (mk_asset GRAPHENE_MAX_SHARE_SUPPLY q)"

definition price_div :: "price \<Rightarrow> asset \<Rightarrow> asset result" where
  "price_div p d =
     bind (fc_assert (asset_id d = asset_id (quote p)) ''divisor.asset_id ==quote.asset_id'') (\<lambda>_.
     if amount (quote p) = 0 then Inl Divide_By_Zero
     else scale (amount d) (amount (base p)) (amount (quote p)) (asset_id (base p)))"

definition null_price :: price where
  "null_price = \<lparr> base = mk_asset 0 0, quote = mk_asset 0 0 \<rparr>"

definition price_is_null :: "price \<Rightarrow> bool" where
  "price_is_null p \<longleftrightarrow> price_eq p null_price"

definition price_validate :: "price \<Rightarrow> unit result" where
  "price_validate p =
     bind (fc_assert (amount (base p) > 0) ''base.amount > share_type(0)'') (\<lambda>_.
     bind (fc_assert (amount (quote p) > 0) ''quote.amount > share_type(0)'') (\<lambda>_.
     fc_assert (asset_id (base p) \<noteq> asset_id (quote p)) ''base.asset_id != quote.asset_id''))"

section \<open>Call price and short squeeze price\<close>

definition make_rational :: "int \<Rightarrow> int \<Rightarrow> (int \<times> int) result" where
  "make_rational n d = (if d = 0 then Inl Divide_By_Zero else Inr (Rat.normalize (n, d)))"

definition rational_mul :: "int \<times> int \<Rightarrow> int \<times> int \<Rightarrow> int \<times> int" where
  "rational_mul a b = Rat.normalize (fst a * fst b, snd a * snd b)"

definition too_big :: "int \<Rightarrow> int \<Rightarrow> bool" where
  "too_big n d \<longleftrightarrow> 0 < d \<and> (n > GRAPHENE_MAX_SHARE_SUPPLY \<or> d > GRAPHENE_MAX_SHARE_SUPPLY)"

definition halve_up :: "int \<times> int \<Rightarrow> int \<times> int" where
  "halve_up cp = Rat.normalize (fst cp div 2 + 1, snd cp div 2 + 1)"

definition halve_odd :: "int \<times> int \<Rightarrow> int \<times> int" where
  "halve_odd cp = Rat.normalize (fst cp div 2 + fst cp mod 2, snd cp div 2 + snd cp mod 2)"

lemma nat_div_le: "0 < g \<Longrightarrow> nat (n div g) \<le> nat (n :: int)"
  using zdiv_mono2 [of n 1 g] pos_imp_zdiv_neg_iff [of g n] by (cases "0 \<le> n") auto

lemma normalize_pos:
  assumes "0 < d"
  shows "Rat.normalize (n, d) = (n div gcd n d, d div gcd n d)" "0 < gcd n d"
  using assms by (simp_all add: Rat.normalize_def Let_def)

lemma normalize_shrinks:
  assumes "0 < d"
  shows "nat (fst (Rat.normalize (n, d))) \<le> nat n" "nat (snd (Rat.normalize (n, d))) \<le> nat d"
  using normalize_pos [OF assms, of n] nat_div_le by simp_all

lemma halve_up_shrinks:
  assumes "too_big n d"
  shows "nat (fst (halve_up (n, d))) + nat (snd (halve_up (n, d))) < nat n + nat d"
proof -
  have d: "0 < d div 2 + 1" using assms by (simp add: too_big_def)
  have "nat (n div 2 + 1) + nat (d div 2 + 1) < nat n + nat d"
    using assms by (auto simp: too_big_def GRAPHENE_MAX_SHARE_SUPPLY_def)
  with normalize_shrinks [OF d, of "n div 2 + 1"] show ?thesis by (simp add: halve_up_def)
qed

lemma half_odd: "2 * (n div 2 + n mod 2) = n + n mod 2" "0 \<le> n mod 2" "n mod 2 < 2" for n :: int
  using mult_div_mod_eq [of 2 n] by (simp_all add: algebra_simps)

lemma half_odd_le: "nat (n div 2 + n mod 2) \<le> nat n" for n :: int
proof (cases "0 < n")
  case True
  then have "n div 2 + n mod 2 \<le> n" using half_odd [of n] by linarith
  then show ?thesis by (rule nat_mono)
next
  case False
  then have "n div 2 + n mod 2 \<le> 0" using half_odd [of n] by (cases "n = 0") auto
  then show ?thesis by simp
qed

lemma half_odd_less: "1 < n \<Longrightarrow> nat (n div 2 + n mod 2) < nat n" for n :: int
proof -
  assume "1 < n"
  then have "n div 2 + n mod 2 < n" by presburger
  with \<open>1 < n\<close> show ?thesis by simp
qed

lemma halve_odd_shrinks:
  assumes "too_big n d"
  shows "nat (fst (halve_odd (n, d))) + nat (snd (halve_odd (n, d))) < nat n + nat d"
proof -
  have d: "0 < d div 2 + d mod 2" using assms unfolding too_big_def by presburger
  have "1 < n \<or> 1 < d" using assms by (auto simp: too_big_def GRAPHENE_MAX_SHARE_SUPPLY_def)
  then have "nat (n div 2 + n mod 2) + nat (d div 2 + d mod 2) < nat n + nat d"
    using half_odd_le half_odd_less by (metis add_le_less_mono add_less_le_mono)
  with normalize_shrinks [OF d, of "n div 2 + n mod 2"] show ?thesis by (simp add: halve_odd_def)
qed

function reduce_call :: "int \<Rightarrow> int \<Rightarrow> int \<times> int" where
  "reduce_call n d = (if too_big n d then reduce_call (fst (halve_up (n, d))) (snd (halve_up (n, d))) else (n, d))"
  by pat_completeness auto
termination
  by (relation "measure (\<lambda>x. nat (fst x) + nat (snd x))") (use halve_up_shrinks in auto)

function reduce_squeeze :: "int \<Rightarrow> int \<Rightarrow> int \<times> int" where
  "reduce_squeeze n d =
     (if too_big n d then reduce_squeeze (fst (halve_odd (n, d))) (snd (halve_odd (n, d))) else (n, d))"
  by pat_completeness auto
termination
  by (relation "measure (\<lambda>x. nat (fst x) + nat (snd x))") (use halve_odd_shrinks in auto)

declare reduce_call.simps [simp del] reduce_squeeze.simps [simp del]

definition call_price :: "asset \<Rightarrow> asset \<Rightarrow> u16 \<Rightarrow> price result" where
  "call_price debt collateral collateral_ratio =
     bind (make_rational (amount debt) (amount collateral)) (\<lambda>swan.
     bind (make_rational (uint collateral_ratio) GRAPHENE_COLLATERAL_RATIO_DENOM) (\<lambda>ratio.
     let cp0 = rational_mul swan ratio; cp = reduce_call (fst cp0) (snd cp0) in
     bind (asset_div (mk_asset (fst cp) (asset_id debt)) (mk_asset (snd cp) (asset_id collateral))) (\<lambda>p.
     Inr (price_inv p))))"

record price_feed =
  settlement_price :: price
  core_exchange_rate :: price
  maintenance_collateral_ratio :: u16
  maximum_short_squeeze_ratio :: u16

definition max_short_squeeze_price :: "price_feed \<Rightarrow> price result" where
  "max_short_squeeze_price f =
     bind (make_rational (amount (base (settlement_price f))) (amount (quote (settlement_price f)))) (\<lambda>sp.
     bind (make_rational GRAPHENE_COLLATERAL_RATIO_DENOM (uint (maximum_short_squeeze_ratio f))) (\<lambda>ratio.
     let cp0 = rational_mul sp ratio; cp = reduce_squeeze (fst cp0) (snd cp0) in
     asset_div (mk_asset (fst cp) (asset_id (base (settlement_price f))))
       (mk_asset (snd cp) (asset_id (quote (settlement_price f))))))"

definition price_feed_validate :: "price_feed \<Rightarrow> unit result" where
  "price_feed_validate f =
     bind (if price_is_null (settlement_price f) then Inr () else price_validate (settlement_price f)) (\<lambda>_.
     bind (fc_assert (uint (maximum_short_squeeze_ratio f) \<ge> GRAPHENE_MIN_COLLATERAL_RATIO) ''mssr'') (\<lambda>_.
     bind (fc_assert (uint (maximum_short_squeeze_ratio f) \<le> GRAPHENE_MAX_COLLATERAL_RATIO) ''mssr'') (\<lambda>_.
     bind (fc_assert (uint (maintenance_collateral_ratio f) \<ge> GRAPHENE_MIN_COLLATERAL_RATIO) ''mcr'') (\<lambda>_.
     bind (fc_assert (uint (maintenance_collateral_ratio f) \<le> GRAPHENE_MAX_COLLATERAL_RATIO) ''mcr'') (\<lambda>_.
     bind (max_short_squeeze_price f) (\<lambda>_. Inr ()))))))"

definition price_feed_is_for :: "price_feed \<Rightarrow> nat \<Rightarrow> bool" where
  "price_feed_is_for f i =
     (if \<not> price_is_null (settlement_price f) then asset_id (base (settlement_price f)) = i
      else if \<not> price_is_null (core_exchange_rate f) then asset_id (base (core_exchange_rate f)) = i
      else True)"

section \<open>Comparison\<close>

definition price_ok :: "price \<Rightarrow> bool" where
  "price_ok p \<longleftrightarrow> 0 < amount (base p) \<and> amount (base p) < 2 ^ 63 \<and>
     0 < amount (quote p) \<and> amount (quote p) < 2 ^ 63"

definition ratio_of :: "price \<Rightarrow> rat" where
  "ratio_of p = of_int (amount (base p)) / of_int (amount (quote p))"

lemma uint_cross:
  assumes "price_ok a" "price_ok b"
  shows "uint (cross a b) = amount (quote b) * amount (base a)"
proof -
  have "amount (quote b) * amount (base a) < 2 ^ 128"
    using assms by (intro int64_mult_u128) (auto simp: price_ok_def)
  then show ?thesis
    using assms unfolding cross_def by (intro uint_u128_mult) (auto simp: price_ok_def)
qed

lemma ratio_less_iff:
  assumes "price_ok a" "price_ok b"
  shows "ratio_of a < ratio_of b \<longleftrightarrow> amount (quote b) * amount (base a) < amount (quote a) * amount (base b)"
proof -
  have "ratio_of a < ratio_of b \<longleftrightarrow>
      (of_int (amount (base a) * amount (quote b)) :: rat) < of_int (amount (base b) * amount (quote a))"
    using assms by (simp add: ratio_of_def price_ok_def divide_less_eq less_divide_eq)
  then show ?thesis by (simp only: of_int_less_iff mult.commute)
qed

lemma ratio_eq_iff:
  assumes "price_ok a" "price_ok b"
  shows "ratio_of a = ratio_of b \<longleftrightarrow> amount (quote b) * amount (base a) = amount (quote a) * amount (base b)"
proof -
  have "ratio_of a = ratio_of b \<longleftrightarrow>
      (of_int (amount (base a) * amount (quote b)) :: rat) = of_int (amount (base b) * amount (quote a))"
    using assms by (simp add: ratio_of_def price_ok_def frac_eq_eq)
  then show ?thesis by (simp only: of_int_eq_iff mult.commute)
qed

text \<open>Prices of one market are ordered by their ratio; markets are ordered by their asset ids.\<close>

definition market_of :: "price \<Rightarrow> nat \<times> nat" where
  "market_of p = (asset_id (base p), asset_id (quote p))"

lemma price_lt_ratio:
  assumes "price_ok a" "price_ok b" "market_of a = market_of b"
  shows "price_lt a b \<longleftrightarrow> ratio_of a < ratio_of b"
  using assms by (simp add: price_lt_def market_of_def word_less_def uint_cross ratio_less_iff)

lemma price_eq_ratio:
  assumes "price_ok a" "price_ok b"
  shows "price_eq a b \<longleftrightarrow> market_of a = market_of b \<and> ratio_of a = ratio_of b"
  using assms by (auto simp: price_eq_def market_of_def word_uint_eq_iff uint_cross ratio_eq_iff)

lemma price_lt_iff:
  assumes "price_ok a" "price_ok b"
  shows "price_lt a b \<longleftrightarrow> asset_id (base a) < asset_id (base b) \<or>
    (asset_id (base a) = asset_id (base b) \<and> (asset_id (quote a) < asset_id (quote b) \<or>
      (asset_id (quote a) = asset_id (quote b) \<and> ratio_of a < ratio_of b)))"
  using assms by (auto simp: price_lt_def word_less_def uint_cross ratio_less_iff)

section \<open>Conversion\<close>

lemma scale_Inr:
  assumes "0 \<le> x" "x < 2 ^ 63" "0 \<le> q" "q < 2 ^ 63" "0 < b" "b < 2 ^ 63"
  shows "scale x q b i = Inr r \<longleftrightarrow> x * q div b \<le> GRAPHENE_MAX_SHARE_SUPPLY \<and> r = mk_asset (x * q div b) i"
proof -
  have "uint (u128_muldiv x q b) = x * q div b"
    using assms by (intro uint_u128_muldiv_int64) auto
  then show ?thesis by (auto simp: scale_def Let_def ok_simps)
qed

lemma muldiv_back_le:
  fixes x q b :: int
  assumes "0 \<le> x" "0 < q" "0 < b"
  shows "(x * q div b) * b div q \<le> x"
proof -
  have "(x * q div b) * b \<le> x * q"
    using div_mult_mod_eq [of "x * q" b] pos_mod_sign [OF assms(3), of "x * q"] by linarith
  then have "(x * q div b) * b div q \<le> x * q div q" using assms by (intro zdiv_mono1) auto
  then show ?thesis using assms by simp
qed

section \<open>Reduction\<close>

lemma normalize_ratio:
  assumes "0 < d"
  shows "fst (Rat.normalize (n, d)) * d = n * snd (Rat.normalize (n, d))"
proof -
  define g a b where "g = gcd n d" and "a = n div g" and "b = d div g"
  then have "n = a * g" "d = b * g" by simp_all
  then have "a * d = n * b" by simp
  then show ?thesis using normalize_pos [OF assms, of n] by (simp add: g_def a_def b_def)
qed

lemma normalize_positive:
  assumes "0 < n" "0 < d"
  shows "0 < fst (Rat.normalize (n, d))" "0 < snd (Rat.normalize (n, d))"
proof -
  have "0 < n div gcd n d" "0 < d div gcd n d"
    using assms by (simp_all add: pos_imp_zdiv_pos_iff zdvd_imp_le)
  then show "0 < fst (Rat.normalize (n, d))" "0 < snd (Rat.normalize (n, d))"
    using normalize_pos [OF assms(2), of n] by simp_all
qed

lemma reduce_call_positive:
  "0 < n \<Longrightarrow> 0 < d \<Longrightarrow> 0 < fst (reduce_call n d) \<and> 0 < snd (reduce_call n d) \<and>
   \<not> too_big (fst (reduce_call n d)) (snd (reduce_call n d))"
proof (induction n d rule: reduce_call.induct)
  case (1 n d)
  have "0 < fst (halve_up (n, d))" "0 < snd (halve_up (n, d))"
    using 1(2,3) normalize_positive [of "n div 2 + 1" "d div 2 + 1"] by (simp_all add: halve_up_def)
  with 1 show ?case by (subst (1 2 3 4) reduce_call.simps) auto
qed

lemma reduce_squeeze_positive:
  "0 < n \<Longrightarrow> 0 < d \<Longrightarrow> 0 < fst (reduce_squeeze n d) \<and> 0 < snd (reduce_squeeze n d) \<and>
   \<not> too_big (fst (reduce_squeeze n d)) (snd (reduce_squeeze n d))"
proof (induction n d rule: reduce_squeeze.induct)
  case (1 n d)
  have "0 < n div 2 + n mod 2" "0 < d div 2 + d mod 2" using 1(2,3) by presburger+
  then have "0 < fst (halve_odd (n, d))" "0 < snd (halve_odd (n, d))"
    using normalize_positive by (simp_all add: halve_odd_def)
  with 1 show ?case by (subst (1 2 3 4) reduce_squeeze.simps) auto
qed

lemma not_too_big: "\<not> too_big n d \<Longrightarrow> 0 < d \<Longrightarrow> n \<le> GRAPHENE_MAX_SHARE_SUPPLY \<and> d \<le> GRAPHENE_MAX_SHARE_SUPPLY"
  by (auto simp: too_big_def)

text \<open>The product of two normalized fractions is the normalized product.\<close>

lemma normalize_mul:
  assumes "0 < b" "0 < d"
  shows "rational_mul (Rat.normalize (a, b)) (Rat.normalize (c, d)) = Rat.normalize (a * c, b * d)"
proof -
  let ?x = "Rat.normalize (a, b)" and ?y = "Rat.normalize (c, d)"
  have pos: "0 < snd ?x" "0 < snd ?y"
    using normalize_pos [OF assms(1), of a] normalize_pos [OF assms(2), of c] assms
    by (simp_all add: pos_imp_zdiv_pos_iff zdvd_imp_le)
  have "Fract (fst ?x * fst ?y) (snd ?x * snd ?y) = Fract (a * c) (b * d)"
    using pos assms normalize_ratio [OF assms(1), of a] normalize_ratio [OF assms(2), of c]
    by (simp add: eq_rat) (metis mult.assoc mult.commute)
  then show ?thesis
    using quotient_of_Fract [of "fst ?x * fst ?y" "snd ?x * snd ?y"] quotient_of_Fract [of "a * c" "b * d"]
    by (simp add: rational_mul_def)
qed

section \<open>Properties\<close>

text \<open>
  Prices with positive 63-bit amounts are totally ordered by market and then by
  the exact ratio base/quote: the 128-bit cross products never wrap, equality, less and greater exclude one another and
  one of them always holds.
\<close>

theorem price_order_is_ratio_order:
  assumes "price_ok a" "price_ok b"
  shows "(price_eq a b \<longleftrightarrow> market_of a = market_of b \<and> ratio_of a = ratio_of b) \<and>
    (price_lt a b \<longleftrightarrow> asset_id (base a) < asset_id (base b) \<or>
      (asset_id (base a) = asset_id (base b) \<and> (asset_id (quote a) < asset_id (quote b) \<or>
        (asset_id (quote a) = asset_id (quote b) \<and> ratio_of a < ratio_of b)))) \<and>
    (price_gt a b \<longleftrightarrow> price_lt b a) \<and> (price_ge a b \<longleftrightarrow> price_le b a)"
proof -
  note iffs = price_eq_ratio [OF assms] price_eq_ratio [OF assms(2,1)] price_lt_iff [OF assms]
    price_lt_iff [OF assms(2,1)]
  have "price_gt a b \<longleftrightarrow> price_lt b a"
    unfolding price_gt_def price_le_def iffs market_of_def
    by (cases "asset_id (base a)" "asset_id (base b)" rule: linorder_cases;
        cases "asset_id (quote a)" "asset_id (quote b)" rule: linorder_cases) auto
  moreover have "price_ge a b \<longleftrightarrow> price_le b a"
    unfolding price_ge_def price_le_def iffs market_of_def
    by (cases "asset_id (base a)" "asset_id (base b)" rule: linorder_cases;
        cases "asset_id (quote a)" "asset_id (quote b)" rule: linorder_cases) auto
  ultimately show ?thesis using iffs by blast
qed

theorem price_order_is_ratio_order_witness:
  "price_lt \<lparr> base = mk_asset 3 0, quote = mk_asset 2 1 \<rparr> \<lparr> base = mk_asset 5 0, quote = mk_asset 3 1 \<rparr>"
proof -
  let ?a = "\<lparr> base = mk_asset 3 0, quote = mk_asset 2 1 \<rparr>" and ?b = "\<lparr> base = mk_asset 5 0, quote = mk_asset 3 1 \<rparr>"
  have "price_ok ?a" "price_ok ?b" by (simp_all add: price_ok_def)
  from price_order_is_ratio_order [OF this] show ?thesis by (simp add: ratio_of_def)
qed



text \<open>
  The call price of a position with positive debt, collateral and ratio always exists, its
  reduction loop ends, both parts lie between 1 and the maximum share supply, and it equals
  debt * ratio / (collateral * 1000) exactly when these products need no reduction.
\<close>

theorem call_price_bounds:
  assumes "0 < amount debt" "0 < amount collateral" "0 < uint cr" "asset_id debt \<noteq> asset_id collateral"
  shows "\<exists>p. call_price debt collateral cr = Inr p \<and>
    asset_id (base p) = asset_id collateral \<and> asset_id (quote p) = asset_id debt \<and>
    1 \<le> amount (base p) \<and> amount (base p) \<le> GRAPHENE_MAX_SHARE_SUPPLY \<and>
    1 \<le> amount (quote p) \<and> amount (quote p) \<le> GRAPHENE_MAX_SHARE_SUPPLY \<and>
    (amount debt * uint cr \<le> GRAPHENE_MAX_SHARE_SUPPLY \<and> amount collateral * 1000 \<le> GRAPHENE_MAX_SHARE_SUPPLY \<longrightarrow>
      amount (quote p) * (amount collateral * 1000) = amount debt * uint cr * amount (base p))"
proof -
  let ?n = "amount debt * uint cr" and ?d = "amount collateral * 1000"
  define cp0 where "cp0 = Rat.normalize (?n, ?d)"
  define cp where "cp = reduce_call (fst cp0) (snd cp0)"
  have pos: "0 < ?n" "0 < ?d" using assms by simp_all
  have cp0: "0 < fst cp0" "0 < snd cp0" using normalize_positive [OF pos] by (simp_all add: cp0_def)
  note cp = reduce_call_positive [OF cp0, folded cp_def]
  have "call_price debt collateral cr =
      Inr \<lparr> base = mk_asset (snd cp) (asset_id collateral), quote = mk_asset (fst cp) (asset_id debt) \<rparr>"
    using assms normalize_mul [of "amount collateral" 1000 "amount debt" "uint cr"]
    by (simp add: call_price_def make_rational_def GRAPHENE_COLLATERAL_RATIO_DENOM_def asset_div_def price_inv_def
        cp_def cp0_def Let_def)
  moreover have "fst cp * ?d = ?n * snd cp" if "?n \<le> GRAPHENE_MAX_SHARE_SUPPLY" "?d \<le> GRAPHENE_MAX_SHARE_SUPPLY"
  proof -
    have "\<not> too_big (fst cp0) (snd cp0)"
      using normalize_shrinks [OF pos(2), of ?n] that pos by (auto simp: too_big_def cp0_def)
    then have "cp = cp0" unfolding cp_def by (subst reduce_call.simps) simp
    then show ?thesis using normalize_ratio [OF pos(2), of ?n] by (simp add: cp0_def)
  qed
  ultimately show ?thesis
    using cp not_too_big [of "fst cp" "snd cp"] by auto
qed

theorem call_price_bounds_witness:
  "\<exists>p. call_price (mk_asset 1000 1) (mk_asset 4000 0) 1750 = Inr p \<and>
     amount (quote p) * 4000000 = 1750000 * amount (base p)"
  using call_price_bounds [of "mk_asset 1000 1" "mk_asset 4000 0" 1750]
  by (auto simp: GRAPHENE_MAX_SHARE_SUPPLY_def)

text \<open>
  A price feed that passes validation has a settlement price: with a null settlement price the
  final check of the short squeeze price throws, although the first guard of \<^verbatim>\<open>validate\<close> lets such a feed pass.
\<close>

theorem price_feed_validate_needs_settlement:
  "price_feed_validate f = Inr () \<longrightarrow>
     \<not> price_is_null (settlement_price f) \<and> price_validate (settlement_price f) = Inr () \<and>
     1001 \<le> uint (maximum_short_squeeze_ratio f) \<and> uint (maximum_short_squeeze_ratio f) \<le> 32000 \<and>
     1001 \<le> uint (maintenance_collateral_ratio f) \<and> uint (maintenance_collateral_ratio f) \<le> 32000"
proof (intro impI)
  assume v: "price_feed_validate f = Inr ()"
  then obtain p where p: "max_short_squeeze_price f = Inr p"
    by (auto simp: price_feed_validate_def ok_simps)
  then have "asset_id (base (settlement_price f)) \<noteq> asset_id (quote (settlement_price f))"
    by (auto simp: max_short_squeeze_price_def asset_div_def ok_simps Let_def)
  then have "\<not> price_is_null (settlement_price f)"
    by (auto simp: price_is_null_def price_eq_def null_price_def)
  with v show "\<not> price_is_null (settlement_price f) \<and> price_validate (settlement_price f) = Inr () \<and>
     1001 \<le> uint (maximum_short_squeeze_ratio f) \<and> uint (maximum_short_squeeze_ratio f) \<le> 32000 \<and>
     1001 \<le> uint (maintenance_collateral_ratio f) \<and> uint (maintenance_collateral_ratio f) \<le> 32000"
    by (auto simp: price_feed_validate_def ok_simps GRAPHENE_MIN_COLLATERAL_RATIO_def GRAPHENE_MAX_COLLATERAL_RATIO_def)
qed

definition demo_feed :: price_feed where
  "demo_feed = \<lparr> settlement_price = \<lparr> base = mk_asset 3003 1, quote = mk_asset 2 0 \<rparr>, core_exchange_rate = null_price,
     maintenance_collateral_ratio = 1750, maximum_short_squeeze_ratio = 1500 \<rparr>"

theorem price_feed_validate_needs_settlement_witness:
  "price_feed_validate demo_feed = Inr () \<and> \<not> price_is_null (settlement_price demo_feed)"
proof -
  have "max_short_squeeze_price demo_feed \<noteq> Inl e" for e
    by (simp add: max_short_squeeze_price_def demo_feed_def make_rational_def GRAPHENE_COLLATERAL_RATIO_DENOM_def
        asset_div_def Let_def)
  then obtain p where "max_short_squeeze_price demo_feed = Inr p" by (cases "max_short_squeeze_price demo_feed") auto
  then have "price_feed_validate demo_feed = Inr ()"
    by (simp add: price_feed_validate_def GRAPHENE_MIN_COLLATERAL_RATIO_def GRAPHENE_MAX_COLLATERAL_RATIO_def)
      (simp add: demo_feed_def price_validate_def)
  then show ?thesis using price_feed_validate_needs_settlement [of demo_feed] by simp
qed

end
