(* ===== verification/Vesting.thy ===== *)
theory Vesting
  imports Asset_Price
begin

text \<open>
  Vesting balances (libraries/chain/vesting\_balance\_object.cpp): the linear policy with a
  cliff, the coin-days-destroyed policy, and the deposits and withdrawals of a vesting balance
  object, which dispatch on the policy.

  The coin seconds are 128-bit words. The debug assertions of the code are not part of the
  model; what they claim is proved below. The product in \<^verbatim>\<open>on_deposit_vested\<close> is taken in
  64-bit signed arithmetic, as in the code.
\<close>

section \<open>Policies\<close>

record vesting_policy_context =
  ctx_balance :: asset
  ctx_now :: time_point_sec
  ctx_amount :: asset

record linear_vesting_policy =
  begin_timestamp :: time_point_sec
  vesting_cliff_seconds :: u32
  vesting_duration_seconds :: u32
  begin_balance :: share_type

record cdd_vesting_policy =
  vesting_seconds :: u32
  coin_seconds_earned :: u128
  start_claim :: time_point_sec
  coin_seconds_earned_last_update :: time_point_sec

datatype vesting_policy = Linear linear_vesting_policy | Cdd cdd_vesting_policy

text \<open>Two's complement result of a product of 64-bit signed integers.\<close>

definition int64_mul :: "int \<Rightarrow> int \<Rightarrow> int" where
  "int64_mul a b = (a * b + 2 ^ 63) mod 2 ^ 64 - 2 ^ 63"

definition sum_below_max_shares :: "fc_lib \<Rightarrow> asset \<Rightarrow> asset \<Rightarrow> bool result" where
  "sum_below_max_shares F a b =
     (if amount a \<le> GRAPHENE_MAX_SHARE_SUPPLY \<and> amount b \<le> GRAPHENE_MAX_SHARE_SUPPLY then
        bind (safe_add F (amount a) (amount b)) (\<lambda>s. Inr (s \<le> GRAPHENE_MAX_SHARE_SUPPLY))
      else Inr False)"

definition linear_get_allowed_withdraw ::
  "fc_lib \<Rightarrow> linear_vesting_policy \<Rightarrow> vesting_policy_context \<Rightarrow> asset result" where
  "linear_get_allowed_withdraw F p ctx =
     (if ctx_now ctx > begin_timestamp p then
        let elapsed_seconds = uint (ctx_now ctx) - uint (begin_timestamp p) in
        if elapsed_seconds \<ge> uint (vesting_cliff_seconds p) then
          bind (if elapsed_seconds < uint (vesting_duration_seconds p)
                then to_share F (u128_muldiv (begin_balance p) elapsed_seconds (uint (vesting_duration_seconds p)))
                else Inr (begin_balance p)) (\<lambda>total_vested.
          bind (safe_sub F (begin_balance p) (amount (ctx_balance ctx))) (\<lambda>withdrawn_already.
          bind (safe_sub F total_vested withdrawn_already) (\<lambda>allowed_withdraw.
          Inr (mk_asset allowed_withdraw (asset_id (ctx_balance ctx))))))
        else Inr (mk_asset 0 (asset_id (ctx_balance ctx)))
      else Inr (mk_asset 0 (asset_id (ctx_balance ctx))))"

definition linear_is_deposit_allowed :: "fc_lib \<Rightarrow> linear_vesting_policy \<Rightarrow> vesting_policy_context \<Rightarrow> bool result" where
  "linear_is_deposit_allowed F p ctx =
     (if asset_id (ctx_amount ctx) = asset_id (ctx_balance ctx)
      then sum_below_max_shares F (ctx_amount ctx) (ctx_balance ctx) else Inr False)"

definition linear_is_withdraw_allowed :: "fc_lib \<Rightarrow> linear_vesting_policy \<Rightarrow> vesting_policy_context \<Rightarrow> bool result" where
  "linear_is_withdraw_allowed F p ctx =
     (if asset_id (ctx_amount ctx) = asset_id (ctx_balance ctx)
      then bind (linear_get_allowed_withdraw F p ctx) (\<lambda>a. asset_le (ctx_amount ctx) a) else Inr False)"

definition max_seconds :: "cdd_vesting_policy \<Rightarrow> int" where
  "max_seconds p = uint (max (vesting_seconds p) 1)"

definition compute_coin_seconds_earned :: "cdd_vesting_policy \<Rightarrow> vesting_policy_context \<Rightarrow> u128" where
  "compute_coin_seconds_earned p ctx =
     (let delta_seconds = uint (ctx_now ctx) - uint (coin_seconds_earned_last_update p);
          delta_coin_seconds = word_of_int (amount (ctx_balance ctx)) * word_of_int delta_seconds;
          coin_seconds_earned_cap = word_of_int (amount (ctx_balance ctx)) * word_of_int (max_seconds p)
      in min (coin_seconds_earned p + delta_coin_seconds) coin_seconds_earned_cap)"

definition update_coin_seconds_earned :: "cdd_vesting_policy \<Rightarrow> vesting_policy_context \<Rightarrow> cdd_vesting_policy" where
  "update_coin_seconds_earned p ctx =
     p\<lparr>coin_seconds_earned := compute_coin_seconds_earned p ctx, coin_seconds_earned_last_update := ctx_now ctx\<rparr>"

definition cdd_get_allowed_withdraw ::
  "fc_lib \<Rightarrow> cdd_vesting_policy \<Rightarrow> vesting_policy_context \<Rightarrow> asset result" where
  "cdd_get_allowed_withdraw F p ctx =
     (if ctx_now ctx \<le> start_claim p then Inr (mk_asset 0 (asset_id (ctx_balance ctx)))
      else bind (to_share F (compute_coin_seconds_earned p ctx div word_of_int (max_seconds p))) (\<lambda>a.
        Inr (mk_asset a (asset_id (ctx_balance ctx)))))"

definition cdd_on_deposit_vested :: "cdd_vesting_policy \<Rightarrow> vesting_policy_context \<Rightarrow> cdd_vesting_policy" where
  "cdd_on_deposit_vested p ctx =
     (let p' = update_coin_seconds_earned p ctx in
      p'\<lparr>coin_seconds_earned := coin_seconds_earned p' +
           word_of_int (int64_mul (amount (ctx_amount ctx)) (max_seconds p))\<rparr>)"

definition cdd_on_withdraw :: "cdd_vesting_policy \<Rightarrow> vesting_policy_context \<Rightarrow> cdd_vesting_policy" where
  "cdd_on_withdraw p ctx =
     (let p' = update_coin_seconds_earned p ctx;
          coin_seconds_needed = word_of_int (amount (ctx_amount ctx)) * word_of_int (max_seconds p)
      in p'\<lparr>coin_seconds_earned := coin_seconds_earned p' - coin_seconds_needed\<rparr>)"

definition cdd_is_deposit_allowed :: "fc_lib \<Rightarrow> cdd_vesting_policy \<Rightarrow> vesting_policy_context \<Rightarrow> bool result" where
  "cdd_is_deposit_allowed F p ctx =
     (if asset_id (ctx_amount ctx) = asset_id (ctx_balance ctx)
      then sum_below_max_shares F (ctx_amount ctx) (ctx_balance ctx) else Inr False)"

definition cdd_is_withdraw_allowed :: "fc_lib \<Rightarrow> cdd_vesting_policy \<Rightarrow> vesting_policy_context \<Rightarrow> bool result" where
  "cdd_is_withdraw_allowed F p ctx =
     bind (cdd_get_allowed_withdraw F p ctx) (\<lambda>a. asset_le (ctx_amount ctx) a)"

section \<open>Vesting balance objects\<close>

record vesting_balance_object =
  vb_owner :: nat
  vb_balance :: asset
  vb_policy :: vesting_policy

definition vb_context :: "vesting_balance_object \<Rightarrow> time_point_sec \<Rightarrow> asset \<Rightarrow> vesting_policy_context" where
  "vb_context vb now a = \<lparr> ctx_balance = vb_balance vb, ctx_now = now, ctx_amount = a \<rparr>"

definition vb_is_deposit_allowed :: "fc_lib \<Rightarrow> vesting_balance_object \<Rightarrow> time_point_sec \<Rightarrow> asset \<Rightarrow> bool result" where
  "vb_is_deposit_allowed F vb now a = (case vb_policy vb of
      Linear p \<Rightarrow> linear_is_deposit_allowed F p (vb_context vb now a)
    | Cdd p \<Rightarrow> cdd_is_deposit_allowed F p (vb_context vb now a))"

definition vb_is_deposit_vested_allowed ::
  "fc_lib \<Rightarrow> vesting_balance_object \<Rightarrow> time_point_sec \<Rightarrow> asset \<Rightarrow> bool result" where
  "vb_is_deposit_vested_allowed F vb now a = (case vb_policy vb of
      Linear p \<Rightarrow> Inr False
    | Cdd p \<Rightarrow> cdd_is_deposit_allowed F p (vb_context vb now a))"

definition vb_is_withdraw_allowed :: "fc_lib \<Rightarrow> vesting_balance_object \<Rightarrow> time_point_sec \<Rightarrow> asset \<Rightarrow> bool result" where
  "vb_is_withdraw_allowed F vb now a = (case vb_policy vb of
      Linear p \<Rightarrow> linear_is_withdraw_allowed F p (vb_context vb now a)
    | Cdd p \<Rightarrow> cdd_is_withdraw_allowed F p (vb_context vb now a))"

definition vb_get_allowed_withdraw :: "fc_lib \<Rightarrow> vesting_balance_object \<Rightarrow> time_point_sec \<Rightarrow> asset result" where
  "vb_get_allowed_withdraw F vb now = (case vb_policy vb of
      Linear p \<Rightarrow> linear_get_allowed_withdraw F p (vb_context vb now (mk_asset 0 0))
    | Cdd p \<Rightarrow> cdd_get_allowed_withdraw F p (vb_context vb now (mk_asset 0 0)))"

definition vb_deposit ::
  "fc_lib \<Rightarrow> vesting_balance_object \<Rightarrow> time_point_sec \<Rightarrow> asset \<Rightarrow> vesting_balance_object result" where
  "vb_deposit F vb now a =
     (let pol = (case vb_policy vb of
          Linear p \<Rightarrow> Linear p
        | Cdd p \<Rightarrow> Cdd (update_coin_seconds_earned p (vb_context vb now a)))
      in bind (asset_add F (vb_balance vb) a) (\<lambda>b. Inr (vb\<lparr>vb_balance := b, vb_policy := pol\<rparr>)))"

definition vb_deposit_vested ::
  "fc_lib \<Rightarrow> vesting_balance_object \<Rightarrow> time_point_sec \<Rightarrow> asset \<Rightarrow> vesting_balance_object result" where
  "vb_deposit_vested F vb now a = (case vb_policy vb of
      Linear p \<Rightarrow> Inl (Chain_Exception ''May not deposit vested into a linear vesting balance.'')
    | Cdd p \<Rightarrow> bind (asset_add F (vb_balance vb) a) (\<lambda>b.
        Inr (vb\<lparr>vb_balance := b, vb_policy := Cdd (cdd_on_deposit_vested p (vb_context vb now a))\<rparr>)))"

definition vb_withdraw ::
  "fc_lib \<Rightarrow> vesting_balance_object \<Rightarrow> time_point_sec \<Rightarrow> asset \<Rightarrow> vesting_balance_object result" where
  "vb_withdraw F vb now a =
     (let pol = (case vb_policy vb of
          Linear p \<Rightarrow> Linear p
        | Cdd p \<Rightarrow> Cdd (cdd_on_withdraw p (vb_context vb now a)))
      in bind (asset_sub F (vb_balance vb) a) (\<lambda>b. Inr (vb\<lparr>vb_balance := b, vb_policy := pol\<rparr>)))"

section \<open>The coin-days-destroyed policy\<close>

text \<open>
  Well-formed at a time: the balance is a valid amount, the last update is not in the future and the coin
  seconds do not exceed balance times vesting period.
\<close>

definition cdd_wf :: "cdd_vesting_policy \<Rightarrow> asset \<Rightarrow> time_point_sec \<Rightarrow> bool" where
  "cdd_wf p b now \<longleftrightarrow> 0 \<le> amount b \<and> amount b \<le> GRAPHENE_MAX_SHARE_SUPPLY \<and>
     coin_seconds_earned_last_update p \<le> now \<and>
     uint (coin_seconds_earned p) \<le> amount b * max_seconds p"

lemma max_seconds_bounds: "1 \<le> max_seconds p" "max_seconds p < 2 ^ 32"
proof -
  have "1 \<le> max (vesting_seconds p) 1" by simp
  then show "1 \<le> max_seconds p" by (simp add: max_seconds_def word_le_def)
  show "max_seconds p < 2 ^ 32" using uint_lt2p [of "max (vesting_seconds p) 1"] by (simp add: max_seconds_def)
qed

lemma share_seconds_bound:
  assumes "0 \<le> a" "a \<le> GRAPHENE_MAX_SHARE_SUPPLY" "0 \<le> s" "s < 2 ^ 32"
  shows "a * s < 2 ^ 92"
proof -
  have "a * s \<le> GRAPHENE_MAX_SHARE_SUPPLY * 2 ^ 32" using assms by (intro mult_mono) auto
  also have "\<dots> < 2 ^ 92" by (simp add: GRAPHENE_MAX_SHARE_SUPPLY_def)
  finally show ?thesis .
qed

lemma uint_share_seconds:
  assumes "0 \<le> a" "a \<le> GRAPHENE_MAX_SHARE_SUPPLY" "0 \<le> s" "s < 2 ^ 32"
  shows "uint (word_of_int a * word_of_int s :: u128) = a * s"
  using share_seconds_bound [OF assms] assms by (intro uint_u128_mult) auto

lemma uint_u128_add:
  fixes a b :: u128
  assumes "uint a + uint b < 2 ^ 128"
  shows "uint (a + b) = uint a + uint b"
  using assms by (simp add: uint_word_ariths mod_pos_pos_trivial)

lemma uint_coin_seconds:
  assumes "cdd_wf p (ctx_balance ctx) (ctx_now ctx)"
  shows "uint (compute_coin_seconds_earned p ctx) =
    min (uint (coin_seconds_earned p) + amount (ctx_balance ctx) *
           (uint (ctx_now ctx) - uint (coin_seconds_earned_last_update p)))
        (amount (ctx_balance ctx) * max_seconds p)"
proof -
  let ?b = "amount (ctx_balance ctx)" and ?d = "uint (ctx_now ctx) - uint (coin_seconds_earned_last_update p)"
  have b: "0 \<le> ?b" "?b \<le> GRAPHENE_MAX_SHARE_SUPPLY" using assms by (simp_all add: cdd_wf_def)
  have "uint (ctx_now ctx) < 2 ^ 32" using uint_lt2p [of "ctx_now ctx"] by simp
  then have d: "0 \<le> ?d" "?d < 2 ^ 32"
    using assms uint_ge_0 [of "coin_seconds_earned_last_update p"] unfolding cdd_wf_def word_le_def
    by linarith+
  have m: "0 \<le> max_seconds p" "max_seconds p < 2 ^ 32" using max_seconds_bounds [of p] by simp_all
  note u = uint_share_seconds [OF b d] uint_share_seconds [OF b m]
  have "uint (coin_seconds_earned p) \<le> ?b * max_seconds p" using assms by (simp add: cdd_wf_def)
  then have s: "uint (coin_seconds_earned p + word_of_int ?b * word_of_int ?d) =
      uint (coin_seconds_earned p) + ?b * ?d"
    using share_seconds_bound [OF b d] share_seconds_bound [OF b m] u(1) by (subst uint_u128_add) auto
  have min: "uint (min v w) = min (uint v) (uint w)" for v w :: u128
    by (simp add: min_def word_le_def)
  show ?thesis unfolding compute_coin_seconds_earned_def Let_def min s u(2) by (rule refl)
qed

context fc_laws
begin

text \<open>The withdrawal allowed by the coin seconds earned.\<close>

lemma cdd_allowed:
  assumes "cdd_wf p (ctx_balance ctx) (ctx_now ctx)" "start_claim p < ctx_now ctx"
  shows "cdd_get_allowed_withdraw F p ctx =
      Inr (mk_asset (uint (compute_coin_seconds_earned p ctx) div max_seconds p) (asset_id (ctx_balance ctx)))"
    and "uint (compute_coin_seconds_earned p ctx) div max_seconds p \<le> amount (ctx_balance ctx)"
proof -
  let ?c = "compute_coin_seconds_earned p ctx"
  have m: "1 \<le> max_seconds p" "max_seconds p < 2 ^ 32" by (rule max_seconds_bounds)+
  have "uint ?c \<le> amount (ctx_balance ctx) * max_seconds p" using uint_coin_seconds [OF assms(1)] by simp
  then have "uint ?c div max_seconds p \<le> amount (ctx_balance ctx) * max_seconds p div max_seconds p"
    using m by (intro zdiv_mono1) auto
  then show le: "uint ?c div max_seconds p \<le> amount (ctx_balance ctx)" using m by simp
  have u: "uint (?c div word_of_int (max_seconds p)) = uint ?c div max_seconds p"
    using m by (simp add: uint_div uint_u128_of_int)
  have "uint ?c div max_seconds p < 2 ^ 63"
    using le assms(1) by (simp add: cdd_wf_def GRAPHENE_MAX_SHARE_SUPPLY_def)
  then show "cdd_get_allowed_withdraw F p ctx =
      Inr (mk_asset (uint ?c div max_seconds p) (asset_id (ctx_balance ctx)))"
    using assms(2) u to_share_small [of "?c div word_of_int (max_seconds p)"]
    by (simp add: cdd_get_allowed_withdraw_def)
qed

end

text \<open>A withdrawal takes exactly its coin seconds; deposits keep what was earned.\<close>

lemma cdd_withdraw_seconds:
  assumes wf: "cdd_wf p (ctx_balance ctx) (ctx_now ctx)"
    and a: "0 \<le> amount (ctx_amount ctx)"
      "amount (ctx_amount ctx) \<le> uint (compute_coin_seconds_earned p ctx) div max_seconds p"
  shows "uint (coin_seconds_earned (cdd_on_withdraw p ctx)) =
    uint (compute_coin_seconds_earned p ctx) - amount (ctx_amount ctx) * max_seconds p"
proof -
  let ?c = "compute_coin_seconds_earned p ctx" and ?a = "amount (ctx_amount ctx)" and ?m = "max_seconds p"
  have m: "1 \<le> ?m" "?m < 2 ^ 32" by (rule max_seconds_bounds)+
  have "?a * ?m \<le> uint ?c div ?m * ?m" using a m by (intro mult_right_mono) auto
  also have "\<dots> \<le> uint ?c"
    using div_mult_mod_eq [of "uint ?c" ?m] pos_mod_sign [of ?m "uint ?c"] m by linarith
  finally have le: "?a * ?m \<le> uint ?c" .
  have "?a * 1 \<le> ?a * ?m" using a m by (intro mult_left_mono) auto
  also have "\<dots> \<le> amount (ctx_balance ctx) * ?m" using le uint_coin_seconds [OF wf] by simp
  finally have "?a * ?m < 2 ^ 128"
    using le uint_lt2p [of ?c] by simp
  then have u: "uint (word_of_int ?a * word_of_int ?m :: u128) = ?a * ?m"
    using a m by (intro uint_u128_mult) auto
  have "uint (?c - word_of_int ?a * word_of_int ?m) = uint ?c - ?a * ?m"
    using le u by (metis uint_minus_simple_alt word_le_def)
  then show ?thesis by (simp add: cdd_on_withdraw_def update_coin_seconds_earned_def Let_def)
qed

lemma cdd_withdraw_wf:
  assumes wf: "cdd_wf p (ctx_balance ctx) (ctx_now ctx)"
    and a: "0 \<le> amount (ctx_amount ctx)"
      "amount (ctx_amount ctx) \<le> uint (compute_coin_seconds_earned p ctx) div max_seconds p"
    and b: "amount b = amount (ctx_balance ctx) - amount (ctx_amount ctx)" "0 \<le> amount b"
  shows "cdd_wf (cdd_on_withdraw p ctx) b (ctx_now ctx)"
proof -
  have "max_seconds (cdd_on_withdraw p ctx) = max_seconds p"
    by (simp add: max_seconds_def cdd_on_withdraw_def update_coin_seconds_earned_def Let_def)
  moreover have "uint (compute_coin_seconds_earned p ctx) \<le> amount (ctx_balance ctx) * max_seconds p"
    using uint_coin_seconds [OF wf] by simp
  moreover have "amount b \<le> GRAPHENE_MAX_SHARE_SUPPLY" using wf a(1) b(1) by (simp add: cdd_wf_def)
  ultimately show ?thesis
    using cdd_withdraw_seconds [OF wf a] b
    by (simp add: cdd_wf_def left_diff_distrib)
      (simp add: cdd_on_withdraw_def update_coin_seconds_earned_def Let_def)
qed

lemma cdd_deposit_wf:
  assumes "cdd_wf p (ctx_balance ctx) (ctx_now ctx)"
    and "amount (ctx_balance ctx) \<le> amount b" "amount b \<le> GRAPHENE_MAX_SHARE_SUPPLY"
  shows "cdd_wf (update_coin_seconds_earned p ctx) b (ctx_now ctx)"
proof -
  have "max_seconds (update_coin_seconds_earned p ctx) = max_seconds p"
    by (simp add: max_seconds_def update_coin_seconds_earned_def)
  moreover have "amount (ctx_balance ctx) * max_seconds p \<le> amount b * max_seconds p"
    using assms(2) max_seconds_bounds(1) [of p] by (intro mult_right_mono) auto
  ultimately show ?thesis
    using assms uint_coin_seconds [OF assms(1)]
    by (simp add: cdd_wf_def update_coin_seconds_earned_def)
qed

section \<open>The linear policy\<close>

definition linear_wf :: "linear_vesting_policy \<Rightarrow> asset \<Rightarrow> bool" where
  "linear_wf p b \<longleftrightarrow> 0 \<le> amount b \<and> amount b \<le> GRAPHENE_MAX_SHARE_SUPPLY \<and>
     0 \<le> begin_balance p \<and> begin_balance p \<le> GRAPHENE_MAX_SHARE_SUPPLY"

text \<open>The share of the initial balance that has vested after a number of seconds.\<close>

definition linear_vested :: "linear_vesting_policy \<Rightarrow> int \<Rightarrow> int" where
  "linear_vested p t =
     (if t < uint (vesting_duration_seconds p) then begin_balance p * t div uint (vesting_duration_seconds p)
      else begin_balance p)"

lemma linear_vested_bounds:
  assumes "linear_wf p b" "0 \<le> t"
  shows "0 \<le> linear_vested p t" "linear_vested p t \<le> begin_balance p"
  using assms muldiv_le [of "begin_balance p" t "uint (vesting_duration_seconds p)"]
  by (auto simp: linear_vested_def linear_wf_def intro!: muldiv_nonneg)

lemma linear_vested_mono:
  assumes "linear_wf p b" "0 \<le> s" "s \<le> t"
  shows "linear_vested p s \<le> linear_vested p t"
proof (cases "t < uint (vesting_duration_seconds p)")
  case True
  with assms have "begin_balance p * s div uint (vesting_duration_seconds p) \<le>
      begin_balance p * t div uint (vesting_duration_seconds p)"
    by (intro zdiv_mono1 mult_left_mono) (auto simp: linear_wf_def)
  with True assms show ?thesis by (simp add: linear_vested_def)
next
  case False
  then show ?thesis using linear_vested_bounds(2) [OF assms(1,2)] by (simp add: linear_vested_def)
qed

context fc_laws
begin

lemma linear_allowed:
  assumes "linear_wf p (ctx_balance ctx)"
  shows "linear_get_allowed_withdraw F p ctx =
    Inr (mk_asset
      (if ctx_now ctx > begin_timestamp p \<and>
          uint (ctx_now ctx) - uint (begin_timestamp p) \<ge> uint (vesting_cliff_seconds p)
       then linear_vested p (uint (ctx_now ctx) - uint (begin_timestamp p))
            - (begin_balance p - amount (ctx_balance ctx))
       else 0) (asset_id (ctx_balance ctx)))"
proof (cases "ctx_now ctx > begin_timestamp p \<and>
    uint (ctx_now ctx) - uint (begin_timestamp p) \<ge> uint (vesting_cliff_seconds p)")
  case True
  let ?t = "uint (ctx_now ctx) - uint (begin_timestamp p)" and ?dur = "uint (vesting_duration_seconds p)"
  have t: "0 \<le> ?t" using True by (simp add: word_less_def)
  note v = linear_vested_bounds [OF assms t]
  have vested: "(if ?t < ?dur then to_share F (u128_muldiv (begin_balance p) ?t ?dur) else Inr (begin_balance p)) =
      Inr (linear_vested p ?t)"
  proof (cases "?t < ?dur")
    case True
    have "uint (u128_muldiv (begin_balance p) ?t ?dur) = linear_vested p ?t"
      using True t assms uint_u32_lt [of "vesting_duration_seconds p"]
      by (subst uint_u128_muldiv_int64)
        (auto simp: linear_vested_def linear_wf_def GRAPHENE_MAX_SHARE_SUPPLY_def)
    moreover have "linear_vested p ?t < 2 ^ 63"
      using v assms by (simp add: linear_wf_def GRAPHENE_MAX_SHARE_SUPPLY_def)
    ultimately show ?thesis
      using True to_share_small [of "u128_muldiv (begin_balance p) ?t ?dur"] by simp
  next
    case False
    then show ?thesis by (simp add: linear_vested_def)
  qed
  have "in_int64 (begin_balance p - amount (ctx_balance ctx))"
    "in_int64 (linear_vested p ?t - (begin_balance p - amount (ctx_balance ctx)))"
    using assms v by (auto simp: in_int64_def linear_wf_def GRAPHENE_MAX_SHARE_SUPPLY_def)
  then show ?thesis using True by (simp add: linear_get_allowed_withdraw_def vested del: of_int_diff)
next
  case False
  then show ?thesis by (auto simp: linear_get_allowed_withdraw_def)
qed

end

section \<open>Withdrawals\<close>

definition vb_wf :: "vesting_balance_object \<Rightarrow> time_point_sec \<Rightarrow> bool" where
  "vb_wf vb now \<longleftrightarrow> (case vb_policy vb of
      Linear p \<Rightarrow> linear_wf p (vb_balance vb) | Cdd p \<Rightarrow> cdd_wf p (vb_balance vb) now)"

lemma asset_le_True: "asset_le a b = Inr True \<longleftrightarrow> asset_id a = asset_id b \<and> amount a \<le> amount b"
  by (cases a; cases b) (auto simp: asset_le_def asset_lt_def ok_simps)

lemma vb_context_simps [simp]:
  "ctx_balance (vb_context vb now a) = vb_balance vb" "ctx_now (vb_context vb now a) = now"
  "ctx_amount (vb_context vb now a) = a"
  by (simp_all add: vb_context_def)

context fc_laws
begin

lemma linear_withdraw_bound:
  assumes "linear_wf p (vb_balance vb)" "linear_is_withdraw_allowed F p (vb_context vb now a) = Inr True"
  shows "asset_id a = asset_id (vb_balance vb) \<and> amount a \<le> amount (vb_balance vb)"
proof -
  have id: "asset_id a = asset_id (vb_balance vb)"
    using assms(2) by (auto simp: linear_is_withdraw_allowed_def split: if_splits)
  have "amount a \<le> (if begin_timestamp p < now \<and>
        uint now - uint (begin_timestamp p) \<ge> uint (vesting_cliff_seconds p)
      then linear_vested p (uint now - uint (begin_timestamp p)) - (begin_balance p - amount (vb_balance vb)) else 0)"
    using assms by (auto simp: linear_is_withdraw_allowed_def linear_allowed ok_simps asset_le_True split: if_splits)
  moreover have "begin_timestamp p < now \<Longrightarrow>
      linear_vested p (uint now - uint (begin_timestamp p)) \<le> begin_balance p"
    using assms(1) by (intro linear_vested_bounds(2)) (auto simp: word_less_def)
  ultimately show ?thesis using assms(1) id by (auto simp: linear_wf_def split: if_splits)
qed

lemma cdd_withdraw_bound:
  assumes wf: "cdd_wf p (vb_balance vb) now" and a: "0 \<le> amount a"
    and ok: "cdd_is_withdraw_allowed F p (vb_context vb now a) = Inr True"
  shows "asset_id a = asset_id (vb_balance vb) \<and> amount a \<le> amount (vb_balance vb) \<and>
    amount a \<le> uint (compute_coin_seconds_earned p (vb_context vb now a)) div max_seconds p"
proof (cases "start_claim p < now")
  case True
  note c = cdd_allowed [of p "vb_context vb now a"]
  show ?thesis using c wf True ok by (auto simp: cdd_is_withdraw_allowed_def asset_le_True)
next
  case False
  then have "amount a = 0" "asset_id a = asset_id (vb_balance vb)"
    using ok a by (auto simp: cdd_is_withdraw_allowed_def cdd_get_allowed_withdraw_def asset_le_True not_less)
  moreover have "0 \<le> uint (compute_coin_seconds_earned p (vb_context vb now a)) div max_seconds p"
    using max_seconds_bounds(1) [of p] by (simp add: pos_imp_zdiv_nonneg_iff)
  ultimately show ?thesis using wf by (simp add: cdd_wf_def)
qed

lemma vb_withdraw_ok:
  assumes wf: "vb_wf vb now" and a: "0 \<le> amount a" and ok: "vb_is_withdraw_allowed F vb now a = Inr True"
  shows "\<exists>vb'. vb_withdraw F vb now a = Inr vb' \<and> vb_owner vb' = vb_owner vb \<and>
    amount (vb_balance vb') = amount (vb_balance vb) - amount a \<and> 0 \<le> amount (vb_balance vb') \<and>
    asset_id (vb_balance vb') = asset_id (vb_balance vb) \<and> asset_id a = asset_id (vb_balance vb) \<and> vb_wf vb' now"
proof -
  have b: "asset_id a = asset_id (vb_balance vb)" "amount a \<le> amount (vb_balance vb)"
    "amount (vb_balance vb) \<le> GRAPHENE_MAX_SHARE_SUPPLY"
    using wf ok a linear_withdraw_bound cdd_withdraw_bound
    by (auto simp: vb_wf_def vb_is_withdraw_allowed_def linear_wf_def cdd_wf_def split: vesting_policy.splits)
  let ?b = "mk_asset (amount (vb_balance vb) - amount a) (asset_id (vb_balance vb))"
  have sub: "asset_sub F (vb_balance vb) a = Inr ?b"
    using a b by (simp add: asset_sub_def in_int64_def GRAPHENE_MAX_SHARE_SUPPLY_def)
  show ?thesis
  proof (cases "vb_policy vb")
    case (Linear p)
    then show ?thesis using wf a b sub by (auto simp: vb_withdraw_def vb_wf_def linear_wf_def)
  next
    case (Cdd p)
    have w: "cdd_wf p (vb_balance vb) now" "cdd_is_withdraw_allowed F p (vb_context vb now a) = Inr True"
      using wf ok Cdd by (simp_all add: vb_wf_def vb_is_withdraw_allowed_def)
    have "cdd_wf (cdd_on_withdraw p (vb_context vb now a)) ?b now"
      using cdd_withdraw_wf [of p "vb_context vb now a" ?b] w(1) a b cdd_withdraw_bound [OF w(1) a w(2)] by simp
    then show ?thesis using Cdd b sub by (simp add: vb_withdraw_def vb_wf_def)
  qed
qed

end

section \<open>Properties\<close>

text \<open>
  C33. A permitted withdrawal from a vesting balance succeeds, takes exactly the amount in the
  asset of the balance, never makes the balance negative, and leaves the object well-formed, under both policies: what
  the debug assertions of \<^verbatim>\<open>withdraw\<close> claim holds.
\<close>

theorem vesting_withdraw_safe:
  assumes "fc_laws F" "vb_wf vb now" "0 \<le> amount a" "vb_is_withdraw_allowed F vb now a = Inr True"
  shows "\<exists>vb'. vb_withdraw F vb now a = Inr vb' \<and> vb_wf vb' now \<and>
    vb_balance vb' = mk_asset (amount (vb_balance vb) - amount a) (asset_id (vb_balance vb)) \<and>
    asset_id a = asset_id (vb_balance vb) \<and> 0 \<le> amount (vb_balance vb')"
  using fc_laws.vb_withdraw_ok [OF assms] by (metis asset.surjective old.unit.exhaust)

definition demo_cdd :: vesting_balance_object where
  "demo_cdd = \<lparr> vb_owner = 7, vb_balance = mk_asset 1000 0,
     vb_policy = Cdd \<lparr> vesting_seconds = 100, coin_seconds_earned = 0, start_claim = 0,
       coin_seconds_earned_last_update = 500 \<rparr> \<rparr>"

lemma demo_cdd_wf: "vb_wf demo_cdd 550"
  by (simp add: vb_wf_def demo_cdd_def cdd_wf_def GRAPHENE_MAX_SHARE_SUPPLY_def max_seconds_def)

lemma demo_cdd_allowed: "vb_is_withdraw_allowed fc_int64 demo_cdd 550 (mk_asset 400 0) = Inr True"
  by (simp add: vb_is_withdraw_allowed_def demo_cdd_def cdd_is_withdraw_allowed_def cdd_get_allowed_withdraw_def
      compute_coin_seconds_earned_def max_seconds_def vb_context_def fc_int64_def checked64_def in_int64_def
      asset_le_def asset_lt_def Let_def min_def max_def word_le_def)

theorem vesting_withdraw_safe_witness:
  "\<exists>vb'. vb_withdraw fc_int64 demo_cdd 550 (mk_asset 400 0) = Inr vb' \<and> vb_wf vb' 550 \<and>
     vb_balance vb' = mk_asset 600 0"
  using vesting_withdraw_safe [OF fc64.fc_laws_axioms demo_cdd_wf _ demo_cdd_allowed] by (auto simp: demo_cdd_def)

text \<open>
  The linear policy follows its schedule: nothing may be withdrawn before the cliff, then the
  vested share rounded down less what was withdrawn, and the whole remaining balance after the vesting period; the allowed
  withdrawal never exceeds the balance and never shrinks as time passes.
\<close>

theorem linear_vesting_schedule:
  assumes "fc_laws F" "linear_wf p b" "begin_timestamp p < now" "now \<le> later"
  defines "ctx t \<equiv> \<lparr> ctx_balance = b, ctx_now = t, ctx_amount = mk_asset 0 0 \<rparr>"
    and "elapsed \<equiv> uint now - uint (begin_timestamp p)"
  shows "\<exists>x y. linear_get_allowed_withdraw F p (ctx now) = Inr (mk_asset x (asset_id b)) \<and>
    linear_get_allowed_withdraw F p (ctx later) = Inr (mk_asset y (asset_id b)) \<and>
    (elapsed < uint (vesting_cliff_seconds p) \<longrightarrow> x = 0) \<and>
    (uint (vesting_cliff_seconds p) \<le> elapsed \<and> elapsed < uint (vesting_duration_seconds p) \<longrightarrow>
       x = begin_balance p * elapsed div uint (vesting_duration_seconds p) - (begin_balance p - amount b)) \<and>
    (uint (vesting_cliff_seconds p) \<le> elapsed \<and> uint (vesting_duration_seconds p) \<le> elapsed \<longrightarrow> x = amount b) \<and>
    x \<le> amount b \<and> (uint (vesting_cliff_seconds p) \<le> elapsed \<longrightarrow> x \<le> y)"
proof -
  let ?l = "uint later - uint (begin_timestamp p)"
  have "begin_timestamp p < later" using assms(3,4) by simp
  have e: "0 \<le> elapsed" "elapsed \<le> ?l" using assms(3,4) by (simp_all add: elapsed_def word_less_def word_le_def)
  have a: "linear_get_allowed_withdraw F p (ctx now) = Inr (mk_asset
      (if elapsed \<ge> uint (vesting_cliff_seconds p) then linear_vested p elapsed - (begin_balance p - amount b) else 0)
      (asset_id b))"
    using fc_laws.linear_allowed [OF assms(1), of p "ctx now"] assms(2,3) by (simp add: ctx_def elapsed_def)
  have l: "linear_get_allowed_withdraw F p (ctx later) = Inr (mk_asset
      (if ?l \<ge> uint (vesting_cliff_seconds p) then linear_vested p ?l - (begin_balance p - amount b) else 0)
      (asset_id b))"
    using fc_laws.linear_allowed [OF assms(1), of p "ctx later"] assms(2) \<open>begin_timestamp p < later\<close>
    by (simp add: ctx_def)
  show ?thesis
    using a l linear_vested_bounds [OF assms(2) e(1)] linear_vested_mono [OF assms(2) e] assms(2) e
    by (auto simp: linear_vested_def linear_wf_def split: if_splits)
qed

definition demo_linear :: linear_vesting_policy where
  "demo_linear = \<lparr> begin_timestamp = 1000, vesting_cliff_seconds = 10, vesting_duration_seconds = 400,
     begin_balance = 999 \<rparr>"

theorem linear_vesting_schedule_witness:
  "\<exists>y. linear_get_allowed_withdraw fc_int64 demo_linear
       \<lparr> ctx_balance = mk_asset 900 0, ctx_now = 1100, ctx_amount = mk_asset 0 0 \<rparr> = Inr (mk_asset 150 0) \<and>
     linear_get_allowed_withdraw fc_int64 demo_linear
       \<lparr> ctx_balance = mk_asset 900 0, ctx_now = 1200, ctx_amount = mk_asset 0 0 \<rparr> = Inr (mk_asset y 0) \<and> 150 \<le> y"
  using linear_vesting_schedule [OF fc64.fc_laws_axioms, of demo_linear "mk_asset 900 0" 1100 1200]
  by (auto simp: demo_linear_def linear_wf_def GRAPHENE_MAX_SHARE_SUPPLY_def)

text \<open>
  Coin seconds are spent exactly: after a permitted withdrawal of an amount from a
  coin-days balance, the amount that may still be withdrawn at the same moment is the earlier one less the withdrawn amount.
\<close>

theorem cdd_withdraw_reduces_allowance:
  assumes "fc_laws F" "vb_policy vb = Cdd p" "cdd_wf p (vb_balance vb) now" "start_claim p < now" "0 \<le> amount a"
    "vb_is_withdraw_allowed F vb now a = Inr True" "vb_withdraw F vb now a = Inr vb'"
  shows "\<exists>x. vb_get_allowed_withdraw F vb now = Inr (mk_asset x (asset_id (vb_balance vb))) \<and>
    vb_get_allowed_withdraw F vb' now = Inr (mk_asset (x - amount a) (asset_id (vb_balance vb)))"
proof -
  let ?ctx = "\<lambda>a. vb_context vb now a"
  have ok: "cdd_is_withdraw_allowed F p (?ctx a) = Inr True" using assms(2,6) by (simp add: vb_is_withdraw_allowed_def)
  note bound = fc_laws.cdd_withdraw_bound [OF assms(1,3,5) ok]
  have same: "compute_coin_seconds_earned p (?ctx (mk_asset 0 0)) = compute_coin_seconds_earned p (?ctx a)"
    by (simp add: compute_coin_seconds_earned_def)
  let ?c = "uint (compute_coin_seconds_earned p (?ctx a))" and ?p' = "cdd_on_withdraw p (?ctx a)"
  have x: "vb_get_allowed_withdraw F vb now = Inr (mk_asset (?c div max_seconds p) (asset_id (vb_balance vb)))"
    using fc_laws.cdd_allowed(1) [OF assms(1), of p "?ctx (mk_asset 0 0)"] assms(2-4)
    unfolding vb_get_allowed_withdraw_def same by simp
  have vb': "vb' = vb\<lparr>vb_balance := mk_asset (amount (vb_balance vb) - amount a) (asset_id (vb_balance vb)),
      vb_policy := Cdd ?p'\<rparr>"
    using assms(2,7) by (auto simp: vb_withdraw_def asset_sub_def ok_simps fc_laws.safe_sub_Inr [OF assms(1)])
  have wf': "cdd_wf ?p' (vb_balance vb') now"
    using cdd_withdraw_wf [of p "?ctx a" "vb_balance vb'"] assms(3,5) bound by (simp add: vb')
  have p': "max_seconds ?p' = max_seconds p" "start_claim ?p' = start_claim p"
    "coin_seconds_earned_last_update ?p' = now"
    by (simp_all add: max_seconds_def cdd_on_withdraw_def update_coin_seconds_earned_def Let_def)
  have s': "uint (coin_seconds_earned ?p') = ?c - amount a * max_seconds p"
    using cdd_withdraw_seconds [of p "?ctx a"] assms(3,5) bound by simp
  have "uint (compute_coin_seconds_earned ?p' (vb_context vb' now (mk_asset 0 0))) = ?c - amount a * max_seconds p"
    using uint_coin_seconds [of ?p' "vb_context vb' now (mk_asset 0 0)"] wf'
    by (simp add: p' s' cdd_wf_def)
  then have "vb_get_allowed_withdraw F vb' now =
      Inr (mk_asset ((?c - amount a * max_seconds p) div max_seconds p) (asset_id (vb_balance vb)))"
    using fc_laws.cdd_allowed(1) [OF assms(1), of ?p' "vb_context vb' now (mk_asset 0 0)"] wf' assms(4)
    by (simp add: vb_get_allowed_withdraw_def p') (simp add: vb')
  moreover have "(?c - amount a * max_seconds p) div max_seconds p = ?c div max_seconds p - amount a"
    using max_seconds_bounds(1) [of p] div_mult_self1 [of "max_seconds p" ?c "- amount a"] by simp
  ultimately show ?thesis using x by simp
qed

theorem cdd_withdraw_reduces_allowance_witness:
  "\<exists>vb' x. vb_withdraw fc_int64 demo_cdd 550 (mk_asset 400 0) = Inr vb' \<and>
     vb_get_allowed_withdraw fc_int64 demo_cdd 550 = Inr (mk_asset x 0) \<and>
     vb_get_allowed_withdraw fc_int64 vb' 550 = Inr (mk_asset (x - 400) 0)"
proof -
  obtain vb' where w: "vb_withdraw fc_int64 demo_cdd 550 (mk_asset 400 0) = Inr vb'"
    using fc64.vb_withdraw_ok [OF demo_cdd_wf _ demo_cdd_allowed] by auto
  have "cdd_wf \<lparr> vesting_seconds = 100, coin_seconds_earned = 0, start_claim = 0,
       coin_seconds_earned_last_update = 500 \<rparr> (vb_balance demo_cdd) 550"
    using demo_cdd_wf by (simp add: vb_wf_def demo_cdd_def)
  then show ?thesis
    using cdd_withdraw_reduces_allowance [OF fc64.fc_laws_axioms _ _ _ _ demo_cdd_allowed w] w
    by (auto simp: demo_cdd_def)
qed

text \<open>
  The vested deposit multiplies in 64 bits. Depositing 6000.00000000 core as already vested
  into an empty balance with a vesting period of one year should make all of it withdrawable; the signed 64-bit product of
  amount and period wraps around and only 150.57582644 may be withdrawn.
\<close>

theorem deposit_vested_overflow:
  "\<exists>vb'. vb_deposit_vested fc_int64
       \<lparr> vb_owner = 7, vb_balance = mk_asset 0 0,
         vb_policy = Cdd \<lparr> vesting_seconds = 31536000, coin_seconds_earned = 0, start_claim = 0,
           coin_seconds_earned_last_update = 500 \<rparr> \<rparr> 500 (mk_asset 600000000000 0) = Inr vb' \<and>
     vb_balance vb' = mk_asset 600000000000 0 \<and>
     vb_get_allowed_withdraw fc_int64 vb' 500 = Inr (mk_asset 15057582644 0)"
  by (simp add: vb_deposit_vested_def cdd_on_deposit_vested_def update_coin_seconds_earned_def
      compute_coin_seconds_earned_def max_seconds_def vb_context_def fc_int64_def checked64_def in_int64_def
      asset_add_def int64_mul_def Let_def min_def max_def word_le_def vb_get_allowed_withdraw_def
      cdd_get_allowed_withdraw_def word_less_def)

end
