(* ===== verification/Authority.thy ===== *)
theory Authority
  imports Fc_Prelude
begin

text \<open>
  Who may sign for an account (protocol/authority.hpp, protocol/authority.cpp, protocol/transaction.cpp): weighted authorities over
  keys, addresses and other accounts, the search of \<^verbatim>\<open>sign_state\<close> for enough weight, and the check of a
  transaction's required authorities.

  Public keys and addresses are opaque; the addresses a key stands for are hashes of the key and a parameter
  (\<open>key_addresses\<close>), as are the active authorities, a lookup that may throw. The loops visit the
  members of an authority in the order of the \<^verbatim>\<open>flat_map\<close> and share one state: the signatures used so far, the accounts
  approved so far, and the address maps, which are built once, on the first address. The recursion of the source stops at a maximal depth;
  the model counts down the levels that are left.
\<close>

section \<open>Authorities\<close>

type_synonym public_key = nat
type_synonym address = nat

record authority =
  weight_threshold :: u32
  account_auths :: "(nat \<times> u16) list"
  key_auths :: "(public_key \<times> u16) list"
  address_auths :: "(address \<times> u16) list"

definition GRAPHENE_COMMITTEE_ACCOUNT :: nat where "GRAPHENE_COMMITTEE_ACCOUNT = 0"
definition GRAPHENE_WITNESS_ACCOUNT :: nat where "GRAPHENE_WITNESS_ACCOUNT = 1"
definition GRAPHENE_RELAXED_COMMITTEE_ACCOUNT :: nat where "GRAPHENE_RELAXED_COMMITTEE_ACCOUNT = 2"
definition GRAPHENE_NULL_ACCOUNT :: nat where "GRAPHENE_NULL_ACCOUNT = 3"
definition GRAPHENE_TEMP_ACCOUNT :: nat where "GRAPHENE_TEMP_ACCOUNT = 4"
definition GRAPHENE_MAX_SIG_CHECK_DEPTH :: nat where "GRAPHENE_MAX_SIG_CHECK_DEPTH = 2"

definition sum_weights :: "('k \<times> u16) list \<Rightarrow> u64" where
  "sum_weights ks = fold (\<lambda>(k, w) t. t + ucast w) ks 0"

definition is_impossible :: "authority \<Rightarrow> bool" where
  "is_impossible au \<longleftrightarrow>
     sum_weights (account_auths au) + sum_weights (key_auths au) + sum_weights (address_auths au) < ucast (weight_threshold au)"

definition num_auths :: "authority \<Rightarrow> nat" where
  "num_auths au = length (account_auths au) + length (key_auths au) + length (address_auths au)"

definition clear_authority :: "authority \<Rightarrow> authority" where
  "clear_authority au = au\<lparr>account_auths := [], key_auths := []\<rparr>"

definition null_authority :: authority where
  "null_authority = \<lparr> weight_threshold = 1, account_auths = [(GRAPHENE_NULL_ACCOUNT, 1)], key_auths = [], address_auths = [] \<rparr>"

definition add_authority_accounts :: "nat set \<Rightarrow> authority \<Rightarrow> nat set" where
  "add_authority_accounts result a = result \<union> set (map fst (account_auths a))"

section \<open>The state of a check\<close>

record sign_env =
  get_active :: "nat \<Rightarrow> authority option result"
  available_keys :: "public_key list"
  key_addresses :: "public_key \<Rightarrow> address list"

record sign_state =
  provided_signatures :: "(public_key \<times> bool) list"
  approved_by :: "nat set"
  address_sigs :: "((address \<rightharpoonup> public_key) \<times> (address \<rightharpoonup> public_key)) option"

definition initial_sign_state :: "public_key list \<Rightarrow> sign_state" where
  "initial_sign_state sigs = \<lparr> provided_signatures = map (\<lambda>k. (k, False)) sigs, approved_by = {GRAPHENE_TEMP_ACCOUNT}, address_sigs = None \<rparr>"

definition mark_signature :: "public_key \<Rightarrow> sign_state \<Rightarrow> sign_state" where
  "mark_signature k st = st\<lparr>provided_signatures := AList.update k True (provided_signatures st)\<rparr>"

definition signed_by_key :: "sign_env \<Rightarrow> public_key \<Rightarrow> sign_state \<Rightarrow> (bool \<times> sign_state) result" where
  "signed_by_key E k st =
     (if k \<notin> fst ` set (provided_signatures st) then
        if k \<in> set (available_keys E) then Inr (True, mark_signature k st) else Inr (False, st)
      else Inr (True, mark_signature k st))"

definition add_addresses :: "public_key \<Rightarrow> address list \<Rightarrow> (address \<rightharpoonup> public_key) \<Rightarrow> address \<rightharpoonup> public_key" where
  "add_addresses k as m = fold (\<lambda>a m. m(a \<mapsto> k)) as m"

definition address_map :: "sign_env \<Rightarrow> public_key list \<Rightarrow> address \<rightharpoonup> public_key" where
  "address_map E ks = fold (\<lambda>k m. add_addresses k (key_addresses E k) m) ks Map.empty"

definition with_address_maps :: "sign_env \<Rightarrow> sign_state \<Rightarrow> sign_state" where
  "with_address_maps E st =
     (case address_sigs st of
        None \<Rightarrow> st\<lparr>address_sigs := Some (address_map E (available_keys E), address_map E (map fst (provided_signatures st)))\<rparr>
      | Some m \<Rightarrow> st)"

text \<open>An address of no available and no provided key makes the source dereference the end iterator.\<close>

definition signed_by_address :: "sign_env \<Rightarrow> address \<Rightarrow> sign_state \<Rightarrow> (bool \<times> sign_state) result" where
  "signed_by_address E a st0 =
     (let st = with_address_maps E st0 in
      case address_sigs st of
        None \<Rightarrow> Inl (Chain_Exception ''unset optional'')
      | Some (available, provided) \<Rightarrow>
          (case provided a of
             None \<Rightarrow>
               (case available a of
                  Some k \<Rightarrow> if k \<in> set (available_keys E) then Inr (True, mark_signature k st) else Inr (False, st)
                | None \<Rightarrow> Inl (Chain_Exception ''end iterator dereferenced''))
           | Some k \<Rightarrow> Inr (True, mark_signature k st)))"

section \<open>The search\<close>

text \<open>One loop over the members of an authority: it stops as soon as the threshold is reached.\<close>

fun weight_loop ::
  "('k \<Rightarrow> sign_state \<Rightarrow> (bool \<times> sign_state) result) \<Rightarrow> u32 \<Rightarrow> ('k \<times> u16) list \<Rightarrow> u32 \<Rightarrow> sign_state \<Rightarrow> (bool \<times> u32 \<times> sign_state) result" where
  "weight_loop f threshold [] sum0 st = Inr (False, sum0, st)"
| "weight_loop f threshold ((k, w) # ks) sum0 st =
     bind (f k st) (\<lambda>(ok, st').
     if ok then
       let sum' = sum0 + ucast w in
       if sum' \<ge> threshold then Inr (True, sum', st') else weight_loop f threshold ks sum' st'
     else weight_loop f threshold ks sum0 st')"

definition approve :: "nat \<Rightarrow> sign_state \<Rightarrow> sign_state" where
  "approve a st = st\<lparr>approved_by := insert a (approved_by st)\<rparr>"

definition account_approved ::
  "sign_env \<Rightarrow> (authority option \<Rightarrow> sign_state \<Rightarrow> (bool \<times> sign_state) result) option \<Rightarrow> nat \<Rightarrow> sign_state \<Rightarrow> (bool \<times> sign_state) result" where
  "account_approved E deeper a st =
     (if a \<in> approved_by st then Inr (True, st)
      else case deeper of
             None \<Rightarrow> Inr (False, st)
           | Some check \<Rightarrow>
               bind (get_active E a) (\<lambda>au.
               bind (check au st) (\<lambda>(ok, st'). Inr (ok, if ok then approve a st' else st'))))"

definition check_members ::
  "sign_env \<Rightarrow> (authority option \<Rightarrow> sign_state \<Rightarrow> (bool \<times> sign_state) result) option \<Rightarrow> authority option \<Rightarrow> sign_state \<Rightarrow> (bool \<times> sign_state) result" where
  "check_members E deeper au st =
     (case au of
        None \<Rightarrow> Inr (False, st)
      | Some auth \<Rightarrow>
          let th = weight_threshold auth in
          bind (weight_loop (signed_by_key E) th (key_auths auth) 0 st) (\<lambda>(done1, t1, st1).
          if done1 then Inr (True, st1) else
          bind (weight_loop (signed_by_address E) th (address_auths auth) t1 st1) (\<lambda>(done2, t2, st2).
          if done2 then Inr (True, st2) else
          bind (weight_loop (account_approved E deeper) th (account_auths auth) t2 st2) (\<lambda>(done3, t3, st3).
          if done3 then Inr (True, st3) else Inr (t3 \<ge> th, st3)))))"

primrec check_authority :: "sign_env \<Rightarrow> nat \<Rightarrow> authority option \<Rightarrow> sign_state \<Rightarrow> (bool \<times> sign_state) result" where
  "check_authority E 0 au st = check_members E None au st"
| "check_authority E (Suc levels) au st = check_members E (Some (check_authority E levels)) au st"

definition check_account :: "sign_env \<Rightarrow> nat \<Rightarrow> nat \<Rightarrow> sign_state \<Rightarrow> (bool \<times> sign_state) result" where
  "check_account E max_recursion a st =
     (if a \<in> approved_by st then Inr (True, st)
      else bind (get_active E a) (\<lambda>au. check_authority E max_recursion au st))"

definition remove_unused_signatures :: "sign_state \<Rightarrow> bool \<times> sign_state" where
  "remove_unused_signatures st =
     (let unused = filter (\<lambda>(k, used). \<not> used) (provided_signatures st) in
      (unused \<noteq> [], st\<lparr>provided_signatures := filter (\<lambda>(k, used). used) (provided_signatures st)\<rparr>))"

section \<open>Transactions\<close>

text \<open>What the operations of a transaction require: accounts by active and by owner authority, and further authorities.\<close>

record required_auths =
  required_active :: "nat list"
  required_owner :: "nat list"
  other_auths :: "authority list"

fun check_all :: "('x \<Rightarrow> sign_state \<Rightarrow> (bool \<times> sign_state) result) \<Rightarrow> chain_error \<Rightarrow> 'x list \<Rightarrow> sign_state \<Rightarrow> sign_state result" where
  "check_all f e [] st = Inr st"
| "check_all f e (x # xs) st = bind (f x st) (\<lambda>(ok, st'). bind (graphene_assert ok e) (\<lambda>_. check_all f e xs st'))"

definition check_active :: "sign_env \<Rightarrow> nat \<Rightarrow> (nat \<Rightarrow> authority option result) \<Rightarrow> nat \<Rightarrow> sign_state \<Rightarrow> (bool \<times> sign_state) result" where
  "check_active E max_recursion get_owner a st =
     bind (check_account E max_recursion a st) (\<lambda>(ok, st').
     if ok then Inr (True, st') else bind (get_owner a) (\<lambda>au. check_authority E max_recursion au st'))"

definition check_owner ::
  "sign_env \<Rightarrow> nat \<Rightarrow> (nat \<Rightarrow> authority option result) \<Rightarrow> nat set \<Rightarrow> nat \<Rightarrow> sign_state \<Rightarrow> (bool \<times> sign_state) result" where
  "check_owner E max_recursion get_owner owner_approvals a st =
     (if a \<in> owner_approvals then Inr (True, st)
      else bind (get_owner a) (\<lambda>au. check_authority E max_recursion au st))"

definition verify_authority ::
  "sign_env \<Rightarrow> (nat \<Rightarrow> authority option result) \<Rightarrow> nat \<Rightarrow> bool \<Rightarrow> nat set \<Rightarrow> nat set \<Rightarrow> required_auths \<Rightarrow> public_key list \<Rightarrow> unit result" where
  "verify_authority E get_owner max_recursion_depth allow_committe active_aprovals owner_approvals req sigs =
     bind (if \<not> allow_committe
           then graphene_assert (GRAPHENE_COMMITTEE_ACCOUNT \<notin> set (required_active req)) (Chain_Exception ''invalid_committee_approval'')
           else Inr ()) (\<lambda>_.
     let st0 = (initial_sign_state sigs)\<lparr>approved_by := {GRAPHENE_TEMP_ACCOUNT} \<union> active_aprovals \<union> owner_approvals\<rparr> in
     bind (check_all (\<lambda>au. check_authority E max_recursion_depth (Some au)) (Chain_Exception ''tx_missing_other_auth'') (other_auths req) st0) (\<lambda>st1.
     bind (check_all (check_active E max_recursion_depth get_owner) (Chain_Exception ''tx_missing_active_auth'') (required_active req) st1) (\<lambda>st2.
     bind (check_all (check_owner E max_recursion_depth get_owner owner_approvals) (Chain_Exception ''tx_missing_owner_auth'') (required_owner req) st2) (\<lambda>st3.
     graphene_assert (\<not> fst (remove_unused_signatures st3)) (Chain_Exception ''tx_irrelevant_sig'')))))"

text \<open>The keys of the signatures: recovering a key from a signature is a parameter, a key may sign once only.\<close>

fun get_signature_keys :: "('sig \<Rightarrow> public_key result) \<Rightarrow> 'sig list \<Rightarrow> public_key list \<Rightarrow> public_key list result" where
  "get_signature_keys recover [] result = Inr result"
| "get_signature_keys recover (s # sigs) result =
     bind (recover s) (\<lambda>k.
     bind (graphene_assert (k \<notin> set result) (Chain_Exception ''tx_duplicate_sig'')) (\<lambda>_.
     get_signature_keys recover sigs (result @ [k])))"

fun run_checks :: "('x \<Rightarrow> sign_state \<Rightarrow> (bool \<times> sign_state) result) \<Rightarrow> 'x list \<Rightarrow> sign_state \<Rightarrow> sign_state result" where
  "run_checks f [] st = Inr st"
| "run_checks f (x # xs) st = bind (f x st) (\<lambda>(ok, st'). run_checks f xs st')"

definition get_required_signatures ::
  "sign_env \<Rightarrow> (nat \<Rightarrow> authority option result) \<Rightarrow> nat \<Rightarrow> required_auths \<Rightarrow> public_key list \<Rightarrow> public_key list result" where
  "get_required_signatures E get_owner max_recursion_depth req sigs =
     bind (run_checks (\<lambda>au. check_authority E max_recursion_depth (Some au)) (other_auths req) (initial_sign_state sigs)) (\<lambda>st1.
     bind (run_checks (\<lambda>a st. bind (get_owner a) (\<lambda>au. check_authority E max_recursion_depth au st)) (required_owner req) st1) (\<lambda>st2.
     bind (run_checks (check_account E max_recursion_depth) (required_active req) st2) (\<lambda>st3.
     Inr (filter (\<lambda>k. k \<in> set (available_keys E)) (map fst (provided_signatures (snd (remove_unused_signatures st3))))))))"

definition missing_auth :: "chain_error \<Rightarrow> bool" where
  "missing_auth e \<longleftrightarrow> e = Chain_Exception ''tx_missing_owner_auth'' \<or> e = Chain_Exception ''tx_missing_active_auth'' \<or>
     e = Chain_Exception ''tx_missing_other_auth''"

fun minimize_loop :: "(public_key list \<Rightarrow> unit result) \<Rightarrow> public_key list \<Rightarrow> public_key list \<Rightarrow> public_key list result" where
  "minimize_loop verify [] result = Inr result"
| "minimize_loop verify (k # ks) result =
     (case verify (filter (\<lambda>j. j \<noteq> k) result) of
        Inr u \<Rightarrow> minimize_loop verify ks (filter (\<lambda>j. j \<noteq> k) result)
      | Inl e \<Rightarrow> if missing_auth e then minimize_loop verify ks result else Inl e)"

definition minimize_required_signatures ::
  "sign_env \<Rightarrow> (nat \<Rightarrow> authority option result) \<Rightarrow> nat \<Rightarrow> required_auths \<Rightarrow> public_key list \<Rightarrow> public_key list result" where
  "minimize_required_signatures E get_owner max_recursion req sigs =
     bind (get_required_signatures E get_owner max_recursion req sigs) (\<lambda>s.
     minimize_loop (verify_authority (E\<lparr>available_keys := []\<rparr>) get_owner max_recursion False {} {} req) s s)"

section \<open>What it means to be authorised\<close>

definition weight_where :: "('k \<Rightarrow> bool) \<Rightarrow> ('k \<times> u16) list \<Rightarrow> nat" where
  "weight_where P ks = sum_list (map (\<lambda>(k, w). if P k then unat w else 0) ks)"

lemma weight_where_simps [simp]:
  "weight_where P [] = 0" "weight_where P ((k, w) # ks) = (if P k then unat w else 0) + weight_where P ks"
  by (simp_all add: weight_where_def)

lemma weight_where_mono: "(\<And>k. P k \<Longrightarrow> Q k) \<Longrightarrow> weight_where P ks \<le> weight_where Q ks"
proof (induction ks)
  case (Cons x ks)
  then show ?case by (cases x) (auto simp: add_le_mono)
qed simp

text \<open>
  The declarative meaning of an authority: the keys in \<open>K\<close>, their addresses and the accounts that are approved
  beforehand (\<open>A\<close>) or themselves authorised carry the threshold.
\<close>

definition key_address :: "sign_env \<Rightarrow> public_key set \<Rightarrow> address \<Rightarrow> bool" where
  "key_address E K x \<longleftrightarrow> (\<exists>k \<in> K. x \<in> set (key_addresses E k))"

inductive authorised :: "sign_env \<Rightarrow> public_key set \<Rightarrow> nat set \<Rightarrow> authority \<Rightarrow> bool" for E K A where
  enough: "\<forall>a \<in> B. a \<in> A \<or> (\<exists>b. get_active E a = Inr (Some b) \<and> authorised E K A b) \<Longrightarrow>
    unat (weight_threshold au) \<le> weight_where (\<lambda>k. k \<in> K) (key_auths au) + weight_where (key_address E K) (address_auths au) +
      weight_where (\<lambda>a. a \<in> B) (account_auths au) \<Longrightarrow>
    authorised E K A au"

inductive_cases authorisedE: "authorised E K A au"

definition may_act :: "sign_env \<Rightarrow> public_key set \<Rightarrow> nat set \<Rightarrow> nat \<Rightarrow> bool" where
  "may_act E K A a \<longleftrightarrow> a \<in> A \<or> (\<exists>b. get_active E a = Inr (Some b) \<and> authorised E K A b)"

lemma authorisedI:
  "unat (weight_threshold au) \<le> weight_where (\<lambda>k. k \<in> K) (key_auths au) + weight_where (key_address E K) (address_auths au) +
      weight_where (may_act E K A) (account_auths au) \<Longrightarrow> authorised E K A au"
  by (rule enough [where B = "Collect (may_act E K A)"]) (simp add: may_act_def, simp)

section \<open>The search finds only authorised ones\<close>

definition sound_state :: "sign_env \<Rightarrow> public_key set \<Rightarrow> nat set \<Rightarrow> sign_state \<Rightarrow> bool" where
  "sound_state E K A st \<longleftrightarrow> fst ` set (provided_signatures st) \<subseteq> K \<and> approved_by st \<subseteq> {a. may_act E K A a} \<and>
     (case address_sigs st of None \<Rightarrow> True
      | Some (available, provided) \<Rightarrow> \<forall>x k. available x = Some k \<or> provided x = Some k \<longrightarrow> k \<in> K \<and> x \<in> set (key_addresses E k))"

lemma keys_mark [simp]: "fst ` set (provided_signatures (mark_signature k st)) = insert k (fst ` set (provided_signatures st))"
  by (simp add: mark_signature_def dom_map_of_conv_image_fst [symmetric] update_conv')

lemma mark_signature_other [simp]:
  "approved_by (mark_signature k st) = approved_by st" "address_sigs (mark_signature k st) = address_sigs st"
  by (simp_all add: mark_signature_def)

lemma sound_mark: "sound_state E K A st \<Longrightarrow> k \<in> K \<Longrightarrow> sound_state E K A (mark_signature k st)"
  by (simp add: sound_state_def)

lemma add_addresses_in: "add_addresses j as m x = Some k \<Longrightarrow> (x \<in> set as \<and> j = k) \<or> m x = Some k"
  unfolding add_addresses_def
proof (induction as arbitrary: m)
  case (Cons a as)
  then show ?case using Cons.IH [of "m(a \<mapsto> j)"] by (auto split: if_splits)
qed simp

lemma address_map_in:
  assumes "address_map E ks x = Some k"
  shows "k \<in> set ks \<and> x \<in> set (key_addresses E k)"
proof -
  have "fold (\<lambda>k m. add_addresses k (key_addresses E k) m) js m x = Some k \<Longrightarrow>
      (k \<in> set js \<and> x \<in> set (key_addresses E k)) \<or> m x = Some k" for js m
  proof (induction js arbitrary: m)
    case (Cons j js)
    have "fold (\<lambda>k m. add_addresses k (key_addresses E k) m) js (add_addresses j (key_addresses E j) m) x = Some k"
      using Cons.prems by simp
    from Cons.IH [OF this] show ?case using add_addresses_in [of j "key_addresses E j" m x k] by auto
  qed simp
  from this [of ks Map.empty] show ?thesis using assms by (simp add: address_map_def)
qed

lemma unat_add_weight: "unat ((t :: u32) + ucast (w :: u16)) = (unat t + unat w) mod 2 ^ 32"
  by (simp add: unat_word_ariths unsigned_ucast_eq take_bit_eq_mod mod_simps)

lemma weight_loop_sound:
  assumes f: "\<forall>k st ok st'. I st \<longrightarrow> f k st = Inr (ok, st') \<longrightarrow> I st' \<and> (ok \<longrightarrow> P k)"
  shows "I st \<Longrightarrow> weight_loop f th ks t st = Inr (d, t', st') \<Longrightarrow>
    I st' \<and> unat t' \<le> unat t + weight_where P ks \<and> (d \<longrightarrow> th \<le> t')"
proof (induction ks arbitrary: t st)
  case (Cons x ks)
  obtain k w where x: "x = (k, w)" by (cases x)
  obtain ok st1 where 1: "f k st = Inr (ok, st1)"
    and r: "(if ok then (let u = t + ucast w in if u \<ge> th then Inr (True, u, st1) else weight_loop f th ks u st1)
      else weight_loop f th ks t st1) = Inr (d, t', st')"
    using Cons.prems(2) by (auto simp: x ok_simps)
  have I1: "I st1" "ok \<longrightarrow> P k" using f Cons.prems(1) 1 by blast+
  have le: "unat (t + ucast w) \<le> unat t + unat w" by (simp add: unat_add_weight)
  show ?case
  proof (cases "ok \<and> th \<le> t + ucast w")
    case True
    then show ?thesis using r I1 le by (auto simp: x)
  next
    case False
    then have "weight_loop f th ks (if ok then t + ucast w else t) st1 = Inr (d, t', st')" using r by (auto simp: Let_def)
    from Cons.IH [OF I1(1) this] show ?thesis using I1 le by (auto simp: x split: if_splits)
  qed
qed auto

lemma signed_by_key_sound:
  "set (available_keys E) \<subseteq> K \<Longrightarrow>
    \<forall>k st ok st'. sound_state E K A st \<longrightarrow> signed_by_key E k st = Inr (ok, st') \<longrightarrow> sound_state E K A st' \<and> (ok \<longrightarrow> k \<in> K)"
proof (intro allI impI)
  fix k st ok st' assume K: "set (available_keys E) \<subseteq> K" and s: "sound_state E K A st" and b: "signed_by_key E k st = Inr (ok, st')"
  have "fst ` set (provided_signatures st) \<subseteq> K" using s by (simp add: sound_state_def)
  moreover have "(k \<in> fst ` set (provided_signatures st) \<or> k \<in> set (available_keys E)) \<and> st' = mark_signature k st \<or> \<not> ok \<and> st' = st"
    using b by (simp add: signed_by_key_def split: if_splits)
  ultimately show "sound_state E K A st' \<and> (ok \<longrightarrow> k \<in> K)" using K s sound_mark [OF s, of k] by blast
qed

lemma with_address_maps_sound:
  assumes "set (available_keys E) \<subseteq> K" "sound_state E K A st"
  shows "sound_state E K A (with_address_maps E st)"
proof (cases "address_sigs st")
  case None
  have p: "fst ` set (provided_signatures st) \<subseteq> K" using assms(2) by (simp add: sound_state_def)
  have "j \<in> K \<and> x \<in> set (key_addresses E j)"
    if "address_map E (available_keys E) x = Some j \<or> address_map E (map fst (provided_signatures st)) x = Some j" for x j
    using that assms(1) p address_map_in by fastforce
  then show ?thesis using assms(2) None unfolding with_address_maps_def sound_state_def by simp blast
qed (use assms(2) in \<open>simp add: with_address_maps_def\<close>)

lemma signed_by_address_sound:
  assumes K: "set (available_keys E) \<subseteq> K"
  shows "\<forall>x st ok st'. sound_state E K A st \<longrightarrow> signed_by_address E x st = Inr (ok, st') \<longrightarrow>
    sound_state E K A st' \<and> (ok \<longrightarrow> key_address E K x)"
proof (intro allI impI)
  fix x st ok st'
  assume s: "sound_state E K A st" and r: "signed_by_address E x st = Inr (ok, st')"
  let ?st = "with_address_maps E st"
  note s1 = with_address_maps_sound [OF K s]
  obtain av pr where m: "address_sigs ?st = Some (av, pr)"
    using r by (auto simp: signed_by_address_def Let_def split: option.splits)
  have in_K: "av x = Some k \<or> pr x = Some k \<Longrightarrow> k \<in> K \<and> x \<in> set (key_addresses E k)" for k
    using s1 m by (auto simp: sound_state_def)
  show "sound_state E K A st' \<and> (ok \<longrightarrow> key_address E K x)"
    using r m in_K s1 sound_mark [OF s1]
    by (auto simp: signed_by_address_def Let_def key_address_def split: option.splits if_splits)
qed

text \<open>A deeper check is sound when it keeps the state sound and accepts authorised authorities only.\<close>

definition sound_check ::
  "sign_env \<Rightarrow> public_key set \<Rightarrow> nat set \<Rightarrow> (authority option \<Rightarrow> sign_state \<Rightarrow> (bool \<times> sign_state) result) \<Rightarrow> bool" where
  "sound_check E K A check \<longleftrightarrow> (\<forall>au st ok st'. sound_state E K A st \<longrightarrow> check au st = Inr (ok, st') \<longrightarrow>
     sound_state E K A st' \<and> (ok \<longrightarrow> (\<exists>x. au = Some x \<and> authorised E K A x)))"

lemma account_approved_sound:
  assumes "\<forall>check. deeper = Some check \<longrightarrow> sound_check E K A check"
  shows "\<forall>a st ok st'. sound_state E K A st \<longrightarrow> account_approved E deeper a st = Inr (ok, st') \<longrightarrow>
    sound_state E K A st' \<and> (ok \<longrightarrow> may_act E K A a)"
proof (intro allI impI)
  fix a st ok st'
  assume s: "sound_state E K A st" and r: "account_approved E deeper a st = Inr (ok, st')"
  show "sound_state E K A st' \<and> (ok \<longrightarrow> may_act E K A a)"
  proof (cases "a \<in> approved_by st \<or> deeper = None")
    case True
    then show ?thesis using s r by (auto simp: account_approved_def sound_state_def split: if_splits)
  next
    case False
    then obtain check au st1 where d: "deeper = Some check" and au: "get_active E a = Inr au" and c: "check au st = Inr (ok, st1)"
      and st': "st' = (if ok then approve a st1 else st1)"
      using r by (auto simp: account_approved_def ok_simps)
    then have "sound_state E K A st1" "ok \<longrightarrow> (\<exists>x. au = Some x \<and> authorised E K A x)"
      using assms s unfolding sound_check_def by blast+
    then show ?thesis using au st' by (auto simp: sound_state_def approve_def may_act_def)
  qed
qed

lemma check_members_sound:
  assumes K: "set (available_keys E) \<subseteq> K" and deeper: "\<forall>check. deeper = Some check \<longrightarrow> sound_check E K A check"
  shows "sound_check E K A (check_members E deeper)"
  unfolding sound_check_def
proof (intro allI impI)
  fix au st ok st'
  assume s: "sound_state E K A st" and r: "check_members E deeper au st = Inr (ok, st')"
  show "sound_state E K A st' \<and> (ok \<longrightarrow> (\<exists>x. au = Some x \<and> authorised E K A x))"
  proof (cases au)
    case None
    then show ?thesis using s r by (simp add: check_members_def)
  next
    case (Some x)
    let ?th = "weight_threshold x"
    obtain d1 t1 st1 where 1: "weight_loop (signed_by_key E) ?th (key_auths x) 0 st = Inr (d1, t1, st1)"
      and r1: "(if d1 then Inr (True, st1) else
          bind (weight_loop (signed_by_address E) ?th (address_auths x) t1 st1) (\<lambda>(done2, t2, st2).
          if done2 then Inr (True, st2) else
          bind (weight_loop (account_approved E deeper) ?th (account_auths x) t2 st2) (\<lambda>(done3, t3, st3).
          if done3 then Inr (True, st3) else Inr (t3 \<ge> ?th, st3)))) = Inr (ok, st')"
      using r by (auto simp: check_members_def Some Let_def ok_simps simp del: if_split)
    note k = weight_loop_sound [OF signed_by_key_sound [OF K], OF s 1]
    have auth: "authorised E K A x" if "?th \<le> t" "unat t \<le> weight_where (\<lambda>k. k \<in> K) (key_auths x) +
        weight_where (key_address E K) (address_auths x) + weight_where (may_act E K A) (account_auths x)" for t
      using that by (intro authorisedI) (simp add: word_le_nat_alt)
    show ?thesis
    proof (cases d1)
      case True
      then show ?thesis using r1 k auth [of t1] Some by auto
    next
      case False
      then obtain d2 t2 st2 where 2: "weight_loop (signed_by_address E) ?th (address_auths x) t1 st1 = Inr (d2, t2, st2)"
        and r2: "(if d2 then Inr (True, st2) else
          bind (weight_loop (account_approved E deeper) ?th (account_auths x) t2 st2) (\<lambda>(done3, t3, st3).
          if done3 then Inr (True, st3) else Inr (t3 \<ge> ?th, st3))) = Inr (ok, st')"
        using r1 by (auto simp: ok_simps simp del: if_split)
      note a = weight_loop_sound [OF signed_by_address_sound [OF K], OF conjunct1 [OF k] 2]
      show ?thesis
      proof (cases d2)
        case True
        then show ?thesis using r2 k a auth [of t2] Some by auto
      next
        case False
        then obtain d3 t3 where 3: "weight_loop (account_approved E deeper) ?th (account_auths x) t2 st2 = Inr (d3, t3, st')"
          and r3: "ok = (d3 \<or> ?th \<le> t3)"
          using r2 by (auto simp: ok_simps split: if_splits)
        note b = weight_loop_sound [OF account_approved_sound [OF deeper], OF conjunct1 [OF a] 3]
        have "unat t3 \<le> weight_where (\<lambda>k. k \<in> K) (key_auths x) + weight_where (key_address E K) (address_auths x) +
            weight_where (may_act E K A) (account_auths x)" using k a b by simp
        moreover have "ok \<longrightarrow> ?th \<le> t3" using b r3 by blast
        ultimately show ?thesis using b Some auth by blast
      qed
    qed
  qed
qed

lemma check_authority_sound: "set (available_keys E) \<subseteq> K \<Longrightarrow> sound_check E K A (check_authority E levels)"
proof (induction levels)
  case 0
  have "check_authority E 0 = check_members E None" by (simp add: fun_eq_iff)
  then show ?case using check_members_sound [OF 0, of None A] by simp
next
  case (Suc n)
  have "check_authority E (Suc n) = check_members E (Some (check_authority E n))" by (simp add: fun_eq_iff)
  then show ?case using check_members_sound [OF Suc.prems, of "Some (check_authority E n)" A] Suc by simp
qed

section \<open>The search finds every authority within its depth\<close>

primrec auth_within :: "sign_env \<Rightarrow> public_key set \<Rightarrow> nat set \<Rightarrow> nat \<Rightarrow> authority \<Rightarrow> bool" where
  "auth_within E K A 0 au \<longleftrightarrow> unat (weight_threshold au) \<le>
     weight_where (\<lambda>k. k \<in> K) (key_auths au) + weight_where (\<lambda>a. a \<in> A) (account_auths au)"
| "auth_within E K A (Suc n) au \<longleftrightarrow> unat (weight_threshold au) \<le>
     weight_where (\<lambda>k. k \<in> K) (key_auths au) +
     weight_where (\<lambda>a. a \<in> A \<or> (\<exists>b. get_active E a = Inr (Some b) \<and> auth_within E K A n b)) (account_auths au)"

text \<open>Authorities without the addresses kept for compatibility, whose weights do not overflow.\<close>

definition plain_authority :: "authority \<Rightarrow> bool" where
  "plain_authority au \<longleftrightarrow> address_auths au = [] \<and>
     weight_where (\<lambda>k. True) (key_auths au) + weight_where (\<lambda>a. True) (account_auths au) < 2 ^ 32"

definition plain_env :: "sign_env \<Rightarrow> bool" where
  "plain_env E \<longleftrightarrow> (\<forall>a. \<exists>au. get_active E a = Inr au \<and> (\<forall>x. au = Some x \<longrightarrow> plain_authority x))"

definition has_signatures :: "public_key set \<Rightarrow> nat set \<Rightarrow> sign_state \<Rightarrow> bool" where
  "has_signatures K A st \<longleftrightarrow> K \<subseteq> fst ` set (provided_signatures st) \<and> A \<subseteq> approved_by st"

lemma weight_loop_complete:
  assumes f: "\<forall>k st. I st \<longrightarrow> (\<exists>ok st'. f k st = Inr (ok, st') \<and> I st' \<and> (P k \<longrightarrow> ok))"
  shows "I st \<Longrightarrow> unat t + weight_where (\<lambda>k. True) ks < 2 ^ 32 \<Longrightarrow>
    \<exists>d t' st'. weight_loop f th ks t st = Inr (d, t', st') \<and> I st' \<and> (d \<or> unat t + weight_where P ks \<le> unat t') \<and>
      unat t' \<le> unat t + weight_where (\<lambda>k. True) ks"
proof (induction ks arbitrary: t st)
  case (Cons x ks)
  obtain k w where x: "x = (k, w)" by (cases x)
  obtain ok st1 where 1: "f k st = Inr (ok, st1)" "I st1" "P k \<longrightarrow> ok" using f Cons.prems(1) by blast
  have u: "unat (t + ucast w) = unat t + unat w" using Cons.prems(2) by (simp add: unat_add_weight x)
  let ?u = "if ok then t + ucast w else t"
  have lt: "unat ?u + weight_where (\<lambda>k. True) ks < 2 ^ 32" using Cons.prems(2) u by (simp add: x)
  show ?case
  proof (cases "ok \<and> th \<le> t + ucast w")
    case True
    then have "weight_loop f th (x # ks) t st = Inr (True, t + ucast w, st1)" using 1 by (simp add: x)
    then show ?thesis using 1(2) u by (intro exI conjI) (auto simp: x)
  next
    case False
    then have "weight_loop f th (x # ks) t st = weight_loop f th ks ?u st1" using 1 by (auto simp: x Let_def)
    then show ?thesis using Cons.IH [OF 1(2) lt] 1(3) u by (fastforce simp: x split: if_splits)
  qed
qed auto

lemma signed_by_key_complete:
  "\<forall>k st. has_signatures K A st \<longrightarrow> (\<exists>ok st'. signed_by_key E k st = Inr (ok, st') \<and> has_signatures K A st' \<and> (k \<in> K \<longrightarrow> ok))"
  by (auto simp: signed_by_key_def has_signatures_def)

definition complete_check ::
  "public_key set \<Rightarrow> nat set \<Rightarrow> (authority \<Rightarrow> bool) \<Rightarrow> (authority option \<Rightarrow> sign_state \<Rightarrow> (bool \<times> sign_state) result) \<Rightarrow> bool" where
  "complete_check K A P check \<longleftrightarrow> (\<forall>au st. has_signatures K A st \<longrightarrow> (\<forall>x. au = Some x \<longrightarrow> plain_authority x) \<longrightarrow>
     (\<exists>ok st'. check au st = Inr (ok, st') \<and> has_signatures K A st' \<and> (\<forall>x. au = Some x \<longrightarrow> P x \<longrightarrow> ok)))"

lemma account_approved_complete:
  assumes E: "plain_env E" and deeper: "\<forall>check. deeper = Some check \<longrightarrow> complete_check K A P check"
  shows "\<forall>a st. has_signatures K A st \<longrightarrow> (\<exists>ok st'. account_approved E deeper a st = Inr (ok, st') \<and> has_signatures K A st' \<and>
    (a \<in> A \<or> (deeper \<noteq> None \<and> (\<exists>b. get_active E a = Inr (Some b) \<and> P b)) \<longrightarrow> ok))"
proof (intro allI impI)
  fix a st
  assume s: "has_signatures K A st"
  show "\<exists>ok st'. account_approved E deeper a st = Inr (ok, st') \<and> has_signatures K A st' \<and>
    (a \<in> A \<or> (deeper \<noteq> None \<and> (\<exists>b. get_active E a = Inr (Some b) \<and> P b)) \<longrightarrow> ok)"
  proof (cases "a \<in> approved_by st \<or> deeper = None")
    case True
    then have "account_approved E deeper a st = Inr (a \<in> approved_by st, st)" by (auto simp: account_approved_def)
    then show ?thesis using s True by (auto simp: has_signatures_def)
  next
    case False
    then obtain check where d: "deeper = Some check" by auto
    obtain au where au: "get_active E a = Inr au" "\<forall>x. au = Some x \<longrightarrow> plain_authority x"
      using E unfolding plain_env_def by blast
    obtain ok st1 where c: "check au st = Inr (ok, st1)" "has_signatures K A st1" "\<forall>x. au = Some x \<longrightarrow> P x \<longrightarrow> ok"
      using deeper d au(2) s unfolding complete_check_def by blast
    have "account_approved E deeper a st = Inr (ok, if ok then approve a st1 else st1)"
      using False d au c by (simp add: account_approved_def)
    moreover have "has_signatures K A (if ok then approve a st1 else st1)" using c(2) by (auto simp: has_signatures_def approve_def)
    moreover have "a \<in> A \<or> (deeper \<noteq> None \<and> (\<exists>b. get_active E a = Inr (Some b) \<and> P b)) \<longrightarrow> ok"
      using False s c(3) au(1) by (auto simp: has_signatures_def)
    ultimately show ?thesis by blast
  qed
qed

lemma check_members_complete:
  assumes E: "plain_env E" and deeper: "\<forall>check. deeper = Some check \<longrightarrow> complete_check K A P check"
    and Q: "\<forall>x. Q x \<longrightarrow> unat (weight_threshold x) \<le> weight_where (\<lambda>k. k \<in> K) (key_auths x) +
      weight_where (\<lambda>a. a \<in> A \<or> (deeper \<noteq> None \<and> (\<exists>b. get_active E a = Inr (Some b) \<and> P b))) (account_auths x)"
  shows "complete_check K A Q (check_members E deeper)"
  unfolding complete_check_def
proof (intro allI impI)
  fix au st
  assume s: "has_signatures K A st" and pl: "\<forall>x. au = Some x \<longrightarrow> plain_authority x"
  show "\<exists>ok st'. check_members E deeper au st = Inr (ok, st') \<and> has_signatures K A st' \<and> (\<forall>x. au = Some x \<longrightarrow> Q x \<longrightarrow> ok)"
  proof (cases au)
    case None
    then have "check_members E deeper au st = Inr (False, st)" by (simp add: check_members_def)
    then show ?thesis using s None by blast
  next
    case (Some x)
    let ?th = "weight_threshold x"
    have ad: "address_auths x = []" and lim: "weight_where (\<lambda>k. True) (key_auths x) + weight_where (\<lambda>a. True) (account_auths x) < 2 ^ 32"
      using pl Some by (auto simp: plain_authority_def)
    have "unat (0 :: u32) + weight_where (\<lambda>k. True) (key_auths x) < 2 ^ 32" using lim by simp
    from weight_loop_complete [OF signed_by_key_complete [of K A E], OF s this]
    obtain d1 t1 st1 where 1: "weight_loop (signed_by_key E) ?th (key_auths x) 0 st = Inr (d1, t1, st1)" "has_signatures K A st1"
      "d1 \<or> weight_where (\<lambda>k. k \<in> K) (key_auths x) \<le> unat t1" "unat t1 \<le> weight_where (\<lambda>k. True) (key_auths x)"
      unfolding unsigned_0 add_0 by blast
    have "unat t1 + weight_where (\<lambda>k. True) (account_auths x) < 2 ^ 32" using 1(4) lim by simp
    from weight_loop_complete [OF account_approved_complete [OF E deeper], OF 1(2) this]
    obtain d3 t3 st3 where 3: "weight_loop (account_approved E deeper) ?th (account_auths x) t1 st1 = Inr (d3, t3, st3)"
      "has_signatures K A st3" "d3 \<or> unat t1 + weight_where (\<lambda>a. a \<in> A \<or> (deeper \<noteq> None \<and> (\<exists>b. get_active E a = Inr (Some b) \<and> P b)))
        (account_auths x) \<le> unat t3" by blast
    show ?thesis
    proof (cases d1)
      case True
      then show ?thesis using 1 Some by (auto simp: check_members_def)
    next
      case False
      have "Q x \<longrightarrow> d3 \<or> ?th \<le> t3" using False Q [rule_format, of x] 1(3) 3(3) by (auto simp: word_le_nat_alt)
      then show ?thesis using False 1 3 Some ad by (auto simp: check_members_def Let_def)
    qed
  qed
qed

lemma check_authority_complete: "plain_env E \<Longrightarrow> complete_check K A (auth_within E K A levels) (check_authority E levels)"
proof (induction levels)
  case 0
  have "check_authority E 0 = check_members E None" by (simp add: fun_eq_iff)
  moreover have "complete_check K A (auth_within E K A 0) (check_members E None)"
    by (rule check_members_complete [OF 0]) simp_all
  ultimately show ?case by (simp only:)
next
  case (Suc n)
  have "check_authority E (Suc n) = check_members E (Some (check_authority E n))" by (simp add: fun_eq_iff)
  moreover have "complete_check K A (auth_within E K A (Suc n)) (check_members E (Some (check_authority E n)))"
    by (rule check_members_complete [OF Suc.prems, where P = "auth_within E K A n"]) (use Suc in simp_all)
  ultimately show ?case by (simp only:)
qed

section \<open>Properties\<close>

lemma check_all_sound:
  assumes f: "\<forall>x st ok st'. I st \<longrightarrow> f x st = Inr (ok, st') \<longrightarrow> I st' \<and> (ok \<longrightarrow> P x)"
  shows "I st \<Longrightarrow> check_all f e xs st = Inr st' \<Longrightarrow> I st' \<and> (\<forall>x \<in> set xs. P x)"
proof (induction xs arbitrary: st)
  case (Cons x xs)
  obtain st1 where 1: "f x st = Inr (True, st1)" "check_all f e xs st1 = Inr st'"
    using Cons.prems(2) by (auto simp: ok_simps)
  have "I st1" "P x" using f Cons.prems(1) 1(1) by blast+
  then show ?case using Cons.IH [OF _ 1(2)] by simp
qed simp

definition owner_may_act :: "sign_env \<Rightarrow> (nat \<Rightarrow> authority option result) \<Rightarrow> public_key set \<Rightarrow> nat set \<Rightarrow> nat \<Rightarrow> bool" where
  "owner_may_act E get_owner K A a \<longleftrightarrow> (\<exists>b. get_owner a = Inr (Some b) \<and> authorised E K A b)"

lemma check_active_sound:
  assumes K: "set (available_keys E) \<subseteq> K" and s: "sound_state E K A st"
    and r: "check_active E n get_owner a st = Inr (ok, st')"
  shows "sound_state E K A st' \<and> (ok \<longrightarrow> may_act E K A a \<or> owner_may_act E get_owner K A a)"
proof -
  note c = check_authority_sound [OF K, of A n, unfolded sound_check_def, rule_format]
  obtain ok1 st1 where 1: "check_account E n a st = Inr (ok1, st1)"
    and r1: "(if ok1 then Inr (True, st1) else bind (get_owner a) (\<lambda>au. check_authority E n au st1)) = Inr (ok, st')"
    using r by (auto simp: check_active_def ok_simps simp del: if_split)
  have "sound_state E K A st1 \<and> (ok1 \<longrightarrow> may_act E K A a)"
  proof (cases "a \<in> approved_by st")
    case True
    then show ?thesis using 1 s by (auto simp: check_account_def sound_state_def)
  next
    case False
    then obtain au where "get_active E a = Inr au" "check_authority E n au st = Inr (ok1, st1)"
      using 1 by (auto simp: check_account_def ok_simps)
    then show ?thesis using c [OF s] by (auto simp: may_act_def)
  qed
  then show ?thesis using r1 c by (auto simp: ok_simps owner_may_act_def split: if_splits)
qed

lemma check_owner_sound:
  assumes K: "set (available_keys E) \<subseteq> K" and s: "sound_state E K A st"
    and r: "check_owner E n get_owner OA a st = Inr (ok, st')"
  shows "sound_state E K A st' \<and> (ok \<longrightarrow> a \<in> OA \<or> owner_may_act E get_owner K A a)"
proof (cases "a \<in> OA")
  case False
  then obtain au where "get_owner a = Inr au" "check_authority E n au st = Inr (ok, st')"
    using r by (auto simp: check_owner_def ok_simps)
  then show ?thesis using check_authority_sound [OF K, of A n, unfolded sound_check_def, rule_format, OF s]
    by (auto simp: owner_may_act_def)
qed (use r s in \<open>auto simp: check_owner_def\<close>)

lemma verify_authority_accepts:
  assumes ok: "verify_authority E get_owner depth allow AA OA req sigs = Inr ()" and E: "available_keys E = []"
  defines "K \<equiv> set sigs" and "A \<equiv> {GRAPHENE_TEMP_ACCOUNT} \<union> AA \<union> OA"
  shows "(\<forall>a \<in> set (required_active req). may_act E K A a \<or> owner_may_act E get_owner K A a) \<and>
    (\<forall>a \<in> set (required_owner req). a \<in> OA \<or> owner_may_act E get_owner K A a) \<and>
    (\<forall>au \<in> set (other_auths req). authorised E K A au) \<and>
    (\<not> allow \<longrightarrow> GRAPHENE_COMMITTEE_ACCOUNT \<notin> set (required_active req))"
proof -
  let ?st0 = "(initial_sign_state sigs)\<lparr>approved_by := A\<rparr>"
  have com: "\<not> allow \<longrightarrow> GRAPHENE_COMMITTEE_ACCOUNT \<notin> set (required_active req)"
    using ok by (auto simp: verify_authority_def ok_simps split: if_splits)
  obtain st1 st2 st3 where
      1: "check_all (\<lambda>au. check_authority E depth (Some au)) (Chain_Exception ''tx_missing_other_auth'') (other_auths req) ?st0 = Inr st1"
    and 2: "check_all (check_active E depth get_owner) (Chain_Exception ''tx_missing_active_auth'') (required_active req) st1 = Inr st2"
    and 3: "check_all (check_owner E depth get_owner OA) (Chain_Exception ''tx_missing_owner_auth'') (required_owner req) st2 = Inr st3"
    using ok unfolding verify_authority_def A_def by (auto simp: Let_def ok_simps)
  have K: "set (available_keys E) \<subseteq> K" using E by simp
  have s0: "sound_state E K A ?st0"
    by (auto simp: sound_state_def initial_sign_state_def K_def may_act_def)
  have "\<forall>x st ok st'. sound_state E K A st \<longrightarrow> check_authority E depth (Some x) st = Inr (ok, st') \<longrightarrow>
      sound_state E K A st' \<and> (ok \<longrightarrow> authorised E K A x)"
    using check_authority_sound [OF K, of A depth] unfolding sound_check_def by blast
  note a1 = check_all_sound [OF this s0 1]
  have "\<forall>x st ok st'. sound_state E K A st \<longrightarrow> check_active E depth get_owner x st = Inr (ok, st') \<longrightarrow>
      sound_state E K A st' \<and> (ok \<longrightarrow> may_act E K A x \<or> owner_may_act E get_owner K A x)"
    using check_active_sound [OF K] by blast
  note a2 = check_all_sound [OF this conjunct1 [OF a1] 2]
  have "\<forall>x st ok st'. sound_state E K A st \<longrightarrow> check_owner E depth get_owner OA x st = Inr (ok, st') \<longrightarrow>
      sound_state E K A st' \<and> (ok \<longrightarrow> x \<in> OA \<or> owner_may_act E get_owner K A x)"
    using check_owner_sound [OF K] by blast
  note a3 = check_all_sound [OF this conjunct1 [OF a2] 3]
  show ?thesis using a1 a2 a3 com by blast
qed

text \<open>
  A transaction that passes the authority check is authorised: for every account it needs, the keys that signed it
  carry the threshold of the active or the owner authority of the account, directly or through accounts that are
  authorised themselves, and the same holds for the accounts needed by owner authority and for the further authorities.
  The committee account is never among the accounts needed unless this was allowed.
\<close>

theorem verify_authority_sound:
  assumes ok: "verify_authority E get_owner depth allow AA OA req sigs = Inr ()" and E: "available_keys E = []"
  defines "K \<equiv> set sigs" and "A \<equiv> {GRAPHENE_TEMP_ACCOUNT} \<union> AA \<union> OA"
  shows "(\<forall>a \<in> set (required_active req). may_act E K A a \<or> owner_may_act E get_owner K A a) \<and>
    (\<forall>a \<in> set (required_owner req). a \<in> OA \<or> owner_may_act E get_owner K A a) \<and>
    (\<forall>au \<in> set (other_auths req). authorised E K A au) \<and>
    (\<not> allow \<longrightarrow> GRAPHENE_COMMITTEE_ACCOUNT \<notin> set (required_active req))"
  unfolding K_def A_def by (rule verify_authority_accepts [OF ok E])

definition demo_env :: sign_env where
  "demo_env = \<lparr> get_active = (\<lambda>a. if a = 5 then Inr (Some \<lparr> weight_threshold = 2, account_auths = [(6, 1)], key_auths = [(50, 1), (51, 1)],
       address_auths = [] \<rparr>)
     else if a = 6 then Inr (Some \<lparr> weight_threshold = 1, account_auths = [], key_auths = [(60, 1)], address_auths = [] \<rparr>) else Inr None),
     available_keys = [], key_addresses = (\<lambda>k. [k + 1000]) \<rparr>"

definition demo_request :: required_auths where
  "demo_request = \<lparr> required_active = [5], required_owner = [], other_auths = [] \<rparr>"

theorem verify_authority_sound_witness:
  "verify_authority demo_env (\<lambda>a. Inr None) 2 False {} {} demo_request [50, 60] = Inr () \<and>
   may_act demo_env {50, 60} {4} 5"
proof -
  have v: "verify_authority demo_env (\<lambda>a. Inr None) 2 False {} {} demo_request [50, 60] = Inr ()" by code_simp
  have "available_keys demo_env = []" by (simp add: demo_env_def)
  from verify_authority_sound [OF v this] v show ?thesis
    by (simp add: demo_request_def owner_may_act_def GRAPHENE_TEMP_ACCOUNT_def)
qed

text \<open>
  C24. Enough signatures are found: when the keys that signed carry the threshold of an authority within the depth of the
  search, the check accepts it, whatever was searched before. It always returns on authorities without addresses whose
  weights do not overflow.
\<close>

theorem check_authority_finds:
  assumes "plain_env E" "plain_authority au" "auth_within E K A depth au"
    and "K \<subseteq> fst ` set (provided_signatures st)" "A \<subseteq> approved_by st"
  shows "\<exists>st'. check_authority E depth (Some au) st = Inr (True, st')"
proof -
  have h: "has_signatures K A st" using assms(4,5) by (simp add: has_signatures_def)
  note c = check_authority_complete [OF assms(1), of K A depth, unfolded complete_check_def, rule_format, OF h, of "Some au"]
  show ?thesis using c assms(2,3) by auto
qed

theorem check_authority_finds_witness:
  "\<exists>st' au. get_active demo_env 5 = Inr (Some au) \<and> check_authority demo_env 2 (Some au) (initial_sign_state [50, 60]) = Inr (True, st')"
proof -
  let ?au = "\<lparr> weight_threshold = 2, account_auths = [(6, 1)], key_auths = [(50, 1), (51, 1)], address_auths = [] \<rparr>"
  let ?bu = "\<lparr> weight_threshold = 1, account_auths = [], key_auths = [(60, 1)], address_auths = [] \<rparr>"
  have e: "plain_authority ?au" "plain_authority ?bu" by (simp_all add: plain_authority_def)
  have E: "plain_env demo_env" unfolding plain_env_def
  proof
    fix a :: nat
    have "get_active demo_env a = Inr (if a = 5 then Some ?au else if a = 6 then Some ?bu else None)" by (simp add: demo_env_def)
    then show "\<exists>au. get_active demo_env a = Inr au \<and> (\<forall>x. au = Some x \<longrightarrow> plain_authority x)" using e by auto
  qed
  have "auth_within demo_env {50, 60} {4} 2 ?au" by (simp add: numeral_2_eq_2 demo_env_def)
  from check_authority_finds [OF E e(1) this, of "initial_sign_state [50, 60]"] show ?thesis
    by (auto simp: initial_sign_state_def GRAPHENE_TEMP_ACCOUNT_def demo_env_def)
qed

text \<open>
  An authority that names an address none of the keys belongs to makes the check dereference the end of a map
  instead of reporting a missing signature.
\<close>

lemma unknown_address_undefined:
  assumes "address_sigs st = None" "address_map E (available_keys E) x = None"
    "address_map E (map fst (provided_signatures st)) x = None"
  shows "signed_by_address E x st = Inl (Chain_Exception ''end iterator dereferenced'')"
  using assms by (simp add: signed_by_address_def with_address_maps_def Let_def)

end
