(* ===== verification/Chain_Objects.thy ===== *)
theory Chain_Objects
  imports Object_Database Vesting Authority
begin

text \<open>
  The objects the chain keeps in its tables (account_object.hpp, asset_object.hpp, market_object.hpp,
  locked_balance_object.hpp, witness_object.hpp, withdraw_permission_object.hpp, global_property_object.hpp,
  protocol/chain_parameters.hpp, protocol/asset_ops.hpp), with their member functions, and the database record that
  collects the tables.

  The identifier of an object is its instance number in its table. Fields that no modelled operation
  reads are left out: memo keys and special authorities, memo and description strings, operation history
  links, extensions. An ordered
  \<^verbatim>\<open>flat_set\<close> is a set; the \<^verbatim>\<open>flat_map\<close> of price feeds is an association list in key order.
\<close>

section \<open>Votes\<close>

text \<open>
  A vote id carries a type in its lower 8 bits and an instance in the others; it converts to its instance, which is what
  comparisons, unique indices and the tally use.
\<close>

unbundle bit_operations_syntax

type_synonym vote_id = u32

datatype vote_type = Vote_Committee | Vote_Witness | Vote_Worker

definition vote_type_code :: "vote_type \<Rightarrow> u32" where
  "vote_type_code t = (case t of Vote_Committee \<Rightarrow> 0 | Vote_Witness \<Rightarrow> 1 | Vote_Worker \<Rightarrow> 2)"

definition make_vote_id :: "vote_type \<Rightarrow> u32 \<Rightarrow> vote_id" where
  "make_vote_id t instance_num = push_bit 8 instance_num OR vote_type_code t"

definition vote_instance :: "vote_id \<Rightarrow> u32" where
  "vote_instance v = drop_bit 8 v"

definition vote_has_type :: "vote_type \<Rightarrow> vote_id \<Rightarrow> bool" where
  "vote_has_type t v \<longleftrightarrow> v AND 0xff = vote_type_code t"

datatype special_authority = No_Special_Authority | Top_Holders nat u8

record account_options =
  voting_account :: nat
  num_witness :: u16
  num_committee :: u16
  votes :: "vote_id list"

section \<open>Accounts\<close>

record account_statistics_object =
  st_owner :: nat
  total_core_in_orders :: share_type
  lifetime_fees_paid :: share_type
  pending_fees :: share_type
  pending_vested_fees :: share_type
  tx_fees :: "nat \<rightharpoonup> share_type"
  market_fees :: "nat \<rightharpoonup> share_type"

record account_balance_object =
  ab_owner :: nat
  asset_type :: nat
  balance :: share_type
  lockeds :: "nat set"

record account_object =
  membership_expiration_date :: time_point_sec
  registrar :: nat
  referrer :: nat
  lifetime_referrer :: nat
  network_fee_percentage :: u16
  lifetime_referrer_fee_percentage :: u16
  referrer_rewards_percentage :: u16
  acct_name :: string
  owner_authority :: authority
  active_authority :: authority
  acct_options :: account_options
  statistics :: nat
  whitelisting_accounts :: "nat set"
  whitelisted_accounts :: "nat set"
  blacklisted_accounts :: "nat set"
  blacklisting_accounts :: "nat set"
  cashback_vb :: "nat option"
  owner_special_authority :: special_authority
  active_special_authority :: special_authority
  top_n_control_flags :: u8
  allowed_assets :: "nat set option"


definition GRAPHENE_100_PERCENT :: int where "GRAPHENE_100_PERCENT = 10000"

definition get_balance_of :: "account_balance_object \<Rightarrow> asset" where
  "get_balance_of b = mk_asset (balance b) (asset_type b)"

definition adjust_balance_object :: "fc_lib \<Rightarrow> asset \<Rightarrow> account_balance_object \<Rightarrow> account_balance_object result" where
  "adjust_balance_object F delta b =
     bind (safe_add F (balance b) (amount delta)) (\<lambda>v. Inr (b\<lparr>balance := v\<rparr>))"

definition add_lock_balance :: "nat \<Rightarrow> account_balance_object \<Rightarrow> account_balance_object result" where
  "add_lock_balance i b =
     bind (fc_assert (card (lockeds b) < 50) ''max 50 lock balance per asset'') (\<lambda>_.
     Inr (b\<lparr>lockeds := insert i (lockeds b)\<rparr>))"

definition unlock_balance_of :: "nat \<Rightarrow> account_balance_object \<Rightarrow> account_balance_object result" where
  "unlock_balance_of i b =
     bind (fc_assert (i \<in> lockeds b) ''can't find the locked balance id'') (\<lambda>_.
     Inr (b\<lparr>lockeds := lockeds b - {i}\<rparr>))"

definition is_lifetime_member :: "account_object \<Rightarrow> bool" where
  "is_lifetime_member a \<longleftrightarrow> membership_expiration_date a = 0xffffffff"

definition is_basic_account :: "account_object \<Rightarrow> time_point_sec \<Rightarrow> bool" where
  "is_basic_account a now \<longleftrightarrow> now > membership_expiration_date a"

definition is_annual_member :: "account_object \<Rightarrow> time_point_sec \<Rightarrow> bool" where
  "is_annual_member a now \<longleftrightarrow> \<not> is_lifetime_member a \<and> \<not> is_basic_account a now"

definition is_member :: "account_object \<Rightarrow> time_point_sec \<Rightarrow> bool" where
  "is_member a now \<longleftrightarrow> \<not> is_basic_account a now"

definition stat_pay_fee ::
  "fc_lib \<Rightarrow> share_type \<Rightarrow> share_type \<Rightarrow> account_statistics_object \<Rightarrow> account_statistics_object result" where
  "stat_pay_fee F core_fee cashback_vesting_threshold s =
     (if core_fee > cashback_vesting_threshold then
        bind (safe_add F (pending_fees s) core_fee) (\<lambda>v. Inr (s\<lparr>pending_fees := v\<rparr>))
      else
        bind (safe_add F (pending_vested_fees s) core_fee) (\<lambda>v. Inr (s\<lparr>pending_vested_fees := v\<rparr>)))"

section \<open>Assets\<close>

definition charge_market_fee :: u16 where "charge_market_fee = 0x01"
definition white_list :: u16 where "white_list = 0x02"
definition override_authority :: u16 where "override_authority = 0x04"
definition transfer_restricted :: u16 where "transfer_restricted = 0x08"
definition disable_force_settle :: u16 where "disable_force_settle = 0x10"
definition global_settle :: u16 where "global_settle = 0x20"
definition disable_confidential :: u16 where "disable_confidential = 0x40"
definition witness_fed_asset :: u16 where "witness_fed_asset = 0x80"
definition committee_fed_asset :: u16 where "committee_fed_asset = 0x100"

record asset_options =
  max_supply :: share_type
  market_fee_percent :: u16
  max_market_fee :: share_type
  issuer_permissions :: u16
  flags :: u16
  opt_core_exchange_rate :: price
  whitelist_authorities :: "nat set"
  blacklist_authorities :: "nat set"
  whitelist_markets :: "nat set"
  blacklist_markets :: "nat set"

record bitasset_options =
  feed_lifetime_sec :: u32
  minimum_feeds :: u8
  force_settlement_delay_sec :: u32
  force_settlement_offset_percent :: u16
  maximum_force_settlement_volume :: u16
  short_backing_asset :: nat

record asset_object =
  symbol :: string
  precision :: u8
  issuer :: nat
  options :: asset_options
  dynamic_asset_data_id :: nat
  lock_data_id :: "nat option"
  bitasset_data_id :: "nat option"
  buyback_account :: "nat option"

record asset_dynamic_data_object =
  current_supply :: share_type
  confidential_supply :: share_type
  accumulated_fees :: share_type
  fee_pool :: share_type
  dyn_locked_balance :: share_type
  dyn_market_fees :: share_type

record asset_lock_data_object =
  lock_asset_id :: nat
  nominal_interest_perday :: price
  reward_coefficient :: u32
  interest_pool :: share_type
  max_period :: u32
  profile_scale_percent :: u32
  profile_receive_percent :: u32
  can_unlock_not_expired :: bool

record asset_bitasset_data_object =
  bit_options :: bitasset_options
  feeds :: "(nat \<times> time_point_sec \<times> price_feed) list"
  current_feed :: price_feed
  current_feed_publication_time :: time_point_sec
  is_prediction_market :: bool
  force_settled_volume :: share_type
  bit_settlement_price :: price
  settlement_fund :: share_type

definition is_market_issued :: "asset_object \<Rightarrow> bool" where
  "is_market_issued a \<longleftrightarrow> bitasset_data_id a \<noteq> None"

definition has_flag :: "u16 \<Rightarrow> u16 \<Rightarrow> bool" where
  "has_flag fs f \<longleftrightarrow> fs AND f \<noteq> 0"

definition can_force_settle :: "asset_object \<Rightarrow> bool" where
  "can_force_settle a \<longleftrightarrow> \<not> has_flag (flags (options a)) disable_force_settle"

definition can_global_settle :: "asset_object \<Rightarrow> bool" where
  "can_global_settle a \<longleftrightarrow> has_flag (issuer_permissions (options a)) global_settle"

definition charges_market_fees :: "asset_object \<Rightarrow> bool" where
  "charges_market_fees a \<longleftrightarrow> has_flag (flags (options a)) charge_market_fee"

definition is_transfer_restricted :: "asset_object \<Rightarrow> bool" where
  "is_transfer_restricted a \<longleftrightarrow> has_flag (flags (options a)) transfer_restricted"

definition can_override :: "asset_object \<Rightarrow> bool" where
  "can_override a \<longleftrightarrow> has_flag (flags (options a)) override_authority"

definition asset_object_validate :: "asset_object \<Rightarrow> unit result" where
  "asset_object_validate a =
     (if \<not> is_market_issued a then
        bind (fc_assert (\<not> (has_flag (flags (options a)) disable_force_settle \<or>
                            has_flag (flags (options a)) global_settle)) ''flags'') (\<lambda>_.
        fc_assert (\<not> (has_flag (issuer_permissions (options a)) disable_force_settle \<or>
                       has_flag (issuer_permissions (options a)) global_settle)) ''issuer_permissions'')
      else Inr ())"

definition has_settlement :: "asset_bitasset_data_object \<Rightarrow> bool" where
  "has_settlement b \<longleftrightarrow> \<not> price_is_null (bit_settlement_price b)"

definition feed_expiration_time :: "asset_bitasset_data_object \<Rightarrow> time_point_sec" where
  "feed_expiration_time b = current_feed_publication_time b + feed_lifetime_sec (bit_options b)"

definition feed_is_expired_before_hardfork_615 :: "asset_bitasset_data_object \<Rightarrow> time_point_sec \<Rightarrow> bool" where
  "feed_is_expired_before_hardfork_615 b now \<longleftrightarrow> feed_expiration_time b \<ge> now"

definition feed_is_expired :: "asset_bitasset_data_object \<Rightarrow> time_point_sec \<Rightarrow> bool" where
  "feed_is_expired b now \<longleftrightarrow> feed_expiration_time b \<le> now"

text \<open>Plain signed 64-bit addition.\<close>

definition int64_add :: "int \<Rightarrow> int \<Rightarrow> int" where
  "int64_add a b = (a + b + 2 ^ 63) mod 2 ^ 64 - 2 ^ 63"

definition max_force_settlement_volume ::
  "fc_lib \<Rightarrow> asset_bitasset_data_object \<Rightarrow> share_type \<Rightarrow> share_type result" where
  "max_force_settlement_volume F b supply =
     (let m = uint (maximum_force_settlement_volume (bit_options b)) in
      if m = 0 then Inr 0
      else if m = GRAPHENE_100_PERCENT then safe_add F supply (force_settled_volume b)
      else to_share F (u128_muldiv (int64_add supply (force_settled_volume b)) m GRAPHENE_100_PERCENT))"

text \<open>
  The median of the feeds. \<^verbatim>\<open>std::nth_element\<close> puts at the middle position the element that
  sorting by the field would put there; among elements that compare equal the standard does
  not say which, and the model sorts stably. An empty selection (excluded by
  \<^verbatim>\<open>bitasset_options::validate\<close>, which requires a positive number of feeds) is an error here.
\<close>

fun insert_by :: "('a \<Rightarrow> 'a \<Rightarrow> bool) \<Rightarrow> 'a \<Rightarrow> 'a list \<Rightarrow> 'a list" where
  "insert_by lt x [] = [x]"
| "insert_by lt x (y # ys) = (if lt y x then y # insert_by lt x ys else x # y # ys)"

definition sort_by :: "('a \<Rightarrow> 'a \<Rightarrow> bool) \<Rightarrow> 'a list \<Rightarrow> 'a list" where
  "sort_by lt xs = foldr (insert_by lt) xs []"

definition nth_element :: "('a \<Rightarrow> 'a \<Rightarrow> bool) \<Rightarrow> nat \<Rightarrow> 'a list \<Rightarrow> 'a result" where
  "nth_element lt n xs =
     (if n < length xs then Inr (sort_by lt xs ! n) else Inl (Chain_Exception ''past the end''))"

definition null_feed :: price_feed where
  "null_feed = \<lparr> settlement_price = null_price, core_exchange_rate = null_price,
     maintenance_collateral_ratio = 1750, maximum_short_squeeze_ratio = 1500 \<rparr>"

definition median_feed :: "price_feed list \<Rightarrow> price_feed result" where
  "median_feed fs =
     (let m = length fs div 2 in
      bind (nth_element (\<lambda>a b. price_lt (settlement_price a) (settlement_price b)) m fs) (\<lambda>sp.
      bind (nth_element (\<lambda>a b. maintenance_collateral_ratio a < maintenance_collateral_ratio b) m fs) (\<lambda>mcr.
      bind (nth_element (\<lambda>a b. maximum_short_squeeze_ratio a < maximum_short_squeeze_ratio b) m fs) (\<lambda>mssr.
      bind (nth_element (\<lambda>a b. price_lt (core_exchange_rate a) (core_exchange_rate b)) m fs) (\<lambda>cer.
      Inr \<lparr> settlement_price = settlement_price sp, core_exchange_rate = core_exchange_rate cer,
        maintenance_collateral_ratio = maintenance_collateral_ratio mcr,
        maximum_short_squeeze_ratio = maximum_short_squeeze_ratio mssr \<rparr>)))))"

definition live_feeds :: "asset_bitasset_data_object \<Rightarrow> time_point_sec \<Rightarrow> (time_point_sec \<times> price_feed) list" where
  "live_feeds b now =
     filter (\<lambda>(t, f). uint now - uint t < uint (feed_lifetime_sec (bit_options b)) \<and> t \<noteq> 0) (map snd (feeds b))"

definition update_median_feeds ::
  "time_point_sec \<Rightarrow> asset_bitasset_data_object \<Rightarrow> asset_bitasset_data_object result" where
  "update_median_feeds now b =
     (let live = live_feeds b now; fs = map snd live;
          b' = b\<lparr>current_feed_publication_time := foldl min now (map fst live)\<rparr> in
      if length fs < unat (minimum_feeds (bit_options b)) then
        Inr (b\<lparr>current_feed_publication_time := now, current_feed := null_feed\<rparr>)
      else if length fs = 1 then Inr (b'\<lparr>current_feed := hd fs\<rparr>)
      else bind (median_feed fs) (\<lambda>m. Inr (b'\<lparr>current_feed := m\<rparr>)))"

section \<open>Orders\<close>

record limit_order_object =
  lo_expiration :: time_point_sec
  seller :: nat
  for_sale :: share_type
  sell_price :: price
  deferred_fee :: share_type

record call_order_object =
  borrower :: nat
  collateral :: share_type
  debt :: share_type
  co_call_price :: price

record force_settlement_object =
  fs_owner :: nat
  fs_balance :: asset
  settlement_date :: time_point_sec

definition amount_for_sale :: "limit_order_object \<Rightarrow> asset" where
  "amount_for_sale o1 = mk_asset (for_sale o1) (asset_id (base (sell_price o1)))"

definition amount_to_receive :: "limit_order_object \<Rightarrow> asset result" where
  "amount_to_receive o1 = asset_mul (amount_for_sale o1) (sell_price o1)"

definition debt_type :: "call_order_object \<Rightarrow> nat" where
  "debt_type c = asset_id (quote (co_call_price c))"

definition get_collateral :: "call_order_object \<Rightarrow> asset" where
  "get_collateral c = mk_asset (collateral c) (asset_id (base (co_call_price c)))"

definition get_debt :: "call_order_object \<Rightarrow> asset" where
  "get_debt c = mk_asset (debt c) (debt_type c)"

definition collateralization :: "call_order_object \<Rightarrow> price result" where
  "collateralization c = asset_div (get_collateral c) (get_debt c)"

section \<open>Locked balances, withdraw permissions, witnesses\<close>

datatype lock_type = Lock_Genesis | Lock_User_Set

record locked_balance_object =
  initial_lock_balance :: share_type
  locked_balance :: share_type
  lock_time :: u32
  lock_period :: u32
  lb_lock_type :: lock_type
  lb_asset_id :: nat
  finish :: bool

record withdraw_permission_object =
  withdraw_from_account :: nat
  authorized_account :: nat
  withdrawal_limit :: asset
  withdrawal_period_sec :: u32
  period_start_time :: time_point_sec
  wp_expiration :: time_point_sec
  claimed_this_period :: share_type

definition available_this_period ::
  "fc_lib \<Rightarrow> withdraw_permission_object \<Rightarrow> time_point_sec \<Rightarrow> asset result" where
  "available_this_period F p now =
     (if now \<ge> period_start_time p + withdrawal_period_sec p then Inr (withdrawal_limit p)
      else if amount (withdrawal_limit p) > claimed_this_period p then
        bind (safe_sub F (amount (withdrawal_limit p)) (claimed_this_period p)) (\<lambda>x.
        Inr (mk_asset x (asset_id (withdrawal_limit p))))
      else Inr (mk_asset 0 (asset_id (withdrawal_limit p))))"

record witness_object =
  witness_account :: nat
  signing_key :: public_key
  last_aslot :: u64
  pay_vb :: "nat option"
  wit_vote_id :: vote_id
  wit_total_votes :: u64
  wit_url :: string
  total_missed :: int
  last_confirmed_block_num :: u32

record committee_member_object =
  committee_member_account :: nat
  cm_vote_id :: vote_id
  cm_total_votes :: u64
  cm_url :: string

datatype worker_type = Refund_Worker share_type | Vesting_Balance_Worker nat | Burn_Worker share_type

record worker_object =
  worker_account :: nat
  work_begin_date :: time_point_sec
  work_end_date :: time_point_sec
  daily_pay :: share_type
  worker :: worker_type
  wk_name :: string
  wk_url :: string
  vote_for :: vote_id
  vote_against :: vote_id
  total_votes_for :: u64
  total_votes_against :: u64

text \<open>The balances of the genesis state that have not been claimed, and the accumulators of fee backed assets.\<close>

record balance_object =
  gb_owner :: address
  gb_balance :: asset
  gb_vesting_policy :: "linear_vesting_policy option"
  last_claim_date :: time_point_sec

record fba_accumulator_object =
  accumulated_fba_fees :: share_type
  designated_asset :: "nat option"

record budget_record =
  time_since_last_budget :: u64
  from_initial_reserve :: share_type
  from_accumulated_fees :: share_type
  from_unused_witness_budget :: share_type
  requested_witness_budget :: share_type
  total_budget :: share_type
  rec_witness_budget :: share_type
  worker_budget :: share_type
  leftover_worker_funds :: share_type
  supply_delta :: share_type

section \<open>Global properties and the database\<close>

record chain_parameters =
  block_interval :: u8
  maintenance_interval :: u32
  maintenance_skip_slots :: u8
  committee_proposal_review_period :: u32
  maximum_transaction_size :: u32
  maximum_block_size :: u32
  maximum_time_until_expiration :: u32
  maximum_proposal_lifetime :: u32
  maximum_asset_whitelist_authorities :: u8
  maximum_asset_feed_publishers :: u8
  maximum_witness_count :: u16
  maximum_committee_count :: u16
  maximum_authority_membership :: u16
  reserve_percent_of_fee :: u16
  network_percent_of_fee :: u16
  lifetime_referrer_percent_of_fee :: u16
  cashback_vesting_period_seconds :: u32
  cashback_vesting_threshold :: share_type
  count_non_member_votes :: bool
  allow_non_member_whitelists :: bool
  witness_pay_per_block :: share_type
  witness_pay_vesting_seconds :: u32
  worker_budget_per_day :: share_type
  accounts_per_fee_scale :: u16
  account_fee_scale_bitshifts :: u8
  max_authority_depth :: u8
  account_create_basic_fee :: u64

record dynamic_global_property_object =
  head_block_number :: u32
  head_block_id :: block_id
  dgp_time :: time_point_sec
  current_witness :: nat
  next_maintenance_time :: time_point_sec
  last_budget_time :: time_point_sec
  witness_budget :: share_type
  accounts_registered_this_interval :: u32
  recently_missed_count :: u32
  current_aslot :: u64
  recent_slots_filled :: u128
  dynamic_flags :: u32
  last_irreversible_block_num :: u32

record database =
  parameters :: chain_parameters
  pending_parameters :: "chain_parameters option"
  next_available_vote_id :: u32
  active_committee_members :: "nat list"
  active_witnesses :: "nat list"
  current_shuffled_witnesses :: "nat list"
  dgp :: dynamic_global_property_object
  accounts :: "account_object index"
  stats :: "account_statistics_object index"
  balances :: "account_balance_object index"
  assets :: "asset_object index"
  asset_dyn :: "asset_dynamic_data_object index"
  asset_lock :: "asset_lock_data_object index"
  bitassets :: "asset_bitasset_data_object index"
  limit_orders :: "limit_order_object index"
  call_orders :: "call_order_object index"
  settlements :: "force_settlement_object index"
  vesting_balances :: "vesting_balance_object index"
  locked_balances :: "locked_balance_object index"
  withdraw_permissions :: "withdraw_permission_object index"
  witnesses :: "witness_object index"
  committee_members :: "committee_member_object index"
  workers :: "worker_object index"
  genesis_balances :: "balance_object index"
  fba_accumulators :: "fba_accumulator_object index"
  special_authorities :: "nat index"
  buybacks :: "nat index"
  budget_records :: "(time_point_sec \<times> budget_record) index"

definition head_block_time :: "database \<Rightarrow> time_point_sec" where
  "head_block_time s = dgp_time (dgp s)"

text \<open>Objects agree on a unique key of their table.\<close>

definition same_name :: "account_object \<Rightarrow> account_object \<Rightarrow> bool" where
  "same_name a b \<longleftrightarrow> acct_name a = acct_name b"

definition same_account_asset :: "account_balance_object \<Rightarrow> account_balance_object \<Rightarrow> bool" where
  "same_account_asset a b \<longleftrightarrow> ab_owner a = ab_owner b \<and> asset_type a = asset_type b"

definition same_symbol :: "asset_object \<Rightarrow> asset_object \<Rightarrow> bool" where
  "same_symbol a b \<longleftrightarrow> symbol a = symbol b"

definition same_borrower :: "call_order_object \<Rightarrow> call_order_object \<Rightarrow> bool" where
  "same_borrower a b \<longleftrightarrow> borrower a = borrower b \<and> debt_type a = debt_type b"

definition same_witness :: "witness_object \<Rightarrow> witness_object \<Rightarrow> bool" where
  "same_witness a b \<longleftrightarrow> witness_account a = witness_account b \<or> vote_instance (wit_vote_id a) = vote_instance (wit_vote_id b)"

definition same_committee_member :: "committee_member_object \<Rightarrow> committee_member_object \<Rightarrow> bool" where
  "same_committee_member a b \<longleftrightarrow>
     committee_member_account a = committee_member_account b \<or> vote_instance (cm_vote_id a) = vote_instance (cm_vote_id b)"

definition same_worker_votes :: "worker_object \<Rightarrow> worker_object \<Rightarrow> bool" where
  "same_worker_votes a b \<longleftrightarrow>
     vote_instance (vote_for a) = vote_instance (vote_for b) \<or> vote_instance (vote_against a) = vote_instance (vote_against b)"

definition no_clash :: "'o \<Rightarrow> 'o \<Rightarrow> bool" where
  "no_clash a b \<longleftrightarrow> False"

end
