(* ===== verification/Chain_State.thy ===== *)
theory Chain_State
  imports Chain_Objects
begin

text \<open>
  Reading and changing the tables of the database, the balance operations of db_balance.cpp,
  and the ledger: for every asset the sum of all places that hold it, less its recorded supply.

  Code changes a table through \<open>table_modify\<close>, \<open>table_create\<close> and \<open>table_remove\<close>,
  the typed \<^verbatim>\<open>database::modify\<close>, \<^verbatim>\<open>create\<close> and \<^verbatim>\<open>remove\<close>. The locale \<open>db_table\<close> says what a
  table of the database contributes to the ledger and derives, once, how each change moves
  it; it is interpreted on every table. Tables whose rows carry an invariant of their own (an order
  sells a non-negative amount at a positive price and owes no negative fee, a call price has positive parts, an asset without a settlement price has
  no settlement fund and its feeds have a positive collateral ratio) are instances of the more general
  \<open>db_checked_table\<close>.
\<close>

section \<open>Changing tables\<close>

definition table_modify ::
  "('d \<Rightarrow> 'o index) \<Rightarrow> ('o index \<Rightarrow> 'd \<Rightarrow> 'd) \<Rightarrow> ('o \<Rightarrow> 'o \<Rightarrow> bool) \<Rightarrow> nat \<Rightarrow> ('o \<Rightarrow> 'o result) \<Rightarrow> 'd \<Rightarrow> 'd result" where
  "table_modify get put clash i f s = bind (index_modify clash (get s) i f) (\<lambda>t. Inr (put t s))"

definition table_create ::
  "('d \<Rightarrow> 'o index) \<Rightarrow> ('o index \<Rightarrow> 'd \<Rightarrow> 'd) \<Rightarrow> ('o \<Rightarrow> 'o \<Rightarrow> bool) \<Rightarrow> 'o \<Rightarrow> 'd \<Rightarrow> ('d \<times> nat) result" where
  "table_create get put clash x s = bind (index_create clash (get s) x) (\<lambda>(t, k). Inr (put t s, k))"

definition table_remove ::
  "('d \<Rightarrow> 'o index) \<Rightarrow> ('o index \<Rightarrow> 'd \<Rightarrow> 'd) \<Rightarrow> nat \<Rightarrow> 'd \<Rightarrow> 'd result" where
  "table_remove get put i s = bind (index_remove (get s) i) (\<lambda>t. Inr (put t s))"

abbreviation "put_accounts t s \<equiv> s\<lparr>accounts := t\<rparr>"
abbreviation "put_stats t s \<equiv> s\<lparr>stats := t\<rparr>"
abbreviation "put_balances t s \<equiv> s\<lparr>balances := t\<rparr>"
abbreviation "put_assets t s \<equiv> s\<lparr>assets := t\<rparr>"
abbreviation "put_asset_dyn t s \<equiv> s\<lparr>asset_dyn := t\<rparr>"
abbreviation "put_asset_lock t s \<equiv> s\<lparr>asset_lock := t\<rparr>"
abbreviation "put_bitassets t s \<equiv> s\<lparr>bitassets := t\<rparr>"
abbreviation "put_limit_orders t s \<equiv> s\<lparr>limit_orders := t\<rparr>"
abbreviation "put_call_orders t s \<equiv> s\<lparr>call_orders := t\<rparr>"
abbreviation "put_settlements t s \<equiv> s\<lparr>settlements := t\<rparr>"
abbreviation "put_vesting_balances t s \<equiv> s\<lparr>vesting_balances := t\<rparr>"
abbreviation "put_locked_balances t s \<equiv> s\<lparr>locked_balances := t\<rparr>"
abbreviation "put_withdraw_permissions t s \<equiv> s\<lparr>withdraw_permissions := t\<rparr>"
abbreviation "put_witnesses t s \<equiv> s\<lparr>witnesses := t\<rparr>"
abbreviation "put_committee_members t s \<equiv> s\<lparr>committee_members := t\<rparr>"
abbreviation "put_workers t s \<equiv> s\<lparr>workers := t\<rparr>"
abbreviation "put_genesis_balances t s \<equiv> s\<lparr>genesis_balances := t\<rparr>"
abbreviation "put_fba_accumulators t s \<equiv> s\<lparr>fba_accumulators := t\<rparr>"
abbreviation "put_special_authorities t s \<equiv> s\<lparr>special_authorities := t\<rparr>"
abbreviation "put_buybacks t s \<equiv> s\<lparr>buybacks := t\<rparr>"
abbreviation "put_budget_records t s \<equiv> s\<lparr>budget_records := t\<rparr>"

abbreviation "modify_account \<equiv> table_modify accounts put_accounts same_name"
abbreviation "modify_stats \<equiv> table_modify stats put_stats no_clash"
abbreviation "modify_balance \<equiv> table_modify balances put_balances same_account_asset"
abbreviation "modify_asset \<equiv> table_modify assets put_assets same_symbol"
abbreviation "modify_asset_dyn \<equiv> table_modify asset_dyn put_asset_dyn no_clash"
abbreviation "modify_asset_lock \<equiv> table_modify asset_lock put_asset_lock no_clash"
abbreviation "modify_bitasset \<equiv> table_modify bitassets put_bitassets no_clash"
abbreviation "modify_limit_order \<equiv> table_modify limit_orders put_limit_orders no_clash"
abbreviation "modify_call_order \<equiv> table_modify call_orders put_call_orders same_borrower"
abbreviation "modify_settlement \<equiv> table_modify settlements put_settlements no_clash"
abbreviation "modify_vesting_balance \<equiv> table_modify vesting_balances put_vesting_balances no_clash"
abbreviation "modify_locked_balance \<equiv> table_modify locked_balances put_locked_balances no_clash"
abbreviation "modify_withdraw_permission \<equiv> table_modify withdraw_permissions put_withdraw_permissions no_clash"
abbreviation "modify_witness \<equiv> table_modify witnesses put_witnesses same_witness"
abbreviation "modify_committee_member \<equiv> table_modify committee_members put_committee_members same_committee_member"
abbreviation "modify_worker \<equiv> table_modify workers put_workers same_worker_votes"
abbreviation "modify_genesis_balance \<equiv> table_modify genesis_balances put_genesis_balances no_clash"
abbreviation "modify_fba_accumulator \<equiv> table_modify fba_accumulators put_fba_accumulators no_clash"

section \<open>Balances\<close>

definition find_row :: "('o \<Rightarrow> bool) \<Rightarrow> 'o index \<Rightarrow> (nat \<times> 'o) option" where
  "find_row P idx = List.find (\<lambda>(k, x). P x) (rows idx)"

definition balance_row :: "database \<Rightarrow> nat \<Rightarrow> nat \<Rightarrow> (nat \<times> account_balance_object) option" where
  "balance_row s owner a = find_row (\<lambda>b. ab_owner b = owner \<and> asset_type b = a) (balances s)"

definition get_balance :: "database \<Rightarrow> nat \<Rightarrow> nat \<Rightarrow> asset" where
  "get_balance s owner a =
     (case balance_row s owner a of None \<Rightarrow> mk_asset 0 a | Some (k, b) \<Rightarrow> get_balance_of b)"

definition get_locked_balance_ids :: "database \<Rightarrow> nat \<Rightarrow> nat \<Rightarrow> nat set" where
  "get_locked_balance_ids s owner a =
     (case balance_row s owner a of None \<Rightarrow> {} | Some (k, b) \<Rightarrow> lockeds b)"

definition adjust_balance :: "fc_lib \<Rightarrow> nat \<Rightarrow> asset \<Rightarrow> database \<Rightarrow> database result" where
  "adjust_balance F account delta s =
     (if amount delta = 0 then Inr s
      else case balance_row s account (asset_id delta) of
        None \<Rightarrow>
          bind (fc_assert (amount delta > 0) ''Insufficient Balance'') (\<lambda>_.
          bind (table_create balances put_balances same_account_asset
                 \<lparr> ab_owner = account, asset_type = asset_id delta, balance = amount delta, lockeds = {} \<rparr> s) (\<lambda>(s', k).
          Inr s'))
      | Some (k, b) \<Rightarrow>
          bind (if amount delta < 0 then
                  bind (asset_neg F delta) (\<lambda>need.
                  bind (asset_ge (get_balance_of b) need) (\<lambda>ok. fc_assert ok ''Insufficient Balance''))
                else Inr ()) (\<lambda>_.
          modify_balance k (adjust_balance_object F delta) s))"

section \<open>The ledger\<close>

definition core_in :: "nat \<Rightarrow> int \<Rightarrow> int" where "core_in a x = (if a = 0 then x else 0)"
definition asset_in :: "nat \<Rightarrow> asset \<Rightarrow> int" where "asset_in a x = (if asset_id x = a then amount x else 0)"
definition balance_in :: "nat \<Rightarrow> account_balance_object \<Rightarrow> int" where
  "balance_in a b = (if asset_type b = a then balance b else 0)"
definition pending_in :: "nat \<Rightarrow> account_statistics_object \<Rightarrow> int" where
  "pending_in a t = core_in a (pending_fees t + pending_vested_fees t)"
definition order_in :: "nat \<Rightarrow> limit_order_object \<Rightarrow> int" where
  "order_in a x = asset_in a (amount_for_sale x) + core_in a (deferred_fee x)"
definition call_in :: "nat \<Rightarrow> call_order_object \<Rightarrow> int" where
  "call_in a c = asset_in a (get_collateral c)"
definition settlement_in :: "nat \<Rightarrow> force_settlement_object \<Rightarrow> int" where
  "settlement_in a f = asset_in a (fs_balance f)"
definition vesting_in :: "nat \<Rightarrow> vesting_balance_object \<Rightarrow> int" where
  "vesting_in a v = asset_in a (vb_balance v)"
definition locked_in :: "nat \<Rightarrow> locked_balance_object \<Rightarrow> int" where
  "locked_in a l = (if lb_asset_id l = a \<and> \<not> finish l then locked_balance l else 0)"
definition pool_in :: "nat \<Rightarrow> asset_lock_data_object \<Rightarrow> int" where
  "pool_in a d = (if lock_asset_id d = a then interest_pool d else 0)"
definition genesis_in :: "nat \<Rightarrow> balance_object \<Rightarrow> int" where
  "genesis_in a b = asset_in a (gb_balance b)"
definition fba_in :: "nat \<Rightarrow> fba_accumulator_object \<Rightarrow> int" where
  "fba_in a f = core_in a (accumulated_fba_fees f)"
definition fund_in :: "nat \<Rightarrow> asset_bitasset_data_object \<Rightarrow> int" where
  "fund_in a b = (if short_backing_asset (bit_options b) = a then settlement_fund b else 0)"
definition fee_pool_in :: "nat \<Rightarrow> asset_dynamic_data_object \<Rightarrow> int" where
  "fee_pool_in a d = core_in a (fee_pool d)"

definition dyn_id :: "database \<Rightarrow> nat \<Rightarrow> nat option" where
  "dyn_id s a = map_option dynamic_asset_data_id (index_find (assets s) a)"

definition lock_id :: "database \<Rightarrow> nat \<Rightarrow> nat option" where
  "lock_id s a = Option.bind (index_find (assets s) a) lock_data_id"

definition lock_asset :: "database \<Rightarrow> nat \<Rightarrow> nat option" where
  "lock_asset s l = map_option lock_asset_id (index_find (asset_lock s) l)"

definition dyn_of :: "database \<Rightarrow> nat \<Rightarrow> asset_dynamic_data_object option" where
  "dyn_of s a = Option.bind (dyn_id s a) (index_find (asset_dyn s))"

definition net :: "asset_dynamic_data_object \<Rightarrow> int" where
  "net d = accumulated_fees d + confidential_supply d - current_supply d"

definition net_of :: "database \<Rightarrow> nat \<Rightarrow> int" where
  "net_of s a = (case dyn_of s a of None \<Rightarrow> 0 | Some d \<Rightarrow> net d)"

definition ledger :: "nat \<Rightarrow> database \<Rightarrow> int" where
  "ledger a s =
     total (balance_in a) (balances s) + total (pending_in a) (stats s) + total (order_in a) (limit_orders s) +
     total (call_in a) (call_orders s) + total (settlement_in a) (settlements s) +
     total (vesting_in a) (vesting_balances s) + total (locked_in a) (locked_balances s) +
     total (pool_in a) (asset_lock s) + total (fund_in a) (bitassets s) + total (fee_pool_in a) (asset_dyn s) +
     total (genesis_in a) (genesis_balances s) + total (fba_in a) (fba_accumulators s) +
     core_in a (witness_budget (dgp s)) + net_of s a"

text \<open>
  The tables are well formed, every asset has its own dynamic data, the dynamic data of
  the core asset is object 0, which the fee code addresses directly, the lock data of an asset names the asset, and the rows of orders and
  market-issued assets satisfy their own invariant.
\<close>

definition rows_ok :: "('o \<Rightarrow> bool) \<Rightarrow> 'o index \<Rightarrow> bool" where
  "rows_ok ok t \<longleftrightarrow> (\<forall>k x. index_find t k = Some x \<longrightarrow> ok x)"

definition order_ok :: "limit_order_object \<Rightarrow> bool" where
  "order_ok x \<longleftrightarrow> 0 \<le> deferred_fee x \<and> 0 \<le> for_sale x \<and> for_sale x < 2 ^ 63 \<and> price_ok (sell_price x)"

definition call_ok :: "call_order_object \<Rightarrow> bool" where
  "call_ok c \<longleftrightarrow> price_ok (co_call_price c)"

definition asset_ok :: "asset_object \<Rightarrow> bool" where
  "asset_ok a \<longleftrightarrow> 0 \<le> max_market_fee (options a) \<and> uint (market_fee_percent (options a)) \<le> GRAPHENE_100_PERCENT"

definition bitasset_ok :: "asset_bitasset_data_object \<Rightarrow> bool" where
  "bitasset_ok b \<longleftrightarrow> (has_settlement b \<or> settlement_fund b = 0) \<and> 0 < maintenance_collateral_ratio (current_feed b) \<and>
     (\<forall>(k, t, f) \<in> set (feeds b). 0 < maintenance_collateral_ratio f)"

definition chain_inv :: "database \<Rightarrow> bool" where
  "chain_inv s \<longleftrightarrow>
     index_inv (accounts s) \<and> index_inv (stats s) \<and> index_inv (balances s) \<and> index_inv (assets s) \<and>
     index_inv (asset_dyn s) \<and> index_inv (asset_lock s) \<and> index_inv (bitassets s) \<and> index_inv (limit_orders s) \<and>
     index_inv (call_orders s) \<and> index_inv (settlements s) \<and> index_inv (vesting_balances s) \<and>
     index_inv (locked_balances s) \<and> index_inv (withdraw_permissions s) \<and> index_inv (witnesses s) \<and>
     index_inv (committee_members s) \<and> index_inv (workers s) \<and> index_inv (genesis_balances s) \<and>
     index_inv (fba_accumulators s) \<and> index_inv (special_authorities s) \<and> index_inv (buybacks s) \<and> index_inv (budget_records s) \<and>
     dyn_id s 0 = Some 0 \<and>
     (\<forall>a i. dyn_id s a = Some i \<longrightarrow> index_find (asset_dyn s) i \<noteq> None) \<and>
     (\<forall>a b i. dyn_id s a = Some i \<and> dyn_id s b = Some i \<longrightarrow> a = b) \<and>
     (\<forall>a l. lock_id s a = Some l \<longrightarrow> lock_asset s l = Some a) \<and>
     rows_ok order_ok (limit_orders s) \<and> rows_ok bitasset_ok (bitassets s) \<and> rows_ok call_ok (call_orders s) \<and>
     rows_ok asset_ok (assets s)"

section \<open>How a change moves the ledger\<close>

locale db_checked_table =
  fixes get :: "database \<Rightarrow> 'o index"
    and put :: "'o index \<Rightarrow> database \<Rightarrow> database"
    and clash :: "'o \<Rightarrow> 'o \<Rightarrow> bool"
    and q :: "nat \<Rightarrow> 'o \<Rightarrow> int"
    and ok :: "'o \<Rightarrow> bool"
  assumes get_put: "get (put t s) = t"
    and inv_get: "chain_inv s \<Longrightarrow> index_inv (get s) \<and> rows_ok ok (get s)"
    and inv_put: "chain_inv s \<Longrightarrow> index_inv t \<Longrightarrow> rows_ok ok t \<Longrightarrow> chain_inv (put t s)"
    and ledger_put: "ledger a (put t s) = ledger a s - total (q a) (get s) + total (q a) t"
begin

lemma modify_checked:
  assumes "chain_inv s" "table_modify get put clash i f s = Inr s'"
    and keep: "\<And>x x'. index_find (get s) i = Some x \<Longrightarrow> ok x \<Longrightarrow> f x = Inr x' \<Longrightarrow> ok x'"
  shows "\<exists>x x' t. index_find (get s) i = Some x \<and> f x = Inr x' \<and> s' = put t s \<and>
    index_find t = (index_find (get s))(i \<mapsto> x') \<and> chain_inv s' \<and> (\<forall>a. ledger a s' = ledger a s - q a x + q a x')"
proof -
  have inv: "index_inv (get s)" "rows_ok ok (get s)" using inv_get [OF assms(1)] by simp_all
  obtain t where t: "index_modify clash (get s) i f = Inr t" "s' = put t s"
    using assms(2) by (auto simp: table_modify_def ok_simps)
  obtain x x' where x: "index_find (get s) i = Some x" "f x = Inr x'" "index_find t = (index_find (get s))(i \<mapsto> x')"
    "\<And>q. total q t = total q (get s) - q x + q x'"
    using tbl.change_find [OF inv(1) t(1)] by blast
  moreover have "index_inv t" using tbl.change_inv [OF inv(1) t(1)] .
  moreover have "rows_ok ok t" using inv(2) x keep [OF x(1) _ x(2)] by (auto simp: rows_ok_def)
  ultimately show ?thesis using t(2) assms(1) inv_put by (auto simp: ledger_put)
qed

lemma create_checked:
  assumes "chain_inv s" "table_create get put clash x s = Inr (s', k)" "ok x"
  shows "\<exists>t. s' = put t s \<and> index_find (get s) k = None \<and> index_find t = (index_find (get s))(k \<mapsto> x) \<and> chain_inv s' \<and>
    (\<forall>a. ledger a s' = ledger a s + q a x)"
proof -
  have inv: "index_inv (get s)" "rows_ok ok (get s)" using inv_get [OF assms(1)] by simp_all
  obtain t where t: "index_create clash (get s) x = Inr (t, k)" "s' = put t s"
    using assms(2) by (auto simp: table_create_def ok_simps)
  note law = tbl.make_inv [OF inv(1) t(1)] tbl.make_fresh [OF inv(1) t(1)] tbl.make_find [OF inv(1) t(1)]
    tbl.make_sum [OF inv(1) t(1)]
  have "rows_ok ok t" using inv(2) law(3) assms(3) by (auto simp: rows_ok_def)
  then show ?thesis using law t(2) assms(1) inv_put by (auto simp: ledger_put)
qed

lemma remove_step:
  assumes "chain_inv s" "table_remove get put i s = Inr s'"
  shows "\<exists>x t. index_find (get s) i = Some x \<and> s' = put t s \<and> index_find t = (index_find (get s))(i := None) \<and>
    chain_inv s' \<and> (\<forall>a. ledger a s' = ledger a s - q a x)"
proof -
  have inv: "index_inv (get s)" "rows_ok ok (get s)" using inv_get [OF assms(1)] by simp_all
  obtain t where t: "index_remove (get s) i = Inr t" "s' = put t s"
    using assms(2) by (auto simp: table_remove_def ok_simps)
  obtain x where x: "index_find (get s) i = Some x" "index_find t = (index_find (get s))(i := None)"
    "\<And>q. total q t = total q (get s) - q x"
    using tbl.drop_find [OF inv(1) t(1)] by blast
  moreover have "index_inv t" using tbl.drop_inv [OF inv(1) t(1)] .
  moreover have "rows_ok ok t" using inv(2) x(2) by (auto simp: rows_ok_def)
  ultimately show ?thesis using t(2) assms(1) inv_put by (auto simp: ledger_put)
qed

end

locale db_table = db_checked_table get put clash q "\<lambda>x. True" for get put clash q
begin

lemma modify_step:
  assumes "chain_inv s" "table_modify get put clash i f s = Inr s'"
  shows "\<exists>x x' t. index_find (get s) i = Some x \<and> f x = Inr x' \<and> s' = put t s \<and>
    index_find t = (index_find (get s))(i \<mapsto> x') \<and> chain_inv s' \<and> (\<forall>a. ledger a s' = ledger a s - q a x + q a x')"
  using modify_checked [OF assms] by blast

lemma create_step:
  assumes "chain_inv s" "table_create get put clash x s = Inr (s', k)"
  shows "\<exists>t. s' = put t s \<and> index_find (get s) k = None \<and> index_find t = (index_find (get s))(k \<mapsto> x) \<and> chain_inv s' \<and>
    (\<forall>a. ledger a s' = ledger a s + q a x)"
  using create_checked [OF assms] by blast

end

lemma dyn_id_frame [simp]:
  "dyn_id (put_accounts t1 s) = dyn_id s" "dyn_id (put_stats t2 s) = dyn_id s"
  "dyn_id (put_balances t3 s) = dyn_id s" "dyn_id (put_asset_dyn t4 s) = dyn_id s"
  "dyn_id (put_asset_lock t5 s) = dyn_id s" "dyn_id (put_bitassets t6 s) = dyn_id s"
  "dyn_id (put_limit_orders t7 s) = dyn_id s" "dyn_id (put_call_orders t8 s) = dyn_id s"
  "dyn_id (put_settlements t9 s) = dyn_id s" "dyn_id (put_vesting_balances t10 s) = dyn_id s"
  "dyn_id (put_locked_balances t11 s) = dyn_id s" "dyn_id (put_withdraw_permissions t12 s) = dyn_id s"
  "dyn_id (put_witnesses t13 s) = dyn_id s" "dyn_id (s\<lparr>dgp := g\<rparr>) = dyn_id s"
  "dyn_id (put_committee_members u0 s) = dyn_id s" "dyn_id (put_workers u1 s) = dyn_id s"
  "dyn_id (put_genesis_balances u2 s) = dyn_id s" "dyn_id (put_fba_accumulators u3 s) = dyn_id s"
  "dyn_id (put_special_authorities u4 s) = dyn_id s" "dyn_id (put_buybacks u5 s) = dyn_id s"
  "dyn_id (put_budget_records u6 s) = dyn_id s" "dyn_id (s\<lparr>parameters := v0\<rparr>) = dyn_id s"
  "dyn_id (s\<lparr>pending_parameters := v1\<rparr>) = dyn_id s" "dyn_id (s\<lparr>next_available_vote_id := v2\<rparr>) = dyn_id s"
  "dyn_id (s\<lparr>active_committee_members := v3\<rparr>) = dyn_id s" "dyn_id (s\<lparr>active_witnesses := v4\<rparr>) = dyn_id s"
  "dyn_id (s\<lparr>current_shuffled_witnesses := v5\<rparr>) = dyn_id s"
  by (simp_all add: dyn_id_def fun_eq_iff)

lemma lock_id_frame [simp]:
  "lock_id (put_accounts t1 s) = lock_id s" "lock_id (put_stats t2 s) = lock_id s"
  "lock_id (put_balances t3 s) = lock_id s" "lock_id (put_asset_dyn t4 s) = lock_id s"
  "lock_id (put_asset_lock t5 s) = lock_id s" "lock_id (put_bitassets t6 s) = lock_id s"
  "lock_id (put_limit_orders t7 s) = lock_id s" "lock_id (put_call_orders t8 s) = lock_id s"
  "lock_id (put_settlements t9 s) = lock_id s" "lock_id (put_vesting_balances t10 s) = lock_id s"
  "lock_id (put_locked_balances t11 s) = lock_id s" "lock_id (put_withdraw_permissions t12 s) = lock_id s"
  "lock_id (put_witnesses t13 s) = lock_id s" "lock_id (s\<lparr>dgp := g\<rparr>) = lock_id s"
  "lock_id (put_committee_members u0 s) = lock_id s" "lock_id (put_workers u1 s) = lock_id s"
  "lock_id (put_genesis_balances u2 s) = lock_id s" "lock_id (put_fba_accumulators u3 s) = lock_id s"
  "lock_id (put_special_authorities u4 s) = lock_id s" "lock_id (put_buybacks u5 s) = lock_id s"
  "lock_id (put_budget_records u6 s) = lock_id s" "lock_id (s\<lparr>parameters := v0\<rparr>) = lock_id s"
  "lock_id (s\<lparr>pending_parameters := v1\<rparr>) = lock_id s" "lock_id (s\<lparr>next_available_vote_id := v2\<rparr>) = lock_id s"
  "lock_id (s\<lparr>active_committee_members := v3\<rparr>) = lock_id s" "lock_id (s\<lparr>active_witnesses := v4\<rparr>) = lock_id s"
  "lock_id (s\<lparr>current_shuffled_witnesses := v5\<rparr>) = lock_id s"
  by (simp_all add: lock_id_def fun_eq_iff)

lemma lock_asset_frame [simp]:
  "lock_asset (put_accounts t1 s) = lock_asset s" "lock_asset (put_stats t2 s) = lock_asset s"
  "lock_asset (put_balances t3 s) = lock_asset s" "lock_asset (put_asset_dyn t4 s) = lock_asset s"
  "lock_asset (put_assets t5 s) = lock_asset s" "lock_asset (put_bitassets t6 s) = lock_asset s"
  "lock_asset (put_limit_orders t7 s) = lock_asset s" "lock_asset (put_call_orders t8 s) = lock_asset s"
  "lock_asset (put_settlements t9 s) = lock_asset s" "lock_asset (put_vesting_balances t10 s) = lock_asset s"
  "lock_asset (put_locked_balances t11 s) = lock_asset s" "lock_asset (put_withdraw_permissions t12 s) = lock_asset s"
  "lock_asset (put_witnesses t13 s) = lock_asset s" "lock_asset (s\<lparr>dgp := g\<rparr>) = lock_asset s"
  "lock_asset (put_committee_members u0 s) = lock_asset s" "lock_asset (put_workers u1 s) = lock_asset s"
  "lock_asset (put_genesis_balances u2 s) = lock_asset s" "lock_asset (put_fba_accumulators u3 s) = lock_asset s"
  "lock_asset (put_special_authorities u4 s) = lock_asset s" "lock_asset (put_buybacks u5 s) = lock_asset s"
  "lock_asset (put_budget_records u6 s) = lock_asset s" "lock_asset (s\<lparr>parameters := v0\<rparr>) = lock_asset s"
  "lock_asset (s\<lparr>pending_parameters := v1\<rparr>) = lock_asset s" "lock_asset (s\<lparr>next_available_vote_id := v2\<rparr>) = lock_asset s"
  "lock_asset (s\<lparr>active_committee_members := v3\<rparr>) = lock_asset s" "lock_asset (s\<lparr>active_witnesses := v4\<rparr>) = lock_asset s"
  "lock_asset (s\<lparr>current_shuffled_witnesses := v5\<rparr>) = lock_asset s"
  by (simp_all add: lock_asset_def fun_eq_iff)

lemma net_of_frame [simp]:
  "net_of (put_accounts t1 s) = net_of s" "net_of (put_stats t2 s) = net_of s"
  "net_of (put_balances t3 s) = net_of s"
  "net_of (put_asset_lock t5 s) = net_of s" "net_of (put_bitassets t6 s) = net_of s"
  "net_of (put_limit_orders t7 s) = net_of s" "net_of (put_call_orders t8 s) = net_of s"
  "net_of (put_settlements t9 s) = net_of s" "net_of (put_vesting_balances t10 s) = net_of s"
  "net_of (put_locked_balances t11 s) = net_of s" "net_of (put_withdraw_permissions t12 s) = net_of s"
  "net_of (put_witnesses t13 s) = net_of s" "net_of (s\<lparr>dgp := g\<rparr>) = net_of s"
  "net_of (put_committee_members u0 s) = net_of s" "net_of (put_workers u1 s) = net_of s"
  "net_of (put_genesis_balances u2 s) = net_of s" "net_of (put_fba_accumulators u3 s) = net_of s"
  "net_of (put_special_authorities u4 s) = net_of s" "net_of (put_buybacks u5 s) = net_of s"
  "net_of (put_budget_records u6 s) = net_of s" "net_of (s\<lparr>parameters := v0\<rparr>) = net_of s"
  "net_of (s\<lparr>pending_parameters := v1\<rparr>) = net_of s" "net_of (s\<lparr>next_available_vote_id := v2\<rparr>) = net_of s"
  "net_of (s\<lparr>active_committee_members := v3\<rparr>) = net_of s" "net_of (s\<lparr>active_witnesses := v4\<rparr>) = net_of s"
  "net_of (s\<lparr>current_shuffled_witnesses := v5\<rparr>) = net_of s"
  by (simp_all add: net_of_def dyn_of_def fun_eq_iff)

lemma total_zero [simp]: "total (\<lambda>x. 0) t = 0"
  by (simp add: total_def case_prod_unfold)

text \<open>The global properties other than the witness budget are outside the invariant and the ledger.\<close>

lemma chain_inv_globals [simp]:
  "chain_inv (s\<lparr>dgp := g\<rparr>) = chain_inv s"
  "chain_inv (s\<lparr>parameters := v0\<rparr>) = chain_inv s"
  "chain_inv (s\<lparr>pending_parameters := v1\<rparr>) = chain_inv s"
  "chain_inv (s\<lparr>next_available_vote_id := v2\<rparr>) = chain_inv s"
  "chain_inv (s\<lparr>active_committee_members := v3\<rparr>) = chain_inv s"
  "chain_inv (s\<lparr>active_witnesses := v4\<rparr>) = chain_inv s"
  "chain_inv (s\<lparr>current_shuffled_witnesses := v5\<rparr>) = chain_inv s"
  by (simp_all add: chain_inv_def)

lemma ledger_globals [simp]:
  "ledger a (s\<lparr>parameters := v0\<rparr>) = ledger a s"
  "ledger a (s\<lparr>pending_parameters := v1\<rparr>) = ledger a s"
  "ledger a (s\<lparr>next_available_vote_id := v2\<rparr>) = ledger a s"
  "ledger a (s\<lparr>active_committee_members := v3\<rparr>) = ledger a s"
  "ledger a (s\<lparr>active_witnesses := v4\<rparr>) = ledger a s"
  "ledger a (s\<lparr>current_shuffled_witnesses := v5\<rparr>) = ledger a s"
  by (simp_all add: ledger_def)

lemma ledger_dgp: "ledger a (s\<lparr>dgp := g\<rparr>) = ledger a s + core_in a (witness_budget g) - core_in a (witness_budget (dgp s))"
  by (simp add: ledger_def)

interpretation acc_tab: db_table accounts put_accounts same_name "\<lambda>a x. 0"
  by unfold_locales (auto simp: chain_inv_def ledger_def rows_ok_def)

interpretation stat_tab: db_table stats put_stats no_clash pending_in
  by unfold_locales (auto simp: chain_inv_def ledger_def rows_ok_def)

interpretation bal_tab: db_table balances put_balances same_account_asset balance_in
  by unfold_locales (auto simp: chain_inv_def ledger_def rows_ok_def)

interpretation bit_tab: db_checked_table bitassets put_bitassets no_clash fund_in bitasset_ok
  by unfold_locales (auto simp: chain_inv_def ledger_def rows_ok_def)

interpretation limit_tab: db_checked_table limit_orders put_limit_orders no_clash order_in order_ok
  by unfold_locales (auto simp: chain_inv_def ledger_def rows_ok_def)

interpretation call_tab: db_checked_table call_orders put_call_orders same_borrower call_in call_ok
  by unfold_locales (auto simp: chain_inv_def ledger_def rows_ok_def)

interpretation settle_tab: db_table settlements put_settlements no_clash settlement_in
  by unfold_locales (auto simp: chain_inv_def ledger_def rows_ok_def)

interpretation vest_tab: db_table vesting_balances put_vesting_balances no_clash vesting_in
  by unfold_locales (auto simp: chain_inv_def ledger_def rows_ok_def)

interpretation locked_tab: db_table locked_balances put_locked_balances no_clash locked_in
  by unfold_locales (auto simp: chain_inv_def ledger_def rows_ok_def)

interpretation permit_tab: db_table withdraw_permissions put_withdraw_permissions no_clash "\<lambda>a x. 0"
  by unfold_locales (auto simp: chain_inv_def ledger_def rows_ok_def)

interpretation witness_tab: db_table witnesses put_witnesses same_witness "\<lambda>a x. 0"
  by unfold_locales (auto simp: chain_inv_def ledger_def rows_ok_def)

interpretation committee_tab: db_table committee_members put_committee_members same_committee_member "\<lambda>a x. 0"
  by unfold_locales (auto simp: chain_inv_def ledger_def rows_ok_def)

interpretation worker_tab: db_table workers put_workers same_worker_votes "\<lambda>a x. 0"
  by unfold_locales (auto simp: chain_inv_def ledger_def rows_ok_def)

interpretation genesis_tab: db_table genesis_balances put_genesis_balances no_clash genesis_in
  by unfold_locales (auto simp: chain_inv_def ledger_def rows_ok_def)

interpretation fba_tab: db_table fba_accumulators put_fba_accumulators no_clash fba_in
  by unfold_locales (auto simp: chain_inv_def ledger_def rows_ok_def)

interpretation special_tab: db_table special_authorities put_special_authorities "(=)" "\<lambda>a x. 0"
  by unfold_locales (auto simp: chain_inv_def ledger_def rows_ok_def)

interpretation buyback_tab: db_table buybacks put_buybacks "(=)" "\<lambda>a x. 0"
  by unfold_locales (auto simp: chain_inv_def ledger_def rows_ok_def)

interpretation budget_tab: db_table budget_records put_budget_records no_clash "\<lambda>a x. 0"
  by unfold_locales (auto simp: chain_inv_def ledger_def rows_ok_def)

text \<open>The dynamic data of an asset also holds its supply and the fees it has accumulated.\<close>

lemma modify_asset_dyn_step:
  assumes "chain_inv s" "modify_asset_dyn i f s = Inr s'"
  shows "\<exists>x x' t. index_find (asset_dyn s) i = Some x \<and> f x = Inr x' \<and> s' = put_asset_dyn t s \<and>
    index_find t = (index_find (asset_dyn s))(i \<mapsto> x') \<and> chain_inv s' \<and>
    (\<forall>a. ledger a s' = ledger a s - fee_pool_in a x + fee_pool_in a x' +
       (if dyn_id s a = Some i then net x' - net x else 0))"
proof -
  have inv: "index_inv (asset_dyn s)" using assms(1) by (simp add: chain_inv_def)
  obtain t where t: "index_modify no_clash (asset_dyn s) i f = Inr t" "s' = put_asset_dyn t s"
    using assms(2) by (auto simp: table_modify_def ok_simps)
  obtain x x' where x: "index_find (asset_dyn s) i = Some x" "f x = Inr x'"
    "index_find t = (index_find (asset_dyn s))(i \<mapsto> x')" "\<And>q. total q t = total q (asset_dyn s) - q x + q x'"
    using tbl.change_find [OF inv t(1)] by blast
  have "index_inv t" using tbl.change_inv [OF inv t(1)] .
  then have "chain_inv s'" using assms(1) t(2) x(3) by (auto simp: chain_inv_def)
  moreover have "net_of s' a = net_of s a + (if dyn_id s a = Some i then net x' - net x else 0)" for a
    using x(1,3) t(2) by (auto simp: net_of_def dyn_of_def split: bind_splits option.splits)
  then have "ledger a s' = ledger a s - fee_pool_in a x + fee_pool_in a x' +
      (if dyn_id s a = Some i then net x' - net x else 0)" for a
    using t(2) x(4) by (simp add: ledger_def)
  ultimately show ?thesis using x t(2) by auto
qed

text \<open>Lock data keeps the asset it belongs to.\<close>

lemma modify_asset_lock_step:
  assumes "chain_inv s" "modify_asset_lock i f s = Inr s'"
    and keep: "\<And>x x'. f x = Inr x' \<Longrightarrow> lock_asset_id x' = lock_asset_id x"
  shows "\<exists>x x' t. index_find (asset_lock s) i = Some x \<and> f x = Inr x' \<and> s' = put_asset_lock t s \<and>
    index_find t = (index_find (asset_lock s))(i \<mapsto> x') \<and> chain_inv s' \<and> (\<forall>a. ledger a s' = ledger a s - pool_in a x + pool_in a x')"
proof -
  have inv: "index_inv (asset_lock s)" using assms(1) by (simp add: chain_inv_def)
  obtain t where t: "index_modify no_clash (asset_lock s) i f = Inr t" "s' = put_asset_lock t s"
    using assms(2) by (auto simp: table_modify_def ok_simps)
  obtain x x' where x: "index_find (asset_lock s) i = Some x" "f x = Inr x'"
    "index_find t = (index_find (asset_lock s))(i \<mapsto> x')" "\<And>q. total q t = total q (asset_lock s) - q x + q x'"
    using tbl.change_find [OF inv t(1)] by blast
  have "index_inv t" using tbl.change_inv [OF inv t(1)] .
  moreover have la: "lock_asset s' = lock_asset s"
    using x keep [OF x(2)] t(2) by (auto simp: lock_asset_def fun_eq_iff)
  moreover have n: "net_of s' = net_of s" using t(2) by simp
  ultimately have "chain_inv s'" using assms(1) t(2) by (auto simp: chain_inv_def)
  moreover have "ledger a s' = ledger a s - pool_in a x + pool_in a x'" for a
    using t(2) x(4) n by (simp add: ledger_def)
  ultimately show ?thesis using x t(2) by auto
qed

lemma create_asset_lock_step:
  assumes "chain_inv s" "table_create asset_lock put_asset_lock no_clash x s = Inr (s', k)"
  shows "\<exists>t. s' = put_asset_lock t s \<and> index_find (asset_lock s') k = Some x \<and> lock_asset s' k = Some (lock_asset_id x) \<and>
    chain_inv s' \<and> (\<forall>a. ledger a s' = ledger a s + pool_in a x)"
proof -
  have inv: "index_inv (asset_lock s)" using assms(1) by (simp add: chain_inv_def)
  obtain t where t: "index_create no_clash (asset_lock s) x = Inr (t, k)" "s' = put_asset_lock t s"
    using assms(2) by (auto simp: table_create_def ok_simps)
  note law = tbl.make_inv [OF inv t(1)] tbl.make_fresh [OF inv t(1)] tbl.make_find [OF inv t(1)] tbl.make_sum [OF inv t(1)]
  have "lock_asset s' l = Some a" if "lock_asset s l = Some a" for l a
    using law(2,3) t(2) that by (auto simp: lock_asset_def split: if_splits)
  then have "lock_asset s' l = Some a" if "lock_id s a = Some l" for a l using assms(1) that by (simp add: chain_inv_def)
  then have "chain_inv s'" using assms(1) law(1) unfolding t(2) chain_inv_def by simp
  moreover have "ledger a s' = ledger a s + pool_in a x" for a using law(4) by (simp add: ledger_def t(2))
  moreover have "index_find (asset_lock s') k = Some x" "lock_asset s' k = Some (lock_asset_id x)"
    using law(3) by (simp_all add: t(2) lock_asset_def)
  ultimately show ?thesis using t(2) by blast
qed

text \<open>Changing an asset without moving it to other dynamic data keeps the ledger.\<close>

lemma modify_asset_step:
  assumes "chain_inv s" "modify_asset i f s = Inr s'"
    and keep: "\<And>x x'. f x = Inr x' \<Longrightarrow> dynamic_asset_data_id x' = dynamic_asset_data_id x \<and>
      (\<forall>l. lock_data_id x' = Some l \<longrightarrow> lock_data_id x = Some l \<or> lock_asset s l = Some i) \<and> (asset_ok x \<longrightarrow> asset_ok x')"
  shows "\<exists>x x' t. index_find (assets s) i = Some x \<and> f x = Inr x' \<and> s' = put_assets t s \<and>
    index_find t = (index_find (assets s))(i \<mapsto> x') \<and> chain_inv s' \<and> (\<forall>a. ledger a s' = ledger a s)"
proof -
  have inv: "index_inv (assets s)" using assms(1) by (simp add: chain_inv_def)
  obtain t where t: "index_modify same_symbol (assets s) i f = Inr t" "s' = put_assets t s"
    using assms(2) by (auto simp: table_modify_def ok_simps)
  obtain x x' where x: "index_find (assets s) i = Some x" "f x = Inr x'"
    "index_find t = (index_find (assets s))(i \<mapsto> x')"
    using tbl.change_find [OF inv t(1)] by blast
  have "index_inv t" using tbl.change_inv [OF inv t(1)] .
  moreover have d: "dyn_id s' = dyn_id s"
    using x t(2) keep [OF x(2)] by (auto simp: dyn_id_def fun_eq_iff)
  moreover have "lock_asset s l = Some a" if "lock_id s' a = Some l" for a l
  proof -
    have "lock_id s a = Some l \<or> lock_asset s l = Some a"
      using x t(2) keep [OF x(2)] that by (auto simp: lock_id_def split: if_splits)
    then show ?thesis using assms(1) by (auto simp: chain_inv_def)
  qed
  moreover have "rows_ok asset_ok t"
    using assms(1) x keep [OF x(2)] by (auto simp: chain_inv_def rows_ok_def)
  ultimately have "chain_inv s'" using assms(1) t(2) by (auto simp: chain_inv_def)
  moreover have "ledger a s' = ledger a s" for a
    using d t(2) by (simp add: ledger_def net_of_def dyn_of_def)
  ultimately show ?thesis using x t(2) by auto
qed

section \<open>Adjusting a balance\<close>

lemma find_row_put_same:
  assumes "find_row P idx = Some (k, x)" "P x'" "index_inv idx"
  shows "find_row P (idx\<lparr>rows := row_put k x' (rows idx)\<rparr>) = Some (k, x')"
proof -
  have "List.find (\<lambda>(k, x). P x) rs = Some (k, x) \<Longrightarrow> distinct (map fst rs) \<Longrightarrow>
      List.find (\<lambda>(k, x). P x) (row_put k x' rs) = Some (k, x')" for rs
  proof (induction rs)
    case (Cons r rs)
    then show ?case using assms(2) by (cases r) (auto split: if_splits simp: find_Some_iff in_set_conv_nth)
  qed simp
  then show ?thesis using assms index_inv_distinct [OF assms(3)] by (simp add: find_row_def)
qed

lemma find_row_put_other:
  assumes "\<not> P x'" "\<And>x. (k, x) \<in> set (rows idx) \<Longrightarrow> \<not> P x"
  shows "find_row P (idx\<lparr>rows := row_put k x' (rows idx)\<rparr>) = find_row P idx"
proof -
  have "(\<And>x. (k, x) \<in> set rs \<Longrightarrow> \<not> P x) \<Longrightarrow>
      List.find (\<lambda>(k, x). P x) (row_put k x' rs) = List.find (\<lambda>(k, x). P x) rs" for rs
  proof (induction rs)
    case (Cons r rs)
    then show ?case using assms(1) by (cases r) auto
  qed simp
  then show ?thesis using assms(2) by (simp add: find_row_def)
qed

lemma find_row_insert:
  assumes "find_row P idx = None"
  shows "find_row P (idx\<lparr>rows := row_insert k x (rows idx), next_id := n\<rparr>) = (if P x then Some (k, x) else None)"
proof -
  have "List.find (\<lambda>(k, x). P x) rs = None \<Longrightarrow>
      List.find (\<lambda>(k, x). P x) (row_insert k x rs) = (if P x then Some (k, x) else None)" for rs
    by (induction k x rs rule: row_insert.induct) (auto split: if_splits)
  then show ?thesis using assms by (simp add: find_row_def)
qed

lemma find_row_insert_other:
  assumes "\<not> P x"
  shows "find_row P (idx\<lparr>rows := row_insert k x (rows idx), next_id := n\<rparr>) = find_row P idx"
proof -
  have "List.find (\<lambda>(k, x). P x) (row_insert k x rs) = List.find (\<lambda>(k, x). P x) rs" for rs
    using assms by (induction k x rs rule: row_insert.induct) auto
  then show ?thesis by (simp add: find_row_def)
qed

lemma find_row_Some:
  assumes "find_row P idx = Some (k, x)"
  shows "P x" "(k, x) \<in> set (rows idx)"
  using assms by (auto simp: find_row_def find_Some_iff in_set_conv_nth)

lemma index_find_row:
  assumes "index_inv idx" "find_row P idx = Some (k, x)"
  shows "index_find idx k = Some x" "P x"
  using assms index_inv_distinct [OF assms(1)] find_row_Some [OF assms(2)] by (simp_all add: index_find_def)

lemma asset_ge_True [ok_simps]: "asset_ge a b = Inr True \<longleftrightarrow> asset_id a = asset_id b \<and> amount b \<le> amount a"
  by (auto simp: asset_ge_def asset_lt_def ok_simps)

definition balances_nonneg :: "database \<Rightarrow> bool" where
  "balances_nonneg s \<longleftrightarrow> (\<forall>(k, b) \<in> set (rows (balances s)). 0 \<le> balance b)"

definition bal :: "database \<Rightarrow> nat \<Rightarrow> nat \<Rightarrow> int" where
  "bal s owner a = amount (get_balance s owner a)"

lemma bal_row: "bal s owner a = (case balance_row s owner a of None \<Rightarrow> 0 | Some (k, b) \<Rightarrow> balance b)"
  by (simp add: bal_def get_balance_def get_balance_of_def split: option.splits)

lemma bal_frame [simp]:
  "bal (put_accounts t1 s) = bal s" "bal (put_stats t2 s) = bal s"
  "bal (put_assets t3 s) = bal s" "bal (put_asset_dyn t4 s) = bal s"
  "bal (put_asset_lock t5 s) = bal s" "bal (put_bitassets t6 s) = bal s"
  "bal (put_limit_orders t7 s) = bal s" "bal (put_call_orders t8 s) = bal s"
  "bal (put_settlements t9 s) = bal s" "bal (put_vesting_balances t10 s) = bal s"
  "bal (put_locked_balances t11 s) = bal s" "bal (put_withdraw_permissions t12 s) = bal s"
  "bal (put_witnesses t13 s) = bal s" "bal (s\<lparr>dgp := g\<rparr>) = bal s"
  "bal (put_committee_members u0 s) = bal s" "bal (put_workers u1 s) = bal s"
  "bal (put_genesis_balances u2 s) = bal s" "bal (put_fba_accumulators u3 s) = bal s"
  "bal (put_special_authorities u4 s) = bal s" "bal (put_buybacks u5 s) = bal s"
  "bal (put_budget_records u6 s) = bal s" "bal (s\<lparr>parameters := v0\<rparr>) = bal s"
  "bal (s\<lparr>pending_parameters := v1\<rparr>) = bal s" "bal (s\<lparr>next_available_vote_id := v2\<rparr>) = bal s"
  "bal (s\<lparr>active_committee_members := v3\<rparr>) = bal s" "bal (s\<lparr>active_witnesses := v4\<rparr>) = bal s"
  "bal (s\<lparr>current_shuffled_witnesses := v5\<rparr>) = bal s"
  by (simp_all add: bal_row balance_row_def fun_eq_iff)

lemma balances_nonneg_frame [simp]:
  "balances_nonneg (put_accounts t1 s) = balances_nonneg s" "balances_nonneg (put_stats t2 s) = balances_nonneg s"
  "balances_nonneg (put_assets t3 s) = balances_nonneg s" "balances_nonneg (put_asset_dyn t4 s) = balances_nonneg s"
  "balances_nonneg (put_asset_lock t5 s) = balances_nonneg s" "balances_nonneg (put_bitassets t6 s) = balances_nonneg s"
  "balances_nonneg (put_limit_orders t7 s) = balances_nonneg s" "balances_nonneg (put_call_orders t8 s) = balances_nonneg s"
  "balances_nonneg (put_settlements t9 s) = balances_nonneg s"
  "balances_nonneg (put_vesting_balances t10 s) = balances_nonneg s"
  "balances_nonneg (put_locked_balances t11 s) = balances_nonneg s"
  "balances_nonneg (put_withdraw_permissions t12 s) = balances_nonneg s"
  "balances_nonneg (put_witnesses t13 s) = balances_nonneg s" "balances_nonneg (s\<lparr>dgp := g\<rparr>) = balances_nonneg s"
  "balances_nonneg (put_committee_members u0 s) = balances_nonneg s" "balances_nonneg (put_workers u1 s) = balances_nonneg s"
  "balances_nonneg (put_genesis_balances u2 s) = balances_nonneg s" "balances_nonneg (put_fba_accumulators u3 s) = balances_nonneg s"
  "balances_nonneg (put_special_authorities u4 s) = balances_nonneg s" "balances_nonneg (put_buybacks u5 s) = balances_nonneg s"
  "balances_nonneg (put_budget_records u6 s) = balances_nonneg s" "balances_nonneg (s\<lparr>parameters := v0\<rparr>) = balances_nonneg s"
  "balances_nonneg (s\<lparr>pending_parameters := v1\<rparr>) = balances_nonneg s" "balances_nonneg (s\<lparr>next_available_vote_id := v2\<rparr>) = balances_nonneg s"
  "balances_nonneg (s\<lparr>active_committee_members := v3\<rparr>) = balances_nonneg s" "balances_nonneg (s\<lparr>active_witnesses := v4\<rparr>) = balances_nonneg s"
  "balances_nonneg (s\<lparr>current_shuffled_witnesses := v5\<rparr>) = balances_nonneg s"
  by (simp_all add: balances_nonneg_def)

lemma set_row_put_sub: "r \<in> set (row_put k x rs) \<Longrightarrow> r \<in> set rs \<or> r = (k, x)"
  by (auto simp: row_put_def split: if_splits)

context fc_laws
begin

lemma adjust_balance_new:
  assumes inv: "chain_inv s" and none: "balance_row s acct (asset_id delta) = None"
    and ok: "adjust_balance F acct delta s = Inr s'" and "amount delta \<noteq> 0"
  shows "0 < amount delta \<and> (\<exists>t. s' = put_balances t s) \<and> chain_inv s' \<and>
    (\<forall>a. ledger a s' = ledger a s + asset_in a delta) \<and>
    (\<forall>o1 a. bal s' o1 a = bal s o1 a + (if o1 = acct \<and> a = asset_id delta then amount delta else 0)) \<and>
    (balances_nonneg s \<longrightarrow> balances_nonneg s')"
proof -
  let ?b = "\<lparr> ab_owner = acct, asset_type = asset_id delta, balance = amount delta, lockeds = {} \<rparr>"
  obtain k where pos: "0 < amount delta" and c: "table_create balances put_balances same_account_asset ?b s = Inr (s', k)"
    using ok none assms(4) by (auto simp: adjust_balance_def ok_simps)
  note step = bal_tab.create_step [OF inv c]
  have s': "s' = put_balances (balances s\<lparr>rows := row_insert k ?b (rows (balances s)), next_id := k + 1\<rparr>) s"
    using c by (auto simp: table_create_def ok_simps index_create_Inr)
  have "bal s' o1 a = bal s o1 a + (if o1 = acct \<and> a = asset_id delta then amount delta else 0)" for o1 a
  proof (cases "o1 = acct \<and> a = asset_id delta")
    case True
    then show ?thesis using none by (simp add: bal_row balance_row_def s' find_row_insert)
  next
    case False
    then show ?thesis by (auto simp: bal_row balance_row_def s' find_row_insert_other)
  qed
  moreover have "balances_nonneg s \<Longrightarrow> balances_nonneg s'" using pos by (auto simp: balances_nonneg_def s')
  ultimately show ?thesis using step pos by (auto simp: balance_in_def asset_in_def)
qed

lemma adjust_balance_old:
  assumes inv: "chain_inv s" and some: "balance_row s acct (asset_id delta) = Some (k, b)"
    and ok: "adjust_balance F acct delta s = Inr s'" and "amount delta \<noteq> 0"
  shows "0 \<le> balance b + amount delta \<or> (0 < amount delta \<and> balance b < 0)"
    and "\<exists>t. s' = put_balances t s" "chain_inv s'" "\<forall>a. ledger a s' = ledger a s + asset_in a delta"
    and "\<forall>o1 a. bal s' o1 a = bal s o1 a + (if o1 = acct \<and> a = asset_id delta then amount delta else 0)"
    and "balances_nonneg s \<Longrightarrow> balances_nonneg s'"
proof -
  have g: "amount delta < 0 \<Longrightarrow> - amount delta \<le> balance b"
    and m: "modify_balance k (adjust_balance_object F delta) s = Inr s'"
    using ok some assms(4)
    by (auto simp: adjust_balance_def ok_simps asset_neg_def safe_neg_Inr get_balance_of_def split: if_splits)
  have inv_b: "index_inv (balances s)" using inv by (simp add: chain_inv_def)
  have key: "ab_owner b = acct" "asset_type b = asset_id delta"
    using index_find_row [OF inv_b some [unfolded balance_row_def]] by auto
  have kb: "index_find (balances s) k = Some b"
    using index_find_row [OF inv_b some [unfolded balance_row_def]] by auto
  let ?b' = "b\<lparr>balance := balance b + amount delta\<rparr>"
  note step = bal_tab.modify_step [OF inv m]
  have s': "s' = put_balances (balances s\<lparr>rows := row_put k ?b' (rows (balances s))\<rparr>) s"
    using m kb by (auto simp: table_modify_def ok_simps index_modify_Inr adjust_balance_object_def safe_add_Inr)
  show "0 \<le> balance b + amount delta \<or> (0 < amount delta \<and> balance b < 0)" using g assms(4) by linarith
  then show "balances_nonneg s \<Longrightarrow> balances_nonneg s'"
    using find_row_Some(2) [OF some [unfolded balance_row_def]]
    by (auto simp: balances_nonneg_def s' dest!: set_row_put_sub)
  show "\<exists>t. s' = put_balances t s" "chain_inv s'" using step by auto
  show "\<forall>a. ledger a s' = ledger a s + asset_in a delta"
    using step kb key by (auto simp: adjust_balance_object_def ok_simps safe_add_Inr balance_in_def asset_in_def)
  show "\<forall>o1 a. bal s' o1 a = bal s o1 a + (if o1 = acct \<and> a = asset_id delta then amount delta else 0)"
  proof (intro allI)
    fix o1 a
    let ?P = "\<lambda>b. ab_owner b = o1 \<and> asset_type b = a"
    show "bal s' o1 a = bal s o1 a + (if o1 = acct \<and> a = asset_id delta then amount delta else 0)"
    proof (cases "o1 = acct \<and> a = asset_id delta")
      case True
      then have "find_row ?P (balances s') = Some (k, ?b')"
        using find_row_put_same [OF _ _ inv_b, of ?P k b ?b'] some key by (simp add: balance_row_def s')
      then show ?thesis using some True by (simp add: bal_row balance_row_def)
    next
      case False
      have "\<And>x. (k, x) \<in> set (rows (balances s)) \<Longrightarrow> x = b"
        using kb index_inv_distinct [OF inv_b] by (simp add: index_find_def)
      then have "find_row ?P (balances s') = find_row ?P (balances s)"
        using False key unfolding s' by (auto intro!: find_row_put_other)
      then show ?thesis using False by (auto simp: bal_row balance_row_def)
    qed
  qed
qed

lemma adjust_balance_step:
  assumes "chain_inv s" "adjust_balance F acct delta s = Inr s'"
  shows "(\<exists>t. s' = put_balances t s) \<and> chain_inv s' \<and> (\<forall>a. ledger a s' = ledger a s + asset_in a delta) \<and>
    (\<forall>o1 a. bal s' o1 a = bal s o1 a + (if o1 = acct \<and> a = asset_id delta then amount delta else 0)) \<and>
    (balances_nonneg s \<longrightarrow> balances_nonneg s')"
proof (cases "amount delta = 0")
  case True
  then have "s' = s" using assms(2) by (simp add: adjust_balance_def)
  then show ?thesis using assms(1) True by (auto simp: asset_in_def intro: exI [of _ "balances s"])
next
  case False
  then show ?thesis
  proof (cases "balance_row s acct (asset_id delta)")
    case None
    then show ?thesis using adjust_balance_new [OF assms(1) _ assms(2) False] by blast
  next
    case (Some r)
    then obtain k b where "balance_row s acct (asset_id delta) = Some (k, b)" by (cases r) auto
    then show ?thesis using adjust_balance_old [OF assms(1) _ assms(2) False] by blast
  qed
qed

end

section \<open>A small database\<close>

definition demo_account :: "string \<Rightarrow> nat \<Rightarrow> account_object" where
  "demo_account n st = \<lparr> membership_expiration_date = 0xffffffff, registrar = 5, referrer = 5, lifetime_referrer = 5,
     network_fee_percentage = 2000, lifetime_referrer_fee_percentage = 3000, referrer_rewards_percentage = 5000,
     acct_name = n, owner_authority = null_authority, active_authority = null_authority,
     acct_options = \<lparr> voting_account = 5, num_witness = 0, num_committee = 0, votes = [] \<rparr>, statistics = st, whitelisting_accounts = {},
     whitelisted_accounts = {}, blacklisted_accounts = {}, blacklisting_accounts = {},
     cashback_vb = None, owner_special_authority = No_Special_Authority, active_special_authority = No_Special_Authority,
     top_n_control_flags = 0, allowed_assets = None \<rparr>"

definition demo_stats :: "nat \<Rightarrow> account_statistics_object" where
  "demo_stats n = \<lparr> st_owner = n, total_core_in_orders = 0, lifetime_fees_paid = 0, pending_fees = 0,
     pending_vested_fees = 0, tx_fees = Map.empty, market_fees = Map.empty \<rparr>"

definition demo_balance :: "nat \<Rightarrow> nat \<Rightarrow> int \<Rightarrow> account_balance_object" where
  "demo_balance o1 a v = \<lparr> ab_owner = o1, asset_type = a, balance = v, lockeds = {} \<rparr>"

definition demo_options :: asset_options where
  "demo_options = \<lparr> max_supply = 1000000000, market_fee_percent = 100, max_market_fee = 1000, issuer_permissions = 0x4f,
     flags = 1, opt_core_exchange_rate = \<lparr> base = mk_asset 2 7, quote = mk_asset 3 0 \<rparr>, whitelist_authorities = {},
     blacklist_authorities = {}, whitelist_markets = {}, blacklist_markets = {} \<rparr>"

definition demo_asset :: "string \<Rightarrow> nat \<Rightarrow> nat \<Rightarrow> nat option \<Rightarrow> asset_object" where
  "demo_asset n i d l = \<lparr> symbol = n, precision = 5, issuer = i, options = demo_options, dynamic_asset_data_id = d,
     lock_data_id = l, bitasset_data_id = None, buyback_account = None \<rparr>"

definition demo_dyn :: "int \<Rightarrow> int \<Rightarrow> asset_dynamic_data_object" where
  "demo_dyn supply pool = \<lparr> current_supply = supply, confidential_supply = 0, accumulated_fees = 0, fee_pool = pool,
     dyn_locked_balance = 0, dyn_market_fees = 0 \<rparr>"

definition demo_chain :: database where
  "demo_chain = \<lparr> parameters = \<lparr> block_interval = 5, maintenance_interval = 86400, maintenance_skip_slots = 3,
        committee_proposal_review_period = 1209600, maximum_transaction_size = 2048, maximum_block_size = 2000000,
        maximum_time_until_expiration = 86400, maximum_proposal_lifetime = 2419200, maximum_asset_whitelist_authorities = 10,
        maximum_asset_feed_publishers = 10, maximum_witness_count = 1001, maximum_committee_count = 1001,
        maximum_authority_membership = 10, reserve_percent_of_fee = 2000, network_percent_of_fee = 2000,
        lifetime_referrer_percent_of_fee = 3000, cashback_vesting_period_seconds = 31536000, cashback_vesting_threshold = 100,
        count_non_member_votes = True, allow_non_member_whitelists = False, witness_pay_per_block = 10,
        witness_pay_vesting_seconds = 86400, worker_budget_per_day = 50000, accounts_per_fee_scale = 1000,
        account_fee_scale_bitshifts = 4, max_authority_depth = 2, account_create_basic_fee = 500 \<rparr>,
     pending_parameters = None, next_available_vote_id = 0, active_committee_members = [],
     active_witnesses = [], current_shuffled_witnesses = [],
     dgp = \<lparr> head_block_number = 9, head_block_id = (9, 0), dgp_time = 1500000000, current_witness = 0, next_maintenance_time = 1500010000,
        last_budget_time = 0, witness_budget = 100, accounts_registered_this_interval = 0, recently_missed_count = 0, current_aslot = 9,
        recent_slots_filled = 0, dynamic_flags = 0, last_irreversible_block_num = 0 \<rparr>,
     accounts = \<lparr> next_id = 7, rows = [(5, demo_account ''alice'' 0), (6, demo_account ''bob'' 2)] \<rparr>,
     stats = \<lparr> next_id = 3, rows = [(0, demo_stats 5), (2, demo_stats 6)] \<rparr>,
     balances = \<lparr> next_id = 4, rows = [(0, demo_balance 5 0 5000), (2, demo_balance 6 0 300), (3, demo_balance 5 7 800)] \<rparr>,
     assets = \<lparr> next_id = 8, rows = [(0, demo_asset ''FCC'' 3 0 None), (7, demo_asset ''GOLD'' 5 2 (Some 4))] \<rparr>,
     asset_dyn = \<lparr> next_id = 3, rows = [(0, demo_dyn 6000 0), (2, demo_dyn 1800 600)] \<rparr>,
     asset_lock = \<lparr> next_id = 5, rows = [(4, \<lparr> lock_asset_id = 7,
        nominal_interest_perday = \<lparr> base = mk_asset 1000000000 7, quote = mk_asset 1000100000 7 \<rparr>,
        reward_coefficient = 1000, interest_pool = 1000, max_period = 720, profile_scale_percent = 10000,
        profile_receive_percent = 10000, can_unlock_not_expired = True \<rparr>)] \<rparr>,
     bitassets = empty_index, limit_orders = empty_index, call_orders = empty_index, settlements = empty_index,
     vesting_balances = empty_index, locked_balances = empty_index, withdraw_permissions = empty_index,
     witnesses = empty_index, committee_members = empty_index, workers = empty_index, genesis_balances = empty_index,
     fba_accumulators = empty_index, special_authorities = empty_index, buybacks = empty_index, budget_records = empty_index \<rparr>"

lemmas demo_defs = demo_chain_def demo_dyn_def demo_asset_def demo_options_def demo_balance_def demo_stats_def demo_account_def

lemma demo_dyn_id: "dyn_id demo_chain a = (if a = 0 then Some 0 else if a = 7 then Some 2 else None)"
  by (simp add: dyn_id_def demo_chain_def demo_asset_def index_find_def)

lemma demo_lock_id: "lock_id demo_chain a = (if a = 7 then Some 4 else None)" "lock_asset demo_chain 4 = Some 7"
  by (simp_all add: lock_id_def lock_asset_def demo_chain_def demo_asset_def index_find_def)

lemma demo_chain_inv: "chain_inv demo_chain"
  unfolding chain_inv_def demo_dyn_id demo_lock_id(1)
  using demo_lock_id(2) by (auto simp: demo_chain_def index_inv_def sorted_rows_def empty_index_def index_find_def rows_ok_def asset_ok_def demo_asset_def
      demo_options_def GRAPHENE_100_PERCENT_def split: if_splits)

lemma demo_chain_nonneg: "balances_nonneg demo_chain"
  by (simp add: balances_nonneg_def demo_chain_def demo_balance_def)

section \<open>Properties\<close>

definition balance_keys_unique :: "database \<Rightarrow> bool" where
  "balance_keys_unique s \<longleftrightarrow> distinct (map (\<lambda>(k, b). (ab_owner b, asset_type b)) (rows (balances s)))"

lemma unique_no_violation:
  assumes "balance_keys_unique s" "(k, b) \<in> set (rows (balances s))" "same_account_asset x b"
  shows "\<not> violates same_account_asset (rows (balances s)) k x"
  using assms unfolding violates_def balance_keys_unique_def same_account_asset_def
  by (auto simp: list_ex_iff inj_on_def distinct_map)

context fc_laws
begin

lemma adjust_balance_succeeds:
  assumes "chain_inv s" "balance_keys_unique s" "in_int64 (- amount delta)"
    "in_int64 (bal s acct (asset_id delta) + amount delta)" "0 \<le> bal s acct (asset_id delta) + amount delta"
  shows "\<exists>s'. adjust_balance F acct delta s = Inr s'"
proof (cases "balance_row s acct (asset_id delta)")
  case None
  let ?b = "\<lparr> ab_owner = acct, asset_type = asset_id delta, balance = amount delta, lockeds = {} \<rparr>"
  have "\<not> violates same_account_asset (rows (balances s)) (next_id (balances s)) ?b"
    using None by (fastforce simp: balance_row_def find_row_def find_None_iff violates_def same_account_asset_def list_ex_iff)
  moreover have "index_find (balances s) (next_id (balances s)) = None"
    using assms(1) index_inv_fresh by (auto simp: chain_inv_def)
  moreover have "0 \<le> amount delta" using assms(5) None by (simp add: bal_row)
  ultimately show ?thesis using None
    by (auto simp: adjust_balance_def table_create_def index_create_def index_insert_def)
next
  case (Some r)
  then obtain k b where r: "balance_row s acct (asset_id delta) = Some (k, b)" by (cases r) auto
  have inv_b: "index_inv (balances s)" using assms(1) by (simp add: chain_inv_def)
  note row = index_find_row [OF inv_b r [unfolded balance_row_def]] find_row_Some [OF r [unfolded balance_row_def]]
  let ?b = "b\<lparr>balance := balance b + amount delta\<rparr>"
  have ok: "adjust_balance_object F delta b = Inr ?b" using assms(4) r by (simp add: adjust_balance_object_def bal_row)
  have "\<not> violates same_account_asset (rows (balances s)) k ?b"
    using row(4) assms(2) by (intro unique_no_violation) (auto simp: same_account_asset_def)
  then show ?thesis using r row(1,2) ok assms(3,5)
    by (auto simp: adjust_balance_def table_modify_def index_modify_def index_get_def asset_neg_def asset_ge_def asset_lt_def
        get_balance_of_def bal_row)
qed

end

text \<open>
  \<^verbatim>\<open>adjust_balance\<close> succeeds exactly when the new balance is not negative (amounts within 64 bits), and
  then changes the one balance by the delta, no other balance, and the ledger of the asset by the delta.
\<close>

theorem adjust_balance_exact:
  assumes "fc_laws F" "chain_inv s" "balances_nonneg s" "balance_keys_unique s" "in_int64 (- amount delta)"
    "in_int64 (bal s acct (asset_id delta) + amount delta)"
  shows "(0 \<le> bal s acct (asset_id delta) + amount delta \<longleftrightarrow> (\<exists>s'. adjust_balance F acct delta s = Inr s')) \<and>
    (\<forall>s'. adjust_balance F acct delta s = Inr s' \<longrightarrow> chain_inv s' \<and> balances_nonneg s' \<and>
       (\<forall>o1 a. bal s' o1 a = bal s o1 a + (if o1 = acct \<and> a = asset_id delta then amount delta else 0)) \<and>
       (\<forall>a. ledger a s' = ledger a s + asset_in a delta))"
proof -
  have nn: "balances_nonneg t \<Longrightarrow> 0 \<le> bal t o1 a" for t o1 a
    using find_row_Some(2) unfolding bal_row balance_row_def balances_nonneg_def by (fastforce split: option.splits)
  have step: "chain_inv s' \<and> balances_nonneg s' \<and>
       (\<forall>o1 a. bal s' o1 a = bal s o1 a + (if o1 = acct \<and> a = asset_id delta then amount delta else 0)) \<and>
       (\<forall>a. ledger a s' = ledger a s + asset_in a delta)" if "adjust_balance F acct delta s = Inr s'" for s'
    using fc_laws.adjust_balance_step [OF assms(1,2) that] assms(3) by blast
  then have "0 \<le> bal s acct (asset_id delta) + amount delta" if "adjust_balance F acct delta s = Inr s'" for s'
    using nn [of s' acct "asset_id delta"] that by fastforce
  then show ?thesis using fc_laws.adjust_balance_succeeds [OF assms(1,2,4-6)] step by blast
qed

theorem adjust_balance_exact_witness:
  "\<exists>s'. adjust_balance fc_int64 5 (mk_asset (- 4000) 0) demo_chain = Inr s' \<and> bal s' 5 0 = 1000 \<and> bal s' 6 0 = 300"
proof -
  have "balance_keys_unique demo_chain" by (simp add: balance_keys_unique_def demo_chain_def demo_balance_def)
  have b: "bal demo_chain 5 0 = 5000" "bal demo_chain 6 0 = 300"
    by (simp_all add: bal_row balance_row_def find_row_def demo_chain_def demo_balance_def)
  note exact = adjust_balance_exact [OF fc64.fc_laws_axioms demo_chain_inv demo_chain_nonneg
      \<open>balance_keys_unique demo_chain\<close>, of "mk_asset (- 4000) 0" 5]
  obtain s' where "adjust_balance fc_int64 5 (mk_asset (- 4000) 0) demo_chain = Inr s'"
    using exact b by (auto simp: in_int64_def)
  moreover from this have "bal s' 5 0 = 1000" "bal s' 6 0 = 300" using exact b by (simp_all add: in_int64_def)
  ultimately show ?thesis by blast
qed

end
