(* ===== verification/Evaluator.thy ===== *)
theory Evaluator
  imports Chain_State
begin

text \<open>
  The evaluator framework (evaluator.hpp, evaluator.cpp): the fee of an operation is prepared,
  converted through the fee pool of its asset and credited, then the operation is applied and the fee is taken from the
  payer.

  The virtual members of an evaluator class form the record \<open>evaluator\<close>: the data members the class
  fills in \<^verbatim>\<open>do_evaluate\<close> are its type \<open>'e\<close>, the result of \<^verbatim>\<open>do_apply\<close> its type \<open>'r\<close>. The fee an
  operation must pay is an argument: the fee schedule computes it. The locale \<open>charging_evaluator\<close> is the contract
  of an operation that moves value without creating or destroying it, when its operation is valid; it gives the same for
  the whole evaluation, fee included. \<open>conserving_evaluator\<close> is the simpler contract of the operations that pay their fee the
  default way, and a sublocale.
\<close>

unbundle bit_operations_syntax

definition HARDFORK_419_TIME :: time_point_sec where "HARDFORK_419_TIME = 1446652800"

section \<open>Authorized assets\<close>

definition slow_is_authorized_asset :: "account_object \<Rightarrow> nat \<Rightarrow> asset_object \<Rightarrow> bool" where
  "slow_is_authorized_asset acct i a =
     (if (case allowed_assets acct of None \<Rightarrow> False | Some s \<Rightarrow> i \<notin> s) then False
      else if (\<exists>b \<in> blacklisting_accounts acct. b \<in> blacklist_authorities (options a)) then False
      else if whitelist_authorities (options a) = {} then True
      else (\<exists>w \<in> whitelisting_accounts acct. w \<in> whitelist_authorities (options a)))"

definition is_authorized_asset :: "account_object \<Rightarrow> nat \<Rightarrow> asset_object \<Rightarrow> bool" where
  "is_authorized_asset acct i a =
     (if \<not> has_flag (flags (options a)) white_list \<and> allowed_assets acct = None then True
      else slow_is_authorized_asset acct i a)"

section \<open>Fees\<close>

record fee_state =
  fee_from_account :: asset
  core_fee_paid :: share_type
  fee_paying_account :: nat
  fee_paying_account_statistics :: nat
  fee_asset_dyn_data :: nat

definition prepare_fee :: "nat \<Rightarrow> asset \<Rightarrow> database \<Rightarrow> fee_state result" where
  "prepare_fee account_id fee s =
     bind (fc_assert (amount fee \<ge> 0) ''fee.amount >= 0'') (\<lambda>_.
     bind (index_get (accounts s) account_id) (\<lambda>acct.
     bind (index_get (stats s) (statistics acct)) (\<lambda>_.
     bind (index_get (assets s) (asset_id fee)) (\<lambda>a.
     bind (index_get (asset_dyn s) (dynamic_asset_data_id a)) (\<lambda>d.
     bind (if head_block_time s > HARDFORK_419_TIME
           then fc_assert (is_authorized_asset acct (asset_id fee) a) ''unauthorized fee asset'' else Inr ()) (\<lambda>_.
     bind (if asset_id fee = 0 then Inr (amount fee)
           else bind (asset_mul fee (opt_core_exchange_rate (options a))) (\<lambda>fee_from_pool.
             bind (fc_assert (asset_id fee_from_pool = 0) ''core exchange rate'') (\<lambda>_.
             bind (fc_assert (amount fee_from_pool \<le> fee_pool d) ''Fee pool balance too small'') (\<lambda>_.
             Inr (amount fee_from_pool))))) (\<lambda>core.
     Inr \<lparr> fee_from_account = fee, core_fee_paid = core, fee_paying_account = account_id,
           fee_paying_account_statistics = statistics acct,
           fee_asset_dyn_data = dynamic_asset_data_id a \<rparr>)))))))"

definition convert_fee :: "fc_lib \<Rightarrow> bool \<Rightarrow> fee_state \<Rightarrow> database \<Rightarrow> database result" where
  "convert_fee F skip_fee fs s =
     (if \<not> skip_fee \<and> asset_id (fee_from_account fs) \<noteq> 0 then
        modify_asset_dyn (fee_asset_dyn_data fs) (\<lambda>d.
          bind (safe_add F (accumulated_fees d) (amount (fee_from_account fs))) (\<lambda>acc.
          bind (safe_sub F (fee_pool d) (core_fee_paid fs)) (\<lambda>pool.
          Inr (d\<lparr>accumulated_fees := acc, fee_pool := pool\<rparr>)))) s
      else Inr s)"

definition record_fee :: "fc_lib \<Rightarrow> asset \<Rightarrow> (nat \<rightharpoonup> share_type) \<Rightarrow> (nat \<rightharpoonup> share_type) result" where
  "record_fee F fee m =
     (case m (asset_id fee) of
        Some v \<Rightarrow> bind (safe_add F v (amount fee)) (\<lambda>v'. Inr (m(asset_id fee \<mapsto> v')))
      | None \<Rightarrow> Inr (m(asset_id fee \<mapsto> amount fee)))"

definition pay_fee :: "fc_lib \<Rightarrow> bool \<Rightarrow> fee_state \<Rightarrow> database \<Rightarrow> database result" where
  "pay_fee F skip_fee fs s =
     (if \<not> skip_fee then
        modify_stats (fee_paying_account_statistics fs) (\<lambda>t.
          bind (stat_pay_fee F (core_fee_paid fs) (cashback_vesting_threshold (parameters s)) t) (\<lambda>t'.
          bind (record_fee F (fee_from_account fs) (tx_fees t')) (\<lambda>m. Inr (t'\<lparr>tx_fees := m\<rparr>)))) s
      else Inr s)"

section \<open>Evaluation\<close>

record ('op, 'e, 'r) evaluator =
  fee_payer :: "'op \<Rightarrow> nat"
  op_fee :: "'op \<Rightarrow> asset"
  do_evaluate :: "fc_lib \<Rightarrow> 'op \<Rightarrow> fee_state \<Rightarrow> database \<Rightarrow> ('e \<times> fee_state) result"
  do_pay_fee :: "fc_lib \<Rightarrow> bool \<Rightarrow> fee_state \<Rightarrow> 'e \<Rightarrow> database \<Rightarrow> (database \<times> 'e) result"
  do_apply :: "fc_lib \<Rightarrow> 'op \<Rightarrow> 'e \<Rightarrow> fee_state \<Rightarrow> database \<Rightarrow> (database \<times> 'r) result"

definition default_pay_fee :: "fc_lib \<Rightarrow> bool \<Rightarrow> fee_state \<Rightarrow> 'e \<Rightarrow> database \<Rightarrow> (database \<times> 'e) result" where
  "default_pay_fee F skip_fee fs e s = bind (pay_fee F skip_fee fs s) (\<lambda>s'. Inr (s', e))"

definition evaluate ::
  "fc_lib \<Rightarrow> ('op, 'e, 'r) evaluator \<Rightarrow> bool \<Rightarrow> share_type \<Rightarrow> 'op \<Rightarrow> database \<Rightarrow> ('e \<times> fee_state) result" where
  "evaluate F ev skip_fee_schedule_check required_fee op s =
     bind (prepare_fee (fee_payer ev op) (op_fee ev op) s) (\<lambda>fs.
     bind (if skip_fee_schedule_check then Inr ()
           else graphene_assert (core_fee_paid fs \<ge> required_fee) (Chain_Exception ''insufficient_fee'')) (\<lambda>_.
     do_evaluate ev F op fs s))"

definition apply_op ::
  "fc_lib \<Rightarrow> ('op, 'e, 'r) evaluator \<Rightarrow> bool \<Rightarrow> 'op \<Rightarrow> 'e \<Rightarrow> fee_state \<Rightarrow> database \<Rightarrow> (database \<times> 'r) result" where
  "apply_op F ev skip_fee op e fs s =
     bind (convert_fee F skip_fee fs s) (\<lambda>s1.
     bind (do_pay_fee ev F skip_fee fs e s1) (\<lambda>(s2, e').
     bind (do_apply ev F op e' fs s2) (\<lambda>(s3, r).
     bind (asset_neg F (fee_from_account fs)) (\<lambda>d.
     bind (adjust_balance F (fee_payer ev op) d s3) (\<lambda>s4.
     Inr (s4, r))))))"

definition start_evaluate ::
  "fc_lib \<Rightarrow> ('op, 'e, 'r) evaluator \<Rightarrow> bool \<Rightarrow> bool \<Rightarrow> share_type \<Rightarrow> 'op \<Rightarrow> database \<Rightarrow> (database \<times> 'r) result" where
  "start_evaluate F ev skip_fee skip_fee_schedule_check required_fee op s =
     bind (evaluate F ev skip_fee_schedule_check required_fee op s) (\<lambda>(e, fs).
     apply_op F ev skip_fee op e fs s)"

section \<open>The fee keeps the ledger\<close>

text \<open>What \<^verbatim>\<open>prepare_fee\<close> establishes and the later fee steps rely on.\<close>

definition fee_ready :: "fee_state \<Rightarrow> database \<Rightarrow> bool" where
  "fee_ready fs s \<longleftrightarrow> dyn_id s (asset_id (fee_from_account fs)) = Some (fee_asset_dyn_data fs) \<and>
     0 \<le> amount (fee_from_account fs) \<and> 0 \<le> core_fee_paid fs \<and>
     (asset_id (fee_from_account fs) = 0 \<longrightarrow> core_fee_paid fs = amount (fee_from_account fs))"

lemma asset_mul_range: "asset_mul a p = Inr r \<Longrightarrow> 0 \<le> amount r \<and> amount r < 2 ^ 63"
  by (auto simp: asset_mul_def scale_def Let_def ok_simps GRAPHENE_MAX_SHARE_SUPPLY_def split: if_splits)

lemma prepare_fee_ready:
  "prepare_fee i fee s = Inr fs \<Longrightarrow> fee_ready fs s \<and> fee_from_account fs = fee \<and> fee_paying_account fs = i"
  by (auto simp: prepare_fee_def ok_simps index_get_def fee_ready_def dyn_id_def dest: asset_mul_range split: if_splits)

lemma dyn_id_inj: "chain_inv s \<Longrightarrow> dyn_id s a = Some i \<Longrightarrow> dyn_id s b = Some i \<longleftrightarrow> a = b"
  unfolding chain_inv_def by metis

context fc_laws
begin

lemma convert_fee_step:
  assumes "chain_inv s" "fee_ready fs s" "convert_fee F skip fs s = Inr s'"
  shows "(\<exists>t. s' = put_asset_dyn t s) \<and> chain_inv s' \<and>
    (\<forall>a. ledger a s' = ledger a s + (if \<not> skip \<and> asset_id (fee_from_account fs) \<noteq> 0
       then asset_in a (fee_from_account fs) - core_in a (core_fee_paid fs) else 0))"
proof (cases "\<not> skip \<and> asset_id (fee_from_account fs) \<noteq> 0")
  case True
  let ?f = "\<lambda>d. bind (safe_add F (accumulated_fees d) (amount (fee_from_account fs))) (\<lambda>acc.
          bind (safe_sub F (fee_pool d) (core_fee_paid fs)) (\<lambda>pool.
          Inr (d\<lparr>accumulated_fees := acc, fee_pool := pool\<rparr>)))"
  have m: "modify_asset_dyn (fee_asset_dyn_data fs) ?f s = Inr s'"
    using assms(3) True by (simp add: convert_fee_def)
  have d: "dyn_id s a = Some (fee_asset_dyn_data fs) \<longleftrightarrow> asset_id (fee_from_account fs) = a" for a
    using dyn_id_inj [OF assms(1), of "asset_id (fee_from_account fs)"] assms(2) by (simp add: fee_ready_def)
  show ?thesis using modify_asset_dyn_step [OF assms(1) m] True
    by (auto simp: ok_simps safe_Inr d net_def asset_in_def fee_pool_in_def core_in_def)
next
  case False
  then have "s' = s" using assms(3) by (auto simp: convert_fee_def)
  then show ?thesis using assms(1) False by (auto intro: exI [of _ "asset_dyn s"])
qed

lemma stat_pay_fee_pending:
  "stat_pay_fee F fee th t = Inr t' \<Longrightarrow> pending_in a t' = pending_in a t + core_in a fee"
  by (auto simp: stat_pay_fee_def ok_simps safe_Inr pending_in_def core_in_def split: if_splits)

lemma pay_fee_step:
  assumes "chain_inv s" "pay_fee F skip fs s = Inr s'"
  shows "(\<exists>t. s' = put_stats t s) \<and> chain_inv s' \<and>
    (\<forall>a. ledger a s' = ledger a s + (if skip then 0 else core_in a (core_fee_paid fs)))"
proof (cases skip)
  case True
  then have "s' = s" using assms(2) by (simp add: pay_fee_def)
  then show ?thesis using assms(1) True by (auto intro: exI [of _ "stats s"])
next
  case False
  let ?f = "\<lambda>t. bind (stat_pay_fee F (core_fee_paid fs) (cashback_vesting_threshold (parameters s)) t) (\<lambda>t'.
          bind (record_fee F (fee_from_account fs) (tx_fees t')) (\<lambda>m. Inr (t'\<lparr>tx_fees := m\<rparr>)))"
  have m: "modify_stats (fee_paying_account_statistics fs) ?f s = Inr s'"
    using assms(2) False by (simp add: pay_fee_def)
  have "pending_in a t' = pending_in a t + core_in a (core_fee_paid fs)" if "?f t = Inr t'" for a t t'
    using that stat_pay_fee_pending by (auto simp: ok_simps pending_in_def)
  then show ?thesis using stat_tab.modify_step [OF assms(1) m] False by fastforce
qed

lemma asset_neg_Inr: "asset_neg F a = Inr b \<longleftrightarrow> b = mk_asset (- amount a) (asset_id a) \<and> in_int64 (- amount a)"
  by (auto simp: asset_neg_def ok_simps safe_neg_Inr)

lemma asset_add_Inr: "asset_add F a b = Inr c \<longleftrightarrow> asset_id a = asset_id b \<and>
    c = mk_asset (amount a + amount b) (asset_id a) \<and> in_int64 (amount a + amount b)"
  by (auto simp: asset_add_def ok_simps safe_add_Inr)

lemma asset_sub_Inr: "asset_sub F a b = Inr c \<longleftrightarrow> asset_id a = asset_id b \<and>
    c = mk_asset (amount a - amount b) (asset_id a) \<and> in_int64 (amount a - amount b)"
  by (auto simp: asset_sub_def ok_simps safe_sub_Inr)

end

section \<open>The contract of an evaluator\<close>

text \<open>A change keeps the tables well formed, the ledger of every asset and the sign of the balances.\<close>

definition conserves :: "database \<Rightarrow> database \<Rightarrow> bool" where
  "conserves s s' \<longleftrightarrow> chain_inv s' \<and> (\<forall>a. ledger a s' = ledger a s) \<and> (balances_nonneg s \<longrightarrow> balances_nonneg s')"

lemma conserves_refl [simp]: "chain_inv s \<Longrightarrow> conserves s s"
  by (simp add: conserves_def)

lemma conserves_trans: "conserves s t \<Longrightarrow> conserves t u \<Longrightarrow> conserves s u"
  by (simp add: conserves_def)

text \<open>The fee steps before \<^verbatim>\<open>do_apply\<close> change the dynamic data of the fee asset and the statistics of the payer only.\<close>

definition fee_frame :: "database \<Rightarrow> database \<Rightarrow> bool" where
  "fee_frame s s' \<longleftrightarrow> (\<exists>t u. s' = put_stats u (put_asset_dyn t s))"

lemma fee_frame_put: "fee_frame s (put_asset_dyn t s)" "fee_frame s (put_stats u s)"
  unfolding fee_frame_def by (rule exI [of _ t], rule exI [of _ "stats s"], simp) (rule exI [of _ "asset_dyn s"], rule exI [of _ u], simp)

lemma fee_frame_trans: "fee_frame s t \<Longrightarrow> fee_frame t u \<Longrightarrow> fee_frame s u"
  unfolding fee_frame_def by fastforce

lemma fee_frame_same:
  "fee_frame s s' \<Longrightarrow> accounts s' = accounts s \<and> assets s' = assets s \<and> bitassets s' = bitassets s \<and>
     limit_orders s' = limit_orders s \<and> call_orders s' = call_orders s \<and> settlements s' = settlements s \<and>
     dgp s' = dgp s \<and> parameters s' = parameters s \<and> balances s' = balances s \<and> bal s' = bal s \<and> dyn_id s' = dyn_id s \<and>
     balances_nonneg s' = balances_nonneg s"
  unfolding fee_frame_def by force

text \<open>
  The contract of an evaluator that may keep the fee of its operation in the object it creates: paying the fee and applying the
  operation together add the core fee to the ledger, which taking the fee from the payer
  removes again. An evaluator that pays its fee the default way and whose \<^verbatim>\<open>do_apply\<close> conserves is one.
\<close>

locale charging_evaluator =
  fixes ev :: "('op, 'e, 'r) evaluator"
    and valid :: "'op \<Rightarrow> database \<Rightarrow> bool"
  assumes fee_kept: "do_evaluate ev F op fs s = Inr (e, fs') \<Longrightarrow> fs' = fs"
    and pay_and_apply: "fc_laws F \<Longrightarrow> chain_inv s \<Longrightarrow> valid op s0 \<Longrightarrow> fee_ready fs s0 \<Longrightarrow>
      do_evaluate ev F op fs s0 = Inr (e, fs) \<Longrightarrow> fee_frame s0 s \<Longrightarrow>
      do_pay_fee ev F False fs e s = Inr (s1, e1) \<Longrightarrow> do_apply ev F op e1 fs s1 = Inr (s', r) \<Longrightarrow>
      chain_inv s' \<and> (\<forall>a. ledger a s' = ledger a s + core_in a (core_fee_paid fs)) \<and>
      (balances_nonneg s \<longrightarrow> balances_nonneg s')"
begin

lemma start_evaluate_conserves:
  assumes F: "fc_laws F" and inv: "chain_inv s" and v: "valid op s"
    and ok: "start_evaluate F ev False skip_check required op s = Inr (s', r)"
  shows "conserves s s'"
proof -
  obtain e fs fs0 where fs0: "prepare_fee (fee_payer ev op) (op_fee ev op) s = Inr fs0"
    and e: "do_evaluate ev F op fs0 s = Inr (e, fs)" and a: "apply_op F ev False op e fs s = Inr (s', r)"
    using ok by (auto simp: start_evaluate_def evaluate_def ok_simps split: if_splits)
  have fs: "fs = fs0" using fee_kept [OF e] .
  note ready = prepare_fee_ready [OF fs0]
  obtain s1 s2 e2 s3 d where s1: "convert_fee F False fs s = Inr s1" and s2: "do_pay_fee ev F False fs e s1 = Inr (s2, e2)"
    and s3: "do_apply ev F op e2 fs s2 = Inr (s3, r)" and d: "asset_neg F (fee_from_account fs) = Inr d"
    and s': "adjust_balance F (fee_payer ev op) d s3 = Inr s'"
    using a by (auto simp: apply_op_def ok_simps)
  note c = fc_laws.convert_fee_step [OF F inv _ s1]
  have c1: "\<exists>t. s1 = put_asset_dyn t s" "chain_inv s1" using c ready fs by auto
  have "fee_frame s s1" using c1(1) fee_frame_put(1) by blast
  then have k: "chain_inv s3" "\<And>a. ledger a s3 = ledger a s1 + core_in a (core_fee_paid fs)"
    "balances_nonneg s1 \<longrightarrow> balances_nonneg s3"
    using pay_and_apply [OF F c1(2) v _ _ _ s2 s3] ready e fs by auto
  note b = fc_laws.adjust_balance_step [OF F k(1) s']
  have d': "d = mk_asset (- amount (fee_from_account fs)) (asset_id (fee_from_account fs))"
    using d by (simp add: fc_laws.asset_neg_Inr [OF F])
  have "ledger a s' = ledger a s" for a
  proof -
    have "ledger a s' = ledger a s3 + asset_in a d" using b by auto
    moreover have "ledger a s1 = ledger a s + (if asset_id (fee_from_account fs) \<noteq> 0
       then asset_in a (fee_from_account fs) - core_in a (core_fee_paid fs) else 0)"
      using c ready fs by auto
    ultimately show ?thesis using ready fs d' k(2) by (auto simp: asset_in_def core_in_def fee_ready_def)
  qed
  then show ?thesis using b k(3) c1(1) by (auto simp: conserves_def)
qed

end

locale conserving_evaluator =
  fixes ev :: "('op, 'e, 'r) evaluator"
    and valid :: "'op \<Rightarrow> database \<Rightarrow> bool"
  assumes pays_default: "do_pay_fee ev = default_pay_fee"
    and keeps_fee: "do_evaluate ev F op fs s = Inr (e, fs') \<Longrightarrow> fs' = fs"
    and apply_conserves: "fc_laws F \<Longrightarrow> chain_inv s \<Longrightarrow> valid op s0 \<Longrightarrow> do_evaluate ev F op fs s0 = Inr (e, fs) \<Longrightarrow>
      fee_frame s0 s \<Longrightarrow> do_apply ev F op e fs s = Inr (s', r) \<Longrightarrow> conserves s s'"

sublocale conserving_evaluator \<subseteq> charging_evaluator ev valid
proof unfold_locales
  fix F :: fc_lib and op fs s s0 s1 s' e e1 r
  assume F: "fc_laws F" and inv: "chain_inv s" and v: "valid op s0" and e: "do_evaluate ev F op fs s0 = Inr (e, fs)"
    and fr: "fee_frame s0 s" and p: "do_pay_fee ev F False fs e s = Inr (s1, e1)" and a: "do_apply ev F op e1 fs s1 = Inr (s', r)"
  have s1: "pay_fee F False fs s = Inr s1" "e1 = e" using p by (auto simp: pays_default default_pay_fee_def ok_simps)
  note st = fc_laws.pay_fee_step [OF F inv s1(1)]
  have fr1: "fee_frame s s1"
    using st fee_frame_put(2) by blast
  have "conserves s1 s'" using apply_conserves [OF F _ v e fee_frame_trans [OF fr fr1]] st a s1(2) by blast
  then show "chain_inv s' \<and> (\<forall>a. ledger a s' = ledger a s + core_in a (core_fee_paid fs)) \<and>
      (balances_nonneg s \<longrightarrow> balances_nonneg s')"
    using st by (auto simp: conserves_def)
qed (rule keeps_fee)

end
