(* ===== verification/Fee_Distribution.thy ===== *)
theory Fee_Distribution
  imports Evaluator
begin

text \<open>
  Where collected core goes: the payment of a vesting balance that is created on demand
  (\<^verbatim>\<open>deposit_lazy_vesting\<close>, \<^verbatim>\<open>deposit_cashback\<close> and \<^verbatim>\<open>deposit_witness_pay\<close> of db_balance.cpp) and the distribution of the fees an
  account has paid among the network, its lifetime referrer, its referrer and its registrar
  (\<^verbatim>\<open>account_statistics_object::process_fees\<close> of account_object.cpp).

  The debug assertions of \<^verbatim>\<open>process_fees\<close> are not part of the model; \<open>fee_shares_add_up\<close> proves what they claim.
\<close>

section \<open>Vesting balances on demand\<close>

definition new_cashback_balance ::
  "share_type \<Rightarrow> u32 \<Rightarrow> nat \<Rightarrow> bool \<Rightarrow> time_point_sec \<Rightarrow> vesting_balance_object" where
  "new_cashback_balance amt req_vesting_seconds req_owner require_vesting now =
     \<lparr> vb_owner = req_owner, vb_balance = mk_asset amt 0,
       vb_policy = Cdd \<lparr> vesting_seconds = req_vesting_seconds,
         coin_seconds_earned = (if require_vesting then 0 else word_of_int (int64_mul amt (uint req_vesting_seconds))),
         start_claim = 0, coin_seconds_earned_last_update = now \<rparr> \<rparr>"

definition reusable_balance :: "u32 \<Rightarrow> nat \<Rightarrow> vesting_balance_object \<Rightarrow> bool" where
  "reusable_balance req_vesting_seconds req_owner vbo \<longleftrightarrow> vb_owner vbo = req_owner \<and>
     (case vb_policy vbo of Linear p \<Rightarrow> False | Cdd p \<Rightarrow> vesting_seconds p = req_vesting_seconds)"

definition create_lazy_vesting ::
  "share_type \<Rightarrow> u32 \<Rightarrow> nat \<Rightarrow> bool \<Rightarrow> database \<Rightarrow> (database \<times> nat option) result" where
  "create_lazy_vesting amt req_vesting_seconds req_owner require_vesting s =
     bind (table_create vesting_balances put_vesting_balances no_clash
        (new_cashback_balance amt req_vesting_seconds req_owner require_vesting (head_block_time s)) s) (\<lambda>(s', i).
     Inr (s', Some i))"

definition deposit_lazy_vesting ::
  "fc_lib \<Rightarrow> nat option \<Rightarrow> share_type \<Rightarrow> u32 \<Rightarrow> nat \<Rightarrow> bool \<Rightarrow> database \<Rightarrow> (database \<times> nat option) result" where
  "deposit_lazy_vesting F ovbid amt req_vesting_seconds req_owner require_vesting s =
     (if amt = 0 then Inr (s, None)
      else case ovbid of
        None \<Rightarrow> create_lazy_vesting amt req_vesting_seconds req_owner require_vesting s
      | Some i \<Rightarrow> bind (index_get (vesting_balances s) i) (\<lambda>vbo.
          if reusable_balance req_vesting_seconds req_owner vbo then
            bind (modify_vesting_balance i (\<lambda>v.
              if require_vesting then vb_deposit F v (head_block_time s) (mk_asset amt 0)
              else vb_deposit_vested F v (head_block_time s) (mk_asset amt 0)) s) (\<lambda>s'.
            Inr (s', None))
          else create_lazy_vesting amt req_vesting_seconds req_owner require_vesting s))"

definition blockchain_account :: "nat \<Rightarrow> bool" where
  "blockchain_account i \<longleftrightarrow> i = GRAPHENE_COMMITTEE_ACCOUNT \<or> i = GRAPHENE_WITNESS_ACCOUNT \<or>
     i = GRAPHENE_RELAXED_COMMITTEE_ACCOUNT \<or> i = GRAPHENE_NULL_ACCOUNT \<or> i = GRAPHENE_TEMP_ACCOUNT"

definition deposit_cashback :: "fc_lib \<Rightarrow> nat \<Rightarrow> share_type \<Rightarrow> bool \<Rightarrow> database \<Rightarrow> database result" where
  "deposit_cashback F i amt require_vesting s =
     bind (index_get (accounts s) i) (\<lambda>acct.
     if amt = 0 then Inr s
     else if blockchain_account i then
       bind (index_get (assets s) 0) (\<lambda>core.
       modify_asset_dyn (dynamic_asset_data_id core) (\<lambda>d.
         bind (safe_sub F (current_supply d) amt) (\<lambda>v. Inr (d\<lparr>current_supply := v\<rparr>))) s)
     else
       bind (deposit_lazy_vesting F (cashback_vb acct) amt (cashback_vesting_period_seconds (parameters s)) i require_vesting s) (\<lambda>(s1, new_vbid).
       case new_vbid of None \<Rightarrow> Inr s1 | Some v \<Rightarrow> modify_account i (\<lambda>a. Inr (a\<lparr>cashback_vb := Some v\<rparr>)) s1))"

definition deposit_witness_pay :: "fc_lib \<Rightarrow> nat \<Rightarrow> share_type \<Rightarrow> database \<Rightarrow> database result" where
  "deposit_witness_pay F i amt s =
     bind (index_get (witnesses s) i) (\<lambda>wit.
     if amt = 0 then Inr s
     else
       bind (deposit_lazy_vesting F (pay_vb wit) amt (witness_pay_vesting_seconds (parameters s)) (witness_account wit) True s) (\<lambda>(s1, new_vbid).
       case new_vbid of None \<Rightarrow> Inr s1 | Some v \<Rightarrow> modify_witness i (\<lambda>w. Inr (w\<lparr>pay_vb := Some v\<rparr>)) s1))"

section \<open>Fee distribution\<close>

definition cut_fee :: "fc_lib \<Rightarrow> share_type \<Rightarrow> u16 \<Rightarrow> share_type result" where
  "cut_fee F a p =
     (if a = 0 \<or> p = 0 then Inr 0
      else if uint p = GRAPHENE_100_PERCENT then Inr a
      else to_share F (u128_muldiv a (uint p) GRAPHENE_100_PERCENT))"

record fee_shares =
  network_cut :: share_type
  lifetime_cut :: share_type
  referrer_cut :: share_type
  registrar_cut :: share_type

definition split_fee :: "fc_lib \<Rightarrow> account_object \<Rightarrow> share_type \<Rightarrow> fee_shares result" where
  "split_fee F acct core_fee_total =
     bind (cut_fee F core_fee_total (network_fee_percentage acct)) (\<lambda>network.
     bind (cut_fee F core_fee_total (lifetime_referrer_fee_percentage acct)) (\<lambda>lifetime.
     bind (safe_sub F core_fee_total network) (\<lambda>rest.
     bind (safe_sub F rest lifetime) (\<lambda>referral.
     bind (cut_fee F referral (referrer_rewards_percentage acct)) (\<lambda>referrer_part.
     bind (safe_sub F referral referrer_part) (\<lambda>registrar_part.
     Inr \<lparr> network_cut = network, lifetime_cut = lifetime, referrer_cut = referrer_part, registrar_cut = registrar_part \<rparr>))))))"

text \<open>A referrer whose membership has run out is replaced by the lifetime referrer.\<close>

definition refresh_referrer :: "nat \<Rightarrow> database \<Rightarrow> database result" where
  "refresh_referrer i s =
     bind (index_get (accounts s) i) (\<lambda>acct.
     bind (index_get (accounts s) (referrer acct)) (\<lambda>ref.
     if is_basic_account ref (head_block_time s)
     then modify_account i (\<lambda>a. Inr (a\<lparr>referrer := lifetime_referrer a\<rparr>)) s else Inr s))"

definition pay_out_fees :: "fc_lib \<Rightarrow> nat \<Rightarrow> share_type \<Rightarrow> bool \<Rightarrow> database \<Rightarrow> database result" where
  "pay_out_fees F i core_fee_total require_vesting s =
     bind (refresh_referrer i s) (\<lambda>s1.
     bind (index_get (accounts s1) i) (\<lambda>acct.
     bind (split_fee F acct core_fee_total) (\<lambda>sh.
     bind (modify_asset_dyn 0 (\<lambda>d. bind (safe_add F (accumulated_fees d) (network_cut sh)) (\<lambda>v. Inr (d\<lparr>accumulated_fees := v\<rparr>))) s1) (\<lambda>s2.
     bind (deposit_cashback F (lifetime_referrer acct) (lifetime_cut sh) require_vesting s2) (\<lambda>s3.
     bind (deposit_cashback F (referrer acct) (referrer_cut sh) require_vesting s3) (\<lambda>s4.
     deposit_cashback F (registrar acct) (registrar_cut sh) require_vesting s4))))))"

definition process_fees :: "fc_lib \<Rightarrow> nat \<Rightarrow> nat \<Rightarrow> database \<Rightarrow> database result" where
  "process_fees F st i s =
     bind (index_get (stats s) st) (\<lambda>t.
     if pending_fees t > 0 \<or> pending_vested_fees t > 0 then
       bind (pay_out_fees F i (pending_fees t) True s) (\<lambda>s1.
       bind (pay_out_fees F i (pending_vested_fees t) False s1) (\<lambda>s2.
       modify_stats st (\<lambda>t'.
         bind (safe_add F (pending_fees t) (pending_vested_fees t)) (\<lambda>paid.
         bind (safe_add F (lifetime_fees_paid t') paid) (\<lambda>v.
         Inr (t'\<lparr>lifetime_fees_paid := v, pending_fees := 0, pending_vested_fees := 0\<rparr>)))) s2))
     else Inr s)"

text \<open>The fee helper of the maintenance: the fees of every account of a list, in order.\<close>

definition process_account_fees :: "fc_lib \<Rightarrow> nat \<Rightarrow> database \<Rightarrow> database result" where
  "process_account_fees F i s =
     bind (index_get (accounts s) i) (\<lambda>acct. process_fees F (statistics acct) i s)"

section \<open>The shares of a fee\<close>

definition fee_percentages_ok :: "account_object \<Rightarrow> bool" where
  "fee_percentages_ok acct \<longleftrightarrow>
     uint (network_fee_percentage acct) + uint (lifetime_referrer_fee_percentage acct) \<le> GRAPHENE_100_PERCENT \<and>
     uint (referrer_rewards_percentage acct) \<le> GRAPHENE_100_PERCENT"

lemma div_add_le: "0 < c \<Longrightarrow> a div c + b div c \<le> (a + b) div (c :: int)"
  by (subst div_add1_eq) (simp add: pos_imp_zdiv_nonneg_iff)

context fc_laws
begin

lemma cut_fee_exact:
  assumes "0 \<le> a" "a < 2 ^ 63" "uint p \<le> GRAPHENE_100_PERCENT"
  shows "cut_fee F a p = Inr (a * uint p div GRAPHENE_100_PERCENT)"
    and "0 \<le> a * uint p div GRAPHENE_100_PERCENT" "a * uint p div GRAPHENE_100_PERCENT \<le> a"
proof -
  have c: "(0 :: int) < GRAPHENE_100_PERCENT" "GRAPHENE_100_PERCENT < 2 ^ 64" by (simp_all add: GRAPHENE_100_PERCENT_def)
  show le: "a * uint p div GRAPHENE_100_PERCENT \<le> a" using assms c by (intro muldiv_le) simp_all
  show nn: "0 \<le> a * uint p div GRAPHENE_100_PERCENT" using assms c by (intro muldiv_nonneg) simp_all
  have u: "uint (u128_muldiv a (uint p) GRAPHENE_100_PERCENT) = a * uint p div GRAPHENE_100_PERCENT"
    using assms c uint_lt2p [of p] by (intro uint_u128_muldiv_int64) simp_all
  have "to_share F (u128_muldiv a (uint p) GRAPHENE_100_PERCENT) = Inr (a * uint p div GRAPHENE_100_PERCENT)"
    using to_share_small [of "u128_muldiv a (uint p) GRAPHENE_100_PERCENT"] u le assms(2) by simp
  moreover have "uint p = 0" if "p = 0" using that by simp
  ultimately show "cut_fee F a p = Inr (a * uint p div GRAPHENE_100_PERCENT)"
    using c by (auto simp: cut_fee_def)
qed

lemma split_fee_sum:
  "split_fee F acct x = Inr sh \<Longrightarrow> network_cut sh + lifetime_cut sh + referrer_cut sh + registrar_cut sh = x"
  by (auto simp: split_fee_def ok_simps safe_Inr)

lemma split_fee_succeeds:
  assumes "fee_percentages_ok acct" "0 \<le> x" "x < 2 ^ 63"
  shows "\<exists>sh. split_fee F acct x = Inr sh \<and> network_cut sh = x * uint (network_fee_percentage acct) div GRAPHENE_100_PERCENT \<and>
    lifetime_cut sh = x * uint (lifetime_referrer_fee_percentage acct) div GRAPHENE_100_PERCENT \<and>
    0 \<le> network_cut sh \<and> 0 \<le> lifetime_cut sh \<and> 0 \<le> referrer_cut sh \<and> 0 \<le> registrar_cut sh"
proof -
  let ?n = "x * uint (network_fee_percentage acct) div GRAPHENE_100_PERCENT"
  let ?l = "x * uint (lifetime_referrer_fee_percentage acct) div GRAPHENE_100_PERCENT"
  have c: "(0 :: int) < GRAPHENE_100_PERCENT" by (simp add: GRAPHENE_100_PERCENT_def)
  have p: "uint (network_fee_percentage acct) \<le> GRAPHENE_100_PERCENT" "uint (lifetime_referrer_fee_percentage acct) \<le> GRAPHENE_100_PERCENT"
    "uint (referrer_rewards_percentage acct) \<le> GRAPHENE_100_PERCENT"
    using assms(1) uint_ge_0 [of "network_fee_percentage acct"] uint_ge_0 [of "lifetime_referrer_fee_percentage acct"]
    unfolding fee_percentages_ok_def by linarith+
  note n = cut_fee_exact [OF assms(2,3) p(1)] and l = cut_fee_exact [OF assms(2,3) p(2)]
  have "?n + ?l \<le> (x * uint (network_fee_percentage acct) + x * uint (lifetime_referrer_fee_percentage acct)) div GRAPHENE_100_PERCENT"
    by (rule div_add_le [OF c])
  also have "\<dots> \<le> x" using muldiv_le [OF assms(2) _ _ c, of "uint (network_fee_percentage acct) + uint (lifetime_referrer_fee_percentage acct)"] assms(1)
    by (simp add: distrib_left fee_percentages_ok_def)
  finally have sum: "0 \<le> x - ?n - ?l" by simp
  have small: "x - ?n - ?l < 2 ^ 63" using n(2) l(2) assms(3) by linarith
  note r = cut_fee_exact [OF sum small p(3)]
  have "in_int64 (x - ?n)" "in_int64 (x - ?n - ?l)"
    "in_int64 (x - ?n - ?l - (x - ?n - ?l) * uint (referrer_rewards_percentage acct) div GRAPHENE_100_PERCENT)"
    unfolding in_int64_def using n(2,3) l(2) r(2,3) sum assms(2,3) by linarith+
  then show ?thesis using n(1,2) l(1,2) r by (simp add: split_fee_def)
qed

end

section \<open>Payments keep the ledger\<close>

text \<open>What a payment leaves alone.\<close>

definition payout_frame :: "database \<Rightarrow> database \<Rightarrow> bool" where
  "payout_frame s s' \<longleftrightarrow> (\<exists>t u v. s' = s\<lparr>accounts := t, asset_dyn := u, vesting_balances := v\<rparr>)"

lemma payout_frame_put:
  "payout_frame s (put_accounts t s)" "payout_frame s (put_asset_dyn u s)" "payout_frame s (put_vesting_balances v s)" "payout_frame s s"
  unfolding payout_frame_def
  by (rule exI [of _ t], rule exI [of _ "asset_dyn s"], rule exI [of _ "vesting_balances s"], simp)
    (rule exI [of _ "accounts s"], rule exI [of _ u], rule exI [of _ "vesting_balances s"], simp,
     rule exI [of _ "accounts s"], rule exI [of _ "asset_dyn s"], rule exI [of _ v], simp,
     rule exI [of _ "accounts s"], rule exI [of _ "asset_dyn s"], rule exI [of _ "vesting_balances s"], simp)

lemma payout_frame_trans: "payout_frame s t \<Longrightarrow> payout_frame t u \<Longrightarrow> payout_frame s u"
  unfolding payout_frame_def by fastforce

lemma payout_frame_same:
  "payout_frame s s' \<Longrightarrow> stats s' = stats s \<and> balances s' = balances s \<and> balances_nonneg s' = balances_nonneg s \<and> assets s' = assets s \<and>
     dgp s' = dgp s \<and> parameters s' = parameters s \<and> dyn_id s' = dyn_id s \<and> witnesses s' = witnesses s \<and> active_witnesses s' = active_witnesses s"
  unfolding payout_frame_def by force

definition paid_witness :: "database \<Rightarrow> database \<Rightarrow> bool" where
  "paid_witness s s' \<longleftrightarrow> stats s' = stats s \<and> balances s' = balances s \<and> balances_nonneg s' = balances_nonneg s \<and> assets s' = assets s \<and>
     dgp s' = dgp s \<and> parameters s' = parameters s \<and> active_witnesses s' = active_witnesses s"

definition pays_core :: "int \<Rightarrow> database \<Rightarrow> database \<Rightarrow> bool" where
  "pays_core x s s' \<longleftrightarrow> chain_inv s' \<and> payout_frame s s' \<and> (\<forall>a. ledger a s' = ledger a s + core_in a x)"

lemma pays_core_refl: "chain_inv s \<Longrightarrow> pays_core 0 s s"
  by (simp add: pays_core_def payout_frame_put core_in_def)

lemma pays_core_trans: "pays_core x s t \<Longrightarrow> pays_core y t u \<Longrightarrow> pays_core (x + y) s u"
  unfolding pays_core_def using payout_frame_trans by (auto simp: core_in_def)

lemma modify_account_pays:
  assumes "chain_inv s" "modify_account i f s = Inr s'"
  shows "pays_core 0 s s'"
  using acc_tab.modify_step [OF assms] by (auto simp: pays_core_def payout_frame_put core_in_def)

context fc_laws
begin

lemma vb_deposit_in:
  assumes "vb_deposit F v now x = Inr v' \<or> vb_deposit_vested F v now x = Inr v'"
  shows "vesting_in a v' = vesting_in a v + asset_in a x"
  using assms by (auto simp: vb_deposit_def vb_deposit_vested_def Let_def ok_simps asset_add_Inr vesting_in_def asset_in_def split: vesting_policy.splits)

lemma create_lazy_vesting_pays:
  assumes "chain_inv s" "create_lazy_vesting x sec i req s = Inr (s', r)"
  shows "pays_core x s s'"
proof -
  obtain k where "table_create vesting_balances put_vesting_balances no_clash (new_cashback_balance x sec i req (head_block_time s)) s = Inr (s', k)"
    using assms(2) by (auto simp: create_lazy_vesting_def ok_simps)
  from vest_tab.create_step [OF assms(1) this] show ?thesis
    by (auto simp: pays_core_def payout_frame_put core_in_def vesting_in_def asset_in_def new_cashback_balance_def)
qed

lemma deposit_lazy_vesting_pays:
  assumes inv: "chain_inv s" and ok: "deposit_lazy_vesting F ov x sec i req s = Inr (s', r)"
  shows "pays_core x s s'"
proof (cases "x = 0 \<or> create_lazy_vesting x sec i req s = Inr (s', r)")
  case True
  then show ?thesis using assms create_lazy_vesting_pays [OF inv] by (auto simp: deposit_lazy_vesting_def pays_core_refl)
next
  case False
  define f where "f = (\<lambda>v. if req then vb_deposit F v (head_block_time s) (mk_asset x 0) else vb_deposit_vested F v (head_block_time s) (mk_asset x 0))"
  obtain k where m: "modify_vesting_balance k f s = Inr s'"
    using ok False by (auto simp: deposit_lazy_vesting_def f_def ok_simps split: option.splits if_splits)
  have "vesting_in a v' = vesting_in a v + core_in a x" if "f v = Inr v'" for a v v'
    using vb_deposit_in [of v "head_block_time s" "mk_asset x 0" v'] that by (auto simp: f_def asset_in_def core_in_def split: if_splits)
  then show ?thesis using vest_tab.modify_step [OF inv m] by (auto simp: pays_core_def payout_frame_put)
qed

lemma deposit_cashback_pays:
  assumes inv: "chain_inv s" and ok: "deposit_cashback F i x req s = Inr s'"
  shows "pays_core x s s'"
proof -
  obtain acct where acct: "index_find (accounts s) i = Some acct" using ok by (auto simp: deposit_cashback_def ok_simps index_get_def)
  consider (zero) "x = 0" "s' = s"
    | (reserve) core where "index_find (assets s) 0 = Some core"
        "modify_asset_dyn (dynamic_asset_data_id core) (\<lambda>d. bind (safe_sub F (current_supply d) x) (\<lambda>v. Inr (d\<lparr>current_supply := v\<rparr>))) s = Inr s'"
    | (vesting) s1 r where "deposit_lazy_vesting F (cashback_vb acct) x (cashback_vesting_period_seconds (parameters s)) i req s = Inr (s1, r)"
        "s' = s1 \<or> (\<exists>v. modify_account i (\<lambda>a. Inr (a\<lparr>cashback_vb := Some v\<rparr>)) s1 = Inr s')"
    using ok acct by (auto simp: deposit_cashback_def ok_simps index_get_def split: if_splits option.splits) blast+
  then show ?thesis
  proof cases
    case zero
    then show ?thesis using pays_core_refl [OF inv] by simp
  next
    case reserve
    have d: "dyn_id s a = Some (dynamic_asset_data_id core) \<longleftrightarrow> 0 = a" for a
      using dyn_id_inj [OF inv, of 0] reserve(1) by (simp add: dyn_id_def)
    show ?thesis using modify_asset_dyn_step [OF inv reserve(2)]
      by (auto simp: pays_core_def payout_frame_put ok_simps safe_Inr d net_def core_in_def fee_pool_in_def)
  next
    case vesting
    have p: "pays_core x s s1" using deposit_lazy_vesting_pays [OF inv vesting(1)] .
    then have "chain_inv s1" by (simp add: pays_core_def)
    then have "pays_core 0 s1 s'" using vesting(2) modify_account_pays pays_core_refl by blast
    then show ?thesis using pays_core_trans [OF p] by fastforce
  qed
qed

lemma deposit_witness_pay_step:
  assumes inv: "chain_inv s" and ok: "deposit_witness_pay F i x s = Inr s'"
  shows "chain_inv s' \<and> (\<forall>a. ledger a s' = ledger a s + core_in a x) \<and> paid_witness s s'"
proof -
  obtain wit where wit: "index_find (witnesses s) i = Some wit" using ok by (auto simp: deposit_witness_pay_def ok_simps index_get_def)
  consider (zero) "x = 0" "s' = s"
    | (vesting) s1 r where
        "deposit_lazy_vesting F (pay_vb wit) x (witness_pay_vesting_seconds (parameters s)) (witness_account wit) True s = Inr (s1, r)"
        "s' = s1 \<or> (\<exists>v. modify_witness i (\<lambda>w. Inr (w\<lparr>pay_vb := Some v\<rparr>)) s1 = Inr s')"
    using ok wit by (auto simp: deposit_witness_pay_def ok_simps index_get_def split: if_splits option.splits)
  then show ?thesis
  proof cases
    case zero
    then show ?thesis using inv by (simp add: core_in_def paid_witness_def)
  next
    case vesting
    have p: "pays_core x s s1" using deposit_lazy_vesting_pays [OF inv vesting(1)] .
    then have c: "chain_inv s1" "\<forall>a. ledger a s1 = ledger a s + core_in a x" "paid_witness s s1"
      using payout_frame_same by (auto simp: pays_core_def paid_witness_def)
    from vesting(2) show ?thesis
    proof
      assume "\<exists>v. modify_witness i (\<lambda>w. Inr (w\<lparr>pay_vb := Some v\<rparr>)) s1 = Inr s'"
      then show ?thesis using witness_tab.modify_step [OF c(1)] c by (fastforce simp: paid_witness_def)
    qed (use c in simp)
  qed
qed

lemma refresh_referrer_pays:
  assumes "chain_inv s" "refresh_referrer i s = Inr s'"
  shows "pays_core 0 s s'"
  using assms modify_account_pays pays_core_refl by (fastforce simp: refresh_referrer_def ok_simps split: if_splits)

lemma pay_out_fees_pays:
  assumes inv: "chain_inv s" and ok: "pay_out_fees F i x req s = Inr s'"
  shows "pays_core x s s'"
proof -
  obtain s1 acct sh s2 s3 s4 where s1: "refresh_referrer i s = Inr s1" and sh: "split_fee F acct x = Inr sh"
    and s2: "modify_asset_dyn 0 (\<lambda>d. bind (safe_add F (accumulated_fees d) (network_cut sh)) (\<lambda>v. Inr (d\<lparr>accumulated_fees := v\<rparr>))) s1 = Inr s2"
    and s3: "deposit_cashback F (lifetime_referrer acct) (lifetime_cut sh) req s2 = Inr s3"
    and s4: "deposit_cashback F (referrer acct) (referrer_cut sh) req s3 = Inr s4"
    and s': "deposit_cashback F (registrar acct) (registrar_cut sh) req s4 = Inr s'"
    using ok by (auto simp: pay_out_fees_def ok_simps)
  have p1: "pays_core 0 s s1" using refresh_referrer_pays [OF inv s1] .
  then have i1: "chain_inv s1" by (simp add: pays_core_def)
  have d: "dyn_id s1 a = Some 0 \<longleftrightarrow> 0 = a" for a
    using dyn_id_inj [OF i1, of 0 0 a] i1 unfolding chain_inv_def by blast
  have p2: "pays_core (network_cut sh) s1 s2" using modify_asset_dyn_step [OF i1 s2]
    by (auto simp: pays_core_def payout_frame_put ok_simps safe_Inr d net_def core_in_def fee_pool_in_def)
  then have p3: "pays_core (lifetime_cut sh) s2 s3" using deposit_cashback_pays [OF _ s3] by (simp add: pays_core_def)
  then have p4: "pays_core (referrer_cut sh) s3 s4" using deposit_cashback_pays [OF _ s4] by (simp add: pays_core_def)
  then have p5: "pays_core (registrar_cut sh) s4 s'" using deposit_cashback_pays [OF _ s'] by (simp add: pays_core_def)
  have "pays_core (0 + network_cut sh + lifetime_cut sh + referrer_cut sh + registrar_cut sh) s s'"
    by (rule pays_core_trans [OF pays_core_trans [OF pays_core_trans [OF pays_core_trans [OF p1 p2] p3] p4] p5])
  then show ?thesis using split_fee_sum [OF sh] by simp
qed

end

section \<open>What the network keeps\<close>

definition core_accumulated :: "database \<Rightarrow> int" where
  "core_accumulated s = (case index_find (asset_dyn s) 0 of None \<Rightarrow> 0 | Some d \<Rightarrow> accumulated_fees d)"

lemma core_accumulated_frame [simp]:
  "core_accumulated (put_accounts t s) = core_accumulated s" "core_accumulated (put_vesting_balances v s) = core_accumulated s"
  "core_accumulated (put_stats u s) = core_accumulated s"
  by (simp_all add: core_accumulated_def)

definition network_percentage :: "database \<Rightarrow> nat \<rightharpoonup> u16" where
  "network_percentage s i = map_option network_fee_percentage (index_find (accounts s) i)"

lemma network_percentage_frame [simp]:
  "network_percentage (put_asset_dyn t s) = network_percentage s" "network_percentage (put_vesting_balances v s) = network_percentage s"
  "network_percentage (put_stats u s) = network_percentage s"
  by (simp_all add: network_percentage_def fun_eq_iff)

lemma modify_account_keeps:
  assumes "chain_inv s" "modify_account i (\<lambda>a. Inr (f a)) s = Inr s'" "\<And>a. network_fee_percentage (f a) = network_fee_percentage a"
  shows "network_percentage s' = network_percentage s \<and> core_accumulated s' = core_accumulated s"
  using acc_tab.modify_step [OF assms(1,2)] assms(3) by (auto simp: network_percentage_def fun_eq_iff core_accumulated_def)

lemma refresh_referrer_keeps:
  assumes "chain_inv s" "refresh_referrer i s = Inr s'"
  shows "network_percentage s' = network_percentage s \<and> core_accumulated s' = core_accumulated s"
  using assms(2) modify_account_keeps [OF assms(1), of i "\<lambda>a. a\<lparr>referrer := lifetime_referrer a\<rparr>" s']
  by (auto simp: refresh_referrer_def ok_simps split: if_splits)

context fc_laws
begin

lemma deposit_lazy_vesting_keeps:
  "deposit_lazy_vesting F ov x sec i req s = Inr (s', r) \<Longrightarrow>
   network_percentage s' = network_percentage s \<and> core_accumulated s' = core_accumulated s"
  by (auto simp: deposit_lazy_vesting_def create_lazy_vesting_def table_create_def table_modify_def ok_simps split: if_splits option.splits)

lemma deposit_cashback_keeps:
  assumes inv: "chain_inv s" and ok: "deposit_cashback F i x req s = Inr s'"
  shows "network_percentage s' = network_percentage s \<and> core_accumulated s' = core_accumulated s"
proof (cases "x \<noteq> 0 \<and> blockchain_account i")
  case True
  then obtain core :: asset_object where
    "modify_asset_dyn (dynamic_asset_data_id core) (\<lambda>d. bind (safe_sub F (current_supply d) x) (\<lambda>v. Inr (d\<lparr>current_supply := v\<rparr>))) s = Inr s'"
    using ok by (auto simp: deposit_cashback_def ok_simps)
  from modify_asset_dyn_step [OF inv this] show ?thesis
    by (auto simp: core_accumulated_def ok_simps split: if_splits option.splits)
next
  case False
  then obtain acct where "index_find (accounts s) i = Some acct" and "s' = s \<or>
      (\<exists>s1 r. deposit_lazy_vesting F (cashback_vb acct) x (cashback_vesting_period_seconds (parameters s)) i req s = Inr (s1, r) \<and>
        (s' = s1 \<or> (\<exists>v. modify_account i (\<lambda>a. Inr (a\<lparr>cashback_vb := Some v\<rparr>)) s1 = Inr s')))"
    using ok by (auto simp: deposit_cashback_def ok_simps index_get_def split: if_splits option.splits)
  then consider "s' = s"
    | (vesting) s1 r where "deposit_lazy_vesting F (cashback_vb acct) x (cashback_vesting_period_seconds (parameters s)) i req s = Inr (s1, r)"
        "s' = s1 \<or> (\<exists>v. modify_account i (\<lambda>a. Inr (a\<lparr>cashback_vb := Some v\<rparr>)) s1 = Inr s')" by blast
  then show ?thesis
  proof cases
    case vesting
    have "chain_inv s1" using deposit_lazy_vesting_pays [OF inv vesting(1)] by (simp add: pays_core_def)
    then have "network_percentage s' = network_percentage s1 \<and> core_accumulated s' = core_accumulated s1"
      using vesting(2) modify_account_keeps [of s1 i] by fastforce
    then show ?thesis using deposit_lazy_vesting_keeps [OF vesting(1)] by simp
  qed simp
qed

lemma pay_out_fees_network:
  assumes inv: "chain_inv s" and ok: "pay_out_fees F i x req s = Inr s'"
    and p: "network_percentage s i = Some p" "uint p \<le> GRAPHENE_100_PERCENT" and x: "0 \<le> x" "x < 2 ^ 63"
  shows "network_percentage s' = network_percentage s \<and>
    core_accumulated s' = core_accumulated s + x * uint p div GRAPHENE_100_PERCENT"
proof -
  obtain s1 acct sh s2 s3 s4 where s1: "refresh_referrer i s = Inr s1" and acct: "index_find (accounts s1) i = Some acct"
    and sh: "split_fee F acct x = Inr sh"
    and s2: "modify_asset_dyn 0 (\<lambda>d. bind (safe_add F (accumulated_fees d) (network_cut sh)) (\<lambda>v. Inr (d\<lparr>accumulated_fees := v\<rparr>))) s1 = Inr s2"
    and s3: "deposit_cashback F (lifetime_referrer acct) (lifetime_cut sh) req s2 = Inr s3"
    and s4: "deposit_cashback F (referrer acct) (referrer_cut sh) req s3 = Inr s4"
    and s': "deposit_cashback F (registrar acct) (registrar_cut sh) req s4 = Inr s'"
    using ok by (auto simp: pay_out_fees_def ok_simps index_get_def)
  note k1 = refresh_referrer_keeps [OF inv s1]
  have i1: "chain_inv s1" using refresh_referrer_pays [OF inv s1] by (simp add: pays_core_def)
  have "network_percentage s1 i = Some p" using k1 p(1) by simp
  then have "network_fee_percentage acct = p" using acct by (simp add: network_percentage_def)
  then have n: "network_cut sh = x * uint p div GRAPHENE_100_PERCENT"
    using sh cut_fee_exact(1) [OF x p(2)] by (auto simp: split_fee_def ok_simps)
  have k2: "chain_inv s2 \<and> network_percentage s2 = network_percentage s1 \<and> core_accumulated s2 = core_accumulated s1 + network_cut sh"
    using modify_asset_dyn_step [OF i1 s2] by (auto simp: core_accumulated_def ok_simps safe_Inr)
  then have k3: "chain_inv s3 \<and> network_percentage s3 = network_percentage s2 \<and> core_accumulated s3 = core_accumulated s2"
    using deposit_cashback_keeps [OF _ s3] deposit_cashback_pays [OF _ s3] by (simp add: pays_core_def)
  then have k4: "chain_inv s4 \<and> network_percentage s4 = network_percentage s3 \<and> core_accumulated s4 = core_accumulated s3"
    using deposit_cashback_keeps [OF _ s4] deposit_cashback_pays [OF _ s4] by (simp add: pays_core_def)
  then show ?thesis using deposit_cashback_keeps [OF _ s'] k1 k2 k3 n by simp
qed

end

section \<open>Properties\<close>

text \<open>
  C22. Processing the fees of an account neither loses nor makes core: what it had pending is paid out in full, the network keeps its
  percentage of each part in the accumulated fees of the core asset, the rest becomes vesting balances or goes back to the reserve,
  nothing stays pending, the lifetime total grows by exactly what was paid, and the spendable balances are untouched.
\<close>

theorem process_fees_exact:
  assumes F: "fc_laws F" and inv: "chain_inv s" and ok: "process_fees F st i s = Inr s'"
    and t: "index_find (stats s) st = Some t" and pos: "0 \<le> pending_fees t" "pending_fees t < 2 ^ 63" "0 \<le> pending_vested_fees t" "pending_vested_fees t < 2 ^ 63"
    and p: "network_percentage s i = Some p" "uint p \<le> GRAPHENE_100_PERCENT"
  shows "chain_inv s' \<and> (\<forall>a. ledger a s' = ledger a s) \<and> balances s' = balances s \<and>
    core_accumulated s' = core_accumulated s + pending_fees t * uint p div GRAPHENE_100_PERCENT + pending_vested_fees t * uint p div GRAPHENE_100_PERCENT \<and>
    index_find (stats s') = (index_find (stats s))(st \<mapsto>
      t\<lparr>lifetime_fees_paid := lifetime_fees_paid t + pending_fees t + pending_vested_fees t, pending_fees := 0, pending_vested_fees := 0\<rparr>)"
proof (cases "pending_fees t > 0 \<or> pending_vested_fees t > 0")
  case False
  then have z: "pending_fees t = 0" "pending_vested_fees t = 0" using pos by simp_all
  then have "s' = s" using ok t by (simp add: process_fees_def index_get_def)
  moreover have "t\<lparr>pending_fees := 0, pending_vested_fees := 0\<rparr> = t" using z by (cases t) simp
  ultimately show ?thesis using z inv t by (auto simp: fun_eq_iff)
next
  case True
  obtain s1 s2 where s1: "pay_out_fees F i (pending_fees t) True s = Inr s1"
    and s2: "pay_out_fees F i (pending_vested_fees t) False s1 = Inr s2"
    and s3: "modify_stats st (\<lambda>t'. bind (safe_add F (pending_fees t) (pending_vested_fees t)) (\<lambda>paid.
         bind (safe_add F (lifetime_fees_paid t') paid) (\<lambda>v.
         Inr (t'\<lparr>lifetime_fees_paid := v, pending_fees := 0, pending_vested_fees := 0\<rparr>)))) s2 = Inr s'"
    using ok t True by (auto simp: process_fees_def index_get_def ok_simps)
  note p1 = fc_laws.pay_out_fees_pays [OF F inv s1]
  have i1: "chain_inv s1" using p1 by (simp add: pays_core_def)
  note p2 = fc_laws.pay_out_fees_pays [OF F i1 s2]
  have i2: "chain_inv s2" using p2 by (simp add: pays_core_def)
  have fr: "stats s2 = stats s" "balances s2 = balances s" using p1 p2 payout_frame_same by (fastforce simp: pays_core_def)+
  note n1 = fc_laws.pay_out_fees_network [OF F inv s1 p pos(1,2)]
  note n2 = fc_laws.pay_out_fees_network [OF F i1 s2 _ p(2) pos(3,4)]
  note m = stat_tab.modify_step [OF i2 s3]
  have l: "ledger a s2 = ledger a s + core_in a (pending_fees t + pending_vested_fees t)" for a
    using p1 p2 by (auto simp: pays_core_def core_in_def)
  show ?thesis using m fr t n1 n2 p(1) l
    by (auto simp: ok_simps fc_laws.safe_Inr [OF F] pending_in_def core_in_def)
qed

definition demo_fees_due :: database where
  "demo_fees_due = put_stats \<lparr> next_id = 3, rows = [(0, demo_stats 5), (2, (demo_stats 6)\<lparr>pending_fees := 150, pending_vested_fees := 50\<rparr>)] \<rparr> demo_chain"

lemma demo_fees_due_inv: "chain_inv demo_fees_due"
  unfolding demo_fees_due_def
  by (rule stat_tab.inv_put [OF demo_chain_inv]) (simp_all add: index_inv_def sorted_rows_def rows_ok_def)

lemma demo_fees_due_run: "case process_fees fc_int64 2 6 demo_fees_due of Inl e \<Rightarrow> False | Inr s' \<Rightarrow> True"
  by code_simp

theorem process_fees_exact_witness:
  "\<exists>s'. process_fees fc_int64 2 6 demo_fees_due = Inr s' \<and> chain_inv s' \<and> ledger 0 s' = ledger 0 demo_fees_due \<and>
     core_accumulated s' = core_accumulated demo_fees_due + 40"
proof -
  obtain s' where ok: "process_fees fc_int64 2 6 demo_fees_due = Inr s'"
    using demo_fees_due_run by (cases "process_fees fc_int64 2 6 demo_fees_due") auto
  have "index_find (stats demo_fees_due) 2 = Some ((demo_stats 6)\<lparr>pending_fees := 150, pending_vested_fees := 50\<rparr>)"
    "network_percentage demo_fees_due 6 = Some 2000"
    by (simp_all add: demo_fees_due_def index_find_def network_percentage_def demo_chain_def demo_account_def)
  from process_fees_exact [OF fc64.fc_laws_axioms demo_fees_due_inv ok this(1) _ _ _ _ this(2)] ok show ?thesis
    by (simp add: GRAPHENE_100_PERCENT_def)
qed

text \<open>
  The shares of a fee always add up to the fee and none is negative, provided the percentages of the account are percentages; then
  the computation never throws.
\<close>

theorem fee_shares_add_up:
  assumes "fc_laws F" "fee_percentages_ok acct" "0 \<le> x" "x < 2 ^ 63"
  shows "\<exists>sh. split_fee F acct x = Inr sh \<and> network_cut sh + lifetime_cut sh + referrer_cut sh + registrar_cut sh = x \<and>
    0 \<le> network_cut sh \<and> 0 \<le> lifetime_cut sh \<and> 0 \<le> referrer_cut sh \<and> 0 \<le> registrar_cut sh"
  using fc_laws.split_fee_succeeds [OF assms] fc_laws.split_fee_sum [OF assms(1)] by blast

theorem fee_shares_add_up_witness:
  "\<exists>sh. split_fee fc_int64 (demo_account ''bob'' 2) 999 = Inr sh \<and> network_cut sh + lifetime_cut sh + referrer_cut sh + registrar_cut sh = 999"
proof -
  have "fee_percentages_ok (demo_account ''bob'' 2)" by (simp add: fee_percentages_ok_def demo_account_def GRAPHENE_100_PERCENT_def)
  from fee_shares_add_up [OF fc64.fc_laws_axioms this, of 999] show ?thesis by auto
qed

end
