(* ===== verification/Budget.thy ===== *)
theory Budget
  imports Fee_Distribution
begin

text \<open>
  The money the maintenance hands out (db_maint.cpp, worker_evaluator.cpp, fba_object.cpp): the budget of the witnesses and workers, which
  comes from the reserve of the core asset, the pay of the workers in the order of their votes, and the fees accumulated for
  fee backed assets.

  Differences of times are counted in microseconds where the source does; 128-bit products wrap as \<^verbatim>\<open>fc::uint128\<close> does.
\<close>

section \<open>Workers\<close>

definition modify_core_supply :: "(share_type \<Rightarrow> share_type result) \<Rightarrow> database \<Rightarrow> database result" where
  "modify_core_supply f s =
     bind (index_get (assets s) 0) (\<lambda>core.
     modify_asset_dyn (dynamic_asset_data_id core) (\<lambda>d. bind (f (current_supply d)) (\<lambda>v. Inr (d\<lparr>current_supply := v\<rparr>))) s)"

fun pay_worker :: "fc_lib \<Rightarrow> share_type \<Rightarrow> worker_type \<Rightarrow> database \<Rightarrow> (worker_type \<times> database) result" where
  "pay_worker F pay (Refund_Worker total_burned) s =
     bind (safe_add F total_burned pay) (\<lambda>t.
     bind (modify_core_supply (\<lambda>v. safe_sub F v pay) s) (\<lambda>s'. Inr (Refund_Worker t, s')))"
| "pay_worker F pay (Vesting_Balance_Worker b) s =
     bind (modify_vesting_balance b (\<lambda>vb. vb_deposit F vb (head_block_time s) (mk_asset pay 0)) s) (\<lambda>s'.
     Inr (Vesting_Balance_Worker b, s'))"
| "pay_worker F pay (Burn_Worker total_burned) s =
     bind (safe_add F total_burned pay) (\<lambda>t.
     bind (adjust_balance F GRAPHENE_NULL_ACCOUNT (mk_asset pay 0) s) (\<lambda>s'. Inr (Burn_Worker t, s')))"

definition worker_is_active :: "worker_object \<Rightarrow> time_point_sec \<Rightarrow> bool" where
  "worker_is_active w now \<longleftrightarrow> now \<ge> work_begin_date w \<and> now \<le> work_end_date w"

definition approving_stake :: "worker_object \<Rightarrow> share_type" where
  "approving_stake w = sint (total_votes_for w - total_votes_against w)"

definition worker_before :: "nat \<times> worker_object \<Rightarrow> nat \<times> worker_object \<Rightarrow> bool" where
  "worker_before x y \<longleftrightarrow>
     (if approving_stake (snd x) \<noteq> approving_stake (snd y) then approving_stake (snd x) > approving_stake (snd y) else fst x < fst y)"

definition active_workers :: "database \<Rightarrow> nat list" where
  "active_workers s = map fst (sort_by worker_before
     (filter (\<lambda>(i, w). worker_is_active w (head_block_time s) \<and> approving_stake w > 0) (rows (workers s))))"

text \<open>The pay of a worker for the time since the last budget, in microseconds.\<close>

definition microseconds_between :: "time_point_sec \<Rightarrow> time_point_sec \<Rightarrow> int" where
  "microseconds_between later earlier = (uint later - uint earlier) * 1000000"

definition one_day :: int where "one_day = 86400 * 1000000"

definition requested_pay :: "fc_lib \<Rightarrow> share_type \<Rightarrow> database \<Rightarrow> share_type result" where
  "requested_pay F daily s =
     (let dt = microseconds_between (head_block_time s) (last_budget_time (dgp s)) in
      if dt \<noteq> one_day then to_share F (u128_muldiv daily dt one_day) else Inr daily)"

fun pay_workers_loop :: "fc_lib \<Rightarrow> nat list \<Rightarrow> share_type \<Rightarrow> database \<Rightarrow> (share_type \<times> database) result" where
  "pay_workers_loop F [] budget s = Inr (budget, s)"
| "pay_workers_loop F (i # is) budget s =
     (if budget > 0 then
        bind (index_get (workers s) i) (\<lambda>w.
        bind (requested_pay F (daily_pay w) s) (\<lambda>requested.
        let actual_pay = min budget requested in
        bind (pay_worker F actual_pay (worker w) s) (\<lambda>(wt, s1).
        bind (modify_worker i (\<lambda>w. Inr (w\<lparr>worker := wt\<rparr>)) s1) (\<lambda>s2.
        bind (safe_sub F budget actual_pay) (\<lambda>rest.
        pay_workers_loop F is rest s2)))))
      else Inr (budget, s))"

definition pay_workers :: "fc_lib \<Rightarrow> share_type \<Rightarrow> database \<Rightarrow> (share_type \<times> database) result" where
  "pay_workers F budget s = pay_workers_loop F (active_workers s) budget s"

section \<open>The budget\<close>

definition GRAPHENE_CORE_ASSET_CYCLE_RATE :: int where "GRAPHENE_CORE_ASSET_CYCLE_RATE = 17"
definition GRAPHENE_CORE_ASSET_CYCLE_RATE_BITS :: nat where "GRAPHENE_CORE_ASSET_CYCLE_RATE_BITS = 32"

definition empty_budget_record :: budget_record where
  "empty_budget_record = \<lparr> time_since_last_budget = 0, from_initial_reserve = 0, from_accumulated_fees = 0,
     from_unused_witness_budget = 0, requested_witness_budget = 0, total_budget = 0, rec_witness_budget = 0, worker_budget = 0,
     leftover_worker_funds = 0, supply_delta = 0 \<rparr>"

text \<open>\<^verbatim>\<open>asset_object::reserved\<close>.\<close>

definition reserved :: "fc_lib \<Rightarrow> asset_object \<Rightarrow> asset_dynamic_data_object \<Rightarrow> share_type result" where
  "reserved F a d = safe_sub F (max_supply (options a)) (current_supply d)"

definition reserve_share :: "share_type \<Rightarrow> int \<Rightarrow> u128" where
  "reserve_share reserve dt =
     drop_bit GRAPHENE_CORE_ASSET_CYCLE_RATE_BITS
       (word_of_int reserve * word_of_int dt * word_of_int GRAPHENE_CORE_ASSET_CYCLE_RATE + (2 ^ GRAPHENE_CORE_ASSET_CYCLE_RATE_BITS - 1))"

definition initialize_budget_record :: "fc_lib \<Rightarrow> time_point_sec \<Rightarrow> database \<Rightarrow> budget_record result" where
  "initialize_budget_record F now s =
     bind (index_get (assets s) 0) (\<lambda>core.
     bind (index_get (asset_dyn s) (dynamic_asset_data_id core)) (\<lambda>core_dd.
     bind (reserved F core core_dd) (\<lambda>initial.
     let dpo = dgp s;
         rec = empty_budget_record\<lparr>from_initial_reserve := initial, from_accumulated_fees := accumulated_fees core_dd,
           from_unused_witness_budget := witness_budget dpo\<rparr> in
     if last_budget_time dpo = 0 \<or> now \<le> last_budget_time dpo then Inr rec
     else
       let dt = uint now - uint (last_budget_time dpo) in
       bind (safe_add F initial (accumulated_fees core_dd)) (\<lambda>r1.
       bind (safe_add F r1 (witness_budget dpo)) (\<lambda>reserve.
       bind (if reserve_share reserve dt < word_of_int reserve then to_share F (reserve_share reserve dt) else Inr reserve) (\<lambda>budget.
       Inr (rec\<lparr>time_since_last_budget := word_of_int dt, total_budget := budget\<rparr>)))))))"

definition blocks_to_maintenance :: "chain_parameters \<Rightarrow> int \<Rightarrow> u64 result" where
  "blocks_to_maintenance p time_to_maint =
     (if block_interval p = 0 then Inl (Chain_Exception ''division by zero'')
      else Inr ((word_of_int time_to_maint + ucast (block_interval p) - 1) div ucast (block_interval p)))"

definition worker_budget_of :: "fc_lib \<Rightarrow> share_type \<Rightarrow> int \<Rightarrow> share_type \<Rightarrow> share_type result" where
  "worker_budget_of F per_day time_to_maint available =
     (let w = u128_muldiv per_day time_to_maint (60 * 60 * 24) in
      if w \<ge> word_of_int available then Inr available else to_share F w)"

text \<open>The budget before the workers are paid, and what is left of the funds.\<close>

definition plan_budget :: "fc_lib \<Rightarrow> database \<Rightarrow> (budget_record \<times> share_type) result" where
  "plan_budget F s =
     (let now = head_block_time s; time_to_maint = uint (next_maintenance_time (dgp s)) - uint now in
      bind (blocks_to_maintenance (parameters s) time_to_maint) (\<lambda>blocks.
      bind (initialize_budget_record F now s) (\<lambda>rec.
      bind (to_share F (ucast (word_of_int (witness_pay_per_block (parameters s)) * blocks))) (\<lambda>requested.
      let wb = min requested (total_budget rec) in
      bind (safe_sub F (total_budget rec) wb) (\<lambda>available.
      bind (worker_budget_of F (worker_budget_per_day (parameters s)) time_to_maint available) (\<lambda>kb.
      bind (safe_sub F available kb) (\<lambda>rest.
      Inr (rec\<lparr>requested_witness_budget := requested, rec_witness_budget := wb, worker_budget := kb\<rparr>, rest))))))))"

definition process_budget :: "fc_lib \<Rightarrow> database \<Rightarrow> database result" where
  "process_budget F s =
     bind (plan_budget F s) (\<lambda>(rec, available_funds).
     bind (pay_workers F (worker_budget rec) s) (\<lambda>(leftover, s1).
     bind (safe_add F available_funds leftover) (\<lambda>_.
     bind (safe_add F (rec_witness_budget rec) (worker_budget rec)) (\<lambda>d1.
     bind (safe_sub F d1 leftover) (\<lambda>d2.
     bind (safe_sub F d2 (from_accumulated_fees rec)) (\<lambda>d3.
     bind (safe_sub F d3 (from_unused_witness_budget rec)) (\<lambda>delta.
     bind (index_get (assets s) 0) (\<lambda>core.
     bind (modify_asset_dyn (dynamic_asset_data_id core) (\<lambda>d.
            bind (safe_add F (current_supply d) delta) (\<lambda>v. Inr (d\<lparr>current_supply := v, accumulated_fees := 0\<rparr>))) s1) (\<lambda>s2.
     let s3 = s2\<lparr>dgp := (dgp s2)\<lparr>witness_budget := rec_witness_budget rec, last_budget_time := head_block_time s\<rparr>\<rparr> in
     bind (table_create budget_records put_budget_records no_clash
            (head_block_time s, rec\<lparr>leftover_worker_funds := leftover, supply_delta := delta\<rparr>) s3) (\<lambda>(s4, i).
     Inr s4))))))))))"

section \<open>Fee backed assets\<close>

definition top_n_control_owner :: u8 where "top_n_control_owner = 1"
definition top_n_control_active :: u8 where "top_n_control_active = 2"

definition top_holders_of :: "special_authority \<Rightarrow> nat option" where
  "top_holders_of auth = (case auth of No_Special_Authority \<Rightarrow> None | Top_Holders a n \<Rightarrow> Some a)"

definition fba_is_configured :: "fba_accumulator_object \<Rightarrow> database \<Rightarrow> bool result" where
  "fba_is_configured fba s =
     (case designated_asset fba of
        None \<Rightarrow> Inr False
      | Some i \<Rightarrow>
          (case index_find (assets s) i of
             None \<Rightarrow> Inr False
           | Some dasset \<Rightarrow>
               if is_market_issued dasset then Inr False
               else if issuer_permissions (options dasset) AND charge_market_fee \<noteq> issuer_permissions (options dasset) then Inr False
               else if flags (options dasset) AND charge_market_fee \<noteq> flags (options dasset) then Inr False
               else if buyback_account dasset = None then Inr False
               else
                 bind (index_get (accounts s) (issuer dasset)) (\<lambda>acct.
                 Inr (top_holders_of (owner_special_authority acct) = Some i \<and> top_holders_of (active_special_authority acct) = Some i \<and>
                   top_n_control_flags acct = (top_n_control_owner OR top_n_control_active)))))"

definition percent_of :: "fc_lib \<Rightarrow> share_type \<Rightarrow> u16 \<Rightarrow> share_type result" where
  "percent_of F x pct = to_share F (u128_muldiv x (uint pct) GRAPHENE_100_PERCENT)"

definition reset_fba :: "nat \<Rightarrow> database \<Rightarrow> database result" where
  "reset_fba i s = modify_fba_accumulator i (\<lambda>f. Inr (f\<lparr>accumulated_fba_fees := 0\<rparr>)) s"

definition pay_fba_shares ::
  "fc_lib \<Rightarrow> nat \<Rightarrow> asset_object \<Rightarrow> share_type \<Rightarrow> share_type \<Rightarrow> share_type \<Rightarrow> database \<Rightarrow> database result" where
  "pay_fba_shares F fba_id dasset network_amount buyback_amount issuer_amount s =
     bind (if network_amount \<noteq> 0 then modify_core_supply (\<lambda>v. safe_sub F v network_amount) s else Inr s) (\<lambda>s1.
     bind (the_object (buyback_account dasset)) (\<lambda>buyback.
     bind (if buyback_amount \<noteq> 0 then adjust_balance F buyback (mk_asset buyback_amount 0) s1 else Inr s1) (\<lambda>s2.
     bind (if issuer_amount \<noteq> 0 then adjust_balance F (issuer dasset) (mk_asset issuer_amount 0) s2 else Inr s2) (\<lambda>s3.
     reset_fba fba_id s3))))"

definition split_fba_balance :: "fc_lib \<Rightarrow> nat \<Rightarrow> u16 \<Rightarrow> u16 \<Rightarrow> u16 \<Rightarrow> database \<Rightarrow> database result" where
  "split_fba_balance F fba_id network_pct buyback_pct issuer_pct s =
     bind (fc_assert (uint network_pct + uint buyback_pct + uint issuer_pct = GRAPHENE_100_PERCENT) ''percentages'') (\<lambda>_.
     bind (index_get (fba_accumulators s) fba_id) (\<lambda>fba.
     let fees = accumulated_fba_fees fba in
     if fees = 0 then Inr s
     else
       bind (fba_is_configured fba s) (\<lambda>configured.
       if \<not> configured then
         bind (modify_core_supply (\<lambda>v. safe_sub F v fees) s) (reset_fba fba_id)
       else
         bind (percent_of F fees buyback_pct) (\<lambda>buyback_amount.
         bind (percent_of F fees issuer_pct) (\<lambda>issuer_amount.
         bind (safe_add F buyback_amount issuer_amount) (\<lambda>both.
         bind (fc_assert (both \<le> fees) ''buyback_amount + issuer_amount <= fba.accumulated_fba_fees'') (\<lambda>_.
         bind (safe_sub F fees both) (\<lambda>network_amount.
         bind (the_object (designated_asset fba)) (\<lambda>i.
         bind (index_get (assets s) i) (\<lambda>dasset.
         pay_fba_shares F fba_id dasset network_amount buyback_amount issuer_amount s))))))))))"

definition distribute_fba_balances :: "fc_lib \<Rightarrow> database \<Rightarrow> database result" where
  "distribute_fba_balances F s = fold_result (\<lambda>i. split_fba_balance F i 2000 6000 2000) [0, 1, 2] s"

section \<open>Payments keep the ledger\<close>

text \<open>\<open>core_payment x s s'\<close>: the change puts \<open>x\<close> of the core asset into the ledger and leaves what the budget relies on.\<close>

definition core_payment :: "int \<Rightarrow> database \<Rightarrow> database \<Rightarrow> bool" where
  "core_payment x s s' \<longleftrightarrow> chain_inv s' \<and> (\<forall>a. ledger a s' = ledger a s + core_in a x) \<and> (balances_nonneg s \<longrightarrow> balances_nonneg s') \<and>
     dgp s' = dgp s \<and> parameters s' = parameters s \<and> assets s' = assets s \<and> core_accumulated s' = core_accumulated s"

lemma core_payment_refl: "chain_inv s \<Longrightarrow> core_payment 0 s s"
  by (simp add: core_payment_def core_in_def)

lemma core_payment_trans: "core_payment x s t \<Longrightarrow> core_payment y t u \<Longrightarrow> core_payment (x + y) s u"
  by (auto simp: core_payment_def core_in_def)

lemma core_dyn_id: "chain_inv s \<Longrightarrow> index_find (assets s) 0 = Some core \<Longrightarrow> dynamic_asset_data_id core = 0"
  by (auto simp: chain_inv_def dyn_id_def)

context fc_laws
begin

lemma modify_core_supply_pays:
  assumes inv: "chain_inv s" and ok: "modify_core_supply (\<lambda>v. safe_sub F v x) s = Inr s'"
  shows "core_payment x s s'"
proof -
  obtain core where core: "index_find (assets s) 0 = Some core"
    and m: "modify_asset_dyn (dynamic_asset_data_id core) (\<lambda>d. bind (safe_sub F (current_supply d) x) (\<lambda>v. Inr (d\<lparr>current_supply := v\<rparr>))) s = Inr s'"
    using ok by (auto simp: modify_core_supply_def ok_simps index_get_def)
  have d: "dyn_id s a = Some 0 \<longleftrightarrow> 0 = a" for a
    using dyn_id_inj [OF inv, of 0 0 a] inv unfolding chain_inv_def by blast
  show ?thesis using modify_asset_dyn_step [OF inv m [unfolded core_dyn_id [OF inv core]]]
    by (auto simp: core_payment_def core_accumulated_def ok_simps safe_Inr d net_def core_in_def fee_pool_in_def)
qed

lemma pay_worker_pays:
  assumes inv: "chain_inv s" and ok: "pay_worker F x wt s = Inr (wt', s')"
  shows "core_payment x s s'"
proof (cases wt)
  case (Refund_Worker t)
  then show ?thesis using ok modify_core_supply_pays [OF inv] by (auto simp: ok_simps)
next
  case (Vesting_Balance_Worker b)
  then have m: "modify_vesting_balance b (\<lambda>vb. vb_deposit F vb (head_block_time s) (mk_asset x 0)) s = Inr s'" using ok by (auto simp: ok_simps)
  have "vesting_in a v' = vesting_in a v + core_in a x" if "vb_deposit F v (head_block_time s) (mk_asset x 0) = Inr v'" for a v v'
    using vb_deposit_in [of v "head_block_time s" "mk_asset x 0" v'] that by (auto simp: asset_in_def core_in_def)
  then show ?thesis using vest_tab.modify_step [OF inv m] by (auto simp: core_payment_def core_accumulated_def)
next
  case (Burn_Worker t)
  then have a: "adjust_balance F GRAPHENE_NULL_ACCOUNT (mk_asset x 0) s = Inr s'" using ok by (auto simp: ok_simps)
  show ?thesis using adjust_balance_step [OF inv a] by (auto simp: core_payment_def core_accumulated_def asset_in_def core_in_def)
qed

lemma modify_worker_pays:
  assumes "chain_inv s" "modify_worker i f s = Inr s'"
  shows "core_payment 0 s s'"
  using worker_tab.modify_step [OF assms] by (auto simp: core_payment_def core_accumulated_def core_in_def)

lemma pay_workers_loop_pays:
  "chain_inv s \<Longrightarrow> pay_workers_loop F is budget s = Inr (rest, s') \<Longrightarrow> core_payment (budget - rest) s s'"
proof (induction "is" arbitrary: budget s)
  case Nil
  then show ?case using core_payment_refl by simp
next
  case (Cons i "is")
  show ?case
  proof (cases "budget > 0")
    case True
    then obtain w :: worker_object and pay wt s1 s2 left where p: "pay_worker F pay (worker w) s = Inr (wt, s1)"
      and m: "modify_worker i (\<lambda>w. Inr (w\<lparr>worker := wt\<rparr>)) s1 = Inr s2"
      and l: "safe_sub F budget pay = Inr left" and r: "pay_workers_loop F is left s2 = Inr (rest, s')"
      using Cons.prems(2) by (fastforce simp: ok_simps Let_def)
    note 1 = pay_worker_pays [OF Cons.prems(1) p]
    have i1: "chain_inv s1" using 1 by (simp add: core_payment_def)
    note 2 = modify_worker_pays [OF i1 m]
    have i2: "chain_inv s2" using 2 by (simp add: core_payment_def)
    have "left = budget - pay" using l by (simp add: safe_Inr)
    then show ?thesis using core_payment_trans [OF core_payment_trans [OF 1 2] Cons.IH [OF i2 r]] by simp
  next
    case False
    then show ?thesis using Cons.prems core_payment_refl by simp
  qed
qed

lemma pay_workers_pays: "chain_inv s \<Longrightarrow> pay_workers F budget s = Inr (rest, s') \<Longrightarrow> core_payment (budget - rest) s s'"
  unfolding pay_workers_def by (rule pay_workers_loop_pays)

end

text \<open>The record of the budget names the accumulated fees and the unused witness budget of the state.\<close>

context fc_laws
begin

lemma plan_budget_sources:
  assumes "plan_budget F s = Inr (rec, rest)" "chain_inv s"
  shows "from_accumulated_fees rec = core_accumulated s" "from_unused_witness_budget rec = witness_budget (dgp s)"
    "index_find (assets s) 0 \<noteq> None" "leftover_worker_funds rec = 0"
  using assms core_dyn_id [OF assms(2)]
  by (auto simp: plan_budget_def initialize_budget_record_def Let_def ok_simps index_get_def core_accumulated_def empty_budget_record_def
      split: if_splits)

lemma create_budget_record:
  assumes "chain_inv s" "table_create budget_records put_budget_records no_clash x s = Inr (s', k)"
  shows "conserves s s'" "dgp s' = dgp s"
  using budget_tab.create_step [OF assms] by (auto simp: conserves_def)

lemma process_budget_step:
  assumes inv: "chain_inv s" and ok: "process_budget F s = Inr s'" and plan: "plan_budget F s = Inr (rec, rest)"
  shows "conserves s s'" "witness_budget (dgp s') = rec_witness_budget rec" "last_budget_time (dgp s') = head_block_time s"
proof -
  obtain leftover s1 delta core s2 k x where w: "pay_workers F (worker_budget rec) s = Inr (leftover, s1)"
    and delta: "delta = rec_witness_budget rec + worker_budget rec - leftover - from_accumulated_fees rec - from_unused_witness_budget rec"
    and core: "index_find (assets s) 0 = Some core"
    and m: "modify_asset_dyn (dynamic_asset_data_id core) (\<lambda>d.
            bind (safe_add F (current_supply d) delta) (\<lambda>v. Inr (d\<lparr>current_supply := v, accumulated_fees := 0\<rparr>))) s1 = Inr s2"
    and c: "table_create budget_records put_budget_records no_clash x
       (s2\<lparr>dgp := (dgp s2)\<lparr>witness_budget := rec_witness_budget rec, last_budget_time := head_block_time s\<rparr>\<rparr>) = Inr (s', k)"
    using ok plan unfolding process_budget_def bind_eq_Inr Let_def by (auto simp: ok_simps safe_Inr index_get_def)
  note 1 = pay_workers_pays [OF inv w]
  have i1: "chain_inv s1" and dg1: "dgp s1 = dgp s" using 1 by (simp_all add: core_payment_def)
  have d: "dyn_id s1 a = Some 0 \<longleftrightarrow> 0 = a" for a
    using dyn_id_inj [OF i1, of 0 0 a] i1 unfolding chain_inv_def by blast
  note 2 = modify_asset_dyn_step [OF i1 m [unfolded core_dyn_id [OF inv core]]]
  have l2: "ledger a s2 = ledger a s1 - core_in a (delta + core_accumulated s1)" for a
    using 2 by (auto simp: ok_simps safe_Inr d net_def core_in_def fee_pool_in_def core_accumulated_def)
  have i2: "chain_inv s2" "dgp s2 = dgp s" "balances_nonneg s1 \<longrightarrow> balances_nonneg s2" using 2 dg1 by auto
  let ?s3 = "s2\<lparr>dgp := (dgp s2)\<lparr>witness_budget := rec_witness_budget rec, last_budget_time := head_block_time s\<rparr>\<rparr>"
  have "chain_inv ?s3" using i2 by simp
  note 4 = create_budget_record [OF this c]
  have "ledger a ?s3 = ledger a s" for a
    using 1 l2 [of a] plan_budget_sources [OF plan inv] delta i2
    by (auto simp: ledger_dgp core_payment_def core_in_def)
  moreover have "balances_nonneg s \<longrightarrow> balances_nonneg ?s3" using 1 i2 by (simp add: core_payment_def)
  ultimately have "conserves s ?s3" using i2 by (simp add: conserves_def)
  then show "conserves s s'" using 4(1) conserves_trans by blast
  show "witness_budget (dgp s') = rec_witness_budget rec" "last_budget_time (dgp s') = head_block_time s"
    using 4(2) by simp_all
qed

end

text \<open>What the core asset could still issue, with the fees and the witness budget that go back to the reserve.\<close>

definition core_reserve :: "database \<Rightarrow> int" where
  "core_reserve s =
     (case index_find (assets s) 0 of
        None \<Rightarrow> 0
      | Some core \<Rightarrow>
          (case index_find (asset_dyn s) (dynamic_asset_data_id core) of
             None \<Rightarrow> 0
           | Some d \<Rightarrow> max_supply (options core) - current_supply d + accumulated_fees d + witness_budget (dgp s)))"

context fc_laws
begin

lemma to_share_below:
  assumes "w < word_of_int x" "0 \<le> x" "x < 2 ^ 63" "to_share F w = Inr y"
  shows "0 \<le> y \<and> y < x"
proof -
  have "uint w < x" using assms(1-3) by (simp add: word_less_def uint_u128_of_int)
  moreover from this have "to_share F w = Inr (uint w)" using assms(3) by (intro to_share_small) simp
  ultimately show ?thesis using assms(4) by simp
qed

lemma total_budget_bounds:
  assumes ok: "initialize_budget_record F now s = Inr rec" and pos: "0 \<le> core_reserve s"
  shows "0 \<le> total_budget rec \<and> total_budget rec \<le> core_reserve s"
proof -
  obtain core d initial where c: "index_find (assets s) 0 = Some core" "index_find (asset_dyn s) (dynamic_asset_data_id core) = Some d"
    and i: "initial = max_supply (options core) - current_supply d"
    using ok by (auto simp: initialize_budget_record_def ok_simps index_get_def reserved_def safe_Inr)
  show ?thesis
  proof (cases "last_budget_time (dgp s) = 0 \<or> now \<le> last_budget_time (dgp s)")
    case True
    then show ?thesis using ok pos by (auto simp: initialize_budget_record_def ok_simps Let_def empty_budget_record_def)
  next
    case False
    let ?dt = "uint now - uint (last_budget_time (dgp s))" and ?r = "core_reserve s"
    have r: "?r = initial + accumulated_fees d + witness_budget (dgp s)" using c i by (simp add: core_reserve_def)
    have "in_int64 ?r" "(if reserve_share ?r ?dt < word_of_int ?r then to_share F (reserve_share ?r ?dt) else Inr ?r) = Inr (total_budget rec)"
      using ok False c by (auto simp: initialize_budget_record_def ok_simps index_get_def reserved_def safe_Inr Let_def r i
          simp del: of_int_add of_int_diff)
    then show ?thesis using to_share_below [of "reserve_share ?r ?dt" ?r "total_budget rec"] pos
      by (auto simp: in_int64_def split: if_splits)
  qed
qed

lemma plan_budget_bounds:
  assumes ok: "plan_budget F s = Inr (rec, rest)"
  shows "rec_witness_budget rec \<le> total_budget rec" "0 \<le> worker_budget rec" "0 \<le> rest"
    "rec_witness_budget rec + worker_budget rec + rest = total_budget rec"
    "0 \<le> core_reserve s \<Longrightarrow> 0 \<le> total_budget rec \<and> total_budget rec \<le> core_reserve s"
proof -
  let ?tm = "uint (next_maintenance_time (dgp s)) - uint (head_block_time s)"
  obtain rec0 requested available kb where i: "initialize_budget_record F (head_block_time s) s = Inr rec0"
    and a: "available = total_budget rec0 - min requested (total_budget rec0)" "in_int64 available"
    and k: "worker_budget_of F (worker_budget_per_day (parameters s)) ?tm available = Inr kb"
    and rest: "rest = available - kb"
    and rec: "rec = rec0\<lparr>requested_witness_budget := requested, rec_witness_budget := min requested (total_budget rec0), worker_budget := kb\<rparr>"
    using ok by (auto simp: plan_budget_def Let_def ok_simps safe_Inr)
  have a0: "0 \<le> available" "available < 2 ^ 63" using a by (auto simp: in_int64_def)
  have "0 \<le> kb \<and> kb \<le> available"
    using k a0 to_share_below [OF _ a0] by (fastforce simp: worker_budget_of_def Let_def not_le split: if_splits)
  then show "rec_witness_budget rec \<le> total_budget rec" "0 \<le> worker_budget rec" "0 \<le> rest"
    "rec_witness_budget rec + worker_budget rec + rest = total_budget rec"
    using rec rest a by simp_all
  show "0 \<le> core_reserve s \<Longrightarrow> 0 \<le> total_budget rec \<and> total_budget rec \<le> core_reserve s"
    using total_budget_bounds [OF i] rec by simp
qed

end

section \<open>Fee backed assets keep the ledger\<close>

context fc_laws
begin

lemma reset_fba_step:
  assumes "chain_inv s" "reset_fba i s = Inr s'" "index_find (fba_accumulators s) i = Some f"
  shows "chain_inv s'" "ledger a s' = ledger a s - core_in a (accumulated_fba_fees f)" "balances_nonneg s' = balances_nonneg s"
  using fba_tab.modify_step [OF assms(1) assms(2) [unfolded reset_fba_def]] assms(3)
  by (auto simp: fba_in_def core_in_def)

lemma core_payment_adjust:
  assumes "chain_inv s" "(if x \<noteq> 0 then adjust_balance F i (mk_asset x 0) s else Inr s) = Inr s'"
  shows "core_payment x s s'" "fba_accumulators s' = fba_accumulators s"
  using assms adjust_balance_step [of s i "mk_asset x 0" s'] core_payment_refl
  by (auto simp: core_payment_def core_accumulated_def asset_in_def core_in_def split: if_splits)

lemma core_payment_supply:
  assumes "chain_inv s" "(if x \<noteq> 0 then modify_core_supply (\<lambda>v. safe_sub F v x) s else Inr s) = Inr s'"
  shows "core_payment x s s'" "fba_accumulators s' = fba_accumulators s"
  using assms modify_core_supply_pays [of s x s'] core_payment_refl
  by (auto simp: modify_core_supply_def table_modify_def ok_simps split: if_splits)

lemma fba_paid_out:
  assumes p: "core_payment (accumulated_fba_fees f) s t" and f: "index_find (fba_accumulators t) i = Some f" and r: "reset_fba i t = Inr s'"
  shows "conserves s s'"
proof -
  have t: "chain_inv t" using p by (simp add: core_payment_def)
  show ?thesis using p reset_fba_step [OF t r f] by (auto simp: conserves_def core_payment_def core_in_def)
qed

lemma pay_fba_shares_conserves:
  assumes inv: "chain_inv s" and f: "index_find (fba_accumulators s) i = Some fba" and sum: "n + b + m = accumulated_fba_fees fba"
    and ok: "pay_fba_shares F i dasset n b m s = Inr s'"
  shows "conserves s s'"
proof -
  obtain k s1 s2 s3 where s1: "(if n \<noteq> 0 then modify_core_supply (\<lambda>v. safe_sub F v n) s else Inr s) = Inr s1"
    and s2: "(if b \<noteq> 0 then adjust_balance F k (mk_asset b 0) s1 else Inr s1) = Inr s2"
    and s3: "(if m \<noteq> 0 then adjust_balance F (issuer dasset) (mk_asset m 0) s2 else Inr s2) = Inr s3" and s': "reset_fba i s3 = Inr s'"
    using ok unfolding pay_fba_shares_def bind_eq_Inr by blast
  note 1 = core_payment_supply [OF inv s1]
  have i1: "chain_inv s1" using 1 by (simp add: core_payment_def)
  note 2 = core_payment_adjust [OF i1 s2]
  have i2: "chain_inv s2" using 2 by (simp add: core_payment_def)
  note 3 = core_payment_adjust [OF i2 s3]
  have "core_payment (accumulated_fba_fees fba) s s3" using core_payment_trans [OF core_payment_trans [OF 1(1) 2(1)] 3(1)] sum by simp
  then show ?thesis using fba_paid_out [of fba s s3 i s'] s' f 1(2) 2(2) 3(2) by simp
qed

lemma split_fba_conserves:
  assumes inv: "chain_inv s" and ok: "split_fba_balance F i np bp ip s = Inr s'"
  shows "conserves s s'"
proof -
  obtain fba where f: "index_find (fba_accumulators s) i = Some fba" using ok by (auto simp: split_fba_balance_def ok_simps index_get_def)
  let ?x = "accumulated_fba_fees fba"
  have "s' = s \<or> (\<exists>s1. ?x \<noteq> 0 \<and> modify_core_supply (\<lambda>v. safe_sub F v ?x) s = Inr s1 \<and> reset_fba i s1 = Inr s') \<or>
      (\<exists>b m dasset. pay_fba_shares F i dasset (?x - (b + m)) b m s = Inr s')"
    using ok f by (auto simp: split_fba_balance_def ok_simps index_get_def Let_def safe_Inr split: if_splits)
  then show ?thesis
  proof (elim disjE exE conjE)
    fix s1 assume "?x \<noteq> 0" "modify_core_supply (\<lambda>v. safe_sub F v ?x) s = Inr s1" "reset_fba i s1 = Inr s'"
    then show ?thesis using core_payment_supply [OF inv, of ?x s1] f fba_paid_out [of fba s s1 i s'] by simp
  next
    fix b m dasset assume "pay_fba_shares F i dasset (?x - (b + m)) b m s = Inr s'"
    from pay_fba_shares_conserves [OF inv f _ this] show ?thesis by simp
  qed (use inv in simp)
qed

lemma distribute_fba_conserves:
  assumes inv: "chain_inv s" and ok: "distribute_fba_balances F s = Inr s'"
  shows "conserves s s'"
proof (rule fold_result_invariant [OF ok [unfolded distribute_fba_balances_def], where P = "conserves s"])
  fix i u v assume u: "conserves s u" and v: "split_fba_balance F i 2000 6000 2000 u = Inr v"
  have "chain_inv u" using u by (simp add: conserves_def)
  then show "conserves s v" using split_fba_conserves [OF _ v] conserves_trans [OF u] by blast
qed (use inv in simp)

end

section \<open>Properties\<close>

text \<open>
  C17. The budget of a maintenance interval conserves the core asset: what the witnesses and the workers get, the accumulated fees and the
  unused witness budget that go back to the reserve, and the change of the supply balance exactly, whatever kinds of workers there
  are and however much of their budget they use. The witness budget and the worker budget together stay within the reserve.
\<close>

theorem process_budget_conserves:
  assumes F: "fc_laws F" and inv: "chain_inv s" and ok: "process_budget F s = Inr s'"
  shows "conserves s s' \<and> last_budget_time (dgp s') = head_block_time s \<and>
    (\<exists>rec rest. plan_budget F s = Inr (rec, rest) \<and> witness_budget (dgp s') = rec_witness_budget rec \<and>
      rec_witness_budget rec + worker_budget rec + rest = total_budget rec \<and> 0 \<le> worker_budget rec \<and> 0 \<le> rest \<and>
      (0 \<le> core_reserve s \<longrightarrow> total_budget rec \<le> core_reserve s))"
proof -
  obtain rec rest where p: "plan_budget F s = Inr (rec, rest)" using ok by (auto simp: process_budget_def ok_simps)
  show ?thesis using fc_laws.process_budget_step [OF F inv ok p] fc_laws.plan_budget_bounds [OF F p] p by blast
qed

definition demo_worker :: "nat \<Rightarrow> u64 \<Rightarrow> worker_type \<Rightarrow> vote_id \<Rightarrow> worker_object" where
  "demo_worker acct approval wt v = \<lparr> worker_account = acct, work_begin_date = 0, work_end_date = 2000000000, daily_pay = 400,
     worker = wt, wk_name = ''work'', wk_url = [], vote_for = make_vote_id Vote_Worker (2 * v),
     vote_against = make_vote_id Vote_Worker (2 * v + 1), total_votes_for = approval, total_votes_against = 0 \<rparr>"

definition demo_budget :: database where
  "demo_budget = demo_chain\<lparr>
     workers := \<lparr> next_id = 2, rows = [(0, demo_worker 5 70 (Refund_Worker 0) 1), (1, demo_worker 6 90 (Burn_Worker 0) 2)] \<rparr>,
     dgp := (dgp demo_chain)\<lparr>last_budget_time := head_block_time demo_chain - 86400,
       next_maintenance_time := head_block_time demo_chain + 86400\<rparr>,
     parameters := (parameters demo_chain)\<lparr>witness_pay_per_block := 0\<rparr>\<rparr>"

lemma demo_budget_inv: "chain_inv demo_budget"
proof -
  have "index_inv (workers demo_budget)" by (simp add: demo_budget_def index_inv_def sorted_rows_def)
  then show ?thesis using worker_tab.inv_put [OF demo_chain_inv, of "workers demo_budget"]
    by (simp add: demo_budget_def rows_ok_def)
qed

theorem process_budget_conserves_witness:
  "\<exists>s'. process_budget fc_int64 demo_budget = Inr s' \<and> conserves demo_budget s' \<and> bal s' GRAPHENE_NULL_ACCOUNT 0 > 0"
proof -
  have "case process_budget fc_int64 demo_budget of Inl e \<Rightarrow> False
      | Inr s' \<Rightarrow> (case balance_row s' GRAPHENE_NULL_ACCOUNT 0 of None \<Rightarrow> False | Some (k, b) \<Rightarrow> balance b > 0)" by code_simp
  then obtain s' where p: "process_budget fc_int64 demo_budget = Inr s'" "bal s' GRAPHENE_NULL_ACCOUNT 0 > 0"
    by (auto simp: bal_row split: sum.splits option.splits)
  then show ?thesis using process_budget_conserves [OF fc64.fc_laws_axioms demo_budget_inv p(1)] by blast
qed

end
