(* ===== verification/Transfers.thy ===== *)
theory Transfers
  imports Evaluator
begin

text \<open>
  Operations that move an amount between accounts: transfer and override transfer
  (transfer_evaluator.cpp, protocol/transfer.cpp), vesting balances created and withdrawn by operations
  (vesting_balance_evaluator.cpp), and withdraw permissions (withdraw_permission_evaluator.cpp,
  protocol/withdraw_permission.cpp). Each evaluator is shown to satisfy the contract \<open>conserving_evaluator\<close>.
\<close>

section \<open>Transfers\<close>

record transfer_operation =
  tr_fee :: asset
  tr_from :: nat
  tr_to :: nat
  tr_amount :: asset

definition transfer_validate :: "transfer_operation \<Rightarrow> unit result" where
  "transfer_validate op =
     bind (fc_assert (amount (tr_fee op) \<ge> 0) ''fee.amount >= 0'') (\<lambda>_.
     bind (fc_assert (tr_from op \<noteq> tr_to op) ''from != to'') (\<lambda>_.
     fc_assert (amount (tr_amount op) > 0) ''amount.amount > 0''))"

definition transfer_do_evaluate ::
  "fc_lib \<Rightarrow> transfer_operation \<Rightarrow> fee_state \<Rightarrow> database \<Rightarrow> (unit \<times> fee_state) result" where
  "transfer_do_evaluate F op fs s =
     bind (index_get (accounts s) (tr_from op)) (\<lambda>from_account.
     bind (index_get (accounts s) (tr_to op)) (\<lambda>to_account.
     bind (index_get (assets s) (asset_id (tr_amount op))) (\<lambda>a.
     bind (graphene_assert (is_authorized_asset from_account (asset_id (tr_amount op)) a)
            (Chain_Exception ''transfer_from_account_not_whitelisted'')) (\<lambda>_.
     bind (graphene_assert (is_authorized_asset to_account (asset_id (tr_amount op)) a)
            (Chain_Exception ''transfer_to_account_not_whitelisted'')) (\<lambda>_.
     bind (if is_transfer_restricted a
           then graphene_assert (tr_from op = issuer a \<or> tr_to op = issuer a)
                  (Chain_Exception ''transfer_restricted_transfer_asset'')
           else Inr ()) (\<lambda>_.
     bind (fc_assert (amount (get_balance s (tr_from op) (asset_id (tr_amount op))) \<ge> amount (tr_amount op))
            ''Insufficient Balance'') (\<lambda>_.
     Inr ((), fs))))))))"

definition move_amount :: "fc_lib \<Rightarrow> nat \<Rightarrow> nat \<Rightarrow> asset \<Rightarrow> database \<Rightarrow> database result" where
  "move_amount F from_id to_id x s =
     bind (asset_neg F x) (\<lambda>n. bind (adjust_balance F from_id n s) (adjust_balance F to_id x))"

definition transfer_do_apply ::
  "fc_lib \<Rightarrow> transfer_operation \<Rightarrow> unit \<Rightarrow> fee_state \<Rightarrow> database \<Rightarrow> (database \<times> unit) result" where
  "transfer_do_apply F op e fs s =
     bind (move_amount F (tr_from op) (tr_to op) (tr_amount op) s) (\<lambda>s'. Inr (s', ()))"

definition transfer_evaluator :: "(transfer_operation, unit, unit) evaluator" where
  "transfer_evaluator = \<lparr> fee_payer = tr_from, op_fee = tr_fee, do_evaluate = transfer_do_evaluate,
     do_pay_fee = default_pay_fee, do_apply = transfer_do_apply \<rparr>"

record override_transfer_operation =
  ot_fee :: asset
  ot_issuer :: nat
  ot_from :: nat
  ot_to :: nat
  ot_amount :: asset

definition override_transfer_validate :: "override_transfer_operation \<Rightarrow> unit result" where
  "override_transfer_validate op =
     bind (fc_assert (amount (ot_fee op) \<ge> 0) ''fee.amount >= 0'') (\<lambda>_.
     bind (fc_assert (ot_from op \<noteq> ot_to op) ''from != to'') (\<lambda>_.
     bind (fc_assert (amount (ot_amount op) > 0) ''amount.amount > 0'') (\<lambda>_.
     fc_assert (ot_issuer op \<noteq> ot_from op) ''issuer != from'')))"

definition override_transfer_do_evaluate ::
  "fc_lib \<Rightarrow> override_transfer_operation \<Rightarrow> fee_state \<Rightarrow> database \<Rightarrow> (unit \<times> fee_state) result" where
  "override_transfer_do_evaluate F op fs s =
     (let i = asset_id (ot_amount op) in
      bind (index_get (assets s) i) (\<lambda>a.
      bind (graphene_assert (can_override a) (Chain_Exception ''override_transfer_not_permitted'')) (\<lambda>_.
      bind (fc_assert (issuer a = ot_issuer op) ''asset_type.issuer == op.issuer'') (\<lambda>_.
      bind (index_get (accounts s) (ot_from op)) (\<lambda>from_account.
      bind (index_get (accounts s) (ot_to op)) (\<lambda>to_account.
      bind (fc_assert (is_authorized_asset to_account i a) ''to'') (\<lambda>_.
      bind (fc_assert (is_authorized_asset from_account i a) ''from'') (\<lambda>_.
      bind (if head_block_time s \<le> HARDFORK_419_TIME
            then fc_assert (is_authorized_asset from_account i a) ''from'' else Inr ()) (\<lambda>_.
      bind (fc_assert (amount (get_balance s (ot_from op) i) \<ge> amount (ot_amount op)) ''balance'') (\<lambda>_.
      Inr ((), fs)))))))))))"

definition override_transfer_do_apply ::
  "fc_lib \<Rightarrow> override_transfer_operation \<Rightarrow> unit \<Rightarrow> fee_state \<Rightarrow> database \<Rightarrow> (database \<times> unit) result" where
  "override_transfer_do_apply F op e fs s =
     bind (move_amount F (ot_from op) (ot_to op) (ot_amount op) s) (\<lambda>s'. Inr (s', ()))"

definition override_transfer_evaluator :: "(override_transfer_operation, unit, unit) evaluator" where
  "override_transfer_evaluator = \<lparr> fee_payer = ot_issuer, op_fee = ot_fee, do_evaluate = override_transfer_do_evaluate,
     do_pay_fee = default_pay_fee, do_apply = override_transfer_do_apply \<rparr>"

section \<open>Vesting balances\<close>

datatype vesting_policy_initializer =
    Linear_Init time_point_sec u32 u32
  | Cdd_Init time_point_sec u32

record vesting_balance_create_operation =
  vc_fee :: asset
  vc_creator :: nat
  vc_owner :: nat
  vc_amount :: asset
  vc_policy :: vesting_policy_initializer

fun init_policy :: "vesting_policy_initializer \<Rightarrow> share_type \<Rightarrow> time_point_sec \<Rightarrow> vesting_policy" where
  "init_policy (Linear_Init begin_ts cliff duration) init_balance now =
     Linear \<lparr> begin_timestamp = begin_ts, vesting_cliff_seconds = cliff, vesting_duration_seconds = duration,
       begin_balance = init_balance \<rparr>"
| "init_policy (Cdd_Init start secs) init_balance now =
     Cdd \<lparr> vesting_seconds = secs, coin_seconds_earned = 0, start_claim = start,
       coin_seconds_earned_last_update = now \<rparr>"

definition vesting_create_do_evaluate ::
  "fc_lib \<Rightarrow> vesting_balance_create_operation \<Rightarrow> fee_state \<Rightarrow> database \<Rightarrow> (unit \<times> fee_state) result" where
  "vesting_create_do_evaluate F op fs s =
     bind (index_get (accounts s) (vc_creator op)) (\<lambda>_.
     bind (index_get (accounts s) (vc_owner op)) (\<lambda>_.
     bind (fc_assert (amount (vc_amount op) > 0) ''op.amount.amount > 0'') (\<lambda>_.
     bind (asset_ge (get_balance s (vc_creator op) (asset_id (vc_amount op))) (vc_amount op)) (\<lambda>enough.
     bind (fc_assert enough ''balance'') (\<lambda>_.
     bind (index_get (assets s) (asset_id (vc_amount op))) (\<lambda>a.
     bind (fc_assert (\<not> is_transfer_restricted a) ''transfer restricted'') (\<lambda>_.
     Inr ((), fs))))))))"

definition vesting_create_do_apply ::
  "fc_lib \<Rightarrow> vesting_balance_create_operation \<Rightarrow> unit \<Rightarrow> fee_state \<Rightarrow> database \<Rightarrow> (database \<times> nat) result" where
  "vesting_create_do_apply F op e fs s =
     bind (asset_ge (get_balance s (vc_creator op) (asset_id (vc_amount op))) (vc_amount op)) (\<lambda>enough.
     bind (fc_assert enough ''balance'') (\<lambda>_.
     bind (asset_neg F (vc_amount op)) (\<lambda>n.
     bind (adjust_balance F (vc_creator op) n s) (\<lambda>s1.
     table_create vesting_balances put_vesting_balances no_clash
       \<lparr> vb_owner = vc_owner op, vb_balance = vc_amount op,
         vb_policy = init_policy (vc_policy op) (amount (vc_amount op)) (head_block_time s) \<rparr> s1))))"

definition vesting_create_evaluator :: "(vesting_balance_create_operation, unit, nat) evaluator" where
  "vesting_create_evaluator = \<lparr> fee_payer = vc_creator, op_fee = vc_fee, do_evaluate = vesting_create_do_evaluate,
     do_pay_fee = default_pay_fee, do_apply = vesting_create_do_apply \<rparr>"

record vesting_balance_withdraw_operation =
  vw_fee :: asset
  vw_vesting_balance :: nat
  vw_owner :: nat
  vw_amount :: asset

definition vesting_withdraw_do_evaluate ::
  "fc_lib \<Rightarrow> vesting_balance_withdraw_operation \<Rightarrow> fee_state \<Rightarrow> database \<Rightarrow> (unit \<times> fee_state) result" where
  "vesting_withdraw_do_evaluate F op fs s =
     bind (index_get (vesting_balances s) (vw_vesting_balance op)) (\<lambda>vbo.
     bind (fc_assert (vw_owner op = vb_owner vbo) ''op.owner == vbo.owner'') (\<lambda>_.
     bind (vb_is_withdraw_allowed F vbo (head_block_time s) (vw_amount op)) (\<lambda>allowed.
     bind (fc_assert allowed ''is_withdraw_allowed'') (\<lambda>_.
     bind (index_get (accounts s) (vw_owner op)) (\<lambda>_.
     Inr ((), fs))))))"

definition vesting_withdraw_do_apply ::
  "fc_lib \<Rightarrow> vesting_balance_withdraw_operation \<Rightarrow> unit \<Rightarrow> fee_state \<Rightarrow> database \<Rightarrow> (database \<times> unit) result" where
  "vesting_withdraw_do_apply F op e fs s =
     bind (modify_vesting_balance (vw_vesting_balance op) (\<lambda>vbo. vb_withdraw F vbo (head_block_time s) (vw_amount op)) s) (\<lambda>s1.
     bind (adjust_balance F (vw_owner op) (vw_amount op) s1) (\<lambda>s2. Inr (s2, ())))"

definition vesting_withdraw_evaluator :: "(vesting_balance_withdraw_operation, unit, unit) evaluator" where
  "vesting_withdraw_evaluator = \<lparr> fee_payer = vw_owner, op_fee = vw_fee, do_evaluate = vesting_withdraw_do_evaluate,
     do_pay_fee = default_pay_fee, do_apply = vesting_withdraw_do_apply \<rparr>"

section \<open>Withdraw permissions\<close>

record withdraw_permission_create_operation =
  wc_fee :: asset
  wc_from :: nat
  wc_authorized :: nat
  wc_limit :: asset
  wc_period :: u32
  wc_periods :: u32
  wc_start :: time_point_sec

definition withdraw_create_validate :: "withdraw_permission_create_operation \<Rightarrow> unit result" where
  "withdraw_create_validate op =
     bind (fc_assert (amount (wc_fee op) \<ge> 0) ''fee'') (\<lambda>_.
     bind (fc_assert (wc_from op \<noteq> wc_authorized op) ''accounts'') (\<lambda>_.
     bind (fc_assert (amount (wc_limit op) > 0) ''limit'') (\<lambda>_.
     bind (fc_assert (wc_period op > 0) ''period'') (\<lambda>_.
     fc_assert (wc_periods op > 0) ''periods''))))"

definition withdraw_create_do_evaluate ::
  "fc_lib \<Rightarrow> withdraw_permission_create_operation \<Rightarrow> fee_state \<Rightarrow> database \<Rightarrow> (unit \<times> fee_state) result" where
  "withdraw_create_do_evaluate F op fs s =
     bind (fc_assert (index_find (accounts s) (wc_from op) \<noteq> None) ''from'') (\<lambda>_.
     bind (fc_assert (index_find (accounts s) (wc_authorized op) \<noteq> None) ''authorized'') (\<lambda>_.
     bind (fc_assert (index_find (assets s) (asset_id (wc_limit op)) \<noteq> None) ''asset'') (\<lambda>_.
     bind (fc_assert (wc_start op > head_block_time s) ''start'') (\<lambda>_.
     bind (fc_assert (wc_start op + wc_periods op * wc_period op > head_block_time s) ''expiration'') (\<lambda>_.
     bind (fc_assert (wc_period op \<ge> ucast (block_interval (parameters s))) ''period'') (\<lambda>_.
     Inr ((), fs)))))))"

definition withdraw_create_do_apply ::
  "fc_lib \<Rightarrow> withdraw_permission_create_operation \<Rightarrow> unit \<Rightarrow> fee_state \<Rightarrow> database \<Rightarrow> (database \<times> nat) result" where
  "withdraw_create_do_apply F op e fs s =
     table_create withdraw_permissions put_withdraw_permissions no_clash
       \<lparr> withdraw_from_account = wc_from op, authorized_account = wc_authorized op, withdrawal_limit = wc_limit op,
         withdrawal_period_sec = wc_period op, period_start_time = wc_start op,
         wp_expiration = wc_start op + wc_periods op * wc_period op, claimed_this_period = 0 \<rparr> s"

definition withdraw_create_evaluator :: "(withdraw_permission_create_operation, unit, nat) evaluator" where
  "withdraw_create_evaluator = \<lparr> fee_payer = wc_from, op_fee = wc_fee, do_evaluate = withdraw_create_do_evaluate,
     do_pay_fee = default_pay_fee, do_apply = withdraw_create_do_apply \<rparr>"

record withdraw_permission_claim_operation =
  wl_fee :: asset
  wl_permission :: nat
  wl_from :: nat
  wl_to :: nat
  wl_amount :: asset

definition withdraw_claim_validate :: "withdraw_permission_claim_operation \<Rightarrow> unit result" where
  "withdraw_claim_validate op =
     bind (fc_assert (wl_to op \<noteq> wl_from op) ''accounts'') (\<lambda>_.
     bind (fc_assert (amount (wl_amount op) > 0) ''amount'') (\<lambda>_.
     fc_assert (amount (wl_fee op) \<ge> 0) ''fee''))"

definition withdraw_claim_do_evaluate ::
  "fc_lib \<Rightarrow> withdraw_permission_claim_operation \<Rightarrow> fee_state \<Rightarrow> database \<Rightarrow> (unit \<times> fee_state) result" where
  "withdraw_claim_do_evaluate F op fs s =
     bind (index_get (withdraw_permissions s) (wl_permission op)) (\<lambda>permit.
     bind (fc_assert (wp_expiration permit > head_block_time s) ''expiration'') (\<lambda>_.
     bind (fc_assert (authorized_account permit = wl_to op) ''authorized'') (\<lambda>_.
     bind (fc_assert (withdraw_from_account permit = wl_from op) ''from'') (\<lambda>_.
     bind (available_this_period F permit (head_block_time s)) (\<lambda>available.
     bind (asset_le (wl_amount op) available) (\<lambda>ok.
     bind (fc_assert ok ''available'') (\<lambda>_.
     bind (asset_ge (get_balance s (wl_from op) (asset_id (wl_amount op))) (wl_amount op)) (\<lambda>enough.
     bind (fc_assert enough ''balance'') (\<lambda>_.
     bind (index_get (assets s) (asset_id (wl_amount op))) (\<lambda>a.
     bind (if is_transfer_restricted a
           then fc_assert (issuer a = authorized_account permit \<or> issuer a = withdraw_from_account permit) ''restricted''
           else Inr ()) (\<lambda>_.
     bind (index_get (accounts s) (wl_to op)) (\<lambda>from_account.
     bind (index_get (accounts s) (authorized_account permit)) (\<lambda>to_account.
     bind (fc_assert (is_authorized_asset to_account (asset_id (wl_amount op)) a) ''to'') (\<lambda>_.
     bind (fc_assert (is_authorized_asset from_account (asset_id (wl_amount op)) a) ''from'') (\<lambda>_.
     Inr ((), fs))))))))))))))))"

text \<open>Signed division of the language truncates towards zero.\<close>

definition int_quot :: "int \<Rightarrow> int \<Rightarrow> int" where
  "int_quot a b = sgn a * sgn b * (\<bar>a\<bar> div \<bar>b\<bar>)"

definition claim_permit ::
  "fc_lib \<Rightarrow> time_point_sec \<Rightarrow> asset \<Rightarrow> withdraw_permission_object \<Rightarrow> withdraw_permission_object result" where
  "claim_permit F now x p =
     (if withdrawal_period_sec p = 0 then Inl Divide_By_Zero
      else let periods = int_quot (uint now - uint (period_start_time p)) (uint (withdrawal_period_sec p));
               p' = p\<lparr>period_start_time := period_start_time p + word_of_int (periods * uint (withdrawal_period_sec p))\<rparr> in
           if periods = 0 then
             bind (safe_add F (claimed_this_period p) (amount x)) (\<lambda>c. Inr (p'\<lparr>claimed_this_period := c\<rparr>))
           else Inr (p'\<lparr>claimed_this_period := amount x\<rparr>))"

definition withdraw_claim_do_apply ::
  "fc_lib \<Rightarrow> withdraw_permission_claim_operation \<Rightarrow> unit \<Rightarrow> fee_state \<Rightarrow> database \<Rightarrow> (database \<times> unit) result" where
  "withdraw_claim_do_apply F op e fs s =
     bind (modify_withdraw_permission (wl_permission op) (claim_permit F (head_block_time s) (wl_amount op)) s) (\<lambda>s1.
     bind (move_amount F (wl_from op) (wl_to op) (wl_amount op) s1) (\<lambda>s2. Inr (s2, ())))"

definition withdraw_claim_evaluator :: "(withdraw_permission_claim_operation, unit, unit) evaluator" where
  "withdraw_claim_evaluator = \<lparr> fee_payer = wl_to, op_fee = wl_fee, do_evaluate = withdraw_claim_do_evaluate,
     do_pay_fee = default_pay_fee, do_apply = withdraw_claim_do_apply \<rparr>"

record withdraw_permission_update_operation =
  wu_fee :: asset
  wu_from :: nat
  wu_authorized :: nat
  wu_permission :: nat
  wu_limit :: asset
  wu_period :: u32
  wu_start :: time_point_sec
  wu_periods :: u32

definition withdraw_update_validate :: "withdraw_permission_update_operation \<Rightarrow> unit result" where
  "withdraw_update_validate op =
     bind (fc_assert (amount (wu_limit op) > 0) ''limit'') (\<lambda>_.
     bind (fc_assert (amount (wu_fee op) \<ge> 0) ''fee'') (\<lambda>_.
     bind (fc_assert (wu_period op > 0) ''period'') (\<lambda>_.
     bind (fc_assert (wu_from op \<noteq> wu_authorized op) ''accounts'') (\<lambda>_.
     fc_assert (wu_periods op > 0) ''periods''))))"

definition withdraw_update_do_evaluate ::
  "fc_lib \<Rightarrow> withdraw_permission_update_operation \<Rightarrow> fee_state \<Rightarrow> database \<Rightarrow> (unit \<times> fee_state) result" where
  "withdraw_update_do_evaluate F op fs s =
     bind (index_get (withdraw_permissions s) (wu_permission op)) (\<lambda>permit.
     bind (fc_assert (authorized_account permit = wu_authorized op) ''authorized'') (\<lambda>_.
     bind (fc_assert (withdraw_from_account permit = wu_from op) ''from'') (\<lambda>_.
     bind (fc_assert (index_find (assets s) (asset_id (wu_limit op)) \<noteq> None) ''asset'') (\<lambda>_.
     bind (fc_assert (wu_start op \<ge> head_block_time s) ''start'') (\<lambda>_.
     bind (fc_assert (wu_start op + wu_periods op * wu_period op > head_block_time s) ''expiration'') (\<lambda>_.
     bind (fc_assert (wu_period op \<ge> ucast (block_interval (parameters s))) ''period'') (\<lambda>_.
     Inr ((), fs))))))))"

definition withdraw_update_do_apply ::
  "fc_lib \<Rightarrow> withdraw_permission_update_operation \<Rightarrow> unit \<Rightarrow> fee_state \<Rightarrow> database \<Rightarrow> (database \<times> unit) result" where
  "withdraw_update_do_apply F op e fs s =
     bind (modify_withdraw_permission (wu_permission op) (\<lambda>p.
       Inr (p\<lparr>period_start_time := wu_start op, wp_expiration := wu_start op + wu_periods op * wu_period op,
            withdrawal_limit := wu_limit op, withdrawal_period_sec := wu_period op\<rparr>)) s) (\<lambda>s'. Inr (s', ()))"

definition withdraw_update_evaluator :: "(withdraw_permission_update_operation, unit, unit) evaluator" where
  "withdraw_update_evaluator = \<lparr> fee_payer = wu_from, op_fee = wu_fee, do_evaluate = withdraw_update_do_evaluate,
     do_pay_fee = default_pay_fee, do_apply = withdraw_update_do_apply \<rparr>"

record withdraw_permission_delete_operation =
  wd_fee :: asset
  wd_from :: nat
  wd_authorized :: nat
  wd_permission :: nat

definition withdraw_delete_validate :: "withdraw_permission_delete_operation \<Rightarrow> unit result" where
  "withdraw_delete_validate op =
     bind (fc_assert (amount (wd_fee op) \<ge> 0) ''fee'') (\<lambda>_.
     fc_assert (wd_from op \<noteq> wd_authorized op) ''accounts'')"

definition withdraw_delete_do_evaluate ::
  "fc_lib \<Rightarrow> withdraw_permission_delete_operation \<Rightarrow> fee_state \<Rightarrow> database \<Rightarrow> (unit \<times> fee_state) result" where
  "withdraw_delete_do_evaluate F op fs s =
     bind (index_get (withdraw_permissions s) (wd_permission op)) (\<lambda>permit.
     bind (fc_assert (authorized_account permit = wd_authorized op) ''authorized'') (\<lambda>_.
     bind (fc_assert (withdraw_from_account permit = wd_from op) ''from'') (\<lambda>_.
     Inr ((), fs))))"

definition withdraw_delete_do_apply ::
  "fc_lib \<Rightarrow> withdraw_permission_delete_operation \<Rightarrow> unit \<Rightarrow> fee_state \<Rightarrow> database \<Rightarrow> (database \<times> unit) result" where
  "withdraw_delete_do_apply F op e fs s =
     bind (table_remove withdraw_permissions put_withdraw_permissions (wd_permission op) s) (\<lambda>s'. Inr (s', ()))"

definition withdraw_delete_evaluator :: "(withdraw_permission_delete_operation, unit, unit) evaluator" where
  "withdraw_delete_evaluator = \<lparr> fee_payer = wd_from, op_fee = wd_fee, do_evaluate = withdraw_delete_do_evaluate,
     do_pay_fee = default_pay_fee, do_apply = withdraw_delete_do_apply \<rparr>"

section \<open>Moving an amount\<close>

context fc_laws
begin

lemma move_amount_step:
  assumes "chain_inv s" "move_amount F a b x s = Inr s'"
  shows "(\<exists>t. s' = put_balances t s) \<and> conserves s s' \<and>
    (\<forall>o1 i. bal s' o1 i = bal s o1 i + (if i = asset_id x then (if o1 = b then amount x else 0) -
       (if o1 = a then amount x else 0) else 0))"
proof -
  let ?n = "mk_asset (- amount x) (asset_id x)"
  obtain s1 where s1: "adjust_balance F a ?n s = Inr s1" and s': "adjust_balance F b x s1 = Inr s'"
    using assms(2) by (auto simp: move_amount_def ok_simps asset_neg_Inr)
  note 1 = adjust_balance_step [OF assms(1) s1]
  then have inv1: "chain_inv s1" by simp
  note 2 = adjust_balance_step [OF inv1 s']
  have "conserves s s'" using 1 2 by (auto simp: conserves_def asset_in_def)
  moreover have "\<exists>t. s' = put_balances t s" using 1 2 by auto
  ultimately show ?thesis using 1 2 by auto
qed

lemma vesting_create_conserves:
  assumes "chain_inv s" "vesting_create_do_apply F op e fs s = Inr (s', r)"
  shows "conserves s s'"
proof -
  let ?v = "\<lparr> vb_owner = vc_owner op, vb_balance = vc_amount op,
         vb_policy = init_policy (vc_policy op) (amount (vc_amount op)) (head_block_time s) \<rparr>"
  let ?n = "mk_asset (- amount (vc_amount op)) (asset_id (vc_amount op))"
  obtain s1 where s1: "adjust_balance F (vc_creator op) ?n s = Inr s1"
    and s': "table_create vesting_balances put_vesting_balances no_clash ?v s1 = Inr (s', r)"
    using assms(2) by (auto simp: vesting_create_do_apply_def ok_simps asset_neg_Inr)
  note 1 = adjust_balance_step [OF assms(1) s1]
  then have inv1: "chain_inv s1" by simp
  note 2 = vest_tab.create_step [OF inv1 s']
  then have "balances_nonneg s' = balances_nonneg s1" by auto
  then show ?thesis using 1 2 by (auto simp: conserves_def asset_in_def vesting_in_def)
qed

lemma vb_withdraw_amount:
  "vb_withdraw F vb now x = Inr vb' \<Longrightarrow> vesting_in a vb' = vesting_in a vb - asset_in a x"
  by (auto simp: vb_withdraw_def asset_sub_def ok_simps safe_sub_Inr vesting_in_def asset_in_def
      split: vesting_policy.splits)

lemma vesting_withdraw_conserves:
  assumes "chain_inv s" "vesting_withdraw_do_apply F op e fs s = Inr (s', r)"
  shows "conserves s s'"
proof -
  obtain s1 where s1: "modify_vesting_balance (vw_vesting_balance op)
      (\<lambda>vbo. vb_withdraw F vbo (head_block_time s) (vw_amount op)) s = Inr s1"
    and s': "adjust_balance F (vw_owner op) (vw_amount op) s1 = Inr s'"
    using assms(2) by (auto simp: vesting_withdraw_do_apply_def ok_simps)
  note 1 = vest_tab.modify_step [OF assms(1) s1]
  then have inv1: "chain_inv s1" by auto
  note 2 = adjust_balance_step [OF inv1 s']
  have "balances_nonneg s1 = balances_nonneg s" using 1 by auto
  moreover have "\<forall>a. ledger a s1 = ledger a s - asset_in a (vw_amount op)"
    using 1 vb_withdraw_amount by fastforce
  ultimately show ?thesis using 2 by (auto simp: conserves_def)
qed

lemma modify_permit_conserves:
  assumes "chain_inv s" "modify_withdraw_permission i f s = Inr s'"
  shows "conserves s s'"
  using permit_tab.modify_step [OF assms] by (auto simp: conserves_def)

end

section \<open>The evaluators keep the ledger\<close>

interpretation transfer_ev: conserving_evaluator transfer_evaluator "\<lambda>op s. True"
proof unfold_locales
  fix F op fs s0 s s' e r
  assume "fc_laws F" "chain_inv s" "do_apply transfer_evaluator F op e fs s = Inr (s', r)"
  then show "conserves s s'"
    using fc_laws.move_amount_step by (auto simp: transfer_evaluator_def transfer_do_apply_def ok_simps)
qed (auto simp: transfer_evaluator_def transfer_do_evaluate_def ok_simps)

interpretation override_ev: conserving_evaluator override_transfer_evaluator "\<lambda>op s. True"
proof unfold_locales
  fix F op fs s0 s s' e r
  assume "fc_laws F" "chain_inv s" "do_apply override_transfer_evaluator F op e fs s = Inr (s', r)"
  then show "conserves s s'"
    using fc_laws.move_amount_step by (auto simp: override_transfer_evaluator_def override_transfer_do_apply_def ok_simps)
qed (auto simp: override_transfer_evaluator_def override_transfer_do_evaluate_def Let_def ok_simps)

interpretation vesting_create_ev: conserving_evaluator vesting_create_evaluator "\<lambda>op s. True"
  by unfold_locales (auto simp: vesting_create_evaluator_def vesting_create_do_evaluate_def ok_simps
    dest: fc_laws.vesting_create_conserves)

interpretation vesting_withdraw_ev: conserving_evaluator vesting_withdraw_evaluator "\<lambda>op s. True"
  by unfold_locales (auto simp: vesting_withdraw_evaluator_def vesting_withdraw_do_evaluate_def ok_simps
    dest: fc_laws.vesting_withdraw_conserves)

interpretation withdraw_create_ev: conserving_evaluator withdraw_create_evaluator "\<lambda>op s. True"
proof unfold_locales
  fix F op fs s0 s s' e r
  assume "chain_inv s" "do_apply withdraw_create_evaluator F op e fs s = Inr (s', r)"
  then show "conserves s s'"
    using permit_tab.create_step
    by (fastforce simp: withdraw_create_evaluator_def withdraw_create_do_apply_def conserves_def)
qed (auto simp: withdraw_create_evaluator_def withdraw_create_do_evaluate_def ok_simps)

interpretation withdraw_claim_ev: conserving_evaluator withdraw_claim_evaluator "\<lambda>op s. True"
proof unfold_locales
  fix F op fs s0 s s' e r
  assume F: "fc_laws F" and inv: "chain_inv s" and "do_apply withdraw_claim_evaluator F op e fs s = Inr (s', r)"
  then obtain s1 where s1: "modify_withdraw_permission (wl_permission op)
        (claim_permit F (head_block_time s) (wl_amount op)) s = Inr s1"
      and s': "move_amount F (wl_from op) (wl_to op) (wl_amount op) s1 = Inr s'"
    by (auto simp: withdraw_claim_evaluator_def withdraw_claim_do_apply_def ok_simps)
  note 1 = fc_laws.modify_permit_conserves [OF F inv s1]
  then show "conserves s s'"
    using fc_laws.move_amount_step [OF F _ s'] conserves_trans by (auto simp: conserves_def)
qed (auto simp: withdraw_claim_evaluator_def withdraw_claim_do_evaluate_def ok_simps)

interpretation withdraw_update_ev: conserving_evaluator withdraw_update_evaluator "\<lambda>op s. True"
  by unfold_locales (auto simp: withdraw_update_evaluator_def withdraw_update_do_evaluate_def
    withdraw_update_do_apply_def ok_simps dest: fc_laws.modify_permit_conserves)

interpretation withdraw_delete_ev: conserving_evaluator withdraw_delete_evaluator "\<lambda>op s. True"
proof unfold_locales
  fix F op fs s0 s s' e r
  assume "chain_inv s" "do_apply withdraw_delete_evaluator F op e fs s = Inr (s', r)"
  then show "conserves s s'"
    using permit_tab.remove_step
    by (fastforce simp: withdraw_delete_evaluator_def withdraw_delete_do_apply_def ok_simps conserves_def)
qed (auto simp: withdraw_delete_evaluator_def withdraw_delete_do_evaluate_def ok_simps)

section \<open>Properties\<close>

text \<open>
  C23. An evaluated transfer moves exactly the amount from the sender to the receiver and the fee out of
  the sender, touches no other balance, and creates or destroys nothing: the ledger of every asset, fees included, is the
  same, and no balance becomes negative.
\<close>

theorem transfer_exact:
  assumes "fc_laws F" "chain_inv s" "balances_nonneg s"
    "start_evaluate F transfer_evaluator False skip required op s = Inr (s', r)"
  shows "(\<forall>a. ledger a s' = ledger a s) \<and> balances_nonneg s' \<and>
    (\<forall>o1 a. bal s' o1 a = bal s o1 a
       + (if o1 = tr_to op \<and> a = asset_id (tr_amount op) then amount (tr_amount op) else 0)
       - (if o1 = tr_from op \<and> a = asset_id (tr_amount op) then amount (tr_amount op) else 0)
       - (if o1 = tr_from op \<and> a = asset_id (tr_fee op) then amount (tr_fee op) else 0))"
proof -
  have con: "conserves s s'" using transfer_ev.start_evaluate_conserves [OF assms(1,2) TrueI assms(4)] .
  obtain fs where fs: "prepare_fee (tr_from op) (tr_fee op) s = Inr fs"
    and ap: "apply_op F transfer_evaluator False op () fs s = Inr (s', r)"
    using assms(4) by (auto simp: start_evaluate_def evaluate_def ok_simps transfer_evaluator_def transfer_do_evaluate_def
        split: if_splits)
  note ready = prepare_fee_ready [OF fs]
  obtain s1 s2 s3 where s1: "convert_fee F False fs s = Inr s1" and s2: "pay_fee F False fs s1 = Inr s2"
    and s3: "move_amount F (tr_from op) (tr_to op) (tr_amount op) s2 = Inr s3"
    and s': "adjust_balance F (tr_from op) (mk_asset (- amount (tr_fee op)) (asset_id (tr_fee op))) s3 = Inr s'"
    using ap ready by (auto simp: apply_op_def ok_simps transfer_evaluator_def default_pay_fee_def transfer_do_apply_def
        fc_laws.asset_neg_Inr [OF assms(1)])
  note c = fc_laws.convert_fee_step [OF assms(1,2) _ s1]
  have i1: "chain_inv s1" "bal s1 = bal s" using c ready by auto
  note p = fc_laws.pay_fee_step [OF assms(1) i1(1) s2]
  have i2: "chain_inv s2" "bal s2 = bal s" using p i1 by auto
  note m = fc_laws.move_amount_step [OF assms(1) i2(1) s3]
  then have i3: "chain_inv s3" by (simp add: conserves_def)
  show ?thesis using con assms(3) m fc_laws.adjust_balance_step [OF assms(1) i3 s'] i2
    by (auto simp: conserves_def)
qed

definition demo_transfer :: transfer_operation where
  "demo_transfer = \<lparr> tr_fee = mk_asset 20 7, tr_from = 5, tr_to = 6, tr_amount = mk_asset 700 0 \<rparr>"

lemmas run_simps = start_evaluate_def evaluate_def apply_op_def prepare_fee_def convert_fee_def pay_fee_def
  default_pay_fee_def record_fee_def stat_pay_fee_def adjust_balance_def adjust_balance_object_def balance_row_def find_row_def
  table_modify_def table_create_def table_remove_def index_modify_def index_create_def index_insert_def index_remove_def
  index_get_def index_find_def violates_def get_balance_def get_balance_of_def head_block_time_def HARDFORK_419_TIME_def
  asset_neg_def asset_ge_def asset_lt_def asset_mul_def scale_def u128_muldiv_def GRAPHENE_MAX_SHARE_SUPPLY_def
  is_authorized_asset_def has_flag_def white_list_def transfer_restricted_def is_transfer_restricted_def
  same_account_asset_def same_name_def no_clash_def fc_int64_def checked64_def in_int64_def Let_def

lemma demo_transfer_runs:
  "\<exists>s'. start_evaluate fc_int64 transfer_evaluator False False 30 demo_transfer demo_chain = Inr (s', ())"
  by (simp add: run_simps transfer_evaluator_def transfer_do_evaluate_def transfer_do_apply_def move_amount_def
      demo_transfer_def demo_defs)

theorem transfer_exact_witness:
  "\<exists>s'. start_evaluate fc_int64 transfer_evaluator False False 30 demo_transfer demo_chain = Inr (s', ()) \<and>
     bal s' 5 0 = 4300 \<and> bal s' 6 0 = 1000 \<and> bal s' 5 7 = 780 \<and> ledger 0 s' = ledger 0 demo_chain"
proof -
  obtain s' where run: "start_evaluate fc_int64 transfer_evaluator False False 30 demo_transfer demo_chain = Inr (s', ())"
    using demo_transfer_runs by blast
  have "bal demo_chain 5 0 = 5000" "bal demo_chain 6 0 = 300" "bal demo_chain 5 7 = 800"
    by (simp_all add: bal_row balance_row_def find_row_def demo_chain_def demo_balance_def)
  then show ?thesis
    using run transfer_exact [OF fc64.fc_laws_axioms demo_chain_inv demo_chain_nonneg run] by (simp add: demo_transfer_def)
qed

text \<open>
  Every transfer, override transfer and permission claim that passes evaluation obeys the asset's
  controls: both accounts are authorized for the asset, a transfer-restricted asset moves only from or to its issuer, and
  an override is made by the issuer of an asset that allows it.
\<close>

theorem transfer_respects_asset_controls:
  "(transfer_do_evaluate F t fs s = Inr x \<longrightarrow>
      (\<exists>a f g. index_find (assets s) (asset_id (tr_amount t)) = Some a \<and>
        index_find (accounts s) (tr_from t) = Some f \<and> index_find (accounts s) (tr_to t) = Some g \<and>
        is_authorized_asset f (asset_id (tr_amount t)) a \<and> is_authorized_asset g (asset_id (tr_amount t)) a \<and>
        (is_transfer_restricted a \<longrightarrow> issuer a = tr_from t \<or> issuer a = tr_to t) \<and>
        amount (tr_amount t) \<le> bal s (tr_from t) (asset_id (tr_amount t)))) \<and>
   (override_transfer_do_evaluate F ot fs s = Inr x \<longrightarrow>
      (\<exists>a f g. index_find (assets s) (asset_id (ot_amount ot)) = Some a \<and> can_override a \<and> issuer a = ot_issuer ot \<and>
        index_find (accounts s) (ot_from ot) = Some f \<and> index_find (accounts s) (ot_to ot) = Some g \<and>
        is_authorized_asset f (asset_id (ot_amount ot)) a \<and> is_authorized_asset g (asset_id (ot_amount ot)) a \<and>
        amount (ot_amount ot) \<le> bal s (ot_from ot) (asset_id (ot_amount ot)))) \<and>
   (withdraw_claim_do_evaluate F w fs s = Inr x \<longrightarrow>
      (\<exists>a g. index_find (assets s) (asset_id (wl_amount w)) = Some a \<and>
        index_find (accounts s) (wl_to w) = Some g \<and> is_authorized_asset g (asset_id (wl_amount w)) a \<and>
        (is_transfer_restricted a \<longrightarrow> issuer a = wl_from w \<or> issuer a = wl_to w)))"
  by (auto simp: transfer_do_evaluate_def override_transfer_do_evaluate_def withdraw_claim_do_evaluate_def Let_def
      ok_simps index_get_def bal_def split: if_splits)

definition demo_fs :: fee_state where
  "demo_fs = \<lparr> fee_from_account = mk_asset 20 0, core_fee_paid = 20, fee_paying_account = 5,
     fee_paying_account_statistics = 0, fee_asset_dyn_data = 0 \<rparr>"

theorem transfer_respects_asset_controls_witness:
  "transfer_do_evaluate fc_int64 demo_transfer demo_fs demo_chain = Inr ((), demo_fs) \<and>
   amount (tr_amount demo_transfer) \<le> bal demo_chain 5 0"
proof -
  have run: "transfer_do_evaluate fc_int64 demo_transfer demo_fs demo_chain = Inr ((), demo_fs)"
    by (simp add: run_simps transfer_do_evaluate_def demo_transfer_def demo_defs)
  show ?thesis
    using run transfer_respects_asset_controls
      [of fc_int64 demo_transfer demo_fs demo_chain "((), demo_fs)"]
    by (auto simp: demo_transfer_def)
qed

text \<open>
  A withdraw permission enforces its limit: once its period has started, an admitted claim is in the
  asset of the limit, the amount claimed in the current period stays within the limit, and the period start moves to the
  period that contains the present moment.
\<close>

theorem withdraw_claim_within_limit:
  assumes "fc_laws F" "withdraw_claim_do_evaluate F op fs s = Inr x"
    "index_find (withdraw_permissions s) (wl_permission op) = Some p" "0 < amount (wl_amount op)"
    "claimed_this_period p \<le> amount (withdrawal_limit p)" "period_start_time p \<le> head_block_time s"
    "uint (period_start_time p) + uint (withdrawal_period_sec p) < 2 ^ 32"
    "claim_permit F (head_block_time s) (wl_amount op) p = Inr p'"
  shows "asset_id (wl_amount op) = asset_id (withdrawal_limit p) \<and> withdrawal_limit p' = withdrawal_limit p \<and>
    claimed_this_period p' \<le> amount (withdrawal_limit p) \<and>
    uint (period_start_time p') \<le> uint (head_block_time s) \<and>
    uint (head_block_time s) < uint (period_start_time p') + uint (withdrawal_period_sec p)"
proof -
  let ?n = "uint (head_block_time s)" and ?b = "uint (period_start_time p)" and ?d = "uint (withdrawal_period_sec p)"
  let ?k = "(?n - ?b) div ?d"
  have d: "0 < ?d" using assms(8) by (auto simp: claim_permit_def word_neq_0_conv word_less_def split: if_splits)
  have nb: "?b \<le> ?n" using assms(6) by (simp add: word_le_def)
  have k: "int_quot (?n - ?b) ?d = ?k" "0 \<le> ?k"
    using nb d by (auto simp: int_quot_def sgn_if pos_imp_zdiv_nonneg_iff)
  have kd: "?k * ?d \<le> ?n - ?b" "?n - ?b < ?k * ?d + ?d"
    using div_mult_mod_eq [of "?n - ?b" ?d] pos_mod_bound [OF d, of "?n - ?b"] pos_mod_sign [OF d, of "?n - ?b"]
    by linarith+
  have n32: "?n < 2 ^ 32" using uint_lt2p [of "head_block_time s"] by simp
  have kd0: "0 \<le> ?k * ?d" using k d by simp
  have wrap: "uint (period_start_time p + word_of_int m) = ?b + m" if "0 \<le> m" "m \<le> ?n - ?b" for m
  proof -
    have "m < 2 ^ 32" using that n32 uint_ge_0 [of "period_start_time p"] by linarith
    then have "uint (word_of_int m :: u32) = m" using that by (simp add: uint_word_of_int)
    then show ?thesis using that n32 by (simp add: uint_word_ariths)
  qed
  have start: "uint (period_start_time p + word_of_int ?k * withdrawal_period_sec p) = ?b + ?k * ?d"
    using wrap [OF kd0 kd(1)] by simp
  obtain av where av: "available_this_period F p (head_block_time s) = Inr av" "asset_le (wl_amount op) av = Inr True"
    using assms(2,3) by (auto simp: withdraw_claim_do_evaluate_def ok_simps index_get_def split: if_splits)
  have new: "head_block_time s \<ge> period_start_time p + withdrawal_period_sec p \<longleftrightarrow> ?k \<noteq> 0"
  proof -
    have "uint (period_start_time p + withdrawal_period_sec p) = ?b + ?d" using assms(7) by (simp add: uint_word_ariths)
    then have "head_block_time s \<ge> period_start_time p + withdrawal_period_sec p \<longleftrightarrow> ?b + ?d \<le> ?n"
      by (simp add: word_le_def)
    also have "\<dots> \<longleftrightarrow> ?k \<noteq> 0" using d nb by (auto simp: zdiv_eq_0_iff)
    finally show ?thesis .
  qed
  have avl: "asset_id av = asset_id (withdrawal_limit p)" "amount (wl_amount op) \<le> amount av"
    "asset_id (wl_amount op) = asset_id av"
    "?k \<noteq> 0 \<Longrightarrow> amount av = amount (withdrawal_limit p)"
    "?k = 0 \<Longrightarrow> amount av = amount (withdrawal_limit p) - claimed_this_period p"
    using av new assms(4,5)
    by (auto simp: available_this_period_def ok_simps fc_laws.safe_sub_Inr [OF assms(1)] asset_le_True split: if_splits)
  then show ?thesis
    using assms(8) k start kd nb
    by (auto simp: claim_permit_def Let_def ok_simps fc_laws.safe_add_Inr [OF assms(1)] split: if_splits)
qed

definition demo_permit :: "time_point_sec \<Rightarrow> withdraw_permission_object" where
  "demo_permit start = \<lparr> withdraw_from_account = 5, authorized_account = 6, withdrawal_limit = mk_asset 400 0,
     withdrawal_period_sec = 100, period_start_time = start, wp_expiration = 1500100000, claimed_this_period = 0 \<rparr>"

definition demo_permits :: "time_point_sec \<Rightarrow> database" where
  "demo_permits start = demo_chain\<lparr>withdraw_permissions := \<lparr> next_id = 2, rows = [(0, demo_permit start)] \<rparr>\<rparr>"

definition demo_claim :: withdraw_permission_claim_operation where
  "demo_claim = \<lparr> wl_fee = mk_asset 20 0, wl_permission = 0, wl_from = 5, wl_to = 6, wl_amount = mk_asset 400 0 \<rparr>"

lemma demo_claim_evaluates:
  "withdraw_claim_do_evaluate fc_int64 demo_claim demo_fs (demo_permits 1499999750) = Inr ((), demo_fs)"
  "withdraw_claim_do_evaluate fc_int64 demo_claim demo_fs (demo_permits 1500000250) = Inr ((), demo_fs)"
  by (simp_all add: run_simps withdraw_claim_do_evaluate_def available_this_period_def asset_le_def demo_claim_def
      demo_permits_def demo_permit_def demo_defs)

theorem withdraw_claim_within_limit_witness:
  "\<exists>p'. claim_permit fc_int64 1500000000 (mk_asset 400 0) (demo_permit 1499999750) = Inr p' \<and>
     claimed_this_period p' \<le> 400 \<and> uint (period_start_time p') \<le> 1500000000 \<and> period_start_time p' = 1499999950"
proof -
  have now: "head_block_time (demo_permits 1499999750) = 1500000000"
    by (simp add: demo_permits_def demo_chain_def head_block_time_def)
  have run: "claim_permit fc_int64 1500000000 (mk_asset 400 0) (demo_permit 1499999750) =
      Inr ((demo_permit 1499999750)\<lparr>period_start_time := 1499999950, claimed_this_period := 400\<rparr>)"
    by (simp add: claim_permit_def demo_permit_def int_quot_def Let_def)
  then have run': "claim_permit fc_int64 (head_block_time (demo_permits 1499999750)) (wl_amount demo_claim)
      (demo_permit 1499999750) =
      Inr ((demo_permit 1499999750)\<lparr>period_start_time := 1499999950, claimed_this_period := 400\<rparr>)"
    unfolding now by (simp add: demo_claim_def)
  have f: "index_find (withdraw_permissions (demo_permits 1499999750)) (wl_permission demo_claim) =
      Some (demo_permit 1499999750)" by (simp add: demo_permits_def index_find_def demo_claim_def)
  note lim = withdraw_claim_within_limit [OF fc64.fc_laws_axioms demo_claim_evaluates(1) f _ _ _ _ run']
  show ?thesis using lim run unfolding now by (simp add: demo_claim_def demo_permit_def)
qed

text \<open>
  A claim is admitted before the first period has begun: 250 seconds before the start time of the
  permission the whole limit can be claimed, and the claim moves the start of the period back by two periods.
\<close>

theorem withdraw_claim_before_start:
  "period_start_time (demo_permit 1500000250) > head_block_time (demo_permits 1500000250) \<and>
   withdraw_claim_do_evaluate fc_int64 demo_claim demo_fs (demo_permits 1500000250) = Inr ((), demo_fs) \<and>
   claim_permit fc_int64 (head_block_time (demo_permits 1500000250)) (mk_asset 400 0) (demo_permit 1500000250) =
     Inr ((demo_permit 1500000250)\<lparr>period_start_time := 1500000050, claimed_this_period := 400\<rparr>)"
proof -
  have now: "head_block_time (demo_permits 1500000250) = 1500000000"
    by (simp add: demo_permits_def demo_chain_def head_block_time_def)
  show ?thesis using demo_claim_evaluates(2) unfolding now
    by (simp add: claim_permit_def demo_permit_def int_quot_def Let_def)
qed

end
