(* ===== verification/Lock_Balance.thy ===== *)
theory Lock_Balance
  imports Transfers
begin

text \<open>
  Locking balances for interest: the interest formula (asset_object.cpp: \<^verbatim>\<open>get_profit\<close>,
  \<^verbatim>\<open>fast_pow_of_interest\<close>, \<^verbatim>\<open>_get_interest\<close>) and the four operations of lock_balance_evaluator.cpp and
  protocol/lock_balance.cpp.

  An interest rate is a price whose base and quote are amounts of the same asset.
  \<^verbatim>\<open>uint128_t\<close> is boost's unsigned 128-bit integer: products wrap and a division by zero throws. Some
  \<^verbatim>\<open>do_evaluate\<close> and \<^verbatim>\<open>do_apply\<close> bodies end without a return statement; the model returns the empty result
  they are declared with.
\<close>

section \<open>Interest\<close>

definition JRC_INTEREST_DAY :: int where "JRC_INTEREST_DAY = 86400"
definition JRC_INTEREST_BASE_SUPPLY :: int where "JRC_INTEREST_BASE_SUPPLY = 1000000000000"
definition GRAPHENE_BLOCKCHAIN_PRECISION :: int where "GRAPHENE_BLOCKCHAIN_PRECISION = 100000000"

definition u128_div :: "u128 \<Rightarrow> u128 \<Rightarrow> u128 result" where
  "u128_div a b = (if b = 0 then Inl Divide_By_Zero else Inr (a div b))"

text \<open>\<^verbatim>\<open>convert_to<uint64_t>\<close>, then the conversion of the unsigned to the signed 64-bit value.\<close>

definition u128_to_int64 :: "u128 \<Rightarrow> int" where
  "u128_to_int64 w = sint (ucast w :: u64)"

definition interest_unit :: "u8 \<Rightarrow> u64" where
  "interest_unit p = word_of_int (JRC_INTEREST_BASE_SUPPLY div GRAPHENE_BLOCKCHAIN_PRECISION) * 10 ^ unat p"

definition multiply_of_interest :: "u64 \<Rightarrow> price \<Rightarrow> price \<Rightarrow> price result" where
  "multiply_of_interest unit a b =
     bind (u128_div (ucast unit * word_of_int (amount (quote a))) (word_of_int (amount (base a)))) (\<lambda>x.
     bind (u128_div (x * word_of_int (amount (quote b))) (word_of_int (amount (base b)))) (\<lambda>r.
     Inr \<lparr> base = mk_asset (sint unit) (asset_id (base a)),
           quote = mk_asset (u128_to_int64 r) (asset_id (quote b)) \<rparr>))"

fun pow_loop :: "u64 \<Rightarrow> nat \<Rightarrow> price \<Rightarrow> price \<Rightarrow> price result" where
  "pow_loop unit n cur res =
     (if n = 0 then Inr res
      else bind (if odd n then multiply_of_interest unit res cur else Inr res) (\<lambda>res'.
           bind (multiply_of_interest unit cur cur) (\<lambda>cur'.
           pow_loop unit (n div 2) cur' res')))"

declare pow_loop.simps [simp del]

definition fast_pow_of_interest :: "price \<Rightarrow> nat \<Rightarrow> u64 \<Rightarrow> price result" where
  "fast_pow_of_interest r n unit =
     pow_loop unit n r \<lparr> base = mk_asset 1 (asset_id (base r)), quote = mk_asset 1 (asset_id (quote r)) \<rparr>"

definition int32_of :: "int \<Rightarrow> int" where
  "int32_of x = sint (word_of_int x :: u32)"

definition get_interest ::
  "fc_lib \<Rightarrow> asset_lock_data_object \<Rightarrow> u8 \<Rightarrow> share_type \<Rightarrow> u32 \<Rightarrow> price result" where
  "get_interest F d prec supply lperiod =
     (let unit = interest_unit prec; i = lock_asset_id d; base_asset = mk_asset (sint unit) i;
          lock_days = uint lperiod div JRC_INTEREST_DAY; half = int_quot (int32_of (uint (max_period d))) 2 in
      bind (fc_assert (lperiod \<le> max_period d * word_of_int JRC_INTEREST_DAY) ''locking too long period'') (\<lambda>_.
      bind (safe_sub F supply (interest_pool d)) (\<lambda>max_deposit.
      bind (fast_pow_of_interest (nominal_interest_perday d) (unat (max_period d)) unit) (\<lambda>top.
      bind (if half = 0 then Inl Divide_By_Zero
            else Inr (int_quot (int32_of (int32_of (lock_days - half) * GRAPHENE_100_PERCENT)) half)) (\<lambda>percent_of_year.
      bind (Inr (GRAPHENE_100_PERCENT +
             int_quot (percent_of_year * uint (reward_coefficient d)) GRAPHENE_100_PERCENT)) (\<lambda>reward_rate.
      bind (fast_pow_of_interest (nominal_interest_perday d) (nat lock_days) unit) (\<lambda>rate.
      bind (asset_mul base_asset rate) (\<lambda>grown.
      bind (asset_sub F grown base_asset) (\<lambda>gain.
      bind (Inr ((word_of_int (amount gain) * word_of_int reward_rate) div word_of_int GRAPHENE_100_PERCENT)) (\<lambda>pre_profile.
      let q = word_of_int (amount (quote top)) :: u128; b = word_of_int (amount (base top));
          dep = word_of_int max_deposit in
      bind (fc_assert (q \<ge> b) ''year interest must >1'') (\<lambda>_.
      bind (u128_div (q * dep) b) (\<lambda>grown_dep.
      let max_need_pool = (grown_dep - dep) * ucast (reward_coefficient d + word_of_int GRAPHENE_100_PERCENT)
                            div word_of_int GRAPHENE_100_PERCENT in
      bind (u128_div (pre_profile * word_of_int (interest_pool d)) max_need_pool) (\<lambda>share.
      let actual = share * ucast (profile_scale_percent d) div word_of_int GRAPHENE_100_PERCENT;
          actual' = (if uint actual \<ge> interest_pool d
                     then ucast (ucast (word_of_int (interest_pool d) * ucast (profile_receive_percent d)
                                   div word_of_int GRAPHENE_100_PERCENT :: u128) :: u64)
                     else actual) in
      bind (asset_add F (mk_asset (u128_to_int64 actual') i) base_asset) (\<lambda>res.
      Inr \<lparr> base = base_asset, quote = res \<rparr>))))))))))))))"

definition get_profit ::
  "fc_lib \<Rightarrow> asset_lock_data_object \<Rightarrow> u8 \<Rightarrow> share_type \<Rightarrow> share_type \<Rightarrow> u32 \<Rightarrow> share_type result" where
  "get_profit F d prec supply tolocking lperiod =
     bind (get_interest F d prec supply lperiod) (\<lambda>r.
     bind (asset_mul (mk_asset tolocking (lock_asset_id d)) r) (\<lambda>grown.
     bind (asset_sub F grown (mk_asset tolocking (lock_asset_id d))) (\<lambda>gain.
     Inr (amount gain))))"

section \<open>Operations\<close>

definition get_lock_data :: "database \<Rightarrow> asset_object \<Rightarrow> (nat \<times> asset_lock_data_object) result" where
  "get_lock_data s a =
     (case lock_data_id a of
        None \<Rightarrow> Inl (Assert_Exception ''no lock option'')
      | Some l \<Rightarrow> bind (index_get (asset_lock s) l) (\<lambda>d. Inr (l, d)))"

record lock_balance_operation =
  lk_fee :: asset
  lk_issuer :: nat
  lk_amount :: asset
  lk_period :: u32

definition lock_balance_validate :: "lock_balance_operation \<Rightarrow> unit result" where
  "lock_balance_validate op =
     bind (fc_assert (amount (lk_fee op) \<ge> 0) ''fee.amount >= 0'') (\<lambda>_.
     bind (fc_assert (amount (lk_amount op) > 0) ''amount.amount > 0'') (\<lambda>_.
     fc_assert (uint (lk_period op) \<ge> JRC_INTEREST_DAY) ''lock period should longer than one day''))"

definition lock_balance_do_evaluate ::
  "fc_lib \<Rightarrow> lock_balance_operation \<Rightarrow> fee_state \<Rightarrow> database \<Rightarrow> ((share_type \<times> share_type) \<times> fee_state) result" where
  "lock_balance_do_evaluate F op fs s =
     bind (index_get (assets s) (asset_id (lk_amount op))) (\<lambda>a.
     bind (get_lock_data s a) (\<lambda>(l, d).
     bind (fc_assert (amount (get_balance s (lk_issuer op) (asset_id (lk_amount op))) \<ge> amount (lk_amount op))
            ''Insufficient Balance: unable to lock balance'') (\<lambda>_.
     bind (index_get (assets s) (lock_asset_id d)) (\<lambda>target.
     bind (index_get (asset_dyn s) (dynamic_asset_data_id target)) (\<lambda>dyn.
     bind (get_profit F d (precision target) (current_supply dyn) (amount (lk_amount op)) (lk_period op)) (\<lambda>profit.
     bind (safe_add F profit (amount (lk_amount op))) (\<lambda>to_locked.
     bind (fc_assert (interest_pool d \<ge> profit) ''Insufficient interest pool: unable to lock balance'') (\<lambda>_.
     Inr ((profit, to_locked), fs)))))))))"

definition lock_balance_do_apply ::
  "fc_lib \<Rightarrow> lock_balance_operation \<Rightarrow> share_type \<times> share_type \<Rightarrow> fee_state \<Rightarrow> database \<Rightarrow> (database \<times> unit) result" where
  "lock_balance_do_apply F op e fs s =
     bind (index_get (assets s) (asset_id (lk_amount op))) (\<lambda>a.
     bind (get_lock_data s a) (\<lambda>(l, d).
     bind (table_create locked_balances put_locked_balances no_clash
            \<lparr> initial_lock_balance = amount (lk_amount op), locked_balance = snd e, lock_time = head_block_time s,
              lock_period = lk_period op, lb_lock_type = Lock_User_Set, lb_asset_id = asset_id (lk_amount op),
              finish = False \<rparr> s) (\<lambda>(s1, new_id).
     case balance_row s1 (lk_issuer op) (asset_id (lk_amount op)) of
       None \<Rightarrow> Inl (Assert_Exception ''Insufficient Balance'')
     | Some (k, b) \<Rightarrow>
         bind (asset_neg F (lk_amount op)) (\<lambda>n.
         bind (adjust_balance F (lk_issuer op) n s1) (\<lambda>s2.
         bind (modify_balance k (add_lock_balance new_id) s2) (\<lambda>s3.
         bind (modify_asset_lock l (\<lambda>x. bind (safe_sub F (interest_pool x) (fst e)) (\<lambda>v. Inr (x\<lparr>interest_pool := v\<rparr>))) s3) (\<lambda>s4.
         bind (modify_asset_dyn (dynamic_asset_data_id a) (\<lambda>x.
                bind (safe_add F (dyn_locked_balance x) (snd e)) (\<lambda>v. Inr (x\<lparr>dyn_locked_balance := v\<rparr>))) s4) (\<lambda>s5.
         Inr (s5, ())))))))))"

definition lock_balance_evaluator :: "(lock_balance_operation, share_type \<times> share_type, unit) evaluator" where
  "lock_balance_evaluator = \<lparr> fee_payer = lk_issuer, op_fee = lk_fee, do_evaluate = lock_balance_do_evaluate,
     do_pay_fee = default_pay_fee, do_apply = lock_balance_do_apply \<rparr>"

record set_lock_data_operation =
  sl_fee :: asset
  sl_issuer :: nat
  sl_nominal_interest_perday :: u64
  sl_reward_coefficient :: u32
  sl_init_interest_pool :: asset
  sl_max_period :: u32
  sl_profile_scale_percent :: u32
  sl_profile_receive_percent :: u32
  sl_can_unlock_not_expired :: bool

definition set_lock_data_validate :: "set_lock_data_operation \<Rightarrow> unit result" where
  "set_lock_data_validate op =
     bind (fc_assert (amount (sl_fee op) \<ge> 0) ''fee'') (\<lambda>_.
     bind (fc_assert (sl_nominal_interest_perday op > 0) ''nominal_interest_perday>0'') (\<lambda>_.
     bind (fc_assert (amount (sl_init_interest_pool op) \<ge> 0) ''init_interest_pool.amount>=0'') (\<lambda>_.
     bind (fc_assert (uint (sl_reward_coefficient op) \<le> GRAPHENE_100_PERCENT) ''reward_coefficient'') (\<lambda>_.
     bind (fc_assert (sl_max_period op \<ge> 2) ''max_period >= 2'') (\<lambda>_.
     bind (fc_assert (sl_profile_scale_percent op > 0) ''profile_scale_percent > 0'') (\<lambda>_.
     fc_assert (uint (sl_profile_receive_percent op) \<le> GRAPHENE_100_PERCENT) ''profile_receive_percent''))))))"

definition set_lock_data_do_evaluate ::
  "fc_lib \<Rightarrow> set_lock_data_operation \<Rightarrow> fee_state \<Rightarrow> database \<Rightarrow> (unit \<times> fee_state) result" where
  "set_lock_data_do_evaluate F op fs s =
     (let i = asset_id (sl_init_interest_pool op) in
      case index_find (assets s) i of
        None \<Rightarrow> Inl (Assert_Exception ''asset id not exist'')
      | Some a \<Rightarrow>
          bind (fc_assert (lock_data_id a = None) ''lock data already created!'') (\<lambda>_.
          bind (fc_assert (issuer a = sl_issuer op) ''operation issuer is not asset issuer'') (\<lambda>_.
          bind (if amount (sl_init_interest_pool op) > 0
                then fc_assert (amount (get_balance s (sl_issuer op) i) \<ge> amount (sl_init_interest_pool op))
                       ''Insufficient Balance''
                else Inr ()) (\<lambda>_.
          Inr ((), fs)))))"

definition new_lock_data :: "set_lock_data_operation \<Rightarrow> asset_lock_data_object" where
  "new_lock_data op =
     (let i = asset_id (sl_init_interest_pool op) in
      \<lparr> lock_asset_id = i,
        nominal_interest_perday = \<lparr> base = mk_asset JRC_INTEREST_BASE_SUPPLY i,
          quote = mk_asset (sint (sl_nominal_interest_perday op)) i \<rparr>,
        reward_coefficient = sl_reward_coefficient op, interest_pool = amount (sl_init_interest_pool op),
        max_period = sl_max_period op, profile_scale_percent = sl_profile_scale_percent op,
        profile_receive_percent = sl_profile_receive_percent op,
        can_unlock_not_expired = sl_can_unlock_not_expired op \<rparr>)"

definition set_lock_data_do_apply ::
  "fc_lib \<Rightarrow> set_lock_data_operation \<Rightarrow> unit \<Rightarrow> fee_state \<Rightarrow> database \<Rightarrow> (database \<times> unit) result" where
  "set_lock_data_do_apply F op e fs s =
     (let p = sl_init_interest_pool op in
      bind (asset_ge (get_balance s (sl_issuer op) (asset_id p)) p) (\<lambda>enough.
      bind (fc_assert enough ''No enough balance pay for pool'') (\<lambda>_.
      bind (if amount p > 0 then bind (asset_neg F p) (\<lambda>n. adjust_balance F (sl_issuer op) n s) else Inr s) (\<lambda>s1.
      bind (table_create asset_lock put_asset_lock no_clash (new_lock_data op) s1) (\<lambda>(s2, new_id).
      bind (modify_asset (asset_id p) (\<lambda>a. Inr (a\<lparr>lock_data_id := Some new_id\<rparr>)) s2) (\<lambda>s3.
      Inr (s3, ())))))))"

definition set_lock_data_evaluator :: "(set_lock_data_operation, unit, unit) evaluator" where
  "set_lock_data_evaluator = \<lparr> fee_payer = sl_issuer, op_fee = sl_fee, do_evaluate = set_lock_data_do_evaluate,
     do_pay_fee = default_pay_fee, do_apply = set_lock_data_do_apply \<rparr>"

record unlock_balance_operation =
  ul_fee :: asset
  ul_issuer :: nat
  ul_locked_id :: nat
  ul_expired :: bool

definition unlock_balance_validate :: "unlock_balance_operation \<Rightarrow> unit result" where
  "unlock_balance_validate op = fc_assert (amount (ul_fee op) \<ge> 0) ''fee.amount >= 0''"

definition unlock_balance_do_evaluate ::
  "fc_lib \<Rightarrow> unlock_balance_operation \<Rightarrow> fee_state \<Rightarrow> database \<Rightarrow> (unit \<times> fee_state) result" where
  "unlock_balance_do_evaluate F op fs s =
     bind (index_get (locked_balances s) (ul_locked_id op)) (\<lambda>item.
     bind (fc_assert (locked_balance item \<ge> 0) ''unable to unlock balance'') (\<lambda>_. Inr ((), fs)))"

definition get_unlock_time :: "fc_lib \<Rightarrow> locked_balance_object \<Rightarrow> u32 result" where
  "get_unlock_time F l = safe_add32 F (lock_time l) (lock_period l)"

definition pay_unlocked ::
  "fc_lib \<Rightarrow> unlock_balance_operation \<Rightarrow> locked_balance_object \<Rightarrow> nat \<Rightarrow> asset_lock_data_object \<Rightarrow> database \<Rightarrow> database result" where
  "pay_unlocked F op item l d s =
     bind (if ul_expired op then bind (get_unlock_time F item) (\<lambda>t. Inr (head_block_time s \<ge> t)) else Inr False) (\<lambda>due.
     if due then adjust_balance F (ul_issuer op) (mk_asset (locked_balance item) (lb_asset_id item)) s
     else if \<not> can_unlock_not_expired d then Inl (Assert_Exception ''ASSET can't unlock balance if not expired!'')
     else
       bind (adjust_balance F (ul_issuer op) (mk_asset (initial_lock_balance item) (lb_asset_id item)) s) (\<lambda>s1.
       modify_asset_lock l (\<lambda>x.
         bind (safe_sub F (locked_balance item) (initial_lock_balance item)) (\<lambda>g.
         bind (safe_add F (interest_pool x) g) (\<lambda>v. Inr (x\<lparr>interest_pool := v\<rparr>)))) s1))"

definition unlock_balance_do_apply ::
  "fc_lib \<Rightarrow> unlock_balance_operation \<Rightarrow> unit \<Rightarrow> fee_state \<Rightarrow> database \<Rightarrow> (database \<times> unit) result" where
  "unlock_balance_do_apply F op e fs s =
     bind (index_get (locked_balances s) (ul_locked_id op)) (\<lambda>item.
     bind (index_get (assets s) (lb_asset_id item)) (\<lambda>a.
     bind (get_lock_data s a) (\<lambda>(l, d).
     case balance_row s (ul_issuer op) (lb_asset_id item) of
       None \<Rightarrow> Inl (Assert_Exception ''Insufficient Balance'')
     | Some (k, b) \<Rightarrow>
         bind (fc_assert (\<not> finish item) ''already unlocked balance'') (\<lambda>_.
         bind (pay_unlocked F op item l d s) (\<lambda>s1.
         bind (modify_locked_balance (ul_locked_id op) (\<lambda>x. Inr (x\<lparr>finish := True\<rparr>)) s1) (\<lambda>s2.
         bind (modify_balance k (unlock_balance_of (ul_locked_id op)) s2) (\<lambda>s3.
         Inr (s3, ()))))))))"

definition unlock_balance_evaluator :: "(unlock_balance_operation, unit, unit) evaluator" where
  "unlock_balance_evaluator = \<lparr> fee_payer = ul_issuer, op_fee = ul_fee, do_evaluate = unlock_balance_do_evaluate,
     do_pay_fee = default_pay_fee, do_apply = unlock_balance_do_apply \<rparr>"

record donation_balance_operation =
  dn_fee :: asset
  dn_issuer :: nat
  dn_amount :: asset

definition donation_balance_validate :: "donation_balance_operation \<Rightarrow> unit result" where
  "donation_balance_validate op = fc_assert (amount (dn_fee op) \<ge> 0) ''fee.amount >= 0''"

definition donation_balance_do_evaluate ::
  "fc_lib \<Rightarrow> donation_balance_operation \<Rightarrow> fee_state \<Rightarrow> database \<Rightarrow> (unit \<times> fee_state) result" where
  "donation_balance_do_evaluate F op fs s =
     bind (asset_ge (get_balance s (dn_issuer op) (asset_id (dn_amount op))) (dn_amount op)) (\<lambda>enough.
     bind (fc_assert enough ''no enough balance'') (\<lambda>_. Inr ((), fs)))"

definition donation_balance_do_apply ::
  "fc_lib \<Rightarrow> donation_balance_operation \<Rightarrow> unit \<Rightarrow> fee_state \<Rightarrow> database \<Rightarrow> (database \<times> unit) result" where
  "donation_balance_do_apply F op e fs s =
     (case index_find (assets s) (asset_id (dn_amount op)) of
        None \<Rightarrow> Inl (Assert_Exception ''asset id not exist'')
      | Some a \<Rightarrow>
          bind (get_lock_data s a) (\<lambda>(l, d).
          bind (asset_neg F (dn_amount op)) (\<lambda>n.
          bind (adjust_balance F (dn_issuer op) n s) (\<lambda>s1.
          bind (modify_asset_lock l (\<lambda>x.
                 bind (safe_add F (interest_pool x) (amount (dn_amount op))) (\<lambda>v. Inr (x\<lparr>interest_pool := v\<rparr>))) s1) (\<lambda>s2.
          Inr (s2, ()))))))"

definition donation_balance_evaluator :: "(donation_balance_operation, unit, unit) evaluator" where
  "donation_balance_evaluator = \<lparr> fee_payer = dn_issuer, op_fee = dn_fee, do_evaluate = donation_balance_do_evaluate,
     do_pay_fee = default_pay_fee, do_apply = donation_balance_do_apply \<rparr>"

section \<open>The operations keep the ledger\<close>

lemma get_lock_data_Inr [ok_simps]:
  "get_lock_data s a = Inr r \<longleftrightarrow> (\<exists>l d. lock_data_id a = Some l \<and> index_find (asset_lock s) l = Some d \<and> r = (l, d))"
  by (auto simp: get_lock_data_def ok_simps index_get_def split: option.splits)

lemma lock_asset_of:
  assumes "chain_inv s" "index_find (assets s) i = Some a" "lock_data_id a = Some l" "index_find (asset_lock s) l = Some d"
  shows "lock_asset_id d = i"
proof -
  have "lock_id s i = Some l" using assms(2,3) by (simp add: lock_id_def)
  then have "lock_asset s l = Some i" using assms(1) by (simp add: chain_inv_def)
  then show ?thesis using assms(4) by (simp add: lock_asset_def)
qed

lemma modify_balance_keeps:
  assumes "chain_inv s" "modify_balance k f s = Inr s'"
    and keep: "\<And>b b'. f b = Inr b' \<Longrightarrow> balance b' = balance b \<and> asset_type b' = asset_type b"
  shows "(\<exists>t. s' = put_balances t s) \<and> conserves s s'"
proof -
  obtain x x' where step: "f x = Inr x'" "chain_inv s'" "\<forall>a. ledger a s' = ledger a s - balance_in a x + balance_in a x'"
    using bal_tab.modify_step [OF assms(1,2)] by blast
  obtain b b' where b: "index_find (balances s) k = Some b" "f b = Inr b'"
    "s' = put_balances (balances s\<lparr>rows := row_put k b' (rows (balances s))\<rparr>) s"
    using assms(2) by (auto simp: table_modify_def ok_simps index_modify_Inr)
  have "balances_nonneg s \<Longrightarrow> balances_nonneg s'"
    using b keep [OF b(2)] map_of_SomeD [OF b(1) [unfolded index_find_def]]
    by (auto simp: balances_nonneg_def dest!: set_row_put_sub)
  moreover have "chain_inv s'" "\<forall>a. ledger a s' = ledger a s"
    using step keep [OF step(1)] by (simp_all add: balance_in_def)
  moreover have "\<exists>t. s' = put_balances t s" using b(3) by blast
  ultimately show ?thesis by (simp add: conserves_def)
qed

context fc_laws
begin

lemma change_pool_step:
  assumes "chain_inv s" "lock_asset s l = Some i"
    "modify_asset_lock l (\<lambda>x. bind (g x) (\<lambda>v. Inr (x\<lparr>interest_pool := v\<rparr>))) s = Inr s'"
    and delta: "\<And>x v. g x = Inr v \<Longrightarrow> v = interest_pool x + dv"
  shows "(\<exists>t. s' = put_asset_lock t s) \<and> chain_inv s' \<and> (\<forall>a. ledger a s' = ledger a s + (if a = i then dv else 0))"
proof -
  have keep: "bind (g x) (\<lambda>v. Inr (x\<lparr>interest_pool := v\<rparr>)) = Inr x' \<Longrightarrow> lock_asset_id x' = lock_asset_id x" for x x'
    by (auto simp: ok_simps)
  obtain x x' t where x: "index_find (asset_lock s) l = Some x" "bind (g x) (\<lambda>v. Inr (x\<lparr>interest_pool := v\<rparr>)) = Inr x'"
    "s' = put_asset_lock t s" "chain_inv s'" "\<forall>a. ledger a s' = ledger a s - pool_in a x + pool_in a x'"
    using modify_asset_lock_step [OF assms(1,3) keep] by blast
  obtain v where "g x = Inr v" "x' = x\<lparr>interest_pool := v\<rparr>" using x(2) by (auto simp: ok_simps)
  then have "pool_in a x' = pool_in a x + (if a = i then dv else 0)" for a
    using delta assms(2) x(1) by (auto simp: pool_in_def lock_asset_def)
  then show ?thesis using x(3-5) by auto
qed

lemma lock_balance_conserves:
  assumes inv: "chain_inv s" and e: "snd e = fst e + amount (lk_amount op)"
    and ok: "lock_balance_do_apply F op e fs s = Inr (s', r)"
  shows "conserves s s'"
proof -
  let ?i = "asset_id (lk_amount op)"
  let ?n = "mk_asset (- amount (lk_amount op)) ?i"
  let ?lb = "\<lparr> initial_lock_balance = amount (lk_amount op), locked_balance = snd e, lock_time = head_block_time s,
              lock_period = lk_period op, lb_lock_type = Lock_User_Set, lb_asset_id = ?i, finish = False \<rparr>"
  obtain a l d s1 new_id k b s2 s3 s4 where a: "index_find (assets s) ?i = Some a" "lock_data_id a = Some l"
      "index_find (asset_lock s) l = Some d"
    and s1: "table_create locked_balances put_locked_balances no_clash ?lb s = Inr (s1, new_id)"
    and s2: "adjust_balance F (lk_issuer op) ?n s1 = Inr s2"
    and s3: "modify_balance k (add_lock_balance new_id) s2 = Inr s3"
    and s4: "modify_asset_lock l (\<lambda>x. bind (safe_sub F (interest_pool x) (fst e)) (\<lambda>v. Inr (x\<lparr>interest_pool := v\<rparr>))) s3 = Inr s4"
    and s': "modify_asset_dyn (dynamic_asset_data_id a) (\<lambda>x.
                bind (safe_add F (dyn_locked_balance x) (snd e)) (\<lambda>v. Inr (x\<lparr>dyn_locked_balance := v\<rparr>))) s4 = Inr s'"
    using ok by (auto simp: lock_balance_do_apply_def ok_simps index_get_def asset_neg_Inr split: option.splits)
  note 1 = locked_tab.create_step [OF inv s1]
  then have i1: "chain_inv s1" by auto
  note 2 = adjust_balance_step [OF i1 s2]
  then have i2: "chain_inv s2" by auto
  have 3: "(\<exists>t. s3 = put_balances t s2) \<and> conserves s2 s3"
    by (rule modify_balance_keeps [OF i2 s3]) (auto simp: add_lock_balance_def ok_simps)
  then have i3: "chain_inv s3" by (simp add: conserves_def)
  have same: "assets s3 = assets s" "asset_lock s3 = asset_lock s" using 1 2 3 by auto
  have "lock_asset s3 l = Some ?i" using lock_asset_of [OF inv a] a(3) same by (simp add: lock_asset_def)
  note 4 = change_pool_step [OF i3 this s4, of "- fst e", simplified safe_Inr, simplified]
  then have i4: "chain_inv s4" by auto
  note 5 = modify_asset_dyn_step [OF i4 s']
  have nn: "balances_nonneg s1 = balances_nonneg s" "balances_nonneg s4 = balances_nonneg s3"
    "balances_nonneg s' = balances_nonneg s4" using 1 4 5 by auto
  have "ledger x s' = ledger x s4" for x using 5 by (auto simp: ok_simps net_def fee_pool_in_def)
  moreover have "ledger x s4 = ledger x s2 + (if x = ?i then - fst e else 0)" for x using 3 4 by (auto simp: conserves_def)
  moreover have "ledger x s2 = ledger x s + (if x = ?i then snd e - amount (lk_amount op) else 0)" for x
    using 1 2 by (auto simp: locked_in_def asset_in_def)
  ultimately show ?thesis using nn 2 3 5 e by (auto simp: conserves_def)
qed

lemma set_lock_data_conserves:
  assumes inv: "chain_inv s" and v: "0 \<le> amount (sl_init_interest_pool op)"
    and ok: "set_lock_data_do_apply F op e fs s = Inr (s', r)"
  shows "conserves s s'"
proof -
  let ?p = "sl_init_interest_pool op"
  obtain s1 s2 k where s1: "(if amount ?p > 0 then bind (asset_neg F ?p) (\<lambda>n. adjust_balance F (sl_issuer op) n s) else Inr s) = Inr s1"
    and s2: "table_create asset_lock put_asset_lock no_clash (new_lock_data op) s1 = Inr (s2, k)"
    and s': "modify_asset (asset_id ?p) (\<lambda>a. Inr (a\<lparr>lock_data_id := Some k\<rparr>)) s2 = Inr s'"
    using ok by (auto simp: set_lock_data_do_apply_def Let_def ok_simps)
  have 1: "chain_inv s1 \<and> (\<forall>a. ledger a s1 = ledger a s - asset_in a ?p) \<and> (balances_nonneg s \<longrightarrow> balances_nonneg s1)"
  proof (cases "amount ?p > 0")
    case True
    then have "adjust_balance F (sl_issuer op) (mk_asset (- amount ?p) (asset_id ?p)) s = Inr s1"
      using s1 by (auto simp: ok_simps asset_neg_Inr)
    then show ?thesis
      using adjust_balance_step [OF inv] by (auto simp: asset_in_def)
  qed (use s1 inv v in \<open>auto simp: asset_in_def\<close>)
  note 2 = create_asset_lock_step [OF conjunct1 [OF 1] s2]
  then have i2: "chain_inv s2" by auto
  have la: "lock_asset s2 k = Some (asset_id ?p)" using 2 by (auto simp: new_lock_data_def Let_def)
  have 3: "\<exists>t. s' = put_assets t s2" "chain_inv s'" "\<forall>a. ledger a s' = ledger a s2"
    using modify_asset_step [OF i2 s'] la by (auto simp: asset_ok_def)
  have "balances_nonneg s' = balances_nonneg s1" using 2 3 by auto
  then show ?thesis using 1 2 3 by (auto simp: conserves_def new_lock_data_def Let_def pool_in_def asset_in_def)
qed

lemma pay_unlocked_step:
  assumes inv: "chain_inv s" and l: "lock_asset s l = Some (lb_asset_id item)"
    and ok: "pay_unlocked F op item l d s = Inr s'"
  shows "chain_inv s' \<and> locked_balances s' = locked_balances s \<and> (balances_nonneg s \<longrightarrow> balances_nonneg s') \<and>
    (\<forall>a. ledger a s' = ledger a s + (if a = lb_asset_id item then locked_balance item else 0))"
proof -
  obtain due where due: "(if ul_expired op then bind (get_unlock_time F item) (\<lambda>t. Inr (head_block_time s \<ge> t)) else Inr False) = Inr due"
    using ok by (auto simp: pay_unlocked_def ok_simps)
  show ?thesis
  proof (cases due)
    case True
    then have "adjust_balance F (ul_issuer op) (mk_asset (locked_balance item) (lb_asset_id item)) s = Inr s'"
      using ok due by (auto simp: pay_unlocked_def ok_simps)
    then show ?thesis using adjust_balance_step [OF inv] by (fastforce simp: asset_in_def)
  next
    case False
    then obtain s1 where s1: "adjust_balance F (ul_issuer op) (mk_asset (initial_lock_balance item) (lb_asset_id item)) s = Inr s1"
      and s': "modify_asset_lock l (\<lambda>x. bind (bind (safe_sub F (locked_balance item) (initial_lock_balance item))
          (safe_add F (interest_pool x))) (\<lambda>v. Inr (x\<lparr>interest_pool := v\<rparr>))) s1 = Inr s'"
      using ok due by (auto simp: pay_unlocked_def ok_simps bind_result_assoc split: if_splits)
    note 1 = adjust_balance_step [OF inv s1]
    then have i1: "chain_inv s1" "lock_asset s1 l = Some (lb_asset_id item)" using l by auto
    note 2 = change_pool_step [OF i1 s', of "locked_balance item - initial_lock_balance item"]
    then have "(\<exists>t. s' = put_asset_lock t s1) \<and> chain_inv s' \<and> (\<forall>a. ledger a s' = ledger a s1 +
        (if a = lb_asset_id item then locked_balance item - initial_lock_balance item else 0))"
      by (auto simp: ok_simps safe_Inr)
    moreover from this have "balances_nonneg s' = balances_nonneg s1" "locked_balances s' = locked_balances s" using 1 by auto
    ultimately show ?thesis using 1 by (auto simp: asset_in_def)
  qed
qed

lemma unlock_balance_conserves:
  assumes inv: "chain_inv s" and ok: "unlock_balance_do_apply F op e fs s = Inr (s', r)"
  shows "conserves s s'"
proof -
  let ?i = "ul_locked_id op"
  obtain item a l d k b s1 s2 where item: "index_find (locked_balances s) ?i = Some item" "\<not> finish item"
    and a: "index_find (assets s) (lb_asset_id item) = Some a" "lock_data_id a = Some l" "index_find (asset_lock s) l = Some d"
    and s1: "pay_unlocked F op item l d s = Inr s1"
    and s2: "modify_locked_balance ?i (\<lambda>x. Inr (x\<lparr>finish := True\<rparr>)) s1 = Inr s2"
    and s': "modify_balance k (unlock_balance_of ?i) s2 = Inr s'"
    using ok by (auto simp: unlock_balance_do_apply_def ok_simps index_get_def split: option.splits)
  have l: "lock_asset s l = Some (lb_asset_id item)" using lock_asset_of [OF inv a] a(3) by (simp add: lock_asset_def)
  note 1 = pay_unlocked_step [OF inv l s1]
  then have i1: "chain_inv s1" by simp
  note 2 = locked_tab.modify_step [OF i1 s2]
  then have i2: "chain_inv s2" by auto
  have 3: "conserves s2 s'"
    using modify_balance_keeps [OF i2 s'] by (auto simp: unlock_balance_of_def ok_simps)
  have "balances_nonneg s2 = balances_nonneg s1" using 2 by auto
  moreover have "\<forall>a. ledger a s2 = ledger a s" using 1 2 item by (auto simp: locked_in_def)
  ultimately show ?thesis using 1 3 by (auto simp: conserves_def)
qed

lemma donation_conserves:
  assumes inv: "chain_inv s" and ok: "donation_balance_do_apply F op e fs s = Inr (s', r)"
  shows "conserves s s'"
proof -
  let ?i = "asset_id (dn_amount op)"
  obtain a l d s1 where a: "index_find (assets s) ?i = Some a" "lock_data_id a = Some l" "index_find (asset_lock s) l = Some d"
    and s1: "adjust_balance F (dn_issuer op) (mk_asset (- amount (dn_amount op)) ?i) s = Inr s1"
    and s': "modify_asset_lock l (\<lambda>x. bind (safe_add F (interest_pool x) (amount (dn_amount op)))
        (\<lambda>v. Inr (x\<lparr>interest_pool := v\<rparr>))) s1 = Inr s'"
    using ok by (auto simp: donation_balance_do_apply_def ok_simps asset_neg_Inr split: option.splits)
  have l: "lock_asset s l = Some ?i" using lock_asset_of [OF inv a] a(3) by (simp add: lock_asset_def)
  note 1 = adjust_balance_step [OF inv s1]
  then have i1: "chain_inv s1" "lock_asset s1 l = Some ?i" using l by auto
  note 2 = change_pool_step [OF i1 s', of "amount (dn_amount op)"]
  then have 2: "(\<exists>t. s' = put_asset_lock t s1) \<and> chain_inv s' \<and>
      (\<forall>a. ledger a s' = ledger a s1 + (if a = ?i then amount (dn_amount op) else 0))" by (auto simp: safe_Inr)
  then have "balances_nonneg s' = balances_nonneg s1" by auto
  then show ?thesis using 1 2 by (auto simp: conserves_def asset_in_def)
qed

end

interpretation lock_ev: conserving_evaluator lock_balance_evaluator "\<lambda>op s. True"
proof unfold_locales
  fix F op fs s0 s s' e r
  assume F: "fc_laws F" and inv: "chain_inv s" and ev: "do_evaluate lock_balance_evaluator F op fs s0 = Inr (e, fs)"
    and ap: "do_apply lock_balance_evaluator F op e fs s = Inr (s', r)"
  have "snd e = fst e + amount (lk_amount op)"
    using ev by (auto simp: lock_balance_evaluator_def lock_balance_do_evaluate_def ok_simps fc_laws.safe_add_Inr [OF F])
  then show "conserves s s'"
    using fc_laws.lock_balance_conserves [OF F inv] ap by (simp add: lock_balance_evaluator_def)
qed (auto simp: lock_balance_evaluator_def lock_balance_do_evaluate_def ok_simps)

interpretation set_lock_ev: conserving_evaluator set_lock_data_evaluator "\<lambda>op s. set_lock_data_validate op = Inr ()"
  by unfold_locales (auto simp: set_lock_data_evaluator_def set_lock_data_do_evaluate_def Let_def ok_simps
    set_lock_data_validate_def split: option.splits intro: fc_laws.set_lock_data_conserves)

interpretation unlock_ev: conserving_evaluator unlock_balance_evaluator "\<lambda>op s. True"
  by unfold_locales (auto simp: unlock_balance_evaluator_def unlock_balance_do_evaluate_def ok_simps
    dest: fc_laws.unlock_balance_conserves)

interpretation donation_ev: conserving_evaluator donation_balance_evaluator "\<lambda>op s. True"
  by unfold_locales (auto simp: donation_balance_evaluator_def donation_balance_do_evaluate_def ok_simps
    dest: fc_laws.donation_conserves)

section \<open>Interest is bounded by the pool\<close>

lemma u128_to_int64_small:
  assumes "uint w < 2 ^ 63"
  shows "u128_to_int64 w = uint w"
proof -
  have "uint (ucast w :: u64) = uint w" using assms by (simp add: unsigned_ucast_eq take_bit_int_eq_self)
  moreover have "- (2 ^ 63) \<le> uint w" by (rule order_trans [OF _ uint_ge_0]) simp
  ultimately show ?thesis using assms signed_take_bit_int_eq_self [of 63 "uint w"]
    unfolding u128_to_int64_def by (simp add: sint_uint)
qed

lemma ucast_ucast_small: "uint w < 2 ^ 64 \<Longrightarrow> (ucast (ucast (w :: u128) :: u64) :: u128) = w"
  by (simp add: word_uint_eq_iff unsigned_ucast_eq unsigned_take_bit_eq take_bit_int_eq_self)

lemma percent_of_pool:
  assumes "0 \<le> pool" "pool < 2 ^ 63" "uint (pc :: u32) \<le> GRAPHENE_100_PERCENT"
  shows "uint (word_of_int pool * ucast pc div word_of_int GRAPHENE_100_PERCENT :: u128) \<le> pool"
proof -
  have pc: "(ucast pc :: u128) = word_of_int (uint pc)" by (simp add: word_uint_eq_iff)
  have "uint (u128_muldiv pool (uint pc) GRAPHENE_100_PERCENT) = pool * uint pc div GRAPHENE_100_PERCENT"
    using assms by (intro uint_u128_muldiv_int64) (auto simp: GRAPHENE_100_PERCENT_def)
  also have "\<dots> \<le> pool" using assms by (intro muldiv_le) (auto simp: GRAPHENE_100_PERCENT_def)
  finally show ?thesis by (simp only: u128_muldiv_def pc)
qed

context fc_laws
begin

lemma get_interest_rate:
  assumes ok: "get_interest F d prec supply period = Inr r"
    and pool: "0 \<le> interest_pool d" "interest_pool d < 2 ^ 63"
    and pc: "uint (profile_receive_percent d) \<le> GRAPHENE_100_PERCENT"
  shows "base r = mk_asset (sint (interest_unit prec)) (lock_asset_id d) \<and> asset_id (quote r) = lock_asset_id d \<and>
    sint (interest_unit prec) \<le> amount (quote r) \<and> amount (quote r) \<le> sint (interest_unit prec) + interest_pool d \<and>
    amount (quote r) < 2 ^ 63"
proof -
  let ?k = "mk_asset (sint (interest_unit prec)) (lock_asset_id d)"
  let ?cap = "word_of_int (interest_pool d) * ucast (profile_receive_percent d) div word_of_int GRAPHENE_100_PERCENT :: u128"
  have cap: "uint ?cap \<le> interest_pool d" using percent_of_pool [OF pool pc] .
  obtain actual :: u128 where
    q: "asset_add F (mk_asset (u128_to_int64 (if uint actual \<ge> interest_pool d then ucast (ucast ?cap :: u64) else actual))
          (lock_asset_id d)) ?k = Inr (quote r)" and b: "base r = ?k"
    using ok unfolding get_interest_def Let_def ok_simps by (elim exE conjE) auto
  let ?x = "if uint actual \<ge> interest_pool d then ucast (ucast ?cap :: u64) else actual"
  have x: "uint ?x \<le> interest_pool d" "uint ?x < 2 ^ 63"
    using cap pool ucast_ucast_small [of ?cap] by auto
  have "asset_add F (mk_asset (uint ?x) (lock_asset_id d)) ?k = Inr (quote r)"
    using q u128_to_int64_small [OF x(2)] by simp
  then have "amount (quote r) = uint ?x + sint (interest_unit prec)" "asset_id (quote r) = lock_asset_id d"
    "amount (quote r) < 2 ^ 63"
    by (simp_all add: asset_add_Inr in_int64_def)
  moreover have "0 \<le> uint ?x" by (rule uint_ge_0)
  ultimately show ?thesis using b x(1) by linarith
qed

lemma get_profit_bounds:
  assumes ok: "get_profit F d prec supply x period = Inr p" and x: "0 \<le> x" "x < 2 ^ 63"
    and pool: "0 \<le> interest_pool d" "interest_pool d < 2 ^ 63"
    and pc: "uint (profile_receive_percent d) \<le> GRAPHENE_100_PERCENT"
  shows "0 \<le> p \<and> p \<le> x * interest_pool d div sint (interest_unit prec)"
proof -
  let ?k = "sint (interest_unit prec)"
  obtain r g where r: "get_interest F d prec supply period = Inr r" and g: "asset_mul (mk_asset x (lock_asset_id d)) r = Inr g"
    and p: "p = amount g - x"
    using ok by (auto simp: get_profit_def ok_simps asset_sub_def safe_Inr)
  note rate = get_interest_rate [OF r pool pc]
  let ?q = "amount (quote r)"
  have k: "0 < ?k" using g rate by (auto simp: asset_mul_def ok_simps)
  have k63: "?k < 2 ^ 63" using rate by linarith
  have "scale x ?q ?k (lock_asset_id d) = Inr g" using g rate k by (simp add: asset_mul_def)
  then have am: "amount g = x * ?q div ?k" using scale_Inr [of x ?q ?k] x k k63 rate by auto
  have "x * ?k \<le> x * ?q" using rate x by (intro mult_left_mono) auto
  then have "x \<le> amount g" using am k zdiv_mono1 [of "x * ?k" "x * ?q" ?k] by simp
  moreover have "x * ?q \<le> x * interest_pool d + x * ?k"
    using mult_left_mono [of ?q "?k + interest_pool d" x] rate x by (simp add: algebra_simps)
  then have "amount g \<le> (x * interest_pool d + x * ?k) div ?k" unfolding am using k by (intro zdiv_mono1) auto
  then have "amount g \<le> x * interest_pool d div ?k + x" using k by simp
  ultimately show ?thesis using p by simp
qed

end

section \<open>Following a balance through a lock\<close>

lemma modify_balance_bal:
  assumes inv: "chain_inv s" and m: "modify_balance k f s = Inr s'"
    and keep: "\<And>b b'. f b = Inr b' \<Longrightarrow> balance b' = balance b \<and> asset_type b' = asset_type b \<and> ab_owner b' = ab_owner b"
  shows "bal s' = bal s"
proof (intro ext)
  fix o1 a
  let ?P = "\<lambda>b. ab_owner b = o1 \<and> asset_type b = a"
  have inv_b: "index_inv (balances s)" using inv by (simp add: chain_inv_def)
  obtain b b' where b: "index_find (balances s) k = Some b" "f b = Inr b'"
    "balances s' = balances s\<lparr>rows := row_put k b' (rows (balances s))\<rparr>"
    using m by (auto simp: table_modify_def ok_simps index_modify_Inr)
  have u: "\<And>x. (k, x) \<in> set (rows (balances s)) \<Longrightarrow> x = b"
    using b(1) index_inv_distinct [OF inv_b] by (simp add: index_find_def)
  show "bal s' o1 a = bal s o1 a"
  proof (cases "\<exists>x. find_row ?P (balances s) = Some (k, x)")
    case True
    then obtain x where x: "find_row ?P (balances s) = Some (k, x)" by blast
    then have "x = b" "?P b'" using u keep [OF b(2)] find_row_Some [OF x] by auto
    then show ?thesis using x find_row_put_same [OF x _ inv_b, of b'] b(3) keep [OF b(2)]
      by (simp add: bal_row balance_row_def)
  next
    case False
    have "find_row ?P (balances s') = find_row ?P (balances s)" if "\<not> ?P b"
      using that u keep [OF b(2)] unfolding b(3) by (intro find_row_put_other) auto
    moreover have "find_row ?P (balances s') = find_row ?P (balances s)" if "?P b"
    proof -
      have "List.find (\<lambda>(k, x). ?P x) (row_put k b' rs) = List.find (\<lambda>(k, x). ?P x) rs"
        if "\<nexists>x. List.find (\<lambda>(k, x). ?P x) rs = Some (k, x)" "\<And>x. (k, x) \<in> set rs \<Longrightarrow> x = b" for rs
        using that
      proof (induction rs)
        case (Cons r rs)
        then show ?case using \<open>?P b\<close> by (cases r) (auto split: if_splits)
      qed simp
      then show ?thesis using False u unfolding b(3) by (simp add: find_row_def)
    qed
    ultimately have "find_row ?P (balances s') = find_row ?P (balances s)" by blast
    then show ?thesis by (simp add: bal_row balance_row_def)
  qed
qed

definition pool_of :: "database \<Rightarrow> nat \<Rightarrow> int option" where
  "pool_of s l = map_option interest_pool (index_find (asset_lock s) l)"

context fc_laws
begin

lemma change_pool_value:
  assumes "chain_inv s" "modify_asset_lock l (\<lambda>x. bind (g x) (\<lambda>v. Inr (x\<lparr>interest_pool := v\<rparr>))) s = Inr s'"
    "\<And>x v. g x = Inr v \<Longrightarrow> v = interest_pool x + dv" "pool_of s l = Some p"
  shows "pool_of s' l = Some (p + dv)"
proof -
  have keep: "bind (g x) (\<lambda>v. Inr (x\<lparr>interest_pool := v\<rparr>)) = Inr x' \<Longrightarrow> lock_asset_id x' = lock_asset_id x" for x x'
    by (auto simp: ok_simps)
  obtain x x' t where x: "index_find (asset_lock s) l = Some x" "bind (g x) (\<lambda>v. Inr (x\<lparr>interest_pool := v\<rparr>)) = Inr x'"
    "s' = put_asset_lock t s" "index_find t = (index_find (asset_lock s))(l \<mapsto> x')"
    using modify_asset_lock_step [OF assms(1,2) keep] by blast
  then show ?thesis using assms(3,4) by (auto simp: ok_simps pool_of_def)
qed

lemma lock_balance_effect:
  assumes inv: "chain_inv s" and ok: "lock_balance_do_apply F op e fs s = Inr (s', r)"
  defines "i \<equiv> asset_id (lk_amount op)"
  shows "\<exists>a l p. index_find (assets s) i = Some a \<and> lock_data_id a = Some l \<and> assets s' = assets s \<and>
    pool_of s l = Some p \<and> pool_of s' l = Some (p - fst e) \<and> lock_asset s' l = Some i \<and>
    index_find (locked_balances s') (next_id (locked_balances s)) =
      Some \<lparr> initial_lock_balance = amount (lk_amount op), locked_balance = snd e, lock_time = head_block_time s,
             lock_period = lk_period op, lb_lock_type = Lock_User_Set, lb_asset_id = i, finish = False \<rparr> \<and>
    (\<forall>o1 x. bal s' o1 x = bal s o1 x - (if o1 = lk_issuer op \<and> x = i then amount (lk_amount op) else 0))"
proof -
  let ?lb = "\<lparr> initial_lock_balance = amount (lk_amount op), locked_balance = snd e, lock_time = head_block_time s,
              lock_period = lk_period op, lb_lock_type = Lock_User_Set, lb_asset_id = i, finish = False \<rparr>"
  obtain a l d s1 new_id k s2 s3 s4 where a: "index_find (assets s) i = Some a" "lock_data_id a = Some l"
      "index_find (asset_lock s) l = Some d"
    and s1: "table_create locked_balances put_locked_balances no_clash ?lb s = Inr (s1, new_id)"
    and s2: "adjust_balance F (lk_issuer op) (mk_asset (- amount (lk_amount op)) i) s1 = Inr s2"
    and s3: "modify_balance k (add_lock_balance new_id) s2 = Inr s3"
    and s4: "modify_asset_lock l (\<lambda>x. bind (safe_sub F (interest_pool x) (fst e)) (\<lambda>v. Inr (x\<lparr>interest_pool := v\<rparr>))) s3 = Inr s4"
    and s': "modify_asset_dyn (dynamic_asset_data_id a) (\<lambda>x.
                bind (safe_add F (dyn_locked_balance x) (snd e)) (\<lambda>v. Inr (x\<lparr>dyn_locked_balance := v\<rparr>))) s4 = Inr s'"
    using ok by (auto simp: lock_balance_do_apply_def i_def ok_simps index_get_def asset_neg_Inr split: option.splits)
  note 1 = locked_tab.create_step [OF inv s1]
  have new: "new_id = next_id (locked_balances s)"
    using s1 by (auto simp: table_create_def ok_simps index_create_Inr)
  have i1: "chain_inv s1" "index_find (locked_balances s1) new_id = Some ?lb" "bal s1 = bal s"
    "assets s1 = assets s" "asset_lock s1 = asset_lock s" using 1 by auto
  note 2 = adjust_balance_step [OF i1(1) s2]
  have i2: "chain_inv s2" "locked_balances s2 = locked_balances s1" "assets s2 = assets s" "asset_lock s2 = asset_lock s"
    using 2 i1 by auto
  have 3: "(\<exists>t. s3 = put_balances t s2) \<and> conserves s2 s3"
    by (rule modify_balance_keeps [OF i2(1) s3]) (auto simp: add_lock_balance_def ok_simps)
  have b3: "bal s3 = bal s2" by (rule modify_balance_bal [OF i2(1) s3]) (auto simp: add_lock_balance_def ok_simps)
  have i3: "chain_inv s3" "locked_balances s3 = locked_balances s1" "assets s3 = assets s" "asset_lock s3 = asset_lock s"
    using 3 i2 by (auto simp: conserves_def)
  have la: "lock_asset s3 l = Some i" using lock_asset_of [OF inv a] a(3) i3 by (simp add: lock_asset_def)
  note 4 = change_pool_step [OF i3(1) la s4, of "- fst e", simplified safe_Inr, simplified]
  have i4: "chain_inv s4" "locked_balances s4 = locked_balances s1" "assets s4 = assets s" "bal s4 = bal s3" using 4 i3 by auto
  have pool4: "pool_of s4 l = Some (interest_pool d - fst e)"
    using change_pool_value [OF i3(1) s4, of "- fst e" "interest_pool d"] a(3) i3(4) by (simp add: safe_Inr pool_of_def)
  have la4: "lock_asset s4 l = Some i" using i4(1) a i4(3) by (simp add: chain_inv_def lock_id_def)
  obtain t where t: "s' = put_asset_dyn t s4" using modify_asset_dyn_step [OF i4(1) s'] by blast
  have "pool_of s' = pool_of s4" "lock_asset s' = lock_asset s4" "bal s' = bal s4" "assets s' = assets s"
    "locked_balances s' = locked_balances s1"
    using t i4 by (auto simp: pool_of_def)
  moreover have "pool_of s l = Some (interest_pool d)" using a(3) by (simp add: pool_of_def)
  moreover have "bal s4 o1 x = bal s o1 x - (if o1 = lk_issuer op \<and> x = i then amount (lk_amount op) else 0)" for o1 x
    using 2 b3 i1(3) i4(4) by auto
  ultimately show ?thesis using a pool4 la4 new i1(2) by (intro exI [of _ a] exI [of _ l] exI [of _ "interest_pool d"]) auto
qed

lemma pay_unlocked_effect:
  assumes inv: "chain_inv s" and p: "pool_of s l = Some p" and ok: "pay_unlocked F op item l d s = Inr s'"
  defines "due \<equiv> ul_expired op \<and> uint (lock_time item) + uint (lock_period item) \<le> uint (head_block_time s)"
  shows "chain_inv s \<and> (\<forall>o1 x. bal s' o1 x = bal s o1 x + (if o1 = ul_issuer op \<and> x = lb_asset_id item then
      (if due then locked_balance item else initial_lock_balance item) else 0)) \<and>
    pool_of s' l = Some (p + (if due then 0 else locked_balance item - initial_lock_balance item)) \<and>
    (due \<or> can_unlock_not_expired d)"
proof -
  obtain b where b: "(if ul_expired op then bind (get_unlock_time F item) (\<lambda>t. Inr (head_block_time s \<ge> t)) else Inr False) = Inr b"
    using ok by (auto simp: pay_unlocked_def ok_simps)
  have due: "b = due"
    using b by (auto simp: due_def get_unlock_time_def ok_simps safe_add32_Inr word_le_def uint_word_ariths split: if_splits)
  show ?thesis
  proof (cases due)
    case True
    then have a: "adjust_balance F (ul_issuer op) (mk_asset (locked_balance item) (lb_asset_id item)) s = Inr s'"
      using ok b due by (auto simp: pay_unlocked_def ok_simps)
    note 1 = adjust_balance_step [OF inv a]
    then have "pool_of s' = pool_of s" by (auto simp: pool_of_def)
    then show ?thesis using 1 True inv p by auto
  next
    case False
    then obtain s1 where s1: "adjust_balance F (ul_issuer op) (mk_asset (initial_lock_balance item) (lb_asset_id item)) s = Inr s1"
      and s': "modify_asset_lock l (\<lambda>x. bind (bind (safe_sub F (locked_balance item) (initial_lock_balance item))
          (safe_add F (interest_pool x))) (\<lambda>v. Inr (x\<lparr>interest_pool := v\<rparr>))) s1 = Inr s'"
      and can: "can_unlock_not_expired d"
      using ok b due by (auto simp: pay_unlocked_def ok_simps bind_result_assoc split: if_splits)
    note 1 = adjust_balance_step [OF inv s1]
    have i1: "chain_inv s1" "pool_of s1 l = Some p" using 1 p by (auto simp: pool_of_def)
    have "bal s' = bal s1" using s' by (auto simp: table_modify_def ok_simps)
    moreover have "pool_of s' l = Some (p + (locked_balance item - initial_lock_balance item))"
      by (rule change_pool_value [OF i1(1) s' _ i1(2)]) (auto simp: ok_simps safe_Inr)
    ultimately show ?thesis using 1 False inv can by auto
  qed
qed

lemma unlock_balance_effect:
  assumes inv: "chain_inv s" and ok: "unlock_balance_do_apply F op e fs s = Inr (s', r)"
    and item: "index_find (locked_balances s) (ul_locked_id op) = Some item"
    and a: "index_find (assets s) (lb_asset_id item) = Some a" "lock_data_id a = Some l" and p: "pool_of s l = Some p"
  defines "due \<equiv> ul_expired op \<and> uint (lock_time item) + uint (lock_period item) \<le> uint (head_block_time s)"
  shows "(\<forall>o1 x. bal s' o1 x = bal s o1 x + (if o1 = ul_issuer op \<and> x = lb_asset_id item then
      (if due then locked_balance item else initial_lock_balance item) else 0)) \<and>
    pool_of s' l = Some (p + (if due then 0 else locked_balance item - initial_lock_balance item)) \<and>
    index_find (locked_balances s') (ul_locked_id op) = Some (item\<lparr>finish := True\<rparr>)"
proof -
  let ?i = "ul_locked_id op"
  obtain d k s1 s2 where d: "index_find (asset_lock s) l = Some d" and s1: "pay_unlocked F op item l d s = Inr s1"
    and s2: "modify_locked_balance ?i (\<lambda>x. Inr (x\<lparr>finish := True\<rparr>)) s1 = Inr s2"
    and s': "modify_balance k (unlock_balance_of ?i) s2 = Inr s'"
    using ok item a by (auto simp: unlock_balance_do_apply_def ok_simps index_get_def split: option.splits)
  have la: "lock_asset s l = Some (lb_asset_id item)" using lock_asset_of [OF inv a d] d by (simp add: lock_asset_def)
  note 1 = pay_unlocked_step [OF inv la s1] pay_unlocked_effect [OF inv p s1]
  have i1: "chain_inv s1" "locked_balances s1 = locked_balances s" using 1(1) by auto
  note 2 = locked_tab.modify_step [OF i1(1) s2]
  have i2: "chain_inv s2" "bal s2 = bal s1" "pool_of s2 = pool_of s1"
    "index_find (locked_balances s2) ?i = Some (item\<lparr>finish := True\<rparr>)"
    using 2 item i1(2) by (auto simp: pool_of_def)
  have 3: "(\<exists>t. s' = put_balances t s2) \<and> conserves s2 s'"
    by (rule modify_balance_keeps [OF i2(1) s']) (auto simp: unlock_balance_of_def ok_simps)
  have b3: "bal s' = bal s2" by (rule modify_balance_bal [OF i2(1) s']) (auto simp: unlock_balance_of_def ok_simps)
  have "pool_of s' = pool_of s2" "locked_balances s' = locked_balances s2" using 3 by (auto simp: pool_of_def)
  then show ?thesis using 1(2) b3 i2 unfolding due_def by simp
qed

end

context fc_laws
begin

lemma adjust_balance_lockeds:
  assumes "chain_inv s" "adjust_balance F acct delta s = Inr s'" "index_find (balances s) k = Some b"
  shows "\<exists>b'. index_find (balances s') k = Some b' \<and> lockeds b' = lockeds b"
proof (cases "amount delta = 0")
  case True
  then show ?thesis using assms by (simp add: adjust_balance_def)
next
  case False
  then show ?thesis
  proof (cases "balance_row s acct (asset_id delta)")
    case None
    let ?b = "\<lparr> ab_owner = acct, asset_type = asset_id delta, balance = amount delta, lockeds = {} \<rparr>"
    obtain k' where c: "table_create balances put_balances same_account_asset ?b s = Inr (s', k')"
      using assms(2) None False by (auto simp: adjust_balance_def ok_simps)
    show ?thesis using bal_tab.create_step [OF assms(1) c] assms(3) by auto
  next
    case (Some r)
    then obtain k' where m: "modify_balance k' (adjust_balance_object F delta) s = Inr s'"
      using assms(2) False by (cases r) (auto simp: adjust_balance_def ok_simps)
    show ?thesis using bal_tab.modify_step [OF assms(1) m] assms(3)
      by (auto simp: adjust_balance_object_def ok_simps)
  qed
qed

lemma pay_unlocked_lockeds:
  assumes "chain_inv s" "pay_unlocked F op item l d s = Inr s'" "index_find (balances s) k = Some b"
  shows "\<exists>b'. index_find (balances s') k = Some b' \<and> lockeds b' = lockeds b"
proof -
  obtain x s1 where s1: "adjust_balance F (ul_issuer op) x s = Inr s1" and "balances s' = balances s1"
    using assms(2) by (auto simp: pay_unlocked_def ok_simps table_modify_def split: if_splits)
  then show ?thesis using adjust_balance_lockeds [OF assms(1) s1 assms(3)] by simp
qed

end

lemma chain_inv_dgp [simp]: "chain_inv (s\<lparr>dgp := g\<rparr>) = chain_inv s"
  by (simp add: chain_inv_def)

section \<open>Properties\<close>

text \<open>
  C34. Locking and unlocking is a round trip. After the lock period the account gets back what it
  locked plus the promised profit, which left the interest pool; before it, unlocking returns exactly the locked amount
  and the pool gets its profit back. No other balance changes.
\<close>

theorem lock_then_unlock:
  assumes "fc_laws F" "chain_inv s" "snd e = fst e + amount (lk_amount op)"
    "lock_balance_do_apply F op e fs s = Inr (s1, r1)"
    "unlock_balance_do_apply F uop e2 fs2 (s1\<lparr>dgp := g\<rparr>) = Inr (s2, r2)"
    "ul_locked_id uop = next_id (locked_balances s)" "ul_issuer uop = lk_issuer op"
  defines "due \<equiv> ul_expired uop \<and> uint (head_block_time s) + uint (lk_period op) \<le> uint (dgp_time g)"
    and "i \<equiv> asset_id (lk_amount op)"
  shows "(\<forall>o1 x. bal s2 o1 x = bal s o1 x + (if o1 = lk_issuer op \<and> x = i \<and> due then fst e else 0)) \<and>
    (\<exists>l p. lock_id s i = Some l \<and> pool_of s l = Some p \<and> pool_of s2 l = Some (p - (if due then fst e else 0)))"
proof -
  let ?lb = "\<lparr> initial_lock_balance = amount (lk_amount op), locked_balance = snd e, lock_time = head_block_time s,
             lock_period = lk_period op, lb_lock_type = Lock_User_Set, lb_asset_id = i, finish = False \<rparr>"
  obtain a l p where a: "index_find (assets s) i = Some a" "lock_data_id a = Some l" "assets s1 = assets s"
    and p: "pool_of s l = Some p" "pool_of s1 l = Some (p - fst e)"
    and lb: "index_find (locked_balances s1) (next_id (locked_balances s)) = Some ?lb"
    and b: "\<forall>o1 x. bal s1 o1 x = bal s o1 x - (if o1 = lk_issuer op \<and> x = i then amount (lk_amount op) else 0)"
    using fc_laws.lock_balance_effect [OF assms(1,2,4)] unfolding i_def by blast
  let ?t = "s1\<lparr>dgp := g\<rparr>"
  have inv1: "chain_inv ?t" using fc_laws.lock_balance_conserves [OF assms(1-4)] by (simp add: conserves_def)
  have t: "index_find (locked_balances ?t) (ul_locked_id uop) = Some ?lb" "index_find (assets ?t) (lb_asset_id ?lb) = Some a"
    "pool_of ?t l = Some (p - fst e)" "head_block_time ?t = dgp_time g" "bal ?t = bal s1"
    using lb a p assms(6) by (simp_all add: pool_of_def head_block_time_def)
  note u = fc_laws.unlock_balance_effect [OF assms(1) inv1 assms(5) t(1,2) a(2) t(3)]
  have "bal s2 o1 x = bal s o1 x + (if o1 = lk_issuer op \<and> x = i \<and> due then fst e else 0)" for o1 x
    using u b t(4,5) assms(3,7) by (auto simp: due_def)
  moreover have "pool_of s2 l = Some (p - (if due then fst e else 0))"
    using u t(4) assms(3) by (auto simp: due_def)
  ultimately show ?thesis using a(1,2) p(1) by (auto simp: lock_id_def)
qed

definition demo_lock :: lock_balance_operation where
  "demo_lock = \<lparr> lk_fee = mk_asset 20 0, lk_issuer = 5, lk_amount = mk_asset 500 7, lk_period = 864000 \<rparr>"

definition demo_unlock :: "bool \<Rightarrow> unlock_balance_operation" where
  "demo_unlock x = \<lparr> ul_fee = mk_asset 20 0, ul_issuer = 5, ul_locked_id = 0, ul_expired = x \<rparr>"

definition demo_later :: dynamic_global_property_object where
  "demo_later = (dgp demo_chain)\<lparr>dgp_time := 1500864000\<rparr>"

lemma demo_lock_runs:
  "\<exists>s1 s2. lock_balance_do_apply fc_int64 demo_lock (30, 530) demo_fs demo_chain = Inr (s1, ()) \<and>
     unlock_balance_do_apply fc_int64 (demo_unlock True) () demo_fs (s1\<lparr>dgp := demo_later\<rparr>) = Inr (s2, ())"
  by (simp add: run_simps lock_balance_do_apply_def unlock_balance_do_apply_def pay_unlocked_def get_lock_data_def
      get_unlock_time_def add_lock_balance_def unlock_balance_of_def demo_lock_def demo_unlock_def demo_later_def demo_defs
      empty_index_def)

theorem lock_then_unlock_witness:
  "\<exists>s1 s2. lock_balance_do_apply fc_int64 demo_lock (30, 530) demo_fs demo_chain = Inr (s1, ()) \<and>
     unlock_balance_do_apply fc_int64 (demo_unlock True) () demo_fs (s1\<lparr>dgp := demo_later\<rparr>) = Inr (s2, ()) \<and>
     bal s2 5 7 = 830 \<and> pool_of s2 4 = Some 970"
proof -
  obtain s1 s2 where run: "lock_balance_do_apply fc_int64 demo_lock (30, 530) demo_fs demo_chain = Inr (s1, ())"
    "unlock_balance_do_apply fc_int64 (demo_unlock True) () demo_fs (s1\<lparr>dgp := demo_later\<rparr>) = Inr (s2, ())"
    using demo_lock_runs by blast
  have d: "bal demo_chain 5 7 = 800" "pool_of demo_chain 4 = Some 1000" "head_block_time demo_chain = 1500000000"
    "next_id (locked_balances demo_chain) = 0"
    by (simp_all add: bal_row balance_row_def find_row_def demo_chain_def demo_balance_def pool_of_def index_find_def
        head_block_time_def empty_index_def)
  have "bal s2 5 7 = 830 \<and> pool_of s2 4 = Some 970"
    using lock_then_unlock [OF fc64.fc_laws_axioms demo_chain_inv _ run] d demo_lock_id
    by (simp add: demo_lock_def demo_unlock_def demo_later_def)
  then show ?thesis using run by blast
qed

text \<open>
  A locked balance is paid out once and only to an account that holds it: a successful unlock
  means that the identifier was among the locked balances of the issuing account, and no later unlock of the same locked balance
  succeeds.
\<close>

theorem unlock_pays_holder_once:
  assumes "fc_laws F" "chain_inv s" "unlock_balance_do_apply F op e fs s = Inr (s', r)"
    "index_find (locked_balances s) (ul_locked_id op) = Some item" "ul_locked_id op2 = ul_locked_id op"
  shows "ul_locked_id op \<in> get_locked_balance_ids s (ul_issuer op) (lb_asset_id item) \<and>
    (\<nexists>x. unlock_balance_do_apply F op2 e2 fs2 s' = Inr x)"
proof -
  let ?i = "ul_locked_id op"
  obtain a l d k b s1 s2 where a: "index_find (assets s) (lb_asset_id item) = Some a" "lock_data_id a = Some l"
      "index_find (asset_lock s) l = Some d"
    and kb: "balance_row s (ul_issuer op) (lb_asset_id item) = Some (k, b)"
    and s1: "pay_unlocked F op item l d s = Inr s1"
    and s2: "modify_locked_balance ?i (\<lambda>x. Inr (x\<lparr>finish := True\<rparr>)) s1 = Inr s2"
    and s': "modify_balance k (unlock_balance_of ?i) s2 = Inr s'"
    using assms(3,4) by (auto simp: unlock_balance_do_apply_def ok_simps index_get_def split: option.splits)
  have p: "pool_of s l = Some (interest_pool d)" using a(3) by (simp add: pool_of_def)
  have "index_find (locked_balances s') ?i = Some (item\<lparr>finish := True\<rparr>)"
    using fc_laws.unlock_balance_effect [OF assms(1-4) a(1,2) p] by blast
  then have "unlock_balance_do_apply F op2 e2 fs2 s' \<noteq> Inr x" for x
    using assms(5) by (cases x) (auto simp: unlock_balance_do_apply_def ok_simps index_get_def split: option.splits)
  moreover have "?i \<in> lockeds b"
  proof -
    have "index_inv (balances s)" using assms(2) by (simp add: chain_inv_def)
    then have "index_find (balances s) k = Some b" using index_find_row(1) [OF _ kb [unfolded balance_row_def]] by simp
    then have keep: "index_find (balances s1) k = Some b1 \<Longrightarrow> lockeds b1 = lockeds b" for b1
      using fc_laws.pay_unlocked_lockeds [OF assms(1,2) s1] by fastforce
    have "balances s2 = balances s1" using s2 by (auto simp: table_modify_def ok_simps)
    then show ?thesis using s' keep
      by (auto simp: table_modify_def ok_simps index_modify_Inr unlock_balance_of_def)
  qed
  ultimately show ?thesis using kb by (simp add: get_locked_balance_ids_def)
qed

theorem unlock_pays_holder_once_witness:
  "\<exists>s1 s2. lock_balance_do_apply fc_int64 demo_lock (30, 530) demo_fs demo_chain = Inr (s1, ()) \<and>
     unlock_balance_do_apply fc_int64 (demo_unlock True) () demo_fs (s1\<lparr>dgp := demo_later\<rparr>) = Inr (s2, ()) \<and>
     0 \<in> get_locked_balance_ids (s1\<lparr>dgp := demo_later\<rparr>) 5 7 \<and>
     (\<nexists>x. unlock_balance_do_apply fc_int64 (demo_unlock False) () demo_fs s2 = Inr x)"
proof -
  obtain s1 s2 where run: "lock_balance_do_apply fc_int64 demo_lock (30, 530) demo_fs demo_chain = Inr (s1, ())"
    "unlock_balance_do_apply fc_int64 (demo_unlock True) () demo_fs (s1\<lparr>dgp := demo_later\<rparr>) = Inr (s2, ())"
    using demo_lock_runs by blast
  let ?t = "s1\<lparr>dgp := demo_later\<rparr>"
  have "chain_inv s1"
    using fc64.lock_balance_conserves [OF demo_chain_inv _ run(1)] by (simp add: conserves_def demo_lock_def)
  then have inv: "chain_inv ?t" by simp
  have n0: "next_id (locked_balances demo_chain) = 0" by (simp add: demo_chain_def empty_index_def)
  obtain item where item: "index_find (locked_balances s1) (next_id (locked_balances demo_chain)) = Some item"
      "lb_asset_id item = 7"
    using fc64.lock_balance_effect [OF demo_chain_inv run(1)] by (auto simp: demo_lock_def)
  then have item': "index_find (locked_balances ?t) (ul_locked_id (demo_unlock True)) = Some item"
    unfolding n0 by (simp add: demo_unlock_def)
  have "ul_locked_id (demo_unlock False) = ul_locked_id (demo_unlock True)" by (simp add: demo_unlock_def)
  note once = unlock_pays_holder_once [OF fc64.fc_laws_axioms inv run(2) item' this, of "()" demo_fs]
  then have "0 \<in> get_locked_balance_ids ?t 5 7" using item(2) by (simp add: demo_unlock_def)
  with once run show ?thesis by blast
qed

text \<open>
  The profit promised for a lock is never negative and at most the pool's share of the
  amount: with a receive percentage of at most 100 percent, which the validation of the lock data requires, the 128-bit formula
  neither wraps nor promises more than amount times pool over the interest unit.
\<close>

theorem lock_profit_bounds:
  assumes "fc_laws F" "get_profit F d prec supply x period = Inr p" "0 \<le> x" "x < 2 ^ 63"
    "0 \<le> interest_pool d" "interest_pool d < 2 ^ 63" "uint (profile_receive_percent d) \<le> GRAPHENE_100_PERCENT"
  shows "0 \<le> p \<and> p \<le> x * interest_pool d div sint (interest_unit prec)"
  using fc_laws.get_profit_bounds [OF assms] .

definition demo_lock_data :: asset_lock_data_object where
  "demo_lock_data = \<lparr> lock_asset_id = 7,
        nominal_interest_perday = \<lparr> base = mk_asset 1000000000 7, quote = mk_asset 1001000000 7 \<rparr>,
        reward_coefficient = 1000, interest_pool = 100000000, max_period = 4, profile_scale_percent = 10000,
        profile_receive_percent = 10000, can_unlock_not_expired = True \<rparr>"

lemma demo_profit: "\<exists>p. get_profit fc_int64 demo_lock_data 5 1000000000 600000000 259200 = Inr p"
  by (simp add: get_profit_def get_interest_def demo_lock_data_def interest_unit_def JRC_INTEREST_BASE_SUPPLY_def
      GRAPHENE_BLOCKCHAIN_PRECISION_def fast_pow_of_interest_def pow_loop.simps multiply_of_interest_def u128_div_def
      u128_to_int64_def JRC_INTEREST_DAY_def int_quot_def int32_of_def GRAPHENE_100_PERCENT_def asset_mul_def scale_def
      u128_muldiv_def GRAPHENE_MAX_SHARE_SUPPLY_def asset_sub_def asset_add_def fc_int64_def checked64_def in_int64_def
      Let_def word_le_def word_less_def)

theorem lock_profit_bounds_witness:
  "\<exists>p. get_profit fc_int64 demo_lock_data 5 1000000000 600000000 259200 = Inr p \<and> 0 \<le> p \<and> p \<le> 60000000"
proof -
  obtain p where p: "get_profit fc_int64 demo_lock_data 5 1000000000 600000000 259200 = Inr p"
    using demo_profit by blast
  have "0 \<le> p \<and> p \<le> 600000000 * interest_pool demo_lock_data div sint (interest_unit 5)"
    by (rule lock_profit_bounds [OF fc64.fc_laws_axioms p]) (simp_all add: demo_lock_data_def GRAPHENE_100_PERCENT_def)
  moreover have "600000000 * interest_pool demo_lock_data div sint (interest_unit 5) = 60000000"
    by (simp add: demo_lock_data_def interest_unit_def JRC_INTEREST_BASE_SUPPLY_def GRAPHENE_BLOCKCHAIN_PRECISION_def)
  ultimately show ?thesis using p by auto
qed

definition demo_donation :: donation_balance_operation where
  "demo_donation = \<lparr> dn_fee = mk_asset 20 0, dn_issuer = 6, dn_amount = mk_asset (- 1000) 7 \<rparr>"

text \<open>
  A donation may be negative. The operation is validated and evaluated without a check of the
  sign of its amount, so anybody can move the interest pool of an asset into the own balance: here bob, who holds no gold, takes the
  whole pool of 1000 by donating minus 1000.
\<close>

theorem donation_drains_pool:
  "donation_balance_validate demo_donation = Inr () \<and> bal demo_chain 6 7 = 0 \<and> pool_of demo_chain 4 = Some 1000 \<and>
   (\<exists>s'. start_evaluate fc_int64 donation_balance_evaluator False False 20 demo_donation demo_chain = Inr (s', ()) \<and>
      bal s' 6 7 = 1000 \<and> pool_of s' 4 = Some 0)"
  by (simp add: run_simps donation_balance_validate_def donation_balance_evaluator_def donation_balance_do_evaluate_def
      donation_balance_do_apply_def get_lock_data_def demo_donation_def demo_defs bal_row pool_of_def empty_index_def)

end
