(* ===== verification/Market.thy ===== *)
theory Market
  imports Evaluator
begin

text \<open>
  The order book (db_market.cpp, and \<^verbatim>\<open>check_for_blackswan\<close> of db_update.cpp): market fees, cancelling and filling
  orders, matching, margin calls and global settlement.

  Orders are named by their identifier; a C++ reference to an order is a lookup at the moment of use. The by-price indices
  are the rows sorted by price and identifier. An iterator is the identifier it points at (none: the end), its
  successor is taken in the order of the moment it is incremented; dereferencing an iterator whose order is gone, which is undefined
  in C++, throws here. The loops over the book take fuel; \<open>check_call_orders\<close> and \<open>apply_order\<close> start them with one
  more than the number of orders, which is shown to be enough.

  Virtual operations only feed the operation history and are left out.
\<close>

section \<open>Market fees\<close>

definition HARDFORK_436_TIME :: time_point_sec where "HARDFORK_436_TIME = 1450288800"
definition HARDFORK_555_TIME :: time_point_sec where "HARDFORK_555_TIME = 1456250400"

definition calculate_market_fee :: "fc_lib \<Rightarrow> nat \<Rightarrow> asset_object \<Rightarrow> asset \<Rightarrow> asset result" where
  "calculate_market_fee F i a trade_amount =
     (if \<not> charges_market_fees a then Inr (mk_asset 0 i)
      else if market_fee_percent (options a) = 0 then Inr (mk_asset 0 i)
      else bind (to_share F (u128_muldiv (amount trade_amount) (uint (market_fee_percent (options a))) GRAPHENE_100_PERCENT)) (\<lambda>fee.
           Inr (mk_asset (if fee > max_market_fee (options a) then max_market_fee (options a) else fee) i)))"

definition pay_market_fees :: "fc_lib \<Rightarrow> asset \<Rightarrow> nat \<Rightarrow> database \<Rightarrow> (database \<times> asset) result" where
  "pay_market_fees F receives owner s =
     bind (index_get (assets s) (asset_id receives)) (\<lambda>a.
     bind (calculate_market_fee F (asset_id receives) a receives) (\<lambda>fees.
     if amount fees > 0 then
       bind (modify_asset_dyn (dynamic_asset_data_id a) (\<lambda>d.
              bind (safe_add F (accumulated_fees d) (amount fees)) (\<lambda>acc.
              bind (safe_add F (dyn_market_fees d) (amount fees)) (\<lambda>mf.
              Inr (d\<lparr>accumulated_fees := acc, dyn_market_fees := mf\<rparr>)))) s) (\<lambda>s1.
       bind (index_get (accounts s1) owner) (\<lambda>acct.
       bind (modify_stats (statistics acct) (\<lambda>t.
              bind (record_fee F fees (market_fees t)) (\<lambda>m. Inr (t\<lparr>market_fees := m\<rparr>))) s1) (\<lambda>s2.
       Inr (s2, fees))))
     else Inr (s, fees)))"

definition reduce_core_in_orders :: "fc_lib \<Rightarrow> asset \<Rightarrow> account_statistics_object \<Rightarrow> account_statistics_object result" where
  "reduce_core_in_orders F x t =
     (if asset_id x = 0 then bind (safe_sub F (total_core_in_orders t) (amount x)) (\<lambda>v. Inr (t\<lparr>total_core_in_orders := v\<rparr>))
      else Inr t)"

definition pay_order :: "fc_lib \<Rightarrow> nat \<Rightarrow> asset \<Rightarrow> asset \<Rightarrow> database \<Rightarrow> database result" where
  "pay_order F receiver receives pays s =
     bind (index_get (accounts s) receiver) (\<lambda>acct.
     bind (modify_stats (statistics acct) (reduce_core_in_orders F pays) s) (\<lambda>s1.
     adjust_balance F receiver receives s1))"

section \<open>Cancelling\<close>

definition cancel_settlement :: "fc_lib \<Rightarrow> nat \<Rightarrow> database \<Rightarrow> database result" where
  "cancel_settlement F i s =
     bind (index_get (settlements s) i) (\<lambda>x.
     bind (adjust_balance F (fs_owner x) (fs_balance x) s) (\<lambda>s1.
     table_remove settlements put_settlements i s1))"

definition cancel_limit_order :: "fc_lib \<Rightarrow> nat \<Rightarrow> database \<Rightarrow> database result" where
  "cancel_limit_order F i s =
     bind (index_get (limit_orders s) i) (\<lambda>x.
     bind (index_get (accounts s) (seller x)) (\<lambda>acct.
     bind (modify_stats (statistics acct) (reduce_core_in_orders F (amount_for_sale x)) s) (\<lambda>s1.
     bind (adjust_balance F (seller x) (amount_for_sale x) s1) (\<lambda>s2.
     bind (adjust_balance F (seller x) (mk_asset (deferred_fee x) 0) s2) (\<lambda>s3.
     table_remove limit_orders put_limit_orders i s3)))))"

definition maybe_cull_small_order :: "fc_lib \<Rightarrow> nat \<Rightarrow> database \<Rightarrow> (database \<times> bool) result" where
  "maybe_cull_small_order F i s =
     bind (index_get (limit_orders s) i) (\<lambda>x.
     bind (amount_to_receive x) (\<lambda>r.
     if amount r = 0 then bind (cancel_limit_order F i s) (\<lambda>s'. Inr (s', True))
     else Inr (s, False)))"

section \<open>Filling\<close>

definition fill_limit_order ::
  "fc_lib \<Rightarrow> nat \<Rightarrow> asset \<Rightarrow> asset \<Rightarrow> bool \<Rightarrow> database \<Rightarrow> (database \<times> bool) result" where
  "fill_limit_order F i pays receives cull_if_small s =
     (let cull = cull_if_small \<or> head_block_time s < HARDFORK_555_TIME in
      bind (index_get (limit_orders s) i) (\<lambda>x.
      bind (fc_assert (asset_id (amount_for_sale x) = asset_id pays) ''order.amount_for_sale().asset_id == pays.asset_id'') (\<lambda>_.
      bind (fc_assert (asset_id pays \<noteq> asset_id receives) ''pays.asset_id != receives.asset_id'') (\<lambda>_.
      bind (index_get (accounts s) (seller x)) (\<lambda>acct.
      bind (pay_market_fees F receives (seller x) s) (\<lambda>(s1, issuer_fees).
      bind (asset_sub F receives issuer_fees) (\<lambda>net_receives.
      bind (pay_order F (seller x) net_receives pays s1) (\<lambda>s2.
      bind (if deferred_fee x > 0
            then modify_stats (statistics acct)
                   (stat_pay_fee F (deferred_fee x) (cashback_vesting_threshold (parameters s2))) s2
            else Inr s2) (\<lambda>s3.
      if pays = amount_for_sale x then
        bind (table_remove limit_orders put_limit_orders i s3) (\<lambda>s4. Inr (s4, True))
      else
        bind (modify_limit_order i (\<lambda>b. bind (safe_sub F (for_sale b) (amount pays)) (\<lambda>v.
               Inr (b\<lparr>for_sale := v, deferred_fee := 0\<rparr>))) s3) (\<lambda>s4.
        if cull then maybe_cull_small_order F i s4 else Inr (s4, False)))))))))))"

definition close_call ::
  "fc_lib \<Rightarrow> asset \<Rightarrow> asset \<Rightarrow> call_order_object \<Rightarrow> call_order_object result" where
  "close_call F pays receives c =
     bind (safe_sub F (debt c) (amount receives)) (\<lambda>d.
     bind (safe_sub F (collateral c) (amount pays)) (\<lambda>k.
     Inr (c\<lparr>debt := d, collateral := (if d = 0 then 0 else k)\<rparr>)))"

definition release_core ::
  "fc_lib \<Rightarrow> asset option \<Rightarrow> asset \<Rightarrow> account_statistics_object \<Rightarrow> account_statistics_object result" where
  "release_core F freed pays t =
     bind (case freed of Some x \<Rightarrow> if amount x > 0 then safe_sub F (total_core_in_orders t) (amount x)
                                  else Inr (total_core_in_orders t)
           | None \<Rightarrow> Inr (total_core_in_orders t)) (\<lambda>v.
     bind (if asset_id pays = 0 then safe_sub F v (amount pays) else Inr v) (\<lambda>v'.
     Inr (t\<lparr>total_core_in_orders := v'\<rparr>)))"

definition fill_call_order :: "fc_lib \<Rightarrow> nat \<Rightarrow> asset \<Rightarrow> asset \<Rightarrow> database \<Rightarrow> (database \<times> bool) result" where
  "fill_call_order F i pays receives s =
     bind (index_get (call_orders s) i) (\<lambda>c.
     bind (fc_assert (asset_id (get_debt c) = asset_id receives) ''debt'') (\<lambda>_.
     bind (fc_assert (asset_id (get_collateral c) = asset_id pays) ''collateral'') (\<lambda>_.
     bind (asset_ge (get_collateral c) pays) (\<lambda>enough.
     bind (fc_assert enough ''order.get_collateral() >= pays'') (\<lambda>_.
     bind (modify_call_order i (close_call F pays receives) s) (\<lambda>s1.
     bind (safe_sub F (collateral c) (amount pays)) (\<lambda>rest.
     let freed = (if debt c - amount receives = 0 then Some (mk_asset rest (asset_id (get_collateral c))) else None) in
     bind (index_get (assets s1) (asset_id receives)) (\<lambda>mia.
     bind (modify_asset_dyn (dynamic_asset_data_id mia) (\<lambda>d.
            bind (safe_sub F (current_supply d) (amount receives)) (\<lambda>v. Inr (d\<lparr>current_supply := v\<rparr>))) s1) (\<lambda>s2.
     bind (index_get (accounts s2) (borrower c)) (\<lambda>acct.
     bind (if freed \<noteq> None \<or> asset_id pays = 0 then
             bind (case freed of Some x \<Rightarrow> adjust_balance F (borrower c) x s2 | None \<Rightarrow> Inr s2) (\<lambda>s3.
             modify_stats (statistics acct) (release_core F freed pays) s3)
           else Inr s2) (\<lambda>s4.
     if freed \<noteq> None then bind (table_remove call_orders put_call_orders i s4) (\<lambda>s5. Inr (s5, True))
     else Inr (s4, False))))))))))))"

definition fill_settlement :: "fc_lib \<Rightarrow> nat \<Rightarrow> asset \<Rightarrow> asset \<Rightarrow> database \<Rightarrow> (database \<times> bool) result" where
  "fill_settlement F i pays receives s =
     bind (index_get (settlements s) i) (\<lambda>x.
     bind (pay_market_fees F receives (fs_owner x) s) (\<lambda>(s1, issuer_fees).
     bind (asset_lt pays (fs_balance x)) (\<lambda>partly.
     bind (if partly then modify_settlement i (\<lambda>y. bind (asset_sub F (fs_balance y) pays) (\<lambda>b. Inr (y\<lparr>fs_balance := b\<rparr>))) s1
           else Inr s1) (\<lambda>s2.
     bind (asset_sub F receives issuer_fees) (\<lambda>net_receives.
     bind (adjust_balance F (fs_owner x) net_receives s2) (\<lambda>s3.
     if partly then Inr (s3, False)
     else bind (table_remove settlements put_settlements i s3) (\<lambda>s4. Inr (s4, True))))))))"

section \<open>Matching\<close>

definition match_limit_orders :: "fc_lib \<Rightarrow> nat \<Rightarrow> nat \<Rightarrow> price \<Rightarrow> database \<Rightarrow> (database \<times> nat) result" where
  "match_limit_orders F usd core match_price s =
     bind (index_get (limit_orders s) usd) (\<lambda>u.
     bind (index_get (limit_orders s) core) (\<lambda>c.
     bind (asset_mul (amount_for_sale c) match_price) (\<lambda>core_value.
     bind (asset_le (amount_for_sale u) core_value) (\<lambda>usd_smaller.
     bind (if usd_smaller then bind (asset_mul (amount_for_sale u) match_price) (\<lambda>r. Inr (r, amount_for_sale u))
           else Inr (amount_for_sale c, core_value)) (\<lambda>(usd_receives, core_receives).
     bind (fill_limit_order F usd core_receives usd_receives False s) (\<lambda>(s1, f1).
     bind (fill_limit_order F core usd_receives core_receives True s1) (\<lambda>(s2, f2).
     Inr (s2, (if f1 then 1 else 0) + (if f2 then 2 else 0)))))))))"

definition asset_min :: "asset \<Rightarrow> asset \<Rightarrow> asset result" where
  "asset_min a b = bind (asset_lt b a) (\<lambda>l. Inr (if l then b else a))"

definition match_settlement ::
  "fc_lib \<Rightarrow> nat \<Rightarrow> nat \<Rightarrow> price \<Rightarrow> asset \<Rightarrow> database \<Rightarrow> (database \<times> asset) result" where
  "match_settlement F call settle match_price max_settlement s =
     bind (index_get (call_orders s) call) (\<lambda>c.
     bind (index_get (settlements s) settle) (\<lambda>x.
     bind (fc_assert (asset_id (get_debt c) = asset_id (fs_balance x)) ''asset'') (\<lambda>_.
     bind (fc_assert (debt c > 0 \<and> collateral c > 0 \<and> amount (fs_balance x) > 0) ''amounts'') (\<lambda>_.
     bind (asset_min (fs_balance x) max_settlement) (\<lambda>settle_for_sale.
     bind (asset_min settle_for_sale (get_debt c)) (\<lambda>call_receives.
     bind (asset_mul call_receives match_price) (\<lambda>call_pays.
     bind (asset_lt call_pays (get_collateral c)) (\<lambda>covered.
     bind (graphene_assert covered Black_Swan_Exception) (\<lambda>_.
     bind (fill_call_order F call call_pays call_receives s) (\<lambda>(s1, f1).
     bind (fill_settlement F settle call_receives call_pays s1) (\<lambda>(s2, f2).
     Inr (s2, call_receives))))))))))))"

section \<open>The book by price\<close>

definition limit_before :: "nat \<times> limit_order_object \<Rightarrow> nat \<times> limit_order_object \<Rightarrow> bool" where
  "limit_before x y \<longleftrightarrow> price_gt (sell_price (snd x)) (sell_price (snd y)) \<or>
     (\<not> price_gt (sell_price (snd y)) (sell_price (snd x)) \<and> fst x < fst y)"

definition limits_by_price :: "database \<Rightarrow> (nat \<times> limit_order_object) list" where
  "limits_by_price s = sort_by limit_before (rows (limit_orders s))"

definition limit_lower_bound :: "price \<Rightarrow> database \<Rightarrow> (nat \<times> limit_order_object) list" where
  "limit_lower_bound p s = dropWhile (\<lambda>x. price_gt (sell_price (snd x)) p) (limits_by_price s)"

definition limit_upper_bound :: "price \<Rightarrow> database \<Rightarrow> (nat \<times> limit_order_object) list" where
  "limit_upper_bound p s = dropWhile (\<lambda>x. \<not> price_gt p (sell_price (snd x))) (limits_by_price s)"

definition call_before :: "nat \<times> call_order_object \<Rightarrow> nat \<times> call_order_object \<Rightarrow> bool" where
  "call_before x y \<longleftrightarrow> price_lt (co_call_price (snd x)) (co_call_price (snd y)) \<or>
     (\<not> price_lt (co_call_price (snd y)) (co_call_price (snd x)) \<and> fst x < fst y)"

definition calls_by_price :: "database \<Rightarrow> (nat \<times> call_order_object) list" where
  "calls_by_price s = sort_by call_before (rows (call_orders s))"

definition call_lower_bound :: "price \<Rightarrow> database \<Rightarrow> (nat \<times> call_order_object) list" where
  "call_lower_bound p s = dropWhile (\<lambda>x. price_lt (co_call_price (snd x)) p) (calls_by_price s)"

definition call_upper_bound :: "price \<Rightarrow> database \<Rightarrow> (nat \<times> call_order_object) list" where
  "call_upper_bound p s = dropWhile (\<lambda>x. \<not> price_lt p (co_call_price (snd x))) (calls_by_price s)"

definition iter :: "(nat \<times> 'o) list \<Rightarrow> nat option" where
  "iter xs = (case xs of [] \<Rightarrow> None | x # _ \<Rightarrow> Some (fst x))"

fun next_iter :: "nat \<Rightarrow> (nat \<times> 'o) list \<Rightarrow> nat option" where
  "next_iter k [] = None"
| "next_iter k (x # xs) = (if fst x = k then iter xs else next_iter k xs)"

section \<open>Global settlement\<close>

definition get_bitasset :: "database \<Rightarrow> asset_object \<Rightarrow> (nat \<times> asset_bitasset_data_object) result" where
  "get_bitasset s a =
     (case bitasset_data_id a of
        None \<Rightarrow> Inl (Assert_Exception ''bitasset_data_id'')
      | Some b \<Rightarrow> bind (index_get (bitassets s) b) (\<lambda>x. Inr (b, x)))"

definition settle_call ::
  "fc_lib \<Rightarrow> price \<Rightarrow> nat \<Rightarrow> database \<times> asset \<Rightarrow> (database \<times> asset) result" where
  "settle_call F p i acc =
     bind (index_get (call_orders (fst acc)) i) (\<lambda>c.
     bind (asset_mul (get_debt c) p) (\<lambda>v.
     bind (asset_gt v (get_collateral c)) (\<lambda>under.
     let pays = (if under then get_collateral c else v) in
     bind (asset_add F (snd acc) pays) (\<lambda>gathered.
     bind (fill_call_order F i pays (get_debt c) (fst acc)) (\<lambda>(s', filled).
     bind (fc_assert filled ''fill_order'') (\<lambda>_. Inr (s', gathered)))))))"

definition calls_between :: "price \<Rightarrow> price \<Rightarrow> database \<Rightarrow> nat list" where
  "calls_between lo hi s =
     map fst (takeWhile (\<lambda>x. Some (fst x) \<noteq> iter (call_upper_bound hi s)) (call_lower_bound lo s))"

definition globally_settle_asset :: "fc_lib \<Rightarrow> nat \<Rightarrow> price \<Rightarrow> database \<Rightarrow> database result" where
  "globally_settle_asset F mia_id p s =
     bind (index_get (assets s) mia_id) (\<lambda>mia.
     bind (get_bitasset s mia) (\<lambda>(b, bit).
     bind (fc_assert (\<not> has_settlement bit) ''black swan already occurred, it should not happen again'') (\<lambda>_.
     let backing = short_backing_asset (bit_options bit) in
     bind (index_get (assets s) backing) (\<lambda>_.
     bind (index_get (asset_dyn s) (dynamic_asset_data_id mia)) (\<lambda>dyn.
     bind (price_min backing mia_id) (\<lambda>lo.
     bind (price_max backing mia_id) (\<lambda>hi.
     bind (fold_result (settle_call F p) (calls_between lo hi s) (s, mk_asset 0 backing)) (\<lambda>(s1, gathered).
     bind (modify_bitasset b (\<lambda>x.
            bind (asset_div (mk_asset (current_supply dyn) mia_id) gathered) (\<lambda>sp.
            Inr (x\<lparr>bit_settlement_price := sp, settlement_fund := amount gathered\<rparr>))) s1) (\<lambda>s2.
     modify_asset_dyn (dynamic_asset_data_id mia) (\<lambda>x. Inr (x\<lparr>current_supply := current_supply dyn\<rparr>)) s2)))))))))"

definition price_max2 :: "price \<Rightarrow> price \<Rightarrow> price" where
  "price_max2 a b = (if price_lt a b then b else a)"

text \<open>The price of a black swan, when the least collateralized call cannot be covered at the best price.\<close>

definition blackswan_price :: "nat \<Rightarrow> asset_bitasset_data_object \<Rightarrow> database \<Rightarrow> price option result" where
  "blackswan_price mia_id bitasset s =
     (let settle_price = settlement_price (current_feed bitasset); backing = short_backing_asset (bit_options bitasset) in
      if price_is_null settle_price then Inr None
      else
        bind (price_max mia_id backing) (\<lambda>highest_possible_bid.
        bind (price_min mia_id backing) (\<lambda>lowest_possible_bid.
        bind (price_min backing mia_id) (\<lambda>call_min.
        bind (price_max backing mia_id) (\<lambda>call_max.
        let limits = limit_lower_bound highest_possible_bid s; limit_end = iter (limit_upper_bound lowest_possible_bid s);
            calls = call_lower_bound call_min s; call_end = iter (call_upper_bound call_max s) in
        if iter calls = call_end then Inr None
        else
          let highest = (if iter limits \<noteq> limit_end then price_max2 (sell_price (snd (hd limits))) settle_price else settle_price) in
          bind (case calls of [] \<Rightarrow> Inl Unknown_Object | c # _ \<Rightarrow> collateralization (snd c)) (\<lambda>least.
          Inr (if price_ge (price_inv least) highest then Some (price_inv least) else None)))))))"

definition check_for_blackswan :: "fc_lib \<Rightarrow> nat \<Rightarrow> bool \<Rightarrow> database \<Rightarrow> (database \<times> bool) result" where
  "check_for_blackswan F mia_id enable s =
     bind (index_get (assets s) mia_id) (\<lambda>mia.
     if \<not> is_market_issued mia then Inr (s, False)
     else
       bind (get_bitasset s mia) (\<lambda>(b, bit).
       if has_settlement bit then Inr (s, True)
       else
         bind (blackswan_price mia_id bit s) (\<lambda>swan.
         case swan of
           None \<Rightarrow> Inr (s, False)
         | Some p \<Rightarrow>
             bind (fc_assert enable ''Black swan was detected during a margin update'') (\<lambda>_.
             bind (globally_settle_asset F mia_id p s) (\<lambda>s'. Inr (s', True))))))"

section \<open>Margin calls\<close>

definition call_amounts :: "call_order_object \<Rightarrow> limit_order_object \<Rightarrow> (asset \<times> asset \<times> bool \<times> bool) result" where
  "call_amounts c l =
     bind (asset_ge (get_debt c) (amount_for_sale l)) (\<lambda>fills_limit.
     if fills_limit then
       bind (asset_mul (amount_for_sale l) (sell_price l)) (\<lambda>r.
       Inr (amount_for_sale l, r, True, get_debt c = amount_for_sale l))
     else
       bind (asset_mul (get_debt c) (sell_price l)) (\<lambda>r. Inr (get_debt c, r, False, True)))"

definition call_fill ::
  "fc_lib \<Rightarrow> nat \<Rightarrow> limit_order_object \<Rightarrow> nat \<Rightarrow> call_order_object \<Rightarrow> bool \<Rightarrow> database
    \<Rightarrow> (nat option \<times> nat option \<times> bool \<times> database) result" where
  "call_fill F li l ci c filled_limit s =
     bind (call_amounts c l) (\<lambda>(usd, order_receives, fills_limit, filled_call).
     let filled_limit' = filled_limit \<or> fills_limit in
     bind (fc_assert (filled_call \<or> filled_limit') ''filled_call || filled_limit'') (\<lambda>_.
     let call_itr' = (if filled_call then next_iter ci (calls_by_price s) else Some ci) in
     bind (fill_call_order F ci order_receives usd s) (\<lambda>(s2, f1).
     let limit_itr' = (if filled_limit' then next_iter li (limits_by_price s2) else Some li) in
     bind (fill_limit_order F li usd order_receives True s2) (\<lambda>(s3, f2).
     Inr (limit_itr', call_itr', filled_limit', s3)))))"

text \<open>The body of the loop over its state: the iterators, \<^verbatim>\<open>filled_limit\<close>, \<^verbatim>\<open>margin_called\<close> and the database.\<close>

definition call_step ::
  "fc_lib \<Rightarrow> nat \<Rightarrow> bool \<Rightarrow> nat option \<Rightarrow> nat option \<Rightarrow> nat option \<times> nat option \<times> bool \<times> bool \<times> database
    \<Rightarrow> (nat option \<times> nat option \<times> bool \<times> bool \<times> database, database \<times> bool) loop_step result" where
  "call_step F mia_id enable limit_end call_end st =
     (case st of (limit_itr, call_itr, filled_limit, margin_called, s) \<Rightarrow>
     bind (check_for_blackswan F mia_id enable s) (\<lambda>(s1, swan).
     if swan \<or> call_itr = call_end then Inr (Finish (s1, margin_called))
     else if limit_itr = limit_end then Inr (Finish (s1, margin_called))
     else
       bind (the_object limit_itr) (\<lambda>li. bind (index_get (limit_orders s1) li) (\<lambda>l.
       bind (price_validate (sell_price l)) (\<lambda>_.
       bind (index_get (assets s1) mia_id) (\<lambda>mia. bind (get_bitasset s1 mia) (\<lambda>(b, bit).
       bind (the_object call_itr) (\<lambda>ci. bind (index_get (call_orders s1) ci) (\<lambda>c.
       if price_gt (settlement_price (current_feed bit)) (price_inv (co_call_price c)) \<and> head_block_time s1 > HARDFORK_436_TIME
       then Inr (Finish (s1, margin_called))
       else if price_gt (sell_price l) (price_inv (co_call_price c)) then Inr (Finish (s1, margin_called))
       else
         bind (asset_mul (get_debt c) (sell_price l)) (\<lambda>v.
         bind (asset_gt v (get_collateral c)) (\<lambda>under.
         if under then
           bind (fc_assert enable ''enable_black_swan'') (\<lambda>_.
           bind (globally_settle_asset F mia_id (settlement_price (current_feed bit)) s1) (\<lambda>s'. Inr (Finish (s', True))))
         else
           bind (call_fill F li l ci c filled_limit s1) (\<lambda>(limit_itr', call_itr', filled_limit', s3).
           Inr (Continue (limit_itr', call_itr', filled_limit', True, s3))))))))))))))"

definition book_size :: "database \<Rightarrow> nat" where
  "book_size s = length (rows (limit_orders s)) + length (rows (call_orders s))"

definition check_call_orders :: "fc_lib \<Rightarrow> nat \<Rightarrow> bool \<Rightarrow> database \<Rightarrow> (database \<times> bool) result" where
  "check_call_orders F mia_id enable s =
     bind (index_get (assets s) mia_id) (\<lambda>mia.
     if \<not> is_market_issued mia then Inr (s, False)
     else
       bind (check_for_blackswan F mia_id enable s) (\<lambda>(s1, swan).
       if swan then Inr (s1, False)
       else
         bind (get_bitasset s1 mia) (\<lambda>(b, bit).
         if is_prediction_market bit then Inr (s1, False)
         else if price_is_null (settlement_price (current_feed bit)) then Inr (s1, False)
         else let backing = short_backing_asset (bit_options bit) in
           bind (price_max mia_id backing) (\<lambda>max_price.
           bind (max_short_squeeze_price (current_feed bit)) (\<lambda>min_price.
           let limit_itr = iter (limit_lower_bound max_price s1); limit_end = iter (limit_upper_bound min_price s1) in
           if limit_itr = limit_end then Inr (s1, False)
           else
             bind (price_min backing mia_id) (\<lambda>call_min.
             bind (price_max backing mia_id) (\<lambda>call_max.
             run_loop (Suc (book_size s1)) (call_step F mia_id enable limit_end (iter (call_upper_bound call_max s1)))
               (limit_itr, iter (call_lower_bound call_min s1), False, False, s1))))))))"

section \<open>Applying a new order\<close>

definition match_step ::
  "fc_lib \<Rightarrow> nat \<Rightarrow> nat option \<Rightarrow> nat option \<times> database \<Rightarrow> (nat option \<times> database, database) loop_step result" where
  "match_step F new_id limit_end st =
     (case st of (limit_itr, s) \<Rightarrow>
      if limit_itr = limit_end then Inr (Finish s)
      else
        bind (the_object limit_itr) (\<lambda>old_id.
        bind (index_get (limit_orders s) old_id) (\<lambda>old.
        let limit_itr' = next_iter old_id (limits_by_price s) in
        bind (match_limit_orders F new_id old_id (sell_price old) s) (\<lambda>(s', r).
        Inr (if r \<noteq> 2 then Finish s' else Continue (limit_itr', s'))))))"

definition match_new_order :: "fc_lib \<Rightarrow> nat \<Rightarrow> database \<Rightarrow> database result" where
  "match_new_order F order_id s =
     bind (index_get (limit_orders s) order_id) (\<lambda>y.
     let max_price = price_inv (sell_price y) in
     bind (price_max (asset_id (base max_price)) (asset_id (quote max_price))) (\<lambda>top.
     run_loop (Suc (length (rows (limit_orders s)))) (match_step F order_id (iter (limit_upper_bound max_price s)))
       (iter (limit_lower_bound top s), s)))"

definition cull_new_order :: "fc_lib \<Rightarrow> nat \<Rightarrow> database \<Rightarrow> (database \<times> bool) result" where
  "cull_new_order F order_id s =
     (if index_find (limit_orders s) order_id = None then Inr (s, True)
      else if head_block_time s \<le> HARDFORK_555_TIME then Inr (s, False)
      else maybe_cull_small_order F order_id s)"

definition apply_order :: "fc_lib \<Rightarrow> nat \<Rightarrow> bool \<Rightarrow> database \<Rightarrow> (database \<times> bool) result" where
  "apply_order F order_id allow_black_swan s =
     bind (index_get (limit_orders s) order_id) (\<lambda>x.
     bind (index_get (assets s) (asset_id (amount_for_sale x))) (\<lambda>_.
     bind (amount_to_receive x) (\<lambda>r.
     bind (index_get (assets s) (asset_id r)) (\<lambda>_.
     let sell = asset_id (amount_for_sale x); receive = asset_id r in
     bind (check_call_orders F sell allow_black_swan s) (\<lambda>(s1, c1).
     bind (check_call_orders F receive allow_black_swan s1) (\<lambda>(s2, c2).
     if (c1 \<or> c2) \<and> index_find (limit_orders s2) order_id = None then Inr (s2, True)
     else
       bind (match_new_order F order_id s2) (\<lambda>s3.
       bind (check_call_orders F sell allow_black_swan s3) (\<lambda>(s4, c4).
       bind (check_call_orders F receive allow_black_swan s4) (\<lambda>(s5, c5).
       cull_new_order F order_id s5)))))))))"

end
