(* ===== verification/Market_Ledger.thy ===== *)
theory Market_Ledger
  imports Market
begin

text \<open>
  The order book moves value without creating or destroying it. \<open>shifts d s s'\<close> says how far a change moves the
  ledger of every asset; each way of filling an order shifts it by what the order receives less what it pays, so that matching, margin
  calls and global settlement shift it by nothing.
\<close>

section \<open>Shifting the ledger\<close>

definition shifts :: "(nat \<Rightarrow> int) \<Rightarrow> database \<Rightarrow> database \<Rightarrow> bool" where
  "shifts d s s' \<longleftrightarrow> chain_inv s' \<and> (\<forall>a. ledger a s' = ledger a s + d a) \<and> (balances_nonneg s \<longrightarrow> balances_nonneg s') \<and>
     assets s' = assets s \<and> accounts s' = accounts s \<and> dgp s' = dgp s \<and> parameters s' = parameters s"

definition same_book :: "database \<Rightarrow> database \<Rightarrow> bool" where
  "same_book s s' \<longleftrightarrow> limit_orders s' = limit_orders s \<and> call_orders s' = call_orders s \<and> settlements s' = settlements s \<and>
     bitassets s' = bitassets s"

lemma shifts_refl [simp]: "chain_inv s \<Longrightarrow> shifts (\<lambda>a. 0) s s"
  by (simp add: shifts_def)

lemma shifts_trans: "shifts d s t \<Longrightarrow> shifts e t u \<Longrightarrow> (\<And>a. f a = d a + e a) \<Longrightarrow> shifts f s u"
  by (simp add: shifts_def)

lemma shifts_inv: "shifts d s t \<Longrightarrow> chain_inv t"
  by (simp add: shifts_def)

lemma shifts_conserves: "shifts (\<lambda>a. 0) s t \<Longrightarrow> conserves s t"
  by (simp add: shifts_def conserves_def)

lemma shifts_cong: "shifts d s t \<Longrightarrow> (\<And>a. f a = d a) \<Longrightarrow> shifts f s t"
  by (simp add: shifts_def)

lemma same_book_trans: "same_book s t \<Longrightarrow> same_book t u \<Longrightarrow> same_book s u"
  by (simp add: same_book_def)

lemma same_book_refl [simp]: "same_book s s"
  by (simp add: same_book_def)

context fc_laws
begin

lemma adjust_shifts:
  assumes "chain_inv s" "adjust_balance F acct x s = Inr s'"
  shows "shifts (\<lambda>a. asset_in a x) s s'" "same_book s s'" "asset_dyn s' = asset_dyn s"
  using adjust_balance_step [OF assms] by (auto simp: shifts_def same_book_def)

lemma modify_stats_shifts:
  assumes "chain_inv s" "modify_stats i f s = Inr s'"
    and "\<And>t t' a. f t = Inr t' \<Longrightarrow> pending_in a t' = pending_in a t + d a"
  shows "shifts d s s'" "same_book s s'" "asset_dyn s' = asset_dyn s"
  using stat_tab.modify_step [OF assms(1,2)] assms(3) by (auto simp: shifts_def same_book_def)

lemma reduce_core_pending: "reduce_core_in_orders F x t = Inr t' \<Longrightarrow> pending_in a t' = pending_in a t + 0"
  by (auto simp: reduce_core_in_orders_def ok_simps pending_in_def split: if_splits)

lemma record_market_fee_pending:
  "bind (record_fee F fees (market_fees t)) (\<lambda>m. Inr (t\<lparr>market_fees := m\<rparr>)) = Inr t' \<Longrightarrow>
   pending_in a t' = pending_in a t + 0"
  by (auto simp: ok_simps pending_in_def)

text \<open>A market fee is between nothing and the traded amount.\<close>

lemma market_fee_range:
  assumes "asset_ok a" "0 \<le> amount x" "amount x < 2 ^ 63" "calculate_market_fee F i a x = Inr fees"
  shows "0 \<le> amount fees \<and> amount fees \<le> amount x \<and> asset_id fees = i"
proof (cases "charges_market_fees a \<and> market_fee_percent (options a) \<noteq> 0")
  case True
  let ?p = "uint (market_fee_percent (options a))"
  have p: "0 \<le> ?p" "?p \<le> 10000" using assms(1) by (auto simp: asset_ok_def GRAPHENE_100_PERCENT_def)
  have u: "uint (u128_muldiv (amount x) ?p GRAPHENE_100_PERCENT) = amount x * ?p div 10000"
    using assms(2,3) p by (simp add: GRAPHENE_100_PERCENT_def uint_u128_muldiv_int64)
  have le: "amount x * ?p div 10000 \<le> amount x" using assms(2) p by (intro muldiv_le) auto
  have nn: "0 \<le> amount x * ?p div 10000" using assms(2) p by (intro muldiv_nonneg) auto
  have "to_share F (u128_muldiv (amount x) ?p GRAPHENE_100_PERCENT) = Inr (amount x * ?p div 10000)"
    using to_share_small [of "u128_muldiv (amount x) ?p GRAPHENE_100_PERCENT"] u le assms(3) by simp
  then show ?thesis using assms(1,4) True le nn by (auto simp: calculate_market_fee_def asset_ok_def)
next
  case False
  then show ?thesis using assms(2,4) by (auto simp: calculate_market_fee_def split: if_splits)
qed

lemma pay_market_fees_shifts:
  assumes inv: "chain_inv s" and ok: "pay_market_fees F x owner s = Inr (s', fees)"
    and range: "0 \<le> amount x" "amount x < 2 ^ 63"
  shows "shifts (\<lambda>a. asset_in a fees) s s'" "same_book s s'" "asset_id fees = asset_id x"
    "0 \<le> amount fees \<and> amount fees \<le> amount x"
proof -
  obtain a where a: "index_find (assets s) (asset_id x) = Some a"
    and c: "calculate_market_fee F (asset_id x) a x = Inr fees"
    using ok by (auto simp: pay_market_fees_def ok_simps index_get_def split: if_splits)
  have aok: "asset_ok a" using inv a by (auto simp: chain_inv_def rows_ok_def)
  note r = market_fee_range [OF aok range c]
  show "asset_id fees = asset_id x" "0 \<le> amount fees \<and> amount fees \<le> amount x" using r by auto
  have "shifts (\<lambda>a. asset_in a fees) s s' \<and> same_book s s'"
  proof (cases "amount fees > 0")
    case True
    obtain s1 j where s1: "modify_asset_dyn (dynamic_asset_data_id a) (\<lambda>d.
              bind (safe_add F (accumulated_fees d) (amount fees)) (\<lambda>acc.
              bind (safe_add F (dyn_market_fees d) (amount fees)) (\<lambda>mf.
              Inr (d\<lparr>accumulated_fees := acc, dyn_market_fees := mf\<rparr>)))) s = Inr s1"
      and s2: "modify_stats j (\<lambda>t.
              bind (record_fee F fees (market_fees t)) (\<lambda>m. Inr (t\<lparr>market_fees := m\<rparr>))) s1 = Inr s'"
      using ok a c True by (auto simp: pay_market_fees_def ok_simps index_get_def)
    have d: "dyn_id s b = Some (dynamic_asset_data_id a) \<longleftrightarrow> asset_id fees = b" for b
      using dyn_id_inj [OF inv, of "asset_id x"] a r by (simp add: dyn_id_def)
    have 1: "shifts (\<lambda>a. asset_in a fees) s s1" "same_book s s1"
      using modify_asset_dyn_step [OF inv s1]
      by (auto simp: ok_simps safe_Inr d net_def asset_in_def fee_pool_in_def shifts_def same_book_def)
    note 2 = modify_stats_shifts [OF shifts_inv [OF 1(1)] s2 record_market_fee_pending, unfolded add_0_right]
    show ?thesis using shifts_trans [OF 1(1) 2(1)] same_book_trans [OF 1(2) 2(2)] by simp
  next
    case False
    then have "s' = s" using ok a c by (auto simp: pay_market_fees_def ok_simps index_get_def)
    then show ?thesis using inv r False by (auto simp: shifts_def asset_in_def)
  qed
  then show "shifts (\<lambda>a. asset_in a fees) s s'" "same_book s s'" by auto
qed

lemma pay_order_shifts:
  assumes inv: "chain_inv s" and ok: "pay_order F acct x pays s = Inr s'"
  shows "shifts (\<lambda>a. asset_in a x) s s'" "same_book s s'"
proof -
  obtain i s1 where s1: "modify_stats i (reduce_core_in_orders F pays) s = Inr s1"
    and s2: "adjust_balance F acct x s1 = Inr s'"
    using ok by (auto simp: pay_order_def ok_simps)
  note 1 = modify_stats_shifts [OF inv s1 reduce_core_pending]
  note 2 = adjust_shifts [OF shifts_inv [OF 1(1)] s2]
  show "shifts (\<lambda>a. asset_in a x) s s'" "same_book s s'"
    using shifts_trans [OF 1(1) 2(1)] same_book_trans [OF 1(2) 2(2)] by simp_all
qed

end

section \<open>Cancelling\<close>

text \<open>Removing or changing an order shifts the ledger by what the order holds.\<close>

lemma remove_limit_shifts:
  assumes "chain_inv s" "table_remove limit_orders put_limit_orders i s = Inr s'" "index_find (limit_orders s) i = Some x"
  shows "shifts (\<lambda>a. - order_in a x) s s'"
  using limit_tab.remove_step [OF assms(1,2)] assms(3) by (auto simp: shifts_def)

lemma remove_call_shifts:
  assumes "chain_inv s" "table_remove call_orders put_call_orders i s = Inr s'" "index_find (call_orders s) i = Some x"
  shows "shifts (\<lambda>a. - call_in a x) s s'"
  using call_tab.remove_step [OF assms(1,2)] assms(3) by (auto simp: shifts_def)

lemma remove_settlement_shifts:
  assumes "chain_inv s" "table_remove settlements put_settlements i s = Inr s'" "index_find (settlements s) i = Some x"
  shows "shifts (\<lambda>a. - settlement_in a x) s s'"
  using settle_tab.remove_step [OF assms(1,2)] assms(3) by (auto simp: shifts_def)

text \<open>What a change of one order leaves alone; the book never grows.\<close>

definition only_limit :: "nat \<Rightarrow> database \<Rightarrow> database \<Rightarrow> bool" where
  "only_limit i s s' \<longleftrightarrow> call_orders s' = call_orders s \<and> settlements s' = settlements s \<and> bitassets s' = bitassets s \<and>
     (\<forall>j. j \<noteq> i \<longrightarrow> index_find (limit_orders s') j = index_find (limit_orders s) j) \<and>
     length (rows (limit_orders s')) \<le> length (rows (limit_orders s))"

definition only_call :: "nat \<Rightarrow> database \<Rightarrow> database \<Rightarrow> bool" where
  "only_call i s s' \<longleftrightarrow> limit_orders s' = limit_orders s \<and> settlements s' = settlements s \<and> bitassets s' = bitassets s \<and>
     (\<forall>j. j \<noteq> i \<longrightarrow> index_find (call_orders s') j = index_find (call_orders s) j) \<and>
     length (rows (call_orders s')) \<le> length (rows (call_orders s))"

lemma same_book_only: "same_book s s' \<Longrightarrow> only_limit i s s'" "same_book s s' \<Longrightarrow> only_call i s s'"
  by (simp_all add: same_book_def only_limit_def only_call_def)

lemma only_refl [simp]: "only_limit i s s" "only_call i s s"
  by (simp_all add: only_limit_def only_call_def)

lemma length_row_put [simp]: "length (row_put k x rs) = length rs"
  by (simp add: row_put_def)

lemma length_row_delete: "length (row_delete k rs) \<le> length rs"
  "k \<in> fst ` set rs \<Longrightarrow> length (row_delete k rs) < length rs"
  by (auto simp: row_delete_def intro: length_filter_less)

lemma table_remove_only:
  "table_remove limit_orders put_limit_orders i s = Inr s1 \<Longrightarrow> only_limit i s s1 \<and> length (rows (limit_orders s1)) < length (rows (limit_orders s))"
  "table_remove call_orders put_call_orders i s = Inr s2 \<Longrightarrow> only_call i s s2 \<and> length (rows (call_orders s2)) < length (rows (call_orders s))"
  by (auto simp: table_remove_def ok_simps only_limit_def only_call_def index_remove_Inr length_row_delete(1) index_find_def
      map_of_row_delete intro!: length_row_delete(2) index_find_Some_key [unfolded index_find_def])

lemma table_modify_only:
  "modify_limit_order i f s = Inr s1 \<Longrightarrow> only_limit i s s1"
  "modify_call_order i g s = Inr s2 \<Longrightarrow> only_call i s s2"
  by (auto simp: table_modify_def ok_simps only_limit_def only_call_def index_modify_Inr index_find_def map_of_row_put)

lemma only_limit_trans: "only_limit i s t \<Longrightarrow> only_limit i t u \<Longrightarrow> only_limit i s u"
  by (simp add: only_limit_def)

lemma only_call_trans: "only_call i s t \<Longrightarrow> only_call i t u \<Longrightarrow> only_call i s u"
  by (simp add: only_call_def)

context fc_laws
begin

lemma cancel_settlement_shifts:
  assumes inv: "chain_inv s" and ok: "cancel_settlement F i s = Inr s'"
  shows "shifts (\<lambda>a. 0) s s'"
proof -
  obtain x s1 where x: "index_find (settlements s) i = Some x" and s1: "adjust_balance F (fs_owner x) (fs_balance x) s = Inr s1"
    and s2: "table_remove settlements put_settlements i s1 = Inr s'"
    using ok by (auto simp: cancel_settlement_def ok_simps index_get_def)
  note 1 = adjust_shifts [OF inv s1]
  have x1: "index_find (settlements s1) i = Some x" using x 1(2) by (simp add: same_book_def)
  show ?thesis
    using shifts_trans [OF 1(1) remove_settlement_shifts [OF shifts_inv [OF 1(1)] s2 x1]] by (simp add: settlement_in_def)
qed

lemma cancel_limit_shifts:
  assumes inv: "chain_inv s" and ok: "cancel_limit_order F i s = Inr s'"
  shows "shifts (\<lambda>a. 0) s s'" "only_limit i s s'" "length (rows (limit_orders s')) < length (rows (limit_orders s))"
proof -
  obtain x j s1 s2 s3 where x: "index_find (limit_orders s) i = Some x"
    and s1: "modify_stats j (reduce_core_in_orders F (amount_for_sale x)) s = Inr s1"
    and s2: "adjust_balance F (seller x) (amount_for_sale x) s1 = Inr s2"
    and s3: "adjust_balance F (seller x) (mk_asset (deferred_fee x) 0) s2 = Inr s3"
    and s4: "table_remove limit_orders put_limit_orders i s3 = Inr s'"
    using ok by (auto simp: cancel_limit_order_def ok_simps index_get_def)
  note 1 = modify_stats_shifts [OF inv s1 reduce_core_pending]
  note 2 = adjust_shifts [OF shifts_inv [OF 1(1)] s2]
  note 3 = adjust_shifts [OF shifts_inv [OF 2(1)] s3]
  have x3: "index_find (limit_orders s3) i = Some x" using x 1(2) 2(2) 3(2) by (simp add: same_book_def)
  note 4 = remove_limit_shifts [OF shifts_inv [OF 3(1)] s4 x3]
  show "shifts (\<lambda>a. 0) s s'"
    using shifts_trans [OF shifts_trans [OF 1(1) 2(1) refl] shifts_trans [OF 3(1) 4 refl]]
    by (simp add: order_in_def asset_in_def core_in_def)
  show "only_limit i s s'" using 1(2) 2(2) 3(2) table_remove_only(1) [OF s4] by (auto simp: same_book_def only_limit_def)
  show "length (rows (limit_orders s')) < length (rows (limit_orders s))"
    using 1(2) 2(2) 3(2) table_remove_only(1) [OF s4] by (simp add: same_book_def)
qed

lemma maybe_cull_shifts:
  assumes "chain_inv s" "maybe_cull_small_order F i s = Inr (s', b)"
  shows "shifts (\<lambda>a. 0) s s'" "only_limit i s s'"
    "b \<Longrightarrow> length (rows (limit_orders s')) < length (rows (limit_orders s))"
  using assms cancel_limit_shifts [OF assms(1)]
  by (auto simp: maybe_cull_small_order_def ok_simps split: if_splits)

end

section \<open>Filling\<close>

context fc_laws
begin

lemma deferred_fee_shifts:
  assumes inv: "chain_inv s" and nn: "0 \<le> fee"
    and ok: "(if fee > 0 then modify_stats j (stat_pay_fee F fee th) s else Inr s) = Inr s'"
  shows "shifts (\<lambda>a. core_in a fee) s s'" "same_book s s'"
proof -
  have "shifts (\<lambda>a. core_in a fee) s s' \<and> same_book s s'"
  proof (cases "fee > 0")
    case True
    then show ?thesis using ok modify_stats_shifts [OF inv _ stat_pay_fee_pending] by simp
  next
    case False
    then have "fee = 0" "s' = s" using nn ok by auto
    then show ?thesis using inv by (simp add: shifts_def core_in_def)
  qed
  then show "shifts (\<lambda>a. core_in a fee) s s'" "same_book s s'" by auto
qed

lemma reduce_limit_shifts:
  assumes inv: "chain_inv s" and x: "index_find (limit_orders s) i = Some x" and le: "amount pays \<le> for_sale x"
    and id: "asset_id (amount_for_sale x) = asset_id pays"
    and ok: "modify_limit_order i (\<lambda>b. bind (safe_sub F (for_sale b) (amount pays)) (\<lambda>v.
               Inr (b\<lparr>for_sale := v, deferred_fee := 0\<rparr>))) s = Inr s'"
  shows "shifts (\<lambda>a. - asset_in a pays - core_in a (deferred_fee x)) s s'"
proof -
  let ?f = "\<lambda>b. bind (safe_sub F (for_sale b) (amount pays)) (\<lambda>v. Inr (b\<lparr>for_sale := v, deferred_fee := 0\<rparr>))"
  have "\<exists>y y' t. index_find (limit_orders s) i = Some y \<and> ?f y = Inr y' \<and> s' = put_limit_orders t s \<and>
      index_find t = (index_find (limit_orders s))(i \<mapsto> y') \<and> chain_inv s' \<and>
      (\<forall>a. ledger a s' = ledger a s - order_in a y + order_in a y')"
    by (rule limit_tab.modify_checked [OF inv ok]) (use x le in \<open>auto simp: ok_simps safe_Inr order_ok_def in_int64_def\<close>)
  then show ?thesis using x id
    by (auto simp: shifts_def ok_simps safe_Inr order_in_def asset_in_def core_in_def amount_for_sale_def)
qed

lemma fill_limit_shifts:
  assumes inv: "chain_inv s" and ok: "fill_limit_order F i pays receives cull s = Inr (s', filled)"
    and x: "index_find (limit_orders s) i = Some x" and le: "amount pays \<le> for_sale x"
    and range: "0 \<le> amount receives" "amount receives < 2 ^ 63"
  shows "shifts (\<lambda>a. asset_in a receives - asset_in a pays) s s'" "only_limit i s s'"
    "filled \<Longrightarrow> length (rows (limit_orders s')) < length (rows (limit_orders s))"
    "pays = amount_for_sale x \<Longrightarrow> filled"
proof -
  obtain fees net j s1 s2 s3 where id: "asset_id (amount_for_sale x) = asset_id pays"
    and s1: "pay_market_fees F receives (seller x) s = Inr (s1, fees)"
    and n: "asset_sub F receives fees = Inr net" and s2: "pay_order F (seller x) net pays s1 = Inr s2"
    and s3: "(if deferred_fee x > 0 then modify_stats j (stat_pay_fee F (deferred_fee x)
               (cashback_vesting_threshold (parameters s2))) s2 else Inr s2) = Inr s3"
    and rest: "(if pays = amount_for_sale x then
        bind (table_remove limit_orders put_limit_orders i s3) (\<lambda>s4. Inr (s4, True))
      else
        bind (modify_limit_order i (\<lambda>b. bind (safe_sub F (for_sale b) (amount pays)) (\<lambda>v.
               Inr (b\<lparr>for_sale := v, deferred_fee := 0\<rparr>))) s3) (\<lambda>s4.
        if cull \<or> head_block_time s < HARDFORK_555_TIME then maybe_cull_small_order F i s4 else Inr (s4, False))) = Inr (s', filled)"
    using ok x unfolding fill_limit_order_def by (auto simp: ok_simps index_get_def Let_def)
  have xok: "order_ok x" using inv x by (auto simp: chain_inv_def rows_ok_def)
  note 1 = pay_market_fees_shifts [OF inv s1 range]
  note 2 = pay_order_shifts [OF shifts_inv [OF 1(1)] s2]
  have "0 \<le> deferred_fee x" using xok by (simp add: order_ok_def)
  note 3 = deferred_fee_shifts [OF shifts_inv [OF 2(1)] this s3]
  have in3: "shifts (\<lambda>a. asset_in a receives + core_in a (deferred_fee x)) s s3"
    using shifts_trans [OF shifts_trans [OF 1(1) 2(1) refl] 3(1)] n 1(3) by (auto simp: asset_sub_Inr asset_in_def)
  have b3: "same_book s s3" using 1(2) 2(2) 3(2) by (auto intro: same_book_trans)
  have x3: "index_find (limit_orders s3) i = Some x" using x b3 by (simp add: same_book_def)
  let ?n = "\<lambda>s. length (rows (limit_orders s))"
  have "\<exists>s4. shifts (\<lambda>a. - asset_in a pays - core_in a (deferred_fee x)) s3 s4 \<and> only_limit i s3 s4 \<and>
      shifts (\<lambda>a. 0) s4 s' \<and> only_limit i s4 s' \<and> (filled \<longrightarrow> ?n s' < ?n s3)"
  proof (cases "pays = amount_for_sale x")
    case True
    then have "table_remove limit_orders put_limit_orders i s3 = Inr s'" using rest by (auto simp: ok_simps)
    from remove_limit_shifts [OF shifts_inv [OF in3] this x3] table_remove_only(1) [OF this] show ?thesis
      using True by (auto simp: order_in_def algebra_simps intro!: exI [of _ s'] dest: shifts_inv shifts_cong)
  next
    case False
    then obtain s4 where s4: "modify_limit_order i (\<lambda>b. bind (safe_sub F (for_sale b) (amount pays)) (\<lambda>v.
               Inr (b\<lparr>for_sale := v, deferred_fee := 0\<rparr>))) s3 = Inr s4"
      and c: "(if cull \<or> head_block_time s < HARDFORK_555_TIME then maybe_cull_small_order F i s4 else Inr (s4, False)) = Inr (s', filled)"
      using rest by (auto simp: ok_simps)
    note 4 = reduce_limit_shifts [OF shifts_inv [OF in3] x3 le id s4]
    have "shifts (\<lambda>a. 0) s4 s' \<and> only_limit i s4 s' \<and> (filled \<longrightarrow> ?n s' < ?n s4)"
      using c maybe_cull_shifts [OF shifts_inv [OF 4]] shifts_inv [OF 4] by (auto split: if_splits)
    then show ?thesis using 4 table_modify_only(1) [OF s4] by (auto simp: only_limit_def intro!: exI [of _ s4])
  qed
  then obtain s4 where 4: "shifts (\<lambda>a. - asset_in a pays - core_in a (deferred_fee x)) s3 s4" "only_limit i s3 s4"
      "shifts (\<lambda>a. 0) s4 s'" "only_limit i s4 s'" "filled \<longrightarrow> ?n s' < ?n s3" by blast
  show "shifts (\<lambda>a. asset_in a receives - asset_in a pays) s s'"
    using shifts_trans [OF in3 shifts_trans [OF 4(1,3) refl]] by simp
  show "only_limit i s s'" using only_limit_trans [OF same_book_only(1) [OF b3] only_limit_trans [OF 4(2,4)]] .
  show "filled \<Longrightarrow> ?n s' < ?n s" using 4(5) b3 by (simp add: same_book_def)
  show "pays = amount_for_sale x \<Longrightarrow> filled" using rest by (auto simp: ok_simps)
qed

end

definition supply_falls :: "nat \<Rightarrow> int \<Rightarrow> database \<Rightarrow> database \<Rightarrow> bool" where
  "supply_falls m x s s' \<longleftrightarrow> (\<exists>i d. dyn_id s m = Some i \<and> index_find (asset_dyn s) i = Some d \<and>
     index_find (asset_dyn s') = (index_find (asset_dyn s))(i \<mapsto> d\<lparr>current_supply := current_supply d - x\<rparr>))"

context fc_laws
begin

lemma close_call_shifts:
  assumes inv: "chain_inv s" and c: "index_find (call_orders s) i = Some c" and id: "asset_id (get_collateral c) = asset_id pays"
    and ok: "modify_call_order i (close_call F pays receives) s = Inr s'"
  shows "\<exists>c'. index_find (call_orders s') i = Some c' \<and> borrower c' = borrower c \<and>
    collateral c' = (if debt c - amount receives = 0 then 0 else collateral c - amount pays) \<and>
    asset_id (get_collateral c') = asset_id pays \<and>
    shifts (\<lambda>a. - asset_in a pays - (if debt c - amount receives = 0 then asset_in a (mk_asset (collateral c - amount pays) (asset_id pays)) else 0)) s s'
    \<and> asset_dyn s' = asset_dyn s"
proof -
  have "\<exists>y y' t. index_find (call_orders s) i = Some y \<and> close_call F pays receives y = Inr y' \<and> s' = put_call_orders t s \<and>
      index_find t = (index_find (call_orders s))(i \<mapsto> y') \<and> chain_inv s' \<and>
      (\<forall>a. ledger a s' = ledger a s - call_in a y + call_in a y')"
    by (rule call_tab.modify_checked [OF inv ok]) (auto simp: close_call_def ok_simps call_ok_def)
  then show ?thesis using c id
    by (auto simp: close_call_def ok_simps safe_Inr shifts_def call_in_def get_collateral_def asset_in_def)
qed

lemma supply_shifts:
  assumes inv: "chain_inv s" and a: "index_find (assets s) m = Some mia"
    and ok: "modify_asset_dyn (dynamic_asset_data_id mia) (\<lambda>d.
            bind (safe_sub F (current_supply d) x) (\<lambda>v. Inr (d\<lparr>current_supply := v\<rparr>))) s = Inr s'"
  shows "shifts (\<lambda>a. asset_in a (mk_asset x m)) s s'" "same_book s s'" "supply_falls m x s s'"
proof -
  have d: "dyn_id s b = Some (dynamic_asset_data_id mia) \<longleftrightarrow> m = b" for b
    using dyn_id_inj [OF inv, of m] a by (simp add: dyn_id_def)
  note step = modify_asset_dyn_step [OF inv ok]
  show "shifts (\<lambda>a. asset_in a (mk_asset x m)) s s'" "same_book s s'" using step
    by (auto simp: ok_simps safe_Inr d net_def asset_in_def fee_pool_in_def shifts_def same_book_def)
  show "supply_falls m x s s'" unfolding supply_falls_def
    by (rule exI [of _ "dynamic_asset_data_id mia"]) (use step in \<open>auto simp: d ok_simps safe_Inr\<close>)
qed

lemma release_core_pending: "release_core F freed pays t = Inr t' \<Longrightarrow> pending_in a t' = pending_in a t + 0"
  by (auto simp: release_core_def ok_simps pending_in_def)

lemma free_collateral_shifts:
  assumes inv: "chain_inv s"
    and ok: "(if freed \<noteq> None \<or> b then
             bind (case freed of Some x \<Rightarrow> adjust_balance F acct x s | None \<Rightarrow> Inr s) (\<lambda>s3.
             modify_stats j (release_core F freed pays) s3)
           else Inr s) = Inr s'"
  shows "shifts (\<lambda>a. case freed of Some x \<Rightarrow> asset_in a x | None \<Rightarrow> 0) s s' \<and> same_book s s' \<and> asset_dyn s' = asset_dyn s"
proof (cases "freed \<noteq> None \<or> b")
  case True
  then obtain s3 where s3: "(case freed of Some x \<Rightarrow> adjust_balance F acct x s | None \<Rightarrow> Inr s) = Inr s3"
    and m: "modify_stats j (release_core F freed pays) s3 = Inr s'"
    using ok by (auto simp: ok_simps)
  have 1: "shifts (\<lambda>a. case freed of Some x \<Rightarrow> asset_in a x | None \<Rightarrow> 0) s s3 \<and> same_book s s3 \<and> asset_dyn s3 = asset_dyn s"
    using s3 adjust_shifts [OF inv] inv by (cases freed) auto
  note 2 = modify_stats_shifts [OF shifts_inv [OF conjunct1 [OF 1]] m release_core_pending [of freed pays]]
  show ?thesis using 1 2 by (auto intro: shifts_trans same_book_trans)
next
  case False
  then show ?thesis using ok inv by auto
qed

lemma fill_call_shifts:
  assumes inv: "chain_inv s" and ok: "fill_call_order F i pays receives s = Inr (s', filled)"
  shows "shifts (\<lambda>a. asset_in a receives - asset_in a pays) s s'" "only_call i s s'"
    "supply_falls (asset_id receives) (amount receives) s s'"
    "filled \<Longrightarrow> length (rows (call_orders s')) < length (rows (call_orders s))"
    "index_find (call_orders s) i = Some c0 \<Longrightarrow> receives = get_debt c0 \<Longrightarrow> filled"
    "filled \<Longrightarrow> index_find (call_orders s') i = None"
proof -
  obtain c where c: "index_find (call_orders s) i = Some c"
    using ok by (auto simp: fill_call_order_def ok_simps index_get_def)
  define freed where "freed =
    (if debt c - amount receives = 0 then Some (mk_asset (collateral c - amount pays) (asset_id (get_collateral c))) else None)"
  obtain mia j s1 s2 s4 where idp: "asset_id (get_collateral c) = asset_id pays"
    and s1: "modify_call_order i (close_call F pays receives) s = Inr s1"
    and mia: "index_find (assets s1) (asset_id receives) = Some mia"
    and s2: "modify_asset_dyn (dynamic_asset_data_id mia) (\<lambda>d.
            bind (safe_sub F (current_supply d) (amount receives)) (\<lambda>v. Inr (d\<lparr>current_supply := v\<rparr>))) s1 = Inr s2"
    and s4: "(if freed \<noteq> None \<or> asset_id pays = 0 then
             bind (case freed of Some x \<Rightarrow> adjust_balance F (borrower c) x s2 | None \<Rightarrow> Inr s2) (\<lambda>s3.
             modify_stats j (release_core F freed pays) s3)
           else Inr s2) = Inr s4"
    and rest: "(if freed \<noteq> None then bind (table_remove call_orders put_call_orders i s4) (\<lambda>s5. Inr (s5, True))
       else Inr (s4, False)) = Inr (s', filled)"
  proof -
    have "\<exists>s1 mia s2 acct s4. asset_id (get_collateral c) = asset_id pays \<and>
      modify_call_order i (close_call F pays receives) s = Inr s1 \<and> index_get (assets s1) (asset_id receives) = Inr mia \<and>
      modify_asset_dyn (dynamic_asset_data_id mia) (\<lambda>d.
            bind (safe_sub F (current_supply d) (amount receives)) (\<lambda>v. Inr (d\<lparr>current_supply := v\<rparr>))) s1 = Inr s2 \<and>
      index_get (accounts s2) (borrower c) = Inr acct \<and>
      (if freed \<noteq> None \<or> asset_id pays = 0 then
             bind (case freed of Some x \<Rightarrow> adjust_balance F (borrower c) x s2 | None \<Rightarrow> Inr s2) (\<lambda>s3.
             modify_stats (statistics acct) (release_core F freed pays) s3)
           else Inr s2) = Inr s4 \<and>
      (if freed \<noteq> None then bind (table_remove call_orders put_call_orders i s4) (\<lambda>s5. Inr (s5, True))
       else Inr (s4, False)) = Inr (s', filled)"
      using ok unfolding fill_call_order_def freed_def Let_def bind_eq_Inr fc_assert_Inr safe_sub_Inr index_get_def c
        the_object_simps sum.inject by blast
    then show thesis using that by (auto simp: index_get_def ok_simps)
  qed
  have fr: "freed = (if debt c - amount receives = 0 then Some (mk_asset (collateral c - amount pays) (asset_id pays)) else None)"
    by (simp add: freed_def idp)
  obtain c' where c': "index_find (call_orders s1) i = Some c'" "asset_id (get_collateral c') = asset_id pays"
    "collateral c' = (if debt c - amount receives = 0 then 0 else collateral c - amount pays)"
    and 1: "shifts (\<lambda>a. - asset_in a pays - (case freed of Some x \<Rightarrow> asset_in a x | None \<Rightarrow> 0)) s s1" "asset_dyn s1 = asset_dyn s"
    using close_call_shifts [OF inv c idp s1] by (cases "debt c = amount receives") (auto simp: fr)
  note 2 = supply_shifts [OF shifts_inv [OF 1(1)] mia s2]
  note 4 = free_collateral_shifts [OF shifts_inv [OF 2(1)] s4]
  have c4: "index_find (call_orders s4) i = Some c'" using c' 2(2) 4 by (simp add: same_book_def)
  have 5: "shifts (\<lambda>a. 0) s4 s' \<and> only_call i s4 s' \<and> asset_dyn s' = asset_dyn s4 \<and>
      (filled \<longrightarrow> length (rows (call_orders s')) < length (rows (call_orders s4)))"
  proof (cases freed)
    case None
    then show ?thesis using rest 4 by (auto dest: shifts_inv)
  next
    case (Some x)
    then have r: "table_remove call_orders put_call_orders i s4 = Inr s'" using rest by (auto simp: ok_simps)
    have "call_in a c' = 0" for a using c' Some fr by (auto simp: call_in_def asset_in_def get_collateral_def split: if_splits)
    then have "shifts (\<lambda>a. 0) s4 s'" using remove_call_shifts [OF shifts_inv [OF conjunct1 [OF 4]] r c4] by simp
    then show ?thesis using table_remove_only(2) [OF r] r by (auto simp: table_remove_def ok_simps)
  qed
  have "shifts (\<lambda>a. asset_in a (mk_asset (amount receives) (asset_id receives)) - asset_in a pays) s s'"
    by (rule shifts_trans [OF shifts_trans [OF 1(1) 2(1) refl] shifts_trans [OF conjunct1 [OF 4] conjunct1 [OF 5] refl]]) simp
  then show "shifts (\<lambda>a. asset_in a receives - asset_in a pays) s s'"
    by (rule shifts_cong) (simp add: asset_in_def)
  have o4: "only_call i s s4"
    using table_modify_only(2) [OF s1] same_book_only(2) [OF 2(2)] 4 by (blast intro: only_call_trans same_book_only(2))
  then show "only_call i s s'" using 5 by (blast intro: only_call_trans)
  show "filled \<Longrightarrow> length (rows (call_orders s')) < length (rows (call_orders s))" using o4 5 by (auto simp: only_call_def)
  show "index_find (call_orders s) i = Some c0 \<Longrightarrow> receives = get_debt c0 \<Longrightarrow> filled"
    using rest c by (auto simp: fr get_debt_def ok_simps)
  show "filled \<Longrightarrow> index_find (call_orders s') i = None"
    using rest by (auto simp: ok_simps table_remove_def index_remove_Inr index_find_def map_of_row_delete split: if_splits)
  show "supply_falls (asset_id receives) (amount receives) s s'"
    using 2(3) 1 4 5 by (auto simp: supply_falls_def shifts_def dyn_id_def)
qed

end

text \<open>Only limit orders change.\<close>

definition only_limits :: "database \<Rightarrow> database \<Rightarrow> bool" where
  "only_limits s s' \<longleftrightarrow> call_orders s' = call_orders s \<and> settlements s' = settlements s \<and> bitassets s' = bitassets s \<and>
     length (rows (limit_orders s')) \<le> length (rows (limit_orders s))"

lemma asset_mul_ids: "asset_mul a p = Inr r \<Longrightarrow>
  asset_id a = asset_id (base p) \<and> asset_id r = asset_id (quote p) \<or>
  asset_id a \<noteq> asset_id (base p) \<and> asset_id a = asset_id (quote p) \<and> asset_id r = asset_id (base p)"
  by (auto simp: asset_mul_def scale_def Let_def ok_simps split: if_splits)

lemma asset_lt_Inr [ok_simps]: "asset_lt a b = Inr r \<longleftrightarrow> asset_id a = asset_id b \<and> r = (amount a < amount b)"
  by (auto simp: asset_lt_def ok_simps)

lemma asset_le_Inr: "asset_le a b = Inr r \<longleftrightarrow> asset_id a = asset_id b \<and> r = (amount a \<le> amount b)"
  by (cases a; cases b) (auto simp: asset_le_def ok_simps)

lemma asset_gt_Inr: "asset_gt a b = Inr r \<longleftrightarrow> asset_id a = asset_id b \<and> r = (amount b < amount a)"
  by (auto simp: asset_gt_def ok_simps asset_le_Inr)

lemma asset_min_Inr: "asset_min a b = Inr r \<longleftrightarrow> asset_id a = asset_id b \<and> r = (if amount b < amount a then b else a)"
  by (auto simp: asset_min_def ok_simps)

context fc_laws
begin

lemma reduce_settlement_shifts:
  assumes inv: "chain_inv s" and x: "index_find (settlements s) i = Some x" and id: "asset_id pays = asset_id (fs_balance x)"
    and ok: "modify_settlement i (\<lambda>y. bind (asset_sub F (fs_balance y) pays) (\<lambda>b. Inr (y\<lparr>fs_balance := b\<rparr>))) s = Inr s'"
  shows "shifts (\<lambda>a. - asset_in a pays) s s'"
  using settle_tab.modify_step [OF inv ok] x id
  by (auto simp: shifts_def ok_simps asset_sub_Inr settlement_in_def asset_in_def)

lemma fill_settlement_shifts:
  assumes inv: "chain_inv s" and ok: "fill_settlement F i pays receives s = Inr (s', filled)"
    and x: "index_find (settlements s) i = Some x" and le: "amount pays \<le> amount (fs_balance x)"
    and range: "0 \<le> amount receives" "amount receives < 2 ^ 63"
  shows "shifts (\<lambda>a. asset_in a receives - asset_in a pays) s s'"
proof -
  let ?partly = "amount pays < amount (fs_balance x)"
  obtain s1 fees s2 net s3 where id: "asset_id pays = asset_id (fs_balance x)"
    and s1: "pay_market_fees F receives (fs_owner x) s = Inr (s1, fees)"
    and s2: "(if ?partly then modify_settlement i (\<lambda>y. bind (asset_sub F (fs_balance y) pays) (\<lambda>b. Inr (y\<lparr>fs_balance := b\<rparr>))) s1
           else Inr s1) = Inr s2"
    and n: "asset_sub F receives fees = Inr net" and s3: "adjust_balance F (fs_owner x) net s2 = Inr s3"
    and rest: "(if ?partly then Inr (s3, False)
       else bind (table_remove settlements put_settlements i s3) (\<lambda>s4. Inr (s4, True))) = Inr (s', filled)"
    using ok x unfolding fill_settlement_def bind_eq_Inr asset_lt_Inr index_get_def by (auto simp: ok_simps)
  note 1 = pay_market_fees_shifts [OF inv s1 range]
  have x1: "index_find (settlements s1) i = Some x" using x 1(2) by (simp add: same_book_def)
  have 2: "shifts (\<lambda>a. if ?partly then - asset_in a pays else 0) s1 s2 \<and> (\<not> ?partly \<longrightarrow> s2 = s1)"
  proof (cases ?partly)
    case True
    then show ?thesis using s2 reduce_settlement_shifts [OF shifts_inv [OF 1(1)] x1 id] by simp
  qed (use s2 shifts_inv [OF 1(1)] in auto)
  note 3 = adjust_shifts [OF shifts_inv [OF conjunct1 [OF 2]] s3]
  have 4: "shifts (\<lambda>a. if ?partly then 0 else - asset_in a pays) s3 s'"
  proof (cases ?partly)
    case False
    have "index_find (settlements s3) i = Some x" using False x1 2 3(2) by (simp add: same_book_def)
    moreover have r: "table_remove settlements put_settlements i s3 = Inr s'" using False rest by (auto simp: ok_simps)
    moreover have "settlement_in a x = asset_in a pays" for a
      using False le id by (simp add: settlement_in_def asset_in_def)
    ultimately show ?thesis using remove_settlement_shifts [OF shifts_inv [OF 3(1)] r] False by simp
  qed (use rest shifts_inv [OF 3(1)] in auto)
  show ?thesis
  proof (rule shifts_trans [OF shifts_trans [OF 1(1) conjunct1 [OF 2] refl] shifts_trans [OF 3(1) 4 refl]])
    show "asset_in a receives - asset_in a pays = asset_in a fees + (if ?partly then - asset_in a pays else 0) +
        (asset_in a net + (if ?partly then 0 else - asset_in a pays))" for a
      using n 1(3) by (auto simp: asset_sub_Inr asset_in_def)
  qed
qed

lemma match_settlement_shifts:
  assumes inv: "chain_inv s" and ok: "match_settlement F c i p m s = Inr (s', r)"
  shows "shifts (\<lambda>a. 0) s s'"
proof -
  obtain x co sell v s1 f1 f2 where x: "index_find (settlements s) i = Some x"
    and sell: "asset_min (fs_balance x) m = Inr sell" and r: "asset_min sell (get_debt co) = Inr r"
    and v: "asset_mul r p = Inr v" and s1: "fill_call_order F c v r s = Inr (s1, f1)"
    and s2: "fill_settlement F i r v s1 = Inr (s', f2)"
    using ok unfolding match_settlement_def bind_eq_Inr index_get_def the_object_Inr
    by (elim exE conjE) (simp split: prod.splits add: bind_eq_Inr, blast)
  have le: "amount r \<le> amount (fs_balance x)" using sell r by (auto simp: asset_min_Inr split: if_splits)
  note 1 = fill_call_shifts [OF inv s1]
  have x1: "index_find (settlements s1) i = Some x" using x 1(2) by (simp add: only_call_def)
  note 2 = fill_settlement_shifts [OF shifts_inv [OF 1(1)] s2 x1 le] asset_mul_range [OF v]
  show ?thesis using shifts_trans [OF 1(1) 2(1)] 2(2) by simp
qed

text \<open>At the price of the older order, the older order never pays more than it sells.\<close>

lemma match_price_fits:
  assumes "price_ok p" "asset_id (base p) \<noteq> asset_id (quote p)" "0 \<le> u" "u < 2 ^ 63" "0 \<le> c" "c < 2 ^ 63"
    and "asset_mul (mk_asset c (asset_id (base p))) p = Inr cv" "u \<le> amount cv"
    and "asset_mul (mk_asset u (asset_id (quote p))) p = Inr r"
  shows "amount r \<le> c"
proof -
  let ?b = "amount (base p)" and ?q = "amount (quote p)"
  have cv: "amount cv = c * ?q div ?b" "amount r = u * ?b div ?q" and pos: "0 < ?b" "0 < ?q"
    using assms by (auto simp: asset_mul_def price_ok_def ok_simps scale_Inr)
  have "u * ?b \<le> (c * ?q div ?b) * ?b" using assms(8) cv pos by (simp add: mult_right_mono)
  then have "u * ?b div ?q \<le> (c * ?q div ?b) * ?b div ?q" using pos by (intro zdiv_mono1) auto
  then show ?thesis using muldiv_back_le [OF assms(5) pos(2,1)] cv by simp
qed

lemma match_limit_shifts:
  assumes inv: "chain_inv s" and ok: "match_limit_orders F u c (sell_price cx) s = Inr (s', r)"
    and cx: "index_find (limit_orders s) c = Some cx"
  shows "shifts (\<lambda>a. 0) s s'" "only_limits s s'"
    "r = 2 \<Longrightarrow> length (rows (limit_orders s')) < length (rows (limit_orders s))"
proof -
  let ?p = "sell_price cx"
  obtain ux cv usd core s1 f1 f2 where ux: "index_find (limit_orders s) u = Some ux"
    and cv: "asset_mul (amount_for_sale cx) ?p = Inr cv"
    and id: "asset_id (amount_for_sale ux) = asset_id cv"
    and am: "(if amount (amount_for_sale ux) \<le> amount cv
        then bind (asset_mul (amount_for_sale ux) ?p) (\<lambda>r. Inr (r, amount_for_sale ux))
        else Inr (amount_for_sale cx, cv)) = Inr (usd, core)"
    and s1: "fill_limit_order F u core usd False s = Inr (s1, f1)"
    and s2: "fill_limit_order F c usd core True s1 = Inr (s', f2)"
    and r: "r = (if f1 then 1 else 0) + (if f2 then 2 else 0)"
    using ok cx unfolding match_limit_orders_def bind_eq_Inr asset_le_Inr index_get_def by (auto simp: ok_simps)
  have oks: "order_ok ux" "order_ok cx" using inv ux cx by (auto simp: chain_inv_def rows_ok_def)
  have s1ids: "asset_id (amount_for_sale ux) = asset_id core" "asset_id core \<noteq> asset_id usd"
    using s1 ux by (auto simp: fill_limit_order_def Let_def ok_simps index_get_def)
  have ne: "asset_id (base ?p) \<noteq> asset_id (quote ?p)" "asset_id core = asset_id (quote ?p)" "asset_id usd = asset_id (base ?p)"
    using am s1ids id asset_mul_ids [OF cv] by (auto simp: amount_for_sale_def ok_simps dest!: asset_mul_ids split: if_splits)
  have "u \<noteq> c" using ne s1ids ux cx by (auto simp: amount_for_sale_def)
  have le: "amount core \<le> for_sale ux \<and> amount usd \<le> for_sale cx"
  proof (cases "amount (amount_for_sale ux) \<le> amount cv")
    case True
    then have r: "core = amount_for_sale ux" "asset_mul (amount_for_sale ux) ?p = Inr usd" using am by (auto simp: ok_simps)
    have "asset_id (amount_for_sale ux) = asset_id (quote ?p)" using ne r by simp
    then have "asset_mul (mk_asset (for_sale ux) (asset_id (quote ?p))) ?p = Inr usd"
      using r(2) by (simp add: amount_for_sale_def)
    then show ?thesis using match_price_fits [OF _ ne(1), of "for_sale ux" "for_sale cx" cv usd] True oks r(1) cv
      by (simp add: order_ok_def amount_for_sale_def)
  qed (use am in \<open>auto simp: amount_for_sale_def\<close>)
  have range: "0 \<le> amount usd" "amount usd < 2 ^ 63" "0 \<le> amount core" "amount core < 2 ^ 63"
    using am le oks asset_mul_range [OF cv] by (auto simp: order_ok_def amount_for_sale_def ok_simps dest: asset_mul_range split: if_splits)
  note 1 = fill_limit_shifts [OF inv s1 ux conjunct1 [OF le] range(1,2)]
  have cx1: "index_find (limit_orders s1) c = Some cx" using cx 1(2) \<open>u \<noteq> c\<close> by (simp add: only_limit_def)
  note 2 = fill_limit_shifts [OF shifts_inv [OF 1(1)] s2 cx1 conjunct2 [OF le] range(3,4)]
  show "shifts (\<lambda>a. 0) s s'" using shifts_trans [OF 1(1) 2(1)] by simp
  show "only_limits s s'" using 1(2) 2(2) by (simp add: only_limits_def only_limit_def)
  show "r = 2 \<Longrightarrow> length (rows (limit_orders s')) < length (rows (limit_orders s))"
    using 1(2) 2(3) r by (auto simp: only_limit_def split: if_splits)
qed

end

section \<open>The calls of a market\<close>

lemma insert_by_insort:
  "(\<And>y. y \<in> set ys \<Longrightarrow> lt y x \<longleftrightarrow> key y < key x) \<Longrightarrow> insert_by lt x ys = insort_key (key :: 'a \<Rightarrow> 'k :: linorder) x ys"
  by (induction ys) (auto simp: not_le)

lemma sort_by_sort_key:
  fixes key :: "'a \<Rightarrow> 'k :: linorder"
  assumes "\<And>x y. x \<in> set xs \<Longrightarrow> y \<in> set xs \<Longrightarrow> lt x y \<longleftrightarrow> key x < key y"
  shows "sort_by lt xs = sort_key key xs"
  using assms
proof (induction xs)
  case (Cons x xs)
  then have "sort_by lt xs = sort_key key xs" by simp
  then show ?case using Cons.prems insert_by_insort [of "sort_key key xs" lt x key] by (simp add: sort_by_def)
qed (simp add: sort_by_def)

lemma dropWhile_sorted:
  assumes "sorted (map k xs)" "\<And>x y. x \<in> set xs \<Longrightarrow> y \<in> set xs \<Longrightarrow> k x \<le> k y \<Longrightarrow> P y \<Longrightarrow> P x"
  shows "x \<in> set (dropWhile P xs) \<Longrightarrow> \<not> P x"
  using assms
proof (induction xs)
  case (Cons y ys)
  show ?case
  proof (cases "P y")
    case False
    then show ?thesis using Cons.prems by (auto dest: Cons.prems(3) [of y x])
  qed (use Cons in auto)
qed simp

definition call_key :: "nat \<times> call_order_object \<Rightarrow> nat \<times> nat \<times> rat \<times> nat" where
  "call_key x = (let p = co_call_price (snd x) in (asset_id (base p), asset_id (quote p), ratio_of p, fst x))"

lemma call_before_key: "call_ok (snd x) \<Longrightarrow> call_ok (snd y) \<Longrightarrow> call_before x y \<longleftrightarrow> call_key x < call_key y"
  by (auto simp: call_before_def call_ok_def price_lt_iff call_key_def Let_def)

lemma rows_okD: "index_inv t \<Longrightarrow> rows_ok ok t \<Longrightarrow> x \<in> set (rows t) \<Longrightarrow> ok (snd x)"
  by (metis index_find_def index_inv_distinct map_of_is_SomeI prod.collapse rows_ok_def)

lemma call_row_ok: "chain_inv s \<Longrightarrow> x \<in> set (rows (call_orders s)) \<Longrightarrow> call_ok (snd x)"
  by (rule rows_okD) (auto simp: chain_inv_def)

lemma calls_sorted:
  assumes "chain_inv s"
  shows "calls_by_price s = sort_key call_key (rows (call_orders s))"
  unfolding calls_by_price_def
  by (rule sort_by_sort_key) (simp add: call_before_key call_row_ok [OF assms])

lemma call_price_le:
  assumes "call_ok (snd x)" "call_ok (snd y)" "call_key x \<le> call_key y" "price_ok p"
  shows "price_lt (co_call_price (snd y)) p \<Longrightarrow> price_lt (co_call_price (snd x)) p"
  using assms by (auto simp: price_lt_iff call_ok_def call_key_def Let_def)

lemma market_bounds:
  assumes "price_min b q = Inr lo" "price_max b q = Inr hi" "price_ok p" "\<not> price_lt p lo" "\<not> price_lt hi p"
  shows "asset_id (base p) = b" "asset_id (quote p) = q"
  using assms by (auto simp: price_min_def price_max_def asset_div_def ok_simps price_lt_def split: if_splits)

lemma min_max_ok:
  "price_min b q = Inr p \<Longrightarrow> price_ok p" "price_max b q = Inr p' \<Longrightarrow> price_ok p'"
  by (auto simp: price_min_def price_max_def asset_div_def ok_simps price_ok_def GRAPHENE_MAX_SHARE_SUPPLY_def)

lemma hi_not_lo:
  assumes "price_min b q = Inr lo" "price_max b q = Inr hi" "price_ok p" "price_lt hi p"
  shows "\<not> price_lt p lo"
proof -
  note oks = min_max_ok(1) [OF assms(1)] min_max_ok(2) [OF assms(2)]
  have eqs: "ratio_of lo \<le> ratio_of hi" "asset_id (base lo) = asset_id (base hi)" "asset_id (quote lo) = asset_id (quote hi)"
    using assms(1,2)
    by (auto simp: price_min_def price_max_def asset_div_def ok_simps ratio_of_def GRAPHENE_MAX_SHARE_SUPPLY_def)
  show ?thesis
  proof
    assume "price_lt p lo"
    with assms(4) eqs show False
      unfolding price_lt_iff [OF assms(3) oks(1)] price_lt_iff [OF oks(2) assms(3)] by (elim disjE conjE; linarith)
  qed
qed

text \<open>The iterators of a market enclose exactly calls of this market.\<close>

lemma takeWhile_upper:
  assumes d: "distinct (map fst xs)" and no: "\<And>x. x \<in> set xs \<Longrightarrow> B x \<Longrightarrow> \<not> A x"
    and x: "x \<in> set (takeWhile (\<lambda>x. Some (fst x) \<noteq> iter (dropWhile (\<lambda>x. \<not> B x) xs)) (dropWhile A xs))"
  shows "\<not> B x"
proof (cases "dropWhile (\<lambda>x. \<not> B x) xs")
  case Nil
  then have "\<forall>y \<in> set xs. \<not> B y" by (simp add: dropWhile_eq_Nil_conv)
  then show ?thesis using x by (meson set_dropWhileD set_takeWhileD)
next
  case (Cons u us)
  define T where "T = takeWhile (\<lambda>x. \<not> B x) xs"
  have xs: "xs = T @ u # us" using Cons by (metis T_def takeWhile_dropWhile_id)
  have T: "\<forall>y \<in> set T. \<not> B y" unfolding T_def by (auto dest: set_takeWhileD)
  have Bu: "B u" using Cons by (simp add: dropWhile_eq_Cons_conv)
  then have "\<not> A u" using no xs by simp
  then have "u \<in> set (dropWhile A xs)" using xs by (simp add: dropWhile_append)
  then obtain V W where VW: "dropWhile A xs = V @ u # W" by (meson split_list)
  have "takeWhile A xs @ V @ u # W = T @ u # us" using VW xs by (metis takeWhile_dropWhile_id)
  moreover have "u \<notin> set T" "u \<notin> set us" using d xs by (auto simp: rev_image_eqI)
  ultimately have "takeWhile A xs @ V = T" using append_Cons_eq_iff [of u T us "takeWhile A xs @ V" W] by auto
  moreover have "x \<in> set V" using x VW Cons by (simp add: iter_def takeWhile_append split: if_splits) (meson set_takeWhileD)
  ultimately show ?thesis using T by auto
qed

lemma calls_between_market:
  assumes inv: "chain_inv s" and lo: "price_min b q = Inr lo" and hi: "price_max b q = Inr hi"
    and i: "i \<in> set (calls_between lo hi s)" and c: "index_find (call_orders s) i = Some c"
  shows "asset_id (base (co_call_price c)) = b" "debt_type c = q"
proof -
  let ?L = "calls_by_price s"
  have setL: "set ?L = set (rows (call_orders s))" and sL: "sorted (map call_key ?L)" by (simp_all add: calls_sorted [OF inv])
  have dr: "distinct (map fst (rows (call_orders s)))" using inv index_inv_distinct by (auto simp: chain_inv_def)
  then have dL: "distinct (map fst ?L)" by (simp add: calls_sorted [OF inv] distinct_map)
  note ok = call_row_ok [OF inv, folded setL, unfolded call_ok_def]
  obtain x where x: "x \<in> set (takeWhile (\<lambda>x. Some (fst x) \<noteq> iter (call_upper_bound hi s)) (call_lower_bound lo s))" "i = fst x"
    using i by (auto simp: calls_between_def)
  have xW: "x \<in> set (call_lower_bound lo s)" using x(1) by (meson set_takeWhileD)
  then have xL: "x \<in> set ?L" unfolding call_lower_bound_def by (meson set_dropWhileD)
  then have xc: "snd x = c"
    using c x(2) setL dr map_of_is_SomeI [of "rows (call_orders s)" "fst x" "snd x"] by (simp add: index_find_def)
  have "\<not> price_lt hi (co_call_price (snd x))"
    using takeWhile_upper [OF dL _ x(1) [unfolded call_upper_bound_def call_lower_bound_def]] hi_not_lo [OF lo hi] ok by blast
  moreover have "\<not> price_lt (co_call_price (snd x)) lo"
    using dropWhile_sorted [OF sL _ xW [unfolded call_lower_bound_def]] call_price_le min_max_ok(1) [OF lo] ok
    by (metis call_ok_def)
  ultimately show "asset_id (base (co_call_price c)) = b" "debt_type c = q"
    using market_bounds [OF lo hi] ok [OF xL] xc by (auto simp: debt_type_def)
qed

lemma calls_between_distinct:
  assumes "chain_inv s"
  shows "distinct (calls_between lo hi s)"
proof -
  have "distinct (map fst (calls_by_price s))"
    using assms index_inv_distinct [of "call_orders s"] by (simp add: calls_sorted chain_inv_def distinct_map)
  then have "distinct (map fst (call_lower_bound lo s))"
    unfolding call_lower_bound_def
    by (metis distinct_append map_append takeWhile_dropWhile_id)
  then show ?thesis unfolding calls_between_def by (metis distinct_append map_append takeWhile_dropWhile_id)
qed

section \<open>Global settlement\<close>

text \<open>Only call orders change.\<close>

definition only_calls :: "database \<Rightarrow> database \<Rightarrow> bool" where
  "only_calls s s' \<longleftrightarrow> limit_orders s' = limit_orders s \<and> settlements s' = settlements s \<and> bitassets s' = bitassets s \<and>
     length (rows (call_orders s')) \<le> length (rows (call_orders s))"

lemma only_call_calls: "only_call i s t \<Longrightarrow> only_calls t u \<Longrightarrow> only_calls s u"
  by (auto simp: only_call_def only_calls_def)

lemma supply_falls_trans:
  assumes "supply_falls m x s t" "assets t = assets s" "supply_falls m y t u"
  shows "supply_falls m (x + y) s u"
proof -
  obtain i d where i: "dyn_id s m = Some i" "index_find (asset_dyn s) i = Some d"
    "index_find (asset_dyn t) = (index_find (asset_dyn s))(i \<mapsto> d\<lparr>current_supply := current_supply d - x\<rparr>)"
    using assms(1) by (auto simp: supply_falls_def)
  then have "index_find (asset_dyn u) = (index_find (asset_dyn s))(i \<mapsto> d\<lparr>current_supply := current_supply d - (x + y)\<rparr>)"
    using assms(2,3) by (auto simp: supply_falls_def dyn_id_def algebra_simps)
  then show ?thesis using i by (auto simp: supply_falls_def)
qed

lemma supply_falls_0: "chain_inv s \<Longrightarrow> index_find (assets s) m = Some a \<Longrightarrow> supply_falls m 0 s s"
proof -
  assume inv: "chain_inv s" and a: "index_find (assets s) m = Some a"
  then have i: "dyn_id s m = Some (dynamic_asset_data_id a)" by (simp add: dyn_id_def)
  then obtain d where d: "index_find (asset_dyn s) (dynamic_asset_data_id a) = Some d"
    using inv unfolding chain_inv_def by (meson option.exhaust)
  then have "index_find (asset_dyn s) = (index_find (asset_dyn s))(dynamic_asset_data_id a \<mapsto> d\<lparr>current_supply := current_supply d - 0\<rparr>)"
    by auto
  then show ?thesis using i d unfolding supply_falls_def by blast
qed

context fc_laws
begin

lemma settle_call_shifts:
  assumes inv: "chain_inv s" and ok: "settle_call F p i (s, g) = Inr (s', g')"
    and c: "index_find (call_orders s) i = Some c"
  shows "shifts (\<lambda>a. asset_in a (get_debt c) - asset_in a (mk_asset (amount g' - amount g) (asset_id g))) s s'"
    "asset_id g' = asset_id g" "only_call i s s'" "supply_falls (debt_type c) (debt c) s s'"
    "index_find (call_orders s') i = None"
proof -
  obtain pays where g: "asset_add F g pays = Inr g'" and f: "fill_call_order F i pays (get_debt c) s = Inr (s', True)"
    using ok c unfolding settle_call_def Let_def bind_eq_Inr index_get_def
    by (auto simp: ok_simps)
  note 1 = fill_call_shifts [OF inv f]
  have pays: "pays = mk_asset (amount g' - amount g) (asset_id g)" "asset_id g' = asset_id g"
    using g by (auto simp: asset_add_Inr)
  show "shifts (\<lambda>a. asset_in a (get_debt c) - asset_in a (mk_asset (amount g' - amount g) (asset_id g))) s s'"
    using 1(1) unfolding pays(1) .
  show "asset_id g' = asset_id g" "only_call i s s'" by (fact pays(2)) (fact 1(2))
  show "supply_falls (debt_type c) (debt c) s s'" using 1(3) by (simp add: get_debt_def)
  show "index_find (call_orders s') i = None" using 1(6) by simp
qed

lemma settle_calls_shifts:
  assumes "chain_inv s" "fold_result (settle_call F p) is (s, g) = Inr (s', g')" "distinct is" "index_find (assets s) m = Some mia"
    "\<forall>i \<in> set is. \<forall>c. index_find (call_orders s) i = Some c \<longrightarrow> debt_type c = m"
  shows "\<exists>d. shifts (\<lambda>a. asset_in a (mk_asset d m) - asset_in a (mk_asset (amount g' - amount g) (asset_id g))) s s' \<and>
    asset_id g' = asset_id g \<and> only_calls s s' \<and> supply_falls m d s s' \<and>
    (\<forall>i. i \<in> set is \<or> index_find (call_orders s) i = None \<longrightarrow> index_find (call_orders s') i = None)"
  using assms
proof (induction "is" arbitrary: s g)
  case Nil
  then show ?case
    using supply_falls_0 [OF Nil.prems(1,4)] by (auto simp: only_calls_def shifts_def asset_in_def intro!: exI [of _ 0])
next
  case (Cons i "is")
  obtain s1 g1 where 1: "settle_call F p i (s, g) = Inr (s1, g1)" and r: "fold_result (settle_call F p) is (s1, g1) = Inr (s', g')"
    using Cons.prems(2) by (auto simp: ok_simps)
  obtain c where c: "index_find (call_orders s) i = Some c"
    using 1 by (auto simp: settle_call_def ok_simps index_get_def)
  have m: "debt_type c = m" using Cons.prems(5) c by simp
  note st = settle_call_shifts [OF Cons.prems(1) 1 c]
  have "\<exists>d. shifts (\<lambda>a. asset_in a (mk_asset d m) - asset_in a (mk_asset (amount g' - amount g1) (asset_id g1))) s1 s' \<and>
    asset_id g' = asset_id g1 \<and> only_calls s1 s' \<and> supply_falls m d s1 s' \<and>
    (\<forall>i. i \<in> set is \<or> index_find (call_orders s1) i = None \<longrightarrow> index_find (call_orders s') i = None)"
  proof (rule Cons.IH [OF shifts_inv [OF st(1)] r])
    show "index_find (assets s1) m = Some mia" using st(1) Cons.prems(4) by (simp add: shifts_def)
    show "\<forall>j \<in> set is. \<forall>c. index_find (call_orders s1) j = Some c \<longrightarrow> debt_type c = m"
      using st(3) Cons.prems(3,5) by (auto simp: only_call_def)
  qed (use Cons.prems(3) in simp)
  then obtain d where d: "shifts (\<lambda>a. asset_in a (mk_asset d m) - asset_in a (mk_asset (amount g' - amount g1) (asset_id g1))) s1 s'"
    "asset_id g' = asset_id g1" "only_calls s1 s'" "supply_falls m d s1 s'"
    "\<forall>i. i \<in> set is \<or> index_find (call_orders s1) i = None \<longrightarrow> index_find (call_orders s') i = None" by blast
  have "\<forall>k. k \<in> set (i # is) \<or> index_find (call_orders s) k = None \<longrightarrow> index_find (call_orders s') k = None"
    using d(5) st(3,5) unfolding only_call_def by (metis set_ConsD)
  moreover have "shifts (\<lambda>a. asset_in a (mk_asset (debt c + d) m) - asset_in a (mk_asset (amount g' - amount g) (asset_id g))) s s'"
    by (rule shifts_trans [OF st(1) d(1)]) (auto simp: asset_in_def get_debt_def m st(2))
  moreover have "supply_falls m (debt c + d) s s'"
    using supply_falls_trans [OF st(4) _ d(4) [folded m]] st(1) by (simp add: m shifts_def)
  ultimately show ?case using d(2,3) st(2,3) only_call_calls by auto
qed

lemma settle_bitasset_shifts:
  assumes inv: "chain_inv s" and bt: "index_find (bitassets s) b = Some bt" "\<not> has_settlement bt"
    and g: "asset_id g = short_backing_asset (bit_options bt)"
    and ok: "modify_bitasset b (\<lambda>x. bind (asset_div (mk_asset n m) g) (\<lambda>sp.
            Inr (x\<lparr>bit_settlement_price := sp, settlement_fund := amount g\<rparr>))) s = Inr s'"
  shows "shifts (\<lambda>a. asset_in a g) s s'" "limit_orders s' = limit_orders s" "call_orders s' = call_orders s"
    "asset_dyn s' = asset_dyn s" "\<exists>bt'. index_find (bitassets s') b = Some bt' \<and> has_settlement bt'"
proof -
  let ?f = "\<lambda>x. bind (asset_div (mk_asset n m) g) (\<lambda>sp. Inr (x\<lparr>bit_settlement_price := sp, settlement_fund := amount g\<rparr>))"
  have f0: "settlement_fund bt = 0" using inv bt by (auto simp: chain_inv_def rows_ok_def bitasset_ok_def)
  have st: "\<exists>x x' t. index_find (bitassets s) b = Some x \<and> ?f x = Inr x' \<and> s' = put_bitassets t s \<and>
      index_find t = (index_find (bitassets s))(b \<mapsto> x') \<and> chain_inv s' \<and>
      (\<forall>a. ledger a s' = ledger a s - fund_in a x + fund_in a x')"
    by (rule bit_tab.modify_checked [OF inv ok])
      (auto simp: ok_simps asset_div_def bitasset_ok_def has_settlement_def price_is_null_def price_eq_def null_price_def)
  then show "shifts (\<lambda>a. asset_in a g) s s'" "limit_orders s' = limit_orders s" "call_orders s' = call_orders s"
    "asset_dyn s' = asset_dyn s"
    using bt f0 g by (auto simp: ok_simps shifts_def fund_in_def asset_in_def)
  show "\<exists>bt'. index_find (bitassets s') b = Some bt' \<and> has_settlement bt'" using st
    by (auto simp: ok_simps asset_div_def has_settlement_def price_is_null_def price_eq_def null_price_def)
qed

lemma globally_settle_shifts:
  assumes inv: "chain_inv s" and ok: "globally_settle_asset F m p s = Inr s'"
  shows "shifts (\<lambda>a. 0) s s'" "limit_orders s' = limit_orders s"
    "length (rows (call_orders s')) \<le> length (rows (call_orders s))"
    "\<exists>mia b bt lo hi. index_find (assets s) m = Some mia \<and> bitasset_data_id mia = Some b \<and>
      index_find (bitassets s) b = Some bt \<and> \<not> has_settlement bt \<and>
      (\<exists>bt'. index_find (bitassets s') b = Some bt' \<and> has_settlement bt') \<and>
      index_find (asset_dyn s') = index_find (asset_dyn s) \<and>
      price_min (short_backing_asset (bit_options bt)) m = Inr lo \<and> price_max (short_backing_asset (bit_options bt)) m = Inr hi \<and>
      (\<forall>i \<in> set (calls_between lo hi s). index_find (call_orders s') i = None)"
proof -
  obtain mia b bt dyn lo hi s1 g s2 where mia: "index_find (assets s) m = Some mia"
    and bid: "bitasset_data_id mia = Some b" and bt: "index_find (bitassets s) b = Some bt" "\<not> has_settlement bt"
    and dyn: "index_find (asset_dyn s) (dynamic_asset_data_id mia) = Some dyn"
    and lo: "price_min (short_backing_asset (bit_options bt)) m = Inr lo"
    and hi: "price_max (short_backing_asset (bit_options bt)) m = Inr hi"
    and s1: "fold_result (settle_call F p) (calls_between lo hi s) (s, mk_asset 0 (short_backing_asset (bit_options bt))) = Inr (s1, g)"
    and s2: "modify_bitasset b (\<lambda>x. bind (asset_div (mk_asset (current_supply dyn) m) g) (\<lambda>sp.
            Inr (x\<lparr>bit_settlement_price := sp, settlement_fund := amount g\<rparr>))) s1 = Inr s2"
    and s3: "modify_asset_dyn (dynamic_asset_data_id mia) (\<lambda>x. Inr (x\<lparr>current_supply := current_supply dyn\<rparr>)) s2 = Inr s'"
    using ok unfolding globally_settle_asset_def bind_eq_Inr Let_def get_bitasset_def index_get_def
    by (auto simp: ok_simps split: option.splits)
  obtain d where 1: "shifts (\<lambda>a. asset_in a (mk_asset d m) - asset_in a g) s s1" "only_calls s s1" "supply_falls m d s s1"
    "\<forall>i \<in> set (calls_between lo hi s). index_find (call_orders s1) i = None"
    and gid: "asset_id g = short_backing_asset (bit_options bt)"
  proof -
    have mk: "\<forall>i \<in> set (calls_between lo hi s). \<forall>c. index_find (call_orders s) i = Some c \<longrightarrow> debt_type c = m"
      using calls_between_market(2) [OF inv lo hi] by blast
    obtain d where d: "shifts (\<lambda>a. asset_in a (mk_asset d m) - asset_in a (mk_asset (amount g - 0) (short_backing_asset (bit_options bt)))) s s1"
      "asset_id g = short_backing_asset (bit_options bt)" "only_calls s s1" "supply_falls m d s s1"
      "\<forall>i \<in> set (calls_between lo hi s). index_find (call_orders s1) i = None"
      using settle_calls_shifts [OF inv s1 calls_between_distinct [OF inv] mia mk] by auto
    have "shifts (\<lambda>a. asset_in a (mk_asset d m) - asset_in a g) s s1"
      by (rule shifts_cong [OF d(1)]) (simp add: asset_in_def d(2))
    then show thesis using that d by blast
  qed
  have bt1: "index_find (bitassets s1) b = Some bt" using bt 1(2) by (simp add: only_calls_def)
  note 2 = settle_bitasset_shifts [OF shifts_inv [OF 1(1)] bt1 bt(2) gid s2]
  have x2: "index_find (asset_dyn s2) (dynamic_asset_data_id mia) = Some (dyn\<lparr>current_supply := current_supply dyn - d\<rparr>)"
    using 1(3) 2(4) mia dyn by (auto simp: supply_falls_def dyn_id_def)
  have id: "dyn_id s2 a = Some (dynamic_asset_data_id mia) \<longleftrightarrow> m = a" for a
    using dyn_id_inj [OF shifts_inv [OF 2(1)], of m] mia 1(1) 2(1) by (simp add: dyn_id_def shifts_def)
  have 3: "shifts (\<lambda>a. - asset_in a (mk_asset d m)) s2 s'" "limit_orders s' = limit_orders s2" "call_orders s' = call_orders s2"
    "index_find (asset_dyn s') = (index_find (asset_dyn s2))(dynamic_asset_data_id mia \<mapsto> dyn)" "bitassets s' = bitassets s2"
    using modify_asset_dyn_step [OF shifts_inv [OF 2(1)] s3] x2
    by (auto simp: shifts_def id net_def asset_in_def fee_pool_in_def)
  show "shifts (\<lambda>a. 0) s s'" using shifts_trans [OF 1(1) shifts_trans [OF 2(1) 3(1) refl]] by simp
  show "limit_orders s' = limit_orders s" "length (rows (call_orders s')) \<le> length (rows (call_orders s))"
    using 1(2) 2(2,3) 3(2,3) by (auto simp: only_calls_def)
  have dynf: "index_find (asset_dyn s') = index_find (asset_dyn s)"
    using 1(3) 2(4) 3(4) x2 mia dyn by (auto simp: supply_falls_def dyn_id_def fun_upd_idem)
  obtain bt' where "index_find (bitassets s') b = Some bt'" "has_settlement bt'"
    using 2(5) 3(5) by auto
  then show "\<exists>mia b bt lo hi. index_find (assets s) m = Some mia \<and> bitasset_data_id mia = Some b \<and>
      index_find (bitassets s) b = Some bt \<and> \<not> has_settlement bt \<and>
      (\<exists>bt'. index_find (bitassets s') b = Some bt' \<and> has_settlement bt') \<and>
      index_find (asset_dyn s') = index_find (asset_dyn s) \<and>
      price_min (short_backing_asset (bit_options bt)) m = Inr lo \<and> price_max (short_backing_asset (bit_options bt)) m = Inr hi \<and>
      (\<forall>i \<in> set (calls_between lo hi s). index_find (call_orders s') i = None)"
    using mia bid bt lo hi 1(4) 2(3) 3(3) dynf by auto
qed

lemma check_for_blackswan_shifts:
  assumes inv: "chain_inv s" and ok: "check_for_blackswan F m enable s = Inr (s', swan)"
  shows "shifts (\<lambda>a. 0) s s'" "limit_orders s' = limit_orders s"
    "length (rows (call_orders s')) \<le> length (rows (call_orders s))"
proof -
  have "s' = s \<or> (\<exists>p. globally_settle_asset F m p s = Inr s')"
    using ok unfolding check_for_blackswan_def by (auto simp: ok_simps split: if_splits option.splits)
  then show "shifts (\<lambda>a. 0) s s'" "limit_orders s' = limit_orders s"
    "length (rows (call_orders s')) \<le> length (rows (call_orders s))"
    using inv globally_settle_shifts [OF inv] by auto
qed

end

section \<open>Margin calls\<close>

lemma asset_ge_Inr: "asset_ge a b = Inr r \<longleftrightarrow> asset_id a = asset_id b \<and> r = (amount b \<le> amount a)"
  by (auto simp: asset_ge_def ok_simps)

lemma call_amounts_fill:
  assumes "call_amounts c l = Inr (usd, r, fills_limit, filled_call)"
  shows "amount usd \<le> for_sale l" "asset_mul usd (sell_price l) = Inr r" "fills_limit \<or> filled_call"
    "fills_limit \<Longrightarrow> usd = amount_for_sale l" "filled_call \<Longrightarrow> usd = get_debt c"
  using assms by (auto simp: call_amounts_def ok_simps asset_ge_Inr amount_for_sale_def get_debt_def split: if_splits)

lemma call_step_cases:
  assumes "call_step F m enable limit_end call_end (limit_itr, call_itr, filled, called, s) = Inr r"
  shows "\<exists>s1 swan. check_for_blackswan F m enable s = Inr (s1, swan) \<and>
    ((\<exists>x. r = Finish (s1, x)) \<or> (\<exists>p s' x. globally_settle_asset F m p s1 = Inr s' \<and> r = Finish (s', x)) \<or>
     (\<exists>i l j c limit_itr' call_itr' filled' s3. index_find (limit_orders s1) i = Some l \<and> index_find (call_orders s1) j = Some c \<and>
        call_fill F i l j c filled s1 = Inr (limit_itr', call_itr', filled', s3) \<and>
        r = Continue (limit_itr', call_itr', filled', True, s3)))"
  using assms unfolding call_step_def prod.case by (auto simp: ok_simps index_get_def split: if_splits)

context fc_laws
begin

lemma call_fill_shifts:
  assumes inv: "chain_inv s" and l: "index_find (limit_orders s) i = Some l" and c: "index_find (call_orders s) j = Some c"
    and ok: "call_fill F i l j c filled s = Inr (limit_itr', call_itr', filled', s')"
  shows "shifts (\<lambda>a. 0) s s'" "book_size s' < book_size s"
proof -
  obtain usd r fl fc s2 f1 f2 where a: "call_amounts c l = Inr (usd, r, fl, fc)"
    and s2: "fill_call_order F j r usd s = Inr (s2, f1)" and s3: "fill_limit_order F i usd r True s2 = Inr (s', f2)"
    using ok unfolding call_fill_def Let_def bind_eq_Inr
    by (elim exE conjE) (simp split: prod.splits add: bind_eq_Inr, blast)
  note am = call_amounts_fill [OF a]
  note 1 = fill_call_shifts [OF inv s2]
  have l2: "index_find (limit_orders s2) i = Some l" using l 1(2) by (simp add: only_call_def)
  note 2 = fill_limit_shifts [OF shifts_inv [OF 1(1)] s3 l2 am(1)] asset_mul_range [OF am(2)]
  show "shifts (\<lambda>a. 0) s s'" using shifts_trans [OF 1(1) 2(1)] 2(5) by simp
  have "f1 \<or> f2" using 1(5) [OF c] 2(4,5) am(3-5) by blast
  then show "book_size s' < book_size s" using 1(2,4) 2(2,3,5) by (auto simp: book_size_def only_call_def only_limit_def)
qed

lemma call_step_shifts:
  assumes inv: "chain_inv s" and ok: "call_step F m enable limit_end call_end (limit_itr, call_itr, filled, called, s) = Inr r"
  shows "r = Finish (s', x) \<Longrightarrow> shifts (\<lambda>a. 0) s s' \<and> book_size s' \<le> book_size s"
    "r = Continue (limit_itr', call_itr', filled', called', s') \<Longrightarrow> shifts (\<lambda>a. 0) s s' \<and> book_size s' < book_size s"
proof -
  obtain s1 swan where s1: "check_for_blackswan F m enable s = Inr (s1, swan)"
    and c: "(\<exists>x. r = Finish (s1, x)) \<or> (\<exists>p s' x. globally_settle_asset F m p s1 = Inr s' \<and> r = Finish (s', x)) \<or>
     (\<exists>i l j c limit_itr' call_itr' filled' s3. index_find (limit_orders s1) i = Some l \<and> index_find (call_orders s1) j = Some c \<and>
        call_fill F i l j c filled s1 = Inr (limit_itr', call_itr', filled', s3) \<and>
        r = Continue (limit_itr', call_itr', filled', True, s3))"
    using call_step_cases [OF ok] by blast
  note 1 = check_for_blackswan_shifts [OF inv s1]
  note g = globally_settle_shifts [OF shifts_inv [OF 1(1)]] and f = call_fill_shifts [OF shifts_inv [OF 1(1)]]
  have b1: "book_size s1 \<le> book_size s" using 1(2,3) by (simp add: book_size_def)
  show "shifts (\<lambda>a. 0) s s' \<and> book_size s' \<le> book_size s" if fin: "r = Finish (s', x)"
  proof (cases "s' = s1")
    case False
    then obtain p where p: "globally_settle_asset F m p s1 = Inr s'" using c fin by auto
    show ?thesis using shifts_trans [OF 1(1) g(1) [OF p]] g(2,3) [OF p] b1 by (auto simp: book_size_def)
  qed (use 1(1) b1 in simp)
  show "shifts (\<lambda>a. 0) s s' \<and> book_size s' < book_size s" if con: "r = Continue (limit_itr', call_itr', filled', called', s')"
  proof -
    obtain i l j c where p: "index_find (limit_orders s1) i = Some l" "index_find (call_orders s1) j = Some c"
      "call_fill F i l j c filled s1 = Inr (limit_itr', call_itr', filled', s')" using c con by auto
    show ?thesis using shifts_trans [OF 1(1) f(1) [OF p]] f(2) [OF p] b1 by auto
  qed
qed

lemma check_call_orders_shifts:
  assumes inv: "chain_inv s" and ok: "check_call_orders F m enable s = Inr (s', called)"
  shows "shifts (\<lambda>a. 0) s s'" "book_size s' \<le> book_size s"
proof -
  have "\<exists>s1 swan. (s1 = s \<or> check_for_blackswan F m enable s = Inr (s1, swan)) \<and>
      (s' = s1 \<or> (\<exists>n le ce li ci. run_loop n (call_step F m enable le ce) (li, ci, False, False, s1) = Inr (s', called)))"
    using ok unfolding check_call_orders_def by (auto simp: ok_simps Let_def split: if_splits)
  then obtain s1 swan where s1: "s1 = s \<or> check_for_blackswan F m enable s = Inr (s1, swan)"
    and c: "s' = s1 \<or> (\<exists>n le ce li ci. run_loop n (call_step F m enable le ce) (li, ci, False, False, s1) = Inr (s', called))"
    by blast
  have 1: "shifts (\<lambda>a. 0) s s1 \<and> book_size s1 \<le> book_size s"
    using s1 inv check_for_blackswan_shifts [OF inv, of m enable s1 swan] by (auto simp: book_size_def)
  let ?I = "\<lambda>u. shifts (\<lambda>a. 0) s u \<and> book_size u \<le> book_size s"
  have step: "?I u'" if "?I u" "shifts (\<lambda>a. 0) u u' \<and> book_size u' \<le> book_size u" for u u'
    using that shifts_trans [of "\<lambda>a. 0" s u "\<lambda>a. 0" u' "\<lambda>a. 0"] by auto
  have "?I s'"
    using c
  proof (elim disjE exE)
    fix n le ce li ci
    assume r: "run_loop n (call_step F m enable le ce) (li, ci, False, False, s1) = Inr (s', called)"
    have "?I (fst (s', called))"
    proof (rule run_loop_invariant [OF r, where I = "\<lambda>(a, b, c, d, u). ?I u"])
      fix st st'
      assume I: "case st of (a, b, c, d, u) \<Rightarrow> ?I u" and b: "call_step F m enable le ce st = Inr (Continue st')"
      obtain a b c d u where st: "st = (a, b, c, d, u)" by (cases st)
      obtain a' b' c' d' u' where st': "st' = (a', b', c', d', u')" by (cases st')
      have "?I u" using I by (simp add: st)
      moreover have "shifts (\<lambda>a. 0) u u' \<and> book_size u' < book_size u"
        using call_step_shifts(2) [OF shifts_inv [OF conjunct1 [OF calculation]] b [unfolded st] arg_cong [OF st', of Continue]] .
      ultimately show "case st' of (a, b, c, d, u) \<Rightarrow> ?I u" unfolding st' prod.case using step [of u u'] by simp
    next
      fix st x
      assume I: "case st of (a, b, c, d, u) \<Rightarrow> ?I u" and b: "call_step F m enable le ce st = Inr (Finish x)"
      obtain a b c d u where st: "st = (a, b, c, d, u)" by (cases st)
      have "?I u" using I by (simp add: st)
      moreover have "shifts (\<lambda>a. 0) u (fst x) \<and> book_size (fst x) \<le> book_size u"
        using call_step_shifts(1) [OF shifts_inv [OF conjunct1 [OF calculation]] b [unfolded st], of "fst x" "snd x"] by simp
      ultimately show "?I (fst x)" by (rule step)
    qed (use 1 in simp)
    then show ?thesis by simp
  qed (use 1 in simp)
  then show "shifts (\<lambda>a. 0) s s'" "book_size s' \<le> book_size s" by auto
qed

end

section \<open>New orders\<close>

context fc_laws
begin

lemma match_step_shifts:
  assumes inv: "chain_inv s" and ok: "match_step F new_id limit_end (limit_itr, s) = Inr r"
  shows "r = Finish s' \<Longrightarrow> shifts (\<lambda>a. 0) s s' \<and> book_size s' \<le> book_size s"
    "r = Continue (limit_itr', s') \<Longrightarrow> shifts (\<lambda>a. 0) s s' \<and> length (rows (limit_orders s')) < length (rows (limit_orders s)) \<and>
      book_size s' \<le> book_size s"
proof -
  have c: "r = Finish s \<or> (\<exists>i old u n. index_find (limit_orders s) i = Some old \<and>
      match_limit_orders F new_id i (sell_price old) s = Inr (u, n) \<and>
      r = (if n \<noteq> 2 then Finish u else Continue (next_iter i (limits_by_price s), u)))"
    using ok by (auto simp: match_step_def ok_simps index_get_def Let_def split: if_splits)
  note m = match_limit_shifts [OF inv]
  show "r = Finish s' \<Longrightarrow> shifts (\<lambda>a. 0) s s' \<and> book_size s' \<le> book_size s"
    using c inv m by (fastforce simp: only_limits_def book_size_def split: if_splits)
  show "r = Continue (limit_itr', s') \<Longrightarrow> shifts (\<lambda>a. 0) s s' \<and> length (rows (limit_orders s')) < length (rows (limit_orders s)) \<and>
      book_size s' \<le> book_size s"
    using c m by (fastforce simp: only_limits_def book_size_def split: if_splits)
qed

lemma match_loop_shifts:
  assumes inv: "chain_inv s" and ok: "run_loop n (match_step F new_id limit_end) (limit_itr, s) = Inr s'"
  shows "shifts (\<lambda>a. 0) s s' \<and> book_size s' \<le> book_size s"
proof (rule run_loop_invariant [OF ok, where I = "\<lambda>(i, u). shifts (\<lambda>a. 0) s u \<and> book_size u \<le> book_size s"])
  fix st st'
  assume I: "case st of (i, u) \<Rightarrow> shifts (\<lambda>a. 0) s u \<and> book_size u \<le> book_size s"
    and b: "match_step F new_id limit_end st = Inr (Continue st')"
  obtain i u i' u' where st: "st = (i, u)" "st' = (i', u')" by (cases st; cases st')
  have "shifts (\<lambda>a. 0) u u' \<and> book_size u' \<le> book_size u"
    using match_step_shifts(2) [of u new_id limit_end i "Continue st'" i' u'] I b by (auto simp: st dest: shifts_inv)
  then show "case st' of (i, u) \<Rightarrow> shifts (\<lambda>a. 0) s u \<and> book_size u \<le> book_size s"
    using I shifts_trans [of "\<lambda>a. 0" s u "\<lambda>a. 0" u' "\<lambda>a. 0"] by (auto simp: st)
next
  fix st x
  assume I: "case st of (i, u) \<Rightarrow> shifts (\<lambda>a. 0) s u \<and> book_size u \<le> book_size s"
    and b: "match_step F new_id limit_end st = Inr (Finish x)"
  obtain i u where st: "st = (i, u)" by (cases st)
  have "shifts (\<lambda>a. 0) u x \<and> book_size x \<le> book_size u"
    using match_step_shifts(1) [of u new_id limit_end i "Finish x" x] I b by (auto simp: st dest: shifts_inv)
  then show "shifts (\<lambda>a. 0) s x \<and> book_size x \<le> book_size s"
    using I shifts_trans [of "\<lambda>a. 0" s u "\<lambda>a. 0" x "\<lambda>a. 0"] by (auto simp: st)
qed (use inv in simp)

lemma match_new_order_shifts:
  "chain_inv s \<Longrightarrow> match_new_order F i s = Inr s' \<Longrightarrow> shifts (\<lambda>a. 0) s s' \<and> book_size s' \<le> book_size s"
  using match_loop_shifts by (auto simp: match_new_order_def ok_simps Let_def)

lemma cull_new_order_shifts:
  "chain_inv s \<Longrightarrow> cull_new_order F i s = Inr (s', b) \<Longrightarrow> shifts (\<lambda>a. 0) s s' \<and> book_size s' \<le> book_size s"
  using maybe_cull_shifts(1,2) [of s i s' b] by (auto simp: cull_new_order_def book_size_def only_limit_def split: if_splits)

lemma apply_order_shifts:
  assumes inv: "chain_inv s" and ok: "apply_order F i allow s = Inr (s', filled)"
  shows "shifts (\<lambda>a. 0) s s'" "book_size s' \<le> book_size s"
proof -
  let ?R = "\<lambda>u v. shifts (\<lambda>a. 0) u v \<and> book_size v \<le> book_size u"
  have "\<exists>sell receive s1 c1 s2 c2. check_call_orders F sell allow s = Inr (s1, c1) \<and>
      check_call_orders F receive allow s1 = Inr (s2, c2) \<and>
      (s' = s2 \<or> (\<exists>s3 s4 c4 s5 c5. match_new_order F i s2 = Inr s3 \<and>
        check_call_orders F sell allow s3 = Inr (s4, c4) \<and> check_call_orders F receive allow s4 = Inr (s5, c5) \<and>
        cull_new_order F i s5 = Inr (s', filled)))"
    using ok unfolding apply_order_def by (fastforce simp: ok_simps Let_def split: if_splits)
  then obtain sell receive s1 c1 s2 c2 where s1: "check_call_orders F sell allow s = Inr (s1, c1)"
    and s2: "check_call_orders F receive allow s1 = Inr (s2, c2)"
    and c: "s' = s2 \<or> (\<exists>s3 s4 c4 s5 c5. match_new_order F i s2 = Inr s3 \<and>
        check_call_orders F sell allow s3 = Inr (s4, c4) \<and> check_call_orders F receive allow s4 = Inr (s5, c5) \<and>
        cull_new_order F i s5 = Inr (s', filled))"
    by blast
  have R: "?R u w" if "?R u v" "chain_inv v \<Longrightarrow> ?R v w" for u v w
    using that shifts_trans [of "\<lambda>a. 0" u v "\<lambda>a. 0" w "\<lambda>a. 0"] shifts_inv [of "\<lambda>a. 0" u v] by auto
  have cc: "?R u v" if "chain_inv u" "check_call_orders F m allow u = Inr (v, b)" for u v m b
    using check_call_orders_shifts [OF that] by simp
  have "?R s s2" using R [OF cc [OF inv s1] cc [OF _ s2]] .
  from c have "?R s s'"
  proof (elim disjE exE conjE)
    fix s3 s4 c4 s5 c5
    assume 3: "match_new_order F i s2 = Inr s3" and 4: "check_call_orders F sell allow s3 = Inr (s4, c4)"
      and 5: "check_call_orders F receive allow s4 = Inr (s5, c5)" and 6: "cull_new_order F i s5 = Inr (s', filled)"
    show "?R s s'"
      using R [OF R [OF R [OF R [OF \<open>?R s s2\<close> match_new_order_shifts [OF _ 3]] cc [OF _ 4]] cc [OF _ 5]] cull_new_order_shifts [OF _ 6]] .
  qed (use \<open>?R s s2\<close> in simp)
  then show "shifts (\<lambda>a. 0) s s'" "book_size s' \<le> book_size s" by auto
qed

end

section \<open>The loops end\<close>

sublocale fc_laws \<subseteq> call_lp: shrinking_loop "call_step F m enable limit_end call_end"
    "\<lambda>(limit_itr, call_itr, filled, called, s). chain_inv s" "\<lambda>(limit_itr, call_itr, filled, called, s). book_size s"
  for m enable limit_end call_end
proof unfold_locales
  fix st st' :: "nat option \<times> nat option \<times> bool \<times> bool \<times> database"
  assume "case st of (limit_itr, call_itr, filled, called, s) \<Rightarrow> chain_inv s"
    and "call_step F m enable limit_end call_end st = Inr (Continue st')"
  then show "(case st' of (limit_itr, call_itr, filled, called, s) \<Rightarrow> chain_inv s) \<and>
      (case st' of (limit_itr, call_itr, filled, called, s) \<Rightarrow> book_size s) <
      (case st of (limit_itr, call_itr, filled, called, s) \<Rightarrow> book_size s)"
    using call_step_shifts(2) by (cases st; cases st') (fastforce dest: shifts_inv)
qed

sublocale fc_laws \<subseteq> match_lp: shrinking_loop "match_step F new_id limit_end"
    "\<lambda>(limit_itr, s). chain_inv s" "\<lambda>(limit_itr, s). length (rows (limit_orders s))"
  for new_id limit_end
proof unfold_locales
  fix st st' :: "nat option \<times> database"
  assume "case st of (limit_itr, s) \<Rightarrow> chain_inv s" and "match_step F new_id limit_end st = Inr (Continue st')"
  then show "(case st' of (limit_itr, s) \<Rightarrow> chain_inv s) \<and>
      (case st' of (limit_itr, s) \<Rightarrow> length (rows (limit_orders s))) < (case st of (limit_itr, s) \<Rightarrow> length (rows (limit_orders s)))"
    using match_step_shifts(2) by (cases st; cases st') (fastforce dest: shifts_inv)
qed

section \<open>A market with a margin call\<close>

definition demo_bit_options :: bitasset_options where
  "demo_bit_options = \<lparr> feed_lifetime_sec = 86400, minimum_feeds = 1, force_settlement_delay_sec = 86400,
     force_settlement_offset_percent = 0, maximum_force_settlement_volume = 2000, short_backing_asset = 0 \<rparr>"

definition demo_bitasset :: asset_bitasset_data_object where
  "demo_bitasset = \<lparr> bit_options = demo_bit_options, feeds = [],
     current_feed = \<lparr> settlement_price = \<lparr> base = mk_asset 2 9, quote = mk_asset 5 0 \<rparr>, core_exchange_rate = null_price,
       maintenance_collateral_ratio = 1750, maximum_short_squeeze_ratio = 1100 \<rparr>,
     current_feed_publication_time = 1500000000, is_prediction_market = False, force_settled_volume = 0,
     bit_settlement_price = null_price, settlement_fund = 0 \<rparr>"

definition demo_call :: call_order_object where
  "demo_call = \<lparr> borrower = 6, collateral = 4000, debt = 1000,
     co_call_price = \<lparr> base = mk_asset 16 0, quote = mk_asset 7 9 \<rparr> \<rparr>"

definition demo_limit :: limit_order_object where
  "demo_limit = \<lparr> lo_expiration = 1600000000, seller = 5, for_sale = 500,
     sell_price = \<lparr> base = mk_asset 500 9, quote = mk_asset 1250 0 \<rparr>, deferred_fee = 7 \<rparr>"

definition demo_market :: database where
  "demo_market = demo_chain\<lparr>
     assets := \<lparr> next_id = 10, rows = [(0, demo_asset ''FCC'' 3 0 None), (7, demo_asset ''GOLD'' 5 2 (Some 4)),
       (9, (demo_asset ''USD'' 3 4 None)\<lparr>bitasset_data_id := Some 0\<rparr>)] \<rparr>,
     asset_dyn := \<lparr> next_id = 5, rows = [(0, demo_dyn 10007 0), (2, demo_dyn 1800 600), (4, demo_dyn 1000 0)] \<rparr>,
     bitassets := \<lparr> next_id = 1, rows = [(0, demo_bitasset)] \<rparr>,
     limit_orders := \<lparr> next_id = 4, rows = [(3, demo_limit)] \<rparr>,
     call_orders := \<lparr> next_id = 1, rows = [(0, demo_call)] \<rparr> \<rparr>"

lemmas demo_market_defs = demo_market_def demo_bitasset_def demo_bit_options_def demo_call_def demo_limit_def

lemma demo_market_dyn_id: "dyn_id demo_market a = (if a = 0 then Some 0 else if a = 7 then Some 2 else if a = 9 then Some 4 else None)"
  by (simp add: dyn_id_def demo_market_def demo_asset_def index_find_def)

lemma demo_market_lock_id: "lock_id demo_market a = (if a = 7 then Some 4 else None)" "lock_asset demo_market 4 = Some 7"
  by (simp_all add: lock_id_def lock_asset_def demo_market_def demo_chain_def demo_asset_def index_find_def)

lemma demo_market_inv: "chain_inv demo_market"
proof -
  have idx: "index_inv (assets demo_market)" "index_inv (asset_dyn demo_market)" "index_inv (bitassets demo_market)"
    "index_inv (limit_orders demo_market)" "index_inv (call_orders demo_market)"
    by (simp_all add: demo_market_def index_inv_def sorted_rows_def)
  have ok: "rows_ok order_ok (limit_orders demo_market)" "rows_ok bitasset_ok (bitassets demo_market)"
    "rows_ok call_ok (call_orders demo_market)" "rows_ok asset_ok (assets demo_market)"
    by (auto simp: rows_ok_def demo_market_def index_find_def order_ok_def demo_limit_def price_ok_def bitasset_ok_def
        demo_bitasset_def call_ok_def demo_call_def asset_ok_def demo_asset_def demo_options_def GRAPHENE_100_PERCENT_def split: if_splits)
  have idx': "index_inv (accounts demo_market)" "index_inv (stats demo_market)" "index_inv (balances demo_market)"
    "index_inv (asset_lock demo_market)" "index_inv (settlements demo_market)" "index_inv (vesting_balances demo_market)"
    "index_inv (locked_balances demo_market)" "index_inv (withdraw_permissions demo_market)" "index_inv (witnesses demo_market)"
    "index_inv (committee_members demo_market)" "index_inv (workers demo_market)" "index_inv (genesis_balances demo_market)"
    "index_inv (fba_accumulators demo_market)" "index_inv (special_authorities demo_market)" "index_inv (buybacks demo_market)"
    "index_inv (budget_records demo_market)"
    by (simp_all add: demo_market_def demo_chain_def index_inv_def sorted_rows_def empty_index_def)
  have dyn: "dyn_id demo_market a = Some i \<Longrightarrow> index_find (asset_dyn demo_market) i \<noteq> None" for a i
    unfolding demo_market_dyn_id by (simp add: demo_market_def index_find_def split: if_splits)
  have inj: "dyn_id demo_market a = Some i \<and> dyn_id demo_market b = Some i \<Longrightarrow> a = b" for a b i
    by (auto simp: demo_market_dyn_id split: if_splits)
  have lock: "lock_id demo_market a = Some l \<Longrightarrow> lock_asset demo_market l = Some a" for a l
    using demo_market_lock_id by (simp split: if_splits)
  show ?thesis unfolding chain_inv_def using idx idx' ok dyn inj lock demo_market_dyn_id [of 0] by simp
qed

section \<open>Properties\<close>

text \<open>
  C6. Placing an order into the book, with the margin calls, matches, cullings and black swans it sets off, neither creates nor destroys
  any asset: balances, orders, collateral, settlement funds, pending and accumulated fees together change by nothing,
  and no balance becomes negative.
\<close>

theorem apply_order_conserves:
  assumes "fc_laws F" "chain_inv s" "apply_order F order_id allow_black_swan s = Inr (s', filled)"
  shows "chain_inv s' \<and> (\<forall>a. ledger a s' = ledger a s) \<and> (balances_nonneg s \<longrightarrow> balances_nonneg s') \<and>
    book_size s' \<le> book_size s"
  using fc_laws.apply_order_shifts [OF assms] by (simp add: shifts_def)

theorem apply_order_conserves_witness:
  "\<exists>s'. apply_order fc_int64 3 True demo_market = Inr (s', True) \<and> ledger 0 s' = ledger 0 demo_market \<and>
     ledger 9 s' = ledger 9 demo_market"
proof -
  have "case apply_order fc_int64 3 True demo_market of Inl e \<Rightarrow> False | Inr (s', f) \<Rightarrow> f" by code_simp
  then obtain s' where "apply_order fc_int64 3 True demo_market = Inr (s', True)"
    by (auto split: sum.splits)
  from this apply_order_conserves [OF fc64.fc_laws_axioms demo_market_inv this] show ?thesis by auto
qed

context fc_laws
begin

lemma call_loop_ends:
  "chain_inv s \<Longrightarrow> loop_result (call_step F m enable limit_end call_end) (limit_itr, call_itr, filled, called, s)
    (run_loop (Suc (book_size s)) (call_step F m enable limit_end call_end) (limit_itr, call_itr, filled, called, s))"
  by (rule call_lp.run_loop_result) simp_all

lemma match_loop_ends:
  "chain_inv s \<Longrightarrow> loop_result (match_step F new_id limit_end) (limit_itr, s)
    (run_loop (Suc (length (rows (limit_orders s)))) (match_step F new_id limit_end) (limit_itr, s))"
  by (rule match_lp.run_loop_result) simp_all

end



text \<open>
  C30. The loops of the order book end: the loop of margin calls fills a call or a limit order in every round and the
  loop of \<^verbatim>\<open>apply_order\<close> fills an old order in every round but the last, so that one round more than the number of orders is enough to reach
  the result of the loop, a return value or an exception.
\<close>

theorem market_loops_end:
  assumes "fc_laws F" "chain_inv s"
  shows "loop_result (call_step F m enable limit_end call_end) (limit_itr, call_itr, filled, called, s)
      (run_loop (Suc (book_size s)) (call_step F m enable limit_end call_end) (limit_itr, call_itr, filled, called, s)) \<and>
    loop_result (match_step F new_id limit_end) (limit_itr, s)
      (run_loop (Suc (length (rows (limit_orders s)))) (match_step F new_id limit_end) (limit_itr, s))"
  using fc_laws.call_loop_ends [OF assms] fc_laws.match_loop_ends [OF assms] by blast

theorem market_loops_end_witness:
  "loop_result (call_step fc_int64 9 True None None) (Some 3, Some 0, False, False, demo_market)
     (run_loop 3 (call_step fc_int64 9 True None None) (Some 3, Some 0, False, False, demo_market))"
proof -
  have "Suc (book_size demo_market) = 3" by (simp add: book_size_def demo_market_def)
  then show ?thesis
    using market_loops_end [OF fc64.fc_laws_axioms demo_market_inv, of 9 True None None "Some 3" "Some 0" False False] by simp
qed

text \<open>
  The market fee of an asset is the traded amount times its percentage, rounded down and capped by its maximum; it lies between
  nothing and the traded amount.
\<close>

theorem calculate_market_fee_exact:
  assumes "fc_laws F" "asset_ok a" "0 \<le> amount x" "amount x < 2 ^ 63"
  shows "calculate_market_fee F i a x = Inr (mk_asset (if charges_market_fees a
      then min (amount x * uint (market_fee_percent (options a)) div 10000) (max_market_fee (options a)) else 0) i) \<and>
    (\<forall>fees. calculate_market_fee F i a x = Inr fees \<longrightarrow> 0 \<le> amount fees \<and> amount fees \<le> amount x)"
proof -
  let ?p = "uint (market_fee_percent (options a))"
  have p: "0 \<le> ?p" "?p \<le> 10000" and m: "0 \<le> max_market_fee (options a)"
    using assms(2) by (auto simp: asset_ok_def GRAPHENE_100_PERCENT_def)
  have u: "uint (u128_muldiv (amount x) ?p GRAPHENE_100_PERCENT) = amount x * ?p div 10000"
    using assms(3,4) p by (simp add: GRAPHENE_100_PERCENT_def uint_u128_muldiv_int64)
  have "amount x * ?p div 10000 \<le> amount x" using assms(3) p by (intro muldiv_le) auto
  then have "to_share F (u128_muldiv (amount x) ?p GRAPHENE_100_PERCENT) = Inr (amount x * ?p div 10000)"
    using fc_laws.to_share_small [OF assms(1), of "u128_muldiv (amount x) ?p GRAPHENE_100_PERCENT"] u assms(4) by simp
  then have "calculate_market_fee F i a x = Inr (mk_asset (if charges_market_fees a
      then min (amount x * ?p div 10000) (max_market_fee (options a)) else 0) i)"
    using m by (auto simp: calculate_market_fee_def min_def)
  then show ?thesis using fc_laws.market_fee_range [OF assms(1-4)] by blast
qed

theorem calculate_market_fee_exact_witness:
  "calculate_market_fee fc_int64 7 (demo_asset ''GOLD'' 5 2 None) (mk_asset 12345 7) = Inr (mk_asset 123 7)"
proof -
  have "asset_ok (demo_asset ''GOLD'' 5 2 None)"
    by (simp add: asset_ok_def demo_asset_def demo_options_def GRAPHENE_100_PERCENT_def)
  moreover have "charges_market_fees (demo_asset ''GOLD'' 5 2 None)" by code_simp
  ultimately show ?thesis
    using calculate_market_fee_exact [OF fc64.fc_laws_axioms, of "demo_asset ''GOLD'' 5 2 None" "mk_asset 12345 7" 7]
    by (simp add: demo_asset_def demo_options_def)
qed

text \<open>
  Closing a margin position whose collateral is not the core asset still lowers the borrower's count of core in
  orders by the collateral it frees, because the code does not look at the asset of the freed collateral.
\<close>

theorem release_core_of_other_collateral:
  assumes "fc_laws F" "asset_id pays \<noteq> 0" "asset_id freed \<noteq> 0" "0 < amount freed"
    "in_int64 (total_core_in_orders t - amount freed)"
  shows "release_core F (Some freed) pays t = Inr (t\<lparr>total_core_in_orders := total_core_in_orders t - amount freed\<rparr>)"
  using assms by (simp add: release_core_def fc_laws.safe_sub_ok)

theorem release_core_of_other_collateral_witness:
  "release_core fc_int64 (Some (mk_asset 40 7)) (mk_asset 60 7) (demo_stats 5) =
     Inr ((demo_stats 5)\<lparr>total_core_in_orders := - 40\<rparr>)"
  using release_core_of_other_collateral [OF fc64.fc_laws_axioms, of "mk_asset 60 7" "mk_asset 40 7" "demo_stats 5"]
  by (simp add: demo_stats_def in_int64_def)

end
