(* ===== verification/Market_Evaluators.thy ===== *)
theory Market_Evaluators
  imports Market_Ledger
begin

text \<open>
  The market operations (market_evaluator.cpp, protocol/market.cpp): creating and cancelling limit orders and updating a
  margin position. The fee of a new order is kept in the order until it is filled, which makes its evaluator an instance of
  \<open>charging_evaluator\<close> only.
\<close>

definition HARDFORK_445_TIME :: time_point_sec where "HARDFORK_445_TIME = 1450288800"

section \<open>Limit orders\<close>

record limit_order_create_operation =
  lc_fee :: asset
  lc_seller :: nat
  amount_to_sell :: asset
  min_to_receive :: asset
  lc_expiration :: time_point_sec
  fill_or_kill :: bool

definition limit_order_create_validate :: "limit_order_create_operation \<Rightarrow> unit result" where
  "limit_order_create_validate op =
     bind (fc_assert (asset_id (amount_to_sell op) \<noteq> asset_id (min_to_receive op)) ''amount_to_sell.asset_id != min_to_receive.asset_id'') (\<lambda>_.
     bind (fc_assert (amount (lc_fee op) \<ge> 0) ''fee.amount >= 0'') (\<lambda>_.
     bind (fc_assert (amount (amount_to_sell op) > 0) ''amount_to_sell.amount > 0'') (\<lambda>_.
     fc_assert (amount (min_to_receive op) > 0) ''min_to_receive.amount > 0'')))"

definition limit_order_create_do_evaluate ::
  "fc_lib \<Rightarrow> limit_order_create_operation \<Rightarrow> fee_state \<Rightarrow> database \<Rightarrow> (share_type \<times> fee_state) result" where
  "limit_order_create_do_evaluate F op fs s =
     (let sell_id = asset_id (amount_to_sell op); receive_id = asset_id (min_to_receive op) in
      bind (fc_assert (lc_expiration op \<ge> head_block_time s) ''op.expiration >= d.head_block_time()'') (\<lambda>_.
      bind (index_get (accounts s) (fee_paying_account fs)) (\<lambda>acct.
      bind (index_get (assets s) sell_id) (\<lambda>sell_asset.
      bind (index_get (assets s) receive_id) (\<lambda>receive_asset.
      bind (if whitelist_markets (options sell_asset) \<noteq> {}
            then fc_assert (receive_id \<in> whitelist_markets (options sell_asset)) ''whitelist_markets'' else Inr ()) (\<lambda>_.
      bind (if blacklist_markets (options sell_asset) \<noteq> {}
            then fc_assert (receive_id \<notin> blacklist_markets (options sell_asset)) ''blacklist_markets'' else Inr ()) (\<lambda>_.
      bind (fc_assert (is_authorized_asset acct sell_id sell_asset) ''is_authorized_asset'') (\<lambda>_.
      bind (fc_assert (is_authorized_asset acct receive_id receive_asset) ''is_authorized_asset'') (\<lambda>_.
      bind (asset_ge (get_balance s (fee_paying_account fs) sell_id) (amount_to_sell op)) (\<lambda>enough.
      bind (fc_assert enough ''insufficient balance'') (\<lambda>_.
      Inr (0, fs))))))))))))"

definition limit_order_create_pay_fee ::
  "fc_lib \<Rightarrow> bool \<Rightarrow> fee_state \<Rightarrow> share_type \<Rightarrow> database \<Rightarrow> (database \<times> share_type) result" where
  "limit_order_create_pay_fee F skip_fee fs deferred s =
     (if head_block_time s \<le> HARDFORK_445_TIME then default_pay_fee F skip_fee fs deferred s
      else Inr (s, core_fee_paid fs))"

definition add_core_in_orders :: "fc_lib \<Rightarrow> asset \<Rightarrow> account_statistics_object \<Rightarrow> account_statistics_object result" where
  "add_core_in_orders F x t =
     (if asset_id x = 0 then bind (safe_add F (total_core_in_orders t) (amount x)) (\<lambda>v. Inr (t\<lparr>total_core_in_orders := v\<rparr>))
      else Inr t)"

definition limit_order_create_do_apply ::
  "fc_lib \<Rightarrow> limit_order_create_operation \<Rightarrow> share_type \<Rightarrow> fee_state \<Rightarrow> database \<Rightarrow> (database \<times> nat) result" where
  "limit_order_create_do_apply F op deferred fs s =
     bind (index_get (accounts s) (fee_paying_account fs)) (\<lambda>acct.
     bind (modify_stats (statistics acct) (add_core_in_orders F (amount_to_sell op)) s) (\<lambda>s1.
     bind (asset_neg F (amount_to_sell op)) (\<lambda>n.
     bind (adjust_balance F (lc_seller op) n s1) (\<lambda>s2.
     bind (asset_div (amount_to_sell op) (min_to_receive op)) (\<lambda>p.
     bind (table_create limit_orders put_limit_orders no_clash
            \<lparr> lo_expiration = lc_expiration op, seller = fee_paying_account fs, for_sale = amount (amount_to_sell op),
              sell_price = p, deferred_fee = deferred \<rparr> s2) (\<lambda>(s3, order_id).
     bind (apply_order F order_id True s3) (\<lambda>(s4, filled).
     bind (fc_assert (\<not> fill_or_kill op \<or> filled) ''!op.fill_or_kill || filled'') (\<lambda>_.
     Inr (s4, order_id)))))))))"

definition limit_order_create_evaluator :: "(limit_order_create_operation, share_type, nat) evaluator" where
  "limit_order_create_evaluator = \<lparr> fee_payer = lc_seller, op_fee = lc_fee, do_evaluate = limit_order_create_do_evaluate,
     do_pay_fee = limit_order_create_pay_fee, do_apply = limit_order_create_do_apply \<rparr>"

record limit_order_cancel_operation =
  lx_fee :: asset
  lx_order :: nat
  lx_fee_paying_account :: nat

definition limit_order_cancel_validate :: "limit_order_cancel_operation \<Rightarrow> unit result" where
  "limit_order_cancel_validate op = fc_assert (amount (lx_fee op) \<ge> 0) ''fee.amount >= 0''"

definition limit_order_cancel_do_evaluate ::
  "fc_lib \<Rightarrow> limit_order_cancel_operation \<Rightarrow> fee_state \<Rightarrow> database \<Rightarrow> (unit \<times> fee_state) result" where
  "limit_order_cancel_do_evaluate F op fs s =
     bind (index_get (limit_orders s) (lx_order op)) (\<lambda>x.
     bind (fc_assert (seller x = lx_fee_paying_account op) ''_order->seller == o.fee_paying_account'') (\<lambda>_.
     Inr ((), fs)))"

definition limit_order_cancel_do_apply ::
  "fc_lib \<Rightarrow> limit_order_cancel_operation \<Rightarrow> unit \<Rightarrow> fee_state \<Rightarrow> database \<Rightarrow> (database \<times> asset) result" where
  "limit_order_cancel_do_apply F op e fs s =
     bind (index_get (limit_orders s) (lx_order op)) (\<lambda>x.
     bind (cancel_limit_order F (lx_order op) s) (\<lambda>s1.
     bind (check_call_orders F (asset_id (base (sell_price x))) True s1) (\<lambda>(s2, c2).
     bind (check_call_orders F (asset_id (quote (sell_price x))) True s2) (\<lambda>(s3, c3).
     Inr (s3, amount_for_sale x)))))"

definition limit_order_cancel_evaluator :: "(limit_order_cancel_operation, unit, asset) evaluator" where
  "limit_order_cancel_evaluator = \<lparr> fee_payer = lx_fee_paying_account, op_fee = lx_fee,
     do_evaluate = limit_order_cancel_do_evaluate, do_pay_fee = default_pay_fee, do_apply = limit_order_cancel_do_apply \<rparr>"

section \<open>Margin positions\<close>

record call_order_update_operation =
  cu_fee :: asset
  funding_account :: nat
  delta_collateral :: asset
  delta_debt :: asset

definition call_order_update_validate :: "call_order_update_operation \<Rightarrow> unit result" where
  "call_order_update_validate op =
     bind (fc_assert (amount (cu_fee op) \<ge> 0) ''fee.amount >= 0'') (\<lambda>_.
     bind (fc_assert (asset_id (delta_collateral op) \<noteq> asset_id (delta_debt op)) ''delta_collateral.asset_id != delta_debt.asset_id'') (\<lambda>_.
     fc_assert (amount (delta_collateral op) \<noteq> 0 \<or> amount (delta_debt op) \<noteq> 0) ''delta_collateral.amount != 0 || delta_debt.amount != 0''))"

definition call_order_update_do_evaluate ::
  "fc_lib \<Rightarrow> call_order_update_operation \<Rightarrow> fee_state \<Rightarrow> database \<Rightarrow> (unit \<times> fee_state) result" where
  "call_order_update_do_evaluate F op fs s =
     bind (index_get (accounts s) (funding_account op)) (\<lambda>_.
     bind (index_get (assets s) (asset_id (delta_debt op))) (\<lambda>debt_asset.
     bind (fc_assert (is_market_issued debt_asset) ''not a collateralized asset'') (\<lambda>_.
     bind (get_bitasset s debt_asset) (\<lambda>(b, bit).
     bind (fc_assert (\<not> has_settlement bit) ''!_bitasset_data->has_settlement()'') (\<lambda>_.
     bind (fc_assert (asset_id (delta_collateral op) = short_backing_asset (bit_options bit)) ''short_backing_asset'') (\<lambda>_.
     bind (if is_prediction_market bit
           then fc_assert (amount (delta_collateral op) = amount (delta_debt op)) ''delta_collateral.amount == delta_debt.amount''
           else if price_is_null (settlement_price (current_feed bit)) then Inl Insufficient_Feeds else Inr ()) (\<lambda>_.
     bind (if amount (delta_debt op) < 0 then
             bind (asset_ge (get_balance s (funding_account op) (asset_id (delta_debt op))) (delta_debt op)) (\<lambda>ok.
             fc_assert ok ''Cannot cover'')
           else Inr ()) (\<lambda>_.
     bind (if amount (delta_collateral op) > 0 then
             bind (index_get (assets s) (short_backing_asset (bit_options bit))) (\<lambda>_.
             bind (asset_ge (get_balance s (funding_account op) (short_backing_asset (bit_options bit))) (delta_collateral op)) (\<lambda>ok.
             fc_assert ok ''Cannot increase collateral''))
           else Inr ()) (\<lambda>_.
     Inr ((), fs))))))))))"

definition update_call :: "fc_lib \<Rightarrow> call_order_update_operation \<Rightarrow> u16 \<Rightarrow> call_order_object \<Rightarrow> call_order_object result" where
  "update_call F op mcr c =
     bind (safe_add F (collateral c) (amount (delta_collateral op))) (\<lambda>k.
     bind (safe_add F (debt c) (amount (delta_debt op))) (\<lambda>d.
     let c' = c\<lparr>collateral := k, debt := d\<rparr> in
     if d > 0 then bind (call_price (get_debt c') (get_collateral c') mcr) (\<lambda>p. Inr (c'\<lparr>co_call_price := p\<rparr>))
     else Inr c'))"

definition change_call :: "fc_lib \<Rightarrow> call_order_update_operation \<Rightarrow> u16 \<Rightarrow> database \<Rightarrow> (database \<times> nat) result" where
  "change_call F op mcr s =
     (case find_row (\<lambda>c. borrower c = funding_account op \<and> debt_type c = asset_id (delta_debt op)) (call_orders s) of
        None \<Rightarrow>
          bind (fc_assert (amount (delta_collateral op) > 0) ''o.delta_collateral.amount > 0'') (\<lambda>_.
          bind (fc_assert (amount (delta_debt op) > 0) ''o.delta_debt.amount > 0'') (\<lambda>_.
          bind (call_price (delta_debt op) (delta_collateral op) mcr) (\<lambda>p.
          table_create call_orders put_call_orders same_borrower
            \<lparr> borrower = funding_account op, collateral = amount (delta_collateral op), debt = amount (delta_debt op),
              co_call_price = p \<rparr> s)))
      | Some (i, c) \<Rightarrow> bind (modify_call_order i (update_call F op mcr) s) (\<lambda>s'. Inr (s', i)))"

definition move_debt :: "fc_lib \<Rightarrow> call_order_update_operation \<Rightarrow> nat \<Rightarrow> database \<Rightarrow> database result" where
  "move_debt F op dyn s =
     (if amount (delta_debt op) \<noteq> 0 then
        bind (adjust_balance F (funding_account op) (delta_debt op) s) (\<lambda>s1.
        modify_asset_dyn dyn (\<lambda>d. bind (safe_add F (current_supply d) (amount (delta_debt op))) (\<lambda>v.
          Inr (d\<lparr>current_supply := v\<rparr>))) s1)
      else Inr s)"

definition move_collateral :: "fc_lib \<Rightarrow> call_order_update_operation \<Rightarrow> nat \<Rightarrow> database \<Rightarrow> database result" where
  "move_collateral F op st s =
     (if amount (delta_collateral op) \<noteq> 0 then
        bind (asset_neg F (delta_collateral op)) (\<lambda>n.
        bind (adjust_balance F (funding_account op) n s) (\<lambda>s1.
        if asset_id (delta_collateral op) = 0 then modify_stats st (add_core_in_orders F (delta_collateral op)) s1
        else Inr s1))
      else Inr s)"

definition check_updated_call ::
  "fc_lib \<Rightarrow> nat \<Rightarrow> asset_bitasset_data_object \<Rightarrow> nat \<Rightarrow> database \<Rightarrow> database result" where
  "check_updated_call F debt_id bitasset call_id s =
     (if is_prediction_market bitasset then Inr s
      else
        bind (check_call_orders F debt_id False s) (\<lambda>(s1, called).
        bind (if called then
                graphene_assert (index_find (call_orders s1) call_id = None)
                  (Chain_Exception ''call_order_update_unfilled_margin_call'')
              else
                case index_find (call_orders s1) call_id of
                  None \<Rightarrow> Inl (Assert_Exception ''no margin call was executed and yet the call object was deleted'')
                | Some c \<Rightarrow> graphene_assert (price_lt (price_inv (co_call_price c)) (settlement_price (current_feed bitasset)))
                    (Chain_Exception ''call_order_update_unfilled_margin_call'')) (\<lambda>_.
        Inr s1)))"

definition finish_call :: "fc_lib \<Rightarrow> nat \<Rightarrow> asset_bitasset_data_object \<Rightarrow> nat \<Rightarrow> database \<Rightarrow> database result" where
  "finish_call F debt_id bitasset i s =
     bind (index_get (call_orders s) i) (\<lambda>c.
     if debt c = 0 then
       bind (fc_assert (collateral c = 0) ''call_obj->collateral == 0'') (\<lambda>_.
       table_remove call_orders put_call_orders i s)
     else
       bind (fc_assert (collateral c > 0 \<and> debt c > 0) ''call_obj->collateral > 0 && call_obj->debt > 0'') (\<lambda>_.
       check_updated_call F debt_id bitasset i s))"

definition call_order_update_do_apply ::
  "fc_lib \<Rightarrow> call_order_update_operation \<Rightarrow> unit \<Rightarrow> fee_state \<Rightarrow> database \<Rightarrow> (database \<times> unit) result" where
  "call_order_update_do_apply F op e fs s =
     bind (index_get (accounts s) (funding_account op)) (\<lambda>acct.
     bind (index_get (assets s) (asset_id (delta_debt op))) (\<lambda>debt_asset.
     bind (get_bitasset s debt_asset) (\<lambda>(b, bitasset).
     bind (move_debt F op (dynamic_asset_data_id debt_asset) s) (\<lambda>s1.
     bind (move_collateral F op (statistics acct) s1) (\<lambda>s2.
     bind (change_call F op (maintenance_collateral_ratio (current_feed bitasset)) s2) (\<lambda>(s3, i).
     bind (finish_call F (asset_id (delta_debt op)) bitasset i s3) (\<lambda>s4. Inr (s4, ()))))))))"

definition call_order_update_evaluator :: "(call_order_update_operation, unit, unit) evaluator" where
  "call_order_update_evaluator = \<lparr> fee_payer = funding_account, op_fee = cu_fee, do_evaluate = call_order_update_do_evaluate,
     do_pay_fee = default_pay_fee, do_apply = call_order_update_do_apply \<rparr>"

section \<open>The operations conserve\<close>

lemma call_price_ok:
  assumes "call_price d c cr = Inr p" "0 < amount d" "0 < amount c" "0 < uint cr"
  shows "price_ok p" "asset_id (base p) = asset_id c" "asset_id (quote p) = asset_id d"
proof -
  let ?n = "amount d * uint cr" and ?d = "amount c * 1000"
  define cp0 where "cp0 = Rat.normalize (?n, ?d)"
  define cp where "cp = reduce_call (fst cp0) (snd cp0)"
  have pos: "0 < ?n" "0 < ?d" using assms by simp_all
  have "0 < fst cp0" "0 < snd cp0" using normalize_positive [OF pos] by (simp_all add: cp0_def)
  note cp = reduce_call_positive [OF this, folded cp_def]
  have "p = \<lparr> base = mk_asset (snd cp) (asset_id c), quote = mk_asset (fst cp) (asset_id d) \<rparr>"
    using assms normalize_mul [of "amount c" 1000 "amount d" "uint cr"]
    by (auto simp: call_price_def make_rational_def GRAPHENE_COLLATERAL_RATIO_DENOM_def asset_div_def price_inv_def
        cp_def cp0_def Let_def ok_simps)
  then show "price_ok p" "asset_id (base p) = asset_id c" "asset_id (quote p) = asset_id d"
    using cp not_too_big [of "fst cp" "snd cp"] by (auto simp: price_ok_def GRAPHENE_MAX_SHARE_SUPPLY_def)
qed

definition limit_order_create_valid :: "limit_order_create_operation \<Rightarrow> bool" where
  "limit_order_create_valid op \<longleftrightarrow> limit_order_create_validate op = Inr () \<and>
     in_int64 (amount (amount_to_sell op)) \<and> in_int64 (amount (min_to_receive op))"

text \<open>
  A margin position keeps its collateral in the asset that backed its debt when it was opened. The backing asset of a
  market-issued asset only changes while nothing of it is in circulation; an update then finds a position in the current backing asset.
\<close>

definition call_order_update_valid :: "call_order_update_operation \<Rightarrow> database \<Rightarrow> bool" where
  "call_order_update_valid op s \<longleftrightarrow>
     (\<forall>i c. find_row (\<lambda>c. borrower c = funding_account op \<and> debt_type c = asset_id (delta_debt op)) (call_orders s) = Some (i, c) \<longrightarrow>
       asset_id (base (co_call_price c)) = asset_id (delta_collateral op))"

context fc_laws
begin

lemma add_core_pending: "add_core_in_orders F x t = Inr t' \<Longrightarrow> pending_in a t' = pending_in a t + 0"
  by (auto simp: add_core_in_orders_def ok_simps pending_in_def split: if_splits)

lemma limit_order_create_shifts:
  assumes inv: "chain_inv s" and v: "limit_order_create_valid op" and d: "0 \<le> deferred"
    and ok: "limit_order_create_do_apply F op deferred fs s = Inr (s', i)"
  shows "shifts (\<lambda>a. core_in a deferred) s s'"
proof -
  let ?o = "\<lambda>p. \<lparr> lo_expiration = lc_expiration op, seller = fee_paying_account fs, for_sale = amount (amount_to_sell op),
              sell_price = p, deferred_fee = deferred \<rparr>"
  obtain j s1 n s2 p s3 filled where s1: "modify_stats j (add_core_in_orders F (amount_to_sell op)) s = Inr s1"
    and n: "asset_neg F (amount_to_sell op) = Inr n" and s2: "adjust_balance F (lc_seller op) n s1 = Inr s2"
    and p: "asset_div (amount_to_sell op) (min_to_receive op) = Inr p"
    and s3: "table_create limit_orders put_limit_orders no_clash (?o p) s2 = Inr (s3, i)"
    and s4: "apply_order F i True s3 = Inr (s', filled)"
    using ok by (auto simp: limit_order_create_do_apply_def ok_simps)
  note 1 = modify_stats_shifts [OF inv s1 add_core_pending [of "amount_to_sell op"]]
  note 2 = adjust_shifts [OF shifts_inv [OF 1(1)] s2]
  have p': "p = \<lparr> base = amount_to_sell op, quote = min_to_receive op \<rparr>" using p by (auto simp: asset_div_def ok_simps)
  have "order_ok (?o p)" using v d
    by (auto simp: order_ok_def p' price_ok_def limit_order_create_valid_def limit_order_create_validate_def ok_simps in_int64_def)
  then have 3: "shifts (\<lambda>a. order_in a (?o p)) s2 s3"
    using limit_tab.create_checked [OF shifts_inv [OF 2(1)] s3] by (auto simp: shifts_def)
  note 4 = apply_order_shifts [OF shifts_inv [OF 3] s4]
  show ?thesis
  proof (rule shifts_trans [OF shifts_trans [OF 1(1) 2(1) refl] shifts_trans [OF 3 4(1) refl]])
    show "core_in a deferred = 0 + asset_in a n + (order_in a (?o p) + 0)" for a
      using n by (auto simp: asset_neg_Inr asset_in_def order_in_def amount_for_sale_def p')
  qed
qed

lemma limit_order_cancel_shifts:
  assumes inv: "chain_inv s" and ok: "limit_order_cancel_do_apply F op e fs s = Inr (s', r)"
  shows "shifts (\<lambda>a. 0) s s'"
proof -
  obtain m1 m2 s1 s2 c2 c3 where s1: "cancel_limit_order F (lx_order op) s = Inr s1"
    and s2: "check_call_orders F m1 True s1 = Inr (s2, c2)" and s3: "check_call_orders F m2 True s2 = Inr (s', c3)"
    using ok by (auto simp: limit_order_cancel_do_apply_def ok_simps)
  note 1 = cancel_limit_shifts(1) [OF inv s1]
  note 2 = check_call_orders_shifts(1) [OF shifts_inv [OF 1] s2]
  show ?thesis
    using shifts_trans [OF 1 shifts_trans [OF 2 check_call_orders_shifts(1) [OF shifts_inv [OF 2] s3] refl]] by simp
qed

lemma move_debt_shifts:
  assumes inv: "chain_inv s" and a: "index_find (assets s) (asset_id (delta_debt op)) = Some m"
    and ok: "move_debt F op (dynamic_asset_data_id m) s = Inr s'"
  shows "shifts (\<lambda>a. 0) s s' \<and> same_book s s'"
proof (cases "amount (delta_debt op) = 0")
  case False
  then obtain s1 where s1: "adjust_balance F (funding_account op) (delta_debt op) s = Inr s1"
    and s2: "modify_asset_dyn (dynamic_asset_data_id m) (\<lambda>d. bind (safe_add F (current_supply d) (amount (delta_debt op))) (\<lambda>v.
          Inr (d\<lparr>current_supply := v\<rparr>))) s1 = Inr s'"
    using ok by (auto simp: move_debt_def ok_simps)
  note 1 = adjust_shifts [OF inv s1]
  have d: "dyn_id s1 b = Some (dynamic_asset_data_id m) \<longleftrightarrow> asset_id (delta_debt op) = b" for b
    using dyn_id_inj [OF shifts_inv [OF 1(1)], of "asset_id (delta_debt op)"] a 1(1) by (simp add: dyn_id_def shifts_def)
  have 2: "shifts (\<lambda>a. - asset_in a (delta_debt op)) s1 s'" "same_book s1 s'"
    using modify_asset_dyn_step [OF shifts_inv [OF 1(1)] s2]
    by (auto simp: ok_simps safe_Inr d net_def asset_in_def fee_pool_in_def shifts_def same_book_def)
  show ?thesis using shifts_trans [OF 1(1) 2(1)] same_book_trans [OF 1(2) 2(2)] by simp
qed (use inv ok in \<open>simp add: move_debt_def\<close>)

lemma move_collateral_shifts:
  assumes inv: "chain_inv s" and ok: "move_collateral F op st s = Inr s'"
  shows "shifts (\<lambda>a. - asset_in a (delta_collateral op)) s s' \<and> same_book s s'"
proof (cases "amount (delta_collateral op) = 0")
  case False
  then obtain n s1 where n: "asset_neg F (delta_collateral op) = Inr n" and s1: "adjust_balance F (funding_account op) n s = Inr s1"
    and s2: "(if asset_id (delta_collateral op) = 0 then modify_stats st (add_core_in_orders F (delta_collateral op)) s1
        else Inr s1) = Inr s'"
    using ok by (auto simp: move_collateral_def ok_simps)
  note 1 = adjust_shifts [OF inv s1]
  have 2: "shifts (\<lambda>a. 0) s1 s' \<and> same_book s1 s'"
    using s2 modify_stats_shifts [OF shifts_inv [OF 1(1)] _ add_core_pending [of "delta_collateral op"]] shifts_inv [OF 1(1)] by (auto split: if_splits)
  have "shifts (\<lambda>a. - asset_in a (delta_collateral op)) s s'"
    by (rule shifts_trans [OF 1(1) conjunct1 [OF 2]]) (use n in \<open>auto simp: asset_neg_Inr asset_in_def\<close>)
  then show ?thesis using 1(2) 2 same_book_trans by blast
qed (use inv ok in \<open>auto simp: move_collateral_def shifts_def asset_in_def\<close>)

lemma update_call_keeps:
  assumes "update_call F op mcr c = Inr c'" "0 < mcr" "call_ok c" "debt c' = 0 \<or> 0 < collateral c' \<and> 0 < debt c'"
  shows "call_ok c'" "collateral c' = collateral c + amount (delta_collateral op)"
    "asset_id (get_collateral c') = asset_id (get_collateral c)"
  using assms call_price_ok [of _ _ mcr] uint_0_iff [of mcr]
  by (auto simp: update_call_def Let_def ok_simps safe_Inr call_ok_def get_debt_def get_collateral_def word_gt_0 word_less_def
      split: if_splits)

end

lemma modify_call_find:
  assumes "modify_call_order i f s = Inr s'"
  shows "\<exists>x x'. index_find (call_orders s) i = Some x \<and> f x = Inr x' \<and> index_find (call_orders s') i = Some x'"
  using assms by (auto simp: table_modify_def ok_simps index_modify_Inr index_find_def map_of_row_put
      dest: index_find_Some_key [unfolded index_find_def])

context fc_laws
begin

lemma change_call_shifts:
  assumes inv: "chain_inv s" and v: "call_order_update_valid op s" and mcr: "0 < mcr"
    and ok: "change_call F op mcr s = Inr (s', i)" and c: "index_find (call_orders s') i = Some c"
    and post: "debt c = 0 \<or> 0 < collateral c \<and> 0 < debt c"
  shows "shifts (\<lambda>a. asset_in a (delta_collateral op)) s s'"
proof (cases "find_row (\<lambda>c. borrower c = funding_account op \<and> debt_type c = asset_id (delta_debt op)) (call_orders s)")
  case None
  then obtain p where pos: "0 < amount (delta_collateral op)" "0 < amount (delta_debt op)"
    and p: "call_price (delta_debt op) (delta_collateral op) mcr = Inr p"
    and s': "table_create call_orders put_call_orders same_borrower
      \<lparr> borrower = funding_account op, collateral = amount (delta_collateral op), debt = amount (delta_debt op),
        co_call_price = p \<rparr> s = Inr (s', i)"
    using ok by (auto simp: change_call_def ok_simps)
  have "0 < uint mcr" using mcr by (simp add: word_less_def)
  note cp = call_price_ok [OF p pos(2,1) this]
  have "shifts (\<lambda>a. call_in a \<lparr> borrower = funding_account op, collateral = amount (delta_collateral op),
      debt = amount (delta_debt op), co_call_price = p \<rparr>) s s'"
    using call_tab.create_checked [OF inv s'] cp(1) by (auto simp: call_ok_def shifts_def)
  then show ?thesis by (rule shifts_cong) (simp add: call_in_def get_collateral_def asset_in_def cp(2))
next
  case (Some r)
  then obtain k x where r: "find_row (\<lambda>c. borrower c = funding_account op \<and> debt_type c = asset_id (delta_debt op)) (call_orders s) = Some (k, x)"
    by (cases r) auto
  then have m: "modify_call_order i (update_call F op mcr) s = Inr s'" "k = i" using ok by (auto simp: change_call_def ok_simps)
  have x: "index_find (call_orders s) i = Some x" using index_find_row(1) [OF _ r] inv m(2) by (simp add: chain_inv_def)
  have u: "update_call F op mcr x = Inr c" using modify_call_find [OF m(1)] x c by auto
  have "call_ok x" using inv x by (auto simp: chain_inv_def rows_ok_def)
  note k = update_call_keeps [OF u mcr this post]
  have "\<exists>y y' t. index_find (call_orders s) i = Some y \<and> update_call F op mcr y = Inr y' \<and> s' = put_call_orders t s \<and>
      index_find t = (index_find (call_orders s))(i \<mapsto> y') \<and> chain_inv s' \<and>
      (\<forall>a. ledger a s' = ledger a s - call_in a y + call_in a y')"
    by (rule call_tab.modify_checked [OF inv m(1)]) (use x u k(1) in simp)
  then have "shifts (\<lambda>a. call_in a c - call_in a x) s s'" using x u by (auto simp: shifts_def)
  then show ?thesis
    by (rule shifts_cong)
      (use k(2,3) v r in \<open>auto simp: call_in_def asset_in_def get_collateral_def call_order_update_valid_def\<close>)
qed

lemma check_updated_call_shifts:
  "chain_inv s \<Longrightarrow> check_updated_call F m b i s = Inr s' \<Longrightarrow> shifts (\<lambda>a. 0) s s'"
  using check_call_orders_shifts(1) by (fastforce simp: check_updated_call_def ok_simps split: if_splits)

lemma call_order_update_shifts:
  assumes inv: "chain_inv s" and v: "call_order_update_valid op s"
    and ok: "call_order_update_do_apply F op e fs s = Inr (s', r)"
  shows "shifts (\<lambda>a. 0) s s'"
proof -
  obtain j m b bt s1 s2 s3 i where m: "index_find (assets s) (asset_id (delta_debt op)) = Some m"
    and bt: "index_find (bitassets s) b = Some bt"
    and s1: "move_debt F op (dynamic_asset_data_id m) s = Inr s1"
    and s2: "move_collateral F op j s1 = Inr s2"
    and s3: "change_call F op (maintenance_collateral_ratio (current_feed bt)) s2 = Inr (s3, i)"
    and rest: "finish_call F (asset_id (delta_debt op)) bt i s3 = Inr s'"
    using ok by (auto simp: call_order_update_do_apply_def get_bitasset_def index_get_def ok_simps split: option.splits)
  obtain c where c: "index_find (call_orders s3) i = Some c" using rest by (auto simp: finish_call_def ok_simps index_get_def)
  have mcr: "0 < maintenance_collateral_ratio (current_feed bt)"
    using inv bt by (auto simp: chain_inv_def rows_ok_def bitasset_ok_def)
  have post: "debt c = 0 \<or> 0 < collateral c \<and> 0 < debt c" using rest c by (auto simp: finish_call_def index_get_def ok_simps split: if_splits)
  note 1 = move_debt_shifts [OF inv m s1]
  note 2 = move_collateral_shifts [OF shifts_inv [OF conjunct1 [OF 1]] s2]
  have v2: "call_order_update_valid op s2" using v 1 2 by (simp add: call_order_update_valid_def same_book_def)
  note 3 = change_call_shifts [OF shifts_inv [OF conjunct1 [OF 2]] v2 mcr s3 c post]
  have 4: "shifts (\<lambda>a. 0) s3 s'"
  proof (cases "debt c = 0")
    case True
    then have z: "collateral c = 0" and rm: "table_remove call_orders put_call_orders i s3 = Inr s'"
      using rest c by (auto simp: finish_call_def index_get_def ok_simps)
    show ?thesis using remove_call_shifts [OF shifts_inv [OF 3] rm c] z
      by (auto intro: shifts_cong simp: call_in_def get_collateral_def asset_in_def)
  next
    case False
    then show ?thesis using rest c check_updated_call_shifts [OF shifts_inv [OF 3]]
      by (auto simp: finish_call_def index_get_def ok_simps)
  qed
  show ?thesis using shifts_trans [OF shifts_trans [OF conjunct1 [OF 1] conjunct1 [OF 2] refl] shifts_trans [OF 3 4 refl]] by simp
qed

end

interpretation limit_create_ev: charging_evaluator limit_order_create_evaluator "\<lambda>op s. limit_order_create_valid op"
proof unfold_locales
  fix F op fs s s0 s1 s' e e1 r
  assume F: "fc_laws F" and inv: "chain_inv s" and v: "limit_order_create_valid op" and ready: "fee_ready fs s0"
    and e: "do_evaluate limit_order_create_evaluator F op fs s0 = Inr (e, fs)"
    and p: "do_pay_fee limit_order_create_evaluator F False fs e s = Inr (s1, e1)"
    and a: "do_apply limit_order_create_evaluator F op e1 fs s1 = Inr (s', r)"
  have e0: "e = 0" using e by (auto simp: limit_order_create_evaluator_def limit_order_create_do_evaluate_def Let_def ok_simps)
  have a': "limit_order_create_do_apply F op e1 fs s1 = Inr (s', r)" using a by (simp add: limit_order_create_evaluator_def)
  show "chain_inv s' \<and> (\<forall>a. ledger a s' = ledger a s + core_in a (core_fee_paid fs)) \<and> (balances_nonneg s \<longrightarrow> balances_nonneg s')"
  proof (cases "head_block_time s \<le> HARDFORK_445_TIME")
    case True
    then have p': "pay_fee F False fs s = Inr s1" "e1 = 0"
      using p e0 by (auto simp: limit_order_create_evaluator_def limit_order_create_pay_fee_def default_pay_fee_def ok_simps)
    note st = fc_laws.pay_fee_step [OF F inv p'(1)]
    show ?thesis using st fc_laws.limit_order_create_shifts [OF F _ v _ a'] p'(2) by (auto simp: shifts_def core_in_def)
  next
    case False
    then have "s1 = s" "e1 = core_fee_paid fs"
      using p by (auto simp: limit_order_create_evaluator_def limit_order_create_pay_fee_def)
    then show ?thesis using fc_laws.limit_order_create_shifts [OF F inv v _ a' [unfolded \<open>s1 = s\<close>]] ready
      by (auto simp: shifts_def fee_ready_def)
  qed
qed (auto simp: limit_order_create_evaluator_def limit_order_create_do_evaluate_def Let_def ok_simps)

interpretation limit_cancel_ev: conserving_evaluator limit_order_cancel_evaluator "\<lambda>op s. True"
  by unfold_locales (auto simp: limit_order_cancel_evaluator_def limit_order_cancel_do_evaluate_def ok_simps
    intro: shifts_conserves dest: fc_laws.limit_order_cancel_shifts)

interpretation call_update_ev: conserving_evaluator call_order_update_evaluator call_order_update_valid
proof unfold_locales
  fix F op fs s s0 s' e r
  assume F: "fc_laws F" "chain_inv s" and v: "call_order_update_valid op s0" and fr: "fee_frame s0 s"
    and a: "do_apply call_order_update_evaluator F op e fs s = Inr (s', r)"
  have "call_order_update_valid op s" using v fee_frame_same [OF fr] by (simp add: call_order_update_valid_def)
  then show "conserves s s'" using fc_laws.call_order_update_shifts [OF F] a
    by (auto simp: call_order_update_evaluator_def intro: shifts_conserves)
qed (auto simp: call_order_update_evaluator_def call_order_update_do_evaluate_def ok_simps)

section \<open>Properties\<close>

lemma cancel_removes: "cancel_limit_order F i s = Inr s' \<Longrightarrow> index_find (limit_orders s') i = None"
  by (auto simp: cancel_limit_order_def ok_simps table_remove_def index_remove_Inr index_find_def map_of_row_delete)

lemma maybe_cull_removes: "maybe_cull_small_order F i s = Inr (s', True) \<Longrightarrow> index_find (limit_orders s') i = None"
  by (auto simp: maybe_cull_small_order_def ok_simps cancel_removes split: if_splits)

lemma cull_removes: "cull_new_order F i s = Inr (s', True) \<Longrightarrow> index_find (limit_orders s') i = None"
  using maybe_cull_removes by (auto simp: cull_new_order_def split: if_splits)

lemma apply_order_filled:
  assumes "apply_order F i allow s = Inr (s', True)"
  shows "index_find (limit_orders s') i = None"
  using assms cull_removes by (fastforce simp: apply_order_def Let_def ok_simps split: if_splits)

text \<open>
  An order created with the fill-or-kill flag is not in the book when the operation succeeds: it was matched completely, or its
  rest was too small to be sold and went back to the seller.
\<close>

theorem fill_or_kill_leaves_no_order:
  assumes "limit_order_create_do_apply F op deferred fs s = Inr (s', i)" "fill_or_kill op"
  shows "index_find (limit_orders s') i = None"
  using assms apply_order_filled by (fastforce simp: limit_order_create_do_apply_def ok_simps)

definition demo_sell :: limit_order_create_operation where
  "demo_sell = \<lparr> lc_fee = mk_asset 3 0, lc_seller = 5, amount_to_sell = mk_asset 1250 0, min_to_receive = mk_asset 500 9,
     lc_expiration = 1600000000, fill_or_kill = True \<rparr>"

definition demo_sell_fs :: fee_state where
  "demo_sell_fs = \<lparr> fee_from_account = mk_asset 3 0, core_fee_paid = 3, fee_paying_account = 5, fee_paying_account_statistics = 0,
     fee_asset_dyn_data = 0 \<rparr>"

text \<open>The demo chain without the margin call.\<close>

definition demo_book :: database where
  "demo_book = demo_market\<lparr>call_orders := empty_index\<rparr>"

theorem fill_or_kill_leaves_no_order_witness:
  "\<exists>s'. limit_order_create_do_apply fc_int64 demo_sell 3 demo_sell_fs demo_book = Inr (s', 4) \<and>
     index_find (limit_orders s') 4 = None"
proof -
  have "case limit_order_create_do_apply fc_int64 demo_sell 3 demo_sell_fs demo_book of Inl e \<Rightarrow> False | Inr (s', i) \<Rightarrow> i = 4"
    by code_simp
  then obtain s' where s': "limit_order_create_do_apply fc_int64 demo_sell 3 demo_sell_fs demo_book = Inr (s', 4)"
    by (auto split: sum.splits)
  show ?thesis using fill_or_kill_leaves_no_order [OF s'] s' by (simp add: demo_sell_def)
qed

text \<open>
  Cancelling a limit order gives its seller exactly what the order still sells and the fee it still holds, changes no other
  balance, removes the order and keeps the ledger.
\<close>

theorem cancel_refunds_seller:
  assumes "fc_laws F" "chain_inv s" "index_find (limit_orders s) i = Some x" "cancel_limit_order F i s = Inr s'"
  shows "(\<forall>o1 a. bal s' o1 a = bal s o1 a + (if o1 = seller x then order_in a x else 0)) \<and>
    index_find (limit_orders s') i = None \<and> conserves s s'"
proof -
  obtain j s1 s2 s3 where s1: "modify_stats j (reduce_core_in_orders F (amount_for_sale x)) s = Inr s1"
    and s2: "adjust_balance F (seller x) (amount_for_sale x) s1 = Inr s2"
    and s3: "adjust_balance F (seller x) (mk_asset (deferred_fee x) 0) s2 = Inr s3"
    and s4: "table_remove limit_orders put_limit_orders i s3 = Inr s'"
    using assms(3,4) by (auto simp: cancel_limit_order_def ok_simps index_get_def)
  note 1 = stat_tab.modify_step [OF assms(2) s1]
  note 2 = fc_laws.adjust_balance_step [OF assms(1) _ s2]
  have c1: "chain_inv s1" "bal s1 = bal s" using 1 by auto
  note 2 = fc_laws.adjust_balance_step [OF assms(1) c1(1) s2]
  note 3 = fc_laws.adjust_balance_step [OF assms(1) _ s3]
  have "bal s' = bal s3" using s4 by (auto simp: table_remove_def ok_simps)
  then have "bal s' o1 a = bal s o1 a + (if o1 = seller x then order_in a x else 0)" for o1 a
    using c1 2 3 by (auto simp: order_in_def asset_in_def core_in_def)
  then show ?thesis using cancel_removes [OF assms(4)] shifts_conserves [OF fc_laws.cancel_limit_shifts(1) [OF assms(1,2,4)]] by blast
qed

theorem cancel_refunds_seller_witness:
  "\<exists>s'. cancel_limit_order fc_int64 3 demo_market = Inr s' \<and> bal s' 5 9 = 500 \<and> bal s' 5 0 = 5007"
proof -
  have "case cancel_limit_order fc_int64 3 demo_market of Inl e \<Rightarrow> False | Inr s' \<Rightarrow> True" by code_simp
  then obtain s' where s': "cancel_limit_order fc_int64 3 demo_market = Inr s'" by (auto split: sum.splits)
  have x: "index_find (limit_orders demo_market) 3 = Some demo_limit" by (simp add: demo_market_def index_find_def)
  have b: "bal demo_market 5 9 = 0" "bal demo_market 5 0 = 5000"
    by (simp_all add: demo_market_def bal_row balance_row_def find_row_def demo_chain_def demo_balance_def)
  show ?thesis using cancel_refunds_seller [OF fc64.fc_laws_axioms demo_market_inv x s'] s' b
    by (simp add: demo_limit_def order_in_def asset_in_def core_in_def amount_for_sale_def)
qed

text \<open>
  The balance check of a cover compares the balance with the negative debt change, so that it accepts every account
  whose balance is not negative, however much it covers; only the later withdrawal stops it.
\<close>

theorem cover_check_always_passes:
  assumes "chain_inv s" "balances_nonneg s" "amount (delta_debt op) < 0"
  shows "asset_ge (get_balance s (funding_account op) (asset_id (delta_debt op))) (delta_debt op) = Inr True"
proof -
  let ?g = "get_balance s (funding_account op) (asset_id (delta_debt op))"
  have "index_inv (balances s)" using assms(1) by (simp add: chain_inv_def)
  then have "asset_id ?g = asset_id (delta_debt op)"
    using index_find_row(2) [of "balances s"] by (auto simp: get_balance_def balance_row_def get_balance_of_def split: option.splits)
  moreover have "0 \<le> amount ?g"
    using assms(2) find_row_Some(2) unfolding get_balance_def balance_row_def balances_nonneg_def
    by (fastforce simp: get_balance_of_def split: option.splits)
  ultimately show ?thesis using assms(3) by (simp add: asset_ge_True)
qed

theorem cover_check_always_passes_witness:
  "asset_ge (get_balance demo_market 6 9) (mk_asset (- 1000) 9) = Inr True \<and> get_balance demo_market 6 9 = mk_asset 0 9"
proof -
  let ?op = "\<lparr> cu_fee = mk_asset 0 0, funding_account = 6, delta_collateral = mk_asset 0 0, delta_debt = mk_asset (- 1000) 9 \<rparr>"
  have "balances_nonneg demo_market" using demo_chain_nonneg by (simp add: balances_nonneg_def demo_market_def)
  from cover_check_always_passes [OF demo_market_inv this, of ?op] show ?thesis
    by (simp add: demo_market_def get_balance_def balance_row_def find_row_def demo_chain_def demo_balance_def)
qed

end
