(* ===== verification/Asset_Evaluators.thy ===== *)
theory Asset_Evaluators
  imports Market_Ledger Transfers
begin

text \<open>
  The operations of an asset issuer and of asset holders (asset_evaluator.cpp, protocol/asset_ops.cpp): creating, issuing, reserving and updating assets,
  funding fee pools, claiming fees, price feeds, force settlement and global settlement.

  Whitelists and the sets of feed producers are finite sets of account identifiers. The pack size of an operation, which
  only enters its fee, is not modelled: the required fee is an argument of the evaluation.
\<close>

unbundle bit_operations_syntax

definition HARDFORK_480_TIME :: time_point_sec where "HARDFORK_480_TIME = 1450378800"
definition HARDFORK_572_TIME :: time_point_sec where "HARDFORK_572_TIME = 1456250400"

section \<open>Options\<close>

definition ASSET_ISSUER_PERMISSION_MASK :: u16 where
  "ASSET_ISSUER_PERMISSION_MASK = charge_market_fee OR white_list OR override_authority OR transfer_restricted OR
     disable_force_settle OR global_settle OR disable_confidential OR witness_fed_asset OR committee_fed_asset"

definition is_upper :: "char \<Rightarrow> bool" where "is_upper c \<longleftrightarrow> 65 \<le> (of_char c :: nat) \<and> (of_char c :: nat) \<le> 90"
definition is_lower :: "char \<Rightarrow> bool" where "is_lower c \<longleftrightarrow> 97 \<le> (of_char c :: nat) \<and> (of_char c :: nat) \<le> 122"
definition is_alpha :: "char \<Rightarrow> bool" where "is_alpha c \<longleftrightarrow> is_upper c \<or> is_lower c"
definition is_digit :: "char \<Rightarrow> bool" where "is_digit c \<longleftrightarrow> 48 \<le> (of_char c :: nat) \<and> (of_char c :: nat) \<le> 57"

fun symbol_loop :: "bool \<Rightarrow> string \<Rightarrow> bool" where
  "symbol_loop dot [] = True"
| "symbol_loop dot (c # cs) =
     (if is_alpha c \<and> is_upper c \<or> is_digit c then symbol_loop dot cs
      else if c = CHR ''.'' then (if dot then False else symbol_loop True cs)
      else False)"

definition is_valid_symbol :: "string \<Rightarrow> bool" where
  "is_valid_symbol s =
     (if length s < 3 then False
      else if take 3 s = ''BIT'' then False
      else if length s > 16 then False
      else if \<not> is_alpha (hd s) then False
      else if \<not> is_alpha (last s) then False
      else symbol_loop False s)"

definition bitasset_options_validate :: "bitasset_options \<Rightarrow> unit result" where
  "bitasset_options_validate b =
     bind (fc_assert (minimum_feeds b > 0) ''minimum_feeds > 0'') (\<lambda>_.
     bind (fc_assert (uint (force_settlement_offset_percent b) \<le> GRAPHENE_100_PERCENT) ''force_settlement_offset_percent'') (\<lambda>_.
     fc_assert (uint (maximum_force_settlement_volume b) \<le> GRAPHENE_100_PERCENT) ''maximum_force_settlement_volume''))"

definition asset_options_validate :: "asset_options \<Rightarrow> unit result" where
  "asset_options_validate a =
     bind (fc_assert (max_supply a > 0) ''max_supply > 0'') (\<lambda>_.
     bind (fc_assert (max_supply a \<le> GRAPHENE_MAX_SHARE_SUPPLY) ''max_supply'') (\<lambda>_.
     bind (fc_assert (uint (market_fee_percent a) \<le> GRAPHENE_100_PERCENT) ''market_fee_percent'') (\<lambda>_.
     bind (fc_assert (max_market_fee a \<ge> 0 \<and> max_market_fee a \<le> GRAPHENE_MAX_SHARE_SUPPLY) ''max_market_fee'') (\<lambda>_.
     bind (fc_assert (issuer_permissions a AND NOT ASSET_ISSUER_PERMISSION_MASK = 0) ''issuer_permissions'') (\<lambda>_.
     bind (fc_assert (\<not> has_flag (flags a) global_settle) ''global_settle'') (\<lambda>_.
     bind (fc_assert (flags a AND (witness_fed_asset OR committee_fed_asset) \<noteq> witness_fed_asset OR committee_fed_asset) ''fed'') (\<lambda>_.
     bind (price_validate (opt_core_exchange_rate a)) (\<lambda>_.
     bind (fc_assert (asset_id (base (opt_core_exchange_rate a)) = 0 \<or> asset_id (quote (opt_core_exchange_rate a)) = 0)
            ''core_exchange_rate'') (\<lambda>_.
     bind (if whitelist_authorities a \<noteq> {} \<or> blacklist_authorities a \<noteq> {}
           then fc_assert (has_flag (flags a) white_list) ''white_list'' else Inr ()) (\<lambda>_.
     bind (fc_assert (\<forall>i \<in> whitelist_markets a. i \<notin> blacklist_markets a) ''whitelist_markets'') (\<lambda>_.
     fc_assert (\<forall>i \<in> blacklist_markets a. i \<notin> whitelist_markets a) ''blacklist_markets'')))))))))))"

definition accounts_exist :: "nat set \<Rightarrow> database \<Rightarrow> unit result" where
  "accounts_exist ids s = (if \<forall>i \<in> ids. index_find (accounts s) i \<noteq> None then Inr () else Inl Unknown_Object)"

section \<open>Creating an asset\<close>

record asset_create_operation =
  ac_fee :: asset
  ac_issuer :: nat
  ac_symbol :: string
  ac_precision :: u8
  common_options :: asset_options
  bitasset_opts :: "bitasset_options option"
  ac_is_prediction_market :: bool

definition asset_create_validate :: "asset_create_operation \<Rightarrow> unit result" where
  "asset_create_validate op =
     bind (fc_assert (amount (ac_fee op) \<ge> 0) ''fee.amount >= 0'') (\<lambda>_.
     bind (fc_assert (is_valid_symbol (ac_symbol op)) ''is_valid_symbol(symbol)'') (\<lambda>_.
     bind (asset_options_validate (common_options op)) (\<lambda>_.
     bind (if has_flag (issuer_permissions (common_options op)) (disable_force_settle OR global_settle)
           then fc_assert (bitasset_opts op \<noteq> None) ''bitasset_opts.valid()'' else Inr ()) (\<lambda>_.
     bind (if ac_is_prediction_market op then
             bind (fc_assert (bitasset_opts op \<noteq> None) ''Cannot have a User-Issued Asset implement a prediction market.'') (\<lambda>_.
             fc_assert (has_flag (issuer_permissions (common_options op)) global_settle) ''global_settle'')
           else Inr ()) (\<lambda>_.
     bind (case bitasset_opts op of Some b \<Rightarrow> bitasset_options_validate b | None \<Rightarrow> Inr ()) (\<lambda>_.
     bind (asset_mul (mk_asset 1 0) (opt_core_exchange_rate (common_options op))) (\<lambda>dummy.
     bind (fc_assert (asset_id dummy = 1) ''dummy.asset_id == asset_id_type(1)'') (\<lambda>_.
     fc_assert (ac_precision op \<le> 12) ''precision <= 12''))))))))"

definition parent_symbol :: "string \<Rightarrow> string option" where
  "parent_symbol s = (if CHR ''.'' \<in> set s then Some (butlast (rev (dropWhile (\<lambda>c. c \<noteq> CHR ''.'') (rev s)))) else None)"

definition check_backing :: "nat \<Rightarrow> bool \<Rightarrow> nat \<Rightarrow> database \<Rightarrow> unit result" where
  "check_backing issuer_id new backing_id s =
     bind (index_get (assets s) backing_id) (\<lambda>backing.
     if is_market_issued backing then
       bind (get_bitasset s backing) (\<lambda>(b, bit).
       bind (index_get (assets s) (short_backing_asset (bit_options bit))) (\<lambda>backing_backing.
       bind (if new then fc_assert (\<not> is_market_issued backing_backing)
                           ''May not create a bitasset backed by a bitasset backed by a bitasset.'' else Inr ()) (\<lambda>_.
       fc_assert (issuer_id \<noteq> GRAPHENE_COMMITTEE_ACCOUNT \<or> short_backing_asset (bit_options bit) = 0)
         ''May not create a blockchain-controlled market asset which is not backed by CORE.'')))
     else
       fc_assert (issuer_id \<noteq> GRAPHENE_COMMITTEE_ACCOUNT \<or> backing_id = 0)
         ''May not create a blockchain-controlled market asset which is not backed by CORE.'')"

definition asset_create_do_evaluate ::
  "fc_lib \<Rightarrow> asset_create_operation \<Rightarrow> fee_state \<Rightarrow> database \<Rightarrow> (unit \<times> fee_state) result" where
  "asset_create_do_evaluate F op fs s =
     bind (fc_assert (card (whitelist_authorities (common_options op)) \<le> unat (maximum_asset_whitelist_authorities (parameters s))) ''whitelist'') (\<lambda>_.
     bind (fc_assert (card (blacklist_authorities (common_options op)) \<le> unat (maximum_asset_whitelist_authorities (parameters s))) ''blacklist'') (\<lambda>_.
     bind (accounts_exist (whitelist_authorities (common_options op)) s) (\<lambda>_.
     bind (accounts_exist (blacklist_authorities (common_options op)) s) (\<lambda>_.
     bind (fc_assert (find_row (\<lambda>a. symbol a = ac_symbol op) (assets s) = None) ''asset_symbol_itr == asset_indx.end()'') (\<lambda>_.
     bind (case parent_symbol (ac_symbol op) of
             None \<Rightarrow> Inr ()
           | Some prefix \<Rightarrow>
               (case find_row (\<lambda>a. symbol a = prefix) (assets s) of
                  None \<Rightarrow> Inl (Assert_Exception ''Asset may only be created by issuer of the prefix, which has not been registered'')
                | Some (i, a) \<Rightarrow> fc_assert (issuer a = ac_issuer op) ''Asset may only be created by issuer of the prefix'')) (\<lambda>_.
     bind (safe_sub F (core_fee_paid fs) (int_quot (core_fee_paid fs) 2)) (\<lambda>core.
     bind (case bitasset_opts op of
             None \<Rightarrow> Inr ()
           | Some b \<Rightarrow>
               bind (check_backing (ac_issuer op) True (short_backing_asset b) s) (\<lambda>_.
               fc_assert (uint (feed_lifetime_sec b) > uint (block_interval (parameters s)) \<and>
                          uint (force_settlement_delay_sec b) > uint (block_interval (parameters s))) ''block_interval'')) (\<lambda>_.
     bind (if ac_is_prediction_market op then
             (case bitasset_opts op of
                None \<Rightarrow> Inl (Assert_Exception ''op.bitasset_opts'')
              | Some b \<Rightarrow>
                  bind (index_get (assets s) (short_backing_asset b)) (\<lambda>backing.
                  fc_assert (ac_precision op = precision backing) ''precision''))
           else Inr ()) (\<lambda>_.
     Inr ((), fs\<lparr>core_fee_paid := core\<rparr>))))))))))"

definition new_asset_options :: "nat \<Rightarrow> asset_options \<Rightarrow> asset_options" where
  "new_asset_options i a =
     (let r = opt_core_exchange_rate a in
      a\<lparr>opt_core_exchange_rate := (if asset_id (base r) = 0 then r\<lparr>quote := (quote r)\<lparr>asset_id := i\<rparr>\<rparr>
                                  else r\<lparr>base := (base r)\<lparr>asset_id := i\<rparr>\<rparr>)\<rparr>)"

definition new_dyn_data :: "share_type \<Rightarrow> asset_dynamic_data_object" where
  "new_dyn_data pool = \<lparr> current_supply = 0, confidential_supply = 0, accumulated_fees = 0, fee_pool = pool,
     dyn_locked_balance = 0, dyn_market_fees = 0 \<rparr>"

definition new_bitasset :: "bitasset_options \<Rightarrow> bool \<Rightarrow> asset_bitasset_data_object" where
  "new_bitasset opts prediction = \<lparr> bit_options = opts, feeds = [], current_feed = null_feed, current_feed_publication_time = 0,
     is_prediction_market = prediction, force_settled_volume = 0, bit_settlement_price = null_price, settlement_fund = 0 \<rparr>"

definition create_bitasset_data :: "asset_create_operation \<Rightarrow> database \<Rightarrow> (database \<times> nat option) result" where
  "create_bitasset_data op s =
     (case bitasset_opts op of
        None \<Rightarrow> Inr (s, None)
      | Some b \<Rightarrow> bind (table_create bitassets put_bitassets no_clash (new_bitasset b (ac_is_prediction_market op)) s) (\<lambda>(s', i).
          Inr (s', Some i)))"

definition asset_create_do_apply ::
  "fc_lib \<Rightarrow> asset_create_operation \<Rightarrow> unit \<Rightarrow> fee_state \<Rightarrow> database \<Rightarrow> (database \<times> nat) result" where
  "asset_create_do_apply F op e fs s =
     bind (table_create asset_dyn put_asset_dyn no_clash (new_dyn_data (core_fee_paid fs)) s) (\<lambda>(s1, dyn).
     bind (create_bitasset_data op s1) (\<lambda>(s2, bit_id).
     table_create assets put_assets same_symbol
       \<lparr> symbol = ac_symbol op, precision = ac_precision op, issuer = ac_issuer op,
         options = new_asset_options (next_id (assets s2)) (common_options op), dynamic_asset_data_id = dyn,
         lock_data_id = None, bitasset_data_id = bit_id, buyback_account = None \<rparr> s2))"

definition asset_create_evaluator :: "(asset_create_operation, unit, nat) evaluator" where
  "asset_create_evaluator = \<lparr> fee_payer = ac_issuer, op_fee = ac_fee, do_evaluate = asset_create_do_evaluate,
     do_pay_fee = default_pay_fee, do_apply = asset_create_do_apply \<rparr>"

section \<open>Supply\<close>

record asset_issue_operation =
  ai_fee :: asset
  ai_issuer :: nat
  asset_to_issue :: asset
  issue_to_account :: nat

definition asset_issue_validate :: "asset_issue_operation \<Rightarrow> unit result" where
  "asset_issue_validate op =
     bind (fc_assert (amount (ai_fee op) \<ge> 0) ''fee.amount >= 0'') (\<lambda>_.
     bind (fc_assert (amount (asset_to_issue op) \<le> GRAPHENE_MAX_SHARE_SUPPLY) ''asset_to_issue'') (\<lambda>_.
     bind (fc_assert (amount (asset_to_issue op) > 0) ''asset_to_issue.amount.value > 0'') (\<lambda>_.
     fc_assert (asset_id (asset_to_issue op) \<noteq> 0) ''asset_to_issue.asset_id != asset_id_type(0)'')))"

definition change_supply :: "(int \<Rightarrow> int \<Rightarrow> int result) \<Rightarrow> asset \<Rightarrow> database \<Rightarrow> database result" where
  "change_supply add x s =
     bind (index_get (assets s) (asset_id x)) (\<lambda>a.
     modify_asset_dyn (dynamic_asset_data_id a) (\<lambda>d.
       bind (add (current_supply d) (amount x)) (\<lambda>v. Inr (d\<lparr>current_supply := v\<rparr>))) s)"

definition asset_issue_do_evaluate ::
  "fc_lib \<Rightarrow> asset_issue_operation \<Rightarrow> fee_state \<Rightarrow> database \<Rightarrow> (unit \<times> fee_state) result" where
  "asset_issue_do_evaluate F op fs s =
     bind (index_get (assets s) (asset_id (asset_to_issue op))) (\<lambda>a.
     bind (fc_assert (ai_issuer op = issuer a) ''o.issuer == a.issuer'') (\<lambda>_.
     bind (fc_assert (\<not> is_market_issued a) ''Cannot manually issue a market-issued asset.'') (\<lambda>_.
     bind (index_get (accounts s) (issue_to_account op)) (\<lambda>to_account.
     bind (fc_assert (is_authorized_asset to_account (asset_id (asset_to_issue op)) a) ''is_authorized_asset'') (\<lambda>_.
     bind (index_get (asset_dyn s) (dynamic_asset_data_id a)) (\<lambda>d.
     bind (safe_add F (current_supply d) (amount (asset_to_issue op))) (\<lambda>v.
     bind (fc_assert (v \<le> max_supply (options a)) ''max_supply'') (\<lambda>_.
     Inr ((), fs)))))))))"

definition asset_issue_do_apply ::
  "fc_lib \<Rightarrow> asset_issue_operation \<Rightarrow> unit \<Rightarrow> fee_state \<Rightarrow> database \<Rightarrow> (database \<times> unit) result" where
  "asset_issue_do_apply F op e fs s =
     bind (adjust_balance F (issue_to_account op) (asset_to_issue op) s) (\<lambda>s1.
     bind (change_supply (safe_add F) (asset_to_issue op) s1) (\<lambda>s2. Inr (s2, ())))"

definition asset_issue_evaluator :: "(asset_issue_operation, unit, unit) evaluator" where
  "asset_issue_evaluator = \<lparr> fee_payer = ai_issuer, op_fee = ai_fee, do_evaluate = asset_issue_do_evaluate,
     do_pay_fee = default_pay_fee, do_apply = asset_issue_do_apply \<rparr>"

record asset_reserve_operation =
  ar_fee :: asset
  ar_payer :: nat
  amount_to_reserve :: asset

definition asset_reserve_validate :: "asset_reserve_operation \<Rightarrow> unit result" where
  "asset_reserve_validate op =
     bind (fc_assert (amount (ar_fee op) \<ge> 0) ''fee.amount >= 0'') (\<lambda>_.
     bind (fc_assert (amount (amount_to_reserve op) \<le> GRAPHENE_MAX_SHARE_SUPPLY) ''amount_to_reserve'') (\<lambda>_.
     fc_assert (amount (amount_to_reserve op) > 0) ''amount_to_reserve.amount.value > 0''))"

definition asset_reserve_do_evaluate ::
  "fc_lib \<Rightarrow> asset_reserve_operation \<Rightarrow> fee_state \<Rightarrow> database \<Rightarrow> (unit \<times> fee_state) result" where
  "asset_reserve_do_evaluate F op fs s =
     bind (index_get (assets s) (asset_id (amount_to_reserve op))) (\<lambda>a.
     bind (graphene_assert (\<not> is_market_issued a) (Chain_Exception ''asset_reserve_invalid_on_mia'')) (\<lambda>_.
     bind (index_get (accounts s) (ar_payer op)) (\<lambda>from_account.
     bind (fc_assert (is_authorized_asset from_account (asset_id (amount_to_reserve op)) a) ''is_authorized_asset'') (\<lambda>_.
     bind (index_get (asset_dyn s) (dynamic_asset_data_id a)) (\<lambda>d.
     bind (safe_sub F (current_supply d) (amount (amount_to_reserve op))) (\<lambda>v.
     bind (fc_assert (v \<ge> 0) ''current_supply'') (\<lambda>_.
     Inr ((), fs))))))))"

definition asset_reserve_do_apply ::
  "fc_lib \<Rightarrow> asset_reserve_operation \<Rightarrow> unit \<Rightarrow> fee_state \<Rightarrow> database \<Rightarrow> (database \<times> unit) result" where
  "asset_reserve_do_apply F op e fs s =
     bind (asset_neg F (amount_to_reserve op)) (\<lambda>n.
     bind (adjust_balance F (ar_payer op) n s) (\<lambda>s1.
     bind (change_supply (safe_sub F) (amount_to_reserve op) s1) (\<lambda>s2. Inr (s2, ()))))"

definition asset_reserve_evaluator :: "(asset_reserve_operation, unit, unit) evaluator" where
  "asset_reserve_evaluator = \<lparr> fee_payer = ar_payer, op_fee = ar_fee, do_evaluate = asset_reserve_do_evaluate,
     do_pay_fee = default_pay_fee, do_apply = asset_reserve_do_apply \<rparr>"

record asset_fund_fee_pool_operation =
  af_fee :: asset
  af_from_account :: nat
  af_asset_id :: nat
  af_amount :: share_type

definition asset_fund_fee_pool_validate :: "asset_fund_fee_pool_operation \<Rightarrow> unit result" where
  "asset_fund_fee_pool_validate op =
     bind (fc_assert (amount (af_fee op) \<ge> 0) ''fee.amount >= 0'') (\<lambda>_.
     bind (fc_assert (asset_id (af_fee op) = 0) ''fee.asset_id == asset_id_type()'') (\<lambda>_.
     fc_assert (af_amount op > 0) ''amount > 0''))"

definition asset_fund_fee_pool_do_evaluate ::
  "fc_lib \<Rightarrow> asset_fund_fee_pool_operation \<Rightarrow> fee_state \<Rightarrow> database \<Rightarrow> (unit \<times> fee_state) result" where
  "asset_fund_fee_pool_do_evaluate F op fs s =
     bind (index_get (assets s) (af_asset_id op)) (\<lambda>a.
     bind (index_get (asset_dyn s) (dynamic_asset_data_id a)) (\<lambda>_. Inr ((), fs)))"

definition asset_fund_fee_pool_do_apply ::
  "fc_lib \<Rightarrow> asset_fund_fee_pool_operation \<Rightarrow> unit \<Rightarrow> fee_state \<Rightarrow> database \<Rightarrow> (database \<times> unit) result" where
  "asset_fund_fee_pool_do_apply F op e fs s =
     bind (asset_neg F (mk_asset (af_amount op) 0)) (\<lambda>n.
     bind (adjust_balance F (af_from_account op) n s) (\<lambda>s1.
     bind (index_get (assets s1) (af_asset_id op)) (\<lambda>a.
     bind (modify_asset_dyn (dynamic_asset_data_id a) (\<lambda>d.
            bind (safe_add F (fee_pool d) (af_amount op)) (\<lambda>v. Inr (d\<lparr>fee_pool := v\<rparr>))) s1) (\<lambda>s2.
     Inr (s2, ())))))"

definition asset_fund_fee_pool_evaluator :: "(asset_fund_fee_pool_operation, unit, unit) evaluator" where
  "asset_fund_fee_pool_evaluator = \<lparr> fee_payer = af_from_account, op_fee = af_fee, do_evaluate = asset_fund_fee_pool_do_evaluate,
     do_pay_fee = default_pay_fee, do_apply = asset_fund_fee_pool_do_apply \<rparr>"

record asset_claim_fees_operation =
  cf_fee :: asset
  cf_issuer :: nat
  amount_to_claim :: asset

definition asset_claim_fees_validate :: "asset_claim_fees_operation \<Rightarrow> unit result" where
  "asset_claim_fees_validate op =
     bind (fc_assert (amount (cf_fee op) \<ge> 0) ''fee.amount >= 0'') (\<lambda>_.
     fc_assert (amount (amount_to_claim op) > 0) ''amount_to_claim.amount > 0'')"

definition asset_claim_fees_do_evaluate ::
  "fc_lib \<Rightarrow> asset_claim_fees_operation \<Rightarrow> fee_state \<Rightarrow> database \<Rightarrow> (unit \<times> fee_state) result" where
  "asset_claim_fees_do_evaluate F op fs s =
     bind (index_get (assets s) (asset_id (amount_to_claim op))) (\<lambda>a.
     bind (fc_assert (issuer a = cf_issuer op) ''Asset fees may only be claimed by the issuer'') (\<lambda>_.
     Inr ((), fs)))"

definition asset_claim_fees_do_apply ::
  "fc_lib \<Rightarrow> asset_claim_fees_operation \<Rightarrow> unit \<Rightarrow> fee_state \<Rightarrow> database \<Rightarrow> (database \<times> unit) result" where
  "asset_claim_fees_do_apply F op e fs s =
     bind (index_get (assets s) (asset_id (amount_to_claim op))) (\<lambda>a.
     bind (index_get (asset_dyn s) (dynamic_asset_data_id a)) (\<lambda>d0.
     bind (fc_assert (amount (amount_to_claim op) \<le> accumulated_fees d0) ''Attempt to claim more fees than have accumulated'') (\<lambda>_.
     bind (modify_asset_dyn (dynamic_asset_data_id a) (\<lambda>d.
            bind (safe_sub F (accumulated_fees d) (amount (amount_to_claim op))) (\<lambda>v. Inr (d\<lparr>accumulated_fees := v\<rparr>))) s) (\<lambda>s1.
     bind (adjust_balance F (cf_issuer op) (amount_to_claim op) s1) (\<lambda>s2.
     Inr (s2, ()))))))"

definition asset_claim_fees_evaluator :: "(asset_claim_fees_operation, unit, unit) evaluator" where
  "asset_claim_fees_evaluator = \<lparr> fee_payer = cf_issuer, op_fee = cf_fee, do_evaluate = asset_claim_fees_do_evaluate,
     do_pay_fee = default_pay_fee, do_apply = asset_claim_fees_do_apply \<rparr>"

section \<open>Updating an asset\<close>

record asset_update_operation =
  au_fee :: asset
  au_issuer :: nat
  au_asset_to_update :: nat
  new_issuer :: "nat option"
  au_new_options :: asset_options

definition asset_update_validate :: "asset_update_operation \<Rightarrow> unit result" where
  "asset_update_validate op =
     bind (fc_assert (amount (au_fee op) \<ge> 0) ''fee.amount >= 0'') (\<lambda>_.
     bind (case new_issuer op of Some i \<Rightarrow> fc_assert (au_issuer op \<noteq> i) ''issuer != *new_issuer'' | None \<Rightarrow> Inr ()) (\<lambda>_.
     bind (asset_options_validate (au_new_options op)) (\<lambda>_.
     bind (asset_mul (mk_asset 1 (au_asset_to_update op)) (opt_core_exchange_rate (au_new_options op))) (\<lambda>dummy.
     fc_assert (asset_id dummy = 0) ''dummy.asset_id == asset_id_type()''))))"

definition asset_update_do_evaluate ::
  "fc_lib \<Rightarrow> asset_update_operation \<Rightarrow> fee_state \<Rightarrow> database \<Rightarrow> (unit \<times> fee_state) result" where
  "asset_update_do_evaluate F op fs s =
     (let opts = au_new_options op; max_auth = unat (maximum_asset_whitelist_authorities (parameters s)) in
      bind (index_get (assets s) (au_asset_to_update op)) (\<lambda>a.
      bind (asset_object_validate (a\<lparr>options := opts\<rparr>)) (\<lambda>_.
      bind (case new_issuer op of
              None \<Rightarrow> Inr ()
            | Some i \<Rightarrow>
                bind (fc_assert (index_find (accounts s) i \<noteq> None) ''d.find_object(*o.new_issuer)'') (\<lambda>_.
                if is_market_issued a \<and> i = GRAPHENE_COMMITTEE_ACCOUNT then
                  bind (get_bitasset s a) (\<lambda>(b, bit).
                  check_backing GRAPHENE_COMMITTEE_ACCOUNT False (short_backing_asset (bit_options bit)) s)
                else Inr ())) (\<lambda>_.
      bind (if head_block_time s < HARDFORK_572_TIME then Inr True
            else bind (index_get (asset_dyn s) (dynamic_asset_data_id a)) (\<lambda>d. Inr (current_supply d \<noteq> 0))) (\<lambda>fixed.
      bind (if fixed
            then fc_assert (issuer_permissions opts AND NOT (issuer_permissions (options a)) = 0)
                   ''Cannot reinstate previously revoked issuer permissions on an asset.'' else Inr ()) (\<lambda>_.
      bind (fc_assert ((flags opts XOR flags (options a)) AND NOT (issuer_permissions (options a)) = 0)
             ''Flag change is forbidden by issuer permissions'') (\<lambda>_.
      bind (fc_assert (au_issuer op = issuer a) ''o.issuer == a.issuer'') (\<lambda>_.
      bind (fc_assert (card (whitelist_authorities opts) \<le> max_auth) ''whitelist_authorities'') (\<lambda>_.
      bind (accounts_exist (whitelist_authorities opts) s) (\<lambda>_.
      bind (fc_assert (card (blacklist_authorities opts) \<le> max_auth) ''blacklist_authorities'') (\<lambda>_.
      bind (accounts_exist (blacklist_authorities opts) s) (\<lambda>_.
      Inr ((), fs)))))))))))))"

text \<open>The force settlements of an asset in the order of the index by expiration.\<close>

definition settlement_before :: "nat \<times> force_settlement_object \<Rightarrow> nat \<times> force_settlement_object \<Rightarrow> bool" where
  "settlement_before x y \<longleftrightarrow>
     (let ax = asset_id (fs_balance (snd x)); ay = asset_id (fs_balance (snd y));
          dx = settlement_date (snd x); dy = settlement_date (snd y) in
      ax < ay \<or> ax = ay \<and> (dx < dy \<or> dx = dy \<and> fst x < fst y))"

definition settlements_by_expiration :: "database \<Rightarrow> (nat \<times> force_settlement_object) list" where
  "settlements_by_expiration s = sort_by settlement_before (rows (settlements s))"

definition first_settlement :: "nat \<Rightarrow> database \<Rightarrow> nat option" where
  "first_settlement a s =
     (case dropWhile (\<lambda>x. asset_id (fs_balance (snd x)) < a) (settlements_by_expiration s) of
        [] \<Rightarrow> None
      | x # _ \<Rightarrow> if asset_id (fs_balance (snd x)) = a then Some (fst x) else None)"

definition cancel_settlements_step :: "fc_lib \<Rightarrow> nat \<Rightarrow> database \<Rightarrow> (database, database) loop_step result" where
  "cancel_settlements_step F a s =
     (case first_settlement a s of
        None \<Rightarrow> Inr (Finish s)
      | Some i \<Rightarrow> bind (cancel_settlement F i s) (\<lambda>s'. Inr (Continue s')))"

definition asset_update_do_apply ::
  "fc_lib \<Rightarrow> asset_update_operation \<Rightarrow> unit \<Rightarrow> fee_state \<Rightarrow> database \<Rightarrow> (database \<times> unit) result" where
  "asset_update_do_apply F op e fs s =
     bind (index_get (assets s) (au_asset_to_update op)) (\<lambda>a.
     bind (if has_flag (flags (au_new_options op)) disable_force_settle \<and> can_force_settle a
           then run_loop (Suc (length (rows (settlements s)))) (cancel_settlements_step F (au_asset_to_update op)) s
           else Inr s) (\<lambda>s1.
     bind (modify_asset (au_asset_to_update op) (\<lambda>a. Inr (a\<lparr>issuer := (case new_issuer op of Some i \<Rightarrow> i | None \<Rightarrow> issuer a),
            options := au_new_options op\<rparr>)) s1) (\<lambda>s2.
     Inr (s2, ()))))"

definition asset_update_evaluator :: "(asset_update_operation, unit, unit) evaluator" where
  "asset_update_evaluator = \<lparr> fee_payer = au_issuer, op_fee = au_fee, do_evaluate = asset_update_do_evaluate,
     do_pay_fee = default_pay_fee, do_apply = asset_update_do_apply \<rparr>"

record asset_update_bitasset_operation =
  ub_fee :: asset
  ub_issuer :: nat
  ub_asset_to_update :: nat
  ub_new_options :: bitasset_options

definition asset_update_bitasset_validate :: "asset_update_bitasset_operation \<Rightarrow> unit result" where
  "asset_update_bitasset_validate op =
     bind (fc_assert (amount (ub_fee op) \<ge> 0) ''fee.amount >= 0'') (\<lambda>_. bitasset_options_validate (ub_new_options op))"

definition asset_update_bitasset_do_evaluate ::
  "fc_lib \<Rightarrow> asset_update_bitasset_operation \<Rightarrow> fee_state \<Rightarrow> database \<Rightarrow> (unit \<times> fee_state) result" where
  "asset_update_bitasset_do_evaluate F op fs s =
     bind (index_get (assets s) (ub_asset_to_update op)) (\<lambda>a.
     bind (fc_assert (is_market_issued a) ''Cannot update BitAsset-specific settings on a non-BitAsset.'') (\<lambda>_.
     bind (get_bitasset s a) (\<lambda>(b, bit).
     bind (fc_assert (\<not> has_settlement bit) ''Cannot update a bitasset after a settlement has executed'') (\<lambda>_.
     bind (if short_backing_asset (ub_new_options op) \<noteq> short_backing_asset (bit_options bit) then
             bind (index_get (asset_dyn s) (dynamic_asset_data_id a)) (\<lambda>d.
             bind (fc_assert (current_supply d = 0) ''current_supply == 0'') (\<lambda>_.
             bind (fc_assert (index_find (assets s) (short_backing_asset (ub_new_options op)) \<noteq> None) ''short_backing_asset'') (\<lambda>_.
             if issuer a = GRAPHENE_COMMITTEE_ACCOUNT
             then check_backing GRAPHENE_COMMITTEE_ACCOUNT False (short_backing_asset (bit_options bit)) s
             else Inr ())))
           else Inr ()) (\<lambda>_.
     bind (fc_assert (ub_issuer op = issuer a) ''o.issuer == a.issuer'') (\<lambda>_.
     Inr ((), fs)))))))"

definition update_bitasset_options ::
  "time_point_sec \<Rightarrow> bitasset_options \<Rightarrow> asset_bitasset_data_object \<Rightarrow> asset_bitasset_data_object result" where
  "update_bitasset_options now opts b =
     (let b' = b\<lparr>bit_options := opts\<rparr> in
      if minimum_feeds opts \<noteq> minimum_feeds (bit_options b) then update_median_feeds now b' else Inr b')"

definition asset_update_bitasset_do_apply ::
  "fc_lib \<Rightarrow> asset_update_bitasset_operation \<Rightarrow> unit \<Rightarrow> fee_state \<Rightarrow> database \<Rightarrow> (database \<times> unit) result" where
  "asset_update_bitasset_do_apply F op e fs s =
     bind (index_get (assets s) (ub_asset_to_update op)) (\<lambda>a.
     bind (get_bitasset s a) (\<lambda>(b, bit).
     bind (modify_bitasset b (update_bitasset_options (head_block_time s) (ub_new_options op)) s) (\<lambda>s'.
     Inr (s', ()))))"

definition asset_update_bitasset_evaluator :: "(asset_update_bitasset_operation, unit, unit) evaluator" where
  "asset_update_bitasset_evaluator = \<lparr> fee_payer = ub_issuer, op_fee = ub_fee, do_evaluate = asset_update_bitasset_do_evaluate,
     do_pay_fee = default_pay_fee, do_apply = asset_update_bitasset_do_apply \<rparr>"

section \<open>Price feeds\<close>

fun feed_put :: "nat \<Rightarrow> time_point_sec \<times> price_feed \<Rightarrow> (nat \<times> time_point_sec \<times> price_feed) list \<Rightarrow> (nat \<times> time_point_sec \<times> price_feed) list" where
  "feed_put k v [] = [(k, v)]"
| "feed_put k v ((k', v') # fs) =
     (if k < k' then (k, v) # (k', v') # fs else if k = k' then (k, v) # fs else (k', v') # feed_put k v fs)"

definition feed_of :: "nat \<Rightarrow> (nat \<times> time_point_sec \<times> price_feed) list \<Rightarrow> (time_point_sec \<times> price_feed) option" where
  "feed_of k fs = map_of fs k"

record asset_update_feed_producers_operation =
  fp_fee :: asset
  fp_issuer :: nat
  fp_asset_to_update :: nat
  new_feed_producers :: "nat list"

definition asset_update_feed_producers_validate :: "asset_update_feed_producers_operation \<Rightarrow> unit result" where
  "asset_update_feed_producers_validate op = fc_assert (amount (fp_fee op) \<ge> 0) ''fee.amount >= 0''"

definition asset_update_feed_producers_do_evaluate ::
  "fc_lib \<Rightarrow> asset_update_feed_producers_operation \<Rightarrow> fee_state \<Rightarrow> database \<Rightarrow> (unit \<times> fee_state) result" where
  "asset_update_feed_producers_do_evaluate F op fs s =
     bind (fc_assert (length (new_feed_producers op) \<le> unat (maximum_asset_feed_publishers (parameters s))) ''new_feed_producers'') (\<lambda>_.
     bind (accounts_exist (set (new_feed_producers op)) s) (\<lambda>_.
     bind (index_get (assets s) (fp_asset_to_update op)) (\<lambda>a.
     bind (fc_assert (is_market_issued a) ''Cannot update feed producers on a non-BitAsset.'') (\<lambda>_.
     bind (fc_assert (\<not> has_flag (flags (options a)) committee_fed_asset) ''Cannot set feed producers on a committee-fed asset.'') (\<lambda>_.
     bind (fc_assert (\<not> has_flag (flags (options a)) witness_fed_asset) ''Cannot set feed producers on a witness-fed asset.'') (\<lambda>_.
     bind (get_bitasset s a) (\<lambda>_.
     bind (fc_assert (issuer a = fp_issuer op) ''a.issuer == o.issuer'') (\<lambda>_.
     Inr ((), fs)))))))))"

definition change_producers ::
  "nat list \<Rightarrow> (nat \<times> time_point_sec \<times> price_feed) list \<Rightarrow> (nat \<times> time_point_sec \<times> price_feed) list" where
  "change_producers ps fs =
     fold (\<lambda>p fs. if feed_of p fs = None then feed_put p (0, null_feed) fs else fs) ps (filter (\<lambda>(k, v). k \<in> set ps) fs)"

definition asset_update_feed_producers_do_apply ::
  "fc_lib \<Rightarrow> asset_update_feed_producers_operation \<Rightarrow> unit \<Rightarrow> fee_state \<Rightarrow> database \<Rightarrow> (database \<times> unit) result" where
  "asset_update_feed_producers_do_apply F op e fs s =
     bind (index_get (assets s) (fp_asset_to_update op)) (\<lambda>a.
     bind (get_bitasset s a) (\<lambda>(b, bit).
     bind (modify_bitasset b (\<lambda>x. update_median_feeds (head_block_time s)
            (x\<lparr>feeds := change_producers (new_feed_producers op) (feeds x)\<rparr>)) s) (\<lambda>s1.
     bind (check_call_orders F (fp_asset_to_update op) True s1) (\<lambda>(s2, called).
     Inr (s2, ())))))"

definition asset_update_feed_producers_evaluator :: "(asset_update_feed_producers_operation, unit, unit) evaluator" where
  "asset_update_feed_producers_evaluator = \<lparr> fee_payer = fp_issuer, op_fee = fp_fee,
     do_evaluate = asset_update_feed_producers_do_evaluate, do_pay_fee = default_pay_fee,
     do_apply = asset_update_feed_producers_do_apply \<rparr>"

record asset_publish_feed_operation =
  pf_fee :: asset
  publisher :: nat
  pf_asset_id :: nat
  feed :: price_feed

definition asset_publish_feed_validate :: "asset_publish_feed_operation \<Rightarrow> unit result" where
  "asset_publish_feed_validate op =
     (let f = feed op; sp = settlement_price f; cer = core_exchange_rate f in
      bind (fc_assert (amount (pf_fee op) \<ge> 0) ''fee.amount >= 0'') (\<lambda>_.
      bind (price_feed_validate f) (\<lambda>_.
      bind (if \<not> price_is_null cer then price_validate cer else Inr ()) (\<lambda>_.
      bind (if \<not> price_is_null sp \<and> \<not> price_is_null cer
            then fc_assert (asset_id (base sp) = asset_id (base cer)) ''feed.settlement_price.base.asset_id'' else Inr ()) (\<lambda>_.
      bind (fc_assert (\<not> price_is_null sp) ''!feed.settlement_price.is_null()'') (\<lambda>_.
      bind (fc_assert (\<not> price_is_null cer) ''!feed.core_exchange_rate.is_null()'') (\<lambda>_.
      fc_assert (price_feed_is_for f (pf_asset_id op)) ''feed.is_for( asset_id )''))))))) "

definition asset_publish_feeds_do_evaluate ::
  "fc_lib \<Rightarrow> asset_publish_feed_operation \<Rightarrow> fee_state \<Rightarrow> database \<Rightarrow> (unit \<times> fee_state) result" where
  "asset_publish_feeds_do_evaluate F op fs s =
     (let sp = settlement_price (feed op); cer = core_exchange_rate (feed op) in
      bind (index_get (assets s) (pf_asset_id op)) (\<lambda>a.
      bind (fc_assert (is_market_issued a) ''base.is_market_issued()'') (\<lambda>_.
      bind (get_bitasset s a) (\<lambda>(b, bit).
      bind (fc_assert (\<not> has_settlement bit) ''No further feeds may be published after a settlement event'') (\<lambda>_.
      bind (fc_assert (asset_id (quote sp) = short_backing_asset (bit_options bit)) ''short_backing_asset'') (\<lambda>_.
      bind (if head_block_time s > HARDFORK_480_TIME then
              if \<not> price_is_null cer then fc_assert (asset_id (quote cer) = 0) ''core_exchange_rate'' else Inr ()
            else
              if \<not> price_is_null sp \<and> \<not> price_is_null cer
              then fc_assert (asset_id (quote sp) = asset_id (quote cer)) ''core_exchange_rate'' else Inr ()) (\<lambda>_.
      bind (if has_flag (flags (options a)) witness_fed_asset then
              bind (index_get (accounts s) GRAPHENE_WITNESS_ACCOUNT) (\<lambda>w.
              fc_assert (publisher op \<in> fst ` set (account_auths (active_authority w))) ''witness'')
            else if has_flag (flags (options a)) committee_fed_asset then
              bind (index_get (accounts s) GRAPHENE_COMMITTEE_ACCOUNT) (\<lambda>c.
              fc_assert (publisher op \<in> fst ` set (account_auths (active_authority c))) ''committee'')
            else fc_assert (feed_of (publisher op) (feeds bit) \<noteq> None) ''bitasset.feeds.count(o.publisher)'') (\<lambda>_.
      Inr ((), fs)))))))))"

definition price_feed_eq :: "price_feed \<Rightarrow> price_feed \<Rightarrow> bool" where
  "price_feed_eq a b \<longleftrightarrow> price_eq (settlement_price a) (settlement_price b) \<and>
     maintenance_collateral_ratio a = maintenance_collateral_ratio b \<and>
     maximum_short_squeeze_ratio a = maximum_short_squeeze_ratio b"

definition asset_publish_feeds_do_apply ::
  "fc_lib \<Rightarrow> asset_publish_feed_operation \<Rightarrow> unit \<Rightarrow> fee_state \<Rightarrow> database \<Rightarrow> (database \<times> unit) result" where
  "asset_publish_feeds_do_apply F op e fs s =
     bind (index_get (assets s) (pf_asset_id op)) (\<lambda>a.
     bind (get_bitasset s a) (\<lambda>(b, old).
     bind (modify_bitasset b (\<lambda>x. update_median_feeds (head_block_time s)
            (x\<lparr>feeds := feed_put (publisher op) (head_block_time s, feed op) (feeds x)\<rparr>)) s) (\<lambda>s1.
     bind (index_get (bitassets s1) b) (\<lambda>new.
     if \<not> price_feed_eq (current_feed old) (current_feed new)
     then bind (check_call_orders F (pf_asset_id op) True s1) (\<lambda>(s2, called). Inr (s2, ()))
     else Inr (s1, ())))))"

definition asset_publish_feeds_evaluator :: "(asset_publish_feed_operation, unit, unit) evaluator" where
  "asset_publish_feeds_evaluator = \<lparr> fee_payer = publisher, op_fee = pf_fee, do_evaluate = asset_publish_feeds_do_evaluate,
     do_pay_fee = default_pay_fee, do_apply = asset_publish_feeds_do_apply \<rparr>"

section \<open>Settlement\<close>

record asset_global_settle_operation =
  gs_fee :: asset
  gs_issuer :: nat
  gs_asset_to_settle :: nat
  settle_price :: price

definition asset_global_settle_validate :: "asset_global_settle_operation \<Rightarrow> unit result" where
  "asset_global_settle_validate op =
     bind (fc_assert (amount (gs_fee op) \<ge> 0) ''fee.amount >= 0'') (\<lambda>_.
     fc_assert (gs_asset_to_settle op = asset_id (base (settle_price op))) ''asset_to_settle == settle_price.base.asset_id'')"

text \<open>Calls ordered by their collateralization, which compares like a price.\<close>

definition collateral_price :: "call_order_object \<Rightarrow> price" where
  "collateral_price c = \<lparr> base = get_collateral c, quote = get_debt c \<rparr>"

definition calls_by_collateral :: "database \<Rightarrow> (nat \<times> call_order_object) list" where
  "calls_by_collateral s =
     sort_by (\<lambda>x y. price_lt (collateral_price (snd x)) (collateral_price (snd y)) \<or>
       (\<not> price_lt (collateral_price (snd y)) (collateral_price (snd x)) \<and> fst x < fst y)) (rows (call_orders s))"

definition check_settle_price :: "asset_global_settle_operation \<Rightarrow> nat \<Rightarrow> database \<Rightarrow> unit result" where
  "check_settle_price op backing s =
     bind (price_min backing (gs_asset_to_settle op)) (\<lambda>lo.
     case dropWhile (\<lambda>x. price_lt (collateral_price (snd x)) lo) (calls_by_collateral s) of
       [] \<Rightarrow> Inl Unknown_Object
     | x # _ \<Rightarrow>
         bind (asset_mul (get_debt (snd x)) (settle_price op)) (\<lambda>v.
         bind (asset_le v (get_collateral (snd x))) (\<lambda>ok.
         fc_assert ok ''Cannot force settle at supplied price'')))"

definition asset_global_settle_do_evaluate ::
  "fc_lib \<Rightarrow> asset_global_settle_operation \<Rightarrow> fee_state \<Rightarrow> database \<Rightarrow> (unit \<times> fee_state) result" where
  "asset_global_settle_do_evaluate F op fs s =
     bind (index_get (assets s) (gs_asset_to_settle op)) (\<lambda>a.
     bind (fc_assert (is_market_issued a) ''is_market_issued'') (\<lambda>_.
     bind (fc_assert (can_global_settle a) ''can_global_settle'') (\<lambda>_.
     bind (fc_assert (issuer a = gs_issuer op) ''issuer'') (\<lambda>_.
     bind (index_get (asset_dyn s) (dynamic_asset_data_id a)) (\<lambda>d.
     bind (fc_assert (current_supply d > 0) ''current_supply > 0'') (\<lambda>_.
     bind (get_bitasset s a) (\<lambda>(b, bit).
     bind (check_settle_price op (short_backing_asset (bit_options bit)) s) (\<lambda>_.
     Inr ((), fs)))))))))"

definition asset_global_settle_do_apply ::
  "fc_lib \<Rightarrow> asset_global_settle_operation \<Rightarrow> unit \<Rightarrow> fee_state \<Rightarrow> database \<Rightarrow> (database \<times> unit) result" where
  "asset_global_settle_do_apply F op e fs s =
     bind (globally_settle_asset F (gs_asset_to_settle op) (settle_price op) s) (\<lambda>s'. Inr (s', ()))"

definition asset_global_settle_evaluator :: "(asset_global_settle_operation, unit, unit) evaluator" where
  "asset_global_settle_evaluator = \<lparr> fee_payer = gs_issuer, op_fee = gs_fee, do_evaluate = asset_global_settle_do_evaluate,
     do_pay_fee = default_pay_fee, do_apply = asset_global_settle_do_apply \<rparr>"

record asset_settle_operation =
  as_fee :: asset
  as_account :: nat
  as_amount :: asset

definition asset_settle_validate :: "asset_settle_operation \<Rightarrow> unit result" where
  "asset_settle_validate op =
     bind (fc_assert (amount (as_fee op) \<ge> 0) ''fee.amount >= 0'') (\<lambda>_.
     fc_assert (amount (as_amount op) \<ge> 0) ''amount.amount >= 0'')"

definition asset_settle_do_evaluate ::
  "fc_lib \<Rightarrow> asset_settle_operation \<Rightarrow> fee_state \<Rightarrow> database \<Rightarrow> (unit \<times> fee_state) result" where
  "asset_settle_do_evaluate F op fs s =
     bind (index_get (assets s) (asset_id (as_amount op))) (\<lambda>a.
     bind (fc_assert (is_market_issued a) ''is_market_issued'') (\<lambda>_.
     bind (get_bitasset s a) (\<lambda>(b, bit).
     bind (fc_assert (can_force_settle a \<or> has_settlement bit) ''can_force_settle'') (\<lambda>_.
     bind (if is_prediction_market bit
           then fc_assert (has_settlement bit) ''global settlement must occur before force settling a prediction market''
           else if price_is_null (settlement_price (current_feed bit)) then Inl Insufficient_Feeds else Inr ()) (\<lambda>_.
     bind (index_get (accounts s) (as_account op)) (\<lambda>_.
     bind (asset_ge (get_balance s (as_account op) (asset_id (as_amount op))) (as_amount op)) (\<lambda>ok.
     bind (fc_assert ok ''balance'') (\<lambda>_.
     Inr ((), fs)))))))))"

text \<open>The result is the settled amount or the identifier of the settlement order.\<close>

definition settle_from_fund ::
  "fc_lib \<Rightarrow> asset_settle_operation \<Rightarrow> nat \<Rightarrow> asset_bitasset_data_object \<Rightarrow> database \<Rightarrow> (database \<times> asset) result" where
  "settle_from_fund F op b bitasset s =
     bind (asset_mul (as_amount op) (bit_settlement_price bitasset)) (\<lambda>settled.
     bind (fc_assert (amount settled \<le> settlement_fund bitasset) ''settled_amount.amount <= bitasset.settlement_fund'') (\<lambda>_.
     bind (modify_bitasset b (\<lambda>x. bind (safe_sub F (settlement_fund x) (amount settled)) (\<lambda>v. Inr (x\<lparr>settlement_fund := v\<rparr>))) s) (\<lambda>s1.
     bind (adjust_balance F (as_account op) settled s1) (\<lambda>s2.
     bind (change_supply (safe_sub F) (as_amount op) s2) (\<lambda>s3.
     Inr (s3, settled))))))"

definition settle_balance ::
  "fc_lib \<Rightarrow> asset_settle_operation \<Rightarrow> nat \<Rightarrow> asset_bitasset_data_object \<Rightarrow> database \<Rightarrow> (database \<times> (asset + nat)) result" where
  "settle_balance F op b bitasset s =
     (if has_settlement bitasset
      then bind (settle_from_fund F op b bitasset s) (\<lambda>(s1, settled). Inr (s1, Inl settled))
      else bind (table_create settlements put_settlements no_clash
                  \<lparr> fs_owner = as_account op, fs_balance = as_amount op,
                    settlement_date = head_block_time s + force_settlement_delay_sec (bit_options bitasset) \<rparr> s) (\<lambda>(s1, i).
           Inr (s1, Inr i)))"

definition asset_settle_do_apply ::
  "fc_lib \<Rightarrow> asset_settle_operation \<Rightarrow> unit \<Rightarrow> fee_state \<Rightarrow> database \<Rightarrow> (database \<times> (asset + nat)) result" where
  "asset_settle_do_apply F op e fs s =
     bind (index_get (assets s) (asset_id (as_amount op))) (\<lambda>a.
     bind (asset_neg F (as_amount op)) (\<lambda>n.
     bind (adjust_balance F (as_account op) n s) (\<lambda>s1.
     bind (get_bitasset s1 a) (\<lambda>(b, bitasset). settle_balance F op b bitasset s1))))"

definition asset_settle_evaluator :: "(asset_settle_operation, unit, asset + nat) evaluator" where
  "asset_settle_evaluator = \<lparr> fee_payer = as_account, op_fee = as_fee, do_evaluate = asset_settle_do_evaluate,
     do_pay_fee = default_pay_fee, do_apply = asset_settle_do_apply \<rparr>"

end
