(* ===== verification/Asset_Ledger.thy ===== *)
theory Asset_Ledger
  imports Asset_Evaluators
begin

text \<open>
  The asset operations and the ledger: every one conserves all assets, except for creating an asset, whose exact effect is shown. Feeds keep a positive
  collateral ratio through the median, and the loop that cancels settlements ends.
\<close>

section \<open>Supply\<close>

context fc_laws
begin

lemma change_supply_shifts:
  assumes inv: "chain_inv s" and ok: "change_supply add x s = Inr s'"
    and add: "\<And>u v w. add u v = Inr w \<Longrightarrow> w = u + k * v"
  shows "shifts (\<lambda>a. - (k * asset_in a x)) s s'"
proof -
  obtain m where a: "index_find (assets s) (asset_id x) = Some m"
    and md: "modify_asset_dyn (dynamic_asset_data_id m) (\<lambda>d.
       bind (add (current_supply d) (amount x)) (\<lambda>v. Inr (d\<lparr>current_supply := v\<rparr>))) s = Inr s'"
    using ok by (auto simp: change_supply_def ok_simps index_get_def)
  have d: "dyn_id s b = Some (dynamic_asset_data_id m) \<longleftrightarrow> asset_id x = b" for b
    using dyn_id_inj [OF inv, of "asset_id x"] a by (simp add: dyn_id_def)
  show ?thesis using modify_asset_dyn_step [OF inv md]
    by (auto simp: ok_simps d net_def asset_in_def fee_pool_in_def shifts_def dest!: add)
qed

lemma add_supply_shifts: "chain_inv s \<Longrightarrow> change_supply (safe_add F) x s = Inr s' \<Longrightarrow> shifts (\<lambda>a. - asset_in a x) s s'"
  using change_supply_shifts [of s "safe_add F" x s' 1] by (simp add: safe_Inr)

lemma sub_supply_shifts: "chain_inv s \<Longrightarrow> change_supply (safe_sub F) x s = Inr s' \<Longrightarrow> shifts (\<lambda>a. asset_in a x) s s'"
  using change_supply_shifts [of s "safe_sub F" x s' "- 1"] by (simp add: safe_Inr)

lemma adjust_neg_shifts:
  assumes "chain_inv s" "asset_neg F x = Inr n" "adjust_balance F acct n s = Inr s'"
  shows "shifts (\<lambda>a. - asset_in a x) s s'" "same_book s s'" "asset_dyn s' = asset_dyn s"
  using adjust_shifts [OF assms(1,3)] assms(2) by (auto simp: asset_neg_Inr asset_in_def intro: shifts_cong)

lemma asset_issue_shifts:
  assumes inv: "chain_inv s" and ok: "asset_issue_do_apply F op e fs s = Inr (s', r)"
  shows "shifts (\<lambda>a. 0) s s'"
proof -
  obtain s1 where s1: "adjust_balance F (issue_to_account op) (asset_to_issue op) s = Inr s1"
    and s2: "change_supply (safe_add F) (asset_to_issue op) s1 = Inr s'"
    using ok by (auto simp: asset_issue_do_apply_def ok_simps)
  note 1 = adjust_shifts(1) [OF inv s1]
  show ?thesis using shifts_trans [OF 1 add_supply_shifts [OF shifts_inv [OF 1] s2]] by simp
qed

lemma asset_reserve_shifts:
  assumes inv: "chain_inv s" and ok: "asset_reserve_do_apply F op e fs s = Inr (s', r)"
  shows "shifts (\<lambda>a. 0) s s'"
proof -
  obtain n s1 where n: "asset_neg F (amount_to_reserve op) = Inr n" and s1: "adjust_balance F (ar_payer op) n s = Inr s1"
    and s2: "change_supply (safe_sub F) (amount_to_reserve op) s1 = Inr s'"
    using ok by (auto simp: asset_reserve_do_apply_def ok_simps)
  note 1 = adjust_neg_shifts(1) [OF inv n s1]
  show ?thesis using shifts_trans [OF 1 sub_supply_shifts [OF shifts_inv [OF 1] s2]] by simp
qed

lemma asset_fund_fee_pool_shifts:
  assumes inv: "chain_inv s" and ok: "asset_fund_fee_pool_do_apply F op e fs s = Inr (s', r)"
  shows "shifts (\<lambda>a. 0) s s'"
proof -
  obtain n s1 i where n: "asset_neg F (mk_asset (af_amount op) 0) = Inr n"
    and s1: "adjust_balance F (af_from_account op) n s = Inr s1"
    and s2: "modify_asset_dyn i (\<lambda>d. bind (safe_add F (fee_pool d) (af_amount op)) (\<lambda>v. Inr (d\<lparr>fee_pool := v\<rparr>))) s1 = Inr s'"
    using ok by (auto simp: asset_fund_fee_pool_do_apply_def ok_simps)
  note 1 = adjust_neg_shifts(1) [OF inv n s1]
  have "shifts (\<lambda>a. core_in a (af_amount op)) s1 s'" using modify_asset_dyn_step [OF shifts_inv [OF 1] s2]
    by (auto simp: ok_simps safe_Inr net_def fee_pool_in_def core_in_def shifts_def)
  from shifts_trans [OF 1 this] show ?thesis by (simp add: asset_in_def core_in_def)
qed

lemma asset_claim_fees_shifts:
  assumes inv: "chain_inv s" and ok: "asset_claim_fees_do_apply F op e fs s = Inr (s', r)"
  shows "shifts (\<lambda>a. 0) s s'"
proof -
  obtain m s1 where a: "index_find (assets s) (asset_id (amount_to_claim op)) = Some m"
    and s1: "modify_asset_dyn (dynamic_asset_data_id m) (\<lambda>d.
            bind (safe_sub F (accumulated_fees d) (amount (amount_to_claim op))) (\<lambda>v. Inr (d\<lparr>accumulated_fees := v\<rparr>))) s = Inr s1"
    and s2: "adjust_balance F (cf_issuer op) (amount_to_claim op) s1 = Inr s'"
    using ok by (auto simp: asset_claim_fees_do_apply_def ok_simps index_get_def)
  have d: "dyn_id s b = Some (dynamic_asset_data_id m) \<longleftrightarrow> asset_id (amount_to_claim op) = b" for b
    using dyn_id_inj [OF inv, of "asset_id (amount_to_claim op)"] a by (simp add: dyn_id_def)
  have 1: "shifts (\<lambda>a. - asset_in a (amount_to_claim op)) s s1" using modify_asset_dyn_step [OF inv s1]
    by (auto simp: ok_simps safe_Inr d net_def asset_in_def fee_pool_in_def shifts_def)
  show ?thesis using shifts_trans [OF 1 adjust_shifts(1) [OF shifts_inv [OF 1] s2]] by simp
qed

end

section \<open>Feeds\<close>

lemma set_insert_by [simp]: "set (insert_by lt x xs) = insert x (set xs)"
  by (induction xs) auto

lemma set_sort_by [simp]: "set (sort_by lt xs) = set xs"
  by (induction xs) (auto simp: sort_by_def)

lemma length_insert_by [simp]: "length (insert_by lt x xs) = Suc (length xs)"
  by (induction xs) auto

lemma length_sort_by [simp]: "length (sort_by lt xs) = length xs"
  by (induction xs) (auto simp: sort_by_def)

lemma nth_element_in: "nth_element lt n xs = Inr x \<Longrightarrow> x \<in> set xs"
  unfolding nth_element_def by (metis Inl_Inr_False Inr_inject length_sort_by nth_mem set_sort_by)

lemma live_feeds_in: "x \<in> set (live_feeds b now) \<Longrightarrow> \<exists>k. (k, x) \<in> set (feeds b)"
  by (auto simp: live_feeds_def)

text \<open>The median of positive collateral ratios is positive.\<close>

lemma update_median_keeps:
  assumes ok: "update_median_feeds now b = Inr b'" and fs: "\<forall>(k, t, f) \<in> set (feeds b). 0 < maintenance_collateral_ratio f"
  shows "0 < maintenance_collateral_ratio (current_feed b')" "feeds b' = feeds b" "bit_options b' = bit_options b"
    "settlement_fund b' = settlement_fund b" "bit_settlement_price b' = bit_settlement_price b"
proof -
  have pos: "0 < maintenance_collateral_ratio f" if "f \<in> set (map snd (live_feeds b now))" for f
  proof -
    have "f \<in> snd ` set (live_feeds b now)" using that by simp
    then obtain x where "f = snd x" "x \<in> set (live_feeds b now)" by (rule imageE)
    then obtain t where "(t, f) \<in> set (live_feeds b now)" by (cases x) auto
    then obtain k where "(k, t, f) \<in> set (feeds b)" using live_feeds_in [of "(t, f)" b now] by auto
    then show ?thesis using fs by auto
  qed
  have med: "0 < maintenance_collateral_ratio m" if "median_feed (map snd (live_feeds b now)) = Inr m" for m
    using that pos nth_element_in by (fastforce simp: median_feed_def Let_def ok_simps)
  have one: "length xs = Suc 0 \<Longrightarrow> hd xs \<in> set xs" for xs :: "price_feed list" by (cases xs) auto
  show "0 < maintenance_collateral_ratio (current_feed b')"
    using ok med pos [OF one] by (auto simp: update_median_feeds_def Let_def ok_simps null_feed_def split: if_splits)
  show "feeds b' = feeds b" "bit_options b' = bit_options b" "settlement_fund b' = settlement_fund b"
    "bit_settlement_price b' = bit_settlement_price b"
    using ok by (auto simp: update_median_feeds_def Let_def ok_simps split: if_splits)
qed

lemma set_feed_put: "set (feed_put k v fs) \<subseteq> insert (k, v) (set fs)"
  by (induction k v fs rule: feed_put.induct) auto

lemma change_producers_in:
  "(k, t, f) \<in> set (change_producers ps fs) \<Longrightarrow> (k, t, f) \<in> set fs \<or> f = null_feed"
proof -
  let ?g = "\<lambda>p fs. if feed_of p fs = None then feed_put p (0, null_feed) fs else fs"
  have "(k, t, f) \<in> set (fold ?g qs gs) \<Longrightarrow> (k, t, f) \<in> set gs \<or> f = null_feed" for qs gs
  proof (induction qs arbitrary: gs)
    case (Cons q qs)
    then show ?case using set_feed_put [of q "(0, null_feed)" gs] by (auto split: if_splits)
  qed simp
  then show "(k, t, f) \<in> set (change_producers ps fs) \<Longrightarrow> (k, t, f) \<in> set fs \<or> f = null_feed"
    by (fastforce simp: change_producers_def)
qed

lemma modify_bitasset_shifts:
  assumes inv: "chain_inv s" and ok: "modify_bitasset b f s = Inr s'"
    and keep: "\<And>x x'. index_find (bitassets s) b = Some x \<Longrightarrow> bitasset_ok x \<Longrightarrow> f x = Inr x' \<Longrightarrow>
      bitasset_ok x' \<and> (\<forall>a. fund_in a x' = fund_in a x + d a)"
  shows "shifts d s s'"
proof -
  have "\<exists>x x' t. index_find (bitassets s) b = Some x \<and> f x = Inr x' \<and> s' = put_bitassets t s \<and>
      index_find t = (index_find (bitassets s))(b \<mapsto> x') \<and> chain_inv s' \<and>
      (\<forall>a. ledger a s' = ledger a s - fund_in a x + fund_in a x')"
    by (rule bit_tab.modify_checked [OF inv ok]) (use keep in blast)
  moreover have "bitasset_ok x" if "index_find (bitassets s) b = Some x" for x
    using inv that by (auto simp: chain_inv_def rows_ok_def)
  ultimately show ?thesis using keep by (fastforce simp: shifts_def)
qed

lemma modify_feed_shifts:
  assumes inv: "chain_inv s" and ok: "modify_bitasset b f s = Inr s'"
    and keep: "\<And>x x'. index_find (bitassets s) b = Some x \<Longrightarrow> bitasset_ok x \<Longrightarrow> f x = Inr x' \<Longrightarrow>
      bitasset_ok x' \<and> (\<forall>a. fund_in a x' = fund_in a x)"
  shows "shifts (\<lambda>a. 0) s s'"
  using modify_bitasset_shifts [OF inv ok, of "\<lambda>a. 0"] keep by simp

lemma median_step:
  assumes "bitasset_ok x" "update_median_feeds now (x\<lparr>feeds := fs\<rparr>) = Inr x'"
    "\<forall>(k, t, f) \<in> set fs. 0 < maintenance_collateral_ratio f"
  shows "bitasset_ok x' \<and> (\<forall>a. fund_in a x' = fund_in a x)"
  using assms update_median_keeps [OF assms(2)] by (auto simp: bitasset_ok_def fund_in_def has_settlement_def)

section \<open>Updating an asset\<close>

lemma get_bitasset_Inr: "get_bitasset s a = Inr (b, bt) \<longleftrightarrow> bitasset_data_id a = Some b \<and> index_find (bitassets s) b = Some bt"
  by (auto simp: get_bitasset_def ok_simps index_get_def split: option.splits)

lemma get_bitasset_frame: "bitassets s' = bitassets s \<Longrightarrow> get_bitasset s' a = get_bitasset s a"
  by (simp add: get_bitasset_def split: option.split)

lemma asset_options_validate_ok:
  "asset_options_validate o1 = Inr () \<Longrightarrow> 0 \<le> max_market_fee o1 \<and> uint (market_fee_percent o1) \<le> GRAPHENE_100_PERCENT \<and>
     0 < max_supply o1 \<and> max_supply o1 \<le> GRAPHENE_MAX_SHARE_SUPPLY"
  by (auto simp: asset_options_validate_def ok_simps)

context fc_laws
begin

lemma cancel_settlement_shrinks:
  assumes "chain_inv s" "cancel_settlement F i s = Inr s'"
  shows "length (rows (settlements s')) < length (rows (settlements s))"
proof -
  obtain j x s1 where s1: "adjust_balance F j x s = Inr s1"
    and s2: "table_remove settlements put_settlements i s1 = Inr s'"
    using assms(2) by (auto simp: cancel_settlement_def ok_simps)
  have "settlements s1 = settlements s" using adjust_shifts(2) [OF assms(1) s1] by (simp add: same_book_def)
  then show ?thesis using s2 by (auto simp: table_remove_def ok_simps index_remove_Inr index_find_def
      intro!: length_row_delete(2) index_find_Some_key [unfolded index_find_def])
qed

lemma cancel_settlements_step_Inr:
  assumes "chain_inv s" "cancel_settlements_step F m s = Inr r"
  shows "r = Finish s \<and> first_settlement m s = None \<or>
    (\<exists>s'. r = Continue s' \<and> shifts (\<lambda>a. 0) s s' \<and> length (rows (settlements s')) < length (rows (settlements s)))"
  using assms cancel_settlement_shifts [OF assms(1)] cancel_settlement_shrinks [OF assms(1)]
  by (auto simp: cancel_settlements_step_def ok_simps split: option.splits)

end

sublocale fc_laws \<subseteq> settle_lp: shrinking_loop "cancel_settlements_step F m" chain_inv "\<lambda>s. length (rows (settlements s))" for m
proof unfold_locales
  fix s s'
  assume "chain_inv s" "cancel_settlements_step F m s = Inr (Continue s')"
  from cancel_settlements_step_Inr [OF this]
  show "chain_inv s' \<and> length (rows (settlements s')) < length (rows (settlements s))" using shifts_inv by auto
qed

context fc_laws
begin

lemma cancel_settlements_ends:
  "chain_inv s \<Longrightarrow> loop_result (cancel_settlements_step F m) s
    (run_loop (Suc (length (rows (settlements s)))) (cancel_settlements_step F m) s)"
  by (rule settle_lp.run_loop_result) simp_all

lemma cancel_settlements_loop:
  assumes inv: "chain_inv s" and ok: "run_loop n (cancel_settlements_step F m) s = Inr s'"
  shows "shifts (\<lambda>a. 0) s s' \<and> first_settlement m s' = None"
proof (rule run_loop_invariant [OF ok, where I = "\<lambda>u. shifts (\<lambda>a. 0) s u"])
  fix u v assume 1: "shifts (\<lambda>a. 0) s u" and "cancel_settlements_step F m u = Inr (Continue v)"
  from cancel_settlements_step_Inr [OF shifts_inv [OF 1] this(2)]
  show "shifts (\<lambda>a. 0) s v" using shifts_trans [OF 1] by fastforce
next
  fix u x assume 1: "shifts (\<lambda>a. 0) s u" and "cancel_settlements_step F m u = Inr (Finish x)"
  from cancel_settlements_step_Inr [OF shifts_inv [OF 1] this(2)]
  show "shifts (\<lambda>a. 0) s x \<and> first_settlement m x = None" using 1 by auto
qed (use inv in simp)

lemma asset_update_conserves:
  assumes inv: "chain_inv s" and v: "asset_update_validate op = Inr ()" and ok: "asset_update_do_apply F op e fs s = Inr (s', r)"
  shows "conserves s s'"
proof -
  have "\<exists>s1. (s1 = s \<or> (\<exists>n. run_loop n (cancel_settlements_step F (au_asset_to_update op)) s = Inr s1)) \<and>
      modify_asset (au_asset_to_update op) (\<lambda>a. Inr (a\<lparr>issuer := (case new_issuer op of Some i \<Rightarrow> i | None \<Rightarrow> issuer a),
            options := au_new_options op\<rparr>)) s1 = Inr s'"
    using ok by (auto simp: asset_update_do_apply_def ok_simps split: if_splits)
  then obtain s1 where s1: "s1 = s \<or> (\<exists>n. run_loop n (cancel_settlements_step F (au_asset_to_update op)) s = Inr s1)"
    and s2: "modify_asset (au_asset_to_update op) (\<lambda>a. Inr (a\<lparr>issuer := (case new_issuer op of Some i \<Rightarrow> i | None \<Rightarrow> issuer a),
            options := au_new_options op\<rparr>)) s1 = Inr s'" by blast
  have 1: "shifts (\<lambda>a. 0) s s1" using s1 inv cancel_settlements_loop by auto
  have "asset_options_validate (au_new_options op) = Inr ()"
    using v by (auto simp: asset_update_validate_def ok_simps)
  note o = asset_options_validate_ok [OF this]
  note 2 = modify_asset_step [OF shifts_inv [OF 1] s2]
  have "chain_inv s' \<and> (\<forall>a. ledger a s' = ledger a s1) \<and> (\<exists>t. s' = put_assets t s1)"
    using 2 o by (auto simp: asset_ok_def)
  then have "conserves s1 s'" by (auto simp: conserves_def balances_nonneg_def)
  then show ?thesis using conserves_trans [OF shifts_conserves [OF 1]] by blast
qed

lemma asset_update_bitasset_shifts:
  assumes inv: "chain_inv s" and ev: "asset_update_bitasset_do_evaluate F op fs s0 = Inr (e, fs')" and fr: "fee_frame s0 s"
    and ok: "asset_update_bitasset_do_apply F op e fs s = Inr (s', r)"
  shows "shifts (\<lambda>a. 0) s s'"
proof -
  obtain a b bt where a: "index_find (assets s) (ub_asset_to_update op) = Some a" and b: "get_bitasset s a = Inr (b, bt)"
    and m: "modify_bitasset b (update_bitasset_options (head_block_time s) (ub_new_options op)) s = Inr s'"
    using ok by (auto simp: asset_update_bitasset_do_apply_def ok_simps index_get_def)
  have bt: "\<not> has_settlement bt"
    using ev a b fee_frame_same [OF fr] get_bitasset_frame [of s s0 a]
    by (auto simp: asset_update_bitasset_do_evaluate_def ok_simps index_get_def)
  show ?thesis
  proof (rule modify_feed_shifts [OF inv m])
    fix x x'
    assume x: "index_find (bitassets s) b = Some x" "bitasset_ok x"
      and u: "update_bitasset_options (head_block_time s) (ub_new_options op) x = Inr x'"
    have "x = bt" using x(1) b by (simp add: get_bitasset_Inr)
    then have z: "settlement_fund x = 0" "\<not> has_settlement x" using x(2) bt by (auto simp: bitasset_ok_def)
    then have ok': "bitasset_ok (x\<lparr>bit_options := ub_new_options op\<rparr>)" using x(2)
      by (auto simp: bitasset_ok_def)
    show "bitasset_ok x' \<and> (\<forall>a. fund_in a x' = fund_in a x)"
    proof (cases "minimum_feeds (ub_new_options op) = minimum_feeds (bit_options x)")
      case True
      then show ?thesis using u ok' z by (auto simp: update_bitasset_options_def fund_in_def)
    next
      case False
      then have "update_median_feeds (head_block_time s) (x\<lparr>bit_options := ub_new_options op, feeds := feeds x\<rparr>) = Inr x'"
        using u by (simp add: update_bitasset_options_def Let_def)
      from median_step [OF ok' this] ok' z show ?thesis by (auto simp: bitasset_ok_def fund_in_def)
    qed
  qed
qed

end

section \<open>Price feeds and settlement\<close>

lemma publish_validate_ok: "asset_publish_feed_validate op = Inr () \<Longrightarrow> 0 < maintenance_collateral_ratio (feed op)"
  by (auto simp: asset_publish_feed_validate_def Let_def ok_simps price_feed_validate_def GRAPHENE_MIN_COLLATERAL_RATIO_def
      word_less_def)

text \<open>The settlement price of a globally settled asset is between the asset and its backing asset.\<close>

definition asset_settle_valid :: "asset_settle_operation \<Rightarrow> database \<Rightarrow> bool" where
  "asset_settle_valid op s \<longleftrightarrow>
     (case index_find (assets s) (asset_id (as_amount op)) of
        None \<Rightarrow> True
      | Some a \<Rightarrow>
          (case get_bitasset s a of
             Inl e \<Rightarrow> True
           | Inr (b, x) \<Rightarrow> has_settlement x \<longrightarrow> asset_id (base (bit_settlement_price x)) = asset_id (as_amount op) \<and>
               asset_id (quote (bit_settlement_price x)) = short_backing_asset (bit_options x)))"

context fc_laws
begin

lemma feed_update_shifts:
  assumes inv: "chain_inv s" and ok: "modify_bitasset b (\<lambda>x. update_median_feeds now (x\<lparr>feeds := g (feeds x)\<rparr>)) s = Inr s'"
    and g: "\<And>fs. \<forall>(k, t, f) \<in> set fs. 0 < maintenance_collateral_ratio f \<Longrightarrow> \<forall>(k, t, f) \<in> set (g fs). 0 < maintenance_collateral_ratio f"
  shows "shifts (\<lambda>a. 0) s s'"
proof (rule modify_feed_shifts [OF inv ok])
  fix x x' assume x: "bitasset_ok x" and u: "update_median_feeds now (x\<lparr>feeds := g (feeds x)\<rparr>) = Inr x'"
  show "bitasset_ok x' \<and> (\<forall>a. fund_in a x' = fund_in a x)"
    by (rule median_step [OF x u g]) (use x in \<open>simp add: bitasset_ok_def\<close>)
qed

lemma asset_update_feed_producers_shifts:
  assumes inv: "chain_inv s" and ok: "asset_update_feed_producers_do_apply F op e fs s = Inr (s', r)"
  shows "shifts (\<lambda>a. 0) s s'"
proof -
  obtain b s1 called where s1: "modify_bitasset b (\<lambda>x. update_median_feeds (head_block_time s)
            (x\<lparr>feeds := change_producers (new_feed_producers op) (feeds x)\<rparr>)) s = Inr s1"
    and s2: "check_call_orders F (fp_asset_to_update op) True s1 = Inr (s', called)"
    using ok by (auto simp: asset_update_feed_producers_do_apply_def ok_simps)
  have 1: "shifts (\<lambda>a. 0) s s1"
    by (rule feed_update_shifts [OF inv s1]) (auto dest!: change_producers_in simp: null_feed_def)
  show ?thesis using shifts_trans [OF 1 check_call_orders_shifts(1) [OF shifts_inv [OF 1] s2]] by simp
qed

lemma asset_publish_feeds_shifts:
  assumes inv: "chain_inv s" and v: "asset_publish_feed_validate op = Inr ()"
    and ok: "asset_publish_feeds_do_apply F op e fs s = Inr (s', r)"
  shows "shifts (\<lambda>a. 0) s s'"
proof -
  have "\<exists>b s1. modify_bitasset b (\<lambda>x. update_median_feeds (head_block_time s)
            (x\<lparr>feeds := feed_put (publisher op) (head_block_time s, feed op) (feeds x)\<rparr>)) s = Inr s1 \<and>
      (s' = s1 \<or> (\<exists>called. check_call_orders F (pf_asset_id op) True s1 = Inr (s', called)))"
    using ok by (auto simp: asset_publish_feeds_do_apply_def ok_simps split: if_splits)
  then obtain b s1 where s1: "modify_bitasset b (\<lambda>x. update_median_feeds (head_block_time s)
            (x\<lparr>feeds := feed_put (publisher op) (head_block_time s, feed op) (feeds x)\<rparr>)) s = Inr s1"
    and s2: "s' = s1 \<or> (\<exists>called. check_call_orders F (pf_asset_id op) True s1 = Inr (s', called))" by blast
  have 1: "shifts (\<lambda>a. 0) s s1"
    by (rule feed_update_shifts [OF inv s1]) (use set_feed_put publish_validate_ok [OF v] in fastforce)
  show ?thesis using s2 1 shifts_trans [OF 1 check_call_orders_shifts(1) [OF shifts_inv [OF 1]]] by auto
qed

lemma asset_global_settle_shifts:
  "chain_inv s \<Longrightarrow> asset_global_settle_do_apply F op e fs s = Inr (s', r) \<Longrightarrow> shifts (\<lambda>a. 0) s s'"
  using globally_settle_shifts(1) by (auto simp: asset_global_settle_do_apply_def ok_simps)

lemma settle_from_fund_shifts:
  assumes inv: "chain_inv s" and ok: "settle_from_fund F op b bt s = Inr (s', settled)"
    and bt: "index_find (bitassets s) b = Some bt" "has_settlement bt"
    and p: "asset_id (base (bit_settlement_price bt)) = asset_id (as_amount op)"
      "asset_id (quote (bit_settlement_price bt)) = short_backing_asset (bit_options bt)"
  shows "shifts (\<lambda>a. asset_in a (as_amount op)) s s'"
    "asset_id settled = short_backing_asset (bit_options bt)" "0 \<le> amount settled" "amount settled \<le> settlement_fund bt"
proof -
  obtain s1 s2 where v: "asset_mul (as_amount op) (bit_settlement_price bt) = Inr settled"
    and le: "amount settled \<le> settlement_fund bt"
    and s1: "modify_bitasset b (\<lambda>x. bind (safe_sub F (settlement_fund x) (amount settled)) (\<lambda>v. Inr (x\<lparr>settlement_fund := v\<rparr>))) s = Inr s1"
    and s2: "adjust_balance F (as_account op) settled s1 = Inr s2" and s3: "change_supply (safe_sub F) (as_amount op) s2 = Inr s'"
    using ok by (auto simp: settle_from_fund_def ok_simps)
  have id: "asset_id settled = short_backing_asset (bit_options bt)"
    using v p by (auto simp: asset_mul_def scale_def Let_def ok_simps split: if_splits)
  show "asset_id settled = short_backing_asset (bit_options bt)" "0 \<le> amount settled" "amount settled \<le> settlement_fund bt"
    using id asset_mul_range [OF v] le by auto
  have 1: "shifts (\<lambda>a. - asset_in a settled) s s1"
    by (rule modify_bitasset_shifts [OF inv s1])
      (use bt id in \<open>auto simp: ok_simps safe_Inr bitasset_ok_def has_settlement_def fund_in_def asset_in_def\<close>)
  note 2 = adjust_shifts(1) [OF shifts_inv [OF 1] s2]
  note 3 = sub_supply_shifts [OF shifts_inv [OF 2] s3]
  have 12: "shifts (\<lambda>a. 0) s s2" using shifts_trans [OF 1 2] by simp
  show "shifts (\<lambda>a. asset_in a (as_amount op)) s s'" using shifts_trans [OF 12 3] by simp
qed

lemma asset_settle_shifts:
  assumes inv: "chain_inv s" and v: "asset_settle_valid op s" and ok: "asset_settle_do_apply F op e fs s = Inr (s', r)"
  shows "shifts (\<lambda>a. 0) s s'"
proof -
  obtain a n s1 b bt where a: "index_find (assets s) (asset_id (as_amount op)) = Some a"
    and n: "asset_neg F (as_amount op) = Inr n" and s1: "adjust_balance F (as_account op) n s = Inr s1"
    and b: "get_bitasset s1 a = Inr (b, bt)"
    and c: "settle_balance F op b bt s1 = Inr (s', r)"
    using ok by (auto simp: asset_settle_do_apply_def ok_simps index_get_def)
  note 1 = adjust_neg_shifts [OF inv n s1]
  have b0: "get_bitasset s a = Inr (b, bt)" using b 1(2) get_bitasset_frame [of s1 s a] by (simp add: same_book_def)
  have "shifts (\<lambda>a. asset_in a (as_amount op)) s1 s'"
  proof (cases "has_settlement bt")
    case True
    then obtain settled where f: "settle_from_fund F op b bt s1 = Inr (s', settled)" using c by (auto simp: settle_balance_def ok_simps)
    have p: "asset_id (base (bit_settlement_price bt)) = asset_id (as_amount op)"
      "asset_id (quote (bit_settlement_price bt)) = short_backing_asset (bit_options bt)"
      using v a b0 True by (auto simp: asset_settle_valid_def)
    show ?thesis using settle_from_fund_shifts(1) [OF shifts_inv [OF 1(1)] f _ True p] b by (simp add: get_bitasset_Inr)
  next
    case False
    then obtain i where "table_create settlements put_settlements no_clash
                 \<lparr> fs_owner = as_account op, fs_balance = as_amount op,
                   settlement_date = head_block_time s1 + force_settlement_delay_sec (bit_options bt) \<rparr> s1 = Inr (s', i)"
      using c by (auto simp: settle_balance_def ok_simps)
    from settle_tab.create_step [OF shifts_inv [OF 1(1)] this] show ?thesis
      by (auto simp: shifts_def settlement_in_def balances_nonneg_def)
  qed
  from shifts_trans [OF 1(1) this] show ?thesis by simp
qed

end

section \<open>The evaluators keep their contract\<close>

interpretation issue_ev: conserving_evaluator asset_issue_evaluator "\<lambda>op s. True"
  by unfold_locales (auto simp: asset_issue_evaluator_def asset_issue_do_evaluate_def ok_simps
    intro: shifts_conserves dest: fc_laws.asset_issue_shifts)

interpretation reserve_ev: conserving_evaluator asset_reserve_evaluator "\<lambda>op s. True"
  by unfold_locales (auto simp: asset_reserve_evaluator_def asset_reserve_do_evaluate_def ok_simps
    intro: shifts_conserves dest: fc_laws.asset_reserve_shifts)

interpretation fund_ev: conserving_evaluator asset_fund_fee_pool_evaluator "\<lambda>op s. True"
  by unfold_locales (auto simp: asset_fund_fee_pool_evaluator_def asset_fund_fee_pool_do_evaluate_def ok_simps
    intro: shifts_conserves dest: fc_laws.asset_fund_fee_pool_shifts)

interpretation claim_fees_ev: conserving_evaluator asset_claim_fees_evaluator "\<lambda>op s. True"
  by unfold_locales (auto simp: asset_claim_fees_evaluator_def asset_claim_fees_do_evaluate_def ok_simps
    intro: shifts_conserves dest: fc_laws.asset_claim_fees_shifts)

interpretation update_ev: conserving_evaluator asset_update_evaluator "\<lambda>op s. asset_update_validate op = Inr ()"
  by unfold_locales (auto simp: asset_update_evaluator_def asset_update_do_evaluate_def Let_def ok_simps
    dest: fc_laws.asset_update_conserves)

interpretation update_bitasset_ev: conserving_evaluator asset_update_bitasset_evaluator "\<lambda>op s. True"
proof unfold_locales
  fix F op fs s s0 s' e r
  assume F: "fc_laws F" "chain_inv s" and fr: "fee_frame s0 s"
    and e: "do_evaluate asset_update_bitasset_evaluator F op fs s0 = Inr (e, fs)"
    and a: "do_apply asset_update_bitasset_evaluator F op e fs s = Inr (s', r)"
  show "conserves s s'" using fc_laws.asset_update_bitasset_shifts [OF F _ fr] e a
    by (auto simp: asset_update_bitasset_evaluator_def intro: shifts_conserves)
qed (auto simp: asset_update_bitasset_evaluator_def asset_update_bitasset_do_evaluate_def ok_simps)

interpretation producers_ev: conserving_evaluator asset_update_feed_producers_evaluator "\<lambda>op s. True"
  by unfold_locales (auto simp: asset_update_feed_producers_evaluator_def asset_update_feed_producers_do_evaluate_def ok_simps
    intro: shifts_conserves dest: fc_laws.asset_update_feed_producers_shifts)

interpretation publish_ev: conserving_evaluator asset_publish_feeds_evaluator "\<lambda>op s. asset_publish_feed_validate op = Inr ()"
  by unfold_locales (auto simp: asset_publish_feeds_evaluator_def asset_publish_feeds_do_evaluate_def Let_def ok_simps
    intro: shifts_conserves dest: fc_laws.asset_publish_feeds_shifts)

interpretation global_settle_ev: conserving_evaluator asset_global_settle_evaluator "\<lambda>op s. True"
  by unfold_locales (auto simp: asset_global_settle_evaluator_def asset_global_settle_do_evaluate_def ok_simps
    intro: shifts_conserves dest: fc_laws.asset_global_settle_shifts)

interpretation settle_ev: conserving_evaluator asset_settle_evaluator asset_settle_valid
proof unfold_locales
  fix F op fs s s0 s' e r
  assume F: "fc_laws F" "chain_inv s" and v: "asset_settle_valid op s0" and fr: "fee_frame s0 s"
    and a: "do_apply asset_settle_evaluator F op e fs s = Inr (s', r)"
  have "asset_settle_valid op s" using v fee_frame_same [OF fr] get_bitasset_frame [of s s0]
    by (auto simp: asset_settle_valid_def split: option.splits)
  then show "conserves s s'" using fc_laws.asset_settle_shifts [OF F] a
    by (auto simp: asset_settle_evaluator_def intro: shifts_conserves)
qed (auto simp: asset_settle_evaluator_def asset_settle_do_evaluate_def ok_simps)

section \<open>Creating an asset\<close>

lemma dyn_row_exists: "chain_inv s \<Longrightarrow> dyn_id s a = Some i \<Longrightarrow> index_find (asset_dyn s) i \<noteq> None"
  unfolding chain_inv_def by blast

lemma create_asset_dyn_step:
  assumes "chain_inv s" "table_create asset_dyn put_asset_dyn no_clash x s = Inr (s', k)"
  shows "\<exists>t. s' = put_asset_dyn t s \<and> index_find t = (index_find (asset_dyn s))(k \<mapsto> x) \<and> chain_inv s' \<and>
    (\<forall>a. dyn_id s a \<noteq> Some k) \<and> (\<forall>a. ledger a s' = ledger a s + fee_pool_in a x)"
proof -
  have inv: "index_inv (asset_dyn s)" using assms(1) by (simp add: chain_inv_def)
  obtain t where t: "index_create no_clash (asset_dyn s) x = Inr (t, k)" "s' = put_asset_dyn t s"
    using assms(2) by (auto simp: table_create_def ok_simps)
  note law = tbl.make_inv [OF inv t(1)] tbl.make_fresh [OF inv t(1)] tbl.make_find [OF inv t(1)] tbl.make_sum [OF inv t(1)]
  have d: "dyn_id s a \<noteq> Some k" for a using dyn_row_exists [OF assms(1)] law(2) by blast
  have "chain_inv s'" using assms(1) t(2) law(1,3) by (auto simp: chain_inv_def)
  moreover have "net_of s' = net_of s" using t(2) law(3) d
    by (auto simp: fun_eq_iff net_of_def dyn_of_def split: option.splits bind_splits)
  ultimately show ?thesis using t(2) law d by (auto simp: ledger_def)
qed

lemma create_asset_step:
  assumes inv: "chain_inv s" and ok: "table_create assets put_assets same_symbol x s = Inr (s', k)"
    and x: "asset_ok x" "lock_data_id x = None" "\<And>a. dyn_id s a \<noteq> Some (dynamic_asset_data_id x)"
    and d: "index_find (asset_dyn s) (dynamic_asset_data_id x) = Some d" "net d = 0"
  shows "\<exists>t. s' = put_assets t s \<and> index_find (assets s) k = None \<and> index_find t = (index_find (assets s))(k \<mapsto> x) \<and>
    chain_inv s' \<and> (\<forall>a. ledger a s' = ledger a s)"
proof -
  have i: "index_inv (assets s)" using inv by (simp add: chain_inv_def)
  obtain t where t: "index_create same_symbol (assets s) x = Inr (t, k)" "s' = put_assets t s"
    using ok by (auto simp: table_create_def ok_simps)
  note law = tbl.make_inv [OF i t(1)] tbl.make_fresh [OF i t(1)] tbl.make_find [OF i t(1)]
  have dy: "dyn_id s' a = (if a = k then Some (dynamic_asset_data_id x) else dyn_id s a)" for a
    using law(3) t(2) by (simp add: dyn_id_def)
  have lo: "lock_id s' a = (if a = k then None else lock_id s a)" for a
    using law(3) t(2) x(2) by (simp add: lock_id_def)
  have k: "dyn_id s k = None" using law(2) by (simp add: dyn_id_def)
  have "rows_ok asset_ok t" using inv law(3) x(1) by (auto simp: chain_inv_def rows_ok_def)
  moreover have "dyn_id s' a = Some i \<and> dyn_id s' b = Some i \<longrightarrow> a = b" for a b i
    using dyn_id_inj [OF inv, of a i b] x(3) by (auto simp: dy)
  moreover have "dyn_id s' a = Some i \<longrightarrow> index_find (asset_dyn s) i \<noteq> None" for a i
    using dyn_row_exists [OF inv] d(1) by (auto simp: dy)
  moreover have "dyn_id s 0 = Some 0" using inv unfolding chain_inv_def by blast
  then have "dyn_id s' 0 = Some 0" using k by (auto simp: dy)
  moreover have "lock_id s a = Some l \<longrightarrow> lock_asset s l = Some a" for a l using inv unfolding chain_inv_def by blast
  then have "lock_id s' a = Some l \<longrightarrow> lock_asset s l = Some a" for a l by (simp add: lo)
  ultimately have "chain_inv s'" using inv t(2) law(1) by (simp add: chain_inv_def)
  moreover have ad: "asset_dyn s' = asset_dyn s" using t(2) by simp
  have "net_of s' a = net_of s a" for a using d k by (auto simp: net_of_def dyn_of_def dy ad)
  then have "ledger a s' = ledger a s" for a using t(2) by (simp add: ledger_def)
  ultimately show ?thesis using law(2,3) t(2) by auto
qed

lemma new_bitasset_ok: "bitasset_ok (new_bitasset b pm)" "fund_in a (new_bitasset b pm) = 0"
  by (simp_all add: bitasset_ok_def new_bitasset_def fund_in_def null_feed_def)

lemma create_bitasset_data_step:
  assumes "chain_inv s" "create_bitasset_data op s = Inr (s', i)"
  shows "\<exists>t. s' = put_bitassets t s \<and> chain_inv s' \<and> (\<forall>a. ledger a s' = ledger a s)"
proof (cases "bitasset_opts op")
  case None
  then show ?thesis using assms by (auto simp: create_bitasset_data_def intro: exI [of _ "bitassets s"])
next
  case (Some b)
  then obtain j where "table_create bitassets put_bitassets no_clash (new_bitasset b (ac_is_prediction_market op)) s = Inr (s', j)"
    using assms(2) by (auto simp: create_bitasset_data_def ok_simps)
  from bit_tab.create_checked [OF assms(1) this new_bitasset_ok(1)] show ?thesis by (auto simp: new_bitasset_ok(2))
qed

lemma asset_create_apply_step:
  assumes inv: "chain_inv s" and v: "asset_create_validate op = Inr ()"
    and ok: "asset_create_do_apply F op e fs s = Inr (s', i)"
  shows "chain_inv s' \<and> (\<forall>a. ledger a s' = ledger a s + core_in a (core_fee_paid fs)) \<and>
    (balances_nonneg s \<longrightarrow> balances_nonneg s') \<and> index_find (assets s) i = None \<and>
    (\<exists>m d. index_find (assets s') i = Some m \<and> symbol m = ac_symbol op \<and> issuer m = ac_issuer op \<and>
      index_find (asset_dyn s') (dynamic_asset_data_id m) = Some d \<and> current_supply d = 0 \<and> fee_pool d = core_fee_paid fs)"
proof -
  obtain s1 dyn s2 bid where s1: "table_create asset_dyn put_asset_dyn no_clash (new_dyn_data (core_fee_paid fs)) s = Inr (s1, dyn)"
    and s2: "create_bitasset_data op s1 = Inr (s2, bid)"
    and s3: "table_create assets put_assets same_symbol
       \<lparr> symbol = ac_symbol op, precision = ac_precision op, issuer = ac_issuer op,
         options = new_asset_options (next_id (assets s2)) (common_options op), dynamic_asset_data_id = dyn,
         lock_data_id = None, bitasset_data_id = bid, buyback_account = None \<rparr> s2 = Inr (s', i)" (is "table_create _ _ _ ?x s2 = _")
    using ok by (auto simp: asset_create_do_apply_def ok_simps)
  obtain t1 where 1: "s1 = put_asset_dyn t1 s" "index_find t1 = (index_find (asset_dyn s))(dyn \<mapsto> new_dyn_data (core_fee_paid fs))"
    "chain_inv s1" "\<And>a. dyn_id s a \<noteq> Some dyn" "\<And>a. ledger a s1 = ledger a s + core_in a (core_fee_paid fs)"
    using create_asset_dyn_step [OF inv s1] by (auto simp: fee_pool_in_def new_dyn_data_def)
  obtain t2 where 2: "s2 = put_bitassets t2 s1" "chain_inv s2" "\<And>a. ledger a s2 = ledger a s1"
    using create_bitasset_data_step [OF 1(3) s2] by blast
  have "asset_options_validate (common_options op) = Inr ()" using v by (auto simp: asset_create_validate_def ok_simps)
  from asset_options_validate_ok [OF this] have aok: "asset_ok ?x"
    by (simp add: asset_ok_def new_asset_options_def Let_def)
  have d: "index_find (asset_dyn s2) (dynamic_asset_data_id ?x) = Some (new_dyn_data (core_fee_paid fs))" using 1(1,2) 2(1) by simp
  have "\<exists>t. s' = put_assets t s2 \<and> index_find (assets s2) i = None \<and> index_find t = (index_find (assets s2))(i \<mapsto> ?x) \<and>
    chain_inv s' \<and> (\<forall>a. ledger a s' = ledger a s2)"
    by (rule create_asset_step [OF 2(2) s3 aok _ _ d]) (use 1(1,4) 2(1) in \<open>simp_all add: net_def new_dyn_data_def\<close>)
  then show ?thesis using 1 2 d by (auto simp: balances_nonneg_def new_dyn_data_def)
qed

section \<open>Properties\<close>

lemma asset_create_evaluate_fee:
  assumes "fc_laws F" "0 \<le> core_fee_paid fs" "asset_create_do_evaluate F op fs s = Inr (e, fs')"
  shows "fs' = fs\<lparr>core_fee_paid := core_fee_paid fs - core_fee_paid fs div 2\<rparr>"
  using assms(2,3) by (auto simp: asset_create_do_evaluate_def ok_simps fc_laws.safe_Inr [OF assms(1)] int_quot_def sgn_if)

lemma asset_create_effect:
  assumes F: "fc_laws F" and inv: "chain_inv s" and v: "asset_create_validate op = Inr ()"
    and ok: "start_evaluate F asset_create_evaluator False skip_check required op s = Inr (s', i)"
  shows "\<exists>fs. prepare_fee (ac_issuer op) (ac_fee op) s = Inr fs \<and> chain_inv s' \<and> (balances_nonneg s \<longrightarrow> balances_nonneg s') \<and>
    (\<forall>a. ledger a s' = ledger a s + core_in a (if asset_id (ac_fee op) = 0 then core_fee_paid fs mod 2
       else core_fee_paid fs - core_fee_paid fs div 2)) \<and>
    index_find (assets s) i = None \<and>
    (\<exists>m d. index_find (assets s') i = Some m \<and> symbol m = ac_symbol op \<and> issuer m = ac_issuer op \<and>
       index_find (asset_dyn s') (dynamic_asset_data_id m) = Some d \<and> current_supply d = 0)"
proof -
  obtain e fs0 fs where fs0: "prepare_fee (ac_issuer op) (ac_fee op) s = Inr fs0"
    and e: "asset_create_do_evaluate F op fs0 s = Inr (e, fs)" and a: "apply_op F asset_create_evaluator False op e fs s = Inr (s', i)"
    using ok by (auto simp: start_evaluate_def evaluate_def ok_simps asset_create_evaluator_def split: if_splits)
  note ready = prepare_fee_ready [OF fs0]
  have fs: "fs = fs0\<lparr>core_fee_paid := core_fee_paid fs0 - core_fee_paid fs0 div 2\<rparr>"
    using asset_create_evaluate_fee [OF F _ e] ready by (simp add: fee_ready_def)
  obtain s1 s2 s3 d where s1: "convert_fee F False fs s = Inr s1" and s2: "pay_fee F False fs s1 = Inr s2"
    and s3: "asset_create_do_apply F op e fs s2 = Inr (s3, i)" and d: "asset_neg F (ac_fee op) = Inr d"
    and s': "adjust_balance F (ac_issuer op) d s3 = Inr s'"
    using a fs ready by (auto simp: apply_op_def ok_simps asset_create_evaluator_def default_pay_fee_def)
  have c: "chain_inv s1 \<and> (\<exists>t. s1 = put_asset_dyn t s) \<and> (\<forall>a. ledger a s1 = ledger a s + (if asset_id (ac_fee op) \<noteq> 0
       then asset_in a (ac_fee op) - core_in a (core_fee_paid fs) else 0))"
  proof (cases "asset_id (ac_fee op) = 0")
    case True
    then have "s1 = s" using s1 fs ready by (simp add: convert_fee_def)
    then show ?thesis using inv True by (auto intro: exI [of _ "asset_dyn s"])
  next
    case False
    then have "fee_ready fs s" using ready fs by (auto simp: fee_ready_def)
    from fc_laws.convert_fee_step [OF F inv this s1] show ?thesis using False fs ready by auto
  qed
  note p = fc_laws.pay_fee_step [OF F conjunct1 [OF c] s2]
  have "chain_inv s2" using p by blast
  note k = asset_create_apply_step [OF this v s3]
  note b = fc_laws.adjust_balance_step [OF F conjunct1 [OF k] s']
  have d': "d = mk_asset (- amount (ac_fee op)) (asset_id (ac_fee op))" using d by (simp add: fc_laws.asset_neg_Inr [OF F])
  have "ledger a s' = ledger a s + core_in a (if asset_id (ac_fee op) = 0 then core_fee_paid fs0 mod 2
       else core_fee_paid fs0 - core_fee_paid fs0 div 2)" for a
  proof -
    have "ledger a s' = ledger a s1 + 2 * core_in a (core_fee_paid fs) + asset_in a d" using b k p by (auto simp: core_in_def)
    then show ?thesis using c ready d' fs by (auto simp: asset_in_def core_in_def fee_ready_def) presburger
  qed
  moreover have "assets s2 = assets s" "balances_nonneg s2 = balances_nonneg s" using c p by (auto simp: balances_nonneg_def)
  ultimately show ?thesis using fs0 b k by auto
qed

text \<open>
  C39. Creating an asset halves the fee after its size was checked, records the half as paid and puts the same half into the fee pool
  of the new asset, while the payer loses the whole fee. A fee in core therefore creates one unit of core when it is odd, and a
  fee in another asset, whose pool pays only the half, creates the whole half. Every other asset is conserved, and the new asset
  has a fresh identifier, no supply and the symbol and issuer of the operation.
\<close>

theorem asset_create_ledger:
  assumes F: "fc_laws F" and inv: "chain_inv s" and v: "asset_create_validate op = Inr ()"
    and ok: "start_evaluate F asset_create_evaluator False skip_check required op s = Inr (s', i)"
  shows "\<exists>fs. prepare_fee (ac_issuer op) (ac_fee op) s = Inr fs \<and> chain_inv s' \<and>
    (\<forall>a. ledger a s' = ledger a s + core_in a (if asset_id (ac_fee op) = 0 then core_fee_paid fs mod 2
       else core_fee_paid fs - core_fee_paid fs div 2)) \<and>
    index_find (assets s) i = None \<and>
    (\<exists>m d. index_find (assets s') i = Some m \<and> symbol m = ac_symbol op \<and> issuer m = ac_issuer op \<and>
       index_find (asset_dyn s') (dynamic_asset_data_id m) = Some d \<and> current_supply d = 0)"
  using asset_create_effect [OF assms] by blast

definition demo_new_asset :: asset_create_operation where
  "demo_new_asset = \<lparr> ac_fee = mk_asset 11 0, ac_issuer = 5, ac_symbol = ''SILVER'', ac_precision = 5,
     common_options = demo_options\<lparr>opt_core_exchange_rate := \<lparr> base = mk_asset 2 1, quote = mk_asset 3 0 \<rparr>\<rparr>, bitasset_opts = None,
     ac_is_prediction_market = False \<rparr>"

theorem asset_create_ledger_witness:
  "\<exists>s' i. start_evaluate fc_int64 asset_create_evaluator False False 10 demo_new_asset demo_market = Inr (s', i) \<and>
     ledger 0 s' = ledger 0 demo_market + 1"
proof -
  have v: "asset_create_validate demo_new_asset = Inr ()" by code_simp
  have "case start_evaluate fc_int64 asset_create_evaluator False False 10 demo_new_asset demo_market of Inl e \<Rightarrow> False | Inr r \<Rightarrow> True"
    by code_simp
  then obtain s' i where r: "start_evaluate fc_int64 asset_create_evaluator False False 10 demo_new_asset demo_market = Inr (s', i)"
    by (cases "start_evaluate fc_int64 asset_create_evaluator False False 10 demo_new_asset demo_market") auto
  from asset_create_ledger [OF fc64.fc_laws_axioms demo_market_inv v r]
  obtain fs where fs: "prepare_fee 5 (mk_asset 11 0) demo_market = Inr fs"
    "ledger 0 s' = ledger 0 demo_market + core_fee_paid fs mod 2"
    by (auto simp: demo_new_asset_def core_in_def)
  have "core_fee_paid fs = 11" using prepare_fee_ready [OF fs(1)] by (simp add: fee_ready_def)
  then show ?thesis using r fs(2) by auto
qed

text \<open>
  An issue that is accepted raises the supply of the asset by exactly the issued amount, which stays within the maximum
  supply, and pays that amount to the receiver and to nobody else; a market-issued asset cannot be issued this way.
\<close>

theorem asset_issue_exact:
  assumes F: "fc_laws F" and inv: "chain_inv s" and ev: "asset_issue_do_evaluate F op fs s = Inr (e, fs')"
    and ok: "asset_issue_do_apply F op e fs s = Inr (s', r)"
  shows "\<exists>a d d'. index_find (assets s) (asset_id (asset_to_issue op)) = Some a \<and> issuer a = ai_issuer op \<and> \<not> is_market_issued a \<and>
    index_find (asset_dyn s) (dynamic_asset_data_id a) = Some d \<and> index_find (asset_dyn s') (dynamic_asset_data_id a) = Some d' \<and>
    d' = d\<lparr>current_supply := current_supply d + amount (asset_to_issue op)\<rparr> \<and> current_supply d' \<le> max_supply (options a) \<and>
    (\<forall>o1 b. bal s' o1 b = bal s o1 b + (if o1 = issue_to_account op \<and> b = asset_id (asset_to_issue op)
       then amount (asset_to_issue op) else 0))"
proof -
  obtain a d v where a: "index_find (assets s) (asset_id (asset_to_issue op)) = Some a" "ai_issuer op = issuer a" "\<not> is_market_issued a"
    and d: "index_find (asset_dyn s) (dynamic_asset_data_id a) = Some d"
    and v: "safe_add F (current_supply d) (amount (asset_to_issue op)) = Inr v" "v \<le> max_supply (options a)"
    using ev by (auto simp: asset_issue_do_evaluate_def ok_simps index_get_def)
  obtain s1 where s1: "adjust_balance F (issue_to_account op) (asset_to_issue op) s = Inr s1"
    and s2: "change_supply (safe_add F) (asset_to_issue op) s1 = Inr s'"
    using ok by (auto simp: asset_issue_do_apply_def ok_simps)
  note b = fc_laws.adjust_balance_step [OF F inv s1]
  have m: "modify_asset_dyn (dynamic_asset_data_id a) (\<lambda>d.
       bind (safe_add F (current_supply d) (amount (asset_to_issue op))) (\<lambda>v. Inr (d\<lparr>current_supply := v\<rparr>))) s1 = Inr s'"
    using s2 a(1) b by (auto simp: change_supply_def ok_simps index_get_def)
  obtain t d' where t: "s' = put_asset_dyn t s1" "index_find t = (index_find (asset_dyn s1))(dynamic_asset_data_id a \<mapsto> d')"
    "d' = d\<lparr>current_supply := v\<rparr>"
    using modify_asset_dyn_step [OF _ m] b d v(1) by (auto simp: ok_simps)
  have "v = current_supply d + amount (asset_to_issue op)" using v(1) by (simp add: fc_laws.safe_Inr [OF F])
  then show ?thesis using a d t v(2) b by auto
qed

theorem asset_issue_exact_witness:
  "\<exists>s' d'. asset_issue_do_apply fc_int64 \<lparr> ai_fee = mk_asset 0 0, ai_issuer = 5, asset_to_issue = mk_asset 1000 7, issue_to_account = 6 \<rparr> ()
      \<lparr> fee_from_account = mk_asset 0 0, core_fee_paid = 0, fee_paying_account = 5, fee_paying_account_statistics = 0,
        fee_asset_dyn_data = 0 \<rparr> demo_chain = Inr (s', ()) \<and>
     index_find (asset_dyn s') 2 = Some d' \<and> current_supply d' = 2800 \<and> bal s' 6 7 = 1000"
proof -
  let ?op = "\<lparr> ai_fee = mk_asset 0 0, ai_issuer = 5, asset_to_issue = mk_asset 1000 7, issue_to_account = 6 \<rparr>"
  let ?fs = "\<lparr> fee_from_account = mk_asset 0 0, core_fee_paid = 0, fee_paying_account = 5, fee_paying_account_statistics = 0,
        fee_asset_dyn_data = 0 \<rparr>"
  have "case asset_issue_do_evaluate fc_int64 ?op ?fs demo_chain of Inl e \<Rightarrow> False | Inr r \<Rightarrow> True" by code_simp
  then obtain e fs' where e: "asset_issue_do_evaluate fc_int64 ?op ?fs demo_chain = Inr (e, fs')"
    by (cases "asset_issue_do_evaluate fc_int64 ?op ?fs demo_chain") auto
  have "case asset_issue_do_apply fc_int64 ?op e ?fs demo_chain of Inl e \<Rightarrow> False | Inr r \<Rightarrow> True" by (cases e, simp only:) code_simp
  then obtain s' where r: "asset_issue_do_apply fc_int64 ?op e ?fs demo_chain = Inr (s', ())"
    by (cases "asset_issue_do_apply fc_int64 ?op e ?fs demo_chain") auto
  have "bal demo_chain 6 7 = 0" by (simp add: bal_row balance_row_def find_row_def demo_chain_def demo_balance_def)
  then show ?thesis using asset_issue_exact [OF fc64.fc_laws_axioms demo_chain_inv e r] r
    by (auto simp: demo_defs index_find_def)
qed

text \<open>
  A symbol is valid exactly when it has three to sixteen characters, all of them upper case letters, digits or dots, at most one dot,
  begins and ends with a letter and does not begin with BIT: the scan of the source against its declarative meaning.
\<close>

lemma symbol_loop_iff:
  "symbol_loop dot s \<longleftrightarrow> (\<forall>c \<in> set s. is_upper c \<or> is_digit c \<or> c = CHR ''.'') \<and>
     count_list s (CHR ''.'') \<le> (if dot then 0 else 1)"
proof (induction dot s rule: symbol_loop.induct)
  case (2 dot c cs)
  have "c = CHR ''.'' \<Longrightarrow> \<not> is_upper c \<and> \<not> is_digit c" by (auto simp: is_upper_def is_digit_def)
  then show ?case using 2 by (auto simp: is_alpha_def)
qed simp

theorem is_valid_symbol_iff:
  "is_valid_symbol s \<longleftrightarrow> 3 \<le> length s \<and> length s \<le> 16 \<and> take 3 s \<noteq> ''BIT'' \<and> is_upper (hd s) \<and> is_upper (last s) \<and>
     set s \<subseteq> {c. is_upper c \<or> is_digit c \<or> c = CHR ''.''} \<and> count_list s (CHR ''.'') \<le> 1"
proof -
  have u: "is_alpha c \<longleftrightarrow> is_upper c" if "is_upper c \<or> is_digit c \<or> c = CHR ''.''" for c
    using that by (auto simp: is_alpha_def is_lower_def is_upper_def is_digit_def)
  have "is_alpha (hd s) \<longleftrightarrow> is_upper (hd s)" "is_alpha (last s) \<longleftrightarrow> is_upper (last s)"
    if "symbol_loop False s" "3 \<le> length s"
  proof -
    have "s \<noteq> []" using that(2) by auto
    then show "is_alpha (hd s) \<longleftrightarrow> is_upper (hd s)" "is_alpha (last s) \<longleftrightarrow> is_upper (last s)"
      using that(1) u hd_in_set last_in_set unfolding symbol_loop_iff by blast+
  qed
  then show ?thesis by (auto simp: is_valid_symbol_def symbol_loop_iff is_alpha_def)
qed

section \<open>Feed producers\<close>

lemma feed_of_put [simp]: "feed_of k (feed_put j v fs) = (if k = j then Some v else feed_of k fs)"
  if "sorted_wrt (<) (map fst fs)"
  using that
proof (induction j v fs rule: feed_put.induct)
  case (2 j v k' v' fs)
  then show ?case by (auto simp: feed_of_def dest: map_of_SomeD)
qed (simp add: feed_of_def)

lemma feed_put_keys: "fst ` set (feed_put j v fs) = insert j (fst ` set fs)"
  by (induction j v fs rule: feed_put.induct) auto

lemma feed_put_sorted: "sorted_wrt (<) (map fst fs) \<Longrightarrow> sorted_wrt (<) (map fst (feed_put j v fs))"
proof (induction j v fs rule: feed_put.induct)
  case (2 j v k' v' fs)
  then show ?case using feed_put_keys [of j v fs] by auto
qed simp

text \<open>Giving the listed accounts an empty feed where they have none.\<close>

lemma add_producers:
  fixes ps :: "nat list" and fs :: "(nat \<times> time_point_sec \<times> price_feed) list"
  assumes "sorted_wrt (<) (map fst fs)"
  defines "gs \<equiv> fold (\<lambda>p fs. if feed_of p fs = None then feed_put p (0, null_feed) fs else fs) ps fs"
  shows "sorted_wrt (<) (map fst gs) \<and> (\<forall>k. feed_of k gs = (case feed_of k fs of Some v \<Rightarrow> Some v
    | None \<Rightarrow> if k \<in> set ps then Some (0, null_feed) else None))"
  using assms(1) unfolding gs_def
proof (induction ps arbitrary: fs)
  case Nil
  then show ?case by (simp split: option.split)
next
  case (Cons p ps)
  let ?f = "if feed_of p fs = None then feed_put p (0, null_feed) fs else fs"
  have s: "sorted_wrt (<) (map fst ?f)" using Cons.prems feed_put_sorted by simp
  show ?case using Cons.IH [OF s] Cons.prems by (auto split: option.splits)
qed

text \<open>
  Changing the feed producers of an asset leaves exactly the listed accounts: a producer that was there keeps the feed it published,
  a new one gets an empty feed from the epoch, and the feeds stay sorted by account.
\<close>

theorem change_producers_exact:
  assumes "sorted_wrt (<) (map fst fs)"
  shows "sorted_wrt (<) (map fst (change_producers ps fs)) \<and> (\<forall>k. feed_of k (change_producers ps fs) =
      (if k \<notin> set ps then None else case feed_of k fs of Some v \<Rightarrow> Some v | None \<Rightarrow> Some (0, null_feed)))"
proof -
  let ?g = "filter (\<lambda>(k, v). k \<in> set ps) fs"
  have s: "sorted_wrt (<) (map fst ?g)" using assms by (induction fs) auto
  have f: "feed_of k ?g = (if k \<in> set ps then feed_of k fs else None)" for k
    by (induction fs) (auto simp: feed_of_def)
  show ?thesis using add_producers [OF s, of ps] f by (auto simp: change_producers_def split: option.splits)
qed

theorem change_producers_exact_witness:
  "sorted_wrt (<) (map fst (change_producers [9, 3, 4] [(3, 7, null_feed), (5, 8, null_feed)])) \<and>
   feed_of 3 (change_producers [9, 3, 4] [(3, 7, null_feed), (5, 8, null_feed)]) = Some (7, null_feed) \<and>
   feed_of 9 (change_producers [9, 3, 4] [(3, 7, null_feed), (5, 8, null_feed)]) = Some (0, null_feed) \<and>
   feed_of 5 (change_producers [9, 3, 4] [(3, 7, null_feed), (5, 8, null_feed)]) = None"
proof -
  have s: "sorted_wrt (<) (map fst [(3 :: nat, 7 :: time_point_sec, null_feed), (5, 8, null_feed)])" by simp
  show ?thesis using change_producers_exact [OF s, of "[9, 3, 4]"] by (simp add: feed_of_def)
qed

text \<open>
  Taking away the right to force a settlement gives every pending settlement of the asset back to its owner: the loop that cancels
  them ends within as many rounds as there are settlements, none of the asset is left, and no value is lost.
\<close>

theorem cancel_settlements_complete:
  fixes m :: nat
  assumes F: "fc_laws F" and inv: "chain_inv s"
  defines "r \<equiv> run_loop (Suc (length (rows (settlements s)))) (cancel_settlements_step F m) s"
  shows "loop_result (cancel_settlements_step F m) s r \<and>
    (\<forall>s'. r = Inr s' \<longrightarrow> first_settlement m s' = None \<and> (\<forall>a. ledger a s' = ledger a s))"
  using fc_laws.cancel_settlements_ends [OF F inv, of m] fc_laws.cancel_settlements_loop [OF F inv]
  unfolding r_def by (fastforce simp: shifts_def)

definition demo_settlements :: database where
  "demo_settlements = demo_market\<lparr>settlements := \<lparr> next_id = 3, rows = [
     (0, \<lparr> fs_owner = 5, fs_balance = mk_asset 30 9, settlement_date = 20 \<rparr>),
     (1, \<lparr> fs_owner = 6, fs_balance = mk_asset 4 7, settlement_date = 5 \<rparr>),
     (2, \<lparr> fs_owner = 6, fs_balance = mk_asset 50 9, settlement_date = 10 \<rparr>)] \<rparr>\<rparr>"

theorem cancel_settlements_complete_witness:
  "\<exists>s'. run_loop 4 (cancel_settlements_step fc_int64 9) demo_settlements = Inr s' \<and> first_settlement 9 s' = None \<and>
     ledger 9 s' = ledger 9 demo_settlements"
proof -
  have i: "index_inv (settlements demo_settlements)" by (simp add: demo_settlements_def index_inv_def sorted_rows_def)
  have inv: "chain_inv demo_settlements"
    using settle_tab.inv_put [OF demo_market_inv, of "settlements demo_settlements"] i
    by (simp add: demo_settlements_def rows_ok_def)
  have "case run_loop 4 (cancel_settlements_step fc_int64 9) demo_settlements of Inl e \<Rightarrow> False | Inr r \<Rightarrow> True" by code_simp
  then obtain s' where r: "run_loop 4 (cancel_settlements_step fc_int64 9) demo_settlements = Inr s'"
    by (cases "run_loop 4 (cancel_settlements_step fc_int64 9) demo_settlements") auto
  moreover have "Suc (length (rows (settlements demo_settlements))) = 4" by (simp add: demo_settlements_def)
  ultimately show ?thesis using cancel_settlements_complete [OF fc64.fc_laws_axioms inv, of 9] by simp
qed

end
