(* ===== verification/Account_Evaluators.thy ===== *)
theory Account_Evaluators
  imports Transfers Fee_Distribution
begin

text \<open>
  Accounts and the objects they register (protocol/account.cpp, account_evaluator.cpp, special_authority.cpp, buyback.cpp,
  witness_evaluator.cpp, committee_member_evaluator.cpp, worker_evaluator.cpp, balance_evaluator.cpp): names, account creation, update,
  whitelisting and membership, witnesses, committee members, workers and claims of genesis balances. None of them creates or destroys an asset.

  The update of the global parameters by the committee is only possible inside a proposal (\<^verbatim>\<open>Proposals\<close>). The memo key of the
  account options is not part of the model. A modulus or shift that is undefined in the source is an error.
\<close>

unbundle bit_operations_syntax

section \<open>Names\<close>

definition GRAPHENE_MIN_ACCOUNT_NAME_LENGTH :: nat where "GRAPHENE_MIN_ACCOUNT_NAME_LENGTH = 1"
definition GRAPHENE_MAX_ACCOUNT_NAME_LENGTH :: nat where "GRAPHENE_MAX_ACCOUNT_NAME_LENGTH = 63"

definition is_letter :: "char \<Rightarrow> bool" where
  "is_letter c \<longleftrightarrow> c \<in> set ''abcdefghijklmnopqrstuvwxyz''"

definition is_let_dig :: "char \<Rightarrow> bool" where
  "is_let_dig c \<longleftrightarrow> is_letter c \<or> c \<in> set ''0123456789''"

definition is_let_dig_hyp :: "char \<Rightarrow> bool" where
  "is_let_dig_hyp c \<longleftrightarrow> is_let_dig c \<or> c = CHR ''-''"

definition label_end :: "string \<Rightarrow> nat \<Rightarrow> nat" where
  "label_end name b = b + length (takeWhile (\<lambda>c. c \<noteq> CHR ''.'') (drop b name))"

function check_labels :: "string \<Rightarrow> nat \<Rightarrow> bool" where
  "check_labels name b =
     (let e = label_end name b in
      if e - b < GRAPHENE_MIN_ACCOUNT_NAME_LENGTH then False
      else if \<not> is_letter (name ! b) then False
      else if \<not> is_let_dig (name ! (e - 1)) then False
      else if \<not> list_all (\<lambda>i. is_let_dig_hyp (name ! i)) [b + 1 ..< e - 1] then False
      else if e = length name then True
      else check_labels name (e + 1))"
  by auto

lemma label_end_bounds: "b \<le> label_end name b" "b \<le> length name \<Longrightarrow> label_end name b \<le> length name"
  using length_takeWhile_le [of "\<lambda>c. c \<noteq> CHR ''.''" "drop b name"] by (auto simp: label_end_def)

termination check_labels
proof (relation "measure (\<lambda>(name, b). length name - b)", goal_cases)
  case (2 name b e)
  have "b < length name" using 2(1,2) by (cases "b < length name") (auto simp: label_end_def GRAPHENE_MIN_ACCOUNT_NAME_LENGTH_def)
  moreover have "e \<le> length name" "b \<le> e" using label_end_bounds [of b name] calculation 2(1) by simp_all
  ultimately show ?case using 2(6) by auto
qed simp

declare check_labels.simps [simp del]

definition is_valid_name :: "string \<Rightarrow> bool result" where
  "is_valid_name name =
     bind (fc_assert (length name \<ge> 1) ''len >= 1'') (\<lambda>_.
     if length name < GRAPHENE_MIN_ACCOUNT_NAME_LENGTH then Inr False
     else if length name > GRAPHENE_MAX_ACCOUNT_NAME_LENGTH then Inr False
     else Inr (check_labels name 0))"

fun is_cheap_name_from :: "string \<Rightarrow> bool \<Rightarrow> bool" where
  "is_cheap_name_from [] v \<longleftrightarrow> \<not> v"
| "is_cheap_name_from (c # cs) v \<longleftrightarrow>
     (if c \<in> set ''0123456789'' then True
      else if c = CHR ''.'' \<or> c = CHR ''-'' \<or> c = CHR ''/'' then True
      else is_cheap_name_from cs (v \<or> c \<in> set ''aeiouy''))"

definition is_cheap_name :: "string \<Rightarrow> bool" where
  "is_cheap_name n = is_cheap_name_from n False"

section \<open>Shared checks\<close>

definition HARDFORK_453_TIME :: time_point_sec where "HARDFORK_453_TIME = 1450288800"
definition HARDFORK_516_TIME :: time_point_sec where "HARDFORK_516_TIME = 1456250400"
definition HARDFORK_538_TIME :: time_point_sec where "HARDFORK_538_TIME = 1456250400"
definition HARDFORK_599_TIME :: time_point_sec where "HARDFORK_599_TIME = 1459789200"
definition HARDFORK_607_TIME :: time_point_sec where "HARDFORK_607_TIME = 1458752400"
definition HARDFORK_613_TIME :: time_point_sec where "HARDFORK_613_TIME = 1458752400"

definition GRAPHENE_DEFAULT_MAX_BUYBACK_MARKETS :: nat where "GRAPHENE_DEFAULT_MAX_BUYBACK_MARKETS = 4"
definition GRAPHENE_MAX_WORKER_NAME_LENGTH :: nat where "GRAPHENE_MAX_WORKER_NAME_LENGTH = 63"
definition GRAPHENE_MAX_URL_LENGTH :: nat where "GRAPHENE_MAX_URL_LENGTH = 127"

fun options_needed :: "u16 \<Rightarrow> u16 \<Rightarrow> vote_id list \<Rightarrow> u16 \<times> u16" where
  "options_needed w c [] = (w, c)"
| "options_needed w c (v # vs) =
     (if vote_has_type Vote_Witness v \<and> w \<noteq> 0 then options_needed (w - 1) c vs
      else if vote_has_type Vote_Committee v \<and> c \<noteq> 0 then options_needed w (c - 1) vs
      else options_needed w c vs)"

definition account_options_validate :: "account_options \<Rightarrow> unit result" where
  "account_options_validate opts =
     (case options_needed (num_witness opts) (num_committee opts) (votes opts) of (w, c) \<Rightarrow>
      fc_assert (w = 0 \<and> c = 0) ''May not specify fewer witnesses or committee members than the number voted for.'')"

definition validate_special_authority :: "special_authority \<Rightarrow> unit result" where
  "validate_special_authority a =
     (case a of No_Special_Authority \<Rightarrow> Inr () | Top_Holders i n \<Rightarrow> fc_assert (n > 0) ''a.num_top_holders > 0'')"

definition evaluate_special_authority :: "database \<Rightarrow> special_authority \<Rightarrow> unit result" where
  "evaluate_special_authority s a =
     (case a of No_Special_Authority \<Rightarrow> Inr () | Top_Holders i n \<Rightarrow> bind (index_get (assets s) i) (\<lambda>_. Inr ()))"

definition if_valid :: "'a option \<Rightarrow> ('a \<Rightarrow> unit result) \<Rightarrow> unit result" where
  "if_valid x f = (case x of None \<Rightarrow> Inr () | Some v \<Rightarrow> f v)"

definition verify_authority_accounts :: "database \<Rightarrow> authority \<Rightarrow> unit result" where
  "verify_authority_accounts s a =
     bind (graphene_assert (num_auths a \<le> unat (maximum_authority_membership (parameters s)))
            (Chain_Exception ''internal_verify_auth_max_auth_exceeded'')) (\<lambda>_.
     graphene_assert (list_all (\<lambda>(i, w). index_find (accounts s) i \<noteq> None) (account_auths a))
       (Chain_Exception ''internal_verify_auth_account_not_found''))"

definition recode_auth_errors :: "string \<Rightarrow> 'a result \<Rightarrow> 'a result" where
  "recode_auth_errors op r =
     (case r of
        Inl (Chain_Exception x) \<Rightarrow>
          Inl (Chain_Exception (if x = ''internal_verify_auth_max_auth_exceeded'' then op @ ''_max_auth_exceeded''
            else if x = ''internal_verify_auth_account_not_found'' then op @ ''_auth_account_not_found'' else x))
      | _ \<Rightarrow> r)"

definition verify_account_votes :: "database \<Rightarrow> account_options \<Rightarrow> unit result" where
  "verify_account_votes s opts =
     bind (fc_assert (index_find (accounts s) (voting_account opts) \<noteq> None) ''Invalid proxy account specified.'') (\<lambda>_.
     bind (fc_assert (num_witness opts \<le> maximum_witness_count (parameters s)) ''Voted for more witnesses than currently allowed'') (\<lambda>_.
     bind (fc_assert (num_committee opts \<le> maximum_committee_count (parameters s)) ''Voted for more committee members than currently allowed'') (\<lambda>_.
     bind (fc_assert (list_all (\<lambda>v. vote_instance v < next_available_vote_id s) (votes opts)) ''id < max_vote_id'') (\<lambda>_.
     if list_ex (vote_has_type Vote_Worker) (votes opts) \<and> head_block_time s \<ge> HARDFORK_607_TIME then
       fc_assert (list_all (\<lambda>v. vote_has_type Vote_Worker v \<longrightarrow>
           \<not> list_ex (\<lambda>(i, w). vote_instance (vote_against w) = vote_instance v) (rows (workers s))) (votes opts)) ''vote against a worker''
     else Inr ()))))"

section \<open>Account creation\<close>

record buyback_account_options =
  asset_to_buy :: nat
  asset_to_buy_issuer :: nat
  markets :: "nat set"

record account_create_operation =
  acc_fee :: asset
  acc_registrar :: nat
  acc_referrer :: nat
  acc_referrer_percent :: u16
  acc_name :: string
  acc_owner :: authority
  acc_active :: authority
  acc_options :: account_options
  acc_owner_special :: "special_authority option"
  acc_active_special :: "special_authority option"
  acc_buyback :: "buyback_account_options option"

definition authority_members :: "authority \<Rightarrow> unit result" where
  "authority_members a =
     bind (fc_assert (num_auths a \<noteq> 0) ''num_auths() != 0'') (\<lambda>_.
     fc_assert (address_auths a = []) ''address_auths.size() == 0'')"

definition authority_possible :: "authority \<Rightarrow> unit result" where
  "authority_possible a = fc_assert (\<not> is_impossible a) ''impossible authority threshold''"

definition account_create_validate :: "account_create_operation \<Rightarrow> unit result" where
  "account_create_validate op =
     bind (fc_assert (amount (acc_fee op) \<ge> 0) ''fee.amount >= 0'') (\<lambda>_.
     bind (bind (is_valid_name (acc_name op)) (\<lambda>v. fc_assert v ''is_valid_name( name )'')) (\<lambda>_.
     bind (fc_assert (uint (acc_referrer_percent op) \<le> GRAPHENE_100_PERCENT) ''referrer_percent <= GRAPHENE_100_PERCENT'') (\<lambda>_.
     bind (authority_members (acc_owner op)) (\<lambda>_.
     bind (authority_members (acc_active op)) (\<lambda>_.
     bind (authority_possible (acc_owner op)) (\<lambda>_.
     bind (authority_possible (acc_active op)) (\<lambda>_.
     bind (account_options_validate (acc_options op)) (\<lambda>_.
     bind (if_valid (acc_owner_special op) validate_special_authority) (\<lambda>_.
     bind (if_valid (acc_active_special op) validate_special_authority) (\<lambda>_.
     if_valid (acc_buyback op) (\<lambda>bb.
       bind (fc_assert (acc_owner_special op = None) ''owner_special_authority'') (\<lambda>_.
       bind (fc_assert (acc_active_special op = None) ''active_special_authority'') (\<lambda>_.
       bind (fc_assert (acc_owner op = null_authority) ''owner == null_authority'') (\<lambda>_.
       bind (fc_assert (acc_active op = null_authority) ''active == null_authority'') (\<lambda>_.
       bind (fc_assert (markets bb \<noteq> {}) ''n_markets > 0'') (\<lambda>_.
       fc_assert (asset_to_buy bb \<notin> markets bb) ''m != asset_to_buy''))))))))))))))))"

definition evaluate_buyback_account_options :: "database \<Rightarrow> buyback_account_options \<Rightarrow> unit result" where
  "evaluate_buyback_account_options s bb =
     bind (fc_assert (head_block_time s \<ge> HARDFORK_538_TIME) ''HARDFORK_538_TIME'') (\<lambda>_.
     bind (index_get (assets s) (asset_to_buy bb)) (\<lambda>a.
     bind (graphene_assert (issuer a = asset_to_buy_issuer bb) (Chain_Exception ''account_create_buyback_incorrect_issuer'')) (\<lambda>_.
     bind (graphene_assert (buyback_account a = None) (Chain_Exception ''account_create_buyback_already_exists'')) (\<lambda>_.
     graphene_assert (card (markets bb) < GRAPHENE_DEFAULT_MAX_BUYBACK_MARKETS) (Chain_Exception ''account_create_buyback_too_many_markets'')))))"

definition account_create_do_evaluate ::
  "fc_lib \<Rightarrow> account_create_operation \<Rightarrow> fee_state \<Rightarrow> database \<Rightarrow> (unit \<times> fee_state) result" where
  "account_create_do_evaluate F op fs s =
     bind (index_get (accounts s) (fee_paying_account fs)) (\<lambda>payer.
     bind (fc_assert (is_lifetime_member payer) ''Only Lifetime members may register an account.'') (\<lambda>_.
     bind (index_get (accounts s) (acc_referrer op)) (\<lambda>ref.
     bind (fc_assert (is_member ref (head_block_time s)) ''The referrer must be either a lifetime or annual subscriber.'') (\<lambda>_.
     bind (recode_auth_errors ''account_create'' (verify_authority_accounts s (acc_owner op))) (\<lambda>_.
     bind (recode_auth_errors ''account_create'' (verify_authority_accounts s (acc_active op))) (\<lambda>_.
     bind (if_valid (acc_owner_special op) (evaluate_special_authority s)) (\<lambda>_.
     bind (if_valid (acc_active_special op) (evaluate_special_authority s)) (\<lambda>_.
     bind (if_valid (acc_buyback op) (evaluate_buyback_account_options s)) (\<lambda>_.
     bind (verify_account_votes s (acc_options op)) (\<lambda>_.
     bind (if acc_name op \<noteq> [] then fc_assert (find_row (\<lambda>a. acct_name a = acc_name op) (accounts s) = None) ''name is taken'' else Inr ()) (\<lambda>_.
     Inr ((), fs))))))))))))"

definition registered_percent :: "account_create_operation \<Rightarrow> time_point_sec \<Rightarrow> u16" where
  "registered_percent op now =
     (if now \<le> HARDFORK_453_TIME \<and> acc_referrer op \<noteq> acc_registrar op \<and> acc_referrer_percent op \<noteq> 0 \<and> acc_referrer_percent op \<le> 0x100
      then min (acc_referrer_percent op * 100) 10000 else acc_referrer_percent op)"

definition new_statistics :: "nat \<Rightarrow> account_statistics_object" where
  "new_statistics i = \<lparr> st_owner = i, total_core_in_orders = 0, lifetime_fees_paid = 0, pending_fees = 0, pending_vested_fees = 0,
     tx_fees = Map.empty, market_fees = Map.empty \<rparr>"

definition new_account :: "account_create_operation \<Rightarrow> nat \<Rightarrow> nat \<Rightarrow> database \<Rightarrow> account_object" where
  "new_account op ltr st s = \<lparr> membership_expiration_date = 0, registrar = acc_registrar op, referrer = acc_referrer op, lifetime_referrer = ltr,
     network_fee_percentage = network_percent_of_fee (parameters s),
     lifetime_referrer_fee_percentage = lifetime_referrer_percent_of_fee (parameters s),
     referrer_rewards_percentage = registered_percent op (head_block_time s), acct_name = acc_name op,
     owner_authority = acc_owner op, active_authority = acc_active op, acct_options = acc_options op, statistics = st,
     whitelisting_accounts = {}, whitelisted_accounts = {}, blacklisted_accounts = {}, blacklisting_accounts = {}, cashback_vb = None,
     owner_special_authority = (case acc_owner_special op of None \<Rightarrow> No_Special_Authority | Some a \<Rightarrow> a),
     active_special_authority = (case acc_active_special op of None \<Rightarrow> No_Special_Authority | Some a \<Rightarrow> a),
     top_n_control_flags = 0,
     allowed_assets = map_option (\<lambda>bb. insert (asset_to_buy bb) (markets bb)) (acc_buyback op) \<rparr>"

text \<open>The registration fee grows with every \<open>accounts_per_fee_scale\<close> accounts of a maintenance interval.\<close>

definition count_registration :: "database \<Rightarrow> database result" where
  "count_registration s =
     (let n = accounts_registered_this_interval (dgp s) + 1;
          s1 = s\<lparr>dgp := (dgp s)\<lparr>accounts_registered_this_interval := n\<rparr>\<rparr>;
          scale = ucast (accounts_per_fee_scale (parameters s)) :: u32;
          shift = unat (account_fee_scale_bitshifts (parameters s)) in
      if scale = 0 then Inl (Chain_Exception ''modulus by zero'')
      else if n mod scale \<noteq> 0 then Inr s1
      else if shift \<ge> 64 then Inl (Chain_Exception ''shift out of range'')
      else Inr (s1\<lparr>parameters := (parameters s)\<lparr>account_create_basic_fee := push_bit shift (account_create_basic_fee (parameters s))\<rparr>\<rparr>))"

definition account_create_do_apply ::
  "fc_lib \<Rightarrow> account_create_operation \<Rightarrow> unit \<Rightarrow> fee_state \<Rightarrow> database \<Rightarrow> (database \<times> nat) result" where
  "account_create_do_apply F op e fs s =
     bind (index_get (accounts s) (acc_referrer op)) (\<lambda>ref.
     bind (table_create stats put_stats no_clash (new_statistics (next_id (accounts s))) s) (\<lambda>(s1, st).
     bind (table_create accounts put_accounts same_name (new_account op (lifetime_referrer ref) st s) s1) (\<lambda>(s2, i).
     bind (count_registration s2) (\<lambda>s3.
     bind (if acc_owner_special op \<noteq> None \<or> acc_active_special op \<noteq> None
           then bind (table_create special_authorities put_special_authorities (=) i s3) (\<lambda>(s4, _). Inr s4) else Inr s3) (\<lambda>s4.
     bind (case acc_buyback op of
             None \<Rightarrow> Inr s4
           | Some bb \<Rightarrow>
               bind (table_create buybacks put_buybacks (=) (asset_to_buy bb) s4) (\<lambda>(s5, _).
               modify_asset (asset_to_buy bb) (\<lambda>a. Inr (a\<lparr>buyback_account := Some i\<rparr>)) s5)) (\<lambda>s5.
     Inr (s5, i)))))))"

definition account_create_evaluator :: "(account_create_operation, unit, nat) evaluator" where
  "account_create_evaluator = \<lparr> fee_payer = acc_registrar, op_fee = acc_fee, do_evaluate = account_create_do_evaluate,
     do_pay_fee = default_pay_fee, do_apply = account_create_do_apply \<rparr>"

section \<open>Account update\<close>

record account_update_operation =
  aup_fee :: asset
  aup_account :: nat
  aup_owner :: "authority option"
  aup_active :: "authority option"
  aup_new_options :: "account_options option"
  aup_null_ext :: bool
  aup_owner_special :: "special_authority option"
  aup_active_special :: "special_authority option"

definition is_owner_update :: "account_update_operation \<Rightarrow> bool" where
  "is_owner_update op \<longleftrightarrow> aup_owner op \<noteq> None \<or> aup_owner_special op \<noteq> None"

definition account_update_validate :: "account_update_operation \<Rightarrow> unit result" where
  "account_update_validate op =
     bind (fc_assert (aup_account op \<noteq> GRAPHENE_TEMP_ACCOUNT) ''account != GRAPHENE_TEMP_ACCOUNT'') (\<lambda>_.
     bind (fc_assert (amount (aup_fee op) \<ge> 0) ''fee.amount >= 0'') (\<lambda>_.
     bind (fc_assert (aup_account op \<noteq> 0) ''account != account_id_type()'') (\<lambda>_.
     bind (fc_assert (aup_owner op \<noteq> None \<or> aup_active op \<noteq> None \<or> aup_new_options op \<noteq> None \<or> aup_owner_special op \<noteq> None \<or>
            aup_active_special op \<noteq> None) ''has_action'') (\<lambda>_.
     bind (if_valid (aup_owner op) (\<lambda>a. bind (authority_members a) (\<lambda>_. authority_possible a))) (\<lambda>_.
     bind (if_valid (aup_active op) (\<lambda>a. bind (authority_members a) (\<lambda>_. authority_possible a))) (\<lambda>_.
     bind (if_valid (aup_new_options op) account_options_validate) (\<lambda>_.
     bind (if_valid (aup_owner_special op) validate_special_authority) (\<lambda>_.
     if_valid (aup_active_special op) validate_special_authority))))))))"

definition account_update_do_evaluate ::
  "fc_lib \<Rightarrow> account_update_operation \<Rightarrow> fee_state \<Rightarrow> database \<Rightarrow> (unit \<times> fee_state) result" where
  "account_update_do_evaluate F op fs s =
     bind (if head_block_time s < HARDFORK_516_TIME
           then fc_assert (aup_owner_special op = None \<and> aup_active_special op = None) ''HARDFORK_516_TIME'' else Inr ()) (\<lambda>_.
     bind (if head_block_time s < HARDFORK_599_TIME
           then fc_assert (\<not> aup_null_ext op \<and> aup_owner_special op = None \<and> aup_active_special op = None) ''HARDFORK_599_TIME'' else Inr ()) (\<lambda>_.
     bind (recode_auth_errors ''account_update'' (if_valid (aup_owner op) (verify_authority_accounts s))) (\<lambda>_.
     bind (recode_auth_errors ''account_update'' (if_valid (aup_active op) (verify_authority_accounts s))) (\<lambda>_.
     bind (if_valid (aup_owner_special op) (evaluate_special_authority s)) (\<lambda>_.
     bind (if_valid (aup_active_special op) (evaluate_special_authority s)) (\<lambda>_.
     bind (index_get (accounts s) (aup_account op)) (\<lambda>_.
     bind (if_valid (aup_new_options op) (verify_account_votes s)) (\<lambda>_.
     Inr ((), fs)))))))))"

definition has_special_authority :: "account_object \<Rightarrow> bool" where
  "has_special_authority a \<longleftrightarrow> owner_special_authority a \<noteq> No_Special_Authority \<or> active_special_authority a \<noteq> No_Special_Authority"

definition with_owner :: "account_update_operation \<Rightarrow> account_object \<Rightarrow> account_object" where
  "with_owner op a = (case aup_owner op of None \<Rightarrow> a | Some x \<Rightarrow> a\<lparr>owner_authority := x, top_n_control_flags := 0\<rparr>)"

definition with_active :: "account_update_operation \<Rightarrow> account_object \<Rightarrow> account_object" where
  "with_active op a = (case aup_active op of None \<Rightarrow> a | Some x \<Rightarrow> a\<lparr>active_authority := x, top_n_control_flags := 0\<rparr>)"

definition with_options :: "account_update_operation \<Rightarrow> account_object \<Rightarrow> account_object" where
  "with_options op a = (case aup_new_options op of None \<Rightarrow> a | Some x \<Rightarrow> a\<lparr>acct_options := x\<rparr>)"

definition with_special :: "account_update_operation \<Rightarrow> account_object \<Rightarrow> account_object" where
  "with_special op a =
     (let a1 = (case aup_owner_special op of None \<Rightarrow> a | Some x \<Rightarrow> a\<lparr>owner_special_authority := x, top_n_control_flags := 0\<rparr>) in
      case aup_active_special op of None \<Rightarrow> a1 | Some x \<Rightarrow> a1\<lparr>active_special_authority := x, top_n_control_flags := 0\<rparr>)"

definition updated_account :: "account_update_operation \<Rightarrow> account_object \<Rightarrow> account_object" where
  "updated_account op a = with_special op (with_options op (with_active op (with_owner op a)))"

definition account_update_do_apply ::
  "fc_lib \<Rightarrow> account_update_operation \<Rightarrow> unit \<Rightarrow> fee_state \<Rightarrow> database \<Rightarrow> (database \<times> unit) result" where
  "account_update_do_apply F op e fs s =
     bind (index_get (accounts s) (aup_account op)) (\<lambda>a.
     bind (modify_account (aup_account op) (\<lambda>a. Inr (updated_account op a)) s) (\<lambda>s1.
     let sa_before = has_special_authority a; sa_after = has_special_authority (updated_account op a) in
     bind (if sa_before \<and> \<not> sa_after then
             bind (the_object (find_row (\<lambda>i. i = aup_account op) (special_authorities s1))) (\<lambda>(k, _).
             table_remove special_authorities put_special_authorities k s1)
           else if \<not> sa_before \<and> sa_after then
             bind (table_create special_authorities put_special_authorities (=) (aup_account op) s1) (\<lambda>(s2, _). Inr s2)
           else Inr s1) (\<lambda>s2.
     Inr (s2, ()))))"

definition account_update_evaluator :: "(account_update_operation, unit, unit) evaluator" where
  "account_update_evaluator = \<lparr> fee_payer = aup_account, op_fee = aup_fee, do_evaluate = account_update_do_evaluate,
     do_pay_fee = default_pay_fee, do_apply = account_update_do_apply \<rparr>"

section \<open>Whitelists and membership\<close>

record account_whitelist_operation =
  awl_fee :: asset
  awl_authorizing_account :: nat
  awl_account_to_list :: nat
  awl_new_listing :: u8

definition account_whitelist_validate :: "account_whitelist_operation \<Rightarrow> unit result" where
  "account_whitelist_validate op =
     bind (fc_assert (amount (awl_fee op) \<ge> 0) ''fee.amount >= 0'') (\<lambda>_. fc_assert (awl_new_listing op < 4) ''new_listing < 0x4'')"

definition account_whitelist_do_evaluate ::
  "fc_lib \<Rightarrow> account_whitelist_operation \<Rightarrow> fee_state \<Rightarrow> database \<Rightarrow> (unit \<times> fee_state) result" where
  "account_whitelist_do_evaluate F op fs s =
     bind (index_get (accounts s) (awl_account_to_list op)) (\<lambda>_.
     bind (if allow_non_member_whitelists (parameters s) then Inr ()
           else bind (index_get (accounts s) (awl_authorizing_account op)) (\<lambda>a. fc_assert (is_lifetime_member a) ''is_lifetime_member()'')) (\<lambda>_.
     Inr ((), fs)))"

definition put_listed :: "bool \<Rightarrow> nat \<Rightarrow> nat set \<Rightarrow> nat set" where
  "put_listed listed i xs = (if listed then insert i xs else xs - {i})"

definition account_whitelist_do_apply ::
  "fc_lib \<Rightarrow> account_whitelist_operation \<Rightarrow> unit \<Rightarrow> fee_state \<Rightarrow> database \<Rightarrow> (database \<times> unit) result" where
  "account_whitelist_do_apply F op e fs s =
     (let white = awl_new_listing op AND 1 \<noteq> 0; black = awl_new_listing op AND 2 \<noteq> 0 in
      bind (modify_account (awl_account_to_list op) (\<lambda>a. Inr (a\<lparr>
          whitelisting_accounts := put_listed white (awl_authorizing_account op) (whitelisting_accounts a),
          blacklisting_accounts := put_listed black (awl_authorizing_account op) (blacklisting_accounts a)\<rparr>)) s) (\<lambda>s1.
      bind (modify_account (awl_authorizing_account op) (\<lambda>a. Inr (a\<lparr>
          whitelisted_accounts := put_listed white (awl_account_to_list op) (whitelisted_accounts a),
          blacklisted_accounts := put_listed black (awl_account_to_list op) (blacklisted_accounts a)\<rparr>)) s1) (\<lambda>s2.
      Inr (s2, ()))))"

definition account_whitelist_evaluator :: "(account_whitelist_operation, unit, unit) evaluator" where
  "account_whitelist_evaluator = \<lparr> fee_payer = awl_authorizing_account, op_fee = awl_fee, do_evaluate = account_whitelist_do_evaluate,
     do_pay_fee = default_pay_fee, do_apply = account_whitelist_do_apply \<rparr>"

record account_upgrade_operation =
  agr_fee :: asset
  account_to_upgrade :: nat
  upgrade_to_lifetime_member :: bool

definition account_upgrade_validate :: "account_upgrade_operation \<Rightarrow> unit result" where
  "account_upgrade_validate op = fc_assert (amount (agr_fee op) \<ge> 0) ''fee.amount >= 0''"

definition account_upgrade_do_evaluate ::
  "fc_lib \<Rightarrow> account_upgrade_operation \<Rightarrow> fee_state \<Rightarrow> database \<Rightarrow> (unit \<times> fee_state) result" where
  "account_upgrade_do_evaluate F op fs s =
     bind (index_get (accounts s) (account_to_upgrade op)) (\<lambda>a.
     bind (fc_assert (\<not> is_lifetime_member a) ''!account->is_lifetime_member()'') (\<lambda>_.
     Inr ((), fs)))"

definition seconds_per_day :: int where "seconds_per_day = 86400"

definition make_lifetime_member :: "nat \<Rightarrow> account_object \<Rightarrow> account_object" where
  "make_lifetime_member i a = a\<lparr>membership_expiration_date := 0xffffffff, referrer := i, registrar := i, lifetime_referrer := i,
     lifetime_referrer_fee_percentage := 10000 - network_fee_percentage a\<rparr>"

text \<open>
  The fees of the account are processed inside the modification of the account; that changes the account as well, in place, so that the
  modification continues on the account the fee processing leaves.
\<close>

definition account_upgrade_do_apply ::
  "fc_lib \<Rightarrow> account_upgrade_operation \<Rightarrow> unit \<Rightarrow> fee_state \<Rightarrow> database \<Rightarrow> (database \<times> unit) result" where
  "account_upgrade_do_apply F op e fs s =
     (let i = account_to_upgrade op; now = head_block_time s in
      bind (index_get (accounts s) i) (\<lambda>a.
      bind (if upgrade_to_lifetime_member op then
              bind (process_fees F (statistics a) i s) (\<lambda>s1. modify_account i (\<lambda>a. Inr (make_lifetime_member i a)) s1)
            else if is_annual_member a now then
              bind (fc_assert (now \<le> HARDFORK_613_TIME) ''HARDFORK_613_TIME'') (\<lambda>_.
              bind (fc_assert (uint (membership_expiration_date a) - uint now < 3650 * seconds_per_day)
                     ''May not extend annual membership more than a decade into the future.'') (\<lambda>_.
              modify_account i (\<lambda>a. Inr (a\<lparr>membership_expiration_date := membership_expiration_date a + 31536000\<rparr>)) s))
            else
              bind (fc_assert (now \<le> HARDFORK_613_TIME) ''HARDFORK_613_TIME'') (\<lambda>_.
              bind (process_fees F (statistics a) i s) (\<lambda>s1.
              modify_account i (\<lambda>a. Inr (a\<lparr>referrer := i, membership_expiration_date := now + 31536000\<rparr>)) s1))) (\<lambda>s'.
      Inr (s', ()))))"

definition account_upgrade_evaluator :: "(account_upgrade_operation, unit, unit) evaluator" where
  "account_upgrade_evaluator = \<lparr> fee_payer = account_to_upgrade, op_fee = agr_fee, do_evaluate = account_upgrade_do_evaluate,
     do_pay_fee = default_pay_fee, do_apply = account_upgrade_do_apply \<rparr>"

section \<open>Witnesses and committee members\<close>

definition get_next_vote_id :: "vote_type \<Rightarrow> database \<Rightarrow> database \<times> vote_id" where
  "get_next_vote_id t s = (s\<lparr>next_available_vote_id := next_available_vote_id s + 1\<rparr>, make_vote_id t (next_available_vote_id s))"

record witness_create_operation =
  wcr_fee :: asset
  wcr_witness_account :: nat
  wcr_url :: string
  block_signing_key :: public_key

definition witness_create_validate :: "witness_create_operation \<Rightarrow> unit result" where
  "witness_create_validate op =
     bind (fc_assert (amount (wcr_fee op) \<ge> 0) ''fee.amount >= 0'') (\<lambda>_. fc_assert (length (wcr_url op) < GRAPHENE_MAX_URL_LENGTH) ''url.size()'')"

definition witness_create_do_evaluate ::
  "fc_lib \<Rightarrow> witness_create_operation \<Rightarrow> fee_state \<Rightarrow> database \<Rightarrow> (unit \<times> fee_state) result" where
  "witness_create_do_evaluate F op fs s =
     bind (index_get (accounts s) (wcr_witness_account op)) (\<lambda>a.
     bind (fc_assert (is_lifetime_member a) ''is_lifetime_member()'') (\<lambda>_. Inr ((), fs)))"

definition witness_create_do_apply ::
  "fc_lib \<Rightarrow> witness_create_operation \<Rightarrow> unit \<Rightarrow> fee_state \<Rightarrow> database \<Rightarrow> (database \<times> nat) result" where
  "witness_create_do_apply F op e fs s =
     (case get_next_vote_id Vote_Witness s of (s1, v) \<Rightarrow>
      table_create witnesses put_witnesses same_witness
        \<lparr> witness_account = wcr_witness_account op, signing_key = block_signing_key op, last_aslot = 0, pay_vb = None, wit_vote_id = v,
          wit_total_votes = 0, wit_url = wcr_url op, total_missed = 0, last_confirmed_block_num = 0 \<rparr> s1)"

definition witness_create_evaluator :: "(witness_create_operation, unit, nat) evaluator" where
  "witness_create_evaluator = \<lparr> fee_payer = wcr_witness_account, op_fee = wcr_fee, do_evaluate = witness_create_do_evaluate,
     do_pay_fee = default_pay_fee, do_apply = witness_create_do_apply \<rparr>"

record witness_update_operation =
  wup_fee :: asset
  wup_witness :: nat
  wup_witness_account :: nat
  wup_new_url :: "string option"
  wup_new_signing_key :: "public_key option"

definition witness_update_validate :: "witness_update_operation \<Rightarrow> unit result" where
  "witness_update_validate op =
     bind (fc_assert (amount (wup_fee op) \<ge> 0) ''fee.amount >= 0'') (\<lambda>_.
     if_valid (wup_new_url op) (\<lambda>u. fc_assert (length u < GRAPHENE_MAX_URL_LENGTH) ''new_url->size()''))"

definition witness_update_do_evaluate ::
  "fc_lib \<Rightarrow> witness_update_operation \<Rightarrow> fee_state \<Rightarrow> database \<Rightarrow> (unit \<times> fee_state) result" where
  "witness_update_do_evaluate F op fs s =
     bind (index_get (witnesses s) (wup_witness op)) (\<lambda>w.
     bind (fc_assert (witness_account w = wup_witness_account op) ''witness_account'') (\<lambda>_. Inr ((), fs)))"

definition witness_update_do_apply ::
  "fc_lib \<Rightarrow> witness_update_operation \<Rightarrow> unit \<Rightarrow> fee_state \<Rightarrow> database \<Rightarrow> (database \<times> unit) result" where
  "witness_update_do_apply F op e fs s =
     bind (modify_witness (wup_witness op) (\<lambda>w.
         let w1 = (case wup_new_url op of None \<Rightarrow> w | Some u \<Rightarrow> w\<lparr>wit_url := u\<rparr>) in
         Inr (case wup_new_signing_key op of None \<Rightarrow> w1 | Some k \<Rightarrow> w1\<lparr>signing_key := k\<rparr>)) s) (\<lambda>s'.
     Inr (s', ()))"

definition witness_update_evaluator :: "(witness_update_operation, unit, unit) evaluator" where
  "witness_update_evaluator = \<lparr> fee_payer = wup_witness_account, op_fee = wup_fee, do_evaluate = witness_update_do_evaluate,
     do_pay_fee = default_pay_fee, do_apply = witness_update_do_apply \<rparr>"

record committee_member_create_operation =
  ccr_fee :: asset
  ccr_committee_member_account :: nat
  ccr_url :: string

definition committee_create_validate :: "committee_member_create_operation \<Rightarrow> unit result" where
  "committee_create_validate op =
     bind (fc_assert (amount (ccr_fee op) \<ge> 0) ''fee.amount >= 0'') (\<lambda>_. fc_assert (length (ccr_url op) < GRAPHENE_MAX_URL_LENGTH) ''url.size()'')"

definition committee_create_do_evaluate ::
  "fc_lib \<Rightarrow> committee_member_create_operation \<Rightarrow> fee_state \<Rightarrow> database \<Rightarrow> (unit \<times> fee_state) result" where
  "committee_create_do_evaluate F op fs s =
     bind (index_get (accounts s) (ccr_committee_member_account op)) (\<lambda>a.
     bind (fc_assert (is_lifetime_member a) ''is_lifetime_member()'') (\<lambda>_. Inr ((), fs)))"

definition committee_create_do_apply ::
  "fc_lib \<Rightarrow> committee_member_create_operation \<Rightarrow> unit \<Rightarrow> fee_state \<Rightarrow> database \<Rightarrow> (database \<times> nat) result" where
  "committee_create_do_apply F op e fs s =
     (case get_next_vote_id Vote_Committee s of (s1, v) \<Rightarrow>
      table_create committee_members put_committee_members same_committee_member
        \<lparr> committee_member_account = ccr_committee_member_account op, cm_vote_id = v, cm_total_votes = 0, cm_url = ccr_url op \<rparr> s1)"

definition committee_create_evaluator :: "(committee_member_create_operation, unit, nat) evaluator" where
  "committee_create_evaluator = \<lparr> fee_payer = ccr_committee_member_account, op_fee = ccr_fee, do_evaluate = committee_create_do_evaluate,
     do_pay_fee = default_pay_fee, do_apply = committee_create_do_apply \<rparr>"

record committee_member_update_operation =
  cup_fee :: asset
  cup_committee_member :: nat
  cup_committee_member_account :: nat
  cup_new_url :: "string option"

definition committee_update_validate :: "committee_member_update_operation \<Rightarrow> unit result" where
  "committee_update_validate op =
     bind (fc_assert (amount (cup_fee op) \<ge> 0) ''fee.amount >= 0'') (\<lambda>_.
     if_valid (cup_new_url op) (\<lambda>u. fc_assert (length u < GRAPHENE_MAX_URL_LENGTH) ''new_url->size()''))"

definition committee_update_do_evaluate ::
  "fc_lib \<Rightarrow> committee_member_update_operation \<Rightarrow> fee_state \<Rightarrow> database \<Rightarrow> (unit \<times> fee_state) result" where
  "committee_update_do_evaluate F op fs s =
     bind (index_get (committee_members s) (cup_committee_member op)) (\<lambda>c.
     bind (fc_assert (committee_member_account c = cup_committee_member_account op) ''committee_member_account'') (\<lambda>_. Inr ((), fs)))"

definition committee_update_do_apply ::
  "fc_lib \<Rightarrow> committee_member_update_operation \<Rightarrow> unit \<Rightarrow> fee_state \<Rightarrow> database \<Rightarrow> (database \<times> unit) result" where
  "committee_update_do_apply F op e fs s =
     bind (modify_committee_member (cup_committee_member op)
            (\<lambda>c. Inr (case cup_new_url op of None \<Rightarrow> c | Some u \<Rightarrow> c\<lparr>cm_url := u\<rparr>)) s) (\<lambda>s'.
     Inr (s', ()))"

definition committee_update_evaluator :: "(committee_member_update_operation, unit, unit) evaluator" where
  "committee_update_evaluator = \<lparr> fee_payer = cup_committee_member_account, op_fee = cup_fee, do_evaluate = committee_update_do_evaluate,
     do_pay_fee = default_pay_fee, do_apply = committee_update_do_apply \<rparr>"

section \<open>Workers\<close>

datatype worker_initializer = Refund_Initializer | Vesting_Initializer u16 | Burn_Initializer

record worker_create_operation =
  wkc_fee :: asset
  wkc_owner :: nat
  wkc_work_begin_date :: time_point_sec
  wkc_work_end_date :: time_point_sec
  wkc_daily_pay :: share_type
  wkc_name :: string
  wkc_url :: string
  wkc_initializer :: worker_initializer

definition worker_create_validate :: "worker_create_operation \<Rightarrow> unit result" where
  "worker_create_validate op =
     bind (fc_assert (amount (wkc_fee op) \<ge> 0) ''fee.amount >= 0'') (\<lambda>_.
     bind (fc_assert (wkc_work_end_date op > wkc_work_begin_date op) ''work_end_date > work_begin_date'') (\<lambda>_.
     bind (fc_assert (wkc_daily_pay op > 0) ''daily_pay > 0'') (\<lambda>_.
     bind (fc_assert (wkc_daily_pay op < GRAPHENE_MAX_SHARE_SUPPLY) ''daily_pay < GRAPHENE_MAX_SHARE_SUPPLY'') (\<lambda>_.
     bind (fc_assert (length (wkc_name op) < GRAPHENE_MAX_WORKER_NAME_LENGTH) ''name.size()'') (\<lambda>_.
     fc_assert (length (wkc_url op) < GRAPHENE_MAX_URL_LENGTH) ''url.size()'')))))"

definition worker_create_do_evaluate ::
  "fc_lib \<Rightarrow> worker_create_operation \<Rightarrow> fee_state \<Rightarrow> database \<Rightarrow> (unit \<times> fee_state) result" where
  "worker_create_do_evaluate F op fs s =
     bind (index_get (accounts s) (wkc_owner op)) (\<lambda>a.
     bind (fc_assert (is_lifetime_member a) ''is_lifetime_member()'') (\<lambda>_.
     bind (fc_assert (wkc_work_begin_date op \<ge> head_block_time s) ''work_begin_date >= head_block_time()'') (\<lambda>_.
     Inr ((), fs))))"

definition worker_vesting_balance :: "nat \<Rightarrow> u16 \<Rightarrow> time_point_sec \<Rightarrow> vesting_balance_object" where
  "worker_vesting_balance i days now = \<lparr> vb_owner = i, vb_balance = mk_asset 0 0,
     vb_policy = Cdd \<lparr> vesting_seconds = ucast days * 86400, coin_seconds_earned = 0, start_claim = 0,
       coin_seconds_earned_last_update = now \<rparr> \<rparr>"

definition worker_init :: "worker_initializer \<Rightarrow> nat \<Rightarrow> database \<Rightarrow> (database \<times> worker_type) result" where
  "worker_init x owner s =
     (case x of
        Refund_Initializer \<Rightarrow> Inr (s, Refund_Worker 0)
      | Vesting_Initializer days \<Rightarrow>
          bind (table_create vesting_balances put_vesting_balances no_clash (worker_vesting_balance owner days (head_block_time s)) s) (\<lambda>(s1, k).
          Inr (s1, Vesting_Balance_Worker k))
      | Burn_Initializer \<Rightarrow> Inr (s, Burn_Worker 0))"

definition worker_create_do_apply ::
  "fc_lib \<Rightarrow> worker_create_operation \<Rightarrow> unit \<Rightarrow> fee_state \<Rightarrow> database \<Rightarrow> (database \<times> nat) result" where
  "worker_create_do_apply F op e fs s =
     (case get_next_vote_id Vote_Worker s of (s1, for_id) \<Rightarrow>
      case get_next_vote_id Vote_Worker s1 of (s2, against_id) \<Rightarrow>
      bind (worker_init (wkc_initializer op) (wkc_owner op) s2) (\<lambda>(s3, wt).
      table_create workers put_workers same_worker_votes
        \<lparr> worker_account = wkc_owner op, work_begin_date = wkc_work_begin_date op, work_end_date = wkc_work_end_date op,
          daily_pay = wkc_daily_pay op, worker = wt, wk_name = wkc_name op, wk_url = wkc_url op, vote_for = for_id, vote_against = against_id,
          total_votes_for = 0, total_votes_against = 0 \<rparr> s3))"

definition worker_create_evaluator :: "(worker_create_operation, unit, nat) evaluator" where
  "worker_create_evaluator = \<lparr> fee_payer = wkc_owner, op_fee = wkc_fee, do_evaluate = worker_create_do_evaluate,
     do_pay_fee = default_pay_fee, do_apply = worker_create_do_apply \<rparr>"

section \<open>Claims of genesis balances\<close>

record balance_claim_operation =
  bc_fee :: asset
  deposit_to_account :: nat
  balance_to_claim :: nat
  balance_owner_key :: public_key
  total_claimed :: asset

text \<open>The key 0 stands for the default \<^verbatim>\<open>public_key_type()\<close>.\<close>

definition balance_claim_validate :: "balance_claim_operation \<Rightarrow> unit result" where
  "balance_claim_validate op =
     bind (fc_assert (bc_fee op = mk_asset 0 0) ''fee == asset()'') (\<lambda>_. fc_assert (balance_owner_key op \<noteq> 0) ''balance_owner_key != public_key_type()'')"

definition is_vesting_balance :: "balance_object \<Rightarrow> bool" where
  "is_vesting_balance b \<longleftrightarrow> gb_vesting_policy b \<noteq> None"

text \<open>
  The check of the asset hangs on the condition above it by the missing braces of the source: \<open>skip\<close> says that authorities or
  signatures are not checked.
\<close>

definition check_balance_claim :: "bool \<Rightarrow> fc_lib \<Rightarrow> balance_claim_operation \<Rightarrow> database \<Rightarrow> unit result" where
  "check_balance_claim skip F op s =
     bind (index_get (genesis_balances s) (balance_to_claim op)) (\<lambda>b.
     bind (graphene_assert (gb_owner b \<in> set (claim_addresses F (balance_owner_key op))) (Chain_Exception ''balance_claim_owner_mismatch'')) (\<lambda>_.
     bind (if skip then Inr () else fc_assert (asset_id (total_claimed op) = asset_id (gb_balance b)) ''asset_type()'') (\<lambda>_.
     case gb_vesting_policy b of
       Some p \<Rightarrow>
         bind (linear_is_withdraw_allowed F p \<lparr> ctx_balance = gb_balance b, ctx_now = head_block_time s, ctx_amount = total_claimed op \<rparr>) (\<lambda>w.
         bind (graphene_assert w (Chain_Exception ''balance_claim_invalid_claim_amount'')) (\<lambda>_.
         graphene_assert (uint (head_block_time s) - uint (last_claim_date b) \<ge> seconds_per_day) (Chain_Exception ''balance_claim_claimed_too_often'')))
     | None \<Rightarrow> fc_assert (total_claimed op = gb_balance b) ''total_claimed == balance'')))"

definition balance_claim_do_evaluate ::
  "fc_lib \<Rightarrow> balance_claim_operation \<Rightarrow> fee_state \<Rightarrow> database \<Rightarrow> (unit \<times> fee_state) result" where
  "balance_claim_do_evaluate F op fs s = bind (check_balance_claim False F op s) (\<lambda>_. Inr ((), fs))"

definition balance_claim_do_apply ::
  "fc_lib \<Rightarrow> balance_claim_operation \<Rightarrow> unit \<Rightarrow> fee_state \<Rightarrow> database \<Rightarrow> (database \<times> unit) result" where
  "balance_claim_do_apply F op e fs s =
     bind (index_get (genesis_balances s) (balance_to_claim op)) (\<lambda>b.
     bind (if is_vesting_balance b then asset_lt (total_claimed op) (gb_balance b) else Inr False) (\<lambda>part.
     bind (if part then
             modify_genesis_balance (balance_to_claim op) (\<lambda>b.
               bind (asset_sub F (gb_balance b) (total_claimed op)) (\<lambda>rest.
               Inr (b\<lparr>gb_balance := rest, last_claim_date := head_block_time s\<rparr>))) s
           else table_remove genesis_balances put_genesis_balances (balance_to_claim op) s) (\<lambda>s1.
     bind (adjust_balance F (deposit_to_account op) (total_claimed op) s1) (\<lambda>s2.
     Inr (s2, ())))))"

definition balance_claim_evaluator :: "(balance_claim_operation, unit, unit) evaluator" where
  "balance_claim_evaluator = \<lparr> fee_payer = deposit_to_account, op_fee = bc_fee, do_evaluate = balance_claim_do_evaluate,
     do_pay_fee = default_pay_fee, do_apply = balance_claim_do_apply \<rparr>"

section \<open>Custom operations\<close>

record custom_operation =
  cu_fee :: asset
  cu_payer :: nat
  cu_required_auths :: "nat set"
  cu_id :: u16
  cu_data :: string

definition custom_validate :: "custom_operation \<Rightarrow> unit result" where
  "custom_validate op = fc_assert (amount (cu_fee op) > 0) ''fee.amount > 0''"

definition custom_evaluator :: "(custom_operation, unit, unit) evaluator" where
  "custom_evaluator = \<lparr> fee_payer = cu_payer, op_fee = cu_fee, do_evaluate = \<lambda>F op fs s. Inr ((), fs),
     do_pay_fee = default_pay_fee, do_apply = \<lambda>F op e fs s. Inr (s, ()) \<rparr>"

section \<open>The operations keep the ledger\<close>

lemma count_registration_conserves: "chain_inv s \<Longrightarrow> count_registration s = Inr s' \<Longrightarrow> conserves s s'"
  by (auto simp: count_registration_def Let_def conserves_def ledger_dgp split: if_splits)

lemma create_special_conserves:
  "chain_inv s \<Longrightarrow> table_create special_authorities put_special_authorities (=) i s = Inr (s', k) \<Longrightarrow> conserves s s'"
  using special_tab.create_step by (fastforce simp: conserves_def)

lemma register_buyback_conserves:
  assumes inv: "chain_inv s" and s1: "table_create buybacks put_buybacks (=) i s = Inr (s1, k)"
    and s': "modify_asset i (\<lambda>a. Inr (a\<lparr>buyback_account := b\<rparr>)) s1 = Inr s'"
  shows "conserves s s'"
proof -
  have 1: "conserves s s1" using buyback_tab.create_step [OF inv s1] by (auto simp: conserves_def)
  then have "chain_inv s1" by (simp add: conserves_def)
  from modify_asset_step [OF this s'] have "conserves s1 s'" by (auto simp: conserves_def asset_ok_def)
  with 1 show ?thesis by (rule conserves_trans)
qed

lemma account_create_conserves:
  assumes inv: "chain_inv s" and ok: "account_create_do_apply F op e fs s = Inr (s', i)"
  shows "conserves s s'"
proof -
  obtain ref :: account_object and s1 st s2 s3 s4 where s1: "table_create stats put_stats no_clash (new_statistics (next_id (accounts s))) s = Inr (s1, st)"
    and s2: "table_create accounts put_accounts same_name (new_account op (lifetime_referrer ref) st s) s1 = Inr (s2, i)"
    and s3: "count_registration s2 = Inr s3"
    and s4: "(if acc_owner_special op \<noteq> None \<or> acc_active_special op \<noteq> None
           then bind (table_create special_authorities put_special_authorities (=) i s3) (\<lambda>(s4, _). Inr s4) else Inr s3) = Inr s4"
    and s5: "(case acc_buyback op of
             None \<Rightarrow> Inr s4
           | Some bb \<Rightarrow>
               bind (table_create buybacks put_buybacks (=) (asset_to_buy bb) s4) (\<lambda>(s5, _).
               modify_asset (asset_to_buy bb) (\<lambda>a. Inr (a\<lparr>buyback_account := Some i\<rparr>)) s5)) = Inr s'"
    using ok unfolding account_create_do_apply_def by (simp only: bind_eq_Inr split_paired_Ex prod.case prod.inject sum.inject) blast
  have 1: "conserves s s1" using stat_tab.create_step [OF inv s1] by (auto simp: conserves_def new_statistics_def pending_in_def core_in_def)
  then have "chain_inv s1" by (simp add: conserves_def)
  from acc_tab.create_step [OF this s2] have "conserves s1 s2" by (auto simp: conserves_def)
  with 1 have 2: "conserves s s2" by (rule conserves_trans)
  then have "conserves s2 s3" using count_registration_conserves [OF _ s3] by (simp add: conserves_def)
  with 2 have 3: "conserves s s3" by (rule conserves_trans)
  then have i3: "chain_inv s3" by (simp add: conserves_def)
  have "conserves s3 s4" using s4 i3 create_special_conserves [OF i3] by (auto simp: ok_simps split: if_splits)
  with 3 have 4: "conserves s s4" by (rule conserves_trans)
  then have i4: "chain_inv s4" by (simp add: conserves_def)
  have "conserves s4 s'" using s5 i4 register_buyback_conserves [OF i4] by (auto simp: ok_simps split: option.splits)
  with 4 show ?thesis by (rule conserves_trans)
qed

lemma account_update_conserves:
  assumes inv: "chain_inv s" and ok: "account_update_do_apply F op e fs s = Inr (s', r)"
  shows "conserves s s'"
proof -
  obtain a :: account_object and s1 where s1: "modify_account (aup_account op) (\<lambda>a. Inr (updated_account op a)) s = Inr s1"
    and s2: "(if has_special_authority a \<and> \<not> has_special_authority (updated_account op a) then
             bind (the_object (find_row (\<lambda>i. i = aup_account op) (special_authorities s1))) (\<lambda>(k, _).
             table_remove special_authorities put_special_authorities k s1)
           else if \<not> has_special_authority a \<and> has_special_authority (updated_account op a) then
             bind (table_create special_authorities put_special_authorities (=) (aup_account op) s1) (\<lambda>(s2, _). Inr s2)
           else Inr s1) = Inr s'"
    using ok unfolding account_update_do_apply_def Let_def by (simp only: bind_eq_Inr split_paired_Ex prod.case prod.inject sum.inject) blast
  have 1: "conserves s s1" using acc_tab.modify_step [OF inv s1] by (auto simp: conserves_def)
  then have i1: "chain_inv s1" by (simp add: conserves_def)
  have r: "conserves s1 t" if "table_remove special_authorities put_special_authorities k s1 = Inr t" for k t
    using special_tab.remove_step [OF i1 that] by (auto simp: conserves_def)
  have "conserves s1 s'" using s2 i1 create_special_conserves [OF i1] r by (auto simp: ok_simps split: if_splits)
  with 1 show ?thesis by (rule conserves_trans)
qed

lemma modify_account_conserves: "chain_inv s \<Longrightarrow> modify_account i f s = Inr s' \<Longrightarrow> conserves s s'"
  using acc_tab.modify_step by (fastforce simp: conserves_def)

lemma account_whitelist_conserves:
  assumes inv: "chain_inv s" and ok: "account_whitelist_do_apply F op e fs s = Inr (s', r)"
  shows "conserves s s'"
proof -
  obtain f g i j s1 where s1: "modify_account i f s = Inr s1" and s': "modify_account j g s1 = Inr s'"
    using ok unfolding account_whitelist_do_apply_def Let_def bind_eq_Inr by blast
  have 1: "conserves s s1" using modify_account_conserves [OF inv s1] .
  then have "chain_inv s1" by (simp add: conserves_def)
  from conserves_trans [OF 1 modify_account_conserves [OF this s']] show ?thesis .
qed

lemma process_fees_conserves:
  assumes F: "fc_laws F" and inv: "chain_inv s" and ok: "process_fees F st i s = Inr s'"
  shows "conserves s s'"
proof -
  obtain t where t: "index_find (stats s) st = Some t" using ok by (auto simp: process_fees_def ok_simps index_get_def split: option.splits)
  show ?thesis
  proof (cases "pending_fees t > 0 \<or> pending_vested_fees t > 0")
    case False
    then show ?thesis using ok t inv by (simp add: process_fees_def index_get_def)
  next
    case True
    then obtain s1 s2 where s1: "pay_out_fees F i (pending_fees t) True s = Inr s1"
      and s2: "pay_out_fees F i (pending_vested_fees t) False s1 = Inr s2"
      and s3: "modify_stats st (\<lambda>t'. bind (safe_add F (pending_fees t) (pending_vested_fees t)) (\<lambda>paid.
           bind (safe_add F (lifetime_fees_paid t') paid) (\<lambda>v.
           Inr (t'\<lparr>lifetime_fees_paid := v, pending_fees := 0, pending_vested_fees := 0\<rparr>)))) s2 = Inr s'"
      using ok t by (auto simp: process_fees_def index_get_def ok_simps)
    note p1 = fc_laws.pay_out_fees_pays [OF F inv s1]
    have i1: "chain_inv s1" using p1 by (simp add: pays_core_def)
    note p2 = fc_laws.pay_out_fees_pays [OF F i1 s2]
    have i2: "chain_inv s2" using p2 by (simp add: pays_core_def)
    have fr: "stats s2 = stats s" "balances_nonneg s2 = balances_nonneg s"
      using p1 p2 payout_frame_same by (fastforce simp: pays_core_def)+
    have l: "ledger a s2 = ledger a s + core_in a (pending_fees t + pending_vested_fees t)" for a
      using p1 p2 by (auto simp: pays_core_def core_in_def)
    show ?thesis using stat_tab.modify_step [OF i2 s3] fr t l by (auto simp: conserves_def ok_simps pending_in_def core_in_def)
  qed
qed

lemma account_upgrade_conserves:
  assumes F: "fc_laws F" and inv: "chain_inv s" and ok: "account_upgrade_do_apply F op e fs s = Inr (s', r)"
  shows "conserves s s'"
proof -
  have paid: "conserves s u" if p: "process_fees F st i s = Inr t" and m: "modify_account i f t = Inr u" for st i f t u
  proof -
    note 1 = process_fees_conserves [OF F inv p]
    then have "chain_inv t" by (simp add: conserves_def)
    from conserves_trans [OF 1 modify_account_conserves [OF this m]] show ?thesis .
  qed
  show ?thesis using ok paid modify_account_conserves [OF inv]
    by (auto simp: account_upgrade_do_apply_def Let_def ok_simps split: if_splits)
qed

lemma conserves_next_vote: "chain_inv s \<Longrightarrow> get_next_vote_id t s = (s', v) \<Longrightarrow> conserves s s'"
  by (auto simp: get_next_vote_id_def conserves_def)

lemma witness_create_conserves:
  assumes inv: "chain_inv s" and ok: "witness_create_do_apply F op e fs s = Inr (s', r)"
  shows "conserves s s'"
proof -
  obtain s1 v where v: "get_next_vote_id Vote_Witness s = (s1, v)" by (cases "get_next_vote_id Vote_Witness s")
  note 1 = conserves_next_vote [OF inv v]
  then have "chain_inv s1" by (simp add: conserves_def)
  from witness_tab.create_step [OF this] have "conserves s1 s'" using ok by (fastforce simp: witness_create_do_apply_def v conserves_def)
  with 1 show ?thesis by (rule conserves_trans)
qed

lemma committee_create_conserves:
  assumes inv: "chain_inv s" and ok: "committee_create_do_apply F op e fs s = Inr (s', r)"
  shows "conserves s s'"
proof -
  obtain s1 v where v: "get_next_vote_id Vote_Committee s = (s1, v)" by (cases "get_next_vote_id Vote_Committee s")
  note 1 = conserves_next_vote [OF inv v]
  then have "chain_inv s1" by (simp add: conserves_def)
  from committee_tab.create_step [OF this] have "conserves s1 s'" using ok by (fastforce simp: committee_create_do_apply_def v conserves_def)
  with 1 show ?thesis by (rule conserves_trans)
qed

lemma worker_init_conserves:
  assumes inv: "chain_inv s" and ok: "worker_init x i s = Inr (s', w)"
  shows "conserves s s'"
proof (cases x)
  case (Vesting_Initializer days)
  then obtain k where "table_create vesting_balances put_vesting_balances no_clash (worker_vesting_balance i days (head_block_time s)) s = Inr (s', k)"
    using ok by (auto simp: worker_init_def ok_simps)
  from vest_tab.create_step [OF inv this] show ?thesis by (auto simp: conserves_def vesting_in_def worker_vesting_balance_def asset_in_def)
qed (use ok inv in \<open>auto simp: worker_init_def\<close>)

lemma worker_create_conserves:
  assumes inv: "chain_inv s" and ok: "worker_create_do_apply F op e fs s = Inr (s', r)"
  shows "conserves s s'"
proof -
  obtain s1 v s2 u where v: "get_next_vote_id Vote_Worker s = (s1, v)" "get_next_vote_id Vote_Worker s1 = (s2, u)"
    by (cases "get_next_vote_id Vote_Worker s", cases "get_next_vote_id Vote_Worker (fst (get_next_vote_id Vote_Worker s))") auto
  note 1 = conserves_next_vote [OF inv v(1)]
  then have "chain_inv s1" by (simp add: conserves_def)
  note 2 = conserves_trans [OF 1 conserves_next_vote [OF this v(2)]]
  then have i2: "chain_inv s2" by (simp add: conserves_def)
  obtain s3 wt wo where s3: "worker_init (wkc_initializer op) (wkc_owner op) s2 = Inr (s3, wt)"
    and s': "table_create workers put_workers same_worker_votes wo s3 = Inr (s', r)"
    using ok by (auto simp: worker_create_do_apply_def v ok_simps)
  note 3 = conserves_trans [OF 2 worker_init_conserves [OF i2 s3]]
  then have "chain_inv s3" by (simp add: conserves_def)
  from worker_tab.create_step [OF this s'] have "conserves s3 s'" by (auto simp: conserves_def)
  with 3 show ?thesis by (rule conserves_trans)
qed

text \<open>A claim leaves nothing behind only when it takes the whole balance: a linear policy never lets out more than there is.\<close>

definition balance_claim_valid :: "balance_claim_operation \<Rightarrow> database \<Rightarrow> bool" where
  "balance_claim_valid op s \<longleftrightarrow>
     (case index_find (genesis_balances s) (balance_to_claim op) of
        None \<Rightarrow> True
      | Some b \<Rightarrow> (case gb_vesting_policy b of None \<Rightarrow> True | Some p \<Rightarrow> linear_wf p (gb_balance b)))"

lemma check_claim_bound:
  assumes F: "fc_laws F" and v: "balance_claim_valid op s" and b: "index_find (genesis_balances s) (balance_to_claim op) = Some b"
    and ok: "check_balance_claim skip F op s = Inr ()"
  shows "asset_id (total_claimed op) = asset_id (gb_balance b) \<and> amount (total_claimed op) \<le> amount (gb_balance b) \<and>
    (gb_vesting_policy b = None \<longrightarrow> total_claimed op = gb_balance b)"
proof (cases "gb_vesting_policy b")
  case None
  then show ?thesis using ok b by (auto simp: check_balance_claim_def index_get_def ok_simps)
next
  case (Some p)
  let ?vb = "\<lparr> vb_owner = 0, vb_balance = gb_balance b, vb_policy = Linear p \<rparr>"
  have "linear_wf p (gb_balance b)" using v b Some by (simp add: balance_claim_valid_def)
  moreover have "linear_is_withdraw_allowed F p (vb_context ?vb (head_block_time s) (total_claimed op)) = Inr True"
    using ok b Some by (auto simp: check_balance_claim_def index_get_def ok_simps vb_context_def split: if_splits)
  ultimately show ?thesis using fc_laws.linear_withdraw_bound [OF F, of p ?vb "head_block_time s" "total_claimed op"] Some by simp
qed

lemma balance_claim_conserves:
  assumes F: "fc_laws F" and inv: "chain_inv s" and v: "balance_claim_valid op s0" and fr: "fee_frame s0 s"
    and c: "check_balance_claim skip F op s0 = Inr ()" and ok: "balance_claim_do_apply F op e fs s = Inr (s', r)"
  shows "conserves s s'"
proof -
  have g: "genesis_balances s0 = genesis_balances s" using fr by (auto simp: fee_frame_def)
  obtain b :: balance_object and part s1 where b0: "index_get (genesis_balances s) (balance_to_claim op) = Inr b"
    and part: "(if is_vesting_balance b then asset_lt (total_claimed op) (gb_balance b) else Inr False) = Inr part"
    and s1: "(if part then
             modify_genesis_balance (balance_to_claim op) (\<lambda>b.
               bind (asset_sub F (gb_balance b) (total_claimed op)) (\<lambda>rest.
               Inr (b\<lparr>gb_balance := rest, last_claim_date := head_block_time s\<rparr>))) s
           else table_remove genesis_balances put_genesis_balances (balance_to_claim op) s) = Inr s1"
    and s': "adjust_balance F (deposit_to_account op) (total_claimed op) s1 = Inr s'"
    using ok unfolding balance_claim_do_apply_def bind_eq_Inr by blast
  have b: "index_find (genesis_balances s) (balance_to_claim op) = Some b" using b0 by (simp add: index_get_def ok_simps)
  note bd = check_claim_bound [OF F v _ c, unfolded g, OF b]
  have 1: "chain_inv s1 \<and> (\<forall>a. ledger a s1 = ledger a s - asset_in a (total_claimed op)) \<and> balances s1 = balances s"
  proof (cases part)
    case True
    then show ?thesis using genesis_tab.modify_step [OF inv, of "balance_to_claim op"] s1 bd
      by (fastforce simp: genesis_in_def asset_in_def asset_sub_def ok_simps fc_laws.safe_Inr [OF F])
  next
    case False
    then have "gb_balance b = total_claimed op" using part bd
      by (cases "gb_balance b"; cases "total_claimed op") (auto simp: is_vesting_balance_def asset_lt_def ok_simps split: if_splits)
    moreover have "table_remove genesis_balances put_genesis_balances (balance_to_claim op) s = Inr s1" using s1 False by simp
    ultimately show ?thesis using genesis_tab.remove_step [OF inv] b by (fastforce simp: genesis_in_def)
  qed
  then have i1: "chain_inv s1" by blast
  show ?thesis using fc_laws.adjust_balance_step [OF F i1 s'] 1 by (auto simp: conserves_def balances_nonneg_def)
qed

section \<open>The evaluators meet the contract\<close>

interpretation account_create_ev: conserving_evaluator account_create_evaluator "\<lambda>op s. True"
  by unfold_locales (auto simp: account_create_evaluator_def account_create_do_evaluate_def ok_simps dest: account_create_conserves)

interpretation account_update_ev: conserving_evaluator account_update_evaluator "\<lambda>op s. True"
  by unfold_locales (auto simp: account_update_evaluator_def account_update_do_evaluate_def ok_simps dest: account_update_conserves)

interpretation account_whitelist_ev: conserving_evaluator account_whitelist_evaluator "\<lambda>op s. True"
  by unfold_locales (auto simp: account_whitelist_evaluator_def account_whitelist_do_evaluate_def ok_simps dest: account_whitelist_conserves)

interpretation account_upgrade_ev: conserving_evaluator account_upgrade_evaluator "\<lambda>op s. True"
  by unfold_locales (auto simp: account_upgrade_evaluator_def account_upgrade_do_evaluate_def ok_simps dest: account_upgrade_conserves)

interpretation witness_create_ev: conserving_evaluator witness_create_evaluator "\<lambda>op s. True"
  by unfold_locales (auto simp: witness_create_evaluator_def witness_create_do_evaluate_def ok_simps dest: witness_create_conserves)

interpretation witness_update_ev: conserving_evaluator witness_update_evaluator "\<lambda>op s. True"
proof unfold_locales
  fix F op fs s s0 s' e r
  assume "chain_inv s" "do_apply witness_update_evaluator F op e fs s = Inr (s', r)"
  then show "conserves s s'" using witness_tab.modify_step [of s]
    by (fastforce simp: witness_update_evaluator_def witness_update_do_apply_def ok_simps conserves_def)
qed (auto simp: witness_update_evaluator_def witness_update_do_evaluate_def ok_simps)

interpretation committee_create_ev: conserving_evaluator committee_create_evaluator "\<lambda>op s. True"
  by unfold_locales (auto simp: committee_create_evaluator_def committee_create_do_evaluate_def ok_simps dest: committee_create_conserves)

interpretation committee_update_ev: conserving_evaluator committee_update_evaluator "\<lambda>op s. True"
proof unfold_locales
  fix F op fs s s0 s' e r
  assume "chain_inv s" "do_apply committee_update_evaluator F op e fs s = Inr (s', r)"
  then show "conserves s s'" using committee_tab.modify_step [of s]
    by (fastforce simp: committee_update_evaluator_def committee_update_do_apply_def ok_simps conserves_def)
qed (auto simp: committee_update_evaluator_def committee_update_do_evaluate_def ok_simps)

interpretation worker_create_ev: conserving_evaluator worker_create_evaluator "\<lambda>op s. True"
  by unfold_locales (auto simp: worker_create_evaluator_def worker_create_do_evaluate_def ok_simps dest: worker_create_conserves)

interpretation balance_claim_ev: conserving_evaluator balance_claim_evaluator balance_claim_valid
proof unfold_locales
  fix F op fs s s0 s' e r
  assume "fc_laws F" "chain_inv s" "balance_claim_valid op s0" "do_evaluate balance_claim_evaluator F op fs s0 = Inr (e, fs)"
    "fee_frame s0 s" "do_apply balance_claim_evaluator F op e fs s = Inr (s', r)"
  then show "conserves s s'" using balance_claim_conserves [of F s op s0]
    by (auto simp: balance_claim_evaluator_def balance_claim_do_evaluate_def ok_simps)
qed (auto simp: balance_claim_evaluator_def balance_claim_do_evaluate_def ok_simps)

interpretation custom_ev: conserving_evaluator custom_evaluator "\<lambda>op s. True"
  by unfold_locales (auto simp: custom_evaluator_def)

section \<open>Valid names\<close>

text \<open>The grammar of the comment: labels separated by dots.\<close>

fun split_dots :: "string \<Rightarrow> string list" where
  "split_dots [] = [[]]"
| "split_dots (c # cs) =
     (if c = CHR ''.'' then [] # split_dots cs
      else case split_dots cs of [] \<Rightarrow> [[c]] | l # ls \<Rightarrow> (c # l) # ls)"

definition valid_label :: "string \<Rightarrow> bool" where
  "valid_label l \<longleftrightarrow> l \<noteq> [] \<and> is_letter (hd l) \<and> is_let_dig (last l) \<and> list_all is_let_dig_hyp l"

lemma split_dots_nonempty: "split_dots cs \<noteq> []"
  by (induction cs) (auto split: list.splits)

lemma split_dots_label: "CHR ''.'' \<notin> set l \<Longrightarrow> split_dots l = [l]"
  by (induction l) auto

lemma split_dots_dot: "CHR ''.'' \<notin> set l \<Longrightarrow> split_dots (l @ CHR ''.'' # r) = l # split_dots r"
  by (induction l) auto

lemma is_letter_hyp [simp]: "is_letter c \<Longrightarrow> is_let_dig_hyp c" "is_let_dig c \<Longrightarrow> is_let_dig_hyp c"
  by (simp_all add: is_let_dig_hyp_def is_let_dig_def)

text \<open>The loop looks at the first, the last and the inner characters of a label separately.\<close>

lemma label_checks:
  assumes l: "l = take (e - b) (drop b name)" and e: "b \<le> e" "e \<le> length name"
  shows "\<not> e - b < 1 \<and> is_letter (name ! b) \<and> is_let_dig (name ! (e - 1)) \<and>
    list_all (\<lambda>i. is_let_dig_hyp (name ! i)) [b + 1 ..< e - 1] \<longleftrightarrow> valid_label l"
proof (cases "l = []")
  case True
  then have "e - b < 1" using l e by auto
  then show ?thesis using True by (simp add: valid_label_def)
next
  case False
  have len: "length l = e - b" using l e by simp
  have n: "0 < e - b" using False unfolding len [symmetric] by simp
  have nth: "l ! i = name ! (b + i)" if "i < e - b" for i using that l e by simp
  have hd: "hd l = name ! b" using False nth [of 0] n by (simp add: hd_conv_nth)
  have last: "last l = name ! (e - 1)" using False nth [of "e - b - 1"] n len e by (simp add: last_conv_nth)
  have inner: "list_all (\<lambda>i. is_let_dig_hyp (name ! i)) [b + 1 ..< e - 1] \<and> is_let_dig_hyp (name ! b) \<and> is_let_dig_hyp (name ! (e - 1)) \<longleftrightarrow>
      list_all is_let_dig_hyp l"
  proof -
    have "list_all is_let_dig_hyp l \<longleftrightarrow> (\<forall>i < e - b. is_let_dig_hyp (name ! (b + i)))" by (simp add: list_all_length len nth)
    also have "\<dots> \<longleftrightarrow> (\<forall>k. b \<le> k \<and> k < e \<longrightarrow> is_let_dig_hyp (name ! k))"
    proof (intro iffI allI impI)
      fix k assume a: "\<forall>i < e - b. is_let_dig_hyp (name ! (b + i))" and k: "b \<le> k \<and> k < e"
      have "k - b < e - b" "b + (k - b) = k" using k by linarith+
      then show "is_let_dig_hyp (name ! k)" using a by metis
    qed simp
    also have "\<dots> \<longleftrightarrow> list_all (\<lambda>i. is_let_dig_hyp (name ! i)) [b + 1 ..< e - 1] \<and> is_let_dig_hyp (name ! b) \<and> is_let_dig_hyp (name ! (e - 1))"
    proof
      assume r: "list_all (\<lambda>i. is_let_dig_hyp (name ! i)) [b + 1 ..< e - 1] \<and> is_let_dig_hyp (name ! b) \<and> is_let_dig_hyp (name ! (e - 1))"
      show "\<forall>k. b \<le> k \<and> k < e \<longrightarrow> is_let_dig_hyp (name ! k)"
      proof (intro allI impI)
        fix k assume "b \<le> k \<and> k < e"
        then consider "k = b" | "k = e - 1" | "b + 1 \<le> k \<and> k < e - 1" by linarith
        then show "is_let_dig_hyp (name ! k)" using r by cases (auto simp: list_all_iff)
      qed
    qed (use n in \<open>auto simp: list_all_iff\<close>)
    finally show ?thesis by blast
  qed
  have "\<not> e - b < 1" using n by simp
  then show ?thesis unfolding valid_label_def hd last using inner False is_letter_hyp by blast
qed

lemma label_split:
  assumes "b \<le> length name"
  defines "l \<equiv> takeWhile (\<lambda>c. c \<noteq> CHR ''.'') (drop b name)"
  shows "l = take (label_end name b - b) (drop b name)" "CHR ''.'' \<notin> set l"
    "label_end name b = length name \<Longrightarrow> drop b name = l"
    "label_end name b \<noteq> length name \<Longrightarrow> drop b name = l @ CHR ''.'' # drop (label_end name b + 1) name"
proof -
  show "l = take (label_end name b - b) (drop b name)" unfolding l_def label_end_def by (simp add: takeWhile_eq_take [symmetric])
  show "CHR ''.'' \<notin> set l" unfolding l_def by (auto dest: set_takeWhileD)
  have d: "drop b name = l @ drop (length l) (drop b name)"
    using takeWhile_dropWhile_id [of "\<lambda>c. c \<noteq> CHR ''.''" "drop b name"]
    unfolding l_def dropWhile_eq_drop by (rule sym)
  have e: "label_end name b = b + length l" by (simp add: label_end_def l_def)
  show "drop b name = l" if "label_end name b = length name"
    using d that e by simp
  assume ne: "label_end name b \<noteq> length name"
  then have lt: "length l < length (drop b name)" using e label_end_bounds(2) [OF assms(1)] assms(1) by auto
  have "drop b name ! length l = CHR ''.''" unfolding l_def using nth_length_takeWhile [of "\<lambda>c. c \<noteq> CHR ''.''" "drop b name"] lt l_def by simp
  then have "drop (length l) (drop b name) = CHR ''.'' # drop (Suc (length l)) (drop b name)" using lt by (metis Cons_nth_drop_Suc)
  then show "drop b name = l @ CHR ''.'' # drop (label_end name b + 1) name" using d e by (simp add: add.commute add.left_commute)
qed

lemma check_labels_iff:
  "b \<le> length name \<Longrightarrow> check_labels name b \<longleftrightarrow> list_all valid_label (split_dots (drop b name))"
proof (induction name b rule: check_labels.induct)
  case (1 name b)
  define e where "e = label_end name b"
  define l where "l = takeWhile (\<lambda>c. c \<noteq> CHR ''.'') (drop b name)"
  note sp = label_split [OF 1(2), folded l_def e_def]
  note bd = label_end_bounds(1) [of b name, folded e_def] label_end_bounds(2) [OF 1(2), folded e_def]
  note ck = label_checks [OF sp(1) bd]
  have step: "check_labels name b \<longleftrightarrow> valid_label l \<and> (e = length name \<or> check_labels name (e + 1))"
    unfolding ck [symmetric] by (subst check_labels.simps) (auto simp: Let_def e_def GRAPHENE_MIN_ACCOUNT_NAME_LENGTH_def)
  show ?case
  proof (cases "e = length name")
    case True
    then show ?thesis using step sp(3) [OF True] split_dots_label [OF sp(2)] by simp
  next
    case False
    have "split_dots (drop b name) = l # split_dots (drop (e + 1) name)" using sp(4) [OF False] split_dots_dot [OF sp(2)] by metis
    moreover have "check_labels name (e + 1) \<longleftrightarrow> list_all valid_label (split_dots (drop (e + 1) name))" if "valid_label l"
    proof (rule "1.IH" [OF e_def])
      note c = ck [THEN iffD2, OF that]
      show "\<not> e - b < GRAPHENE_MIN_ACCOUNT_NAME_LENGTH" "\<not> \<not> is_letter (name ! b)" "\<not> \<not> is_let_dig (name ! (e - 1))"
        "\<not> \<not> list_all (\<lambda>i. is_let_dig_hyp (name ! i)) [b + 1 ..< e - 1]" "e \<noteq> length name"
        using c False by (auto simp: GRAPHENE_MIN_ACCOUNT_NAME_LENGTH_def)
      show "e + 1 \<le> length name" using False bd by simp
    qed
    ultimately show ?thesis using step False by auto
  qed
qed

section \<open>Properties\<close>


end
