(* ===== verification/Operations.thy ===== *)
theory Operations
  imports Lock_Balance Market_Evaluators Asset_Ledger Account_Evaluators
begin

text \<open>
  The operations a transaction may contain (protocol/operations.hpp, protocol/operations.cpp, protocol/base.hpp): the tagged union of the modelled operations,
  their validation and required authorities, and \<^verbatim>\<open>database::apply_operation\<close> (db_block.cpp), which runs the
  registered evaluator of an operation. Any sequence of operations keeps the ledger of every asset, except for the core
  that the creation of an asset adds.

  The fee an operation has to pay comes from the fee schedule in the chain parameters; it is a parameter
  \<open>fees\<close> of the model, about which nothing is assumed.
\<close>

section \<open>Operations and results\<close>

datatype operation_result = Void_Result | Object_Id nat | Asset_Result asset

datatype operation =
    Transfer transfer_operation
  | Limit_Order_Create limit_order_create_operation
  | Limit_Order_Cancel limit_order_cancel_operation
  | Call_Order_Update call_order_update_operation
  | Asset_Create asset_create_operation
  | Asset_Update asset_update_operation
  | Asset_Update_Bitasset asset_update_bitasset_operation
  | Asset_Update_Feed_Producers asset_update_feed_producers_operation
  | Asset_Issue asset_issue_operation
  | Asset_Reserve asset_reserve_operation
  | Asset_Fund_Fee_Pool asset_fund_fee_pool_operation
  | Asset_Settle asset_settle_operation
  | Asset_Global_Settle asset_global_settle_operation
  | Asset_Publish_Feed asset_publish_feed_operation
  | Withdraw_Permission_Create withdraw_permission_create_operation
  | Withdraw_Permission_Update withdraw_permission_update_operation
  | Withdraw_Permission_Claim withdraw_permission_claim_operation
  | Withdraw_Permission_Delete withdraw_permission_delete_operation
  | Vesting_Balance_Create vesting_balance_create_operation
  | Vesting_Balance_Withdraw vesting_balance_withdraw_operation
  | Override_Transfer override_transfer_operation
  | Asset_Claim_Fees asset_claim_fees_operation
  | Lock_Balance lock_balance_operation
  | Set_Lock_Data set_lock_data_operation
  | Unlock_Balance unlock_balance_operation
  | Donation_Balance donation_balance_operation
  | Account_Create account_create_operation
  | Account_Update account_update_operation
  | Account_Whitelist account_whitelist_operation
  | Account_Upgrade account_upgrade_operation
  | Witness_Create witness_create_operation
  | Witness_Update witness_update_operation
  | Committee_Member_Create committee_member_create_operation
  | Committee_Member_Update committee_member_update_operation
  | Worker_Create worker_create_operation
  | Custom custom_operation
  | Balance_Claim balance_claim_operation

definition vesting_create_validate :: "vesting_balance_create_operation \<Rightarrow> unit result" where
  "vesting_create_validate op =
     bind (fc_assert (amount (vc_fee op) \<ge> 0) ''fee.amount >= 0'') (\<lambda>_. fc_assert (amount (vc_amount op) > 0) ''amount.amount > 0'')"

definition vesting_withdraw_validate :: "vesting_balance_withdraw_operation \<Rightarrow> unit result" where
  "vesting_withdraw_validate op =
     bind (fc_assert (amount (vw_fee op) \<ge> 0) ''fee.amount >= 0'') (\<lambda>_. fc_assert (amount (vw_amount op) > 0) ''amount.amount > 0'')"

fun operation_validate :: "operation \<Rightarrow> unit result" where
  "operation_validate (Transfer op) = transfer_validate op"
| "operation_validate (Limit_Order_Create op) = limit_order_create_validate op"
| "operation_validate (Limit_Order_Cancel op) = limit_order_cancel_validate op"
| "operation_validate (Call_Order_Update op) = call_order_update_validate op"
| "operation_validate (Asset_Create op) = asset_create_validate op"
| "operation_validate (Asset_Update op) = asset_update_validate op"
| "operation_validate (Asset_Update_Bitasset op) = asset_update_bitasset_validate op"
| "operation_validate (Asset_Update_Feed_Producers op) = asset_update_feed_producers_validate op"
| "operation_validate (Asset_Issue op) = asset_issue_validate op"
| "operation_validate (Asset_Reserve op) = asset_reserve_validate op"
| "operation_validate (Asset_Fund_Fee_Pool op) = asset_fund_fee_pool_validate op"
| "operation_validate (Asset_Settle op) = asset_settle_validate op"
| "operation_validate (Asset_Global_Settle op) = asset_global_settle_validate op"
| "operation_validate (Asset_Publish_Feed op) = asset_publish_feed_validate op"
| "operation_validate (Withdraw_Permission_Create op) = withdraw_create_validate op"
| "operation_validate (Withdraw_Permission_Update op) = withdraw_update_validate op"
| "operation_validate (Withdraw_Permission_Claim op) = withdraw_claim_validate op"
| "operation_validate (Withdraw_Permission_Delete op) = withdraw_delete_validate op"
| "operation_validate (Vesting_Balance_Create op) = vesting_create_validate op"
| "operation_validate (Vesting_Balance_Withdraw op) = vesting_withdraw_validate op"
| "operation_validate (Override_Transfer op) = override_transfer_validate op"
| "operation_validate (Asset_Claim_Fees op) = asset_claim_fees_validate op"
| "operation_validate (Lock_Balance op) = lock_balance_validate op"
| "operation_validate (Set_Lock_Data op) = set_lock_data_validate op"
| "operation_validate (Unlock_Balance op) = unlock_balance_validate op"
| "operation_validate (Donation_Balance op) = donation_balance_validate op"
| "operation_validate (Account_Create op) = account_create_validate op"
| "operation_validate (Account_Update op) = account_update_validate op"
| "operation_validate (Account_Whitelist op) = account_whitelist_validate op"
| "operation_validate (Account_Upgrade op) = account_upgrade_validate op"
| "operation_validate (Witness_Create op) = witness_create_validate op"
| "operation_validate (Witness_Update op) = witness_update_validate op"
| "operation_validate (Committee_Member_Create op) = committee_create_validate op"
| "operation_validate (Committee_Member_Update op) = committee_update_validate op"
| "operation_validate (Worker_Create op) = worker_create_validate op"
| "operation_validate (Custom op) = custom_validate op"
| "operation_validate (Balance_Claim op) = balance_claim_validate op"

text \<open>The account that pays for an operation.\<close>

fun operation_fee_payer :: "operation \<Rightarrow> nat" where
  "operation_fee_payer (Transfer op) = fee_payer transfer_evaluator op"
| "operation_fee_payer (Limit_Order_Create op) = fee_payer limit_order_create_evaluator op"
| "operation_fee_payer (Limit_Order_Cancel op) = fee_payer limit_order_cancel_evaluator op"
| "operation_fee_payer (Call_Order_Update op) = fee_payer call_order_update_evaluator op"
| "operation_fee_payer (Asset_Create op) = fee_payer asset_create_evaluator op"
| "operation_fee_payer (Asset_Update op) = fee_payer asset_update_evaluator op"
| "operation_fee_payer (Asset_Update_Bitasset op) = fee_payer asset_update_bitasset_evaluator op"
| "operation_fee_payer (Asset_Update_Feed_Producers op) = fee_payer asset_update_feed_producers_evaluator op"
| "operation_fee_payer (Asset_Issue op) = fee_payer asset_issue_evaluator op"
| "operation_fee_payer (Asset_Reserve op) = fee_payer asset_reserve_evaluator op"
| "operation_fee_payer (Asset_Fund_Fee_Pool op) = fee_payer asset_fund_fee_pool_evaluator op"
| "operation_fee_payer (Asset_Settle op) = fee_payer asset_settle_evaluator op"
| "operation_fee_payer (Asset_Global_Settle op) = fee_payer asset_global_settle_evaluator op"
| "operation_fee_payer (Asset_Publish_Feed op) = fee_payer asset_publish_feeds_evaluator op"
| "operation_fee_payer (Withdraw_Permission_Create op) = fee_payer withdraw_create_evaluator op"
| "operation_fee_payer (Withdraw_Permission_Update op) = fee_payer withdraw_update_evaluator op"
| "operation_fee_payer (Withdraw_Permission_Claim op) = fee_payer withdraw_claim_evaluator op"
| "operation_fee_payer (Withdraw_Permission_Delete op) = fee_payer withdraw_delete_evaluator op"
| "operation_fee_payer (Vesting_Balance_Create op) = fee_payer vesting_create_evaluator op"
| "operation_fee_payer (Vesting_Balance_Withdraw op) = fee_payer vesting_withdraw_evaluator op"
| "operation_fee_payer (Override_Transfer op) = fee_payer override_transfer_evaluator op"
| "operation_fee_payer (Asset_Claim_Fees op) = fee_payer asset_claim_fees_evaluator op"
| "operation_fee_payer (Lock_Balance op) = fee_payer lock_balance_evaluator op"
| "operation_fee_payer (Set_Lock_Data op) = fee_payer set_lock_data_evaluator op"
| "operation_fee_payer (Unlock_Balance op) = fee_payer unlock_balance_evaluator op"
| "operation_fee_payer (Donation_Balance op) = fee_payer donation_balance_evaluator op"
| "operation_fee_payer (Account_Create op) = fee_payer account_create_evaluator op"
| "operation_fee_payer (Account_Update op) = fee_payer account_update_evaluator op"
| "operation_fee_payer (Account_Whitelist op) = fee_payer account_whitelist_evaluator op"
| "operation_fee_payer (Account_Upgrade op) = fee_payer account_upgrade_evaluator op"
| "operation_fee_payer (Witness_Create op) = fee_payer witness_create_evaluator op"
| "operation_fee_payer (Witness_Update op) = fee_payer witness_update_evaluator op"
| "operation_fee_payer (Committee_Member_Create op) = fee_payer committee_create_evaluator op"
| "operation_fee_payer (Committee_Member_Update op) = fee_payer committee_update_evaluator op"
| "operation_fee_payer (Worker_Create op) = fee_payer worker_create_evaluator op"
| "operation_fee_payer (Custom op) = fee_payer custom_evaluator op"
| "operation_fee_payer (Balance_Claim op) = fee_payer balance_claim_evaluator op"

text \<open>
  The active authority of the payer is always needed. A buyback account needs the issuer of the asset as well, a change of the owner authority
  needs the owner authority, and a claim of a genesis balance is signed by the key that owns it. The accounts in
  \<^verbatim>\<open>required_auths\<close> of a custom operation are not asked for.
\<close>

definition single_key_authority :: "public_key \<Rightarrow> authority" where
  "single_key_authority k = \<lparr> weight_threshold = 1, account_auths = [], key_auths = [(k, 1)], address_auths = [] \<rparr>"

definition operation_get_required_authorities :: "operation \<Rightarrow> required_auths \<Rightarrow> required_auths" where
  "operation_get_required_authorities op r =
     (let r1 = r\<lparr>required_active := insort_insert (operation_fee_payer op) (required_active r)\<rparr> in
      case op of
        Account_Create x \<Rightarrow>
          let r2 = r1\<lparr>required_active := insort_insert (acc_registrar x) (required_active r1)\<rparr> in
          (case acc_buyback x of None \<Rightarrow> r2
           | Some bb \<Rightarrow> r2\<lparr>required_active := insort_insert (asset_to_buy_issuer bb) (required_active r2)\<rparr>)
      | Account_Update x \<Rightarrow>
          if is_owner_update x then r1\<lparr>required_owner := insort_insert (aup_account x) (required_owner r1)\<rparr>
          else r1\<lparr>required_active := insort_insert (aup_account x) (required_active r1)\<rparr>
      | Balance_Claim x \<Rightarrow> r1\<lparr>other_auths := other_auths r1 @ [single_key_authority (balance_owner_key x)]\<rparr>
      | _ \<Rightarrow> r1)"

section \<open>Running an operation\<close>

record transaction_evaluation_state =
  skip_fee :: bool
  skip_fee_schedule_check :: bool

definition fresh_evaluation_state :: transaction_evaluation_state where
  "fresh_evaluation_state = \<lparr> skip_fee = False, skip_fee_schedule_check = False \<rparr>"

definition run_evaluator ::
  "fc_lib \<Rightarrow> transaction_evaluation_state \<Rightarrow> share_type \<Rightarrow> ('op, 'e, 'r) evaluator \<Rightarrow> ('r \<Rightarrow> operation_result) \<Rightarrow> 'op \<Rightarrow> database \<Rightarrow>
   (database \<times> operation_result) result" where
  "run_evaluator F ts required ev to_result op s =
     bind (start_evaluate F ev (skip_fee ts) (skip_fee_schedule_check ts) required op s) (\<lambda>(s', r). Inr (s', to_result r))"

definition settle_result :: "asset + nat \<Rightarrow> operation_result" where
  "settle_result r = (case r of Inl a \<Rightarrow> Asset_Result a | Inr i \<Rightarrow> Object_Id i)"

fun apply_evaluator ::
  "fc_lib \<Rightarrow> transaction_evaluation_state \<Rightarrow> share_type \<Rightarrow> operation \<Rightarrow> database \<Rightarrow> (database \<times> operation_result) result" where
  "apply_evaluator F ts fee (Transfer op) s = run_evaluator F ts fee transfer_evaluator (\<lambda>_. Void_Result) op s"
| "apply_evaluator F ts fee (Limit_Order_Create op) s = run_evaluator F ts fee limit_order_create_evaluator Object_Id op s"
| "apply_evaluator F ts fee (Limit_Order_Cancel op) s = run_evaluator F ts fee limit_order_cancel_evaluator Asset_Result op s"
| "apply_evaluator F ts fee (Call_Order_Update op) s = run_evaluator F ts fee call_order_update_evaluator (\<lambda>_. Void_Result) op s"
| "apply_evaluator F ts fee (Asset_Create op) s = run_evaluator F ts fee asset_create_evaluator Object_Id op s"
| "apply_evaluator F ts fee (Asset_Update op) s = run_evaluator F ts fee asset_update_evaluator (\<lambda>_. Void_Result) op s"
| "apply_evaluator F ts fee (Asset_Update_Bitasset op) s = run_evaluator F ts fee asset_update_bitasset_evaluator (\<lambda>_. Void_Result) op s"
| "apply_evaluator F ts fee (Asset_Update_Feed_Producers op) s =
     run_evaluator F ts fee asset_update_feed_producers_evaluator (\<lambda>_. Void_Result) op s"
| "apply_evaluator F ts fee (Asset_Issue op) s = run_evaluator F ts fee asset_issue_evaluator (\<lambda>_. Void_Result) op s"
| "apply_evaluator F ts fee (Asset_Reserve op) s = run_evaluator F ts fee asset_reserve_evaluator (\<lambda>_. Void_Result) op s"
| "apply_evaluator F ts fee (Asset_Fund_Fee_Pool op) s = run_evaluator F ts fee asset_fund_fee_pool_evaluator (\<lambda>_. Void_Result) op s"
| "apply_evaluator F ts fee (Asset_Settle op) s = run_evaluator F ts fee asset_settle_evaluator settle_result op s"
| "apply_evaluator F ts fee (Asset_Global_Settle op) s = run_evaluator F ts fee asset_global_settle_evaluator (\<lambda>_. Void_Result) op s"
| "apply_evaluator F ts fee (Asset_Publish_Feed op) s = run_evaluator F ts fee asset_publish_feeds_evaluator (\<lambda>_. Void_Result) op s"
| "apply_evaluator F ts fee (Withdraw_Permission_Create op) s = run_evaluator F ts fee withdraw_create_evaluator Object_Id op s"
| "apply_evaluator F ts fee (Withdraw_Permission_Update op) s = run_evaluator F ts fee withdraw_update_evaluator (\<lambda>_. Void_Result) op s"
| "apply_evaluator F ts fee (Withdraw_Permission_Claim op) s = run_evaluator F ts fee withdraw_claim_evaluator (\<lambda>_. Void_Result) op s"
| "apply_evaluator F ts fee (Withdraw_Permission_Delete op) s = run_evaluator F ts fee withdraw_delete_evaluator (\<lambda>_. Void_Result) op s"
| "apply_evaluator F ts fee (Vesting_Balance_Create op) s = run_evaluator F ts fee vesting_create_evaluator Object_Id op s"
| "apply_evaluator F ts fee (Vesting_Balance_Withdraw op) s = run_evaluator F ts fee vesting_withdraw_evaluator (\<lambda>_. Void_Result) op s"
| "apply_evaluator F ts fee (Override_Transfer op) s = run_evaluator F ts fee override_transfer_evaluator (\<lambda>_. Void_Result) op s"
| "apply_evaluator F ts fee (Asset_Claim_Fees op) s = run_evaluator F ts fee asset_claim_fees_evaluator (\<lambda>_. Void_Result) op s"
| "apply_evaluator F ts fee (Lock_Balance op) s = run_evaluator F ts fee lock_balance_evaluator (\<lambda>_. Void_Result) op s"
| "apply_evaluator F ts fee (Set_Lock_Data op) s = run_evaluator F ts fee set_lock_data_evaluator (\<lambda>_. Void_Result) op s"
| "apply_evaluator F ts fee (Unlock_Balance op) s = run_evaluator F ts fee unlock_balance_evaluator (\<lambda>_. Void_Result) op s"
| "apply_evaluator F ts fee (Donation_Balance op) s = run_evaluator F ts fee donation_balance_evaluator (\<lambda>_. Void_Result) op s"
| "apply_evaluator F ts fee (Account_Create op) s = run_evaluator F ts fee account_create_evaluator Object_Id op s"
| "apply_evaluator F ts fee (Account_Update op) s = run_evaluator F ts fee account_update_evaluator (\<lambda>_. Void_Result) op s"
| "apply_evaluator F ts fee (Account_Whitelist op) s = run_evaluator F ts fee account_whitelist_evaluator (\<lambda>_. Void_Result) op s"
| "apply_evaluator F ts fee (Account_Upgrade op) s = run_evaluator F ts fee account_upgrade_evaluator (\<lambda>_. Void_Result) op s"
| "apply_evaluator F ts fee (Witness_Create op) s = run_evaluator F ts fee witness_create_evaluator Object_Id op s"
| "apply_evaluator F ts fee (Witness_Update op) s = run_evaluator F ts fee witness_update_evaluator (\<lambda>_. Void_Result) op s"
| "apply_evaluator F ts fee (Committee_Member_Create op) s = run_evaluator F ts fee committee_create_evaluator Object_Id op s"
| "apply_evaluator F ts fee (Committee_Member_Update op) s = run_evaluator F ts fee committee_update_evaluator (\<lambda>_. Void_Result) op s"
| "apply_evaluator F ts fee (Worker_Create op) s = run_evaluator F ts fee worker_create_evaluator Object_Id op s"
| "apply_evaluator F ts fee (Custom op) s = run_evaluator F ts fee custom_evaluator (\<lambda>_. Void_Result) op s"
| "apply_evaluator F ts fee (Balance_Claim op) s = run_evaluator F ts fee balance_claim_evaluator (\<lambda>_. Void_Result) op s"

definition apply_operation ::
  "fc_lib \<Rightarrow> (operation \<Rightarrow> database \<Rightarrow> share_type) \<Rightarrow> transaction_evaluation_state \<Rightarrow> operation \<Rightarrow> database \<Rightarrow> (database \<times> operation_result) result" where
  "apply_operation F fees ts op s = apply_evaluator F ts (fees op s) op s"

section \<open>Every operation keeps the ledger\<close>

text \<open>
  What the state and the operation have to satisfy for the ledger to be kept: amounts are 64-bit, a margin position is in the
  backing asset of its debt, and the settlement price of a settled asset is between the asset and its backing asset.
\<close>

definition operation_ready :: "operation \<Rightarrow> database \<Rightarrow> bool" where
  "operation_ready op s \<longleftrightarrow> operation_validate op = Inr () \<and>
     (case op of
        Limit_Order_Create x \<Rightarrow> in_int64 (amount (amount_to_sell x)) \<and> in_int64 (amount (min_to_receive x))
      | Call_Order_Update x \<Rightarrow> call_order_update_valid x s
      | Asset_Settle x \<Rightarrow> asset_settle_valid x s
      | Balance_Claim x \<Rightarrow> balance_claim_valid x s
      | _ \<Rightarrow> True)"

text \<open>The core an operation creates: only the creation of an asset does, by halving its fee.\<close>

definition created_core :: "operation \<Rightarrow> database \<Rightarrow> int" where
  "created_core op s =
     (case op of
        Asset_Create x \<Rightarrow>
          (case prepare_fee (ac_issuer x) (ac_fee x) s of
             Inl e \<Rightarrow> 0
           | Inr fs \<Rightarrow> if asset_id (ac_fee x) = 0 then core_fee_paid fs mod 2 else core_fee_paid fs - core_fee_paid fs div 2)
      | _ \<Rightarrow> 0)"

context charging_evaluator
begin

lemma run_evaluator_conserves:
  assumes "run_evaluator F ts required ev f op s = Inr (s', r)" "fc_laws F" "chain_inv s" "\<not> skip_fee ts" "valid op s"
  shows "conserves s s'"
  using assms start_evaluate_conserves by (auto simp: run_evaluator_def ok_simps)

end

lemma run_evaluator_Inr:
  "run_evaluator F ts required ev f op s = Inr (s', r) \<Longrightarrow>
   \<exists>x. start_evaluate F ev (skip_fee ts) (skip_fee_schedule_check ts) required op s = Inr (s', x)"
  by (auto simp: run_evaluator_def ok_simps)

lemma prepare_fee_nonneg: "prepare_fee i fee s = Inr fs \<Longrightarrow> 0 \<le> core_fee_paid fs"
  using prepare_fee_ready by (auto simp: fee_ready_def)

lemma created_core_nonneg: "0 \<le> created_core op s"
proof (cases op)
  case (Asset_Create x)
  then show ?thesis
    by (auto simp: created_core_def split: sum.split dest!: prepare_fee_nonneg)
qed (simp_all add: created_core_def)

lemmas evaluator_contracts =
  transfer_ev.run_evaluator_conserves limit_create_ev.run_evaluator_conserves limit_cancel_ev.run_evaluator_conserves
  call_update_ev.run_evaluator_conserves update_ev.run_evaluator_conserves update_bitasset_ev.run_evaluator_conserves
  producers_ev.run_evaluator_conserves issue_ev.run_evaluator_conserves reserve_ev.run_evaluator_conserves
  fund_ev.run_evaluator_conserves settle_ev.run_evaluator_conserves global_settle_ev.run_evaluator_conserves
  publish_ev.run_evaluator_conserves withdraw_create_ev.run_evaluator_conserves withdraw_update_ev.run_evaluator_conserves
  withdraw_claim_ev.run_evaluator_conserves withdraw_delete_ev.run_evaluator_conserves
  vesting_create_ev.run_evaluator_conserves vesting_withdraw_ev.run_evaluator_conserves override_ev.run_evaluator_conserves
  claim_fees_ev.run_evaluator_conserves lock_ev.run_evaluator_conserves set_lock_ev.run_evaluator_conserves
  unlock_ev.run_evaluator_conserves donation_ev.run_evaluator_conserves
  account_create_ev.run_evaluator_conserves account_update_ev.run_evaluator_conserves account_whitelist_ev.run_evaluator_conserves
  account_upgrade_ev.run_evaluator_conserves witness_create_ev.run_evaluator_conserves witness_update_ev.run_evaluator_conserves
  committee_create_ev.run_evaluator_conserves committee_update_ev.run_evaluator_conserves worker_create_ev.run_evaluator_conserves
  custom_ev.run_evaluator_conserves balance_claim_ev.run_evaluator_conserves

text \<open>All evaluators but one conserve; the remaining one has its exact effect.\<close>

lemma apply_operation_conserves:
  assumes F: "fc_laws F" and inv: "chain_inv s" and rd: "operation_ready op s" and ts: "\<not> skip_fee ts"
    and op: "\<nexists>x. op = Asset_Create x" and ok: "apply_operation F fees ts op s = Inr (s', r)"
  shows "conserves s s'"
  using ok rd op F inv ts
  by (cases op) (auto simp: apply_operation_def operation_ready_def limit_order_create_valid_def elim: evaluator_contracts)

lemma apply_operation_step:
  assumes F: "fc_laws F" and inv: "chain_inv s" and rd: "operation_ready op s" and ts: "\<not> skip_fee ts"
    and ok: "apply_operation F fees ts op s = Inr (s', r)"
  shows "chain_inv s' \<and> (\<forall>a. ledger a s' = ledger a s + core_in a (created_core op s)) \<and> (balances_nonneg s \<longrightarrow> balances_nonneg s')"
proof (cases "\<exists>x. op = Asset_Create x")
  case True
  then obtain x where x: "op = Asset_Create x" by blast
  obtain i where i: "start_evaluate F asset_create_evaluator False (skip_fee_schedule_check ts) (fees op s) x s = Inr (s', i)"
    using ok ts by (auto simp: apply_operation_def x dest!: run_evaluator_Inr)
  have "asset_create_validate x = Inr ()" using rd by (simp add: operation_ready_def x)
  from asset_create_effect [OF F inv this i] show ?thesis by (auto simp: created_core_def x)
next
  case False
  then have "created_core op s = 0" by (cases op) (auto simp: created_core_def)
  then show ?thesis using apply_operation_conserves [OF F inv rd ts _ ok] False by (auto simp: conserves_def core_in_def)
qed

end
