(* ===== verification/Elections.thy ===== *)
theory Elections
  imports Budget Operations "HOL-Library.Log_Nat"
begin

text \<open>
  Votes (db_maint.cpp, vote_count.hpp): the tally of the stake behind every vote, the number of witnesses and committee members the
  stake asks for, the election of the objects with most votes, and the authority of the elected, weighted by their votes. The tally goes
  through the accounts in the order of their names and pays out the fees of each account after counting its stake, so that it sees the
  cashback of accounts before it.

  Votes are 64-bit counters that wrap. The minimal numbers of witnesses and committee members are immutable parameters of the chain and
  arguments here. Reading outside a buffer, the front of an empty vector and \<^verbatim>\<open>find_msb\<close> of zero are undefined in the source
  and errors here.
\<close>

section \<open>The authority of the elected\<close>

fun flat_put :: "'k :: linorder \<Rightarrow> 'v \<Rightarrow> ('k \<times> 'v) list \<Rightarrow> ('k \<times> 'v) list" where
  "flat_put k v [] = [(k, v)]"
| "flat_put k v ((k', v') # xs) =
     (if k < k' then (k, v) # (k', v') # xs else if k = k' then (k, v) # xs else (k', v') # flat_put k v xs)"

record vote_counter =
  vc_last_votes :: u64
  vc_total_votes :: u64
  vc_bitshift :: "nat option"
  vc_auth :: authority

definition empty_authority :: authority where
  "empty_authority = \<lparr> weight_threshold = 0, account_auths = [], key_auths = [], address_auths = [] \<rparr>"

definition new_vote_counter :: vote_counter where
  "new_vote_counter = \<lparr> vc_last_votes = - 1, vc_total_votes = 0, vc_bitshift = None, vc_auth = empty_authority \<rparr>"

definition find_msb :: "u64 \<Rightarrow> nat" where
  "find_msb w = nat (bitlen (uint w)) - 1"

definition add_account_authority :: "nat \<Rightarrow> u16 \<Rightarrow> authority \<Rightarrow> authority" where
  "add_account_authority k w au = au\<lparr>account_auths := flat_put k w (account_auths au)\<rparr>"

definition vc_add :: "nat \<Rightarrow> u64 \<Rightarrow> vote_counter \<Rightarrow> vote_counter" where
  "vc_add who v vc =
     (if v = 0 then vc
      else
        let shift = (case vc_bitshift vc of None \<Rightarrow> find_msb v - 15 | Some b \<Rightarrow> b);
            scaled_votes = max (drop_bit shift v) 1
        in vc\<lparr>vc_last_votes := v, vc_bitshift := Some shift, vc_total_votes := vc_total_votes vc + scaled_votes,
              vc_auth := add_account_authority who (ucast scaled_votes) (vc_auth vc)\<rparr>)"

definition vc_finish :: "vote_counter \<Rightarrow> authority \<Rightarrow> authority" where
  "vc_finish vc out_auth =
     (if vc_total_votes vc = 0 then out_auth
      else (vc_auth vc)\<lparr>weight_threshold := drop_bit 1 (ucast (vc_total_votes vc)) + 1\<rparr>)"

definition vc_is_empty :: "vote_counter \<Rightarrow> bool" where
  "vc_is_empty vc \<longleftrightarrow> vc_total_votes vc = 0"

definition count_votes :: "(nat \<times> u64) list \<Rightarrow> vote_counter" where
  "count_votes vs = fold (\<lambda>(who, v). vc_add who v) vs new_vote_counter"

section \<open>The tally\<close>

record vote_buffers =
  vote_tally :: "u64 list"
  witness_histogram :: "u64 list"
  committee_histogram :: "u64 list"
  total_voting_stake :: u64

definition GRAPHENE_PROXY_TO_SELF_ACCOUNT :: nat where "GRAPHENE_PROXY_TO_SELF_ACCOUNT = 5"

definition start_tally :: "database \<Rightarrow> vote_buffers" where
  "start_tally s = \<lparr> vote_tally = replicate (unat (next_available_vote_id s)) 0,
     witness_histogram = replicate (unat (maximum_witness_count (parameters s)) div 2 + 1) 0,
     committee_histogram = replicate (unat (maximum_committee_count (parameters s)) div 2 + 1) 0, total_voting_stake = 0 \<rparr>"

definition add_at :: "nat \<Rightarrow> u64 \<Rightarrow> u64 list \<Rightarrow> u64 list" where
  "add_at i x xs = xs[i := xs ! i + x]"

definition voting_stake_of :: "nat \<Rightarrow> account_object \<Rightarrow> database \<Rightarrow> u64 result" where
  "voting_stake_of i acct s =
     bind (index_get (stats s) (statistics acct)) (\<lambda>t.
     bind (case cashback_vb acct of
             None \<Rightarrow> Inr 0
           | Some b \<Rightarrow> bind (index_get (vesting_balances s) b) (\<lambda>vb. Inr (amount (vb_balance vb)))) (\<lambda>cashback.
     Inr (word_of_int (total_core_in_orders t + cashback + amount (get_balance s i 0)))))"

definition opinion_of :: "account_object \<Rightarrow> database \<Rightarrow> account_object result" where
  "opinion_of acct s =
     (if voting_account (acct_options acct) = GRAPHENE_PROXY_TO_SELF_ACCOUNT then Inr acct
      else index_get (accounts s) (voting_account (acct_options acct)))"

definition count_vote :: "u64 \<Rightarrow> vote_id \<Rightarrow> u64 list \<Rightarrow> u64 list" where
  "count_vote stake v tally =
     (if unat (vote_instance v) < length tally then add_at (unat (vote_instance v)) stake tally else tally)"

definition count_number :: "u16 \<Rightarrow> u16 \<Rightarrow> u64 \<Rightarrow> u64 list \<Rightarrow> u64 list" where
  "count_number n maximum stake histogram =
     (if n \<le> maximum then add_at (min (unat n div 2) (length histogram - 1)) stake histogram else histogram)"

definition tally_account :: "nat \<Rightarrow> vote_buffers \<Rightarrow> database \<Rightarrow> vote_buffers result" where
  "tally_account i buf s =
     bind (index_get (accounts s) i) (\<lambda>acct.
     if count_non_member_votes (parameters s) \<or> is_member acct (head_block_time s) then
       bind (opinion_of acct s) (\<lambda>opinion.
       bind (voting_stake_of i acct s) (\<lambda>stake.
       let os = acct_options opinion in
       Inr (buf\<lparr>vote_tally := fold (count_vote stake) (votes os) (vote_tally buf),
             witness_histogram := count_number (num_witness os) (maximum_witness_count (parameters s)) stake (witness_histogram buf),
             committee_histogram := count_number (num_committee os) (maximum_committee_count (parameters s)) stake (committee_histogram buf),
             total_voting_stake := total_voting_stake buf + stake\<rparr>)))
     else Inr buf)"

definition maintain_account :: "fc_lib \<Rightarrow> nat \<Rightarrow> vote_buffers \<times> database \<Rightarrow> (vote_buffers \<times> database) result" where
  "maintain_account F i st =
     (case st of (buf, s) \<Rightarrow>
     bind (tally_account i buf s) (\<lambda>buf'.
     bind (process_account_fees F i s) (\<lambda>s'.
     Inr (buf', s'))))"

definition name_before :: "nat \<times> account_object \<Rightarrow> nat \<times> account_object \<Rightarrow> bool" where
  "name_before x y \<longleftrightarrow> ord_class.lexordp (map of_char (acct_name (snd x)) :: nat list) (map of_char (acct_name (snd y)))"

definition accounts_by_name :: "database \<Rightarrow> nat list" where
  "accounts_by_name s = map fst (sort_by name_before (rows (accounts s)))"

definition perform_account_maintenance :: "fc_lib \<Rightarrow> database \<Rightarrow> (vote_buffers \<times> database) result" where
  "perform_account_maintenance F s = fold_result (maintain_account F) (accounts_by_name s) (start_tally s, s)"

section \<open>The election\<close>

definition votes_for :: "vote_buffers \<Rightarrow> vote_id \<Rightarrow> u64 result" where
  "votes_for buf v =
     (if unat (vote_instance v) < length (vote_tally buf) then Inr (vote_tally buf ! unat (vote_instance v))
      else Inl (Chain_Exception ''vote id out of range''))"

fun map_result :: "('a \<Rightarrow> 'b result) \<Rightarrow> 'a list \<Rightarrow> 'b list result" where
  "map_result f [] = Inr []"
| "map_result f (x # xs) = bind (f x) (\<lambda>y. bind (map_result f xs) (\<lambda>ys. Inr (y # ys)))"

record votable =
  vt_object :: nat
  vt_account :: nat
  vt_vote_id :: vote_id
  vt_votes :: u64

definition votable_before :: "votable \<Rightarrow> votable \<Rightarrow> bool" where
  "votable_before a b \<longleftrightarrow>
     (if sint (vt_votes a) \<noteq> sint (vt_votes b) then sint (vt_votes a) > sint (vt_votes b)
      else vote_instance (vt_vote_id a) < vote_instance (vt_vote_id b))"

definition sort_votable_objects :: "vote_buffers \<Rightarrow> nat \<Rightarrow> (nat \<times> nat \<times> vote_id) list \<Rightarrow> votable list result" where
  "sort_votable_objects buf how_many objects =
     bind (map_result (\<lambda>(i, acct, v). bind (votes_for buf v) (\<lambda>n. Inr \<lparr> vt_object = i, vt_account = acct, vt_vote_id = v, vt_votes = n \<rparr>)) objects)
       (\<lambda>refs.
     if refs = [] then Inl (Chain_Exception ''front() of an empty vector'')
     else Inr (take (min how_many (length refs)) (sort_by votable_before refs)))"

text \<open>How many objects the stake asks for: the loop over the histogram until more than half of the stake is covered.\<close>

fun witness_count_loop :: "fc_lib \<Rightarrow> share_type \<Rightarrow> u64 list \<Rightarrow> share_type \<Rightarrow> nat \<Rightarrow> nat result" where
  "witness_count_loop F target [] tally n = Inr n"
| "witness_count_loop F target (h # hs) tally n =
     (if tally \<le> target then bind (safe_add F tally (sint h)) (\<lambda>t. witness_count_loop F target hs t (n + 1)) else Inr n)"

fun committee_count_loop :: "share_type \<Rightarrow> u64 list \<Rightarrow> u64 \<Rightarrow> nat \<Rightarrow> nat" where
  "committee_count_loop target [] tally n = n"
| "committee_count_loop target (h # hs) tally n =
     (if sint tally \<le> target then committee_count_loop target hs (tally + h) (n + 1) else n)"

definition stake_target_of :: "vote_buffers \<Rightarrow> share_type" where
  "stake_target_of buf = sint ((total_voting_stake buf - hd (witness_histogram buf)) div 2)"

definition witness_count :: "fc_lib \<Rightarrow> vote_buffers \<Rightarrow> nat result" where
  "witness_count F buf =
     (if stake_target_of buf > 0 then witness_count_loop F (stake_target_of buf) (tl (witness_histogram buf)) 0 0 else Inr 0)"

definition committee_member_count :: "vote_buffers \<Rightarrow> nat" where
  "committee_member_count buf =
     (if stake_target_of buf > 0 then committee_count_loop (stake_target_of buf) (tl (committee_histogram buf)) 0 0 else 0)"

definition HARDFORK_533_TIME :: time_point_sec where "HARDFORK_533_TIME = 1456250400"

text \<open>The authority as it was before hardfork 533: votes scaled by the total, over the accounts in order.\<close>

definition old_weights :: "votable list \<Rightarrow> (nat \<times> u64) list" where
  "old_weights refs = fold (\<lambda>v m. if map_of m (vt_account v) = None then flat_put (vt_account v) (vt_votes v) m else m) refs []"

definition old_authority :: "votable list \<Rightarrow> authority \<Rightarrow> authority result" where
  "old_authority refs au =
     (let total = fold (\<lambda>v t. t + vt_votes v) refs 0 in
      if total = 0 then Inl (Chain_Exception ''find_msb of zero'')
      else
        let bits_to_drop = find_msb total - 15;
            scaled = map (\<lambda>(a, v). (a, ucast (max (drop_bit bits_to_drop v) 1) :: u16)) (old_weights refs);
            threshold = fold (\<lambda>(a, w) t. t + ucast w) scaled 0 :: u32
        in Inr ((clear_authority au)\<lparr>account_auths := scaled, weight_threshold := threshold div 2 + 1\<rparr>))"

definition elected_authority :: "votable list \<Rightarrow> time_point_sec \<Rightarrow> authority \<Rightarrow> authority result" where
  "elected_authority refs now au =
     (if now < HARDFORK_533_TIME then old_authority refs au
      else Inr (vc_finish (count_votes (map (\<lambda>v. (vt_account v, vt_votes v)) refs)) au))"

definition set_active :: "nat \<Rightarrow> (authority \<Rightarrow> authority result) \<Rightarrow> database \<Rightarrow> database result" where
  "set_active i f s = modify_account i (\<lambda>a. bind (f (active_authority a)) (\<lambda>au. Inr (a\<lparr>active_authority := au\<rparr>))) s"

definition update_active_witnesses :: "fc_lib \<Rightarrow> u16 \<Rightarrow> vote_buffers \<Rightarrow> database \<Rightarrow> database result" where
  "update_active_witnesses F min_witness_count buf s =
     bind (witness_count F buf) (\<lambda>n.
     bind (sort_votable_objects buf (max (n * 2 + 1) (unat min_witness_count))
            (map (\<lambda>(i, w). (i, witness_account w, wit_vote_id w)) (rows (witnesses s)))) (\<lambda>wits.
     bind (fold_result (\<lambda>i. modify_witness i (\<lambda>w. bind (votes_for buf (wit_vote_id w)) (\<lambda>v. Inr (w\<lparr>wit_total_votes := v\<rparr>))))
            (map fst (rows (witnesses s))) s) (\<lambda>s1.
     bind (set_active GRAPHENE_WITNESS_ACCOUNT (elected_authority wits (head_block_time s)) s1) (\<lambda>s2.
     Inr (s2\<lparr>active_witnesses := sort (map vt_object wits)\<rparr>)))))"

definition update_active_committee_members :: "u16 \<Rightarrow> vote_buffers \<Rightarrow> database \<Rightarrow> database result" where
  "update_active_committee_members min_committee_member_count buf s =
     bind (sort_votable_objects buf (max (committee_member_count buf * 2 + 1) (unat min_committee_member_count))
            (map (\<lambda>(i, c). (i, committee_member_account c, cm_vote_id c)) (rows (committee_members s)))) (\<lambda>members.
     bind (fold_result (\<lambda>v. modify_committee_member (vt_object v) (\<lambda>c. Inr (c\<lparr>cm_total_votes := vt_votes v\<rparr>))) members s) (\<lambda>s1.
     bind (if members \<noteq> [] then
             bind (set_active GRAPHENE_COMMITTEE_ACCOUNT (elected_authority members (head_block_time s)) s1) (\<lambda>s2.
             bind (index_get (accounts s2) GRAPHENE_COMMITTEE_ACCOUNT) (\<lambda>committee.
             set_active GRAPHENE_RELAXED_COMMITTEE_ACCOUNT (\<lambda>_. Inr (active_authority committee)) s2))
           else Inr s1) (\<lambda>s3.
     Inr (s3\<lparr>active_committee_members := sort (map vt_object members)\<rparr>))))"

definition worker_account_before :: "nat \<times> worker_object \<Rightarrow> nat \<times> worker_object \<Rightarrow> bool" where
  "worker_account_before x y \<longleftrightarrow> worker_account (snd x) < worker_account (snd y)"

definition update_worker_votes :: "vote_buffers \<Rightarrow> database \<Rightarrow> database result" where
  "update_worker_votes buf s =
     fold_result (\<lambda>i. modify_worker i (\<lambda>w.
         bind (votes_for buf (vote_for w)) (\<lambda>f.
         bind (if head_block_time s < HARDFORK_607_TIME then votes_for buf (vote_against w) else Inr 0) (\<lambda>a.
         Inr (w\<lparr>total_votes_for := f, total_votes_against := a\<rparr>)))))
       (map fst (sort_by worker_account_before (rows (workers s)))) s"

section \<open>Top holders\<close>

definition top_holder_before :: "account_balance_object \<Rightarrow> account_balance_object \<Rightarrow> bool" where
  "top_holder_before x y \<longleftrightarrow> balance x > balance y \<or> balance x = balance y \<and> ab_owner x < ab_owner y"

definition top_holders :: "nat \<Rightarrow> nat \<Rightarrow> nat \<Rightarrow> database \<Rightarrow> (nat \<times> u64) list" where
  "top_holders a n but s =
     map (\<lambda>b. (ab_owner b, word_of_int (balance b)))
       (take n (filter (\<lambda>b. ab_owner b \<noteq> but) (sort_by top_holder_before (filter (\<lambda>b. asset_type b = a) (map snd (rows (balances s)))))))"

definition update_top_holders :: "nat \<Rightarrow> bool \<Rightarrow> special_authority \<Rightarrow> database \<Rightarrow> database result" where
  "update_top_holders i is_owner auth s =
     (case auth of
        No_Special_Authority \<Rightarrow> Inr s
      | Top_Holders a n \<Rightarrow>
          if n = 0 then Inr s
          else
            let vc = count_votes (top_holders a (unat n) i s) in
            modify_account i (\<lambda>x.
              let x1 = (if is_owner then x\<lparr>owner_authority := vc_finish vc (owner_authority x)\<rparr>
                        else x\<lparr>active_authority := vc_finish vc (active_authority x)\<rparr>) in
              Inr (if \<not> vc_is_empty vc
                   then x1\<lparr>top_n_control_flags := top_n_control_flags x1 OR (if is_owner then top_n_control_owner else top_n_control_active)\<rparr>
                   else x1)) s)"

definition visit_special_authority :: "nat \<Rightarrow> database \<Rightarrow> database result" where
  "visit_special_authority i s =
     bind (index_get (accounts s) i) (\<lambda>acct.
     bind (update_top_holders i True (owner_special_authority acct) s) (\<lambda>s1.
     bind (index_get (accounts s1) i) (\<lambda>acct1.
     update_top_holders i False (active_special_authority acct1) s1)))"

definition update_top_n_authorities :: "database \<Rightarrow> database result" where
  "update_top_n_authorities s = fold_result visit_special_authority (map snd (rows (special_authorities s))) s"

section \<open>What the vote counter writes\<close>

lemma find_msb_bound:
  assumes "w \<noteq> 0"
  shows "uint w < 2 ^ Suc (find_msb w)" "find_msb w < 64"
proof -
  have "uint w \<noteq> 0" using assms by (simp only: unsigned_eq_0_iff not_False_eq_True)
  then have p: "0 < uint w" using uint_ge_0 [of w] by linarith
  note b = bitlen_bounds [OF p]
  have l: "0 < bitlen (uint w)" using bitlen_eq_zero_iff [of "uint w"] bitlen_nonneg [of "uint w"] p by linarith
  have "nat (bitlen (uint w)) = Suc (find_msb w)" unfolding find_msb_def using l by (cases "nat (bitlen (uint w))") auto
  then show "uint w < 2 ^ Suc (find_msb w)" using b by simp
  have "uint w < 2 ^ 64" using uint_lt2p [of w] by simp
  from le_less_trans [OF conjunct1 [OF b] this] have "nat (bitlen (uint w) - 1) < 64" by (rule power_less_imp_less_exp [rotated]) simp
  then show "find_msb w < 64" unfolding find_msb_def using l by (simp add: nat_diff_distrib)
qed

text \<open>Scaled by the largest vote, every vote fits a weight.\<close>

lemma scaled_fits:
  assumes "v \<le> m" "m \<noteq> 0"
  shows "uint (max (drop_bit (find_msb m - 15) v) 1 :: u64) < 2 ^ 16" "1 \<le> uint (max (drop_bit (find_msb m - 15) v) 1 :: u64)"
proof -
  let ?b = "find_msb m - 15"
  have "uint v < 2 ^ Suc (find_msb m)" using find_msb_bound(1) [OF assms(2)] assms(1) by (simp add: word_le_def)
  also have "\<dots> \<le> 2 ^ (?b + 16)" by (rule power_increasing) auto
  finally have u: "uint v < 2 ^ 16 * 2 ^ ?b" by (simp add: power_add)
  have "uint v div 2 ^ ?b * 2 ^ ?b \<le> uint v" by (simp add: minus_mod_eq_div_mult [symmetric])
  then have "uint v div 2 ^ ?b * 2 ^ ?b < 2 ^ 16 * 2 ^ ?b" using u by (rule le_less_trans)
  then have "uint v div 2 ^ ?b < 2 ^ 16" by (simp only: mult_less_cancel_right) simp
  moreover have "uint (drop_bit ?b v) = drop_bit ?b (uint v)" using uint_lt2p [of v] by (simp add: unsigned_drop_bit_eq take_bit_int_eq_self)
  ultimately have d: "uint (drop_bit ?b v) < 2 ^ 16" by (simp only: drop_bit_eq_div [of _ "uint v"])
  show "uint (max (drop_bit ?b v) 1 :: u64) < 2 ^ 16" using d by (simp add: max_def)
  show "1 \<le> uint (max (drop_bit ?b v) 1 :: u64)" by (simp add: max_def word_le_def)
qed

lemma flat_put_keys: "fst ` set (flat_put k v xs) = insert k (fst ` set xs)"
  by (induction k v xs rule: flat_put.induct) auto

lemma flat_put_sorted: "sorted_wrt (<) (map fst xs) \<Longrightarrow> sorted_wrt (<) (map fst (flat_put k v xs))"
proof (induction k v xs rule: flat_put.induct)
  case (2 k v k' v' xs)
  then show ?case using flat_put_keys [of k v xs] by auto
qed simp

lemma flat_put_new:
  "k \<notin> fst ` set xs \<Longrightarrow> set (flat_put k v xs) = insert (k, v) (set xs) \<and> sum_list (map f (flat_put k v xs)) = (f (k, v) + sum_list (map f xs) :: nat)"
  by (induction k v xs rule: flat_put.induct) auto

text \<open>The state of the counter after adding the votes \<open>vs\<close> in an order that starts with the largest.\<close>

definition counted :: "(nat \<times> u64) list \<Rightarrow> vote_counter \<Rightarrow> bool" where
  "counted vs vc \<longleftrightarrow>
     fst ` set (account_auths (vc_auth vc)) = {a. \<exists>v. (a, v) \<in> set vs \<and> v \<noteq> 0} \<and> sorted_wrt (<) (map fst (account_auths (vc_auth vc))) \<and>
     (\<forall>(a, w) \<in> set (account_auths (vc_auth vc)). 1 \<le> w) \<and>
     length (account_auths (vc_auth vc)) \<le> length vs \<and>
     unat (vc_total_votes vc) = sum_list (map (\<lambda>(a, w). unat w) (account_auths (vc_auth vc))) \<and>
     key_auths (vc_auth vc) = [] \<and> address_auths (vc_auth vc) = [] \<and>
     (case vc_bitshift vc of None \<Rightarrow> \<forall>(a, v) \<in> set vs. v = 0
      | Some b \<Rightarrow> \<exists>m. m \<noteq> 0 \<and> b = find_msb m - 15 \<and> (\<forall>(a, v) \<in> set vs. v \<le> m) \<and> (\<exists>a. (a, m) \<in> set vs))"

lemma weights_bound: "sum_list (map (\<lambda>(a, w :: u16). unat w) xs) \<le> length xs * 65535"
proof (induction xs)
  case (Cons x xs)
  have "unat (snd x) < 2 ^ 16" using unsigned_less [of "snd x"] by simp
  then show ?case using Cons by (cases x) auto
qed simp

lemma counted_start: "counted [] new_vote_counter"
  by (simp add: counted_def new_vote_counter_def empty_authority_def)

lemma counted_add:
  assumes c: "counted vs vc" and new: "who \<notin> fst ` set vs" and below: "\<And>a u. (a, u) \<in> set vs \<Longrightarrow> v \<le> u" and len: "length vs < 2 ^ 16"
  shows "counted (vs @ [(who, v)]) (vc_add who v vc)"
proof (cases "v = 0")
  case True
  then show ?thesis using c by (auto simp: counted_def vc_add_def split: option.splits)
next
  case False
  define shift where "shift = (case vc_bitshift vc of None \<Rightarrow> find_msb v - 15 | Some b \<Rightarrow> b)"
  define x where "x = max (drop_bit shift v) 1"
  obtain m where m: "m \<noteq> 0" "v \<le> m" "shift = find_msb m - 15" "\<forall>(a, u) \<in> set (vs @ [(who, v)]). u \<le> m"
    "\<exists>a. (a, m) \<in> set (vs @ [(who, v)])"
  proof (cases "vc_bitshift vc")
    case None
    then have "\<forall>(a, u) \<in> set vs. u = 0" using c by (simp add: counted_def)
    then have "\<forall>(a, u) \<in> set (vs @ [(who, v)]). u \<le> v" by auto
    then show thesis using False None that [of v] by (auto simp: shift_def)
  next
    case (Some b)
    then obtain m where "m \<noteq> 0" "b = find_msb m - 15" "\<forall>(a, u) \<in> set vs. u \<le> m" "\<exists>a. (a, m) \<in> set vs"
      using c by (auto simp: counted_def)
    then show thesis using below that [of m] Some by (auto simp: shift_def)
  qed
  have x: "uint x < 2 ^ 16" "1 \<le> uint x" using scaled_fits [OF m(2,1)] m(3) by (simp_all add: x_def)
  have "int (unat x) < 65536" "1 \<le> int (unat x)" using x by simp_all
  then have "unat x < 65536" and xn1: "1 \<le> unat x" by linarith+
  then have xn: "unat x < 2 ^ 16" "1 \<le> unat x" by simp_all
  have w: "unat (ucast x :: u16) = unat x" using xn(1) by (simp add: unsigned_ucast_eq take_bit_nat_eq_self)
  let ?auths = "account_auths (vc_auth vc)"
  have add: "vc_add who v vc = vc\<lparr>vc_last_votes := v, vc_bitshift := Some shift, vc_total_votes := vc_total_votes vc + x,
      vc_auth := add_account_authority who (ucast x) (vc_auth vc)\<rparr>"
    using False by (simp add: vc_add_def shift_def x_def Let_def)
  have "fst ` set ?auths = {a. \<exists>u. (a, u) \<in> set vs \<and> u \<noteq> 0}" using c unfolding counted_def by blast
  then have fresh: "who \<notin> fst ` set ?auths" using new by (auto simp: image_iff)
  note put = flat_put_new [OF fresh, of "ucast x"]
  have "unat (vc_total_votes vc) \<le> length vs * 65535"
    using c weights_bound [of ?auths] by (simp add: counted_def)
  then have "unat (vc_total_votes vc) < 2 ^ 32" using len by simp
  then have total: "unat (vc_total_votes vc + x) = unat (vc_total_votes vc) + unat x"
    using xn(1) by (intro unat_add_lem [THEN iffD1]) simp
  have "counted (vs @ [(who, v)]) (vc\<lparr>vc_last_votes := v, vc_bitshift := Some shift, vc_total_votes := vc_total_votes vc + x,
      vc_auth := add_account_authority who (ucast x) (vc_auth vc)\<rparr>)" (is "counted _ ?vc")
    unfolding counted_def
  proof (intro conjI)
    have k: "fst ` set (account_auths (vc_auth ?vc)) = insert who (fst ` set ?auths)" by (simp add: add_account_authority_def flat_put_keys)
    show "fst ` set (account_auths (vc_auth ?vc)) = {a. \<exists>u. (a, u) \<in> set (vs @ [(who, v)]) \<and> u \<noteq> 0}"
      unfolding k using c False by (auto simp: counted_def)
    show "sorted_wrt (<) (map fst (account_auths (vc_auth ?vc)))"
      using c by (simp add: counted_def add_account_authority_def flat_put_sorted)
    have "1 \<le> unat (ucast x :: u16)" using w xn(2) by simp
    then have "1 \<le> (ucast x :: u16)" by (simp add: word_le_nat_alt)
    then show "\<forall>(a, w) \<in> set (account_auths (vc_auth ?vc)). 1 \<le> w" using c put by (auto simp: counted_def add_account_authority_def)
    show "length (account_auths (vc_auth ?vc)) \<le> length (vs @ [(who, v)])"
      using c flat_put_new [OF fresh, of "ucast x" "\<lambda>_. 1"] by (simp add: counted_def add_account_authority_def sum_list_triv)
    show "unat (vc_total_votes ?vc) = sum_list (map (\<lambda>(a, w). unat w) (account_auths (vc_auth ?vc)))"
      using c total put w by (simp add: counted_def add_account_authority_def)
    show "key_auths (vc_auth ?vc) = []" "address_auths (vc_auth ?vc) = []" using c by (simp_all add: counted_def add_account_authority_def)
    show "case vc_bitshift ?vc of None \<Rightarrow> \<forall>(a, u) \<in> set (vs @ [(who, v)]). u = 0
      | Some b \<Rightarrow> \<exists>m. m \<noteq> 0 \<and> b = find_msb m - 15 \<and> (\<forall>(a, u) \<in> set (vs @ [(who, v)]). u \<le> m) \<and> (\<exists>a. (a, m) \<in> set (vs @ [(who, v)]))"
      using m by auto
  qed
  then show ?thesis unfolding add .
qed

lemma count_votes_counted:
  assumes "distinct (map fst vs)" "sorted_wrt (\<lambda>x y. snd y \<le> snd x) vs" "length vs \<le> 2 ^ 16"
  shows "counted vs (count_votes vs)"
  using assms
proof (induction vs rule: rev_induct)
  case Nil
  then show ?case using counted_start by (simp add: count_votes_def)
next
  case (snoc x vs)
  then have c: "counted vs (count_votes vs)" by (simp add: sorted_wrt_append)
  have "count_votes (vs @ [x]) = vc_add (fst x) (snd x) (count_votes vs)" by (simp add: count_votes_def split: prod.split)
  moreover have "counted (vs @ [(fst x, snd x)]) (vc_add (fst x) (snd x) (count_votes vs))"
    using snoc.prems by (intro counted_add [OF c]) (auto simp: sorted_wrt_append image_iff)
  ultimately show ?case by simp
qed

section \<open>Who is elected\<close>

definition votable_key :: "votable \<Rightarrow> int \<times> u32" where
  "votable_key v = (- sint (vt_votes v), vote_instance (vt_vote_id v))"

lemma sort_by_votes: "sort_by votable_before refs = sort_key votable_key refs"
  by (rule sort_by_sort_key) (auto simp: votable_before_def votable_key_def less_prod_def)

lemma map_result_all2: "map_result f xs = Inr ys \<Longrightarrow> list_all2 (\<lambda>x y. f x = Inr y) xs ys"
  by (induction xs arbitrary: ys) (auto simp: ok_simps)

lemma sorted_take_least:
  assumes "x \<in> set (take n (sort_key key xs))" "y \<in> set xs" "y \<notin> set (take n (sort_key key xs))"
  shows "key x \<le> key y"
proof -
  have "sorted (map key (take n (sort_key key xs) @ drop n (sort_key key xs)))" by simp
  then have "sorted_wrt (\<le>) (map key (take n (sort_key key xs)) @ map key (drop n (sort_key key xs)))" by (simp only: map_append)
  then have "\<forall>a \<in> set (take n (sort_key key xs)). \<forall>b \<in> set (drop n (sort_key key xs)). key a \<le> key b"
    by (simp add: sorted_append)
  moreover have "y \<in> set (take n (sort_key key xs) @ drop n (sort_key key xs))" using assms(2) by simp
  then have "y \<in> set (drop n (sort_key key xs))" using assms(3) unfolding set_append by blast
  ultimately show ?thesis using assms(1) by blast
qed

lemma sort_votable_objects_Inr:
  assumes "sort_votable_objects buf n objects = Inr elected"
  obtains refs where "map (\<lambda>v. (vt_object v, vt_account v, vt_vote_id v)) refs = objects"
    "\<forall>v \<in> set refs. votes_for buf (vt_vote_id v) = Inr (vt_votes v)"
    "elected = take (min n (length refs)) (sort_key votable_key refs)" "refs \<noteq> []"
proof -
  obtain refs where r: "map_result (\<lambda>(i, acct, v). bind (votes_for buf v) (\<lambda>n. Inr \<lparr> vt_object = i, vt_account = acct, vt_vote_id = v, vt_votes = n \<rparr>)) objects = Inr refs"
    "refs \<noteq> []" "elected = take (min n (length refs)) (sort_by votable_before refs)"
    using assms by (auto simp: sort_votable_objects_def ok_simps split: if_splits)
  note a = map_result_all2 [OF r(1)]
  have "map (\<lambda>v. (vt_object v, vt_account v, vt_vote_id v)) refs = objects"
    using a by (induction rule: list_all2_induct) (auto simp: ok_simps)
  moreover have "\<forall>v \<in> set refs. votes_for buf (vt_vote_id v) = Inr (vt_votes v)"
    using a by (induction rule: list_all2_induct) (auto simp: ok_simps)
  ultimately show thesis using that r by (simp add: sort_by_votes)
qed

section \<open>Elections keep the ledger\<close>

lemma set_active_conserves:
  assumes "chain_inv s" "set_active i f s = Inr s'"
  shows "conserves s s'" "witnesses s' = witnesses s" "active_witnesses s' = active_witnesses s"
  using acc_tab.modify_step [OF assms(1) assms(2) [unfolded set_active_def]] by (auto simp: conserves_def)

lemma count_witness_votes:
  assumes inv: "chain_inv s" and ok: "fold_result (\<lambda>i. modify_witness i (f i)) is s = Inr s'"
  shows "conserves s s' \<and> accounts s' = accounts s"
proof (rule fold_result_invariant [OF ok, where P = "\<lambda>u. conserves s u \<and> accounts u = accounts s"])
  fix i u v assume u: "conserves s u \<and> accounts u = accounts s" and v: "modify_witness i (f i) u = Inr v"
  have "chain_inv u" using u by (simp add: conserves_def)
  from witness_tab.modify_step [OF this v] show "conserves s v \<and> accounts v = accounts s" using u by (auto simp: conserves_def)
qed (use inv in simp)

lemma update_active_witnesses_conserves:
  assumes inv: "chain_inv s" and ok: "update_active_witnesses F m buf s = Inr s'"
  shows "conserves s s'"
proof -
  obtain wits s1 s2 where s1: "fold_result (\<lambda>i. modify_witness i (\<lambda>w. bind (votes_for buf (wit_vote_id w)) (\<lambda>v. Inr (w\<lparr>wit_total_votes := v\<rparr>))))
            (map fst (rows (witnesses s))) s = Inr s1"
    and s2: "set_active GRAPHENE_WITNESS_ACCOUNT (elected_authority wits (head_block_time s)) s1 = Inr s2"
    and s': "s' = s2\<lparr>active_witnesses := sort (map vt_object wits)\<rparr>"
    using ok by (auto simp: update_active_witnesses_def ok_simps)
  note 1 = conjunct1 [OF count_witness_votes [OF inv s1]]
  have "chain_inv s1" using 1 by (simp add: conserves_def)
  from conserves_trans [OF 1 set_active_conserves(1) [OF this s2]] show ?thesis by (simp add: s' conserves_def)
qed

lemma update_committee_conserves:
  assumes inv: "chain_inv s" and ok: "update_active_committee_members m buf s = Inr s'"
  shows "conserves s s'"
proof -
  obtain members s1 s3 where s1: "fold_result (\<lambda>v. modify_committee_member (vt_object v) (\<lambda>c. Inr (c\<lparr>cm_total_votes := vt_votes v\<rparr>))) members s = Inr s1"
    and r: "(if members \<noteq> [] then
             bind (set_active GRAPHENE_COMMITTEE_ACCOUNT (elected_authority members (head_block_time s)) s1) (\<lambda>s2.
             bind (index_get (accounts s2) GRAPHENE_COMMITTEE_ACCOUNT) (\<lambda>committee.
             set_active GRAPHENE_RELAXED_COMMITTEE_ACCOUNT (\<lambda>_. Inr (active_authority committee)) s2))
           else Inr s1) = Inr s3"
    and s': "s' = s3\<lparr>active_committee_members := sort (map vt_object members)\<rparr>"
    using ok unfolding update_active_committee_members_def bind_eq_Inr by blast
  have s3: "s3 = s1 \<or> (\<exists>f g s2. set_active GRAPHENE_COMMITTEE_ACCOUNT f s1 = Inr s2 \<and> set_active GRAPHENE_RELAXED_COMMITTEE_ACCOUNT g s2 = Inr s3)"
  proof (cases "members = []")
    case False
    then show ?thesis using r unfolding bind_eq_Inr if_P [OF False] by blast
  qed (use r in simp)
  have 1: "conserves s s1"
  proof (rule fold_result_invariant [OF s1, where P = "conserves s"])
    fix x u v assume u: "conserves s u" and v: "modify_committee_member (vt_object x) (\<lambda>c. Inr (c\<lparr>cm_total_votes := vt_votes x\<rparr>)) u = Inr v"
    have "chain_inv u" using u by (simp add: conserves_def)
    from committee_tab.modify_step [OF this v] show "conserves s v" using u by (auto simp: conserves_def)
  qed (use inv in simp)
  have "conserves s1 s3"
    using s3 set_active_conserves(1) 1 conserves_trans by (metis conserves_def conserves_refl)
  with 1 have "conserves s s3" by (rule conserves_trans)
  then show ?thesis by (simp add: s' conserves_def)
qed

lemma update_worker_votes_conserves:
  assumes inv: "chain_inv s" and ok: "update_worker_votes buf s = Inr s'"
  shows "conserves s s'"
proof (rule fold_result_invariant [OF ok [unfolded update_worker_votes_def], where P = "conserves s"])
  fix i u v assume u: "conserves s u" and v: "modify_worker i (\<lambda>w.
         bind (votes_for buf (vote_for w)) (\<lambda>f.
         bind (if head_block_time s < HARDFORK_607_TIME then votes_for buf (vote_against w) else Inr 0) (\<lambda>a.
         Inr (w\<lparr>total_votes_for := f, total_votes_against := a\<rparr>)))) u = Inr v"
  have "chain_inv u" using u by (simp add: conserves_def)
  from worker_tab.modify_step [OF this v] show "conserves s v" using u by (auto simp: conserves_def)
qed (use inv in simp)

lemma update_top_holders_conserves:
  assumes "chain_inv s" "update_top_holders i is_owner auth s = Inr s'"
  shows "conserves s s'"
proof -
  have "s' = s \<or> (\<exists>f. modify_account i f s = Inr s')"
    using assms(2) by (auto simp: update_top_holders_def Let_def split: special_authority.splits if_splits)
  then show ?thesis
  proof (elim disjE exE)
    fix f assume "modify_account i f s = Inr s'"
    from acc_tab.modify_step [OF assms(1) this] show ?thesis by (auto simp: conserves_def)
  qed (use assms(1) in simp)
qed

lemma update_top_n_conserves:
  assumes inv: "chain_inv s" and ok: "update_top_n_authorities s = Inr s'"
  shows "conserves s s'"
proof (rule fold_result_invariant [OF ok [unfolded update_top_n_authorities_def], where P = "conserves s"])
  fix i u v assume u: "conserves s u" and v: "visit_special_authority i u = Inr v"
  obtain a b u1 where u1: "update_top_holders i True a u = Inr u1" and v1: "update_top_holders i False b u1 = Inr v"
    using v by (auto simp: visit_special_authority_def ok_simps)
  have "chain_inv u" using u by (simp add: conserves_def)
  note 1 = conserves_trans [OF u update_top_holders_conserves [OF this u1]]
  then have "chain_inv u1" by (simp add: conserves_def)
  from conserves_trans [OF 1 update_top_holders_conserves [OF this v1]] show "conserves s v" .
qed (use inv in simp)

lemma account_maintenance_conserves:
  assumes F: "fc_laws F" and inv: "chain_inv s" and ok: "perform_account_maintenance F s = Inr (buf, s')"
  shows "conserves s s'"
proof -
  have "conserves s (snd (buf, s'))"
  proof (rule fold_result_invariant [OF ok [unfolded perform_account_maintenance_def], where P = "\<lambda>st. conserves s (snd st)"])
    fix i u v assume u: "conserves s (snd u)" and v: "maintain_account F i u = Inr v"
    obtain st where st: "process_fees F st i (snd u) = Inr (snd v)"
      using v by (cases u) (auto simp: maintain_account_def process_account_fees_def ok_simps)
    have "chain_inv (snd u)" using u by (simp add: conserves_def)
    from conserves_trans [OF u process_fees_conserves [OF F this st]] show "conserves s (snd v)" .
  qed (use inv in simp)
  then show ?thesis by simp
qed

section \<open>Properties\<close>

lemma sum_weights_total:
  assumes "sum_list (map (\<lambda>(a, w). unat w) ks) < 2 ^ 64"
  shows "unat (sum_weights ks) = sum_list (map (\<lambda>(a, w). unat w) ks)"
proof -
  have "unat (fold (\<lambda>(k, w) t. t + ucast (w :: u16)) ks (t :: u64)) = unat t + sum_list (map (\<lambda>(a, w). unat w) ks)"
    if "unat t + sum_list (map (\<lambda>(a, w). unat w) ks) < 2 ^ 64" for t
    using that
  proof (induction ks arbitrary: t)
    case (Cons k ks)
    obtain a w where k: "k = (a, w)" by (cases k)
    have "unat w < 2 ^ 16" using unsigned_less [of w] by simp
    then have "unat (ucast w :: u64) = unat w" by (simp add: unsigned_ucast_eq take_bit_nat_eq_self)
    then have "unat (t + ucast w) = unat t + unat w" using Cons.prems k by (subst unat_add_lem [THEN iffD1]) auto
    then show ?case using Cons k by simp
  qed simp
  from this [of 0] show ?thesis using assms by (simp add: sum_weights_def)
qed

text \<open>
  C19. The authority a vote counter writes is well formed. For votes of different accounts in descending order, not all zero and at most
  65536 of them, the authority names exactly the accounts with votes, once each and in order, every weight is positive although the
  weights are votes shifted to 16 bits, the sum of the weights does not overflow, and the threshold is a strict majority of it: the
  elected together can act, and no two disjoint groups of them both can.
\<close>

theorem elected_authority_well_formed:
  assumes "distinct (map fst vs)" "sorted_wrt (\<lambda>x y. snd y \<le> snd x) vs" "length vs \<le> 2 ^ 16" "\<exists>(a, v) \<in> set vs. v \<noteq> 0"
  shows "\<not> is_impossible (vc_finish (count_votes vs) au) \<and>
    fst ` set (account_auths (vc_finish (count_votes vs) au)) = {a. \<exists>v. (a, v) \<in> set vs \<and> v \<noteq> 0} \<and>
    sorted_wrt (<) (map fst (account_auths (vc_finish (count_votes vs) au))) \<and>
    (\<forall>(a, w) \<in> set (account_auths (vc_finish (count_votes vs) au)). 1 \<le> w) \<and>
    (let W = sum_list (map (\<lambda>(a, w). unat w) (account_auths (vc_finish (count_votes vs) au)));
         t = unat (weight_threshold (vc_finish (count_votes vs) au)) in
     unat (sum_weights (account_auths (vc_finish (count_votes vs) au))) = W \<and> t \<le> W \<and> W < 2 * t)"
proof -
  let ?vc = "count_votes vs" and ?au = "vc_finish (count_votes vs) au"
  let ?ks = "account_auths (vc_auth ?vc)"
  have c: "counted vs ?vc" using count_votes_counted assms(1-3) .
  let ?W = "sum_list (map (\<lambda>(a, w). unat w) ?ks)"
  have t: "unat (vc_total_votes ?vc) = ?W" using c by (simp add: counted_def)
  have keys: "fst ` set ?ks = {a. \<exists>v. (a, v) \<in> set vs \<and> v \<noteq> 0}" and pos: "\<forall>(a, w) \<in> set ?ks. 1 \<le> w"
    and len: "length ?ks \<le> length vs" using c unfolding counted_def by blast+
  obtain a v where "(a, v) \<in> set vs" "v \<noteq> 0" using assms(4) by blast
  then have "a \<in> fst ` set ?ks" using keys by blast
  then obtain w where aw: "(a, w) \<in> set ?ks" by auto
  then have "1 \<le> w" using pos by blast
  then have "1 \<le> unat w" by (simp add: word_le_nat_alt)
  moreover have "unat w \<in> set (map (\<lambda>(a, w). unat w) ?ks)" using aw by force
  ultimately have W0: "0 < ?W" using member_le_sum_list [of "unat w" "map (\<lambda>(a, w). unat w) ?ks"] by linarith
  have W: "?W < 2 ^ 32" using weights_bound [of ?ks] len assms(3) by simp
  have nz: "vc_total_votes ?vc \<noteq> 0" using t W0 by (metis less_irrefl unat_0)
  have au: "?au = (vc_auth ?vc)\<lparr>weight_threshold := drop_bit 1 (ucast (vc_total_votes ?vc)) + 1\<rparr>" using nz by (simp add: vc_finish_def)
  have th: "unat (weight_threshold ?au) = ?W div 2 + 1"
  proof -
    have u: "unat (ucast (vc_total_votes ?vc) :: u32) = ?W" using t W by (simp add: unsigned_ucast_eq take_bit_nat_eq_self)
    then have d: "unat (drop_bit 1 (ucast (vc_total_votes ?vc)) :: u32) = ?W div 2"
      using unat_div [of "ucast (vc_total_votes ?vc) :: u32" 2] by (simp add: drop_bit_eq_div)
    then have "unat (drop_bit 1 (ucast (vc_total_votes ?vc)) + 1 :: u32) = ?W div 2 + 1" using W by (subst unat_add_lem [THEN iffD1]) auto
    then show ?thesis by (simp add: au)
  qed
  have S: "unat (sum_weights ?ks) = ?W" by (rule sum_weights_total) (use W in simp)
  have "key_auths (vc_auth ?vc) = []" "address_auths (vc_auth ?vc) = []" using c by (simp_all add: counted_def)
  moreover have "unat (ucast (weight_threshold ?au) :: u64) = unat (weight_threshold ?au)"
    using th W by (simp add: unsigned_ucast_eq take_bit_nat_eq_self)
  then have "unat (ucast (weight_threshold ?au) :: u64) \<le> ?W" using th W0 by simp
  ultimately have "\<not> is_impossible ?au"
    using S by (simp add: is_impossible_def au sum_weights_def [of "[]"] word_less_nat_alt)
  moreover have "sorted_wrt (<) (map fst ?ks)" using c by (simp add: counted_def)
  moreover have "n div 2 + 1 \<le> n \<and> n < 2 * (n div 2 + 1)" if "0 < n" for n :: nat using that by presburger
  note this [OF W0]
  ultimately show ?thesis using keys pos S th unfolding Let_def by (simp add: au)
qed

theorem elected_authority_well_formed_witness:
  "\<not> is_impossible (vc_finish (count_votes [(7, 900000), (3, 800000), (5, 1), (4, 0)]) empty_authority) \<and>
   account_auths (vc_finish (count_votes [(7, 900000), (3, 800000), (5, 1), (4, 0)]) empty_authority) = [(3, 50000), (5, 1), (7, 56250)] \<and>
   weight_threshold (vc_finish (count_votes [(7, 900000), (3, 800000), (5, 1), (4, 0)]) empty_authority) = 53126"
proof -
  have "account_auths (vc_finish (count_votes [(7, 900000), (3, 800000), (5, 1), (4, 0)]) empty_authority) = [(3, 50000), (5, 1), (7, 56250)]"
    "weight_threshold (vc_finish (count_votes [(7, 900000), (3, 800000), (5, 1), (4, 0)]) empty_authority) = 53126" by code_simp+
  then show ?thesis using elected_authority_well_formed [of "[(7, 900000), (3, 800000), (5, 1), (4, 0)]" empty_authority] by simp
qed

lemma sort_votable_elects:
  assumes ok: "sort_votable_objects buf n objects = Inr elected" and d: "distinct (map fst objects)"
  shows "distinct (map vt_object elected)" "length elected = min n (length objects)" "vt_object ` set elected \<subseteq> fst ` set objects"
    "\<lbrakk>(i, a, v) \<in> set objects; (j, b, u) \<in> set objects; i \<in> vt_object ` set elected; j \<notin> vt_object ` set elected\<rbrakk>
      \<Longrightarrow> \<exists>x y. votes_for buf v = Inr x \<and> votes_for buf u = Inr y \<and> sint y \<le> sint x"
proof -
  obtain refs where r: "map (\<lambda>v. (vt_object v, vt_account v, vt_vote_id v)) refs = objects"
    "\<forall>v \<in> set refs. votes_for buf (vt_vote_id v) = Inr (vt_votes v)"
    "elected = take (min n (length refs)) (sort_key votable_key refs)"
    using sort_votable_objects_Inr [OF ok] by blast
  have ids: "map vt_object refs = map fst objects" unfolding r(1) [symmetric] by simp
  have "distinct (map vt_object refs)" using d ids by simp
  then have "distinct (map vt_object (sort_key votable_key refs))" by (simp add: distinct_map)
  then show "distinct (map vt_object elected)" unfolding r(3) take_map [symmetric] by (rule distinct_take)
  show "length elected = min n (length objects)" unfolding r(1) [symmetric] r(3) by simp
  have sub: "set elected \<subseteq> set refs" unfolding r(3) by (metis set_sort set_take_subset)
  then have "vt_object ` set elected \<subseteq> set (map vt_object refs)" by auto
  then show "vt_object ` set elected \<subseteq> fst ` set objects" unfolding ids by simp
  assume ij: "(i, a, v) \<in> set objects" "(j, b, u) \<in> set objects" "i \<in> vt_object ` set elected" "j \<notin> vt_object ` set elected"
  obtain y where y: "y \<in> set refs" "vt_object y = j" "vt_vote_id y = u" using ij(2) unfolding r(1) [symmetric] by auto
  obtain x' where x': "x' \<in> set elected" "vt_object x' = i" using ij(3) by blast
  obtain x where x: "x \<in> set refs" "vt_object x = i" "vt_vote_id x = v" using ij(1) unfolding r(1) [symmetric] by auto
  have "inj_on vt_object (set refs)" using d unfolding ids [symmetric] by (simp add: distinct_map)
  then have "x' = x" using x' x sub unfolding inj_on_def by blast
  moreover have "y \<notin> set elected" using y(2) ij(4) by blast
  ultimately have "votable_key x \<le> votable_key y" using x'(1) y(1) unfolding r(3) by (auto intro: sorted_take_least)
  then have "sint (vt_votes y) \<le> sint (vt_votes x)" by (auto simp: votable_key_def less_eq_prod_def)
  then show "\<exists>x y. votes_for buf v = Inr x \<and> votes_for buf u = Inr y \<and> sint y \<le> sint x" using r(2) x y by blast
qed

text \<open>
  C18. An election installs the witnesses with most votes. When the update of the active witnesses succeeds, the active witnesses are
  twice the number the stake asks for plus one, at least the minimum of the chain and at most all witnesses there are, sorted and
  without repetition, all of them registered, and nobody who is left out has more votes than somebody elected. No asset is created
  or lost on the way.
\<close>

theorem election_installs_top_witnesses:
  assumes "chain_inv s" "update_active_witnesses F m buf s = Inr s'"
  shows "conserves s s' \<and> sorted (active_witnesses s') \<and> distinct (active_witnesses s') \<and>
    (\<exists>n. witness_count F buf = Inr n \<and> length (active_witnesses s') = min (max (2 * n + 1) (unat m)) (length (rows (witnesses s)))) \<and>
    set (active_witnesses s') \<subseteq> dom (index_find (witnesses s)) \<and>
    (\<forall>i w j x. index_find (witnesses s) i = Some w \<and> index_find (witnesses s) j = Some x \<and> i \<in> set (active_witnesses s') \<and> j \<notin> set (active_witnesses s') \<longrightarrow>
      (\<exists>v u. votes_for buf (wit_vote_id w) = Inr v \<and> votes_for buf (wit_vote_id x) = Inr u \<and> sint u \<le> sint v))"
proof -
  let ?objects = "map (\<lambda>(i, w). (i, witness_account w, wit_vote_id w)) (rows (witnesses s))"
  obtain n wits s2 where n: "witness_count F buf = Inr n" and e: "sort_votable_objects buf (max (n * 2 + 1) (unat m)) ?objects = Inr wits"
    and s': "s' = s2\<lparr>active_witnesses := sort (map vt_object wits)\<rparr>"
    using assms(2) unfolding update_active_witnesses_def bind_eq_Inr by blast
  have act: "active_witnesses s' = sort (map vt_object wits)" using s' by simp
  have ids: "map fst ?objects = map fst (rows (witnesses s))" by (auto simp: case_prod_beta)
  have inv: "index_inv (witnesses s)" using assms(1) unfolding chain_inv_def by blast
  then have d: "distinct (map fst ?objects)" unfolding ids by (simp add: index_inv_def sorted_rows_distinct)
  note el = sort_votable_elects [OF e d]
  have find: "(i, witness_account w, wit_vote_id w) \<in> set ?objects" if "index_find (witnesses s) i = Some w" for i w
    using that by (force simp: index_find_def dest: map_of_SomeD)
  have "length (active_witnesses s') = min (max (2 * n + 1) (unat m)) (length (rows (witnesses s)))"
    using el(2) by (simp add: act mult.commute)
  moreover have "set (active_witnesses s') \<subseteq> dom (index_find (witnesses s))"
    using el(3) unfolding set_map [symmetric] ids by (simp add: act index_find_def dom_map_of_conv_image_fst)
  moreover have "\<exists>v u. votes_for buf (wit_vote_id w) = Inr v \<and> votes_for buf (wit_vote_id x) = Inr u \<and> sint u \<le> sint v"
    if "index_find (witnesses s) i = Some w" "index_find (witnesses s) j = Some x" "i \<in> set (active_witnesses s')" "j \<notin> set (active_witnesses s')" for i w j x
    using el(4) [OF find [OF that(1)] find [OF that(2)]] that(3,4) by (simp add: act)
  ultimately show ?thesis using update_active_witnesses_conserves [OF assms] el(1) n by (auto simp: act)
qed

definition demo_candidate :: "nat \<Rightarrow> u32 \<Rightarrow> witness_object" where
  "demo_candidate acct v = \<lparr> witness_account = acct, signing_key = 100 + acct, last_aslot = 0, pay_vb = None, wit_vote_id = make_vote_id Vote_Witness v,
     wit_total_votes = 0, wit_url = [], total_missed = 0, last_confirmed_block_num = 0 \<rparr>"

definition demo_election :: database where
  "demo_election = put_witnesses \<lparr> next_id = 4, rows = [(0, demo_candidate 5 0), (1, demo_candidate 6 1), (2, demo_candidate 7 2), (3, demo_candidate 8 3)] \<rparr>
     (put_accounts \<lparr> next_id = 7, rows = [(1, demo_account ''witness'' 7), (5, demo_account ''alice'' 0), (6, demo_account ''bob'' 2)] \<rparr> demo_chain)"

definition demo_ballot :: vote_buffers where
  "demo_ballot = \<lparr> vote_tally = [10, 90, 50, 70], witness_histogram = [20, 150, 50], committee_histogram = [], total_voting_stake = 220 \<rparr>"

lemma demo_election_inv: "chain_inv demo_election"
  unfolding demo_election_def
  by (intro witness_tab.inv_put acc_tab.inv_put demo_chain_inv) (simp_all add: index_inv_def sorted_rows_def rows_ok_def)

theorem election_installs_top_witnesses_witness:
  "\<exists>s'. update_active_witnesses fc_int64 1 demo_ballot demo_election = Inr s' \<and> conserves demo_election s' \<and> active_witnesses s' = [1, 2, 3]"
proof -
  have "case update_active_witnesses fc_int64 1 demo_ballot demo_election of Inl e \<Rightarrow> False | Inr s' \<Rightarrow> active_witnesses s' = [1, 2, 3]" by code_simp
  then obtain s' where s': "update_active_witnesses fc_int64 1 demo_ballot demo_election = Inr s'" "active_witnesses s' = [1, 2, 3]"
    by (auto split: sum.splits)
  then show ?thesis using election_installs_top_witnesses [OF demo_election_inv s'(1)] by blast
qed

end
