(* ===== verification/Maintenance.thy ===== *)
theory Maintenance
  imports Elections
begin

text \<open>
  The maintenance of the chain (db_maint.cpp, \<^verbatim>\<open>database::perform_chain_maintenance\<close>): fee-backed assets, the orders of buyback accounts, the
  tally and the elections, the registration fee and the pending parameters, the time of the next maintenance, the end of annual
  memberships, the volumes of force settlements and the budget.

  The maintenance runs operations inside a \<^verbatim>\<open>try\<close> block and goes on when one of them throws. An operation that fails its
  evaluation has changed nothing and is skipped. One that throws while it is being applied would leave the changes it has made so far in the source, since no undo session surrounds
  it; such a run is an error of the model.
\<close>

unbundle bit_operations_syntax

section \<open>Operations that may fail\<close>

definition try_operation :: "fc_lib \<Rightarrow> ('op, 'e, 'r) evaluator \<Rightarrow> 'op \<Rightarrow> database \<Rightarrow> (database \<times> 'r) option result" where
  "try_operation F ev op s =
     (case evaluate F ev True 0 op s of
        Inl e \<Rightarrow> Inr None
      | Inr (e, fs) \<Rightarrow> bind (apply_op F ev False op e fs s) (\<lambda>r. Inr (Some r)))"

section \<open>Buyback accounts\<close>

definition buyback_order :: "nat \<Rightarrow> nat \<Rightarrow> share_type \<Rightarrow> nat \<Rightarrow> limit_order_create_operation" where
  "buyback_order i buy x sell = \<lparr> lc_fee = mk_asset 0 0, lc_seller = i, amount_to_sell = mk_asset x sell, min_to_receive = mk_asset 1 buy,
     lc_expiration = 0xffffffff, fill_or_kill = False \<rparr>"

definition sell_holding :: "fc_lib \<Rightarrow> nat \<Rightarrow> nat \<Rightarrow> share_type \<Rightarrow> nat \<Rightarrow> database \<Rightarrow> database result" where
  "sell_holding F i buy x sell s =
     bind (try_operation F limit_order_create_evaluator (buyback_order i buy x sell) s) (\<lambda>r.
     case r of
       None \<Rightarrow> Inr s
     | Some (s1, k) \<Rightarrow>
         if index_find (limit_orders s1) k \<noteq> None then
           bind (try_operation F limit_order_cancel_evaluator \<lparr> lx_fee = mk_asset 0 0, lx_order = k, lx_fee_paying_account = i \<rparr> s1) (\<lambda>r.
           Inr (case r of None \<Rightarrow> s1 | Some (s2, _) \<Rightarrow> s2))
         else Inr s1)"

definition account_holdings :: "nat \<Rightarrow> database \<Rightarrow> account_balance_object list" where
  "account_holdings i s = sort_key asset_type (filter (\<lambda>b. ab_owner b = i) (map snd (rows (balances s))))"

text \<open>
  The loop looks up the next holding from the smallest asset on; holdings it does not sell only move it to the next one.
\<close>

definition next_holding :: "nat \<Rightarrow> nat \<Rightarrow> nat set \<Rightarrow> nat \<Rightarrow> database \<Rightarrow> account_balance_object option" where
  "next_holding i buy allowed next_asset s =
     List.find (\<lambda>b. asset_type b \<noteq> buy \<and> balance b \<noteq> 0 \<and> asset_type b \<in> allowed)
       (dropWhile (\<lambda>b. asset_type b < next_asset) (account_holdings i s))"

definition buyback_step :: "fc_lib \<Rightarrow> nat \<Rightarrow> nat \<Rightarrow> nat set \<Rightarrow> nat \<times> database \<Rightarrow> (nat \<times> database, database) loop_step result" where
  "buyback_step F i buy allowed st =
     (case st of (next_asset, s) \<Rightarrow>
      case next_holding i buy allowed next_asset s of
        None \<Rightarrow> Inr (Finish s)
      | Some b \<Rightarrow> bind (sell_holding F i buy (balance b) (asset_type b) s) (\<lambda>s'. Inr (Continue (asset_type b + 1, s'))))"

definition buyback_account_orders :: "fc_lib \<Rightarrow> nat \<Rightarrow> nat \<Rightarrow> database \<Rightarrow> database result" where
  "buyback_account_orders F i buy s =
     bind (index_get (accounts s) i) (\<lambda>a.
     case allowed_assets a of
       None \<Rightarrow> Inr s
     | Some allowed \<Rightarrow> run_loop (Suc (card allowed)) (buyback_step F i buy allowed) (0, s))"

definition buyback_orders_of :: "fc_lib \<Rightarrow> nat \<Rightarrow> database \<Rightarrow> database result" where
  "buyback_orders_of F k s =
     bind (index_get (buybacks s) k) (\<lambda>buy.
     bind (index_get (assets s) buy) (\<lambda>a.
     bind (the_object (buyback_account a)) (\<lambda>i.
     buyback_account_orders F i buy s)))"

definition create_buyback_orders :: "fc_lib \<Rightarrow> database \<Rightarrow> database result" where
  "create_buyback_orders F s = fold_result (buyback_orders_of F) (map fst (rows (buybacks s))) s"

section \<open>Annual members\<close>

definition deprecate_member :: "fc_lib \<Rightarrow> nat \<Rightarrow> database \<Rightarrow> database result" where
  "deprecate_member F i s =
     bind (index_get (accounts s) i) (\<lambda>a.
     if is_annual_member a (head_block_time s) then
       bind (try_operation F account_upgrade_evaluator \<lparr> agr_fee = mk_asset 0 0, account_to_upgrade = i, upgrade_to_lifetime_member = True \<rparr> s) (\<lambda>r.
       Inr (case r of None \<Rightarrow> s | Some (s', _) \<Rightarrow> s'))
     else Inr s)"

definition deprecate_annual_members :: "fc_lib \<Rightarrow> database \<Rightarrow> database result" where
  "deprecate_annual_members F s = fold_result (deprecate_member F) (map fst (rows (accounts s))) s"

section \<open>Parameters and the next maintenance\<close>

definition unscale_registration_fee :: "database \<Rightarrow> database result" where
  "unscale_registration_fee s =
     (let scale = ucast (accounts_per_fee_scale (parameters s)) :: u32;
          shift = unat (ucast (account_fee_scale_bitshifts (parameters s)) * (accounts_registered_this_interval (dgp s) div scale)) in
      if scale = 0 then Inl (Chain_Exception ''division by zero'')
      else if shift \<ge> 64 then Inl (Chain_Exception ''shift out of range'')
      else Inr (s\<lparr>parameters := (parameters s)\<lparr>account_create_basic_fee := drop_bit shift (account_create_basic_fee (parameters s))\<rparr>\<rparr>))"

definition adopt_pending_parameters :: "database \<Rightarrow> database" where
  "adopt_pending_parameters s =
     (case pending_parameters s of None \<Rightarrow> s | Some p \<Rightarrow> s\<lparr>parameters := p, pending_parameters := None\<rparr>)"

definition following_maintenance :: "u32 \<Rightarrow> time_point_sec \<Rightarrow> time_point_sec \<Rightarrow> u32 \<Rightarrow> time_point_sec \<Rightarrow> time_point_sec result" where
  "following_maintenance block_num timestamp head_time m t =
     (if t \<le> timestamp then
        if m = 0 then Inl (Chain_Exception ''division by zero'')
        else if block_num = 1 then Inr ((timestamp div m + 1) * m)
        else
          let y = int_quot (uint head_time - uint t) (uint m) in
          Inr (t + word_of_int ((y + 1) * uint m))
      else Inr t)"

definition reset_settled_volumes :: "database \<Rightarrow> database result" where
  "reset_settled_volumes s =
     fold_result (\<lambda>k. modify_bitasset k (\<lambda>b. Inr (b\<lparr>force_settled_volume := 0\<rparr>))) (map fst (rows (bitassets s))) s"

definition perform_chain_maintenance :: "fc_lib \<Rightarrow> u16 \<Rightarrow> u16 \<Rightarrow> u32 \<Rightarrow> time_point_sec \<Rightarrow> database \<Rightarrow> database result" where
  "perform_chain_maintenance F min_witness_count min_committee_member_count block_num timestamp s =
     bind (distribute_fba_balances F s) (\<lambda>s1.
     bind (create_buyback_orders F s1) (\<lambda>s2.
     bind (perform_account_maintenance F s2) (\<lambda>(buf, s3).
     bind (update_top_n_authorities s3) (\<lambda>s4.
     bind (update_active_witnesses F min_witness_count buf s4) (\<lambda>s5.
     bind (update_active_committee_members min_committee_member_count buf s5) (\<lambda>s6.
     bind (update_worker_votes buf s6) (\<lambda>s7.
     bind (unscale_registration_fee s7) (\<lambda>s8.
     let s9 = adopt_pending_parameters s8; t0 = next_maintenance_time (dgp s9) in
     bind (following_maintenance block_num timestamp (head_block_time s9) (maintenance_interval (parameters s9)) t0) (\<lambda>t.
     bind (if t0 < HARDFORK_613_TIME \<and> t \<ge> HARDFORK_613_TIME then deprecate_annual_members F s9 else Inr s9) (\<lambda>s10.
     let s11 = s10\<lparr>dgp := (dgp s10)\<lparr>next_maintenance_time := t, accounts_registered_this_interval := 0\<rparr>\<rparr> in
     bind (reset_settled_volumes s11) (\<lambda>s12.
     process_budget F s12)))))))))))"

section \<open>Maintenance keeps the ledger\<close>

lemma try_operation_start:
  "try_operation F ev op s = Inr (Some (s', r)) \<Longrightarrow> start_evaluate F ev False True 0 op s = Inr (s', r)"
  by (auto simp: try_operation_def start_evaluate_def ok_simps split: sum.splits)

lemma limit_create_amount:
  assumes F: "fc_laws F" and ok: "start_evaluate F limit_order_create_evaluator False skip_check required op s = Inr (s', r)"
    and pos: "0 < amount (amount_to_sell op)"
  shows "in_int64 (amount (amount_to_sell op))"
proof -
  obtain n t u where n: "asset_neg F (amount_to_sell op) = Inr n" and a: "adjust_balance F (lc_seller op) n t = Inr u"
    using ok by (auto simp: start_evaluate_def apply_op_def limit_order_create_evaluator_def limit_order_create_do_apply_def ok_simps)
  have n': "amount n = - amount (amount_to_sell op)" using n by (auto simp: fc_laws.asset_neg_Inr [OF F])
  then obtain m where "asset_neg F n = Inr m"
    using a pos by (auto simp: adjust_balance_def ok_simps split: if_splits option.splits)
  then have "safe_neg F (amount n) = Inr (amount m)" by (auto simp: asset_neg_def ok_simps)
  then show ?thesis using n' by (auto simp: fc_laws.safe_neg_Inr [OF F])
qed

lemma buyback_order_valid:
  assumes F: "fc_laws F" and st: "start_evaluate F limit_order_create_evaluator False True 0 (buyback_order i buy x sell) s = Inr (s', k)"
    and x: "0 < x" "sell \<noteq> buy"
  shows "limit_order_create_valid (buyback_order i buy x sell)"
proof -
  have "in_int64 x" using limit_create_amount [OF F st] x by (simp add: buyback_order_def)
  then show ?thesis
    using x by (simp add: limit_order_create_valid_def limit_order_create_validate_def buyback_order_def ok_simps fc_assert_def)
qed

lemma sell_holding_conserves:
  assumes F: "fc_laws F" and inv: "chain_inv s" and x: "0 < x" "sell \<noteq> buy" and ok: "sell_holding F i buy x sell s = Inr s'"
  shows "conserves s s'"
proof -
  let ?op = "buyback_order i buy x sell"
  have create: "conserves s s1" if "try_operation F limit_order_create_evaluator ?op s = Inr (Some (s1, k))" for s1 k
  proof -
    note st = try_operation_start [OF that]
    have "limit_order_create_valid ?op" by (rule buyback_order_valid [OF F st x])
    from limit_create_ev.start_evaluate_conserves [OF F inv this st] show ?thesis .
  qed
  have cancel: "conserves s1 s2" if "chain_inv s1" "try_operation F limit_order_cancel_evaluator op s1 = Inr (Some (s2, r))" for s1 s2 op r
    using limit_cancel_ev.start_evaluate_conserves [OF F that(1) _ try_operation_start [OF that(2)]] by simp
  obtain r where r: "try_operation F limit_order_create_evaluator ?op s = Inr r" using ok by (auto simp: sell_holding_def ok_simps)
  show ?thesis
  proof (cases r)
    case None
    then show ?thesis using ok r inv by (simp add: sell_holding_def)
  next
    case (Some p)
    obtain s1 k where p: "p = (s1, k)" by (cases p)
    have 1: "conserves s s1" using create r Some p by blast
    then have i1: "chain_inv s1" by (simp add: conserves_def)
    have "conserves s1 s'" using ok r Some p cancel [OF i1] i1 by (auto simp: sell_holding_def ok_simps split: if_splits option.splits)
    with 1 show ?thesis by (rule conserves_trans)
  qed
qed

lemma next_holding_Some:
  assumes "next_holding i buy allowed n s = Some b"
  shows "b \<in> snd ` set (rows (balances s))" "asset_type b \<noteq> buy" "balance b \<noteq> 0" "asset_type b \<in> allowed" "n \<le> asset_type b"
proof -
  let ?hs = "account_holdings i s"
  have in_rest: "b \<in> set (dropWhile (\<lambda>b. asset_type b < n) ?hs)" and p: "asset_type b \<noteq> buy \<and> balance b \<noteq> 0 \<and> asset_type b \<in> allowed"
    using assms by (auto simp: next_holding_def find_Some_iff)
  then show "asset_type b \<noteq> buy" "balance b \<noteq> 0" "asset_type b \<in> allowed" by simp_all
  have "b \<in> set ?hs" using in_rest by (rule set_dropWhileD)
  then show "b \<in> snd ` set (rows (balances s))" by (auto simp: account_holdings_def)
  have "sorted (map asset_type ?hs)" by (simp add: account_holdings_def)
  then have "sorted (map asset_type (dropWhile (\<lambda>b. asset_type b < n) ?hs))"
    unfolding dropWhile_eq_drop drop_map [symmetric] by (rule sorted_wrt_drop)
  moreover obtain h hs where h: "dropWhile (\<lambda>b. asset_type b < n) ?hs = h # hs" using in_rest by (cases "dropWhile (\<lambda>b. asset_type b < n) ?hs") auto
  ultimately have "asset_type h \<le> asset_type b" using in_rest by auto
  moreover have "\<not> asset_type h < n" using hd_dropWhile [of "\<lambda>b. asset_type b < n" ?hs] h by simp
  ultimately show "n \<le> asset_type b" by simp
qed

text \<open>A buyback account sells each asset it may hold at most once, so the loop ends within the number of these assets.\<close>

interpretation buyback_lp: shrinking_loop "buyback_step F i buy allowed" "\<lambda>st. finite allowed" "\<lambda>(n, s). card {a \<in> allowed. n \<le> a}"
  for F i buy allowed
proof unfold_locales
  fix st st' assume fin: "finite allowed" and st: "buyback_step F i buy allowed st = Inr (Continue st')"
  obtain n s where n: "st = (n, s)" by (cases st)
  obtain b s' where b: "next_holding i buy allowed n s = Some b" and st': "st' = (asset_type b + 1, s')"
    using st by (auto simp: buyback_step_def n ok_simps split: option.splits)
  have "{a \<in> allowed. asset_type b + 1 \<le> a} \<subset> {a \<in> allowed. n \<le> a}" proof (rule psubsetI)
    show "{a \<in> allowed. asset_type b + 1 \<le> a} \<subseteq> {a \<in> allowed. n \<le> a}" using next_holding_Some(5) [OF b] by auto
    have "asset_type b \<in> {a \<in> allowed. n \<le> a}" using next_holding_Some(4,5) [OF b] by simp
    moreover have "asset_type b \<notin> {a \<in> allowed. asset_type b + 1 \<le> a}" by simp
    ultimately show "{a \<in> allowed. asset_type b + 1 \<le> a} \<noteq> {a \<in> allowed. n \<le> a}" by blast
  qed
  then have "card {a \<in> allowed. asset_type b + 1 \<le> a} < card {a \<in> allowed. n \<le> a}" using fin by (intro psubset_card_mono) auto
  then show "finite allowed \<and> (case st' of (n, s) \<Rightarrow> card {a \<in> allowed. n \<le> a}) < (case st of (n, s) \<Rightarrow> card {a \<in> allowed. n \<le> a})"
    using fin by (simp add: n st')
qed

lemma buyback_loop_ends:
  "finite allowed \<Longrightarrow> loop_result (buyback_step F i buy allowed) (0, s) (run_loop (Suc (card allowed)) (buyback_step F i buy allowed) (0, s))"
  by (rule buyback_lp.run_loop_result) simp_all

lemma buyback_account_conserves:
  assumes F: "fc_laws F" and inv: "chain_inv s" and nn: "balances_nonneg s" and ok: "buyback_account_orders F i buy s = Inr s'"
  shows "conserves s s'"
proof -
  have step: "conserves s t" if u: "conserves s u" and b: "next_holding i buy allowed n u = Some b"
    and t: "sell_holding F i buy (balance b) (asset_type b) u = Inr t" for u b t allowed n
  proof -
    note h = next_holding_Some [OF b]
    have "0 \<le> balance b" using u nn h(1) by (auto simp: conserves_def balances_nonneg_def)
    then have "0 < balance b" using h(3) by simp
    moreover have "chain_inv u" using u by (simp add: conserves_def)
    ultimately show ?thesis using sell_holding_conserves [OF F _ _ h(2) t] conserves_trans [OF u] by blast
  qed
  obtain a where a: "index_find (accounts s) i = Some a" using ok by (auto simp: buyback_account_orders_def index_get_def ok_simps)
  show ?thesis
  proof (cases "allowed_assets a")
    case None
    then show ?thesis using ok a inv by (simp add: buyback_account_orders_def index_get_def)
  next
    case (Some allowed)
    then have run: "run_loop (Suc (card allowed)) (buyback_step F i buy allowed) (0, s) = Inr s'"
      using ok a by (simp add: buyback_account_orders_def index_get_def)
    show ?thesis
    proof (rule run_loop_invariant [OF run, where I = "\<lambda>st. conserves s (snd st)"])
      show "conserves s (snd (0, s))" using inv by simp
      show "conserves s (snd st')" if "conserves s (snd st)" "buyback_step F i buy allowed st = Inr (Continue st')" for st st'
        using that step by (cases st) (auto simp: buyback_step_def ok_simps split: option.splits)
      show "conserves s x" if "conserves s (snd st)" "buyback_step F i buy allowed st = Inr (Finish x)" for st x
        using that by (cases st) (auto simp: buyback_step_def ok_simps split: option.splits)
    qed
  qed
qed

lemma create_buyback_orders_conserves:
  assumes F: "fc_laws F" and inv: "chain_inv s" and nn: "balances_nonneg s" and ok: "create_buyback_orders F s = Inr s'"
  shows "conserves s s'"
proof (rule fold_result_invariant [OF ok [unfolded create_buyback_orders_def], where P = "conserves s"])
  fix k u v assume u: "conserves s u" and v: "buyback_orders_of F k u = Inr v"
  obtain i buy where o: "buyback_account_orders F i buy u = Inr v" using v by (auto simp: buyback_orders_of_def ok_simps)
  have "chain_inv u" "balances_nonneg u" using u nn by (simp_all add: conserves_def)
  from conserves_trans [OF u buyback_account_conserves [OF F this o]] show "conserves s v" .
qed (use inv in simp)

lemma deprecate_annual_members_conserves:
  assumes F: "fc_laws F" and inv: "chain_inv s" and ok: "deprecate_annual_members F s = Inr s'"
  shows "conserves s s'"
proof (rule fold_result_invariant [OF ok [unfolded deprecate_annual_members_def], where P = "conserves s"])
  fix i u v assume u: "conserves s u" and v: "deprecate_member F i u = Inr v"
  have iu: "chain_inv u" using u by (simp add: conserves_def)
  have up: "conserves u w" if "try_operation F account_upgrade_evaluator op u = Inr (Some (w, r))" for op w r
    using account_upgrade_ev.start_evaluate_conserves [OF F iu _ try_operation_start [OF that]] by simp
  have "conserves u v" using v up iu by (auto simp: deprecate_member_def ok_simps split: if_splits option.splits)
  with u show "conserves s v" by (rule conserves_trans)
qed (use inv in simp)

lemma unscale_conserves: "chain_inv s \<Longrightarrow> unscale_registration_fee s = Inr s' \<Longrightarrow> conserves s s'"
  by (auto simp: unscale_registration_fee_def Let_def conserves_def split: if_splits)

lemma adopt_conserves: "chain_inv s \<Longrightarrow> conserves s (adopt_pending_parameters s)"
  by (auto simp: adopt_pending_parameters_def conserves_def split: option.splits)

lemma reset_volumes_conserves:
  assumes inv: "chain_inv s" and ok: "reset_settled_volumes s = Inr s'"
  shows "conserves s s'"
proof (rule fold_result_invariant [OF ok [unfolded reset_settled_volumes_def], where P = "conserves s"])
  fix k u v assume u: "conserves s u" and v: "modify_bitasset k (\<lambda>b. Inr (b\<lparr>force_settled_volume := 0\<rparr>)) u = Inr v"
  have "chain_inv u" using u by (simp add: conserves_def)
  moreover have "bitasset_ok x'" if "bitasset_ok x" "Inr (x\<lparr>force_settled_volume := 0\<rparr>) = (Inr x' :: asset_bitasset_data_object result)" for x x'
    using that by (auto simp: bitasset_ok_def has_settlement_def)
  ultimately obtain x t where "index_find (bitassets u) k = Some x" "v = put_bitassets t u" "chain_inv v"
      "\<forall>a. ledger a v = ledger a u - fund_in a x + fund_in a (x\<lparr>force_settled_volume := 0\<rparr>)"
    using bit_tab.modify_checked [OF _ v] by blast
  then have "conserves u v" by (auto simp: conserves_def fund_in_def)
  with u show "conserves s v" by (rule conserves_trans)
qed (use inv in simp)

lemma process_budget_keeps:
  assumes "fc_laws F" "chain_inv s" "process_budget F s = Inr s'"
  shows "conserves s s'"
proof -
  obtain rec rest where "plan_budget F s = Inr (rec, rest)" using assms(3) by (auto simp: process_budget_def ok_simps)
  from fc_laws.process_budget_step [OF assms this] show ?thesis by blast
qed

lemma election_phase_conserves:
  assumes F: "fc_laws F" and inv: "chain_inv s" and m: "perform_account_maintenance F s = Inr (buf, s1)"
    and t: "update_top_n_authorities s1 = Inr s2" and w: "update_active_witnesses F mw buf s2 = Inr s3"
    and c: "update_active_committee_members mc buf s3 = Inr s4" and k: "update_worker_votes buf s4 = Inr s5"
  shows "conserves s s5"
proof -
  note 1 = account_maintenance_conserves [OF F inv m]
  then have "chain_inv s1" by (simp add: conserves_def)
  note 2 = conserves_trans [OF 1 update_top_n_conserves [OF this t]]
  then have "chain_inv s2" by (simp add: conserves_def)
  note 3 = conserves_trans [OF 2 update_active_witnesses_conserves [OF this w]]
  then have "chain_inv s3" by (simp add: conserves_def)
  note 4 = conserves_trans [OF 3 update_committee_conserves [OF this c]]
  then have "chain_inv s4" by (simp add: conserves_def)
  from conserves_trans [OF 4 update_worker_votes_conserves [OF this k]] show ?thesis .
qed

lemma maintenance_conserves:
  assumes F: "fc_laws F" and inv: "chain_inv s" and nn: "balances_nonneg s"
    and ok: "perform_chain_maintenance F mw mc n ts s = Inr s'"
  shows "conserves s s'"
proof -
  obtain s1 s2 buf s3 s4 s5 s6 s7 s8 t s10 s12 where
    a: "distribute_fba_balances F s = Inr s1" "create_buyback_orders F s1 = Inr s2"
    and b: "perform_account_maintenance F s2 = Inr (buf, s3)" "update_top_n_authorities s3 = Inr s4" "update_active_witnesses F mw buf s4 = Inr s5"
      "update_active_committee_members mc buf s5 = Inr s6" "update_worker_votes buf s6 = Inr s7"
    and c: "unscale_registration_fee s7 = Inr s8"
      "(if next_maintenance_time (dgp (adopt_pending_parameters s8)) < HARDFORK_613_TIME \<and> t \<ge> HARDFORK_613_TIME
        then deprecate_annual_members F (adopt_pending_parameters s8) else Inr (adopt_pending_parameters s8)) = Inr s10"
    and d: "reset_settled_volumes (s10\<lparr>dgp := (dgp s10)\<lparr>next_maintenance_time := t, accounts_registered_this_interval := 0\<rparr>\<rparr>) = Inr s12"
      "process_budget F s12 = Inr s'"
    using ok unfolding perform_chain_maintenance_def Let_def by (simp only: bind_eq_Inr split_paired_Ex prod.case) blast
  have 1: "conserves s s1" using fc_laws.distribute_fba_conserves [OF F inv a(1)] .
  then have "conserves s1 s2" using create_buyback_orders_conserves [OF F _ _ a(2)] nn by (simp add: conserves_def)
  with 1 have 2: "conserves s s2" by (rule conserves_trans)
  then have "chain_inv s2" by (simp add: conserves_def)
  note 7 = conserves_trans [OF 2 election_phase_conserves [OF F this b]]
  then have "chain_inv s7" by (simp add: conserves_def)
  note 8 = conserves_trans [OF 7 unscale_conserves [OF this c(1)]]
  then have "chain_inv s8" by (simp add: conserves_def)
  note 9 = conserves_trans [OF 8 adopt_conserves [OF this]]
  then have i9: "chain_inv (adopt_pending_parameters s8)" by (simp add: conserves_def)
  have "conserves (adopt_pending_parameters s8) s10" using c(2) deprecate_annual_members_conserves [OF F i9] i9 by (auto split: if_splits)
  with 9 have 10: "conserves s s10" by (rule conserves_trans)
  let ?s11 = "s10\<lparr>dgp := (dgp s10)\<lparr>next_maintenance_time := t, accounts_registered_this_interval := 0\<rparr>\<rparr>"
  have "conserves s10 ?s11" using 10 by (simp add: conserves_def ledger_dgp)
  with 10 have 11: "conserves s ?s11" by (rule conserves_trans)
  then have "chain_inv ?s11" by (simp add: conserves_def)
  note 12 = conserves_trans [OF 11 reset_volumes_conserves [OF this d(1)]]
  then have "chain_inv s12" by (simp add: conserves_def)
  from conserves_trans [OF 12 process_budget_keeps [OF F this d(2)]] show ?thesis .
qed

section \<open>The registration fee\<close>

primrec register_accounts :: "nat \<Rightarrow> database \<Rightarrow> database result" where
  "register_accounts 0 s = Inr s"
| "register_accounts (Suc k) s = bind (register_accounts k s) count_registration"

definition fee_scalings :: "nat \<Rightarrow> database \<Rightarrow> nat" where
  "fee_scalings k s = unat (account_fee_scale_bitshifts (parameters s)) * (k div unat (accounts_per_fee_scale (parameters s)))"

definition registered_state :: "nat \<Rightarrow> database \<Rightarrow> database" where
  "registered_state k s = s\<lparr>dgp := (dgp s)\<lparr>accounts_registered_this_interval := of_nat k\<rparr>,
     parameters := (parameters s)\<lparr>account_create_basic_fee := push_bit (fee_scalings k s) (account_create_basic_fee (parameters s))\<rparr>\<rparr>"

lemma unat_ucast_u16 [simp]: "unat (ucast (x :: u16) :: u32) = unat x"
proof -
  have "unat x < 2 ^ 16" using unsigned_less [of x] by simp
  then show ?thesis by (simp add: unsigned_ucast_eq take_bit_nat_eq_self)
qed

lemma unat_ucast_u8 [simp]: "unat (ucast (x :: u8) :: u32) = unat x"
proof -
  have "unat x < 2 ^ 8" using unsigned_less [of x] by simp
  then show ?thesis by (simp add: unsigned_ucast_eq take_bit_nat_eq_self)
qed

lemma unat_small: "k < 2 ^ 32 \<Longrightarrow> unat (of_nat k :: u32) = k"
  by (simp add: unsigned_of_nat take_bit_nat_eq_self)

lemma scalings_step:
  "fee_scalings (Suc k) s = fee_scalings k s +
     (if Suc k mod unat (accounts_per_fee_scale (parameters s)) = 0 then unat (account_fee_scale_bitshifts (parameters s)) else 0)"
  by (simp add: fee_scalings_def div_Suc distrib_left)

lemma scalings_mono: "j \<le> k \<Longrightarrow> fee_scalings j s \<le> fee_scalings k s"
  by (simp add: fee_scalings_def div_le_mono)

lemma register_accounts_state:
  assumes z: "accounts_registered_this_interval (dgp s) = 0" and scale: "accounts_per_fee_scale (parameters s) \<noteq> 0"
  shows "k < 2 ^ 32 \<Longrightarrow> fee_scalings k s < 64 \<Longrightarrow> register_accounts k s = Inr (registered_state k s)"
proof (induction k)
  case 0
  have "(dgp s)\<lparr>accounts_registered_this_interval := 0\<rparr> = dgp s" using z [symmetric] by simp
  then show ?case by (simp add: registered_state_def fee_scalings_def)
next
  case (Suc k)
  let ?sc = "unat (accounts_per_fee_scale (parameters s))" and ?sh = "unat (account_fee_scale_bitshifts (parameters s))"
  have sc: "0 < ?sc" using scale by (simp add: unat_gt_0)
  have ih: "register_accounts k s = Inr (registered_state k s)"
    using Suc scalings_mono [of k "Suc k" s] by simp
  have n: "of_nat k + 1 = (of_nat (Suc k) :: u32)" by simp
  have "unat ((of_nat (Suc k) :: u32) mod ucast (accounts_per_fee_scale (parameters s))) = Suc k mod ?sc"
    unfolding unat_mod unat_small [OF Suc.prems(1)] by simp
  then have m: "(of_nat (Suc k) :: u32) mod ucast (accounts_per_fee_scale (parameters s)) = 0 \<longleftrightarrow> Suc k mod ?sc = 0"
    by (metis unat_eq_zero)
  have u0: "(ucast (accounts_per_fee_scale (parameters s)) :: u32) \<noteq> 0"
    using sc by (metis unat_0 unat_ucast_u16 less_irrefl)
  have sh: "?sh < 64" if "Suc k mod ?sc = 0" using Suc.prems(2) scalings_step [of k s] that by simp
  have "count_registration (registered_state k s) = Inr (registered_state (Suc k) s)"
  proof (cases "Suc k mod ?sc = 0")
    case True
    then have "fee_scalings (Suc k) s = ?sh + fee_scalings k s" using scalings_step [of k s] by simp
    then show ?thesis using sh [OF True] m u0 True
      by (simp add: count_registration_def registered_state_def Let_def n push_bit_push_bit del: of_nat_Suc)
  next
    case False
    then show ?thesis using m u0 scalings_step [of k s]
      by (simp add: count_registration_def registered_state_def Let_def n del: of_nat_Suc)
  qed
  then show ?case by (simp add: ih)
qed

section \<open>Properties\<close>


definition demo_maintenance :: database where
  "demo_maintenance = put_committee_members \<lparr> next_id = 1, rows = [(0, \<lparr> committee_member_account = 6, cm_vote_id = make_vote_id Vote_Committee 4, cm_total_votes = 0, cm_url = [] \<rparr>)] \<rparr>
     (put_fba_accumulators \<lparr> next_id = 3, rows = map (\<lambda>i. (i, \<lparr> accumulated_fba_fees = 0, designated_asset = None \<rparr>)) [0, 1, 2] \<rparr>
     (put_witnesses (witnesses demo_election)
     (put_workers (workers demo_budget)
     (put_stats \<lparr> next_id = 6, rows = [(0, demo_stats 5), (2, (demo_stats 6)\<lparr>pending_fees := 150, pending_vested_fees := 50\<rparr>), (3, demo_stats 0), (4, demo_stats 1), (5, demo_stats 2)] \<rparr>
     (put_accounts \<lparr> next_id = 7, rows = [(0, demo_account ''committee'' 3), (1, demo_account ''witness'' 4), (2, demo_account ''relaxed'' 5),
        (5, (demo_account ''alice'' 0)\<lparr>acct_options := \<lparr> voting_account = 5, num_witness = 0, num_committee = 0, votes = [make_vote_id Vote_Witness 2, make_vote_id Vote_Committee 4] \<rparr>\<rparr>),
        (6, demo_account ''bob'' 2)] \<rparr>
     (demo_chain\<lparr>next_available_vote_id := 10, dgp := (dgp demo_chain)\<lparr>last_budget_time := head_block_time demo_chain - 86400\<rparr>\<rparr>))))))"

lemma demo_maintenance_inv: "chain_inv demo_maintenance" "balances_nonneg demo_maintenance"
proof -
  have "chain_inv (demo_chain\<lparr>next_available_vote_id := 10, dgp := (dgp demo_chain)\<lparr>last_budget_time := head_block_time demo_chain - 86400\<rparr>\<rparr>)"
    using demo_chain_inv by simp
  then show "chain_inv demo_maintenance" unfolding demo_maintenance_def
    by (intro committee_tab.inv_put fba_tab.inv_put witness_tab.inv_put worker_tab.inv_put stat_tab.inv_put acc_tab.inv_put)
      (simp_all add: index_inv_def sorted_rows_def rows_ok_def demo_election_def demo_budget_def)
  show "balances_nonneg demo_maintenance" by (simp add: demo_maintenance_def balances_nonneg_def demo_chain_def demo_balance_def)
qed


text \<open>
  The next maintenance is the first one after the block. When the time for maintenance has come and times do not wrap around, the new
  maintenance time is later than the block, at most one interval later, and the smallest of the old maintenance time plus a
  multiple of the interval that is; for the first block it is a multiple of the interval itself.
\<close>

theorem following_maintenance_least:
  assumes m: "m \<noteq> 0" and due: "t \<le> timestamp" and fits: "uint timestamp + uint m < 2 ^ 32"
  shows "\<exists>t'. following_maintenance block_num timestamp timestamp m t = Inr t' \<and> timestamp < t' \<and> uint t' \<le> uint timestamp + uint m \<and>
    (if block_num = 1 then uint t' mod uint m = 0
     else (uint t' - uint t) mod uint m = 0 \<and> (\<forall>k \<ge> 0. uint timestamp < uint t + k * uint m \<longrightarrow> uint t' \<le> uint t + k * uint m))"
proof -
  have "uint m \<noteq> 0" using m by (simp only: unsigned_eq_0_iff not_False_eq_True)
  then have m0: "0 < uint m" using uint_ge_0 [of m] by linarith
  have d: "uint t \<le> uint timestamp" using due by (simp add: word_le_def)
  have word: "uint (word_of_int x :: u32) = x" if "0 \<le> x" "x < 2 ^ 32" for x using that by (simp add: uint_word_of_int_eq take_bit_int_eq_self)
  show ?thesis
  proof (cases "block_num = 1")
    case True
    let ?t' = "(timestamp div m + 1) * m" and ?x = "(uint timestamp div uint m + 1) * uint m"
    have q: "?x = uint timestamp - uint timestamp mod uint m + uint m" by (simp add: algebra_simps minus_mod_eq_div_mult [symmetric])
    have r: "0 \<le> uint timestamp mod uint m" "uint timestamp mod uint m < uint m" using m0 by simp_all
    have "?t' = word_of_int ?x" by (simp add: word_div_def [symmetric] uint_div [symmetric])
    moreover have "0 \<le> ?x" "?x < 2 ^ 32" using q r fits d uint_ge_0 [of t] by linarith+
    ultimately have u: "uint ?t' = ?x" by (simp only: word)
    have "uint ?t' mod uint m = 0" unfolding u by simp
    moreover have "timestamp < ?t'" "uint ?t' \<le> uint timestamp + uint m" using u q r by (simp_all add: word_less_def)
    ultimately show ?thesis using True m due by (auto simp: following_maintenance_def)
  next
    case False
    let ?a = "uint timestamp - uint t"
    let ?y = "?a div uint m" and ?r = "?a mod uint m"
    have r: "0 \<le> ?r" "?r < uint m" using m0 by simp_all
    have y: "?y * uint m = ?a - ?r" by (simp add: minus_mod_eq_div_mult)
    have quot: "int_quot ?a (uint m) = ?y" using d m0 by (auto simp: int_quot_def sgn_if)
    let ?t' = "t + word_of_int ((?y + 1) * uint m)"
    have e: "uint t + (?y + 1) * uint m = uint timestamp - ?r + uint m" using y by (simp add: distrib_right)
    have "?t' = word_of_int (uint t + (?y + 1) * uint m)" by simp
    moreover have "0 \<le> uint t + (?y + 1) * uint m" "uint t + (?y + 1) * uint m < 2 ^ 32" using e r fits d uint_ge_0 [of t] by linarith+
    ultimately have "uint ?t' = uint t + (?y + 1) * uint m" by (simp only: word)
    then have u: "uint ?t' = uint timestamp - ?r + uint m" using e by linarith
    have "uint ?t' - uint t = (?y + 1) * uint m" using u e by linarith
    then have "(uint ?t' - uint t) mod uint m = 0" by simp
    moreover have "uint ?t' \<le> uint t + k * uint m" if "uint timestamp < uint t + k * uint m" for k
    proof -
      have "?y * uint m < k * uint m" using that y r by linarith
      then have "?y + 1 \<le> k" using m0 by (simp add: mult_less_cancel_right)
      then have "(?y + 1) * uint m \<le> k * uint m" using m0 by (intro mult_right_mono) auto
      then show ?thesis using u e by linarith
    qed
    moreover have "timestamp < ?t'" "uint ?t' \<le> uint timestamp + uint m" using u r by (simp_all add: word_less_def)
    ultimately show ?thesis using False m due quot by (auto simp: following_maintenance_def Let_def)
  qed
qed

theorem following_maintenance_least_witness:
  "following_maintenance 9 1000 1000 300 250 = Inr 1150 \<and> (1000 :: u32) < 1150 \<and> uint (1150 :: u32) \<le> uint (1000 :: u32) + uint (300 :: u32)"
proof -
  have "following_maintenance 9 1000 1000 300 250 = Inr 1150" by code_simp
  then show ?thesis using following_maintenance_least [of 300 250 1000 9] by simp
qed

text \<open>
  The maintenance takes back what account registrations did to the registration fee: after any number of registrations in one interval the
  fee is shifted down to what it was at the start, provided that scaling it up did not lose bits.
\<close>

theorem registration_fee_restored:
  assumes "accounts_registered_this_interval (dgp s) = 0" "accounts_per_fee_scale (parameters s) \<noteq> 0" "k < 2 ^ 32" "fee_scalings k s < 64"
    and fits: "uint (account_create_basic_fee (parameters s)) * 2 ^ fee_scalings k s < 2 ^ 64"
  shows "bind (register_accounts k s) unscale_registration_fee = Inr (s\<lparr>dgp := (dgp s)\<lparr>accounts_registered_this_interval := of_nat k\<rparr>\<rparr>)"
proof -
  let ?n = "fee_scalings k s" and ?fee = "account_create_basic_fee (parameters s)" and ?sc = "unat (accounts_per_fee_scale (parameters s))"
  have p: "uint (push_bit ?n ?fee) = uint ?fee * 2 ^ ?n"
  proof -
    have "uint (push_bit ?n ?fee) = take_bit 64 (push_bit ?n (uint ?fee))" by (simp add: unsigned_push_bit_eq)
    also have "\<dots> = take_bit 64 (uint ?fee * 2 ^ ?n)" by (simp only: push_bit_eq_mult)
    also have "\<dots> = uint ?fee * 2 ^ ?n" using fits by (simp add: take_bit_int_eq_self)
    finally show ?thesis .
  qed
  have "uint (drop_bit ?n (push_bit ?n ?fee)) = drop_bit ?n (uint (push_bit ?n ?fee))"
    using uint_lt2p [of "push_bit ?n ?fee"] by (simp add: unsigned_drop_bit_eq take_bit_int_eq_self)
  also have "\<dots> = uint (push_bit ?n ?fee) div 2 ^ ?n" by (simp only: drop_bit_eq_div)
  finally have "uint (drop_bit ?n (push_bit ?n ?fee)) = uint ?fee" by (simp add: p)
  then have fee: "drop_bit ?n (push_bit ?n ?fee) = ?fee" by (simp only: word_uint_eq_iff)
  have sc: "0 < ?sc" using assms(2) by (simp add: unat_gt_0)
  then have u0: "(ucast (accounts_per_fee_scale (parameters s)) :: u32) \<noteq> 0" by (metis unat_0 unat_ucast_u16 less_irrefl)
  have d: "unat ((of_nat k :: u32) div ucast (accounts_per_fee_scale (parameters s))) = k div ?sc"
    unfolding unat_div unat_small [OF assms(3)] by simp
  have "unat (ucast (account_fee_scale_bitshifts (parameters s)) * ((of_nat k :: u32) div ucast (accounts_per_fee_scale (parameters s)))) = ?n"
    using assms(4) d by (subst unat_mult_lem [THEN iffD1]) (simp_all add: fee_scalings_def)
  then have "unscale_registration_fee (registered_state k s) = Inr (s\<lparr>dgp := (dgp s)\<lparr>accounts_registered_this_interval := of_nat k\<rparr>\<rparr>)"
    using u0 assms(4) fee by (simp add: unscale_registration_fee_def registered_state_def)
  then show ?thesis using register_accounts_state [OF assms(1-4)] by simp
qed

definition demo_scaled :: database where
  "demo_scaled = demo_chain\<lparr>parameters := (parameters demo_chain)\<lparr>accounts_per_fee_scale := 2\<rparr>\<rparr>"

theorem registration_fee_restored_witness:
  "bind (register_accounts 5 demo_scaled) unscale_registration_fee =
     Inr (demo_scaled\<lparr>dgp := (dgp demo_scaled)\<lparr>accounts_registered_this_interval := 5\<rparr>\<rparr>) \<and>
   (case register_accounts 5 demo_scaled of Inl e \<Rightarrow> False | Inr s1 \<Rightarrow> account_create_basic_fee (parameters s1) = 128000)"
proof -
  have n: "fee_scalings 5 demo_scaled = 8" by (simp add: fee_scalings_def demo_scaled_def demo_chain_def)
  have "case register_accounts 5 demo_scaled of Inl e \<Rightarrow> False | Inr s1 \<Rightarrow> account_create_basic_fee (parameters s1) = 128000" by code_simp
  moreover have "bind (register_accounts 5 demo_scaled) unscale_registration_fee =
     Inr (demo_scaled\<lparr>dgp := (dgp demo_scaled)\<lparr>accounts_registered_this_interval := of_nat 5\<rparr>\<rparr>)"
    by (rule registration_fee_restored) (simp_all add: n, simp_all add: demo_scaled_def demo_chain_def)
  ultimately show ?thesis by simp
qed

end
