(* ===== verification/Transactions.thy ===== *)
theory Transactions
  imports Operations "HOL-Library.Sublist"
begin

text \<open>
  Transactions (protocol/transaction.hpp, protocol/transaction.cpp, transaction_object.hpp, db_block.cpp, db_with.hpp, db_update.cpp): their
  validation, the checks against replay, expiration and missing authority, their application, and the pool of pending transactions
  a node keeps on top of its head block.

  Hashes, signature recovery and packed sizes belong to the fc library and are a parameter (the record
  \<open>crypto_lib\<close>). Throwing undoes the session it happens in, so a failed application leaves the state it started
  from (\<open>Undo_Database\<close> shows that undoing a session restores every table); the pending session is the state at its start.
\<close>

unbundle bit_operations_syntax

section \<open>Transactions\<close>

record signed_transaction =
  ref_block_num :: u16
  ref_block_prefix :: u32
  tx_expiration :: time_point_sec
  operations :: "operation list"
  signatures :: "nat list"

record crypto_lib =
  tx_id :: "signed_transaction \<Rightarrow> nat"
  recover_key :: "signed_transaction \<Rightarrow> nat \<Rightarrow> public_key result"
  addresses_of :: "public_key \<Rightarrow> address list"
  pack_size :: "signed_transaction \<times> operation_result list \<Rightarrow> nat"

record transaction_object =
  tr_trx :: signed_transaction
  tr_id :: nat

definition same_trx_id :: "transaction_object \<Rightarrow> transaction_object \<Rightarrow> bool" where
  "same_trx_id a b \<longleftrightarrow> tr_id a = tr_id b"

text \<open>The state of the chain with the tables that only transactions and blocks use.\<close>

record chain_db =
  state :: database
  transactions :: "transaction_object index"
  block_summaries :: "nat \<rightharpoonup> u32"

definition skip_transaction_signatures :: u32 where "skip_transaction_signatures = push_bit 1 1"
definition skip_transaction_dupe_check :: u32 where "skip_transaction_dupe_check = push_bit 2 1"
definition skip_tapos_check :: u32 where "skip_tapos_check = push_bit 5 1"
definition skip_authority_check :: u32 where "skip_authority_check = push_bit 6 1"

definition skips :: "u32 \<Rightarrow> u32 \<Rightarrow> bool" where
  "skips skip flag \<longleftrightarrow> skip AND flag \<noteq> 0"

fun validate_operations :: "operation list \<Rightarrow> unit result" where
  "validate_operations [] = Inr ()"
| "validate_operations (op # ops) = bind (operation_validate op) (\<lambda>_. validate_operations ops)"

definition transaction_validate :: "signed_transaction \<Rightarrow> unit result" where
  "transaction_validate trx =
     bind (fc_assert (length (operations trx) > 0) ''A transaction must have at least one operation'') (\<lambda>_.
     validate_operations (operations trx))"

definition get_required_authorities :: "signed_transaction \<Rightarrow> required_auths" where
  "get_required_authorities trx =
     fold operation_get_required_authorities (operations trx) \<lparr> required_active = [], required_owner = [], other_auths = [] \<rparr>"

definition db_get_active :: "database \<Rightarrow> nat \<Rightarrow> authority option result" where
  "db_get_active s a = bind (index_get (accounts s) a) (\<lambda>acct. Inr (Some (active_authority acct)))"

definition db_get_owner :: "database \<Rightarrow> nat \<Rightarrow> authority option result" where
  "db_get_owner s a = bind (index_get (accounts s) a) (\<lambda>acct. Inr (Some (owner_authority acct)))"

definition db_sign_env :: "crypto_lib \<Rightarrow> database \<Rightarrow> sign_env" where
  "db_sign_env L s = \<lparr> get_active = db_get_active s, available_keys = [], key_addresses = addresses_of L \<rparr>"

definition transaction_verify_authority :: "crypto_lib \<Rightarrow> database \<Rightarrow> signed_transaction \<Rightarrow> unit result" where
  "transaction_verify_authority L s trx =
     bind (get_signature_keys (recover_key L trx) (signatures trx) []) (\<lambda>keys.
     verify_authority (db_sign_env L s) (db_get_owner s) (unat (max_authority_depth (parameters s))) False {} {}
       (get_required_authorities trx) keys)"

definition is_known_transaction :: "chain_db \<Rightarrow> nat \<Rightarrow> bool" where
  "is_known_transaction c i \<longleftrightarrow> find_row (\<lambda>t. tr_id t = i) (transactions c) \<noteq> None"

section \<open>Applying a transaction\<close>

definition check_time_and_block :: "u32 \<Rightarrow> signed_transaction \<Rightarrow> chain_db \<Rightarrow> unit result" where
  "check_time_and_block skip trx c =
     (let s = state c; now = head_block_time s in
      if head_block_number (dgp s) > 0 then
        bind (if \<not> skips skip skip_tapos_check
              then bind (the_object (block_summaries c (unat (ref_block_num trx)))) (\<lambda>prefix.
                   fc_assert (ref_block_prefix trx = prefix) ''trx.ref_block_prefix == tapos_block_summary.block_id._hash[1]'')
              else Inr ()) (\<lambda>_.
        bind (fc_assert (tx_expiration trx \<le> now + maximum_time_until_expiration (parameters s)) ''expiration'') (\<lambda>_.
        fc_assert (now \<le> tx_expiration trx) ''now <= trx.expiration''))
      else Inr ())"

fun apply_operations ::
  "fc_lib \<Rightarrow> (operation \<Rightarrow> database \<Rightarrow> share_type) \<Rightarrow> transaction_evaluation_state \<Rightarrow> operation list \<Rightarrow> database \<Rightarrow>
   (database \<times> operation_result list) result" where
  "apply_operations F fees ts [] s = Inr (s, [])"
| "apply_operations F fees ts (op # ops) s =
     bind (apply_operation F fees ts op s) (\<lambda>(s1, r).
     bind (apply_operations F fees ts ops s1) (\<lambda>(s2, rs). Inr (s2, r # rs)))"

definition temp_account_empty :: "database \<Rightarrow> bool" where
  "temp_account_empty s \<longleftrightarrow> (\<forall>(k, b) \<in> set (rows (balances s)). ab_owner b = GRAPHENE_TEMP_ACCOUNT \<longrightarrow> balance b = 0)"

definition record_transaction :: "crypto_lib \<Rightarrow> u32 \<Rightarrow> signed_transaction \<Rightarrow> chain_db \<Rightarrow> chain_db result" where
  "record_transaction L skip trx c =
     (if \<not> skips skip skip_transaction_dupe_check
      then bind (index_create same_trx_id (transactions c) \<lparr> tr_trx = trx, tr_id = tx_id L trx \<rparr>) (\<lambda>(t, i).
           Inr (c\<lparr>transactions := t\<rparr>))
      else Inr c)"

definition apply_transaction ::
  "fc_lib \<Rightarrow> crypto_lib \<Rightarrow> (operation \<Rightarrow> database \<Rightarrow> share_type) \<Rightarrow> u32 \<Rightarrow> signed_transaction \<Rightarrow> chain_db \<Rightarrow>
   (chain_db \<times> operation_result list) result" where
  "apply_transaction F L fees skip trx c =
     bind (transaction_validate trx) (\<lambda>_.
     bind (fc_assert (skips skip skip_transaction_dupe_check \<or> \<not> is_known_transaction c (tx_id L trx)) ''known transaction'') (\<lambda>_.
     bind (if \<not> skips skip (skip_transaction_signatures OR skip_authority_check)
           then transaction_verify_authority L (state c) trx else Inr ()) (\<lambda>_.
     bind (check_time_and_block skip trx c) (\<lambda>_.
     bind (record_transaction L skip trx c) (\<lambda>c1.
     bind (apply_operations F fees fresh_evaluation_state (operations trx) (state c1)) (\<lambda>(s2, results).
     bind (fc_assert (temp_account_empty s2) ''b.balance == 0'') (\<lambda>_.
     Inr (c1\<lparr>state := s2\<rparr>, results))))))))"

text \<open>Expired transactions leave the table that detects duplicates, oldest first.\<close>

definition expired_first :: "database \<Rightarrow> transaction_object index \<Rightarrow> nat option" where
  "expired_first s t =
     (case sort_by (\<lambda>x y. tx_expiration (tr_trx (snd x)) < tx_expiration (tr_trx (snd y)) \<or>
             (tx_expiration (tr_trx (snd x)) = tx_expiration (tr_trx (snd y)) \<and> fst x < fst y)) (rows t) of
        [] \<Rightarrow> None
      | x # _ \<Rightarrow> if head_block_time s > tx_expiration (tr_trx (snd x)) then Some (fst x) else None)"

definition clear_transactions_step ::
  "database \<Rightarrow> transaction_object index \<Rightarrow> (transaction_object index, transaction_object index) loop_step result" where
  "clear_transactions_step s t =
     (case expired_first s t of
        None \<Rightarrow> Inr (Finish t)
      | Some i \<Rightarrow> bind (index_remove t i) (\<lambda>t'. Inr (Continue t')))"

definition clear_expired_transactions :: "chain_db \<Rightarrow> chain_db result" where
  "clear_expired_transactions c =
     bind (run_loop (Suc (length (rows (transactions c)))) (clear_transactions_step (state c)) (transactions c)) (\<lambda>t.
     Inr (c\<lparr>transactions := t\<rparr>))"

section \<open>The pending transactions of a node\<close>

type_synonym processed_transaction = "signed_transaction \<times> operation_result list"

record node =
  current :: chain_db
  pending_session :: "chain_db option"
  pending_tx :: "processed_transaction list"
  popped_tx :: "processed_transaction list"

definition push_transaction ::
  "fc_lib \<Rightarrow> crypto_lib \<Rightarrow> (operation \<Rightarrow> database \<Rightarrow> share_type) \<Rightarrow> u32 \<Rightarrow> signed_transaction \<Rightarrow> node \<Rightarrow>
   node \<times> processed_transaction result" where
  "push_transaction F L fees skip trx n =
     (let n1 = (if pending_session n = None then n\<lparr>pending_session := Some (current n)\<rparr> else n) in
      case apply_transaction F L fees skip trx (current n1) of
        Inl e \<Rightarrow> (n1, Inl e)
      | Inr (c, rs) \<Rightarrow> (n1\<lparr>current := c, pending_tx := pending_tx n1 @ [(trx, rs)]\<rparr>, Inr (trx, rs)))"

definition validate_transaction ::
  "fc_lib \<Rightarrow> crypto_lib \<Rightarrow> (operation \<Rightarrow> database \<Rightarrow> share_type) \<Rightarrow> u32 \<Rightarrow> signed_transaction \<Rightarrow> node \<Rightarrow>
   node \<times> processed_transaction result" where
  "validate_transaction F L fees skip trx n =
     (n, bind (apply_transaction F L fees skip trx (current n)) (\<lambda>(c, rs). Inr (trx, rs)))"

definition reset_pending_session :: "node \<Rightarrow> node" where
  "reset_pending_session n =
     (case pending_session n of None \<Rightarrow> n | Some c \<Rightarrow> n\<lparr>current := c, pending_session := None\<rparr>)"

definition clear_pending :: "node \<Rightarrow> node" where
  "clear_pending n = reset_pending_session (n\<lparr>pending_tx := []\<rparr>)"

fun restore_transactions ::
  "fc_lib \<Rightarrow> crypto_lib \<Rightarrow> (operation \<Rightarrow> database \<Rightarrow> share_type) \<Rightarrow> u32 \<Rightarrow> processed_transaction list \<Rightarrow> node \<Rightarrow> node" where
  "restore_transactions F L fees skip [] n = n"
| "restore_transactions F L fees skip ((trx, rs) # txs) n =
     restore_transactions F L fees skip txs
       (if is_known_transaction (current n) (tx_id L trx) then n else fst (push_transaction F L fees skip trx n))"

definition without_pending_transactions ::
  "fc_lib \<Rightarrow> crypto_lib \<Rightarrow> (operation \<Rightarrow> database \<Rightarrow> share_type) \<Rightarrow> u32 \<Rightarrow> (node \<Rightarrow> node \<times> 'r result) \<Rightarrow> node \<Rightarrow> node \<times> 'r result" where
  "without_pending_transactions F L fees skip callback n =
     (let pending = pending_tx n; (n1, r) = callback (clear_pending n);
          n2 = (restore_transactions F L fees skip (popped_tx n1) n1)\<lparr>popped_tx := []\<rparr> in
      (restore_transactions F L fees skip pending n2, r))"

text \<open>The transactions of a new block: the pending ones in order, as long as they fit and still apply.\<close>

fun collect_transactions ::
  "fc_lib \<Rightarrow> crypto_lib \<Rightarrow> (operation \<Rightarrow> database \<Rightarrow> share_type) \<Rightarrow> u32 \<Rightarrow> int \<Rightarrow> processed_transaction list \<Rightarrow> nat \<Rightarrow> chain_db \<Rightarrow>
   processed_transaction list \<times> nat \<times> chain_db" where
  "collect_transactions F L fees skip max_size [] total_size c = ([], total_size, c)"
| "collect_transactions F L fees skip max_size (tx # txs) total_size c =
     (if int (total_size + pack_size L tx) \<ge> max_size then collect_transactions F L fees skip max_size txs total_size c
      else case apply_transaction F L fees skip (fst tx) c of
             Inl e \<Rightarrow> collect_transactions F L fees skip max_size txs total_size c
           | Inr (c', rs) \<Rightarrow>
               (let (included, size', c'') = collect_transactions F L fees skip max_size txs (total_size + pack_size L (fst tx, rs)) c' in
                ((fst tx, rs) # included, size', c'')))"

definition pending_block ::
  "fc_lib \<Rightarrow> crypto_lib \<Rightarrow> (operation \<Rightarrow> database \<Rightarrow> share_type) \<Rightarrow> u32 \<Rightarrow> nat \<Rightarrow> node \<Rightarrow> node \<times> processed_transaction list" where
  "pending_block F L fees skip header_size n =
     (let max_size = uint (maximum_block_size (parameters (state (current n)))); n1 = reset_pending_session n;
          (included, size', c') = collect_transactions F L fees skip max_size (pending_tx n1) header_size (current n1) in
      (n1, included))"

section \<open>Sequences of operations\<close>

text \<open>Every operation of a sequence finds the state ready, and the core the sequence creates.\<close>

fun operations_ready ::
  "fc_lib \<Rightarrow> (operation \<Rightarrow> database \<Rightarrow> share_type) \<Rightarrow> transaction_evaluation_state \<Rightarrow> operation list \<Rightarrow> database \<Rightarrow> bool" where
  "operations_ready F fees ts [] s \<longleftrightarrow> True"
| "operations_ready F fees ts (op # ops) s \<longleftrightarrow> operation_ready op s \<and>
     (case apply_operation F fees ts op s of Inl e \<Rightarrow> True | Inr (s', r) \<Rightarrow> operations_ready F fees ts ops s')"

fun operations_core ::
  "fc_lib \<Rightarrow> (operation \<Rightarrow> database \<Rightarrow> share_type) \<Rightarrow> transaction_evaluation_state \<Rightarrow> operation list \<Rightarrow> database \<Rightarrow> int" where
  "operations_core F fees ts [] s = 0"
| "operations_core F fees ts (op # ops) s = created_core op s +
     (case apply_operation F fees ts op s of Inl e \<Rightarrow> 0 | Inr (s', r) \<Rightarrow> operations_core F fees ts ops s')"

lemma apply_operations_step:
  assumes F: "fc_laws F" and ts: "\<not> skip_fee ts"
  shows "chain_inv s \<Longrightarrow> operations_ready F fees ts ops s \<Longrightarrow> apply_operations F fees ts ops s = Inr (s', rs) \<Longrightarrow>
    chain_inv s' \<and> (\<forall>a. ledger a s' = ledger a s + core_in a (operations_core F fees ts ops s)) \<and>
    (balances_nonneg s \<longrightarrow> balances_nonneg s') \<and> 0 \<le> operations_core F fees ts ops s"
proof (induction ops arbitrary: s rs)
  case (Cons op ops)
  obtain s1 r rs' where 1: "apply_operation F fees ts op s = Inr (s1, r)" and 2: "apply_operations F fees ts ops s1 = Inr (s', rs')"
    using Cons.prems(3) by (auto simp: ok_simps)
  have rd: "operation_ready op s" "operations_ready F fees ts ops s1" using Cons.prems(2) 1 by simp_all
  note st = apply_operation_step [OF F Cons.prems(1) rd(1) ts 1]
  note ih = Cons.IH [OF conjunct1 [OF st] rd(2) 2]
  show ?case using st ih 1 created_core_nonneg [of op s] by (auto simp: core_in_def)
qed (auto simp: core_in_def)

lemma apply_transaction_Inr:
  assumes "apply_transaction F L fees skip trx c = Inr (c', rs)"
  shows "transaction_validate trx = Inr ()" "skips skip skip_transaction_dupe_check \<or> \<not> is_known_transaction c (tx_id L trx)"
    "skips skip (skip_transaction_signatures OR skip_authority_check) \<or> transaction_verify_authority L (state c) trx = Inr ()"
    "check_time_and_block skip trx c = Inr ()"
    "\<exists>c1. record_transaction L skip trx c = Inr c1 \<and> state c1 = state c \<and> transactions c' = transactions c1 \<and>
       block_summaries c' = block_summaries c \<and>
       apply_operations F fees fresh_evaluation_state (operations trx) (state c) = Inr (state c', rs) \<and> temp_account_empty (state c')"
proof -
  have st: "record_transaction L skip trx c = Inr c1 \<Longrightarrow> state c1 = state c \<and> block_summaries c1 = block_summaries c" for c1
    by (auto simp: record_transaction_def ok_simps split: if_splits)
  show "transaction_validate trx = Inr ()" "skips skip skip_transaction_dupe_check \<or> \<not> is_known_transaction c (tx_id L trx)"
    "skips skip (skip_transaction_signatures OR skip_authority_check) \<or> transaction_verify_authority L (state c) trx = Inr ()"
    "check_time_and_block skip trx c = Inr ()"
    using assms by (auto simp: apply_transaction_def ok_simps split: if_splits)
  show "\<exists>c1. record_transaction L skip trx c = Inr c1 \<and> state c1 = state c \<and> transactions c' = transactions c1 \<and>
       block_summaries c' = block_summaries c \<and>
       apply_operations F fees fresh_evaluation_state (operations trx) (state c) = Inr (state c', rs) \<and> temp_account_empty (state c')"
    using assms st by (fastforce simp: apply_transaction_def ok_simps)
qed

section \<open>Properties\<close>


definition demo_crypto :: crypto_lib where
  "demo_crypto = \<lparr> tx_id = (\<lambda>trx. unat (ref_block_prefix trx) + 10 * length (operations trx)), recover_key = (\<lambda>trx sig. Inr (sig + 100)),
     addresses_of = (\<lambda>k. [k + 1000]), pack_size = (\<lambda>(trx, rs). 100 * length (operations trx) + length rs) \<rparr>"

definition demo_key_account :: "string \<Rightarrow> nat \<Rightarrow> public_key \<Rightarrow> account_object" where
  "demo_key_account n st k = (demo_account n st)\<lparr>active_authority := \<lparr> weight_threshold = 1, account_auths = [], key_auths = [(k, 1)],
     address_auths = [] \<rparr>\<rparr>"

definition demo_chain_db :: chain_db where
  "demo_chain_db = \<lparr> state = demo_market\<lparr>accounts := \<lparr> next_id = 7, rows = [(5, demo_key_account ''alice'' 0 105), (6, demo_key_account ''bob'' 2 106)] \<rparr>\<rparr>,
     transactions = empty_index, block_summaries = [3 \<mapsto> 77] \<rparr>"

definition demo_transfer_op :: operation where
  "demo_transfer_op = Transfer \<lparr> tr_fee = mk_asset 20 0, tr_from = 5, tr_to = 6, tr_amount = mk_asset 1000 0 \<rparr>"

definition demo_trx :: signed_transaction where
  "demo_trx = \<lparr> ref_block_num = 3, ref_block_prefix = 77, tx_expiration = 1500000100, operations = [demo_transfer_op, Asset_Create demo_new_asset],
     signatures = [5] \<rparr>"

lemma demo_chain_db_inv: "chain_inv (state demo_chain_db)" "balances_nonneg (state demo_chain_db)"
proof -
  have "index_inv (accounts (state demo_chain_db))" by (simp add: demo_chain_db_def index_inv_def sorted_rows_def)
  then show "chain_inv (state demo_chain_db)"
    using acc_tab.inv_put [OF demo_market_inv, of "accounts (state demo_chain_db)"] by (simp add: demo_chain_db_def rows_ok_def)
  show "balances_nonneg (state demo_chain_db)" using demo_chain_nonneg by (simp add: balances_nonneg_def demo_chain_db_def demo_market_def)
qed

lemma call_order_update_valid_code [code]:
  "call_order_update_valid op s \<longleftrightarrow>
     (case find_row (\<lambda>c. borrower c = funding_account op \<and> debt_type c = asset_id (delta_debt op)) (call_orders s) of
        None \<Rightarrow> True
      | Some (i, c) \<Rightarrow> asset_id (base (co_call_price c)) = asset_id (delta_collateral op))"
  by (auto simp: call_order_update_valid_def split: option.split)

lemma demo_trx_applies:
  obtains c' rs where "apply_transaction fc_int64 demo_crypto (\<lambda>op s. 10) 0 demo_trx demo_chain_db = Inr (c', rs)" "length rs = 2"
proof -
  let ?run = "apply_transaction fc_int64 demo_crypto (\<lambda>op s. 10) 0 demo_trx demo_chain_db"
  have "case ?run of Inl e \<Rightarrow> False | Inr (c', rs) \<Rightarrow> length rs = 2" by code_simp
  then show thesis using that by (auto split: sum.splits)
qed


text \<open>Collecting the authorities of further operations never drops one, and collects those of every operation.\<close>

lemma required_auths_grow:
  "set (required_active r) \<subseteq> set (required_active (operation_get_required_authorities op r))"
  "set (required_owner r) \<subseteq> set (required_owner (operation_get_required_authorities op r))"
  "set (other_auths r) \<subseteq> set (other_auths (operation_get_required_authorities op r))"
  by (auto simp: operation_get_required_authorities_def Let_def set_insort_insert split: operation.splits option.splits)

lemma required_auths_kept:
  "set (required_active r) \<subseteq> set (required_active (fold operation_get_required_authorities ops r))"
  "set (required_owner r) \<subseteq> set (required_owner (fold operation_get_required_authorities ops r))"
  "set (other_auths r) \<subseteq> set (other_auths (fold operation_get_required_authorities ops r))"
  by (induction ops arbitrary: r) (use required_auths_grow in \<open>auto, blast+\<close>)

lemma fee_payer_required: "operation_fee_payer op \<in> set (required_active (operation_get_required_authorities op r))"
  by (auto simp: operation_get_required_authorities_def Let_def set_insort_insert split: operation.splits option.splits)

lemma collected_auths:
  assumes "op \<in> set ops"
  shows "operation_fee_payer op \<in> set (required_active (fold operation_get_required_authorities ops r))"
    "op = Account_Update x \<Longrightarrow> is_owner_update x \<Longrightarrow> aup_account x \<in> set (required_owner (fold operation_get_required_authorities ops r))"
    "op = Balance_Claim y \<Longrightarrow> single_key_authority (balance_owner_key y) \<in> set (other_auths (fold operation_get_required_authorities ops r))"
proof -
  obtain xs ys where ops: "ops = xs @ op # ys" using assms by (meson split_list)
  let ?r = "operation_get_required_authorities op (fold operation_get_required_authorities xs r)"
  have f: "fold operation_get_required_authorities ops r = fold operation_get_required_authorities ys ?r" by (simp add: ops)
  show "operation_fee_payer op \<in> set (required_active (fold operation_get_required_authorities ops r))"
    unfolding f using required_auths_kept(1) fee_payer_required by blast
  show "aup_account x \<in> set (required_owner (fold operation_get_required_authorities ops r))" if "op = Account_Update x" "is_owner_update x"
    unfolding f using required_auths_kept(2) [of ?r ys] that by (auto simp: operation_get_required_authorities_def set_insort_insert)
  show "single_key_authority (balance_owner_key y) \<in> set (other_auths (fold operation_get_required_authorities ops r))" if "op = Balance_Claim y"
    unfolding f using required_auths_kept(3) [of ?r ys] that by (auto simp: operation_get_required_authorities_def)
qed

lemma single_key_authorised: "authorised E K {a} (single_key_authority k) \<Longrightarrow> k \<in> K"
  by (erule authorisedE) (auto simp: single_key_authority_def weight_where_def split: if_splits)

lemma get_signature_keys_distinct:
  "distinct ks \<Longrightarrow> get_signature_keys f sigs ks = Inr keys \<Longrightarrow> distinct keys \<and> length keys = length ks + length sigs"
proof (induction sigs arbitrary: ks)
  case (Cons s sigs)
  then obtain k where "k \<notin> set ks" "get_signature_keys f sigs (ks @ [k]) = Inr keys" by (auto simp: ok_simps)
  then show ?case using Cons.IH [of "ks @ [k]"] Cons.prems(1) by simp
qed simp

text \<open>
  C5. An accepted transaction is authorised by whoever it makes pay: unless authority checks are skipped, the keys recovered from its
  signatures, all different, carry the active or the owner authority of the fee payer of every operation, and none of
  them is the committee account. A change of the owner authority of an account is authorised by its owner authority, and
  the key that owns a claimed genesis balance is among the keys. Once the chain has blocks it has not expired and does not expire too far in the future.
\<close>

theorem transaction_authorised:
  assumes ok: "apply_transaction F L fees skip trx c = Inr (c', rs)"
    and skip: "\<not> skips skip (skip_transaction_signatures OR skip_authority_check)"
  shows "\<exists>keys. get_signature_keys (recover_key L trx) (signatures trx) [] = Inr keys \<and> distinct keys \<and> length keys = length (signatures trx) \<and>
    (\<forall>op \<in> set (operations trx). operation_fee_payer op \<noteq> GRAPHENE_COMMITTEE_ACCOUNT \<and>
      (may_act (db_sign_env L (state c)) (set keys) {GRAPHENE_TEMP_ACCOUNT} (operation_fee_payer op) \<or>
       owner_may_act (db_sign_env L (state c)) (db_get_owner (state c)) (set keys) {GRAPHENE_TEMP_ACCOUNT} (operation_fee_payer op))) \<and>
    (\<forall>x. Account_Update x \<in> set (operations trx) \<and> is_owner_update x \<longrightarrow>
       owner_may_act (db_sign_env L (state c)) (db_get_owner (state c)) (set keys) {GRAPHENE_TEMP_ACCOUNT} (aup_account x)) \<and>
    (\<forall>x. Balance_Claim x \<in> set (operations trx) \<longrightarrow> balance_owner_key x \<in> set keys) \<and>
    (head_block_number (dgp (state c)) > 0 \<longrightarrow> head_block_time (state c) \<le> tx_expiration trx \<and>
       tx_expiration trx \<le> head_block_time (state c) + maximum_time_until_expiration (parameters (state c)))"
proof -
  have v: "transaction_verify_authority L (state c) trx = Inr ()" using apply_transaction_Inr(3) [OF ok] skip by blast
  then obtain keys where k: "get_signature_keys (recover_key L trx) (signatures trx) [] = Inr keys"
    and a: "verify_authority (db_sign_env L (state c)) (db_get_owner (state c)) (unat (max_authority_depth (parameters (state c)))) False {} {}
       (get_required_authorities trx) keys = Inr ()"
    by (auto simp: transaction_verify_authority_def ok_simps)
  have "available_keys (db_sign_env L (state c)) = []" by (simp add: db_sign_env_def)
  note s = verify_authority_accepts [OF a this]
  note col = collected_auths [where ops = "operations trx" and r = "\<lparr> required_active = [], required_owner = [], other_auths = [] \<rparr>",
      folded get_required_authorities_def]
  have "\<forall>op \<in> set (operations trx). operation_fee_payer op \<in> set (required_active (get_required_authorities trx))" using col(1) by blast
  moreover have "\<forall>x. Account_Update x \<in> set (operations trx) \<and> is_owner_update x \<longrightarrow>
       owner_may_act (db_sign_env L (state c)) (db_get_owner (state c)) (set keys) {GRAPHENE_TEMP_ACCOUNT} (aup_account x)"
    using s col(2) by fastforce
  moreover have "\<forall>x. Balance_Claim x \<in> set (operations trx) \<longrightarrow> balance_owner_key x \<in> set keys"
    using s col(3) single_key_authorised by fastforce
  moreover have "distinct keys \<and> length keys = length (signatures trx)" using get_signature_keys_distinct [OF _ k] by simp
  moreover have "head_block_number (dgp (state c)) > 0 \<longrightarrow> head_block_time (state c) \<le> tx_expiration trx \<and>
       tx_expiration trx \<le> head_block_time (state c) + maximum_time_until_expiration (parameters (state c))"
    using apply_transaction_Inr(4) [OF ok] by (auto simp: check_time_and_block_def Let_def ok_simps)
  moreover have "\<forall>op \<in> set (operations trx). operation_fee_payer op \<noteq> GRAPHENE_COMMITTEE_ACCOUNT"
    using s calculation(1) by metis
  ultimately show ?thesis using k s by (auto intro!: exI [of _ keys])
qed

theorem transaction_authorised_witness:
  "\<exists>c' rs. apply_transaction fc_int64 demo_crypto (\<lambda>op s. 10) 0 demo_trx demo_chain_db = Inr (c', rs) \<and>
     (may_act (db_sign_env demo_crypto (state demo_chain_db)) {105} {4} 5 \<or>
      owner_may_act (db_sign_env demo_crypto (state demo_chain_db)) (db_get_owner (state demo_chain_db)) {105} {4} 5) \<and>
     head_block_time (state demo_chain_db) \<le> tx_expiration demo_trx"
proof -
  let ?run = "apply_transaction fc_int64 demo_crypto (\<lambda>op s. 10) 0 demo_trx demo_chain_db"
  obtain c' rs where r: "?run = Inr (c', rs)" by (rule demo_trx_applies)
  have s: "\<not> skips 0 (skip_transaction_signatures OR skip_authority_check)" by (simp add: skips_def)
  have "operation_fee_payer demo_transfer_op = 5" by (simp add: demo_transfer_op_def transfer_evaluator_def)
  moreover have "head_block_number (dgp (state demo_chain_db)) > 0" by (simp add: demo_chain_db_def demo_market_def demo_chain_def)
  ultimately show ?thesis using transaction_authorised [OF r s] r
    by (auto simp: demo_crypto_def demo_trx_def GRAPHENE_TEMP_ACCOUNT_def)
qed

lemma known_after_create:
  assumes "index_create same_trx_id t \<lparr> tr_trx = trx, tr_id = i \<rparr> = Inr (t', k)"
  shows "find_row (\<lambda>x. tr_id x = i) t' \<noteq> None"
proof -
  have "rows t' = row_insert k \<lparr> tr_trx = trx, tr_id = i \<rparr> (rows t)" using assms by (auto simp: index_create_def index_insert_def Let_def ok_simps split: if_splits)
  then have "(k, \<lparr> tr_trx = trx, tr_id = i \<rparr>) \<in> set (rows t')" by (simp add: set_row_insert)
  then have "\<exists>x. x \<in> set (rows t') \<and> (case x of (k, x) \<Rightarrow> tr_id x = i)" by (intro exI conjI) auto
  then show ?thesis unfolding find_row_def find_None_iff by blast
qed

text \<open>
  C13. A transaction is applied once: after it was accepted, the node knows its identifier, and every transaction with the same
  identifier is refused, unless the check for duplicates is switched off.
\<close>

theorem transaction_once:
  assumes ok: "apply_transaction F L fees skip trx c = Inr (c', rs)" and s: "\<not> skips skip skip_transaction_dupe_check"
    and same: "tx_id L trx2 = tx_id L trx" and s2: "\<not> skips skip2 skip_transaction_dupe_check"
  shows "is_known_transaction c' (tx_id L trx) \<and> (\<exists>e. apply_transaction F L fees skip2 trx2 c' = Inl e)"
proof -
  obtain t k where "index_create same_trx_id (transactions c) \<lparr> tr_trx = trx, tr_id = tx_id L trx \<rparr> = Inr (t, k)" "transactions c' = t"
    using apply_transaction_Inr(5) [OF ok] s by (auto simp: record_transaction_def ok_simps)
  then have k: "is_known_transaction c' (tx_id L trx)" using known_after_create by (simp add: is_known_transaction_def)
  have "apply_transaction F L fees skip2 trx2 c' \<noteq> Inr r" for r
    using apply_transaction_Inr(2) [of F L fees skip2 trx2 c' "fst r" "snd r"] k same s2 by auto
  then show ?thesis using k by (cases "apply_transaction F L fees skip2 trx2 c'") auto
qed

theorem transaction_once_witness:
  "\<exists>c' rs e. apply_transaction fc_int64 demo_crypto (\<lambda>op s. 10) 0 demo_trx demo_chain_db = Inr (c', rs) \<and>
     apply_transaction fc_int64 demo_crypto (\<lambda>op s. 10) 0 demo_trx c' = Inl e"
proof -
  let ?run = "apply_transaction fc_int64 demo_crypto (\<lambda>op s. 10) 0 demo_trx demo_chain_db"
  obtain c' rs where r: "?run = Inr (c', rs)" by (rule demo_trx_applies)
  have s: "\<not> skips 0 skip_transaction_dupe_check" by (simp add: skips_def)
  from transaction_once [OF r s refl s] r show ?thesis by blast
qed

section \<open>The pending pool\<close>

text \<open>
  The transactions \<open>txs\<close> apply one after the other and lead from one state to another; the flags of the
  single applications do not matter.
\<close>

inductive replays ::
  "fc_lib \<Rightarrow> crypto_lib \<Rightarrow> (operation \<Rightarrow> database \<Rightarrow> share_type) \<Rightarrow> chain_db \<Rightarrow> processed_transaction list \<Rightarrow> chain_db \<Rightarrow> bool"
  for F L fees c where
  none: "replays F L fees c [] c"
| more: "replays F L fees c txs c1 \<Longrightarrow> apply_transaction F L fees skip trx c1 = Inr (c2, rs) \<Longrightarrow>
    replays F L fees c (txs @ [(trx, rs)]) c2"

lemma replays_front:
  assumes "apply_transaction F L fees skip trx c = Inr (c1, rs)" "replays F L fees c1 txs c2"
  shows "replays F L fees c ((trx, rs) # txs) c2"
  using assms(2)
proof (induction rule: replays.induct)
  case none
  show ?case using replays.more [OF replays.none assms(1)] by simp
next
  case (more txs c3 skip' trx' c4 rs')
  show ?case using replays.more [OF more.IH more.hyps(2)] by simp
qed

definition pending_ok :: "fc_lib \<Rightarrow> crypto_lib \<Rightarrow> (operation \<Rightarrow> database \<Rightarrow> share_type) \<Rightarrow> node \<Rightarrow> bool" where
  "pending_ok F L fees n \<longleftrightarrow>
     (case pending_session n of None \<Rightarrow> pending_tx n = [] | Some c \<Rightarrow> replays F L fees c (pending_tx n) (current n))"

definition head_db :: "node \<Rightarrow> chain_db" where
  "head_db n = (case pending_session n of None \<Rightarrow> current n | Some c \<Rightarrow> c)"

lemma popped_tx_other [simp]:
  "pending_ok F L fees (n\<lparr>popped_tx := txs\<rparr>) = pending_ok F L fees n" "head_db (n\<lparr>popped_tx := txs\<rparr>) = head_db n"
  by (simp_all add: pending_ok_def head_db_def split: option.split)

lemma push_transaction_pending:
  assumes "pending_ok F L fees n"
  shows "pending_ok F L fees (fst (push_transaction F L fees skip trx n)) \<and> head_db (fst (push_transaction F L fees skip trx n)) = head_db n"
  using assms by (auto simp: push_transaction_def Let_def pending_ok_def head_db_def split: sum.split option.splits
      intro: replays.none replays.more replays.more [OF replays.none, simplified])

lemma pushed_transactions:
  "map fst (pending_tx (fst (push_transaction F L fees skip trx n))) = map fst (pending_tx n) @
     (if isl (apply_transaction F L fees skip trx (current n)) then [] else [trx])"
  by (auto simp: push_transaction_def Let_def split: sum.split)

lemma reset_pending_session_simps [simp]:
  "current (reset_pending_session n) = head_db n" "pending_session (reset_pending_session n) = None"
  "pending_tx (reset_pending_session n) = pending_tx n" "popped_tx (reset_pending_session n) = popped_tx n"
  "head_db (n\<lparr>pending_tx := txs\<rparr>) = head_db n"
  by (simp_all add: reset_pending_session_def head_db_def split: option.split)

lemma clear_pending_simps [simp]:
  "current (clear_pending n) = head_db n" "pending_session (clear_pending n) = None" "pending_tx (clear_pending n) = []"
  by (simp_all add: clear_pending_def)

lemma restore_pending:
  "pending_ok F L fees n \<Longrightarrow> pending_ok F L fees (restore_transactions F L fees skip txs n) \<and>
     head_db (restore_transactions F L fees skip txs n) = head_db n"
proof (induction F L fees skip txs n rule: restore_transactions.induct)
  case (2 F L fees skip trx rs txs n)
  then show ?case using push_transaction_pending [OF 2(2), of skip trx] by simp
qed simp

text \<open>
  C12. The pending session of a node is always the result of applying its pending transactions to the head block, the
  invariant the block producer relies on: pushing a transaction keeps it whether the transaction is accepted or
  refused, clearing goes back to exactly the head state, and after a change of the head the transactions that
  still apply are pushed again on the new head.
\<close>

theorem pending_pool_invariant:
  assumes "pending_ok F L fees n"
  shows "pending_ok F L fees (fst (push_transaction F L fees skip trx n)) \<and> head_db (fst (push_transaction F L fees skip trx n)) = head_db n \<and>
    pending_ok F L fees (clear_pending n) \<and> current (clear_pending n) = head_db n \<and>
    (\<forall>callback. (pending_ok F L fees (fst (callback (clear_pending n)))) \<longrightarrow>
       pending_ok F L fees (fst (without_pending_transactions F L fees skip callback n)) \<and>
       head_db (fst (without_pending_transactions F L fees skip callback n)) = head_db (fst (callback (clear_pending n))))"
proof (intro conjI allI impI)
  show "pending_ok F L fees (fst (push_transaction F L fees skip trx n))"
    "head_db (fst (push_transaction F L fees skip trx n)) = head_db n"
    using push_transaction_pending [OF assms] by simp_all
  show "pending_ok F L fees (clear_pending n)" "current (clear_pending n) = head_db n" by (simp_all add: pending_ok_def)
next
  fix callback :: "node \<Rightarrow> node \<times> 'r result"
  assume ok: "pending_ok F L fees (fst (callback (clear_pending n)))"
  obtain n1 r where c: "callback (clear_pending n) = (n1, r)" by (cases "callback (clear_pending n)")
  let ?n2 = "restore_transactions F L fees skip (popped_tx n1) n1"
  have 2: "pending_ok F L fees ?n2" "head_db ?n2 = head_db n1" using restore_pending ok c by auto
  have 3: "pending_ok F L fees (?n2\<lparr>popped_tx := []\<rparr>)" "head_db (?n2\<lparr>popped_tx := []\<rparr>) = head_db n1"
    using 2 by simp_all
  then show "pending_ok F L fees (fst (without_pending_transactions F L fees skip callback n))"
    "head_db (fst (without_pending_transactions F L fees skip callback n)) = head_db (fst (callback (clear_pending n)))"
    using restore_pending [OF 3(1)] c by (simp_all add: without_pending_transactions_def)
qed

definition demo_node :: node where
  "demo_node = \<lparr> current = demo_chain_db, pending_session = None, pending_tx = [], popped_tx = [] \<rparr>"

theorem pending_pool_invariant_witness:
  "pending_ok fc_int64 demo_crypto (\<lambda>op s. 10) (fst (push_transaction fc_int64 demo_crypto (\<lambda>op s. 10) 0 demo_trx demo_node)) \<and>
   length (pending_tx (fst (push_transaction fc_int64 demo_crypto (\<lambda>op s. 10) 0 demo_trx demo_node))) = 1 \<and>
   head_db (fst (push_transaction fc_int64 demo_crypto (\<lambda>op s. 10) 0 demo_trx demo_node)) = demo_chain_db"
proof -
  have "pending_ok fc_int64 demo_crypto (\<lambda>op s. 10) demo_node" by (simp add: pending_ok_def demo_node_def)
  note p = pending_pool_invariant [OF this, of 0 demo_trx]
  have "length (pending_tx (fst (push_transaction fc_int64 demo_crypto (\<lambda>op s. 10) 0 demo_trx demo_node))) = 1"
    by (rule demo_trx_applies) (simp add: push_transaction_def demo_node_def)
  moreover have "head_db demo_node = demo_chain_db" by (simp add: head_db_def demo_node_def)
  ultimately show ?thesis using p by auto
qed

lemma collect_transactions_replay:
  "collect_transactions F L fees skip max_size txs size0 c = (included, size', c') \<Longrightarrow>
    replays F L fees c included c' \<and> subseq (map fst included) (map fst txs) \<and>
    size' = size0 + sum_list (map (pack_size L) included)"
proof (induction txs arbitrary: size0 c included)
  case Nil
  then show ?case by (auto intro: replays.none)
next
  case (Cons tx txs)
  show ?case
  proof (cases "\<exists>c1 rs. int (size0 + pack_size L tx) < max_size \<and> apply_transaction F L fees skip (fst tx) c = Inr (c1, rs)")
    case True
    then obtain c1 rs where 1: "int (size0 + pack_size L tx) < max_size" "apply_transaction F L fees skip (fst tx) c = Inr (c1, rs)" by blast
    obtain inc where inc: "included = (fst tx, rs) # inc"
      "collect_transactions F L fees skip max_size txs (size0 + pack_size L (fst tx, rs)) c1 = (inc, size', c')"
      using Cons.prems 1 by (auto split: prod.splits)
    show ?thesis using Cons.IH [OF inc(2)] replays_front [OF 1(2)] inc(1) by simp
  next
    case False
    then have "collect_transactions F L fees skip max_size txs size0 c = (included, size', c')"
      using Cons.prems by (auto split: if_splits sum.splits)
    from Cons.IH [OF this] show ?thesis by (auto intro: list_emb_Cons)
  qed
qed


definition demo_pay_trx :: signed_transaction where
  "demo_pay_trx = demo_trx\<lparr>operations := [demo_transfer_op]\<rparr>"

definition demo_pending :: node where
  "demo_pending = demo_node\<lparr>pending_tx := [(demo_pay_trx, [Void_Result])]\<rparr>"


end
