(* ===== verification/Fork_Database.thy ===== *)
theory Fork_Database
  imports Fc_Prelude
begin

text \<open>
  \<^verbatim>\<open>fork_database\<close> (libraries/chain/fork\_database.cpp): the tree of recent blocks, its head,
  pruning by block number, and the search for the branches back to a common ancestor.

  A block id is a block number and a digest (\<^verbatim>\<open>signed_block_header::id\<close> writes the number
  into the first word of the hash); the hash function itself is a parameter. Items are kept
  by value; \<^verbatim>\<open>weak_ptr::lock\<close> is a lookup of the id among the items that the database still
  holds. Block numbers are 32-bit words, so the wrap-around of \<^verbatim>\<open>block_num()\<close> is visible.
\<close>

section \<open>Blocks\<close>

record 'c signed_block =
  previous :: block_id
  contents :: 'c

definition null_block_id :: block_id where
  "null_block_id = (0, 0)"

definition num_from_id :: "block_id \<Rightarrow> u32" where
  "num_from_id i = fst i"

definition block_num :: "'c signed_block \<Rightarrow> u32" where
  "block_num b = num_from_id (previous b) + 1"

definition signed_block_id :: "('c signed_block \<Rightarrow> nat) \<Rightarrow> 'c signed_block \<Rightarrow> block_id" where
  "signed_block_id hash b = (block_num b, hash b)"

section \<open>The database\<close>

record 'c fork_item =
  prev :: "block_id option"
  num :: u32
  invalid :: bool
  item_id :: block_id
  data :: "'c signed_block"

definition make_item :: "('c signed_block \<Rightarrow> nat) \<Rightarrow> 'c signed_block \<Rightarrow> 'c fork_item" where
  "make_item hash b =
     \<lparr> prev = None, num = block_num b, invalid = False, item_id = signed_block_id hash b, data = b \<rparr>"

record 'c fork_db =
  fork_max_size :: u32
  unlinked_index :: "'c fork_item list"
  fork_index :: "'c fork_item list"
  fork_head :: "'c fork_item option"

definition empty_fork_db :: "'c fork_db" where
  "empty_fork_db = \<lparr> fork_max_size = 1024, unlinked_index = [], fork_index = [], fork_head = None \<rparr>"

definition find_item :: "'c fork_item list \<Rightarrow> block_id \<Rightarrow> 'c fork_item option" where
  "find_item xs i = List.find (\<lambda>it. item_id it = i) xs"

definition insert_item :: "'c fork_item \<Rightarrow> 'c fork_item list \<Rightarrow> 'c fork_item list" where
  "insert_item it xs = (if find_item xs (item_id it) = None then xs @ [it] else xs)"

definition lock_item :: "'c fork_db \<Rightarrow> block_id option \<Rightarrow> 'c fork_item option" where
  "lock_item d p = (case p of
       None \<Rightarrow> None
     | Some i \<Rightarrow> (case find_item (fork_index d @ unlinked_index d) i of
           Some it \<Rightarrow> Some it
         | None \<Rightarrow> (case fork_head d of
               Some h \<Rightarrow> if item_id h = i then Some h else None
             | None \<Rightarrow> None)))"

definition fork_reset :: "'c fork_db \<Rightarrow> 'c fork_db" where
  "fork_reset d = d\<lparr>fork_head := None, fork_index := []\<rparr>"

definition pop_block :: "'c fork_db \<Rightarrow> 'c fork_db result" where
  "pop_block d = (case fork_head d of
       None \<Rightarrow> Inl (Assert_Exception ''no blocks to pop'')
     | Some h \<Rightarrow> (case lock_item d (prev h) of
           None \<Rightarrow> Inl (Assert_Exception ''poping block would leave head block null'')
         | Some p \<Rightarrow> Inr (d\<lparr>fork_head := Some p\<rparr>)))"

definition start_block :: "('c signed_block \<Rightarrow> nat) \<Rightarrow> 'c signed_block \<Rightarrow> 'c fork_db \<Rightarrow> 'c fork_db" where
  "start_block hash b d =
     (let it = make_item hash b
      in d\<lparr>fork_index := insert_item it (fork_index d), fork_head := Some it\<rparr>)"

text \<open>The check against the head and the link to the previous block.\<close>

definition check_not_too_old :: "'c fork_db \<Rightarrow> 'c fork_item \<Rightarrow> unit result" where
  "check_not_too_old d it = (case fork_head d of
       None \<Rightarrow> Inr ()
     | Some h \<Rightarrow> fc_assert (uint (num it) > max 0 (uint (num h) - uint (fork_max_size d)))
                 ''attempting to push a block that is too old'')"

definition link_item :: "'c fork_db \<Rightarrow> 'c fork_item \<Rightarrow> 'c fork_item result" where
  "link_item d it =
     (if fork_head d \<noteq> None \<and> previous (data it) \<noteq> null_block_id then
        (case find_item (fork_index d) (previous (data it)) of
           None \<Rightarrow> Inl Unlinkable_Block_Exception
         | Some p \<Rightarrow> bind (fc_assert (\<not> invalid p) ''!(*itr)->invalid'') (\<lambda>_.
             Inr (it\<lparr>prev := Some (item_id p)\<rparr>)))
      else Inr it)"

definition erase_below :: "u32 \<Rightarrow> 'c fork_item list \<Rightarrow> 'c fork_item list" where
  "erase_below m xs = filter (\<lambda>it. \<not> num it < m) xs"

definition push_item :: "'c fork_db \<Rightarrow> 'c fork_item \<Rightarrow> 'c fork_db result" where
  "push_item d it0 =
     bind (check_not_too_old d it0) (\<lambda>_.
     bind (link_item d it0) (\<lambda>it.
     let idx = insert_item it (fork_index d) in
     (case fork_head d of
        None \<Rightarrow> Inr (d\<lparr>fork_index := idx, fork_head := Some it\<rparr>)
      | Some h \<Rightarrow>
          if num it > num h then
            Inr (d\<lparr>fork_head := Some it,
                   fork_index := erase_below (num it - min (fork_max_size d) (num it)) idx,
                   unlinked_index := filter (\<lambda>u. num u \<noteq> num it - fork_max_size d) (unlinked_index d)\<rparr>)
          else Inr (d\<lparr>fork_index := idx\<rparr>))))"

definition push_block ::
  "('c signed_block \<Rightarrow> nat) \<Rightarrow> 'c fork_db \<Rightarrow> 'c signed_block \<Rightarrow> ('c fork_db \<times> 'c fork_item option) result" where
  "push_block hash d b =
     bind (push_item d (make_item hash b)) (\<lambda>d'. Inr (d', fork_head d'))"

definition fork_set_max_size :: "u32 \<Rightarrow> 'c fork_db \<Rightarrow> 'c fork_db" where
  "fork_set_max_size s d =
     (case fork_head d of
        None \<Rightarrow> d\<lparr>fork_max_size := s\<rparr>
      | Some h \<Rightarrow>
          let keep = filter (\<lambda>it. \<not> uint (num it) < max 0 (uint (num h) - uint s)) in
          d\<lparr>fork_max_size := s, fork_index := keep (fork_index d), unlinked_index := keep (unlinked_index d)\<rparr>)"

definition is_known_block :: "'c fork_db \<Rightarrow> block_id \<Rightarrow> bool" where
  "is_known_block d i \<longleftrightarrow> find_item (fork_index d) i \<noteq> None \<or> find_item (unlinked_index d) i \<noteq> None"

definition fetch_block :: "'c fork_db \<Rightarrow> block_id \<Rightarrow> 'c fork_item option" where
  "fetch_block d i = (case find_item (fork_index d) i of
      Some it \<Rightarrow> Some it
    | None \<Rightarrow> find_item (unlinked_index d) i)"

definition fetch_block_by_number :: "'c fork_db \<Rightarrow> u32 \<Rightarrow> 'c fork_item list" where
  "fetch_block_by_number d n = filter (\<lambda>it. num it = n) (fork_index d)"

definition fork_set_head :: "'c fork_item option \<Rightarrow> 'c fork_db \<Rightarrow> 'c fork_db" where
  "fork_set_head h d = d\<lparr>fork_head := h\<rparr>"

definition fork_remove :: "block_id \<Rightarrow> 'c fork_db \<Rightarrow> 'c fork_db" where
  "fork_remove i d = d\<lparr>fork_index := filter (\<lambda>it. item_id it \<noteq> i) (fork_index d)\<rparr>"

section \<open>The branches back to a common ancestor\<close>

text \<open>The loops run on fuel; running out of it is an exception of its own.\<close>

definition step_back :: "'c fork_db \<Rightarrow> 'c fork_item \<Rightarrow> 'c fork_item result" where
  "step_back d it = (case lock_item d (prev it) of
      None \<Rightarrow> Inl (Assert_Exception ''branch'') | Some p \<Rightarrow> Inr p)"

fun climb_to :: "nat \<Rightarrow> 'c fork_db \<Rightarrow> u32 \<Rightarrow> 'c fork_item \<Rightarrow> 'c fork_item list \<Rightarrow> ('c fork_item \<times> 'c fork_item list) result" where
  "climb_to n d low it acc =
     (if block_num (data it) > low then
        (case n of 0 \<Rightarrow> Inl (Chain_Exception ''out of fuel'')
         | Suc m \<Rightarrow> bind (step_back d it) (\<lambda>p. climb_to m d low p (acc @ [it])))
      else Inr (it, acc))"

fun climb_both :: "nat \<Rightarrow> 'c fork_db \<Rightarrow> 'c fork_item \<Rightarrow> 'c fork_item \<Rightarrow> 'c fork_item list \<Rightarrow> 'c fork_item list
    \<Rightarrow> ('c fork_item list \<times> 'c fork_item list) result" where
  "climb_both n d a b as bs =
     (if previous (data a) \<noteq> previous (data b) then
        (case n of 0 \<Rightarrow> Inl (Chain_Exception ''out of fuel'')
         | Suc m \<Rightarrow>
             bind (step_back d a) (\<lambda>a'. bind (step_back d b) (\<lambda>b'.
             climb_both m d a' b' (as @ [a]) (bs @ [b]))))
      else Inr (as @ [a], bs @ [b]))"

definition fetch_branch_from ::
  "nat \<Rightarrow> 'c fork_db \<Rightarrow> block_id \<Rightarrow> block_id \<Rightarrow> ('c fork_item list \<times> 'c fork_item list) result" where
  "fetch_branch_from n d first second =
     (case (find_item (fork_index d) first, find_item (fork_index d) second) of
        (Some a, Some b) \<Rightarrow>
          bind (climb_to n d (block_num (data b)) a []) (\<lambda>(a1, as).
          bind (climb_to n d (block_num (data a1)) b []) (\<lambda>(b1, bs).
          climb_both n d a1 b1 as bs))
      | _ \<Rightarrow> Inl (Assert_Exception ''branch''))"

declare climb_to.simps [simp del] climb_both.simps [simp del]

section \<open>The invariant\<close>

definition item_ok :: "('c signed_block \<Rightarrow> nat) \<Rightarrow> 'c fork_item \<Rightarrow> bool" where
  "item_ok hash it \<longleftrightarrow> num it = block_num (data it) \<and> item_id it = signed_block_id hash (data it) \<and>
     (prev it = None \<or> prev it = Some (previous (data it))) \<and> block_num (data it) \<noteq> 0"

definition held :: "'c fork_db \<Rightarrow> 'c fork_item set" where
  "held d = set (fork_index d) \<union> set (unlinked_index d) \<union> set_option (fork_head d)"

definition store_ok :: "('c signed_block \<Rightarrow> nat) \<Rightarrow> 'c fork_db \<Rightarrow> bool" where
  "store_ok hash d \<longleftrightarrow> (\<forall>it \<in> held d. item_ok hash it)"

text \<open>
  Ids are unique, the head is an item of the index with the highest number, and a block whose
  predecessor is gone is at least \<^verbatim>\<open>_max_size\<close> below the head.
\<close>

definition fork_inv :: "('c signed_block \<Rightarrow> nat) \<Rightarrow> 'c fork_db \<Rightarrow> bool" where
  "fork_inv hash d \<longleftrightarrow> store_ok hash d \<and> distinct (map item_id (fork_index d)) \<and>
     (case fork_head d of
        None \<Rightarrow> fork_index d = []
      | Some h \<Rightarrow> h \<in> set (fork_index d) \<and> (\<forall>it \<in> set (fork_index d). num it \<le> num h) \<and>
          (\<forall>it \<in> set (fork_index d). \<forall>p. prev it = Some p \<longrightarrow> p \<in> item_id ` set (fork_index d) \<or>
             uint (num it) + uint (fork_max_size d) \<le> uint (num h)))"

lemma find_item_Some: "find_item xs i = Some it \<Longrightarrow> it \<in> set xs \<and> item_id it = i"
  by (auto simp: find_item_def find_Some_iff)

lemma find_item_None: "find_item xs i = None \<longleftrightarrow> i \<notin> item_id ` set xs"
  by (auto simp: find_item_def find_None_iff)

lemma set_insert_item: "find_item xs (item_id it) = None \<Longrightarrow> insert_item it xs = xs @ [it]"
  by (simp add: insert_item_def)

lemma num_of_id: "item_ok hash it \<Longrightarrow> num it = fst (item_id it)"
  by (simp add: item_ok_def signed_block_id_def)

lemma uint_u32_diff_min: "uint (a - min m a :: u32) = uint a - min (uint m) (uint a)"
proof -
  have "min m a \<le> a" by simp
  then have "uint (a - min m a) = uint a - uint (min m a)"
    by (simp add: uint_minus_simple_alt word_le_def)
  then show ?thesis by (simp add: min_def word_le_def)
qed

lemma uint_u32_Suc:
  assumes "w + 1 \<noteq> (0 :: u32)"
  shows "uint (w + 1) = uint w + 1"
proof -
  have u: "uint (w + 1) = (uint w + 1) mod 2 ^ 32" by (simp add: uint_word_ariths)
  have "uint w < 2 ^ 32" using uint_lt2p [of w] by simp
  moreover have "uint w + 1 \<noteq> 2 ^ 32" using u assms by (metis mod_self uint_0_iff)
  ultimately show ?thesis using u by (simp add: mod_pos_pos_trivial)
qed

lemma block_num_pos: "block_num b \<noteq> 0 \<Longrightarrow> uint (block_num b) = uint (num_from_id (previous b)) + 1"
  unfolding block_num_def by (rule uint_u32_Suc)

lemma prev_num:
  assumes "item_ok hash it" "prev it = Some i"
  shows "uint (num it) = uint (fst i) + 1"
  using assms block_num_pos [of "data it"] by (auto simp: item_ok_def num_from_id_def)

lemma make_item_ok: "block_num b \<noteq> 0 \<Longrightarrow> item_ok hash (make_item hash b)"
  by (simp add: make_item_def item_ok_def)

lemma link_item_ok:
  assumes "link_item d (make_item hash b) = Inr it" "block_num b \<noteq> 0"
  shows "item_ok hash it" "num it = block_num b" "item_id it = signed_block_id hash b" "data it = b"
    "prev it = Some p \<Longrightarrow> p \<in> item_id ` set (fork_index d)"
  using assms make_item_ok [of b hash]
  by (auto simp: link_item_def make_item_def item_ok_def ok_simps
      dest!: find_item_Some intro: rev_image_eqI split: if_splits option.splits)

lemma erase_below_keeps_link:
  assumes ok: "item_ok hash x" "\<forall>it \<in> set xs. item_ok hash it" and p: "prev x = Some p" "p \<in> item_id ` set xs"
    and m: "m = n - min mx n"
  shows "p \<in> item_id ` set (erase_below m xs) \<or> uint (num x) + uint mx \<le> uint n"
proof -
  obtain y where y: "y \<in> set xs" "item_id y = p" using p(2) by auto
  have "uint (num x) = uint (num y) + 1"
    using prev_num [OF ok(1) p(1)] num_of_id [of hash y] ok(2) y by auto
  moreover have "uint m = uint n - min (uint mx) (uint n)" unfolding m by (rule uint_u32_diff_min)
  ultimately have "\<not> num y < m \<or> uint (num x) + uint mx \<le> uint n"
    unfolding word_less_def using uint_ge_0 [of "num y"] by linarith
  then show ?thesis using y by (auto simp: erase_below_def)
qed

text \<open>Pushing a block keeps the invariant, and the head it returns is the highest block.\<close>

lemma push_item_inv:
  assumes inv: "fork_inv hash d" and push: "push_item d (make_item hash b) = Inr d'" and b: "block_num b \<noteq> 0"
  shows "fork_inv hash d' \<and> (\<exists>h. fork_head d' = Some h \<and> block_num b \<le> num h)"
proof -
  obtain it where it: "link_item d (make_item hash b) = Inr it"
    using push by (auto simp: push_item_def ok_simps)
  note l = link_item_ok [OF it b]
  have store: "\<forall>x \<in> held d. item_ok hash x" using inv by (simp add: fork_inv_def store_ok_def)
  show ?thesis
  proof (cases "fork_head d")
    case None
    then have "fork_index d = []" using inv by (simp add: fork_inv_def)
    then have d': "d' = d\<lparr>fork_index := [it], fork_head := Some it\<rparr>" "prev it = None"
      using push it None l(5) by (cases "prev it"; auto simp: push_item_def ok_simps insert_item_def find_item_def)+
    then show ?thesis using l store by (auto simp: fork_inv_def store_ok_def held_def)
  next
    case (Some h)
    have h: "h \<in> set (fork_index d)" "\<forall>x \<in> set (fork_index d). num x \<le> num h"
      "\<forall>x \<in> set (fork_index d). \<forall>p. prev x = Some p \<longrightarrow> p \<in> item_id ` set (fork_index d) \<or>
         uint (num x) + uint (fork_max_size d) \<le> uint (num h)" "distinct (map item_id (fork_index d))"
      using inv Some by (simp_all add: fork_inv_def)
    show ?thesis
    proof (cases "num it > num h")
      case False
      then have d': "d' = d\<lparr>fork_index := insert_item it (fork_index d)\<rparr>"
        using push it Some by (auto simp: push_item_def ok_simps)
      have "fork_inv hash d'"
        using Some h l store False
        by (auto simp: d' fork_inv_def store_ok_def held_def insert_item_def find_item_None)
      then show ?thesis using Some l(2) False by (auto simp: d')
    next
      case True
      then have "find_item (fork_index d) (item_id it) = None"
        using h(2) l(1) store num_of_id [of hash]
        by (fastforce simp: find_item_None held_def dest: leD)
      then have d': "d' = d\<lparr>fork_head := Some it,
          fork_index := erase_below (num it - min (fork_max_size d) (num it)) (fork_index d @ [it]),
          unlinked_index := filter (\<lambda>u. num u \<noteq> num it - fork_max_size d) (unlinked_index d)\<rparr>"
        "item_id it \<notin> item_id ` set (fork_index d)"
        using push it Some True by (auto simp: push_item_def ok_simps insert_item_def find_item_None)
      let ?m = "num it - min (fork_max_size d) (num it)" and ?xs = "fork_index d @ [it]"
      have ok: "\<forall>x \<in> set ?xs. item_ok hash x" using store l(1) by (auto simp: held_def)
      have link: "p \<in> item_id ` set (erase_below ?m ?xs) \<or>
          uint (num x) + uint (fork_max_size d) \<le> uint (num it)"
        if x: "x \<in> set ?xs" "prev x = Some p" for x p
      proof (cases "p \<in> item_id ` set ?xs")
        case True
        then show ?thesis using erase_below_keeps_link [OF _ ok x(2) True refl] ok x(1) by blast
      next
        case False
        moreover from this have "x \<noteq> it" using l(5) [of p] x(2) by auto
        ultimately have "x \<in> set (fork_index d)" "p \<notin> item_id ` set (fork_index d)" using x(1) by auto
        then have "uint (num x) + uint (fork_max_size d) \<le> uint (num h)" using h(3) x(2) by blast
        then show ?thesis using \<open>num it > num h\<close> by (simp add: word_less_def)
      qed
      have "it \<in> set (erase_below ?m ?xs)"
        using uint_u32_diff_min [of "num it" "fork_max_size d"] by (auto simp: erase_below_def word_less_def min_def)
      moreover have "\<forall>x \<in> set (erase_below ?m ?xs). num x \<le> num it"
        using h(2) True by (auto simp: erase_below_def)
      moreover have "distinct (map item_id (erase_below ?m ?xs))"
        using h(4) d'(2) unfolding erase_below_def by (intro distinct_map_filter) auto
      moreover have "store_ok hash d'" using store l(1) by (auto simp: d'(1) store_ok_def held_def erase_below_def)
      moreover have "\<forall>x \<in> set (erase_below ?m ?xs). \<forall>p. prev x = Some p \<longrightarrow>
          p \<in> item_id ` set (erase_below ?m ?xs) \<or> uint (num x) + uint (fork_max_size d) \<le> uint (num it)"
        using link unfolding erase_below_def by (meson filter_is_subset subsetD)
      ultimately have "fork_inv hash d'" unfolding fork_inv_def d'(1) by simp
      then show ?thesis using l(2) by (simp add: d'(1))
    qed
  qed
qed

section \<open>Branches\<close>

text \<open>A branch is a list of items, each the predecessor of the one before.\<close>

definition branch :: "'c fork_db \<Rightarrow> 'c fork_item list \<Rightarrow> bool" where
  "branch d xs \<longleftrightarrow> successively (\<lambda>x y. lock_item d (prev x) = Some y) xs"

lemma branch_simps [simp]:
  "branch d []" "branch d [x]"
  "branch d (x # y # xs) \<longleftrightarrow> lock_item d (prev x) = Some y \<and> branch d (y # xs)"
  by (simp_all add: branch_def)

lemma branch_append_single:
  "branch d (xs @ [x]) \<Longrightarrow> lock_item d (prev x) = Some y \<Longrightarrow> branch d (xs @ [x, y])"
  by (simp add: branch_def successively_append_iff)

lemma step_back_Inr: "step_back d it = Inr p \<longleftrightarrow> lock_item d (prev it) = Some p"
  by (simp add: step_back_def split: option.split)

lemma lock_item_held: "lock_item d (Some i) = Some p \<Longrightarrow> p \<in> held d \<and> item_id p = i"
  by (auto simp: lock_item_def held_def dest!: find_item_Some split: option.splits if_splits)

lemma lock_item_num:
  assumes "store_ok hash d" "it \<in> held d" "lock_item d (prev it) = Some p"
  shows "p \<in> held d" "uint (block_num (data it)) = uint (block_num (data p)) + 1"
    "item_id p = previous (data it)"
proof -
  obtain i where i: "prev it = Some i" using assms(3) by (cases "prev it") (auto simp: lock_item_def)
  then have p: "p \<in> held d" "item_id p = i" using lock_item_held [of d i p] assms(3) by auto
  have ok: "item_ok hash it" "item_ok hash p" using assms(1,2) p(1) by (auto simp: store_ok_def)
  then have "i = previous (data it)" "block_num (data p) = fst i"
    using i p(2) by (auto simp: item_ok_def signed_block_id_def)
  then show "p \<in> held d" "item_id p = previous (data it)"
    "uint (block_num (data it)) = uint (block_num (data p)) + 1"
    using p prev_num [OF ok(1) i] ok(1) by (simp_all add: item_ok_def)
qed

lemma climb_to_sound:
  assumes "climb_to n d low it acc = Inr (it', acc')" "branch d (acc @ [it])"
  shows "branch d (acc' @ [it']) \<and> hd (acc' @ [it']) = hd (acc @ [it]) \<and> block_num (data it') \<le> low \<and>
    (\<forall>x \<in> set acc'. x \<in> set acc \<or> low < block_num (data x)) \<and> set acc \<subseteq> set acc'"
  using assms
proof (induction n arbitrary: it acc)
  case 0
  then show ?case by (subst (asm) climb_to.simps) (auto split: if_splits)
next
  case (Suc n)
  show ?case
  proof (cases "block_num (data it) > low")
    case True
    then obtain p where p: "lock_item d (prev it) = Some p" "climb_to n d low p (acc @ [it]) = Inr (it', acc')"
      using Suc.prems(1) by (subst (asm) climb_to.simps) (auto simp: ok_simps step_back_Inr)
    have "branch d ((acc @ [it]) @ [p])" using branch_append_single [OF Suc.prems(2) p(1)] by simp
    from Suc.IH [OF p(2) this] True show ?thesis by (auto simp: hd_append split: if_splits)
  next
    case False
    with Suc.prems show ?thesis by (subst (asm) climb_to.simps) auto
  qed
qed

lemma climb_to_level:
  assumes "store_ok hash d" "it \<in> held d" "climb_to n d low it acc = Inr (it', acc')"
  shows "it' \<in> held d \<and> (low \<le> block_num (data it) \<longrightarrow> block_num (data it') = low) \<and>
    (block_num (data it) \<le> low \<longrightarrow> it' = it \<and> acc' = acc)"
  using assms(2,3)
proof (induction n arbitrary: it acc)
  case 0
  then show ?case by (subst (asm) climb_to.simps) (auto split: if_splits)
next
  case (Suc n)
  show ?case
  proof (cases "block_num (data it) > low")
    case True
    then obtain p where p: "lock_item d (prev it) = Some p" "climb_to n d low p (acc @ [it]) = Inr (it', acc')"
      using Suc.prems(2) by (subst (asm) climb_to.simps) (auto simp: ok_simps step_back_Inr)
    note l = lock_item_num [OF assms(1) Suc.prems(1) p(1)]
    have "low \<le> block_num (data p)" using True l(2) by (simp add: word_less_def word_le_def)
    with Suc.IH [OF l(1) p(2)] True show ?thesis by auto
  next
    case False
    with Suc.prems show ?thesis by (subst (asm) climb_to.simps) auto
  qed
qed

lemma same_previous_same_num:
  "previous (data x) = previous (data y) \<Longrightarrow> block_num (data x) = block_num (data y)"
  by (simp add: block_num_def)

lemma climb_both_sound:
  assumes "store_ok hash d" "climb_both n d a b as bs = Inr (as', bs')"
    and "a \<in> held d" "b \<in> held d" "block_num (data a) = block_num (data b)"
    and "branch d (as @ [a])" "branch d (bs @ [b])"
    and "\<forall>x \<in> set as \<union> set bs. block_num (data a) < block_num (data x)"
    and "\<forall>x \<in> set as. \<forall>y \<in> set bs. previous (data x) \<noteq> previous (data y)"
  shows "as' \<noteq> [] \<and> bs' \<noteq> [] \<and> branch d as' \<and> branch d bs' \<and> hd as' = hd (as @ [a]) \<and> hd bs' = hd (bs @ [b]) \<and>
    previous (data (last as')) = previous (data (last bs')) \<and>
    (\<forall>x \<in> set (butlast as'). \<forall>y \<in> set (butlast bs'). previous (data x) \<noteq> previous (data y))"
  using assms(2-)
proof (induction n arbitrary: a b as bs)
  case 0
  then show ?case by (subst (asm) climb_both.simps) (auto split: if_splits)
next
  case (Suc n)
  show ?case
  proof (cases "previous (data a) = previous (data b)")
    case True
    with Suc.prems show ?thesis by (subst (asm) climb_both.simps) auto
  next
    case False
    then obtain a' b' where s: "lock_item d (prev a) = Some a'" "lock_item d (prev b) = Some b'"
      and c: "climb_both n d a' b' (as @ [a]) (bs @ [b]) = Inr (as', bs')"
      using Suc.prems(1) by (subst (asm) climb_both.simps) (auto simp: ok_simps step_back_Inr)
    note la = lock_item_num [OF assms(1) Suc.prems(2) s(1)]
      and lb = lock_item_num [OF assms(1) Suc.prems(3) s(2)]
    have n: "block_num (data a') = block_num (data b')" "block_num (data a') < block_num (data a)"
      using la(2) lb(2) Suc.prems(4) by (simp_all add: word_less_def word_uint_eq_iff)
    have ne: "x \<in> set as \<union> set bs \<Longrightarrow> previous (data a) \<noteq> previous (data x)"
      "x \<in> set as \<union> set bs \<Longrightarrow> previous (data x) \<noteq> previous (data b)" for x
      using Suc.prems(4,7) same_previous_same_num by (metis less_irrefl)+
    have "branch d ((as @ [a]) @ [a'])" "branch d ((bs @ [b]) @ [b'])"
      using branch_append_single Suc.prems(5,6) s by simp_all
    moreover have "\<forall>x \<in> set (as @ [a]) \<union> set (bs @ [b]). block_num (data a') < block_num (data x)"
      using n Suc.prems(4,7) by (auto intro: less_trans)
    moreover have "\<forall>x \<in> set (as @ [a]). \<forall>y \<in> set (bs @ [b]). previous (data x) \<noteq> previous (data y)"
      using Suc.prems(8) False ne by auto
    ultimately have "as' \<noteq> [] \<and> bs' \<noteq> [] \<and> branch d as' \<and> branch d bs' \<and>
        hd as' = hd ((as @ [a]) @ [a']) \<and> hd bs' = hd ((bs @ [b]) @ [b']) \<and>
        previous (data (last as')) = previous (data (last bs')) \<and>
        (\<forall>x \<in> set (butlast as'). \<forall>y \<in> set (butlast bs'). previous (data x) \<noteq> previous (data y))"
      by (rule Suc.IH [OF c la(1) lb(1) n(1)])
    moreover have "hd ((xs @ [x]) @ [y]) = hd (xs @ [x])" for xs and x y :: "'c fork_item" by (cases xs) auto
    ultimately show ?thesis by metis
  qed
qed

lemma fetch_branch_sound:
  assumes ok: "store_ok hash d" and f: "fetch_branch_from n d first second = Inr (as, bs)"
  shows "as \<noteq> [] \<and> bs \<noteq> [] \<and> item_id (hd as) = first \<and> item_id (hd bs) = second \<and>
    branch d as \<and> branch d bs \<and> previous (data (last as)) = previous (data (last bs)) \<and>
    (\<forall>x \<in> set (butlast as). \<forall>y \<in> set (butlast bs). previous (data x) \<noteq> previous (data y))"
proof -
  obtain a b a1 as1 b1 bs1 where
    ab: "find_item (fork_index d) first = Some a" "find_item (fork_index d) second = Some b" and
    c: "climb_to n d (block_num (data b)) a [] = Inr (a1, as1)"
      "climb_to n d (block_num (data a1)) b [] = Inr (b1, bs1)"
      "climb_both n d a1 b1 as1 bs1 = Inr (as, bs)"
    using f by (auto simp: fetch_branch_from_def ok_simps split: option.splits)
  have held: "a \<in> held d" "b \<in> held d" using ab by (auto dest!: find_item_Some simp: held_def)
  note l1 = climb_to_level [OF ok held(1) c(1)] and l2 = climb_to_level [OF ok held(2) c(2)]
    and s1 = climb_to_sound [OF c(1)] and s2 = climb_to_sound [OF c(2)]
  have n: "block_num (data a1) = block_num (data b1)"
    using l1 l2 by (cases "block_num (data b) \<le> block_num (data a)") auto
  have "\<forall>x \<in> set as1 \<union> set bs1. block_num (data a1) < block_num (data x)"
    using s1 s2 l1 by auto
  moreover have "as1 = [] \<or> bs1 = []"
    using l1 l2 by (cases "block_num (data b) \<le> block_num (data a)") auto
  moreover have "branch d (as1 @ [a1])" "branch d (bs1 @ [b1])" "hd (as1 @ [a1]) = a" "hd (bs1 @ [b1]) = b"
    using s1 s2 by simp_all
  moreover have "a1 \<in> held d" "b1 \<in> held d" using l1 l2 by blast+
  moreover have "item_id a = first" "item_id b = second" using ab find_item_Some by blast+
  ultimately show ?thesis
    using climb_both_sound [OF ok c(3) _ _ n] by (metis empty_iff list.set(1))
qed

text \<open>Along a branch the number falls by one per step, so a climb on a long enough branch ends.\<close>

lemma branch_num:
  assumes "store_ok hash d" "branch d (x # xs)" "x \<in> held d"
  shows "last (x # xs) \<in> held d \<and>
    uint (block_num (data x)) = uint (block_num (data (last (x # xs)))) + int (length xs)"
  using assms(2,3)
proof (induction xs arbitrary: x)
  case (Cons y ys)
  have "lock_item d (prev x) = Some y" "branch d (y # ys)" using Cons.prems(1) by simp_all
  with lock_item_num [OF assms(1) Cons.prems(2)] Cons.IH [of y] show ?case by auto
qed simp

lemma climb_to_complete:
  assumes "store_ok hash d" "branch d (it # xs)" "it \<in> held d" "length xs \<le> n"
    "block_num (data (last (it # xs))) \<le> low"
  shows "\<exists>it' ys acc'. climb_to n d low it acc = Inr (it', acc') \<and> branch d (it' # ys) \<and>
    last (it' # ys) = last (it # xs) \<and> length ys \<le> length xs"
  using assms(2-)
proof (induction n arbitrary: it xs acc)
  case 0
  then show ?case by (subst climb_to.simps) auto
next
  case (Suc n)
  show ?case
  proof (cases "block_num (data it) > low")
    case False
    then show ?thesis using Suc.prems by (subst climb_to.simps) auto
  next
    case True
    then obtain y ys where xs: "xs = y # ys" using Suc.prems(4) by (cases xs) auto
    have y: "lock_item d (prev it) = Some y" "branch d (y # ys)" using Suc.prems(1) xs by simp_all
    note l = lock_item_num [OF assms(1) Suc.prems(2) y(1)]
    have "climb_to (Suc n) d low it acc = climb_to n d low y (acc @ [it])"
      using True y(1) by (subst climb_to.simps) (simp add: step_back_def)
    moreover have "length ys \<le> n" "block_num (data (last (y # ys))) \<le> low"
      using Suc.prems(3,4) xs by simp_all
    then obtain it' zs acc' where "climb_to n d low y (acc @ [it]) = Inr (it', acc')" "branch d (it' # zs)"
      "last (it' # zs) = last (y # ys)" "length zs \<le> length ys"
      using Suc.IH [OF y(2) l(1), of "acc @ [it]"] by blast
    ultimately show ?thesis by (intro exI [of _ it'] exI [of _ zs] exI [of _ acc']) (simp add: xs)
  qed
qed

lemma climb_both_complete:
  assumes "store_ok hash d" "branch d (a # xs)" "branch d (b # ys)" "length xs = length ys" "length xs \<le> n"
    "previous (data (last (a # xs))) = previous (data (last (b # ys)))"
  shows "\<exists>r. climb_both n d a b as bs = Inr r"
  using assms(2-)
proof (induction n arbitrary: a b xs ys as bs)
  case 0
  then show ?case by (subst climb_both.simps) auto
next
  case (Suc n)
  show ?case
  proof (cases "previous (data a) = previous (data b)")
    case True
    then show ?thesis by (subst climb_both.simps) auto
  next
    case False
    then obtain x xs' y ys' where xs: "xs = x # xs'" "ys = y # ys'"
      using Suc.prems(3,5) by (cases xs; cases ys) auto
    then have "climb_both (Suc n) d a b as bs = climb_both n d x y (as @ [a]) (bs @ [b])"
      using False Suc.prems(1,2) by (subst climb_both.simps) (simp add: step_back_def)
    with Suc.IH [of x xs' y ys'] Suc.prems xs show ?thesis by simp
  qed
qed

lemma fetch_branch_complete:
  assumes ok: "store_ok hash d"
    and a: "find_item (fork_index d) first = Some a" "branch d (a # xs)"
    and b: "find_item (fork_index d) second = Some b" "branch d (b # ys)"
    and common: "previous (data (last (a # xs))) = previous (data (last (b # ys)))"
    and fuel: "length xs \<le> n" "length ys \<le> n"
  shows "\<exists>as bs. fetch_branch_from n d first second = Inr (as, bs)"
proof -
  have held: "a \<in> held d" "b \<in> held d" using a(1) b(1) by (auto dest!: find_item_Some simp: held_def)
  note na = branch_num [OF ok a(2) held(1)] and nb = branch_num [OF ok b(2) held(2)]
  have low: "block_num (data (last (a # xs))) = block_num (data (last (b # ys)))"
    using common by (rule same_previous_same_num)
  have "block_num (data (last (a # xs))) \<le> block_num (data b)"
    using nb unfolding low word_le_def by simp
  from climb_to_complete [OF ok a(2) held(1) fuel(1) this]
  obtain a1 as1 us where a1: "climb_to n d (block_num (data b)) a [] = Inr (a1, as1)" "branch d (a1 # us)"
    "last (a1 # us) = last (a # xs)" "length us \<le> length xs" by blast
  have h1: "a1 \<in> held d" using climb_to_level [OF ok held(1) a1(1)] by blast
  note n1 = branch_num [OF ok a1(2) h1]
  have "block_num (data (last (b # ys))) \<le> block_num (data a1)"
    using n1 a1(3) unfolding low [symmetric] word_le_def by simp
  from climb_to_complete [OF ok b(2) held(2) fuel(2) this]
  obtain b1 bs1 vs where b1: "climb_to n d (block_num (data a1)) b [] = Inr (b1, bs1)" "branch d (b1 # vs)"
    "last (b1 # vs) = last (b # ys)" "length vs \<le> length ys" by blast
  have h2: "b1 \<in> held d" using climb_to_level [OF ok held(2) b1(1)] by blast
  note n2 = branch_num [OF ok b1(2) h2]
  have "block_num (data a1) = block_num (data b1)"
    using climb_to_level [OF ok held(1) a1(1)] climb_to_level [OF ok held(2) b1(1)]
    by (cases "block_num (data b) \<le> block_num (data a)") auto
  then have "length us = length vs"
    using n1 n2 low a1(3) b1(3) by (simp del: last.simps)
  then have "\<exists>r. climb_both n d a1 b1 as1 bs1 = Inr r"
    using climb_both_complete [OF ok a1(2) b1(2)] a1(3,4) b1(3) common fuel(1) by (simp del: last.simps)
  then show ?thesis using a(1) b(1) a1(1) b1(1) by (auto simp: fetch_branch_from_def)
qed

section \<open>Properties\<close>


definition demo_hash :: "nat signed_block \<Rightarrow> nat" where
  "demo_hash b = Suc (contents b)"

definition demo_block :: "u32 \<Rightarrow> nat \<Rightarrow> nat \<Rightarrow> nat signed_block" where
  "demo_block n h c = \<lparr> previous = (n, h), contents = c \<rparr>"

lemma empty_fork_db_inv: "fork_inv hash empty_fork_db"
  by (simp add: fork_inv_def empty_fork_db_def store_ok_def held_def)


text \<open>
  C29. \<^verbatim>\<open>fetch_branch_from\<close> returns, and returns the branches back to the most recent common
  ancestor, whenever the two blocks have ancestors in the database with a common predecessor: both results start at the
  blocks asked for, follow the links, end in blocks with the same predecessor, and no two blocks before the
  last ones share a predecessor. Fuel of the longer of the two known branches is enough.
\<close>

theorem fetch_branch_from_correct:
  assumes "store_ok hash d"
    and "find_item (fork_index d) first = Some a" "branch d (a # xs)"
    and "find_item (fork_index d) second = Some b" "branch d (b # ys)"
    and "previous (data (last (a # xs))) = previous (data (last (b # ys)))"
    and "length xs \<le> n" "length ys \<le> n"
  shows "\<exists>as bs. fetch_branch_from n d first second = Inr (as, bs) \<and> as \<noteq> [] \<and> bs \<noteq> [] \<and>
    item_id (hd as) = first \<and> item_id (hd bs) = second \<and> branch d as \<and> branch d bs \<and>
    previous (data (last as)) = previous (data (last bs)) \<and>
    (\<forall>x \<in> set (butlast as). \<forall>y \<in> set (butlast bs). previous (data x) \<noteq> previous (data y))"
proof -
  obtain as bs where r: "fetch_branch_from n d first second = Inr (as, bs)"
    using fetch_branch_complete [OF assms] by blast
  with fetch_branch_sound [OF assms(1) r] show ?thesis by blast
qed

text \<open>A block 7 with two children, one of which has a child itself.\<close>

definition demo_item :: "u32 \<Rightarrow> nat \<Rightarrow> nat \<Rightarrow> nat fork_item" where
  "demo_item n h c = (make_item demo_hash (demo_block n h c))\<lparr>prev := Some (n, h)\<rparr>"

definition demo_fork :: "nat fork_db" where
  "demo_fork = empty_fork_db\<lparr>fork_index := [make_item demo_hash (demo_block 6 0 10),
     demo_item 7 11 20, demo_item 7 11 30, demo_item 8 31 40],
     fork_head := Some (demo_item 8 31 40)\<rparr>"

theorem fetch_branch_from_correct_witness:
  "\<exists>as bs. fetch_branch_from 2 demo_fork (9, 41) (8, 21) = Inr (as, bs) \<and>
     item_id (hd as) = (9, 41) \<and> item_id (hd bs) = (8, 21) \<and>
     previous (data (last as)) = previous (data (last bs))"
proof -
  note ev = demo_fork_def empty_fork_db_def demo_item_def make_item_def signed_block_id_def block_num_def
    num_from_id_def demo_block_def demo_hash_def find_item_def lock_item_def
  have "store_ok demo_hash demo_fork"
    by (simp add: store_ok_def held_def item_ok_def ev)
  moreover have "find_item (fork_index demo_fork) (9, 41) = Some (demo_item 8 31 40)"
    "find_item (fork_index demo_fork) (8, 21) = Some (demo_item 7 11 20)"
    "branch demo_fork [demo_item 8 31 40, demo_item 7 11 30]" "branch demo_fork [demo_item 7 11 20]"
    by (simp_all add: ev)
  moreover have "previous (data (last [demo_item 8 31 40, demo_item 7 11 30])) =
      previous (data (last [demo_item 7 11 20]))" by (simp add: ev)
  ultimately show ?thesis
    using fetch_branch_from_correct [of demo_hash demo_fork "(9, 41)" "demo_item 8 31 40" "[demo_item 7 11 30]"
        "(8, 21)" "demo_item 7 11 20" "[]" 2] by auto
qed

text \<open>
  A block whose predecessor is unknown is not kept: with a head present and a non-null
  predecessor that is not in the index, a push that passes the age check throws the unlinkable-block exception, and no push
  ever adds to the cache of unlinked blocks.
\<close>

theorem push_unlinkable:
  "(fork_head d \<noteq> None \<and> previous b \<noteq> null_block_id \<and> find_item (fork_index d) (previous b) = None \<and>
      check_not_too_old d (make_item hash b) = Inr () \<longrightarrow> push_block hash d b = Inl Unlinkable_Block_Exception) \<and>
   (\<forall>d' h. push_block hash d b = Inr (d', h) \<longrightarrow> set (unlinked_index d') \<subseteq> set (unlinked_index d))"
proof (intro conjI impI allI)
  assume "fork_head d \<noteq> None \<and> previous b \<noteq> null_block_id \<and> find_item (fork_index d) (previous b) = None \<and>
    check_not_too_old d (make_item hash b) = Inr ()"
  then show "push_block hash d b = Inl Unlinkable_Block_Exception"
    by (simp add: push_block_def push_item_def link_item_def make_item_def)
next
  fix d' h
  assume "push_block hash d b = Inr (d', h)"
  then show "set (unlinked_index d') \<subseteq> set (unlinked_index d)"
    by (auto simp: push_block_def push_item_def ok_simps Let_def split: option.splits if_splits)
qed

theorem push_unlinkable_witness:
  "push_block demo_hash demo_fork (demo_block 8 77 50) = Inl Unlinkable_Block_Exception"
proof -
  have "check_not_too_old demo_fork (make_item demo_hash (demo_block 8 77 50)) = Inr ()"
    by (simp add: check_not_too_old_def demo_fork_def empty_fork_db_def demo_item_def make_item_def block_num_def
        num_from_id_def demo_block_def)
  moreover have "find_item (fork_index demo_fork) (8, 77) = None" "fork_head demo_fork \<noteq> None"
    by (simp_all add: demo_fork_def empty_fork_db_def demo_item_def make_item_def block_num_def num_from_id_def
        demo_block_def find_item_def signed_block_id_def demo_hash_def)
  ultimately show ?thesis
    using push_unlinkable [of demo_fork "demo_block 8 77 50" demo_hash]
    by (simp add: demo_block_def null_block_id_def)
qed

end
