(* ===== verification/Blocks.thy ===== *)
theory Blocks
  imports Transactions Fork_Database
begin

text \<open>
  Blocks (protocol/block.hpp, protocol/block.cpp): the header fields, the number and id of a block, the check of its signature and the
  merkle root of its transactions.

  The hash functions and the recovery of the signing key belong to the fc library and are the record \<open>block_lib\<close>. The merkle root is
  computed in place in the array of digests, as in the code; \<open>merkle_levels\<close> is the level-by-level definition it is compared with.
\<close>

unbundle bit_operations_syntax

record chain_block =
  blk_previous :: block_id
  blk_timestamp :: time_point_sec
  blk_witness :: nat
  blk_merkle_root :: nat
  blk_signature :: nat
  blk_transactions :: "processed_transaction list"

record block_lib =
  block_digest :: "chain_block \<Rightarrow> nat"
  block_signee :: "chain_block \<Rightarrow> public_key result"
  merkle_digest :: "processed_transaction \<Rightarrow> nat"
  hash_pair :: "nat \<Rightarrow> nat \<Rightarrow> nat"
  hash_checksum :: "nat \<Rightarrow> nat"
  id_prefix :: "block_id \<Rightarrow> u32"

definition chain_block_num :: "chain_block \<Rightarrow> u32" where
  "chain_block_num b = num_from_id (blk_previous b) + 1"

definition chain_block_id :: "block_lib \<Rightarrow> chain_block \<Rightarrow> block_id" where
  "chain_block_id B b = (chain_block_num b, block_digest B b)"

definition validate_signee :: "block_lib \<Rightarrow> public_key \<Rightarrow> chain_block \<Rightarrow> bool result" where
  "validate_signee B expected_signee b = bind (block_signee B b) (\<lambda>k. Inr (k = expected_signee))"

section \<open>The merkle root\<close>

text \<open>One pass over the array: pairs are hashed to the front, an odd last digest moves after them.\<close>

function merkle_pairs :: "block_lib \<Rightarrow> nat \<Rightarrow> nat \<Rightarrow> nat \<Rightarrow> nat list \<Rightarrow> nat list \<times> nat" where
  "merkle_pairs B i_max i k ids =
     (if i < i_max then merkle_pairs B i_max (i + 2) (k + 1) (ids[k := hash_pair B (ids ! i) (ids ! (i + 1))]) else (ids, k))"
  by pat_completeness auto

termination
  by (relation "measure (\<lambda>(B, i_max, i, k, ids). i_max - i)") auto

declare merkle_pairs.simps [simp del]

definition merkle_pass :: "block_lib \<Rightarrow> nat list \<Rightarrow> nat \<Rightarrow> nat list \<times> nat" where
  "merkle_pass B ids n =
     (let i_max = n - n mod 2; (ids', k) = merkle_pairs B i_max 0 0 ids
      in if n mod 2 = 1 then (ids'[k := ids' ! i_max], k + 1) else (ids', k))"

lemma merkle_pairs_count: "even (i_max - i) \<Longrightarrow> i \<le> i_max \<Longrightarrow> snd (merkle_pairs B i_max i k ids) = k + (i_max - i) div 2"
proof (induction B i_max i k ids rule: merkle_pairs.induct)
  case (1 B i_max i k ids)
  show ?case
  proof (cases "i < i_max")
    case True
    then have "i + 2 \<le> i_max" "even (i_max - (i + 2))" using 1(2) by presburger+
    moreover from this have "i_max - i = Suc (Suc (i_max - (i + 2)))" by simp
    ultimately show ?thesis using 1(1) [OF True] True by (subst merkle_pairs.simps) simp
  next
    case False
    then show ?thesis using 1(3) by (subst merkle_pairs.simps) simp
  qed
qed

lemma merkle_pass_count: "snd (merkle_pass B ids n) = n div 2 + n mod 2"
proof -
  have "even (n - n mod 2)" "(n - n mod 2) div 2 = n div 2" by presburger+
  then show ?thesis using merkle_pairs_count [of "n - n mod 2" 0 B 0 ids] by (auto simp: merkle_pass_def Let_def split: prod.splits)
qed

function merkle_loop :: "block_lib \<Rightarrow> nat list \<Rightarrow> nat \<Rightarrow> nat list" where
  "merkle_loop B ids n =
     (if n > 1 then merkle_loop B (fst (merkle_pass B ids n)) (snd (merkle_pass B ids n)) else ids)"
  by pat_completeness auto

termination
proof (relation "measure (\<lambda>(B, ids, n). n)")
  fix B :: block_lib and ids :: "nat list" and n :: nat
  assume "n > 1"
  then have "n div 2 + n mod 2 < n" by presburger
  then show "((B, fst (merkle_pass B ids n), snd (merkle_pass B ids n)), B, ids, n) \<in> measure (\<lambda>(B, ids, n). n)"
    by (simp add: merkle_pass_count)
qed simp

declare merkle_loop.simps [simp del]

definition calculate_merkle_root :: "block_lib \<Rightarrow> chain_block \<Rightarrow> nat" where
  "calculate_merkle_root B b =
     (let ids = map (merkle_digest B) (blk_transactions b) in
      if ids = [] then 0 else hash_checksum B (merkle_loop B ids (length ids) ! 0))"

section \<open>Level by level\<close>

fun merkle_level :: "block_lib \<Rightarrow> nat list \<Rightarrow> nat list" where
  "merkle_level B (x # y # zs) = hash_pair B x y # merkle_level B zs"
| "merkle_level B xs = xs"

lemma length_merkle_level: "length (merkle_level B xs) = length xs div 2 + length xs mod 2"
  by (induction B xs rule: merkle_level.induct) simp_all

function merkle_levels :: "block_lib \<Rightarrow> nat list \<Rightarrow> nat list" where
  "merkle_levels B xs = (if length xs > 1 then merkle_levels B (merkle_level B xs) else xs)"
  by pat_completeness auto

termination
proof (relation "measure (\<lambda>(B, xs). length xs)")
  fix B :: block_lib and xs :: "nat list"
  assume "length xs > 1"
  then have "length xs div 2 + length xs mod 2 < length xs" by presburger
  then show "((B, merkle_level B xs), B, xs) \<in> measure (\<lambda>(B, xs). length xs)" by (simp add: length_merkle_level)
qed simp

declare merkle_levels.simps [simp del]

text \<open>
  The pass in place: before the round that reads position \<open>i\<close> and writes position \<open>k \<le> i\<close> the array holds the hashes so far,
  then unread digests from \<open>i\<close> on.
\<close>

lemma merkle_pairs_level:
  assumes "even (i_max - i)" "i \<le> i_max" "k \<le> i" "i_max \<le> length ids"
  shows "take (k + (i_max - i) div 2) (fst (merkle_pairs B i_max i k ids)) =
      take k ids @ merkle_level B (take (i_max - i) (drop i ids)) \<and>
    drop i_max (fst (merkle_pairs B i_max i k ids)) = drop i_max ids \<and> length (fst (merkle_pairs B i_max i k ids)) = length ids"
  using assms
proof (induction B i_max i k ids rule: merkle_pairs.induct)
  case (1 B i_max i k ids)
  show ?case
  proof (cases "i < i_max")
    case True
    let ?ids = "ids[k := hash_pair B (ids ! i) (ids ! (i + 1))]"
    have i2: "i + 2 \<le> i_max" "even (i_max - (i + 2))" using 1(2) True by presburger+
    have d: "drop i ids = ids ! i # ids ! (i + 1) # drop (i + 2) ids"
      using i2 1(5) Cons_nth_drop_Suc [of i ids] Cons_nth_drop_Suc [of "Suc i" ids] by simp
    have m: "i_max - i = Suc (Suc (i_max - (i + 2)))" using i2(1) by simp
    have k: "k < length ids" using True 1(4,5) by simp
    have half: "k + (i_max - i) div 2 = k + 1 + (i_max - (i + 2)) div 2" unfolding m by simp
    have "take (k + 1 + (i_max - (i + 2)) div 2) (fst (merkle_pairs B i_max (i + 2) (k + 1) ?ids)) =
        take (k + 1) ?ids @ merkle_level B (take (i_max - (i + 2)) (drop (i + 2) ?ids)) \<and>
      drop i_max (fst (merkle_pairs B i_max (i + 2) (k + 1) ?ids)) = drop i_max ?ids \<and>
      length (fst (merkle_pairs B i_max (i + 2) (k + 1) ?ids)) = length ?ids"
      using 1(1) [OF True] i2 1(4,5) by simp
    moreover have "take (k + 1) ?ids = take k ids @ [hash_pair B (ids ! i) (ids ! (i + 1))]"
      using k by (simp add: take_Suc_conv_app_nth)
    moreover have "drop (i + 2) ?ids = drop (i + 2) ids" "drop i_max ?ids = drop i_max ids" using 1(4) i2 by simp_all
    moreover have "merkle_level B (take (i_max - i) (drop i ids)) =
        hash_pair B (ids ! i) (ids ! (i + 1)) # merkle_level B (take (i_max - (i + 2)) (drop (i + 2) ids))"
      unfolding m d by simp
    ultimately show ?thesis unfolding half using True by (subst (1 2 3) merkle_pairs.simps) simp
  next
    case False
    then show ?thesis using 1(3) by (subst (1 2 3) merkle_pairs.simps) simp
  qed
qed

lemma merkle_level_snoc: "even (length xs) \<Longrightarrow> merkle_level B (xs @ [x]) = merkle_level B xs @ [x]"
  by (induction B xs rule: merkle_level.induct) simp_all

lemma merkle_pass_level:
  assumes "n \<le> length ids"
  shows "take (snd (merkle_pass B ids n)) (fst (merkle_pass B ids n)) = merkle_level B (take n ids) \<and>
    length (fst (merkle_pass B ids n)) = length ids"
proof -
  let ?m = "n - n mod 2"
  obtain ids' k where p: "merkle_pairs B ?m 0 0 ids = (ids', k)" by force
  have e: "even ?m" "?m div 2 = n div 2" by presburger+
  then have k: "k = n div 2" using merkle_pairs_count [of ?m 0 B 0 ids] p by simp
  have l: "take (n div 2) ids' = merkle_level B (take ?m ids)" "drop ?m ids' = drop ?m ids" "length ids' = length ids"
    using merkle_pairs_level [of ?m 0 0 ids B] e p assms by auto
  show ?thesis
  proof (cases "n mod 2 = 1")
    case True
    then have n: "n = Suc ?m" "?m < length ids" "n div 2 < length ids" using assms by presburger+
    have "ids' ! ?m = ids ! ?m" using l(2,3) n(2) hd_drop_conv_nth [of ?m ids'] hd_drop_conv_nth [of ?m ids] by simp
    moreover have "take n ids = take ?m ids @ [ids ! ?m]" using n by (metis take_Suc_conv_app_nth)
    ultimately show ?thesis using True p k l(1,3) n(2,3) merkle_level_snoc [of "take ?m ids" B "ids ! ?m"] e(1)
      by (simp add: merkle_pass_def take_Suc_conv_app_nth)
  next
    case False
    then have "n mod 2 = 0" by simp
    then show ?thesis using p k l by (simp add: merkle_pass_def)
  qed
qed

lemma merkle_loop_levels:
  "n \<le> length ids \<Longrightarrow> 0 < n \<Longrightarrow> take 1 (merkle_loop B ids n) = merkle_levels B (take n ids)"
proof (induction B ids n rule: merkle_loop.induct)
  case (1 B ids n)
  show ?case
  proof (cases "n > 1")
    case True
    note p = merkle_pass_level [OF 1(2), of B] merkle_pass_count [of B ids n]
    have "n div 2 + n mod 2 \<le> length ids" "0 < n div 2 + n mod 2" using 1(2) True by presburger+
    then have "take 1 (merkle_loop B (fst (merkle_pass B ids n)) (snd (merkle_pass B ids n))) = merkle_levels B (merkle_level B (take n ids))"
      using 1(1) [OF True] p by simp
    then show ?thesis using True 1(2) by (subst merkle_loop.simps, subst merkle_levels.simps) simp
  next
    case False
    then have "n = 1" using 1(3) by simp
    then show ?thesis using 1(2) by (subst merkle_loop.simps, subst merkle_levels.simps) simp
  qed
qed

section \<open>Properties\<close>

text \<open>
  C31. The merkle root computed in place is the root of the tree built level by level: each level hashes neighbours in pairs and hands an
  odd last digest on, until one digest is left; no transactions give the zero checksum.
\<close>

theorem merkle_root_in_place:
  "calculate_merkle_root B b =
     (if blk_transactions b = [] then 0 else hash_checksum B (hd (merkle_levels B (map (merkle_digest B) (blk_transactions b)))))"
proof (cases "blk_transactions b = []")
  case False
  let ?ids = "map (merkle_digest B) (blk_transactions b)"
  have t: "take 1 (merkle_loop B ?ids (length ?ids)) = merkle_levels B ?ids"
    using merkle_loop_levels [of "length ?ids" ?ids B] False by simp
  have ne: "merkle_levels B xs \<noteq> []" if "xs \<noteq> []" for xs
    using that
  proof (induction B xs rule: merkle_levels.induct)
    case (1 B xs)
    have "merkle_level B xs \<noteq> []" using 1(2) length_merkle_level [of B xs] by (cases xs) auto
    then show ?case using 1 by (subst merkle_levels.simps) simp
  qed
  have "merkle_loop B ?ids (length ?ids) ! 0 = hd (merkle_levels B ?ids)"
    using t [symmetric] ne [of ?ids] False by (cases "merkle_loop B ?ids (length ?ids)") auto
  then show ?thesis using False by (simp add: calculate_merkle_root_def)
qed (simp add: calculate_merkle_root_def)

end
