(* ===== verification/Witness_Schedule.thy ===== *)
theory Witness_Schedule
  imports Fee_Distribution "HOL-Library.Multiset"
begin

text \<open>
  The witness schedule (db_witness_schedule.cpp): which witness may produce at which slot, the time of a slot and the slot of a time, the
  participation rate, and the shuffle that starts a new round.

  Slot numbers and times are 32-bit words, the absolute slot a 64-bit word, the random numbers of the shuffle
  64-bit words. A division by zero, which ends the process, is the error \<open>Divide_By_Zero\<close>: it happens with an empty schedule and with a
  block interval of zero, which the validation of the chain parameters excludes.
\<close>

unbundle bit_operations_syntax

section \<open>Slots\<close>

definition maintenance_flag :: u32 where "maintenance_flag = 1"

definition interval :: "database \<Rightarrow> u32" where
  "interval s = ucast (block_interval (parameters s))"

definition get_scheduled_witness :: "database \<Rightarrow> u32 \<Rightarrow> nat result" where
  "get_scheduled_witness s slot_num =
     (let ws = current_shuffled_witnesses s; aslot = current_aslot (dgp s) + ucast slot_num in
      if ws = [] then Inl Divide_By_Zero else Inr (ws ! unat (aslot mod of_nat (length ws))))"

definition get_slot_time :: "database \<Rightarrow> u32 \<Rightarrow> time_point_sec result" where
  "get_slot_time s slot_num =
     (if slot_num = 0 then Inr 0
      else if head_block_number (dgp s) = 0 then Inr (dgp_time (dgp s) + slot_num * interval s)
      else if interval s = 0 then Inl Divide_By_Zero
      else
        let head_slot_time = (head_block_time s div interval s) * interval s;
            n = (if dynamic_flags (dgp s) AND maintenance_flag \<noteq> 0 then slot_num + ucast (maintenance_skip_slots (parameters s)) else slot_num)
        in Inr (head_slot_time + n * interval s))"

definition get_slot_at_time :: "database \<Rightarrow> time_point_sec \<Rightarrow> bool \<Rightarrow> u32 result" where
  "get_slot_at_time s when for_miss_block =
     bind (get_slot_time s 1) (\<lambda>first_slot_time.
     if when < first_slot_time then Inr 0
     else if for_miss_block \<and> head_block_number (dgp s) = 0 then Inr 1
     else if interval s = 0 then Inl Divide_By_Zero
     else Inr (word_of_int ((uint when - uint first_slot_time) div uint (interval s) + 1)))"

definition popcount :: "u128 \<Rightarrow> nat" where
  "popcount w = length (filter (bit w) [0..<128])"

definition witness_participation_rate :: "database \<Rightarrow> nat" where
  "witness_participation_rate s = nat GRAPHENE_100_PERCENT * popcount (recent_slots_filled (dgp s)) div 128"

section \<open>The shuffle\<close>

definition shuffle_number :: "u64 \<Rightarrow> nat \<Rightarrow> u64" where
  "shuffle_number now_hi i =
     (let k0 = now_hi + of_nat i * 2685821657736338717;
          k1 = k0 XOR drop_bit 12 k0;
          k2 = k1 XOR push_bit 25 k1;
          k3 = k2 XOR drop_bit 27 k2
      in k3 * 2685821657736338717)"

definition shuffle_step :: "u64 \<Rightarrow> nat \<Rightarrow> nat list \<Rightarrow> nat list" where
  "shuffle_step now_hi i ws =
     (let jmax = length ws - i; j = i + unat (shuffle_number now_hi i mod of_nat jmax)
      in ws[i := ws ! j, j := ws ! i])"

definition shuffle_witnesses :: "u64 \<Rightarrow> nat list \<Rightarrow> nat list" where
  "shuffle_witnesses now_hi ws = fold (shuffle_step now_hi) [0..<length ws] ws"

definition update_witness_schedule :: "database \<Rightarrow> database result" where
  "update_witness_schedule s =
     (let ws = active_witnesses s in
      if ws = [] then Inl Divide_By_Zero
      else if unat (head_block_number (dgp s)) mod length ws = 0 then
        Inr (s\<lparr>current_shuffled_witnesses := shuffle_witnesses (push_bit 32 (ucast (head_block_time s))) ws\<rparr>)
      else Inr s)"

section \<open>The shuffle permutes\<close>

lemma shuffle_step_mset:
  assumes "i < length ws" "length ws < 2 ^ 32"
  shows "mset (shuffle_step now_hi i ws) = mset ws \<and> length (shuffle_step now_hi i ws) = length ws"
proof -
  have "unat (of_nat (length ws - i) :: u64) = length ws - i" using assms by (simp add: unat_of_nat del: of_nat_diff)
  then have "unat (shuffle_number now_hi i mod of_nat (length ws - i)) < length ws - i"
    using assms(1) by (simp add: unat_mod)
  then show ?thesis using assms(1) mset_swap [of _ ws i] by (simp add: shuffle_step_def Let_def)
qed

lemma shuffle_fold_mset:
  assumes "length ws < 2 ^ 32" "n \<le> length ws"
  shows "mset (fold (shuffle_step now_hi) [0..<n] ws) = mset ws \<and> length (fold (shuffle_step now_hi) [0..<n] ws) = length ws"
  using assms(2)
proof (induction n)
  case (Suc n)
  then show ?case using shuffle_step_mset [of n "fold (shuffle_step now_hi) [0..<n] ws" now_hi] assms(1) by simp
qed simp

lemma shuffle_witnesses_mset:
  "length ws < 2 ^ 32 \<Longrightarrow> mset (shuffle_witnesses now_hi ws) = mset ws \<and> length (shuffle_witnesses now_hi ws) = length ws"
  unfolding shuffle_witnesses_def by (rule shuffle_fold_mset) simp_all

lemma mset_rotated: "mset (rotate n xs) = mset xs"
  by (simp add: rotate_drop_take) (metis append_take_drop_id mset_append union_commute)

section \<open>Slot arithmetic\<close>

text \<open>The time at which the slots are counted from, as an integer.\<close>

definition slot_origin :: "database \<Rightarrow> int" where
  "slot_origin s =
     (if head_block_number (dgp s) = 0 then uint (dgp_time (dgp s))
      else uint (head_block_time s) div uint (interval s) * uint (interval s) +
        (if dynamic_flags (dgp s) AND maintenance_flag \<noteq> 0 then uint (maintenance_skip_slots (parameters s)) * uint (interval s) else 0))"

lemma uint_interval: "uint (interval s) = uint (block_interval (parameters s))"
  using uint_lt2p [of "block_interval (parameters s)"] by (simp add: interval_def unsigned_ucast_eq take_bit_int_eq_self)

lemma word_of_slot_origin:
  assumes "interval s \<noteq> 0" "n \<noteq> 0"
  shows "get_slot_time s n = Inr (word_of_int (slot_origin s + uint n * uint (interval s)))"
proof -
  have u: "word_of_int (uint (maintenance_skip_slots (parameters s))) = (ucast (maintenance_skip_slots (parameters s)) :: u32)"
    by (rule ucast_eq [symmetric])
  have d: "word_of_int (uint (head_block_time s) div uint (interval s)) = head_block_time s div interval s"
    by (rule word_div_def [symmetric])
  show ?thesis using assms
    by (simp add: get_slot_time_def slot_origin_def head_block_time_def [symmetric] Let_def distrib_right u d add.commute add.left_commute)
qed

lemma slot_origin_nonneg: "0 \<le> slot_origin s"
proof -
  have "0 \<le> uint (head_block_time s) div uint (interval s)"
    by (cases "uint (interval s) = 0") (simp_all add: pos_imp_zdiv_nonneg_iff less_le)
  then show ?thesis by (simp add: slot_origin_def)
qed

lemma slot_time_exact:
  assumes "interval s \<noteq> 0" "n \<noteq> 0" "slot_origin s + uint n * uint (interval s) < 2 ^ 32"
  obtains t where "get_slot_time s n = Inr t" "uint t = slot_origin s + uint n * uint (interval s)"
proof (rule that)
  show "get_slot_time s n = Inr (word_of_int (slot_origin s + uint n * uint (interval s)))"
    by (rule word_of_slot_origin [OF assms(1,2)])
  show "uint (word_of_int (slot_origin s + uint n * uint (interval s)) :: u32) = slot_origin s + uint n * uint (interval s)"
    using assms(3) slot_origin_nonneg [of s] by (simp add: uint_word_of_int del: of_int_add of_int_mult)
qed

section \<open>Properties\<close>

text \<open>
  C27. Slots and times fit together: as long as the clock does not wrap, the slot of a time is the one whose interval, of the length of
  one block and starting at the time of the slot, contains it; in particular the slot of the time of a slot is that slot.
\<close>

theorem slot_roundtrip:
  assumes i: "block_interval (parameters s) \<noteq> 0" and n: "n \<noteq> 0"
    and clock: "slot_origin s + uint n * uint (interval s) < 2 ^ 32"
  shows "\<exists>t. get_slot_time s n = Inr t \<and> get_slot_at_time s t False = Inr n \<and>
    (\<forall>when. uint t \<le> uint when \<and> uint when < uint t + uint (interval s) \<longrightarrow> get_slot_at_time s when False = Inr n)"
proof -
  have iv: "interval s \<noteq> 0" "0 < uint (interval s)"
    using i uint_interval [of s] uint_0_iff [of "block_interval (parameters s)"] uint_0_iff [of "interval s"] by (simp_all add: less_le)
  obtain t where t: "get_slot_time s n = Inr t" "uint t = slot_origin s + uint n * uint (interval s)"
    by (rule slot_time_exact [OF iv(1) n clock])
  have n1: "1 \<le> uint n" using n uint_0_iff [of n] uint_ge_0 [of n] by linarith
  have "uint (interval s) \<le> uint n * uint (interval s)" using n1 iv(2) by (simp add: mult_le_cancel_right1)
  then have c1: "slot_origin s + uint (1 :: u32) * uint (interval s) < 2 ^ 32" using clock by simp
  obtain f where f: "get_slot_time s 1 = Inr f" "uint f = slot_origin s + uint (1 :: u32) * uint (interval s)"
    by (rule slot_time_exact [OF iv(1) _ c1]) simp
  have slot: "get_slot_at_time s when False = Inr n" if w: "uint t \<le> uint when" "uint when < uint t + uint (interval s)" for "when"
  proof -
    have "\<not> when < f" using w(1) t(2) f(2) \<open>uint (interval s) \<le> uint n * uint (interval s)\<close> by (simp add: word_less_def)
    moreover have "(uint when - uint f) div uint (interval s) = uint n - 1"
    proof (rule int_div_pos_eq [where r = "uint when - uint t"])
      show "uint when - uint f = uint (interval s) * (uint n - 1) + (uint when - uint t)" using t(2) f(2) by (simp add: algebra_simps)
    qed (use w in simp_all)
    ultimately show ?thesis using f(1) iv(1) by (simp add: get_slot_at_time_def)
  qed
  show ?thesis using t(1) slot slot [OF order.refl] iv(2) by auto
qed

theorem slot_roundtrip_witness:
  "\<exists>t. get_slot_time demo_chain 7 = Inr t \<and> get_slot_at_time demo_chain t False = Inr 7"
proof -
  have "block_interval (parameters demo_chain) \<noteq> 0" "(7 :: u32) \<noteq> 0" "slot_origin demo_chain + uint (7 :: u32) * uint (interval demo_chain) < 2 ^ 32"
    by (simp_all add: demo_chain_def slot_origin_def interval_def head_block_time_def)
  from slot_roundtrip [OF this] show ?thesis by blast
qed

text \<open>
  C26. Rounds are fair: after the schedule has been renewed, every run of as many consecutive slots as there are active witnesses contains each
  active witness exactly as often as it is in the list of active witnesses, whatever the random numbers are.
\<close>

theorem round_is_fair:
  assumes new: "update_witness_schedule s = Inr s'" "unat (head_block_number (dgp s)) mod length (active_witnesses s) = 0"
    and len: "length (active_witnesses s) < 2 ^ 32"
    and aslot: "unat (current_aslot (dgp s)) + unat k + length (active_witnesses s) < 2 ^ 64" "unat k + length (active_witnesses s) < 2 ^ 32"
  shows "\<exists>ws. (\<forall>j < length (active_witnesses s). get_scheduled_witness s' (k + of_nat j) = Inr (ws ! j)) \<and>
    mset ws = mset (active_witnesses s)"
proof -
  let ?n = "length (active_witnesses s)"
  obtain now_hi where s': "s' = s\<lparr>current_shuffled_witnesses := shuffle_witnesses now_hi (active_witnesses s)\<rparr>" and n: "active_witnesses s \<noteq> []"
    using new by (auto simp: update_witness_schedule_def Let_def split: if_splits)
  define sh where "sh = shuffle_witnesses now_hi (active_witnesses s)"
  have sh: "mset sh = mset (active_witnesses s)" "length sh = ?n" "sh \<noteq> []"
    using shuffle_witnesses_mset [OF len, of now_hi] n by (auto simp: sh_def simp flip: length_greater_0_conv)
  define b where "b = unat (current_aslot (dgp s)) + unat k"
  have "get_scheduled_witness s' (k + of_nat j) = Inr (rotate b sh ! j)" if j: "j < ?n" for j
  proof -
    have "unat (k + of_nat j) = unat k + j" using j aslot(2) by (simp add: unat_word_ariths unat_of_nat)
    moreover have small: "unat (k + of_nat j) < 2 ^ 64" using unsigned_less [of "k + of_nat j", where ?'a = nat] by simp
    ultimately have "unat (current_aslot (dgp s) + ucast (k + of_nat j) :: u64) = b + j"
      using j aslot(1) small by (simp add: unat_word_ariths unsigned_ucast_eq take_bit_nat_eq_self b_def)
    moreover have "unat (of_nat ?n :: u64) = ?n" using len by (simp add: unat_of_nat)
    ultimately have "unat ((current_aslot (dgp s) + ucast (k + of_nat j)) mod of_nat ?n :: u64) = (b + j) mod ?n"
      by (simp add: unat_mod)
    then show ?thesis using sh j by (simp add: s' get_scheduled_witness_def Let_def nth_rotate flip: sh_def)
  qed
  then show ?thesis using sh(1) by (intro exI [of _ "rotate b sh"]) (simp add: mset_rotated)
qed

definition demo_round :: database where
  "demo_round = demo_chain\<lparr>active_witnesses := [3, 5, 8]\<rparr>"

theorem round_is_fair_witness:
  "\<exists>s' ws. update_witness_schedule demo_round = Inr s' \<and>
     (\<forall>j < 3. get_scheduled_witness s' (1 + of_nat j) = Inr (ws ! j)) \<and> mset ws = {#3, 5, 8#}"
proof -
  have d: "active_witnesses demo_round = [3, 5, 8]" "head_block_number (dgp demo_round) = 9" "current_aslot (dgp demo_round) = 9"
    by (simp_all add: demo_round_def demo_chain_def)
  then have s': "update_witness_schedule demo_round = Inr (demo_round\<lparr>current_shuffled_witnesses :=
      shuffle_witnesses (push_bit 32 (ucast (head_block_time demo_round))) [3, 5, 8]\<rparr>)"
    by (simp add: update_witness_schedule_def)
  from round_is_fair [OF s', of 1] show ?thesis using s' by (auto simp: d add_mset_commute)
qed

end
