(* ===== verification/Block_Update.thy ===== *)
theory Block_Update
  imports Blocks Witness_Schedule
begin

text \<open>
  What every block does to the global state (db_block.cpp, db_update.cpp): the checks of its header, the update of the dynamic global
  properties, the pay of the signing witness, the last irreversible block, the block summary and the maintenance flag.

  The sizes given to the undo and the fork database are part of the result of \<open>update_global_dynamic_data\<close>. Checkpoints
  are a list in key order. The debug assertion that a block has a slot is not part of the model.
\<close>

unbundle bit_operations_syntax

section \<open>Validation of the header\<close>

definition skip_witness_signature :: u32 where "skip_witness_signature = push_bit 0 1"
definition skip_witness_schedule_check :: u32 where "skip_witness_schedule_check = push_bit 10 1"
definition skip_undo_history_check :: u32 where "skip_undo_history_check = push_bit 9 1"

definition validate_block_header :: "block_lib \<Rightarrow> u32 \<Rightarrow> chain_block \<Rightarrow> database \<Rightarrow> witness_object result" where
  "validate_block_header B skip b s =
     bind (fc_assert (head_block_id (dgp s) = blk_previous b) ''head_block_id() == next_block.previous'') (\<lambda>_.
     bind (fc_assert (head_block_time s < blk_timestamp b) ''head_block_time() < next_block.timestamp'') (\<lambda>_.
     bind (index_get (witnesses s) (blk_witness b)) (\<lambda>wit.
     bind (if skips skip skip_witness_signature then Inr ()
           else bind (validate_signee B (signing_key wit) b) (\<lambda>ok. fc_assert ok ''validate_signee'')) (\<lambda>_.
     bind (if skips skip skip_witness_schedule_check then Inr ()
           else
             bind (get_slot_at_time s (blk_timestamp b) False) (\<lambda>slot_num.
             bind (fc_assert (slot_num > 0) ''slot_num > 0'') (\<lambda>_.
             bind (get_scheduled_witness s slot_num) (\<lambda>scheduled.
             fc_assert (blk_witness b = scheduled) ''Witness produced block at wrong time'')))) (\<lambda>_.
     Inr wit)))))"

section \<open>Dynamic global properties\<close>

definition GRAPHENE_RECENTLY_MISSED_COUNT_INCREMENT :: u32 where "GRAPHENE_RECENTLY_MISSED_COUNT_INCREMENT = 4"
definition GRAPHENE_RECENTLY_MISSED_COUNT_DECREMENT :: u32 where "GRAPHENE_RECENTLY_MISSED_COUNT_DECREMENT = 3"

definition miss_slot :: "chain_block \<Rightarrow> nat \<Rightarrow> database \<Rightarrow> database result" where
  "miss_slot b i s =
     bind (get_scheduled_witness s (of_nat (i + 1))) (\<lambda>w.
     bind (index_get (witnesses s) w) (\<lambda>_.
     if w \<noteq> blk_witness b then modify_witness w (\<lambda>x. Inr (x\<lparr>total_missed := total_missed x + 1\<rparr>)) s else Inr s))"

definition last_checkpoint :: "(u32 \<times> block_id) list \<Rightarrow> u32 \<Rightarrow> bool" where
  "last_checkpoint checkpoints n \<longleftrightarrow> checkpoints \<noteq> [] \<and> fst (last checkpoints) \<ge> n"

definition new_missed_count :: "(u32 \<times> block_id) list \<Rightarrow> u32 \<Rightarrow> u32 \<Rightarrow> u32 \<Rightarrow> u32" where
  "new_missed_count checkpoints n blocks missed =
     (if n = 1 then 0
      else if last_checkpoint checkpoints n then 0
      else if blocks \<noteq> 0 then missed + GRAPHENE_RECENTLY_MISSED_COUNT_INCREMENT * blocks
      else if missed > GRAPHENE_RECENTLY_MISSED_COUNT_INCREMENT then missed - GRAPHENE_RECENTLY_MISSED_COUNT_DECREMENT
      else if missed > 0 then missed - 1 else missed)"

definition advance_dgp ::
  "block_lib \<Rightarrow> (u32 \<times> block_id) list \<Rightarrow> chain_block \<Rightarrow> u32 \<Rightarrow> dynamic_global_property_object \<Rightarrow> dynamic_global_property_object" where
  "advance_dgp B checkpoints b blocks g =
     g\<lparr>recently_missed_count := new_missed_count checkpoints (chain_block_num b) blocks (recently_missed_count g),
       head_block_number := chain_block_num b, head_block_id := chain_block_id B b, dgp_time := blk_timestamp b,
       current_witness := blk_witness b,
       recent_slots_filled := push_bit (unat blocks) (push_bit 1 (recent_slots_filled g) + 1),
       current_aslot := current_aslot g + ucast (blocks + 1)\<rparr>"

definition update_global_dynamic_data ::
  "block_lib \<Rightarrow> u32 \<Rightarrow> (u32 \<times> block_id) list \<Rightarrow> u32 \<Rightarrow> chain_block \<Rightarrow> database \<Rightarrow> (database \<times> u32) result" where
  "update_global_dynamic_data B skip checkpoints max_undo b s =
     bind (get_slot_at_time s (blk_timestamp b) True) (\<lambda>slots.
     bind (fold_result (miss_slot b) [0..<unat (slots - 1)] s) (\<lambda>s1.
     bind (get_slot_at_time s1 (blk_timestamp b) False) (\<lambda>slot.
     let s2 = s1\<lparr>dgp := advance_dgp B checkpoints b (slot - 1) (dgp s1)\<rparr>;
         depth = head_block_number (dgp s2) - last_irreversible_block_num (dgp s2) in
     bind (if skips skip skip_undo_history_check then Inr ()
           else graphene_assert (depth < max_undo) (Chain_Exception ''undo_database_exception'')) (\<lambda>_.
     Inr (s2, depth + 1)))))"

section \<open>The signing witness\<close>

definition update_signing_witness :: "fc_lib \<Rightarrow> nat \<Rightarrow> chain_block \<Rightarrow> database \<Rightarrow> database result" where
  "update_signing_witness F i b s =
     bind (get_slot_at_time s (blk_timestamp b) False) (\<lambda>slot.
     let new_block_aslot = current_aslot (dgp s) + ucast slot;
         witness_pay = min (witness_pay_per_block (parameters s)) (witness_budget (dgp s)) in
     bind (safe_sub F (witness_budget (dgp s)) witness_pay) (\<lambda>budget.
     bind (deposit_witness_pay F i witness_pay (s\<lparr>dgp := (dgp s)\<lparr>witness_budget := budget\<rparr>\<rparr>)) (\<lambda>s1.
     modify_witness i (\<lambda>w. Inr (w\<lparr>last_aslot := new_block_aslot, last_confirmed_block_num := chain_block_num b\<rparr>)) s1)))"

section \<open>The last irreversible block\<close>

definition GRAPHENE_IRREVERSIBLE_THRESHOLD :: nat where "GRAPHENE_IRREVERSIBLE_THRESHOLD = 7000"

primrec get_witnesses :: "database \<Rightarrow> nat list \<Rightarrow> witness_object list result" where
  "get_witnesses s [] = Inr []"
| "get_witnesses s (i # is) = bind (index_get (witnesses s) i) (\<lambda>w. bind (get_witnesses s is) (\<lambda>ws. Inr (w # ws)))"

definition irreversible_offset :: "nat \<Rightarrow> nat" where
  "irreversible_offset n = (10000 - GRAPHENE_IRREVERSIBLE_THRESHOLD) * n div 10000"

definition confirmed_before :: "witness_object \<Rightarrow> witness_object \<Rightarrow> bool" where
  "confirmed_before a b \<longleftrightarrow> last_confirmed_block_num a < last_confirmed_block_num b"

definition update_last_irreversible_block :: "(u32 \<times> block_id) list \<Rightarrow> database \<Rightarrow> database result" where
  "update_last_irreversible_block checkpoints s =
     bind (get_witnesses s (active_witnesses s)) (\<lambda>wit_objs.
     bind (nth_element confirmed_before (irreversible_offset (length wit_objs)) wit_objs) (\<lambda>w.
     let head = head_block_number (dgp s);
         n1 = (if map_of checkpoints head \<noteq> None then head else last_confirmed_block_num w);
         n2 = (if head \<ge> 34560000 \<and> head \<le> 34700000 then head - 20 else n1) in
     Inr (if n2 > last_irreversible_block_num (dgp s) then s\<lparr>dgp := (dgp s)\<lparr>last_irreversible_block_num := n2\<rparr>\<rparr> else s)))"

section \<open>Block summaries and the maintenance flag\<close>

definition create_block_summary :: "block_lib \<Rightarrow> chain_block \<Rightarrow> chain_db \<Rightarrow> chain_db result" where
  "create_block_summary B b c =
     (let sid = unat (chain_block_num b AND 0xffff) in
      bind (the_object (block_summaries c sid)) (\<lambda>_.
      Inr (c\<lparr>block_summaries := (block_summaries c)(sid \<mapsto> id_prefix B (chain_block_id B b))\<rparr>)))"

definition update_maintenance_flag :: "bool \<Rightarrow> database \<Rightarrow> database" where
  "update_maintenance_flag new_flag s =
     s\<lparr>dgp := (dgp s)\<lparr>dynamic_flags := (dynamic_flags (dgp s) AND NOT maintenance_flag) OR (if new_flag then maintenance_flag else 0)\<rparr>\<rparr>"

section \<open>Properties of the pieces\<close>

lemma get_slot_witnesses [simp]: "get_slot_at_time (put_witnesses t s) = get_slot_at_time s" "get_scheduled_witness (put_witnesses t s) = get_scheduled_witness s"
  by (simp_all add: fun_eq_iff get_slot_at_time_def get_slot_time_def get_scheduled_witness_def interval_def head_block_time_def)

lemma miss_slots_frame:
  assumes "fold_result (miss_slot b) is s = Inr s'"
  shows "\<exists>t. s' = put_witnesses t s"
proof (rule fold_result_invariant [OF assms, where P = "\<lambda>u. \<exists>t. u = put_witnesses t s"])
  show "\<exists>t. s = put_witnesses t s" by (rule exI [of _ "witnesses s"]) simp
qed (auto simp: miss_slot_def table_modify_def ok_simps split: if_splits)

lemma miss_slots_conserve:
  assumes "fold_result (miss_slot b) is s = Inr s'" "chain_inv s"
  shows "conserves s s'"
proof (rule fold_result_invariant [OF assms(1), where P = "\<lambda>u. conserves s u"])
  show "conserves s s" using assms(2) by simp
next
  fix i u v assume u: "conserves s u" and v: "miss_slot b i u = Inr v"
  have "conserves u v"
  proof (cases "v = u")
    case False
    then obtain w where "modify_witness w (\<lambda>x. Inr (x\<lparr>total_missed := total_missed x + 1\<rparr>)) u = Inr v"
      using v by (auto simp: miss_slot_def ok_simps split: if_splits)
    then show ?thesis using witness_tab.modify_step [of u] u by (fastforce simp: conserves_def)
  qed (use u in \<open>simp add: conserves_def\<close>)
  then show "conserves s v" using conserves_trans u by blast
qed

lemma sort_by_confirmed: "sort_by confirmed_before ws = sort_key last_confirmed_block_num ws"
  using sort_by_sort_key [of ws confirmed_before last_confirmed_block_num] by (simp add: confirmed_before_def)

text \<open>At least the elements from a position on are as large as the one there.\<close>

lemma count_from_position:
  fixes f :: "'a \<Rightarrow> 'k :: linorder"
  assumes "k < length xs"
  shows "length xs - k \<le> length (filter (\<lambda>x. f (sort_key f xs ! k) \<le> f x) xs)"
proof -
  let ?ys = "sort_key f xs"
  let ?P = "\<lambda>x. f (?ys ! k) \<le> f x"
  have all: "\<forall>x \<in> set (drop k ?ys). ?P x"
  proof
    fix x assume "x \<in> set (drop k ?ys)"
    then obtain j where "j < length (drop k ?ys)" "x = drop k ?ys ! j" by (auto simp: in_set_conv_nth)
    then show "?P x" using sorted_nth_mono [of "map f ?ys" k "k + j"] by simp
  qed
  have "length xs - k = length (filter ?P (drop k ?ys))" by (simp add: filter_True [OF all])
  also have "\<dots> \<le> length (filter ?P (take k ?ys @ drop k ?ys))" by (simp del: append_take_drop_id)
  also have "\<dots> = size (filter_mset ?P (mset ?ys))" unfolding append_take_drop_id by (metis mset_filter size_mset)
  also have "\<dots> = length (filter ?P xs)" unfolding mset_sort by (metis mset_filter size_mset)
  finally show ?thesis .
qed

lemma get_witnesses_find:
  "get_witnesses s is = Inr ws \<Longrightarrow> length ws = length is \<and> (\<forall>j < length is. index_find (witnesses s) (is ! j) = Some (ws ! j))"
  by (induction "is" arbitrary: ws) (auto simp: ok_simps index_get_def nth_Cons split: nat.splits)

definition confirmed_by :: "database \<Rightarrow> u32 \<Rightarrow> nat \<Rightarrow> bool" where
  "confirmed_by s n i \<longleftrightarrow> (case index_find (witnesses s) i of None \<Rightarrow> False | Some w \<Rightarrow> n \<le> last_confirmed_block_num w)"

lemma confirmed_count:
  assumes "get_witnesses s is = Inr ws"
  shows "length (filter (confirmed_by s n) is) = length (filter (\<lambda>w. n \<le> last_confirmed_block_num w) ws)"
  using assms by (induction "is" arbitrary: ws) (auto simp: ok_simps index_get_def confirmed_by_def)

lemma pay_signing_witness:
  assumes F: "fc_laws F" and inv: "chain_inv s" and ok: "update_signing_witness F i b s = Inr s'"
  shows "chain_inv s'" "ledger a s' = ledger a s" "balances s' = balances s"
    "witness_budget (dgp s') = witness_budget (dgp s) - min (witness_pay_per_block (parameters s)) (witness_budget (dgp s))"
proof -
  let ?pay = "min (witness_pay_per_block (parameters s)) (witness_budget (dgp s))"
  obtain aslot s1 where s1: "deposit_witness_pay F i ?pay (s\<lparr>dgp := (dgp s)\<lparr>witness_budget := witness_budget (dgp s) - ?pay\<rparr>\<rparr>) = Inr s1"
    and s': "modify_witness i (\<lambda>w. Inr (w\<lparr>last_aslot := aslot, last_confirmed_block_num := chain_block_num b\<rparr>)) s1 = Inr s'"
    using ok by (auto simp: update_signing_witness_def Let_def ok_simps fc_laws.safe_Inr [OF F])
  note d = fc_laws.deposit_witness_pay_step [OF F _ s1]
  have d1: "chain_inv s1" "\<And>a. ledger a s1 = ledger a s" "balances s1 = balances s" "witness_budget (dgp s1) = witness_budget (dgp s) - ?pay"
    using d inv by (auto simp: ledger_dgp core_in_def paid_witness_def)
  show "chain_inv s'" "ledger a s' = ledger a s" "balances s' = balances s" "witness_budget (dgp s') = witness_budget (dgp s) - ?pay"
    using witness_tab.modify_step [OF d1(1) s'] d1 by auto
qed

lemma signing_witness_conserves:
  assumes "fc_laws F" "chain_inv s" "update_signing_witness F i b s = Inr s'"
  shows "conserves s s'"
  using pay_signing_witness [OF assms] by (simp add: conserves_def balances_nonneg_def)

section \<open>Properties\<close>

text \<open>
  C9. The last irreversible block never moves back, and outside checkpoints and the repaired range of blocks it moves only to a block
  that at least seventy percent of the active witnesses have confirmed.
\<close>

theorem irreversible_supermajority:
  assumes ok: "update_last_irreversible_block checkpoints s = Inr s'"
  shows "last_irreversible_block_num (dgp s) \<le> last_irreversible_block_num (dgp s') \<and>
    (map_of checkpoints (head_block_number (dgp s)) = None \<and> \<not> (34560000 \<le> head_block_number (dgp s) \<and> head_block_number (dgp s) \<le> 34700000) \<and>
     last_irreversible_block_num (dgp s') \<noteq> last_irreversible_block_num (dgp s) \<longrightarrow>
     7000 * length (active_witnesses s) \<le> 10000 * length (filter (confirmed_by s (last_irreversible_block_num (dgp s'))) (active_witnesses s)))"
proof -
  obtain ws w where ws: "get_witnesses s (active_witnesses s) = Inr ws"
    and w: "nth_element confirmed_before (irreversible_offset (length ws)) ws = Inr w"
    and s': "s' = (let head = head_block_number (dgp s);
         n1 = (if map_of checkpoints head \<noteq> None then head else last_confirmed_block_num w);
         n2 = (if head \<ge> 34560000 \<and> head \<le> 34700000 then head - 20 else n1) in
       if n2 > last_irreversible_block_num (dgp s) then s\<lparr>dgp := (dgp s)\<lparr>last_irreversible_block_num := n2\<rparr>\<rparr> else s)"
    using ok by (auto simp: update_last_irreversible_block_def ok_simps Let_def)
  let ?n = "length (active_witnesses s)"
  have len: "length ws = ?n" using get_witnesses_find [OF ws] by simp
  have o: "irreversible_offset ?n < ?n" "w = sort_key last_confirmed_block_num ws ! irreversible_offset ?n"
    using w by (auto simp: nth_element_def len sort_by_confirmed split: if_splits)
  have "?n - irreversible_offset ?n \<le> length (filter (confirmed_by s (last_confirmed_block_num w)) (active_witnesses s))"
    using count_from_position [of "irreversible_offset ?n" ws last_confirmed_block_num] o confirmed_count [OF ws] by (simp add: len)
  moreover have "7000 * ?n \<le> 10000 * (?n - irreversible_offset ?n)"
    by (simp add: irreversible_offset_def GRAPHENE_IRREVERSIBLE_THRESHOLD_def diff_mult_distrib2)
  ultimately have enough: "7000 * ?n \<le> 10000 * length (filter (confirmed_by s (last_confirmed_block_num w)) (active_witnesses s))"
    by linarith
  show ?thesis using s' enough by (auto simp: Let_def split: if_splits)
qed

definition demo_witness :: "nat \<Rightarrow> u32 \<Rightarrow> witness_object" where
  "demo_witness acct n = \<lparr> witness_account = acct, signing_key = 100 + acct, last_aslot = 0, pay_vb = None, wit_vote_id = of_nat acct * 256,
     wit_total_votes = 0, wit_url = [], total_missed = 0, last_confirmed_block_num = n \<rparr>"

definition demo_witnesses :: database where
  "demo_witnesses = demo_chain\<lparr>witnesses := \<lparr> next_id = 3, rows = [(0, demo_witness 5 9), (1, demo_witness 6 8), (2, demo_witness 7 4)] \<rparr>,
     active_witnesses := [0, 1, 2], current_shuffled_witnesses := [2, 0, 1]\<rparr>"

lemma demo_witnesses_inv: "chain_inv demo_witnesses"
  unfolding demo_witnesses_def chain_inv_globals
  by (rule witness_tab.inv_put [OF demo_chain_inv]) (simp_all add: index_inv_def sorted_rows_def rows_ok_def)

lemma irreversible_offset_code [code]: "irreversible_offset n = nat (3000 * int n div 10000)"
  by (simp add: irreversible_offset_def GRAPHENE_IRREVERSIBLE_THRESHOLD_def nat_div_distrib nat_mult_distrib)

lemma demo_irreversible: "case update_last_irreversible_block [] demo_witnesses of Inl e \<Rightarrow> False | Inr s' \<Rightarrow> last_irreversible_block_num (dgp s') = 4"
  by code_simp

theorem irreversible_supermajority_witness:
  "\<exists>s'. update_last_irreversible_block [] demo_witnesses = Inr s' \<and> last_irreversible_block_num (dgp s') = 4 \<and>
     7000 * 3 \<le> 10000 * length (filter (confirmed_by demo_witnesses 4) [0, 1, 2])"
proof -
  obtain s' where s': "update_last_irreversible_block [] demo_witnesses = Inr s'" "last_irreversible_block_num (dgp s') = 4"
    using demo_irreversible by (cases "update_last_irreversible_block [] demo_witnesses") auto
  have a: "active_witnesses demo_witnesses = [0, 1, 2]" "head_block_number (dgp demo_witnesses) = 9" "last_irreversible_block_num (dgp demo_witnesses) = 0"
    by (simp_all add: demo_witnesses_def demo_chain_def)
  from irreversible_supermajority [OF s'(1)] s' show ?thesis by (simp add: a)
qed

text \<open>
  The pay of the signing witness comes out of the witness budget and goes into a vesting balance: no core is made or lost, the budget
  falls by the pay per block or what is left of it, and never below zero.
\<close>

theorem signing_witness_paid:
  assumes F: "fc_laws F" and inv: "chain_inv s" and budget: "0 \<le> witness_budget (dgp s)"
    and ok: "update_signing_witness F i b s = Inr s'"
  shows "chain_inv s' \<and> (\<forall>a. ledger a s' = ledger a s) \<and> balances s' = balances s \<and>
    witness_budget (dgp s') = witness_budget (dgp s) - min (witness_pay_per_block (parameters s)) (witness_budget (dgp s)) \<and>
    0 \<le> witness_budget (dgp s')"
  using pay_signing_witness [OF F inv ok] budget by auto

definition demo_new_block :: chain_block where
  "demo_new_block = \<lparr> blk_previous = (9, 0), blk_timestamp = 1500000010, blk_witness = 1, blk_merkle_root = 0, blk_signature = 106,
     blk_transactions = [] \<rparr>"

lemma demo_witness_paid: "case update_signing_witness fc_int64 1 demo_new_block demo_witnesses of Inl e \<Rightarrow> False | Inr s' \<Rightarrow> True"
  by code_simp

theorem signing_witness_paid_witness:
  "\<exists>s'. update_signing_witness fc_int64 1 demo_new_block demo_witnesses = Inr s' \<and> witness_budget (dgp s') = 90 \<and> ledger 0 s' = ledger 0 demo_witnesses"
proof -
  obtain s' where ok: "update_signing_witness fc_int64 1 demo_new_block demo_witnesses = Inr s'"
    using demo_witness_paid by (cases "update_signing_witness fc_int64 1 demo_new_block demo_witnesses") auto
  have "0 \<le> witness_budget (dgp demo_witnesses)" by (simp add: demo_witnesses_def demo_chain_def)
  from signing_witness_paid [OF fc64.fc_laws_axioms demo_witnesses_inv this ok] show ?thesis
    using ok by (auto simp: demo_witnesses_def demo_chain_def)
qed

text \<open>
  C8. A block that passes the header check with nothing skipped was made by the witness of its slot with the key of that witness, after
  the head block in time and in its chain; applying it moves the absolute slot to this slot, so that the schedule names the producer
  of the head block, and marks the slot as filled and the slots in between as missed.
\<close>

theorem accepted_block_fills_slot:
  assumes hdr: "validate_block_header B 0 b s = Inr w"
    and upd: "update_global_dynamic_data B skip checkpoints max_undo b s = Inr (s', depth)"
  shows "\<exists>slot. 0 < slot \<and> get_slot_at_time s (blk_timestamp b) False = Inr slot \<and> get_scheduled_witness s slot = Inr (blk_witness b) \<and>
    block_signee B b = Inr (signing_key w) \<and> index_find (witnesses s) (blk_witness b) = Some w \<and>
    head_block_time s < head_block_time s' \<and> head_block_number (dgp s') = num_from_id (head_block_id (dgp s)) + 1 \<and>
    current_aslot (dgp s') = current_aslot (dgp s) + ucast slot \<and> get_scheduled_witness s' 0 = Inr (blk_witness b) \<and>
    (slot \<le> 128 \<longrightarrow> bit (recent_slots_filled (dgp s')) (unat slot - 1)) \<and>
    (\<forall>j < unat slot - 1. \<not> bit (recent_slots_filled (dgp s')) j)"
proof -
  have skip0: "\<not> skips 0 x" for x by (simp add: skips_def)
  obtain slot where slot: "0 < slot" "get_slot_at_time s (blk_timestamp b) False = Inr slot" "get_scheduled_witness s slot = Inr (blk_witness b)"
    and h: "head_block_id (dgp s) = blk_previous b" "head_block_time s < blk_timestamp b" "block_signee B b = Inr (signing_key w)"
      "index_find (witnesses s) (blk_witness b) = Some w"
    using hdr by (auto simp: validate_block_header_def validate_signee_def skip0 ok_simps index_get_def)
  obtain slots :: u32 and s1 slot' where s1: "fold_result (miss_slot b) [0..<unat (slots - 1)] s = Inr s1"
    and slot': "get_slot_at_time s1 (blk_timestamp b) False = Inr slot'"
    and s': "s' = s1\<lparr>dgp := advance_dgp B checkpoints b (slot' - 1) (dgp s1)\<rparr>"
    using upd unfolding update_global_dynamic_data_def bind_eq_Inr Let_def sum.inject prod.inject by blast
  obtain t where t: "s1 = put_witnesses t s" using miss_slots_frame [OF s1] by blast
  have eq: "slot' = slot" using slot' slot(2) t by simp
  have n: "unat (slot - 1) = unat slot - 1" using slot(1) by (simp add: unat_minus_one word_gt_0)
  have g: "dgp s' = advance_dgp B checkpoints b (slot - 1) (dgp s)" "current_shuffled_witnesses s' = current_shuffled_witnesses s"
    using s' t eq by simp_all
  have a: "current_aslot (dgp s') = current_aslot (dgp s) + ucast slot" by (simp add: g advance_dgp_def)
  have f: "recent_slots_filled (dgp s') = push_bit (unat slot - 1) (push_bit 1 (recent_slots_filled (dgp s)) + 1)"
    by (simp add: g advance_dgp_def n)
  have odd: "bit (push_bit 1 x + 1 :: u128) 0" for x by (simp add: bit_0)
  have "bit (recent_slots_filled (dgp s')) (unat slot - 1)" if "slot \<le> 128"
  proof -
    have "unat slot - 1 < 128" using that slot(1) by (simp add: word_le_nat_alt word_less_nat_alt)
    then show ?thesis using odd [of "recent_slots_filled (dgp s)"] by (simp add: f bit_push_bit_iff)
  qed
  moreover have "\<forall>j < unat slot - 1. \<not> bit (recent_slots_filled (dgp s')) j" by (simp add: f bit_push_bit_iff)
  moreover have "get_scheduled_witness s' 0 = Inr (blk_witness b)"
    using slot(3) a g(2) by (simp add: get_scheduled_witness_def Let_def)
  ultimately show ?thesis using slot h a by (auto simp: g advance_dgp_def head_block_time_def chain_block_num_def)
qed

definition demo_block_lib :: block_lib where
  "demo_block_lib = \<lparr> block_digest = (\<lambda>b. blk_witness b + 7), block_signee = (\<lambda>b. Inr (blk_signature b)), merkle_digest = (\<lambda>tx. 1),
     hash_pair = (\<lambda>x y. 2 * x + y), hash_checksum = (\<lambda>x. x + 1), id_prefix = (\<lambda>i. of_nat (snd i)) \<rparr>"

lemma demo_block_runs:
  "case validate_block_header demo_block_lib 0 demo_new_block demo_witnesses of Inl e \<Rightarrow> False | Inr w \<Rightarrow>
     (case update_global_dynamic_data demo_block_lib 0 [] 10000 demo_new_block demo_witnesses of Inl e \<Rightarrow> False | Inr r \<Rightarrow> True)"
  by code_simp

theorem accepted_block_fills_slot_witness:
  "\<exists>s' depth slot. update_global_dynamic_data demo_block_lib 0 [] 10000 demo_new_block demo_witnesses = Inr (s', depth) \<and> 0 < slot \<and>
     get_scheduled_witness demo_witnesses slot = Inr 1 \<and> get_scheduled_witness s' 0 = Inr 1"
proof -
  obtain w s' d where h: "validate_block_header demo_block_lib 0 demo_new_block demo_witnesses = Inr w"
    and u: "update_global_dynamic_data demo_block_lib 0 [] 10000 demo_new_block demo_witnesses = Inr (s', d)"
    using demo_block_runs by (auto split: sum.splits)
  from accepted_block_fills_slot [OF h u] u show ?thesis by (auto simp: demo_new_block_def)
qed

end
