(* ===== verification/Expiry.thy ===== *)
theory Expiry
  imports Operations
begin

text \<open>
  What expires at the end of a block (db_update.cpp): limit orders, which are cancelled with a capped fee, force settlements, which are
  executed against the least collateralized positions up to the volume of the day, price feeds and withdraw permissions.

  A \<^verbatim>\<open>while\<close> loop over an index is a loop with fuel; its fuel is the number of entries it can remove, and the theorems show that it ends
  before the fuel does.
\<close>

section \<open>Expired limit orders\<close>

definition limit_expires_before :: "nat \<times> limit_order_object \<Rightarrow> nat \<times> limit_order_object \<Rightarrow> bool" where
  "limit_expires_before x y \<longleftrightarrow> lo_expiration (snd x) < lo_expiration (snd y) \<or>
     lo_expiration (snd x) = lo_expiration (snd y) \<and> fst x < fst y"

definition limits_by_expiration :: "database \<Rightarrow> (nat \<times> limit_order_object) list" where
  "limits_by_expiration s = sort_by limit_expires_before (rows (limit_orders s))"

definition cancel_context :: transaction_evaluation_state where
  "cancel_context = fresh_evaluation_state\<lparr>skip_fee_schedule_check := True\<rparr>"

definition expiry_canceler :: "(operation \<Rightarrow> database \<Rightarrow> share_type) \<Rightarrow> nat \<Rightarrow> limit_order_object \<Rightarrow> database \<Rightarrow> limit_order_cancel_operation" where
  "expiry_canceler fees i x s =
     (let canceler = \<lparr> lx_fee = mk_asset 0 0, lx_order = i, lx_fee_paying_account = seller x \<rparr>;
          fee = fees (Limit_Order_Cancel canceler) s
      in canceler\<lparr>lx_fee := mk_asset (if fee > deferred_fee x then deferred_fee x else fee) 0\<rparr>)"

definition expire_limit_step ::
  "fc_lib \<Rightarrow> (operation \<Rightarrow> database \<Rightarrow> share_type) \<Rightarrow> database \<Rightarrow> (database, database) loop_step result" where
  "expire_limit_step F fees s =
     (case limits_by_expiration s of
        [] \<Rightarrow> Inr (Finish s)
      | x # _ \<Rightarrow>
          if lo_expiration (snd x) \<le> head_block_time s then
            bind (apply_operation F fees cancel_context (Limit_Order_Cancel (expiry_canceler fees (fst x) (snd x) s)) s) (\<lambda>(s', r).
            Inr (Continue s'))
          else Inr (Finish s))"

definition clear_expired_limit_orders :: "fc_lib \<Rightarrow> (operation \<Rightarrow> database \<Rightarrow> share_type) \<Rightarrow> database \<Rightarrow> database result" where
  "clear_expired_limit_orders F fees s = run_loop (Suc (book_size s)) (expire_limit_step F fees) s"

section \<open>Force settlements\<close>

definition collateral_lower_bound :: "price \<Rightarrow> database \<Rightarrow> (nat \<times> call_order_object) list" where
  "collateral_lower_bound p s = dropWhile (\<lambda>x. price_lt (collateral_price (snd x)) p) (calls_by_collateral s)"

text \<open>The loop over the least collateralized positions, over the volume settled so far and the database.\<close>

definition try_match ::
  "fc_lib \<Rightarrow> nat \<Rightarrow> nat \<Rightarrow> price \<Rightarrow> asset \<Rightarrow> asset \<Rightarrow> database \<Rightarrow> (asset \<times> database, asset \<times> database) loop_step result" where
  "try_match F call order_id p max_settlement settled s =
     (case match_settlement F call order_id p max_settlement s of
        Inr (s', r) \<Rightarrow> bind (asset_add F settled r) (\<lambda>settled'. Inr (Continue (settled', s')))
      | Inl e \<Rightarrow> if e = Black_Swan_Exception then bind (cancel_settlement F order_id s) (\<lambda>s'. Inr (Finish (settled, s'))) else Inl e)"

definition settle_step ::
  "fc_lib \<Rightarrow> nat \<Rightarrow> nat \<Rightarrow> price \<Rightarrow> asset \<Rightarrow> asset \<times> database \<Rightarrow> (asset \<times> database, asset \<times> database) loop_step result" where
  "settle_step F mia_id order_id p max_settlement_volume st =
     (case st of (settled, s) \<Rightarrow>
     bind (asset_lt settled max_settlement_volume) (\<lambda>more.
     case index_find (settlements s) order_id of
       None \<Rightarrow> Inr (Finish (settled, s))
     | Some order \<Rightarrow>
         if \<not> more then Inr (Finish (settled, s))
         else
           bind (index_get (assets s) mia_id) (\<lambda>mia.
           bind (get_bitasset s mia) (\<lambda>(b, bitasset).
           bind (price_min (short_backing_asset (bit_options bitasset)) mia_id) (\<lambda>lowest.
           bind (asset_sub F max_settlement_volume settled) (\<lambda>max_settlement.
           if amount (fs_balance order) = 0 then bind (cancel_settlement F order_id s) (\<lambda>s'. Inr (Finish (settled, s')))
           else
             bind (the_object (iter (collateral_lower_bound lowest s))) (\<lambda>call.
             try_match F call order_id p max_settlement settled s)))))))"

text \<open>The price of a settlement: what the feed gives for the balance, less the offset of the asset.\<close>

definition settlement_receives :: "fc_lib \<Rightarrow> asset \<Rightarrow> asset_bitasset_data_object \<Rightarrow> asset result" where
  "settlement_receives F bal_asset bitasset =
     bind (asset_mul bal_asset (settlement_price (current_feed bitasset))) (\<lambda>r.
     bind (to_share F (u128_muldiv (amount r)
        (GRAPHENE_100_PERCENT - uint (force_settlement_offset_percent (bit_options bitasset))) GRAPHENE_100_PERCENT)) (\<lambda>v.
     Inr (mk_asset v (asset_id r))))"

definition settlement_lower_bound :: "nat \<Rightarrow> database \<Rightarrow> (nat \<times> force_settlement_object) list" where
  "settlement_lower_bound a s = dropWhile (\<lambda>x. asset_id (fs_balance (snd x)) < a) (settlements_by_expiration s)"

text \<open>\<^verbatim>\<open>next_asset\<close>: the asset of the first settlement after those of the current asset.\<close>

definition next_settlement_asset :: "nat \<Rightarrow> database \<Rightarrow> nat option" where
  "next_settlement_asset a s =
     (case dropWhile (\<lambda>x. asset_id (fs_balance (snd x)) \<le> a) (settlements_by_expiration s) of
        [] \<Rightarrow> None | x # _ \<Rightarrow> Some (asset_id (fs_balance (snd x))))"

definition go_to_next_asset :: "nat \<Rightarrow> asset \<Rightarrow> database \<Rightarrow> (nat \<times> asset \<times> database, database) loop_step" where
  "go_to_next_asset a vol s = (case next_settlement_asset a s of None \<Rightarrow> Finish s | Some a' \<Rightarrow> Continue (a', vol, s))"

definition execute_settlement ::
  "fc_lib \<Rightarrow> nat \<Rightarrow> nat \<Rightarrow> force_settlement_object \<Rightarrow> nat \<Rightarrow> asset_bitasset_data_object \<Rightarrow> asset \<Rightarrow> database \<Rightarrow> database result" where
  "execute_settlement F mia_id order_id order b bitasset vol s =
     bind (settlement_receives F (fs_balance order) bitasset) (\<lambda>receives.
     bind (asset_div (fs_balance order) receives) (\<lambda>p.
     bind (run_loop (Suc (Suc (length (rows (call_orders s))))) (settle_step F mia_id order_id p vol)
        (mk_asset (force_settled_volume bitasset) mia_id, s)) (\<lambda>(settled, s1).
     if force_settled_volume bitasset \<noteq> amount settled
     then modify_bitasset b (\<lambda>x. Inr (x\<lparr>force_settled_volume := amount settled\<rparr>)) s1 else Inr s1)))"

definition settlement_step ::
  "fc_lib \<Rightarrow> nat \<times> asset \<times> database \<Rightarrow> (nat \<times> asset \<times> database, database) loop_step result" where
  "settlement_step F st =
     (case st of (current_asset, vol, s) \<Rightarrow>
     case settlement_lower_bound current_asset s of
       [] \<Rightarrow> Inr (Finish s)
     | (order_id, order) # _ \<Rightarrow>
         let a = asset_id (fs_balance order) in
         bind (index_get (assets s) a) (\<lambda>mia.
         bind (get_bitasset s mia) (\<lambda>(b, bitasset).
         if has_settlement bitasset then bind (cancel_settlement F order_id s) (\<lambda>s'. Inr (Continue (a, vol, s')))
         else if settlement_date order > head_block_time s then Inr (go_to_next_asset a vol s)
         else if price_is_null (settlement_price (current_feed bitasset)) then bind (cancel_settlement F order_id s) (\<lambda>s'. Inr (Continue (a, vol, s')))
         else
           bind (if asset_id vol \<noteq> a
                 then bind (index_get (asset_dyn s) (dynamic_asset_data_id mia)) (\<lambda>dyn.
                      bind (max_force_settlement_volume F bitasset (current_supply dyn)) (\<lambda>v. Inr (mk_asset v a)))
                 else Inr vol) (\<lambda>vol'.
           if force_settled_volume bitasset \<ge> amount vol' then Inr (go_to_next_asset a vol' s)
           else bind (execute_settlement F a order_id order b bitasset vol' s) (\<lambda>s'. Inr (Continue (a, vol', s')))))))"

definition process_force_settlements :: "fc_lib \<Rightarrow> database \<Rightarrow> database result" where
  "process_force_settlements F s =
     (case settlements_by_expiration s of
        [] \<Rightarrow> Inr s
      | x # _ \<Rightarrow> run_loop (6 * Suc (length (rows (settlements s)))) (settlement_step F) (asset_id (fs_balance (snd x)), mk_asset 0 0, s))"

definition clear_expired_orders :: "fc_lib \<Rightarrow> (operation \<Rightarrow> database \<Rightarrow> share_type) \<Rightarrow> database \<Rightarrow> database result" where
  "clear_expired_orders F fees s = bind (clear_expired_limit_orders F fees s) (process_force_settlements F)"

section \<open>Expired feeds\<close>

definition HARDFORK_615_TIME :: time_point_sec where "HARDFORK_615_TIME = 1458752400"

definition feed_expired :: "database \<Rightarrow> asset_bitasset_data_object \<Rightarrow> bool" where
  "feed_expired s b =
     (if head_block_time s < HARDFORK_615_TIME then feed_is_expired_before_hardfork_615 b (head_block_time s)
      else feed_is_expired b (head_block_time s))"

definition copy_exchange_rate :: "nat \<Rightarrow> nat \<Rightarrow> database \<Rightarrow> database result" where
  "copy_exchange_rate i b s =
     bind (index_get (assets s) i) (\<lambda>a.
     bind (index_get (bitassets s) b) (\<lambda>bt.
     let cer = core_exchange_rate (current_feed bt) in
     if \<not> price_is_null cer \<and> \<not> price_eq (opt_core_exchange_rate (options a)) cer
     then modify_asset i (\<lambda>x. Inr (x\<lparr>options := (options x)\<lparr>opt_core_exchange_rate := cer\<rparr>\<rparr>)) s else Inr s))"

definition update_expired_feed :: "fc_lib \<Rightarrow> nat \<Rightarrow> database \<Rightarrow> database result" where
  "update_expired_feed F i s =
     bind (index_get (assets s) i) (\<lambda>a.
     bind (get_bitasset s a) (\<lambda>(b, bt).
     bind (if feed_expired s bt then
             bind (modify_bitasset b (update_median_feeds (head_block_time s)) s) (\<lambda>s1.
             bind (index_get (bitassets s1) b) (\<lambda>bt1.
             bind (check_call_orders F (asset_id (base (settlement_price (current_feed bt1)))) True s1) (\<lambda>(s2, c). Inr s2)))
           else Inr s) (\<lambda>s2.
     copy_exchange_rate i b s2)))"

definition update_expired_feeds :: "fc_lib \<Rightarrow> database \<Rightarrow> database result" where
  "update_expired_feeds F s =
     fold_result (update_expired_feed F) (map fst (filter (\<lambda>(i, a). is_market_issued a) (rows (assets s)))) s"

section \<open>Expired withdraw permissions\<close>

definition permit_expires_before :: "nat \<times> withdraw_permission_object \<Rightarrow> nat \<times> withdraw_permission_object \<Rightarrow> bool" where
  "permit_expires_before x y \<longleftrightarrow> wp_expiration (snd x) < wp_expiration (snd y) \<or>
     wp_expiration (snd x) = wp_expiration (snd y) \<and> fst x < fst y"

definition permit_step :: "database \<Rightarrow> (database, database) loop_step result" where
  "permit_step s =
     (case sort_by permit_expires_before (rows (withdraw_permissions s)) of
        [] \<Rightarrow> Inr (Finish s)
      | x # _ \<Rightarrow>
          if wp_expiration (snd x) \<le> head_block_time s then
            bind (table_remove withdraw_permissions put_withdraw_permissions (fst x) s) (\<lambda>s'. Inr (Continue s'))
          else Inr (Finish s))"

definition update_withdraw_permissions :: "database \<Rightarrow> database result" where
  "update_withdraw_permissions s = run_loop (Suc (length (rows (withdraw_permissions s)))) permit_step s"

section \<open>Expired limit orders leave the book\<close>

definition limit_expiry_key :: "nat \<times> limit_order_object \<Rightarrow> time_point_sec \<times> nat" where
  "limit_expiry_key x = (lo_expiration (snd x), fst x)"

lemma limits_by_expiration_sorted: "limits_by_expiration s = sort_key limit_expiry_key (rows (limit_orders s))"
  unfolding limits_by_expiration_def
  by (rule sort_by_sort_key) (auto simp: limit_expires_before_def limit_expiry_key_def less_prod_def)

text \<open>The first order of the index expires first.\<close>

lemma first_expires_first:
  assumes "limits_by_expiration s = x # xs" "y \<in> set (rows (limit_orders s))"
  shows "lo_expiration (snd x) \<le> lo_expiration (snd y)"
proof -
  have "sorted (map limit_expiry_key (x # xs))" using sorted_sort_key [of limit_expiry_key "rows (limit_orders s)"]
    unfolding assms(1) [unfolded limits_by_expiration_sorted] .
  moreover have "y \<in> set (x # xs)" using assms(2) set_sort_by [of limit_expires_before "rows (limit_orders s)"]
    unfolding limits_by_expiration_def [symmetric] assms(1) by simp
  ultimately show ?thesis by (auto simp: limit_expiry_key_def less_eq_prod_def)
qed

context fc_laws
begin

lemma cancel_do_apply_shrinks:
  assumes inv: "chain_inv s" and ok: "limit_order_cancel_do_apply F op e fs s = Inr (s', r)"
  shows "book_size s' < book_size s"
proof -
  obtain m1 m2 s1 s2 c2 c3 where s1: "cancel_limit_order F (lx_order op) s = Inr s1"
    and s2: "check_call_orders F m1 True s1 = Inr (s2, c2)" and s3: "check_call_orders F m2 True s2 = Inr (s', c3)"
    using ok by (auto simp: limit_order_cancel_do_apply_def ok_simps)
  note 1 = cancel_limit_shifts [OF inv s1]
  note 2 = check_call_orders_shifts [OF shifts_inv [OF 1(1)] s2]
  show ?thesis using 1(2,3) 2(2) check_call_orders_shifts(2) [OF shifts_inv [OF 2(1)] s3] by (simp add: book_size_def only_limit_def)
qed

lemma cancel_operation_shifts:
  assumes inv: "chain_inv s" and ok: "apply_operation F fees cancel_context (Limit_Order_Cancel op) s = Inr (s', r)"
  shows "shifts (\<lambda>a. 0) s s'" "book_size s' < book_size s"
proof -
  let ?ev = limit_order_cancel_evaluator
  have run: "run_evaluator F cancel_context (fees (Limit_Order_Cancel op) s) ?ev Asset_Result op s = Inr (s', r)"
    using ok by (simp add: apply_operation_def)
  have c: "conserves s s'"
    using limit_cancel_ev.run_evaluator_conserves [OF run fc_laws_axioms inv] by (simp add: cancel_context_def fresh_evaluation_state_def)
  obtain x where "start_evaluate F ?ev (skip_fee cancel_context) (skip_fee_schedule_check cancel_context)
      (fees (Limit_Order_Cancel op) s) op s = Inr (s', x)" using run_evaluator_Inr [OF run] by blast
  then obtain fs e s1 s2 s3 d where pf: "prepare_fee (fee_payer ?ev op) (op_fee ?ev op) s = Inr fs"
    and s1: "convert_fee F False fs s = Inr s1" and s2: "pay_fee F False fs s1 = Inr s2"
    and s3: "limit_order_cancel_do_apply F op e fs s2 = Inr (s3, x)" and s4: "adjust_balance F (fee_payer ?ev op) d s3 = Inr s'"
    by (auto simp: start_evaluate_def evaluate_def apply_op_def ok_simps limit_order_cancel_evaluator_def default_pay_fee_def
        limit_order_cancel_do_evaluate_def cancel_context_def fresh_evaluation_state_def)
  note 1 = convert_fee_step [OF inv conjunct1 [OF prepare_fee_ready [OF pf]] s1]
  note 2 = pay_fee_step [OF conjunct1 [OF conjunct2 [OF 1]] s2]
  have inv2: "chain_inv s2" using 2 by blast
  have same: "fee_frame s s2" using 1 2 fee_frame_put fee_frame_trans by blast
  note 3 = limit_order_cancel_shifts [OF inv2 s3] cancel_do_apply_shrinks [OF inv2 s3]
  note 4 = adjust_shifts [OF shifts_inv [OF 3(1)] s4]
  show "shifts (\<lambda>a. 0) s s'" using c fee_frame_same [OF same] 3(1) 4(1) by (simp add: shifts_def conserves_def)
  show "book_size s' < book_size s" using fee_frame_same [OF same] 3(2) 4(2) by (simp add: book_size_def same_book_def)
qed

lemma expire_limit_step_shifts:
  assumes inv: "chain_inv s" and ok: "expire_limit_step F fees s = Inr (Continue s')"
  shows "shifts (\<lambda>a. 0) s s' \<and> book_size s' < book_size s"
  using ok cancel_operation_shifts [OF inv]
  by (auto simp: expire_limit_step_def ok_simps split: list.splits if_splits)

end

sublocale fc_laws \<subseteq> expire_lp: shrinking_loop "expire_limit_step F fees" chain_inv book_size for fees
  by unfold_locales (use expire_limit_step_shifts shifts_inv in blast)

context fc_laws
begin

lemma expired_limits_end: "chain_inv s \<Longrightarrow> loop_result (expire_limit_step F fees) s (clear_expired_limit_orders F fees s)"
  unfolding clear_expired_limit_orders_def by (rule expire_lp.run_loop_result) simp_all

lemma clear_expired_limits:
  assumes inv: "chain_inv s" and ok: "clear_expired_limit_orders F fees s = Inr s'"
  shows "shifts (\<lambda>a. 0) s s' \<and> (\<forall>x \<in> set (rows (limit_orders s')). head_block_time s' < lo_expiration (snd x))"
proof (rule run_loop_invariant [OF ok [unfolded clear_expired_limit_orders_def], where I = "\<lambda>u. shifts (\<lambda>a. 0) s u"])
  fix u v assume 1: "shifts (\<lambda>a. 0) s u" and "expire_limit_step F fees u = Inr (Continue v)"
  from expire_limit_step_shifts [OF shifts_inv [OF 1] this(2)]
  show "shifts (\<lambda>a. 0) s v" using shifts_trans [OF 1] by fastforce
next
  fix u v assume 1: "shifts (\<lambda>a. 0) s u" and f: "expire_limit_step F fees u = Inr (Finish v)"
  have v: "v = u" using f by (auto simp: expire_limit_step_def ok_simps split: list.splits if_splits)
  have "head_block_time u < lo_expiration (snd x)" if x: "x \<in> set (rows (limit_orders u))" for x
  proof (cases "limits_by_expiration u")
    case Nil
    then have "set (rows (limit_orders u)) = {}" using set_sort_by [of limit_expires_before "rows (limit_orders u)"]
      by (simp add: limits_by_expiration_def del: set_sort_by)
    then show ?thesis using x by simp
  next
    case (Cons y ys)
    then show ?thesis using f first_expires_first [OF Cons x] by (auto simp: expire_limit_step_def ok_simps split: if_splits)
  qed
  then show "shifts (\<lambda>a. 0) s v \<and> (\<forall>x \<in> set (rows (limit_orders v)). head_block_time v < lo_expiration (snd x))" using v 1 by blast
qed (use inv in simp)

end

section \<open>Force settlements end\<close>

lemma length_filter_mono: "(\<And>x. x \<in> set xs \<Longrightarrow> P x \<Longrightarrow> Q x) \<Longrightarrow> length (filter P xs) \<le> length (filter Q xs)"
  by (induction xs) (auto simp: le_Suc_eq)

lemma length_filter_strict:
  assumes "x \<in> set xs" "Q x" "\<not> P x" "\<And>x. x \<in> set xs \<Longrightarrow> P x \<Longrightarrow> Q x"
  shows "length (filter P xs) < length (filter Q xs)"
  using assms
proof (induction xs)
  case (Cons y ys)
  then show ?case using length_filter_mono [of ys P Q] by (cases "x = y") auto
qed simp

definition pending_after :: "nat \<Rightarrow> database \<Rightarrow> nat" where
  "pending_after a s = length (filter (\<lambda>x. a < asset_id (fs_balance (snd x))) (rows (settlements s)))"

text \<open>What filling or cancelling the settlement \<open>i\<close> does to the settlements: others stay, none moves to another asset.\<close>

definition settles :: "nat \<Rightarrow> database \<Rightarrow> database \<Rightarrow> bool" where
  "settles i s s' \<longleftrightarrow> bitassets s' = bitassets s \<and> (\<forall>a. pending_after a s' \<le> pending_after a s) \<and>
     length (rows (settlements s')) \<le> length (rows (settlements s)) \<and>
     (index_find (settlements s) i \<noteq> None \<and> index_find (settlements s') i = None \<longrightarrow> length (rows (settlements s')) < length (rows (settlements s)))"

lemma settles_same: "bitassets s' = bitassets s \<Longrightarrow> settlements s' = settlements s \<Longrightarrow> settles i s s'"
  by (auto simp: settles_def pending_after_def)

lemma settles_trans: "settles i s t \<Longrightarrow> settles i t u \<Longrightarrow> settles i s u"
proof -
  assume 1: "settles i s t" and 2: "settles i t u"
  have "pending_after a u \<le> pending_after a s" for a
    using order_trans [of "pending_after a u" "pending_after a t" "pending_after a s"] 1 2 unfolding settles_def by blast
  moreover have "length (rows (settlements u)) < length (rows (settlements s))"
    if "index_find (settlements s) i \<noteq> None" "index_find (settlements u) i = None"
    using that 1 2 unfolding settles_def by (cases "index_find (settlements t) i = None") auto
  ultimately show "settles i s u" using 1 2 unfolding settles_def by auto
qed

lemma filter_row_put_same:
  "(\<And>v. (k, v) \<in> set rs \<Longrightarrow> P (k, v) = P (k, x)) \<Longrightarrow> length (filter P (row_put k x rs)) = length (filter P rs)"
proof (induction rs)
  case (Cons r rs)
  then have "length (filter P (row_put k x rs)) = length (filter P rs)" by simp
  then show ?case using Cons.prems [of "snd r"] by (cases r) (auto simp: row_put_def)
qed (simp add: row_put_def)

lemma length_filter_sub: "length (filter P (filter Q xs)) \<le> length (filter P xs)"
  by (induction xs) auto

lemma table_remove_settles:
  assumes "table_remove settlements put_settlements i s = Inr s'"
  shows "settles i s s'" "index_find (settlements s') i = None" "length (rows (settlements s')) < length (rows (settlements s))"
proof -
  obtain x where x: "index_find (settlements s) i = Some x"
    and s': "rows (settlements s') = row_delete i (rows (settlements s))" "bitassets s' = bitassets s"
    using assms by (auto simp: table_remove_def ok_simps index_remove_Inr)
  show f: "index_find (settlements s') i = None" by (simp add: index_find_def s' map_of_row_delete)
  show l: "length (rows (settlements s')) < length (rows (settlements s))"
    unfolding s' using index_find_Some_key [OF x] by (rule length_row_delete(2))
  show "settles i s s'" using l
    by (auto simp: settles_def s' pending_after_def row_delete_def length_filter_sub simp del: filter_filter)
qed

lemma reduce_settlement_settles:
  assumes "chain_inv s" "index_find (settlements s) i = Some x" "asset_id pays = asset_id (fs_balance x)"
    and "modify_settlement i (\<lambda>y. bind (asset_sub F (fs_balance y) pays) (\<lambda>b. Inr (y\<lparr>fs_balance := b\<rparr>))) s = Inr s'"
    and "fc_laws F"
  shows "settles i s s'"
proof -
  obtain y where r: "rows (settlements s') = row_put i y (rows (settlements s))" "bitassets s' = bitassets s"
    and y: "asset_id (fs_balance y) = asset_id (fs_balance x)"
    using assms by (auto simp: table_modify_def ok_simps index_modify_Inr fc_laws.asset_sub_Inr)
  have u: "v = x" if "(i, v) \<in> set (rows (settlements s))" for v
  proof -
    have "index_inv (settlements s)" using assms(1) unfolding chain_inv_def by blast
    then have "map_of (rows (settlements s)) i = Some v" using that by (simp add: index_inv_distinct)
    then show ?thesis using assms(2) by (simp add: index_find_def)
  qed
  have "pending_after a s' = pending_after a s" for a
    unfolding pending_after_def r by (rule filter_row_put_same) (auto simp: y dest: u)
  then show ?thesis by (auto simp: settles_def r index_find_def map_of_row_put)
qed

context fc_laws
begin

lemma cancel_settlement_settles:
  assumes inv: "chain_inv s" and ok: "cancel_settlement F i s = Inr s'"
  shows "settles i s s'" "index_find (settlements s') i = None" "length (rows (settlements s')) < length (rows (settlements s))"
    "bitassets s' = bitassets s" "call_orders s' = call_orders s"
proof -
  obtain j x s1 where s1: "adjust_balance F j x s = Inr s1" and s2: "table_remove settlements put_settlements i s1 = Inr s'"
    using ok by (auto simp: cancel_settlement_def ok_simps)
  have b: "settlements s1 = settlements s" "bitassets s1 = bitassets s" "call_orders s1 = call_orders s"
    using adjust_shifts(2) [OF inv s1] by (simp_all add: same_book_def)
  note 2 = table_remove_settles [OF s2]
  show "settles i s s'" using settles_trans [OF settles_same 2(1)] b by simp
  show "index_find (settlements s') i = None" "length (rows (settlements s')) < length (rows (settlements s))" using 2 b by simp_all
  show "bitassets s' = bitassets s" using 2(1) b by (simp add: settles_def)
  show "call_orders s' = call_orders s" using s2 b by (auto simp: table_remove_def ok_simps)
qed

lemma fill_settlement_settles:
  assumes inv: "chain_inv s" and ok: "fill_settlement F i pays receives s = Inr (s', filled)"
    and x: "index_find (settlements s) i = Some x" and range: "0 \<le> amount receives" "amount receives < 2 ^ 63"
  shows "settles i s s'" "amount (fs_balance x) \<le> amount pays \<Longrightarrow> index_find (settlements s') i = None" "call_orders s' = call_orders s"
proof -
  let ?partly = "amount pays < amount (fs_balance x)"
  obtain s1 fees s2 net s3 where id: "asset_id pays = asset_id (fs_balance x)"
    and s1: "pay_market_fees F receives (fs_owner x) s = Inr (s1, fees)"
    and s2: "(if ?partly then modify_settlement i (\<lambda>y. bind (asset_sub F (fs_balance y) pays) (\<lambda>b. Inr (y\<lparr>fs_balance := b\<rparr>))) s1
           else Inr s1) = Inr s2"
    and n: "asset_sub F receives fees = Inr net" and s3: "adjust_balance F (fs_owner x) net s2 = Inr s3"
    and rest: "(if ?partly then Inr (s3, False)
       else bind (table_remove settlements put_settlements i s3) (\<lambda>s4. Inr (s4, True))) = Inr (s', filled)"
    using ok x unfolding fill_settlement_def bind_eq_Inr asset_lt_Inr index_get_def by (auto simp: ok_simps)
  note 1 = pay_market_fees_shifts [OF inv s1 range]
  have inv1: "chain_inv s1" using shifts_inv [OF 1(1)] .
  have x1: "index_find (settlements s1) i = Some x" using x 1(2) by (simp add: same_book_def)
  have 2: "chain_inv s2 \<and> settles i s1 s2 \<and> call_orders s2 = call_orders s1"
  proof (cases ?partly)
    case True
    then have m: "modify_settlement i (\<lambda>y. bind (asset_sub F (fs_balance y) pays) (\<lambda>b. Inr (y\<lparr>fs_balance := b\<rparr>))) s1 = Inr s2" using s2 by simp
    show ?thesis using reduce_settlement_settles [OF inv1 x1 id m fc_laws_axioms] shifts_inv [OF reduce_settlement_shifts [OF inv1 x1 id m]] m
      by (auto simp: table_modify_def ok_simps)
  qed (use s2 inv1 in \<open>auto intro: settles_same\<close>)
  note 3 = adjust_shifts(2) [OF conjunct1 [OF 2] s3]
  have 4: "settles i s s3" "call_orders s3 = call_orders s"
    using settles_trans [OF settles_same settles_trans [OF conjunct1 [OF conjunct2 [OF 2]] settles_same]] 1(2) 2 3
    by (simp_all add: same_book_def)
  have 5: "settles i s3 s' \<and> call_orders s' = call_orders s3 \<and> (\<not> ?partly \<longrightarrow> index_find (settlements s') i = None)"
  proof (cases ?partly)
    case False
    then have r: "table_remove settlements put_settlements i s3 = Inr s'" using rest by (auto simp: ok_simps)
    then show ?thesis using table_remove_settles [OF r] False by (auto simp: table_remove_def ok_simps)
  qed (use rest in \<open>auto intro: settles_same\<close>)
  show "settles i s s'" using settles_trans [OF 4(1)] 5 by blast
  show "amount (fs_balance x) \<le> amount pays \<Longrightarrow> index_find (settlements s') i = None" "call_orders s' = call_orders s"
    using 4 5 by auto
qed

end

text \<open>A match fills the settlement, reaches the volume asked for, or closes the position.\<close>

context fc_laws
begin

lemma match_settlement_settles:
  assumes inv: "chain_inv s" and ok: "match_settlement F c i p m s = Inr (s', r)"
  shows "settles i s s'" "length (rows (call_orders s')) \<le> length (rows (call_orders s))"
    "index_find (settlements s') i = None \<or> r = m \<or> length (rows (call_orders s')) < length (rows (call_orders s))"
proof -
  obtain x co sell v s1 f1 f2 where x: "index_find (settlements s) i = Some x" and co: "index_find (call_orders s) c = Some co"
    and sell: "asset_min (fs_balance x) m = Inr sell" and r: "asset_min sell (get_debt co) = Inr r"
    and v: "asset_mul r p = Inr v" and s1: "fill_call_order F c v r s = Inr (s1, f1)"
    and s2: "fill_settlement F i r v s1 = Inr (s', f2)"
    using ok unfolding match_settlement_def bind_eq_Inr index_get_def the_object_Inr
    by (elim exE conjE) (simp split: prod.splits add: bind_eq_Inr, blast)
  note 1 = fill_call_shifts [OF inv s1]
  have x1: "index_find (settlements s1) i = Some x" using x 1(2) by (simp add: only_call_def)
  have v': "0 \<le> amount v" "amount v < 2 ^ 63" using asset_mul_range [OF v] by auto
  note 2 = fill_settlement_settles [OF shifts_inv [OF 1(1)] s2 x1 v']
  show "settles i s s'" using settles_trans [OF settles_same 2(1)] 1(2) by (simp add: only_call_def)
  show "length (rows (call_orders s')) \<le> length (rows (call_orders s))" using 1(2) 2(3) by (simp add: only_call_def)
  consider "r = get_debt co" | "r = m" | "r = fs_balance x"
    using sell r by (auto simp: asset_min_Inr split: if_splits)
  then show "index_find (settlements s') i = None \<or> r = m \<or> length (rows (call_orders s')) < length (rows (call_orders s))"
    using 1(4) 1(5) [OF co] 2(2,3) by cases auto
qed

end

lemma try_match_Continue:
  "try_match F call i p m settled s = Inr (Continue (settled', s')) \<longleftrightarrow>
     (\<exists>r. match_settlement F call i p m s = Inr (s', r) \<and> asset_add F settled r = Inr settled')"
  by (auto simp: try_match_def ok_simps split: sum.splits)

lemma try_match_Finish:
  "try_match F call i p m settled s = Inr (Finish (settled', s')) \<longleftrightarrow>
     match_settlement F call i p m s = Inl Black_Swan_Exception \<and> settled' = settled \<and> cancel_settlement F i s = Inr s'"
  by (auto simp: try_match_def ok_simps split: sum.splits)

definition settle_measure :: "nat \<Rightarrow> asset \<Rightarrow> asset \<times> database \<Rightarrow> nat" where
  "settle_measure i vol st = length (rows (call_orders (snd st))) +
     (if index_find (settlements (snd st)) i \<noteq> None \<and> amount (fst st) < amount vol then 1 else 0)"

context fc_laws
begin

lemma settle_step_goes_on:
  assumes inv: "chain_inv s" and ok: "settle_step F m i p vol (settled, s) = Inr (Continue (settled', s'))"
  shows "shifts (\<lambda>a. 0) s s'" "settles i s s'" "settle_measure i vol (settled', s') < settle_measure i vol (settled, s)"
proof -
  obtain order call max_s r where order: "index_find (settlements s) i = Some order" and more: "amount settled < amount vol"
    and ms: "asset_sub F vol settled = Inr max_s" and mt: "match_settlement F call i p max_s s = Inr (s', r)"
    and st: "asset_add F settled r = Inr settled'"
    using ok unfolding settle_step_def
    by (auto simp: ok_simps try_match_Continue split: option.splits if_splits)
  note 1 = match_settlement_settles [OF inv mt]
  show "shifts (\<lambda>a. 0) s s'" "settles i s s'" using match_settlement_shifts [OF inv mt] 1(1) by simp_all
  show "settle_measure i vol (settled', s') < settle_measure i vol (settled, s)"
  proof -
    have "amount settled' = amount settled + amount r" "amount max_s = amount vol - amount settled"
      using ms st by (simp_all add: asset_sub_Inr asset_add_Inr)
    then have "index_find (settlements s') i = None \<or> \<not> amount settled' < amount vol \<or> length (rows (call_orders s')) < length (rows (call_orders s))"
      using 1(3) by auto
    then show ?thesis using 1(2) order more by (auto simp: settle_measure_def)
  qed
qed

lemma settle_step_finishes:
  assumes inv: "chain_inv s" and ok: "settle_step F m i p vol (settled, s) = Inr (Finish (settled', s'))"
  shows "shifts (\<lambda>a. 0) s s' \<and> settles i s s' \<and> (index_find (settlements s') i = None \<or> amount vol \<le> amount settled')"
proof -
  have "s' = s \<and> settled' = settled \<and> (index_find (settlements s) i = None \<or> amount vol \<le> amount settled) \<or> cancel_settlement F i s = Inr s'"
    using ok unfolding settle_step_def
    by (auto simp: ok_simps try_match_Finish split: option.splits if_splits)
  then show ?thesis using inv cancel_settlement_shifts [OF inv] cancel_settlement_settles [OF inv]
    by (auto intro: settles_same)
qed

end

sublocale fc_laws \<subseteq> settle_one: shrinking_loop "settle_step F m i p vol" "\<lambda>st. chain_inv (snd st)" "settle_measure i vol" for m i p vol
proof unfold_locales
  fix st st'
  assume "chain_inv (snd st)" "settle_step F m i p vol st = Inr (Continue st')"
  then show "chain_inv (snd st') \<and> settle_measure i vol st' < settle_measure i vol st"
    using settle_step_goes_on [of "snd st" m i p vol "fst st" "fst st'" "snd st'"] shifts_inv by simp
qed

context fc_laws
begin

lemma settle_loop:
  assumes inv: "chain_inv s" and ok: "run_loop n (settle_step F m i p vol) (settled, s) = Inr (settled', s')"
  shows "shifts (\<lambda>a. 0) s s' \<and> settles i s s' \<and> (index_find (settlements s') i = None \<or> amount vol \<le> amount settled')"
proof -
  let ?I = "\<lambda>u. shifts (\<lambda>a. 0) s u \<and> settles i s u"
  have step: "?I v" if "?I u" "shifts (\<lambda>a. 0) u v" "settles i u v" for u v
    using that shifts_trans [of "\<lambda>a. 0" s u "\<lambda>a. 0" v "\<lambda>a. 0"] settles_trans by auto
  have "case (settled', s') of (x, t) \<Rightarrow> ?I t \<and> (index_find (settlements t) i = None \<or> amount vol \<le> amount x)"
  proof (rule run_loop_invariant [OF ok, where I = "\<lambda>st. ?I (snd st)"])
    fix st st' assume I: "?I (snd st)" and b: "settle_step F m i p vol st = Inr (Continue st')"
    have "chain_inv (snd st)" using I shifts_inv by blast
    then show "?I (snd st')" using settle_step_goes_on [of "snd st" m i p vol "fst st" "fst st'" "snd st'"] b step [OF I] by simp
  next
    fix st x assume I: "?I (snd st)" and b: "settle_step F m i p vol st = Inr (Finish x)"
    have "chain_inv (snd st)" using I shifts_inv by blast
    then show "case x of (x, t) \<Rightarrow> ?I t \<and> (index_find (settlements t) i = None \<or> amount vol \<le> amount x)"
      using settle_step_finishes [of "snd st" m i p vol "fst st" "fst x" "snd x"] b step [OF I] by (cases x) simp
  qed (use inv in \<open>simp add: settles_same\<close>)
  then show ?thesis by simp
qed

lemma settle_loop_ends:
  "chain_inv s \<Longrightarrow> loop_result (settle_step F m i p vol) (settled, s)
     (run_loop (Suc (Suc (length (rows (call_orders s))))) (settle_step F m i p vol) (settled, s))"
  by (rule settle_one.run_loop_result) (simp_all add: settle_measure_def)

end

text \<open>Executing a settlement removes it or uses up the volume of the day.\<close>

context fc_laws
begin

lemma force_settled_shifts:
  assumes "chain_inv s" "modify_bitasset b (\<lambda>x. Inr (x\<lparr>force_settled_volume := v\<rparr>)) s = Inr s'"
  shows "shifts (\<lambda>a. 0) s s'"
  by (rule modify_bitasset_shifts [OF assms]) (auto simp: bitasset_ok_def has_settlement_def fund_in_def)

lemma execute_settlement_step:
  assumes inv: "chain_inv s" and order: "index_find (settlements s) i = Some order" and bt: "index_find (bitassets s) b = Some bt"
    and ok: "execute_settlement F m i order b bt vol s = Inr s'"
  shows "shifts (\<lambda>a. 0) s s'" "\<And>a. pending_after a s' \<le> pending_after a s" "length (rows (settlements s')) \<le> length (rows (settlements s))"
    "length (rows (settlements s')) < length (rows (settlements s)) \<or>
     (\<exists>bt'. index_find (bitassets s') b = Some bt' \<and> amount vol \<le> force_settled_volume bt')"
proof -
  obtain p n settled s1 where l: "run_loop n (settle_step F m i p vol) (mk_asset (force_settled_volume bt) m, s) = Inr (settled, s1)"
    and s': "(if force_settled_volume bt \<noteq> amount settled
       then modify_bitasset b (\<lambda>x. Inr (x\<lparr>force_settled_volume := amount settled\<rparr>)) s1 else Inr s1) = Inr s'"
    using ok by (auto simp: execute_settlement_def ok_simps)
  note 1 = settle_loop [OF inv l]
  have bt1: "index_find (bitassets s1) b = Some bt" using bt 1 by (simp add: settles_def)
  have 2: "shifts (\<lambda>a. 0) s1 s' \<and> settlements s' = settlements s1 \<and>
      (\<exists>bt'. index_find (bitassets s') b = Some bt' \<and> force_settled_volume bt' = amount settled)"
  proof (cases "force_settled_volume bt = amount settled")
    case False
    then have md: "modify_bitasset b (\<lambda>x. Inr (x\<lparr>force_settled_volume := amount settled\<rparr>)) s1 = Inr s'" using s' by simp
    have k: "\<exists>x. (b, x) \<in> set (rows (bitassets s1))" using bt1 by (auto simp: index_find_def dest: map_of_SomeD)
    have "shifts (\<lambda>a. 0) s1 s'" using force_settled_shifts [OF _ md] shifts_inv 1 by blast
    then show ?thesis using md k bt1
      by (auto simp: table_modify_def ok_simps index_modify_Inr index_find_def map_of_row_put image_iff Bex_def)
  qed (use s' 1 bt1 shifts_inv in auto)
  show "shifts (\<lambda>a. 0) s s'" using shifts_trans [OF conjunct1 [OF 1] conjunct1 [OF 2]] by simp
  show "pending_after a s' \<le> pending_after a s" for a using 1 2 by (simp add: settles_def pending_after_def)
  show "length (rows (settlements s')) \<le> length (rows (settlements s))"
    "length (rows (settlements s')) < length (rows (settlements s)) \<or>
     (\<exists>bt'. index_find (bitassets s') b = Some bt' \<and> amount vol \<le> force_settled_volume bt')"
    using 1 2 order by (auto simp: settles_def)
qed

end

text \<open>
  The loop over all settlements: a settlement disappears, or the loop moves to an asset further on, or the volume of the day is used up and
  the next round moves on.
\<close>

definition volume_left :: "nat \<times> asset \<times> database \<Rightarrow> bool" where
  "volume_left st = (case st of (a, vol, s) \<Rightarrow>
     \<not> (asset_id vol = a \<and> (\<exists>mia b bt. index_find (assets s) a = Some mia \<and> bitasset_data_id mia = Some b \<and>
          index_find (bitassets s) b = Some bt \<and> amount vol \<le> force_settled_volume bt)))"

definition settlement_measure :: "nat \<times> asset \<times> database \<Rightarrow> nat" where
  "settlement_measure st = (case st of (a, vol, s) \<Rightarrow>
     3 * length (rows (settlements s)) + 2 * pending_after a s + (if volume_left st then 1 else 0))"

lemma pending_after_mono: "a \<le> b \<Longrightarrow> pending_after b s \<le> pending_after a s"
  unfolding pending_after_def by (rule length_filter_mono) simp

lemma pending_after_passed:
  "x \<in> set (rows (settlements s)) \<Longrightarrow> a < asset_id (fs_balance (snd x)) \<Longrightarrow>
   pending_after (asset_id (fs_balance (snd x))) s < pending_after a s"
  unfolding pending_after_def by (rule length_filter_strict) auto

lemma settlement_lower_bound_in:
  assumes "settlement_lower_bound a s = x # xs"
  shows "x \<in> set (rows (settlements s))" "a \<le> asset_id (fs_balance (snd x))"
proof -
  have "x \<in> set (settlement_lower_bound a s)" "\<not> asset_id (fs_balance (snd x)) < a"
    using assms unfolding settlement_lower_bound_def by (simp, simp add: dropWhile_eq_Cons_conv)
  then show "x \<in> set (rows (settlements s))" "a \<le> asset_id (fs_balance (snd x))"
    unfolding settlement_lower_bound_def settlements_by_expiration_def by (auto dest: set_dropWhileD)
qed

lemma next_settlement_asset_Some:
  assumes "next_settlement_asset a s = Some a'"
  shows "a < a'" "\<exists>x \<in> set (rows (settlements s)). asset_id (fs_balance (snd x)) = a'"
proof -
  obtain x xs where x: "dropWhile (\<lambda>x. asset_id (fs_balance (snd x)) \<le> a) (settlements_by_expiration s) = x # xs"
    "asset_id (fs_balance (snd x)) = a'"
    using assms by (auto simp: next_settlement_asset_def split: list.splits)
  then show "a < a'" by (simp add: dropWhile_eq_Cons_conv)
  have "x \<in> set (settlements_by_expiration s)" using x(1) by (metis list.set_intros(1) set_dropWhileD)
  then show "\<exists>x \<in> set (rows (settlements s)). asset_id (fs_balance (snd x)) = a'"
    using x(2) by (auto simp: settlements_by_expiration_def)
qed

lemma go_to_next_smaller:
  assumes "go_to_next_asset a vol s = Continue (a', vol', s')" "c \<le> a"
  shows "s' = s" "settlement_measure (a', vol', s') < settlement_measure (c, v, s)"
proof -
  have n: "next_settlement_asset a s = Some a'" and [simp]: "s' = s"
    using assms(1) by (auto simp: go_to_next_asset_def split: option.splits)
  show "s' = s" by simp
  obtain x where x: "x \<in> set (rows (settlements s))" "asset_id (fs_balance (snd x)) = a'" using next_settlement_asset_Some [OF n] by blast
  have "pending_after a' s < pending_after a s" using pending_after_passed [OF x(1), of a] x(2) next_settlement_asset_Some(1) [OF n] by simp
  moreover have "pending_after a s \<le> pending_after c s" using pending_after_mono [OF assms(2)] .
  ultimately show "settlement_measure (a', vol', s') < settlement_measure (c, v, s)" by (simp add: settlement_measure_def)
qed

context fc_laws
begin

lemma cancel_smaller:
  assumes "chain_inv s" "cancel_settlement F i s = Inr s'" "c \<le> a"
  shows "settlement_measure (a, vol', s') < settlement_measure (c, v, s)"
proof -
  have "pending_after a s' \<le> pending_after c s"
    using cancel_settlement_settles(1) [OF assms(1,2)] order_trans [OF _ pending_after_mono [OF assms(3), of s]] unfolding settles_def by blast
  then show ?thesis using cancel_settlement_settles(3) [OF assms(1,2)] by (simp add: settlement_measure_def)
qed

lemma execute_smaller:
  assumes inv: "chain_inv s" and lb: "settlement_lower_bound c s = (i, order) # xs" and a: "a = asset_id (fs_balance order)"
    and mia: "index_find (assets s) a = Some mia" "bitasset_data_id mia = Some b" "index_find (bitassets s) b = Some bt"
    and vol: "asset_id vol' = a" "asset_id v = a \<Longrightarrow> vol' = v" and less: "force_settled_volume bt < amount vol'"
    and ok: "execute_settlement F a i order b bt vol' s = Inr s'"
  shows "shifts (\<lambda>a. 0) s s'" "settlement_measure (a, vol', s') < settlement_measure (c, v, s)"
proof -
  have x: "(i, order) \<in> set (rows (settlements s))" "c \<le> a" using settlement_lower_bound_in [OF lb] a by auto
  have "index_inv (settlements s)" using inv unfolding chain_inv_def by blast
  then have o: "index_find (settlements s) i = Some order" using x(1) by (simp add: index_find_def index_inv_distinct)
  note 1 = execute_settlement_step [OF inv o mia(3) ok]
  show "shifts (\<lambda>a. 0) s s'" using 1(1) .
  have as: "assets s' = assets s" using 1(1) by (simp add: shifts_def)
  have p: "pending_after a s' \<le> pending_after c s" by (rule order_trans [OF 1(2) pending_after_mono [OF x(2)]])
  show "settlement_measure (a, vol', s') < settlement_measure (c, v, s)"
  proof (cases "length (rows (settlements s')) < length (rows (settlements s))")
    case True
    then show ?thesis using p by (simp add: settlement_measure_def)
  next
    case False
    then obtain bt' where "index_find (bitassets s') b = Some bt'" "amount vol' \<le> force_settled_volume bt'" using 1(4) by blast
    then have after: "\<not> volume_left (a, vol', s')" using mia vol(1) as by (auto simp: volume_left_def)
    show ?thesis
    proof (cases "c = a")
      case True
      have "volume_left (a, v, s)" using vol(2) mia less unfolding volume_left_def prod.case by (metis not_le option.inject)
      then show ?thesis using True p after 1(3) by (simp add: settlement_measure_def)
    next
      case False
      then have "pending_after a s < pending_after c s" using pending_after_passed [OF x(1), of c] x(2) a by simp
      then have "pending_after a s' < pending_after c s" using 1(2) le_less_trans by blast
      then show ?thesis using after 1(3) by (simp add: settlement_measure_def)
    qed
  qed
qed

end

context fc_laws
begin

text \<open>A round cancels the settlement, moves to the next asset, or executes the settlement.\<close>

lemma settlement_step_round:
  assumes lb: "settlement_lower_bound c s = (i, order) # xs" and ok: "settlement_step F (c, v, s) = Inr (Continue (a, vol, s'))"
  defines "m \<equiv> asset_id (fs_balance order)"
  obtains mia b bt where "index_find (assets s) m = Some mia" "bitasset_data_id mia = Some b" "index_find (bitassets s) b = Some bt"
    "cancel_settlement F i s = Inr s' \<and> a = m \<or> (\<exists>v'. go_to_next_asset m v' s = Continue (a, vol, s')) \<or>
     execute_settlement F m i order b bt vol s = Inr s' \<and> a = m \<and> asset_id vol = m \<and> (asset_id v = m \<longrightarrow> vol = v) \<and>
     force_settled_volume bt < amount vol"
proof -
  obtain mia b bt where mia: "index_find (assets s) m = Some mia" "bitasset_data_id mia = Some b" "index_find (bitassets s) b = Some bt"
    and rest: "(if has_settlement bt then bind (cancel_settlement F i s) (\<lambda>s'. Inr (Continue (m, v, s')))
         else if settlement_date order > head_block_time s then Inr (go_to_next_asset m v s)
         else if price_is_null (settlement_price (current_feed bt)) then bind (cancel_settlement F i s) (\<lambda>s'. Inr (Continue (m, v, s')))
         else
           bind (if asset_id v \<noteq> m
                 then bind (index_get (asset_dyn s) (dynamic_asset_data_id mia)) (\<lambda>dyn.
                      bind (max_force_settlement_volume F bt (current_supply dyn)) (\<lambda>v. Inr (mk_asset v m)))
                 else Inr v) (\<lambda>vol'.
           if force_settled_volume bt \<ge> amount vol' then Inr (go_to_next_asset m vol' s)
           else bind (execute_settlement F m i order b bt vol' s) (\<lambda>s'. Inr (Continue (m, vol', s'))))) = Inr (Continue (a, vol, s'))"
    using ok unfolding settlement_step_def prod.case lb list.case Let_def bind_eq_Inr m_def
    by (auto simp: get_bitasset_Inr index_get_def ok_simps)
  have "cancel_settlement F i s = Inr s' \<and> a = m \<or> (\<exists>v'. go_to_next_asset m v' s = Continue (a, vol, s')) \<or>
     execute_settlement F m i order b bt vol s = Inr s' \<and> a = m \<and> asset_id vol = m \<and> (asset_id v = m \<longrightarrow> vol = v) \<and>
     force_settled_volume bt < amount vol" (is ?P)
  proof (cases "has_settlement bt \<or> \<not> settlement_date order > head_block_time s \<and> price_is_null (settlement_price (current_feed bt))")
    case True
    then show ?P using rest by (auto simp: bind_eq_Inr split: if_splits)
  next
    case no_cancel: False
    show ?P
    proof (cases "settlement_date order > head_block_time s")
      case True
      then show ?P using no_cancel rest by auto
    next
      case False
      let ?vol = "if asset_id v \<noteq> m
                 then bind (index_get (asset_dyn s) (dynamic_asset_data_id mia)) (\<lambda>dyn.
                      bind (max_force_settlement_volume F bt (current_supply dyn)) (\<lambda>v. Inr (mk_asset v m)))
                 else Inr v"
      have "bind ?vol (\<lambda>vol'. if force_settled_volume bt \<ge> amount vol' then Inr (go_to_next_asset m vol' s)
           else bind (execute_settlement F m i order b bt vol' s) (\<lambda>s'. Inr (Continue (m, vol', s')))) = Inr (Continue (a, vol, s'))"
        using False no_cancel rest by simp
      from bind_eq_Inr [THEN iffD1, OF this] obtain vol' where v: "?vol = Inr vol'"
        and e: "(if force_settled_volume bt \<ge> amount vol' then Inr (go_to_next_asset m vol' s)
           else bind (execute_settlement F m i order b bt vol' s) (\<lambda>s'. Inr (Continue (m, vol', s')))) = Inr (Continue (a, vol, s'))"
        by blast
      have vol': "asset_id vol' = m" "asset_id v = m \<longrightarrow> vol' = v" using v by (auto simp: ok_simps split: if_split_asm)
      show ?P
      proof (cases "force_settled_volume bt \<ge> amount vol'")
        case True
        then show ?P using e by auto
      next
        case False
        then have x: "execute_settlement F m i order b bt vol' s = Inr s'" "a = m" "vol = vol'"
          using e by (cases "execute_settlement F m i order b bt vol' s"; simp)+
        have "force_settled_volume bt < amount vol'" using False by simp
        then show ?P unfolding x(2,3) using vol' x(1) by blast
      qed
    qed
  qed
  then show thesis by (rule that [OF mia])
qed

lemma settlement_step_goes_on:
  assumes inv: "chain_inv s" and ok: "settlement_step F (c, v, s) = Inr (Continue (a, vol, s'))"
  shows "shifts (\<lambda>a. 0) s s'" "settlement_measure (a, vol, s') < settlement_measure (c, v, s)"
proof -
  obtain i order xs where lb: "settlement_lower_bound c s = (i, order) # xs"
    using ok by (auto simp: settlement_step_def split: list.splits)
  let ?a = "asset_id (fs_balance order)"
  have le: "c \<le> ?a" using settlement_lower_bound_in(2) [OF lb] by simp
  obtain mia b bt where mia: "index_find (assets s) ?a = Some mia" "bitasset_data_id mia = Some b" "index_find (bitassets s) b = Some bt"
    and round: "cancel_settlement F i s = Inr s' \<and> a = ?a \<or> (\<exists>v'. go_to_next_asset ?a v' s = Continue (a, vol, s')) \<or>
     execute_settlement F ?a i order b bt vol s = Inr s' \<and> a = ?a \<and> asset_id vol = ?a \<and> (asset_id v = ?a \<longrightarrow> vol = v) \<and>
     force_settled_volume bt < amount vol" using settlement_step_round [OF lb ok] by blast
  from round have "shifts (\<lambda>a. 0) s s' \<and> settlement_measure (a, vol, s') < settlement_measure (c, v, s)"
  proof (elim disjE exE)
    fix v' assume g: "go_to_next_asset ?a v' s = Continue (a, vol, s')"
    then show ?thesis using go_to_next_smaller [OF g le] inv by simp
  qed (use cancel_settlement_shifts [OF inv] cancel_smaller [OF inv _ le] execute_smaller [OF inv lb refl mia] in blast)+
  then show "shifts (\<lambda>a. 0) s s'" "settlement_measure (a, vol, s') < settlement_measure (c, v, s)" by simp_all
qed

lemma settlement_step_finishes: "settlement_step F (c, v, s) = Inr (Finish s') \<Longrightarrow> s' = s"
  unfolding settlement_step_def
  by (auto simp: ok_simps go_to_next_asset_def Let_def split: list.splits if_splits option.splits)

end

sublocale fc_laws \<subseteq> settlement_lp: shrinking_loop "settlement_step F" "\<lambda>st. chain_inv (snd (snd st))" settlement_measure
proof unfold_locales
  fix st st'
  assume i: "chain_inv (snd (snd st))" and s: "settlement_step F st = Inr (Continue st')"
  obtain c v s where st: "st = (c, v, s)" by (cases st)
  obtain a w s' where st': "st' = (a, w, s')" by (cases st')
  show "chain_inv (snd (snd st')) \<and> settlement_measure st' < settlement_measure st"
    using settlement_step_goes_on [of s c v a w s'] i s shifts_inv by (simp add: st st')
qed

context fc_laws
begin

lemma process_force_settlements_shifts:
  assumes inv: "chain_inv s" and ok: "process_force_settlements F s = Inr s'"
  shows "shifts (\<lambda>a. 0) s s'"
proof (cases "settlements_by_expiration s")
  case Nil
  then show ?thesis using ok inv by (simp add: process_force_settlements_def)
next
  case (Cons x xs)
  let ?n = "6 * Suc (length (rows (settlements s)))" and ?st = "(asset_id (fs_balance (snd x)), mk_asset 0 0, s)"
  have l: "run_loop ?n (settlement_step F) ?st = Inr s'" using ok Cons by (simp add: process_force_settlements_def)
  show ?thesis
  proof (rule run_loop_invariant [OF l, where I = "\<lambda>st. shifts (\<lambda>a. 0) s (snd (snd st))"])
    fix st st' assume I: "shifts (\<lambda>a. 0) s (snd (snd st))" and b: "settlement_step F st = Inr (Continue st')"
    obtain c v u where st: "st = (c, v, u)" by (cases st)
    obtain a w u' where st': "st' = (a, w, u')" by (cases st')
    have I': "shifts (\<lambda>a. 0) s u" using I st by simp
    from settlement_step_goes_on(1) [OF shifts_inv [OF this], of c v a w u'] b have "shifts (\<lambda>a. 0) u u'" by (simp add: st st')
    from shifts_trans [OF I' this] show "shifts (\<lambda>a. 0) s (snd (snd st'))" by (simp add: st')
  next
    fix st x assume I: "shifts (\<lambda>a. 0) s (snd (snd st))" and b: "settlement_step F st = Inr (Finish x)"
    obtain c v u where st: "st = (c, v, u)" by (cases st)
    show "shifts (\<lambda>a. 0) s x" using settlement_step_finishes [of c v u x] I b by (simp add: st)
  qed (use inv in simp)
qed

lemma settlement_loop_ends:
  assumes "chain_inv s"
  shows "loop_result (settlement_step F) (a, vol, s) (run_loop (6 * Suc (length (rows (settlements s)))) (settlement_step F) (a, vol, s))"
proof (rule settlement_lp.run_loop_result)
  have "pending_after a s \<le> length (rows (settlements s))" by (simp add: pending_after_def)
  then show "settlement_measure (a, vol, s) < 6 * Suc (length (rows (settlements s)))" by (simp add: settlement_measure_def)
qed (use assms in simp)

lemma clear_expired_orders_shifts:
  assumes inv: "chain_inv s" and ok: "clear_expired_orders F fees s = Inr s'"
  shows "shifts (\<lambda>a. 0) s s'"
proof -
  obtain s1 where s1: "clear_expired_limit_orders F fees s = Inr s1" and s2: "process_force_settlements F s1 = Inr s'"
    using ok by (auto simp: clear_expired_orders_def ok_simps)
  note 1 = conjunct1 [OF clear_expired_limits [OF inv s1]]
  show ?thesis using shifts_trans [OF 1 process_force_settlements_shifts [OF shifts_inv [OF 1] s2]] by simp
qed

end

section \<open>Expired feeds and permits\<close>

context fc_laws
begin

lemma copy_exchange_rate_conserves:
  assumes inv: "chain_inv s" and ok: "copy_exchange_rate i b s = Inr s'"
  shows "conserves s s'"
proof -
  have "s' = s \<or> (\<exists>cer. modify_asset i (\<lambda>x. Inr (x\<lparr>options := (options x)\<lparr>opt_core_exchange_rate := cer\<rparr>\<rparr>)) s = Inr s')"
    using ok by (auto simp: copy_exchange_rate_def ok_simps Let_def split: if_splits)
  then show ?thesis
  proof (elim disjE exE)
    fix cer assume m: "modify_asset i (\<lambda>x. Inr (x\<lparr>options := (options x)\<lparr>opt_core_exchange_rate := cer\<rparr>\<rparr>)) s = Inr s'"
    show ?thesis using modify_asset_step [OF inv m] by (auto simp: asset_ok_def conserves_def)
  qed (use inv in simp)
qed

lemma update_expired_feed_shifts:
  assumes inv: "chain_inv s" and ok: "update_expired_feed F i s = Inr s'"
  shows "\<exists>b s2. shifts (\<lambda>a. 0) s s2 \<and> copy_exchange_rate i b s2 = Inr s'"
proof -
  obtain b bt s2 where s2: "(if feed_expired s bt then
             bind (modify_bitasset b (update_median_feeds (head_block_time s)) s) (\<lambda>s1.
             bind (index_get (bitassets s1) b) (\<lambda>bt1.
             bind (check_call_orders F (asset_id (base (settlement_price (current_feed bt1)))) True s1) (\<lambda>(s2, c). Inr s2)))
           else Inr s) = Inr s2" and s': "copy_exchange_rate i b s2 = Inr s'"
    using ok by (auto simp: update_expired_feed_def ok_simps)
  have 2: "shifts (\<lambda>a. 0) s s2"
  proof (cases "feed_expired s bt")
    case True
    then obtain s1 m c where s1: "modify_bitasset b (\<lambda>x. update_median_feeds (head_block_time s) (x\<lparr>feeds := feeds x\<rparr>)) s = Inr s1"
      and c: "check_call_orders F m True s1 = Inr (s2, c)" using s2 by (auto simp: ok_simps)
    have 1: "shifts (\<lambda>a. 0) s s1" by (rule feed_update_shifts [OF inv s1])
    show ?thesis using shifts_trans [OF 1 check_call_orders_shifts(1) [OF shifts_inv [OF 1] c]] by simp
  qed (use s2 inv in simp)
  with s' show ?thesis by blast
qed

lemma update_expired_feed_conserves:
  assumes inv: "chain_inv s" and ok: "update_expired_feed F i s = Inr s'"
  shows "conserves s s'"
proof -
  obtain b s2 where 2: "shifts (\<lambda>a. 0) s s2" and s': "copy_exchange_rate i b s2 = Inr s'" using update_expired_feed_shifts [OF assms] by blast
  show ?thesis using shifts_conserves [OF 2] copy_exchange_rate_conserves [OF shifts_inv [OF 2] s'] conserves_trans by blast
qed

lemma update_expired_feeds_conserves:
  assumes inv: "chain_inv s" and ok: "update_expired_feeds F s = Inr s'"
  shows "conserves s s'"
proof (rule fold_result_invariant [OF ok [unfolded update_expired_feeds_def], where P = "conserves s"])
  fix i u v assume u: "conserves s u" and v: "update_expired_feed F i u = Inr v"
  have "chain_inv u" using u by (simp add: conserves_def)
  then show "conserves s v" using update_expired_feed_conserves [OF _ v] conserves_trans [OF u] by blast
qed (use inv in simp)

end

definition permit_expiry_key :: "nat \<times> withdraw_permission_object \<Rightarrow> time_point_sec \<times> nat" where
  "permit_expiry_key x = (wp_expiration (snd x), fst x)"

lemma permits_sorted: "sort_by permit_expires_before xs = sort_key permit_expiry_key xs"
  by (rule sort_by_sort_key) (auto simp: permit_expires_before_def permit_expiry_key_def less_prod_def)

lemma first_permit_first:
  assumes "sort_by permit_expires_before rs = x # xs" "y \<in> set rs"
  shows "wp_expiration (snd x) \<le> wp_expiration (snd y)"
proof -
  have "sorted (map permit_expiry_key (x # xs))" using sorted_sort_key [of permit_expiry_key rs]
    unfolding assms(1) [unfolded permits_sorted] .
  moreover have "y \<in> set (x # xs)" using assms(2) set_sort_by [of permit_expires_before rs] unfolding assms(1) by simp
  ultimately show ?thesis by (auto simp: permit_expiry_key_def less_eq_prod_def)
qed

lemma permit_step_Inr:
  assumes "chain_inv s" "permit_step s = Inr r"
  shows "(r = Finish s \<and> (\<forall>x \<in> set (rows (withdraw_permissions s)). head_block_time s < wp_expiration (snd x))) \<or>
    (\<exists>s'. r = Continue s' \<and> conserves s s' \<and> dgp s' = dgp s \<and>
       length (rows (withdraw_permissions s')) < length (rows (withdraw_permissions s)))"
proof (cases "sort_by permit_expires_before (rows (withdraw_permissions s))")
  case Nil
  then have "rows (withdraw_permissions s) = []" using length_sort_by [of permit_expires_before "rows (withdraw_permissions s)"]
    by (simp del: length_sort_by)
  then show ?thesis using assms(2) Nil by (simp add: permit_step_def)
next
  case (Cons x xs)
  show ?thesis
  proof (cases "wp_expiration (snd x) \<le> head_block_time s")
    case True
    then obtain s' where s': "table_remove withdraw_permissions put_withdraw_permissions (fst x) s = Inr s'" "r = Continue s'"
      using assms(2) Cons by (auto simp: permit_step_def ok_simps)
    have "length (rows (withdraw_permissions s')) < length (rows (withdraw_permissions s))" "dgp s' = dgp s"
      using s'(1) by (auto simp: table_remove_def ok_simps index_remove_Inr index_find_def
          intro!: length_row_delete(2) index_find_Some_key [unfolded index_find_def])
    moreover have "conserves s s'" using permit_tab.remove_step [OF assms(1) s'(1)] by (auto simp: conserves_def)
    ultimately show ?thesis using s'(2) by blast
  next
    case False
    then show ?thesis using assms(2) Cons first_permit_first [OF Cons] by (fastforce simp: permit_step_def)
  qed
qed

interpretation permit_lp: shrinking_loop permit_step chain_inv "\<lambda>s. length (rows (withdraw_permissions s))"
proof unfold_locales
  fix s s' assume "chain_inv s" "permit_step s = Inr (Continue s')"
  from permit_step_Inr [OF this] show "chain_inv s' \<and> length (rows (withdraw_permissions s')) < length (rows (withdraw_permissions s))"
    by (auto simp: conserves_def)
qed

lemma permit_loop:
  assumes inv: "chain_inv s" and ok: "update_withdraw_permissions s = Inr s'"
  shows "conserves s s' \<and> dgp s' = dgp s \<and> (\<forall>x \<in> set (rows (withdraw_permissions s')). head_block_time s < wp_expiration (snd x))"
proof (rule run_loop_invariant [OF ok [unfolded update_withdraw_permissions_def], where I = "\<lambda>u. conserves s u \<and> dgp u = dgp s"])
  fix u v assume u: "conserves s u \<and> dgp u = dgp s" and v: "permit_step u = Inr (Continue v)"
  have "chain_inv u" using u by (simp add: conserves_def)
  from permit_step_Inr [OF this v] show "conserves s v \<and> dgp v = dgp s" using u conserves_trans by auto
next
  fix u v assume u: "conserves s u \<and> dgp u = dgp s" and v: "permit_step u = Inr (Finish v)"
  have "chain_inv u" using u by (simp add: conserves_def)
  from permit_step_Inr [OF this v]
  show "conserves s v \<and> dgp v = dgp s \<and> (\<forall>x \<in> set (rows (withdraw_permissions v)). head_block_time s < wp_expiration (snd x))"
    using u by (auto simp: head_block_time_def)
qed (use inv in simp)

section \<open>Properties\<close>

text \<open>
  Cancelling the expired limit orders ends: with the fuel given the loop comes to the result the source has. If it does not
  throw, no order that has expired is left in the book, and no asset is created or destroyed, although every cancellation charges a
  fee and may trigger margin calls and a black swan.
\<close>

theorem expired_limits_cleared:
  assumes F: "fc_laws F" and inv: "chain_inv s"
  shows "loop_result (expire_limit_step F fees) s (clear_expired_limit_orders F fees s) \<and>
    (\<forall>s'. clear_expired_limit_orders F fees s = Inr s' \<longrightarrow>
      (\<forall>x \<in> set (rows (limit_orders s')). head_block_time s < lo_expiration (snd x)) \<and>
      (\<forall>a. ledger a s' = ledger a s) \<and> chain_inv s')"
proof (intro conjI allI impI)
  show "loop_result (expire_limit_step F fees) s (clear_expired_limit_orders F fees s)" by (rule fc_laws.expired_limits_end [OF F inv])
next
  fix s' assume "clear_expired_limit_orders F fees s = Inr s'"
  note 1 = fc_laws.clear_expired_limits [OF F inv this]
  have "head_block_time s' = head_block_time s" using 1 by (simp add: shifts_def head_block_time_def)
  then show "\<forall>x \<in> set (rows (limit_orders s')). head_block_time s < lo_expiration (snd x)" using 1 by simp
  show "ledger a s' = ledger a s" "chain_inv s'" for a using 1 by (simp_all add: shifts_def)
qed

definition late_market :: database where
  "late_market = demo_market\<lparr>dgp := (dgp demo_market)\<lparr>dgp_time := 1600000000\<rparr>\<rparr>"

theorem expired_limits_cleared_witness:
  "\<exists>s'. clear_expired_limit_orders fc_int64 (\<lambda>op s. 3) late_market = Inr s' \<and> rows (limit_orders late_market) \<noteq> [] \<and>
     rows (limit_orders s') = [] \<and> ledger 0 s' = ledger 0 late_market"
proof -
  have inv: "chain_inv late_market" using demo_market_inv by (simp add: late_market_def)
  have "case clear_expired_limit_orders fc_int64 (\<lambda>op s. 3) late_market of Inl e \<Rightarrow> False
      | Inr s' \<Rightarrow> rows (limit_orders late_market) \<noteq> [] \<and> rows (limit_orders s') = []" by code_simp
  then obtain s' where "clear_expired_limit_orders fc_int64 (\<lambda>op s. 3) late_market = Inr s'" "rows (limit_orders late_market) \<noteq> []"
      "rows (limit_orders s') = []" by (auto split: sum.splits)
  then show ?thesis using expired_limits_cleared [OF fc64.fc_laws_axioms inv, of "\<lambda>op s. 3"] by blast
qed

text \<open>
  C20. Executing the force settlements ends: the loop over the settlements of all assets, and for each of them the loop over the least
  collateralized positions, come to the result the source has, because each round closes a settlement, closes a position, moves to a
  later asset or uses up the volume of the day. Together they create and destroy nothing.
\<close>

theorem force_settlements_end:
  assumes F: "fc_laws F" and inv: "chain_inv s"
  shows "loop_result (settlement_step F) (m, vol, s) (run_loop (6 * Suc (length (rows (settlements s)))) (settlement_step F) (m, vol, s)) \<and>
    loop_result (settle_step F m i p vol) (settled, s)
      (run_loop (Suc (Suc (length (rows (call_orders s))))) (settle_step F m i p vol) (settled, s)) \<and>
    (\<forall>s'. process_force_settlements F s = Inr s' \<longrightarrow> chain_inv s' \<and> (\<forall>a. ledger a s' = ledger a s))"
  using fc_laws.settlement_loop_ends [OF F inv] fc_laws.settle_loop_ends [OF F inv] fc_laws.process_force_settlements_shifts [OF F inv]
  unfolding shifts_def by (intro conjI allI impI) (blast, blast, blast, simp)

definition due_settlements :: database where
  "due_settlements = demo_market\<lparr>settlements := \<lparr> next_id = 2, rows = [
     (0, \<lparr> fs_owner = 5, fs_balance = mk_asset 30 9, settlement_date = 20 \<rparr>),
     (1, \<lparr> fs_owner = 5, fs_balance = mk_asset 50 9, settlement_date = 10 \<rparr>)] \<rparr>\<rparr>"

theorem force_settlements_end_witness:
  "\<exists>s'. process_force_settlements fc_int64 due_settlements = Inr s' \<and> rows (settlements due_settlements) \<noteq> [] \<and>
     rows (settlements s') = [] \<and> ledger 9 s' = ledger 9 due_settlements"
proof -
  have i: "index_inv (settlements due_settlements)" by (simp add: due_settlements_def index_inv_def sorted_rows_def)
  have inv: "chain_inv due_settlements"
    using settle_tab.inv_put [OF demo_market_inv, of "settlements due_settlements"] i
    by (simp add: due_settlements_def rows_ok_def)
  have "case process_force_settlements fc_int64 due_settlements of Inl e \<Rightarrow> False
      | Inr s' \<Rightarrow> rows (settlements due_settlements) \<noteq> [] \<and> rows (settlements s') = []" by code_simp
  then obtain s' where "process_force_settlements fc_int64 due_settlements = Inr s'" "rows (settlements due_settlements) \<noteq> []"
      "rows (settlements s') = []" by (auto split: sum.splits)
  then show ?thesis using force_settlements_end [OF fc64.fc_laws_axioms inv] by blast
qed

end
