(* ===== verification/Head_Frame.thy ===== *)
theory Head_Frame
  imports Maintenance Block_Update Expiry
begin

text \<open>
  The steps that follow the update of the global properties in a block leave the number, the id and the time of the head block alone:
  the pay of the witness, the maintenance with its operations, the elections and the budget, and the expiry of orders, feeds and permits.

  \<open>kept p g r\<close>: if \<open>r\<close> returns, the dynamic global properties of the state \<open>p\<close> finds in the result are \<open>g\<close>. The rules
  follow the structure of the code, so that most functions need no argument of their own.
\<close>

section \<open>A calculus for what is kept\<close>

named_theorems kept_intros

definition kept :: "('a \<Rightarrow> database) \<Rightarrow> dynamic_global_property_object \<Rightarrow> 'a result \<Rightarrow> bool" where
  "kept p g r \<longleftrightarrow> (\<forall>x. r = Inr x \<longrightarrow> dgp (p x) = g)"

lemma keptD: "kept p g r \<Longrightarrow> r = Inr x \<Longrightarrow> dgp (p x) = g"
  by (simp add: kept_def)

lemma kept_basic [kept_intros]:
  "dgp (p x) = g \<Longrightarrow> kept p g (Inr x)" "kept p g (Inl e)"
  "(b \<Longrightarrow> kept p g r) \<Longrightarrow> (\<not> b \<Longrightarrow> kept p g r') \<Longrightarrow> kept p g (if b then r else r')"
  "kept p g r \<Longrightarrow> (\<And>y. kept p g (f y)) \<Longrightarrow> kept p g (case z of None \<Rightarrow> r | Some y \<Rightarrow> f y)"
  "kept p g r \<Longrightarrow> (\<And>y ys. kept p g (h y ys)) \<Longrightarrow> kept p g (case zs of [] \<Rightarrow> r | y # ys \<Rightarrow> h y ys)"
  by (simp_all add: kept_def split: option.split list.split)

lemma kept_bind_state [kept_intros]: "kept (\<lambda>s. s) g m \<Longrightarrow> (\<And>s. dgp s = g \<Longrightarrow> kept p g (f s)) \<Longrightarrow> kept p g (bind m f)"
  unfolding kept_def bind_eq_Inr by blast

lemma kept_bind_fst [kept_intros]: "kept fst g m \<Longrightarrow> (\<And>s y. dgp s = g \<Longrightarrow> kept p g (f s y)) \<Longrightarrow> kept p g (bind m (\<lambda>(s, y). f s y))"
  unfolding kept_def bind_eq_Inr by fastforce

lemma kept_bind_snd [kept_intros]: "kept snd g m \<Longrightarrow> (\<And>y s. dgp s = g \<Longrightarrow> kept p g (f y s)) \<Longrightarrow> kept p g (bind m (\<lambda>(y, s). f y s))"
  unfolding kept_def bind_eq_Inr by fastforce

lemma kept_case_prod [kept_intros]: "(\<And>x y. kept p g (f x y)) \<Longrightarrow> kept p g (case z of (x, y) \<Rightarrow> f x y)"
  by (simp add: split_beta)

lemma kept_bind_pair [kept_intros]: "(\<And>x y. kept p g (f x y)) \<Longrightarrow> kept p g (bind m (\<lambda>(x, y). f x y))"
  unfolding kept_def bind_eq_Inr by fastforce

lemma kept_bind_pure [kept_intros]: "(\<And>x. kept p g (f x)) \<Longrightarrow> kept p g (bind m f)"
  unfolding kept_def bind_eq_Inr by blast

lemma kept_table:
  assumes "\<And>t u. dgp (put t u) = dgp u" "dgp s = g"
  shows "kept (\<lambda>s. s) g (table_modify get put clash i f s)" "kept (\<lambda>s. s) g (table_remove get put i s)"
    "kept fst g (table_create get put clash x s)"
  unfolding kept_def table_modify_def table_remove_def table_create_def by (simp_all add: ok_simps) (metis assms)+

lemma kept_modify [kept_intros]:
  assumes "dgp s = g"
  shows "kept (\<lambda>s. s) g (modify_account i f1 s)" "kept (\<lambda>s. s) g (modify_stats i f2 s)" "kept (\<lambda>s. s) g (modify_balance i f3 s)"
    "kept (\<lambda>s. s) g (modify_asset i f4 s)" "kept (\<lambda>s. s) g (modify_asset_dyn i f5 s)" "kept (\<lambda>s. s) g (modify_bitasset i f6 s)"
    "kept (\<lambda>s. s) g (modify_vesting_balance i f7 s)" "kept (\<lambda>s. s) g (modify_witness i f8 s)"
    "kept (\<lambda>s. s) g (modify_committee_member i f9 s)" "kept (\<lambda>s. s) g (modify_worker i f10 s)"
    "kept (\<lambda>s. s) g (modify_fba_accumulator i f11 s)" "kept (\<lambda>s. s) g (modify_limit_order i f12 s)"
    "kept (\<lambda>s. s) g (modify_call_order i f13 s)" "kept (\<lambda>s. s) g (modify_settlement i f14 s)"
  by (rule kept_table(1), simp, rule assms)+

lemma kept_create_remove [kept_intros]:
  assumes "dgp s = g"
  shows "kept fst g (table_create vesting_balances put_vesting_balances c1 x1 s)" "kept fst g (table_create balances put_balances c2 x2 s)"
    "kept fst g (table_create limit_orders put_limit_orders c3 x3 s)" "kept fst g (table_create budget_records put_budget_records c4 x4 s)"
    "kept (\<lambda>s. s) g (table_remove limit_orders put_limit_orders i s)" "kept (\<lambda>s. s) g (table_remove call_orders put_call_orders i s)"
    "kept (\<lambda>s. s) g (table_remove settlements put_settlements i s)"
    "kept (\<lambda>s. s) g (table_remove withdraw_permissions put_withdraw_permissions i s)"
  by (rule kept_table(2,3), simp, rule assms)+

lemma kept_fold:
  assumes "dgp (p a) = g" and "\<And>x u. dgp (p u) = g \<Longrightarrow> kept p g (f x u)"
  shows "kept p g (fold_result f xs a)"
  unfolding kept_def
proof (intro allI impI)
  fix r assume "fold_result f xs a = Inr r"
  then show "dgp (p r) = g"
    by (rule fold_result_invariant [where P = "\<lambda>u. dgp (p u) = g"]) (rule assms(1), erule keptD [OF assms(2)])
qed

lemmas kept_fold_state [kept_intros] = kept_fold [where p = "\<lambda>s. s"]

text \<open>\<open>step_state q p\<close> finds the state in a step of a loop: by \<open>q\<close> in the state of the loop, by \<open>p\<close> in its result.\<close>

definition step_state :: "('s \<Rightarrow> database) \<Rightarrow> ('r \<Rightarrow> database) \<Rightarrow> ('s, 'r) loop_step \<Rightarrow> database" where
  "step_state q p r = (case r of Continue st \<Rightarrow> q st | Finish x \<Rightarrow> p x)"

lemma step_state_simps [simp]: "step_state q p (Continue st) = q st" "step_state q p (Finish x) = p x"
  by (simp_all add: step_state_def)

lemma kept_loop:
  assumes "dgp (q st) = g" and "\<And>st. dgp (q st) = g \<Longrightarrow> kept (step_state q p) g (body st)"
  shows "kept p g (run_loop n body st)"
  unfolding kept_def
proof (intro allI impI)
  fix r assume "run_loop n body st = Inr r"
  then show "dgp (p r) = g"
    by (rule run_loop_invariant [where I = "\<lambda>st. dgp (q st) = g"]) (rule assms(1), metis keptD [OF assms(2)] step_state_simps(1), metis keptD [OF assms(2)] step_state_simps(2))
qed

section \<open>Balances and orders\<close>

lemma kept_adjust [kept_intros]: "dgp s = g \<Longrightarrow> kept (\<lambda>s. s) g (adjust_balance F i x s)"
  by (auto simp: kept_def adjust_balance_def table_modify_def table_create_def ok_simps split: option.splits if_splits)

lemma kept_pay_market_fees [kept_intros]: "dgp s = g \<Longrightarrow> kept fst g (pay_market_fees F x i s)"
  unfolding pay_market_fees_def by (intro kept_intros) simp_all

lemma kept_cancel [kept_intros]:
  assumes "dgp s = g"
  shows "kept (\<lambda>s. s) g (cancel_settlement F i s)" "kept (\<lambda>s. s) g (cancel_limit_order F i s)" "kept (\<lambda>s. s) g (pay_order F j x y s)"
  unfolding cancel_settlement_def cancel_limit_order_def pay_order_def by (intro kept_intros; simp add: assms)+

lemma kept_cull [kept_intros]: "dgp s = g \<Longrightarrow> kept fst g (maybe_cull_small_order F i s)"
  unfolding maybe_cull_small_order_def by (intro kept_intros) simp_all

lemma kept_fill [kept_intros]:
  assumes "dgp s = g"
  shows "kept fst g (fill_limit_order F i x y b s)" "kept fst g (fill_call_order F i x y s)" "kept fst g (fill_settlement F i x y s)"
  unfolding fill_limit_order_def fill_call_order_def fill_settlement_def Let_def by (intro kept_intros; simp add: assms)+

lemma kept_match [kept_intros]:
  assumes "dgp s = g"
  shows "kept fst g (match_limit_orders F i j p s)" "kept fst g (match_settlement F i j p x s)"
  unfolding match_limit_orders_def match_settlement_def by (intro kept_intros; simp add: assms)+

lemma kept_settle_call: "dgp (fst acc) = g \<Longrightarrow> kept fst g (settle_call F p i acc)"
  unfolding settle_call_def Let_def by (intro kept_intros) simp_all

lemma kept_global_settlement [kept_intros]: "dgp s = g \<Longrightarrow> kept (\<lambda>s. s) g (globally_settle_asset F i p s)"
  unfolding globally_settle_asset_def Let_def by (intro kept_intros kept_fold kept_settle_call) simp_all

lemma kept_blackswan [kept_intros]: "dgp s = g \<Longrightarrow> kept fst g (check_for_blackswan F i b s)"
  unfolding check_for_blackswan_def by (intro kept_intros) simp_all

lemma kept_call_fill:
  "dgp s = g \<Longrightarrow> kept (\<lambda>(a, b, c, s). s) g (call_fill F li l ci c b s)"
  unfolding call_fill_def Let_def by (intro kept_intros) simp_all

lemma kept_call_step:
  assumes "dgp (case st of (a, b, c, d, s) \<Rightarrow> s) = g"
  shows "kept (step_state (\<lambda>(a, b, c, d, s). s) fst) g (call_step F i b le ce st)"
proof (cases st)
  case (fields l k fl mc s)
  then have s: "dgp s = g" using assms by simp
  have fill: "kept (step_state (\<lambda>(a, b, c, d, s). s) fst) g (bind (call_fill F li lo ci c b s1) (\<lambda>(x, y, z, s3). Inr (Continue (x, y, z, w, s3))))"
    if "dgp s1 = g" for li lo ci c b s1 w
    using keptD [OF kept_call_fill [OF that]] by (auto simp: kept_def bind_eq_Inr)
  show ?thesis unfolding fields call_step_def prod.case by (intro kept_intros fill) (simp_all add: s)
qed

lemma kept_check_calls [kept_intros]: "dgp s = g \<Longrightarrow> kept fst g (check_call_orders F i b s)"
  unfolding check_call_orders_def Let_def
  by (intro kept_intros kept_loop [where q = "\<lambda>(a, b, c, d, s). s"] kept_call_step) simp_all

lemma kept_match_new_order [kept_intros]: "dgp s = g \<Longrightarrow> kept (\<lambda>s. s) g (match_new_order F i s)"
proof -
  assume s: "dgp s = g"
  have step: "kept (step_state snd (\<lambda>s. s)) g (match_step F i le st)" if "dgp (snd st) = g" for le st
  proof (cases st)
    case (Pair k u)
    then have u: "dgp u = g" using that by simp
    show ?thesis unfolding Pair match_step_def prod.case Let_def by (intro kept_intros) (simp_all add: u)
  qed
  show ?thesis unfolding match_new_order_def Let_def by (intro kept_intros kept_loop [where q = snd] step) (simp_all add: s)
qed

lemma kept_apply_order [kept_intros]: "dgp s = g \<Longrightarrow> kept fst g (apply_order F i b s)"
  unfolding apply_order_def cull_new_order_def Let_def by (intro kept_intros) simp_all

section \<open>Operations the chain runs itself\<close>

lemma kept_start_evaluate:
  assumes "dgp s = g" and "\<And>fs e t. dgp t = g \<Longrightarrow> kept fst g (do_pay_fee ev F sf fs e t)"
    and "\<And>fs e t. dgp t = g \<Longrightarrow> kept fst g (do_apply ev F op e fs t)"
  shows "kept fst g (start_evaluate F ev sf sk req op s)"
  unfolding start_evaluate_def apply_op_def convert_fee_def by (intro kept_intros assms(2,3)) (simp_all add: assms(1))

lemma kept_default_pay_fee [kept_intros]: "dgp s = g \<Longrightarrow> kept fst g (default_pay_fee F sf fs e s)"
  unfolding default_pay_fee_def pay_fee_def by (intro kept_intros) simp_all

lemma kept_bind_try:
  assumes st: "kept fst g (start_evaluate F ev False True 0 op s)" and r: "kept p g r" and f: "\<And>u k. dgp u = g \<Longrightarrow> kept p g (f u k)"
  shows "kept p g (bind (try_operation F ev op s) (\<lambda>x. case x of None \<Rightarrow> r | Some (u, k) \<Rightarrow> f u k))"
  unfolding kept_def
proof (intro allI impI)
  fix y assume "bind (try_operation F ev op s) (\<lambda>x. case x of None \<Rightarrow> r | Some (u, k) \<Rightarrow> f u k) = Inr y"
  then obtain x where x: "try_operation F ev op s = Inr x" "(case x of None \<Rightarrow> r | Some (u, k) \<Rightarrow> f u k) = Inr y" by (auto simp: bind_eq_Inr)
  show "dgp (p y) = g"
  proof (cases x)
    case None
    then show ?thesis using keptD [OF r] x(2) by simp
  next
    case (Some q)
    obtain u k where q: "q = (u, k)" by (cases q)
    have "dgp u = g" using keptD [OF st try_operation_start] x(1) Some q by fastforce
    from keptD [OF f [OF this]] show ?thesis using x(2) Some q by simp
  qed
qed

lemma kept_try:
  assumes "dgp s = g" "kept fst g (start_evaluate F ev False True 0 op s)"
  shows "kept (\<lambda>s. s) g (bind (try_operation F ev op s) (\<lambda>r. Inr (case r of None \<Rightarrow> s | Some (u, _) \<Rightarrow> u)))"
proof -
  have eq: "(\<lambda>r. Inr (case r of None \<Rightarrow> s | Some (u, _) \<Rightarrow> u) :: database result) = (\<lambda>r. case r of None \<Rightarrow> Inr s | Some (u, _) \<Rightarrow> Inr u)"
    by (rule ext) (simp split: option.split prod.split)
  show ?thesis unfolding eq by (intro kept_bind_try assms(2) kept_intros) (simp_all add: assms(1))
qed

lemma kept_create_order: "dgp s = g \<Longrightarrow> kept fst g (start_evaluate F limit_order_create_evaluator sf sk req op s)"
  by (rule kept_start_evaluate, assumption;
      simp only: limit_order_create_evaluator_def evaluator.simps limit_order_create_pay_fee_def limit_order_create_do_apply_def;
      intro kept_intros; simp)

lemma kept_cancel_order: "dgp s = g \<Longrightarrow> kept fst g (start_evaluate F limit_order_cancel_evaluator sf sk req op s)"
  by (rule kept_start_evaluate, assumption;
      simp only: limit_order_cancel_evaluator_def evaluator.simps limit_order_cancel_do_apply_def; intro kept_intros; simp)

lemma kept_lazy_vesting [kept_intros]: "dgp s = g \<Longrightarrow> kept fst g (deposit_lazy_vesting F v x sec i b s)"
  unfolding deposit_lazy_vesting_def create_lazy_vesting_def by (intro kept_intros) simp_all

lemma kept_cashback [kept_intros]:
  assumes "dgp s = g"
  shows "kept (\<lambda>s. s) g (deposit_cashback F i x b s)" "kept (\<lambda>s. s) g (deposit_witness_pay F i x s)"
  unfolding deposit_cashback_def deposit_witness_pay_def by (intro kept_intros; simp add: assms)+

lemma kept_process_fees [kept_intros]: "dgp s = g \<Longrightarrow> kept (\<lambda>s. s) g (process_fees F st i s)"
  unfolding process_fees_def pay_out_fees_def refresh_referrer_def by (intro kept_intros) simp_all

lemma kept_upgrade: "dgp s = g \<Longrightarrow> kept fst g (start_evaluate F account_upgrade_evaluator sf sk req op s)"
  by (rule kept_start_evaluate, assumption;
      simp only: account_upgrade_evaluator_def evaluator.simps account_upgrade_do_apply_def Let_def; intro kept_intros; simp)

section \<open>Maintenance\<close>

lemma kept_fba [kept_intros]: "dgp s = g \<Longrightarrow> kept (\<lambda>s. s) g (distribute_fba_balances F s)"
  unfolding distribute_fba_balances_def split_fba_balance_def modify_core_supply_def reset_fba_def pay_fba_shares_def Let_def
  by (intro kept_intros) simp_all

lemma kept_sell_holding [kept_intros]: "dgp s = g \<Longrightarrow> kept (\<lambda>s. s) g (sell_holding F i a x b s)"
  unfolding sell_holding_def by (intro kept_bind_try kept_try kept_create_order kept_cancel_order kept_intros)

lemma kept_buybacks [kept_intros]: "dgp s = g \<Longrightarrow> kept (\<lambda>s. s) g (create_buyback_orders F s)"
proof -
  have step: "kept (step_state snd (\<lambda>s. s)) g (buyback_step F i b allowed st)" if "dgp (snd st) = g" for i b allowed st
  proof (cases st)
    case (Pair k u)
    then have u: "dgp u = g" using that by simp
    show ?thesis unfolding Pair buyback_step_def prod.case by (intro kept_intros) (simp_all add: u)
  qed
  assume "dgp s = g"
  then show ?thesis unfolding create_buyback_orders_def buyback_orders_of_def buyback_account_orders_def
    by (intro kept_intros kept_loop [where q = snd] step) simp_all
qed

lemma kept_account_maintenance: "dgp s = g \<Longrightarrow> kept snd g (perform_account_maintenance F s)"
  unfolding perform_account_maintenance_def
proof (rule kept_fold)
  show "kept snd g (maintain_account F i u)" if "dgp (snd u) = g" for i u
    unfolding maintain_account_def process_account_fees_def by (cases u) (simp only: prod.case, intro kept_intros; use that in simp)
qed simp

lemma kept_top_holders [kept_intros]: "dgp s = g \<Longrightarrow> kept (\<lambda>s. s) g (update_top_holders i b a s)"
  unfolding update_top_holders_def Let_def by (cases a; simp only: special_authority.case; intro kept_intros; simp)

lemma kept_elections [kept_intros]:
  assumes "dgp s = g"
  shows "kept (\<lambda>s. s) g (update_active_witnesses F m buf s)" "kept (\<lambda>s. s) g (update_active_committee_members m buf s)"
    "kept (\<lambda>s. s) g (update_worker_votes buf s)" "kept (\<lambda>s. s) g (update_top_n_authorities s)"
  unfolding update_active_witnesses_def set_active_def update_active_committee_members_def update_worker_votes_def
    update_top_n_authorities_def visit_special_authority_def
  by (intro kept_intros; simp add: assms)+

lemma kept_deprecate [kept_intros]: "dgp s = g \<Longrightarrow> kept (\<lambda>s. s) g (deprecate_annual_members F s)"
  unfolding deprecate_annual_members_def deprecate_member_def by (intro kept_try kept_upgrade kept_intros)

lemma kept_volumes [kept_intros]: "dgp s = g \<Longrightarrow> kept (\<lambda>s. s) g (reset_settled_volumes s)"
  unfolding reset_settled_volumes_def by (intro kept_intros)

lemma kept_pay_workers [kept_intros]: "dgp s = g \<Longrightarrow> kept snd g (pay_workers F x s)"
proof -
  have worker: "kept snd g (pay_worker F x w s)" if "dgp s = g" for x w s
    by (cases w; simp only: pay_worker.simps modify_core_supply_def; intro kept_intros; use that in simp)
  have "dgp s = g \<Longrightarrow> kept snd g (pay_workers_loop F is x s)" for "is"
    by (induction "is" arbitrary: x s) (simp_all only: pay_workers_loop.simps Let_def, (intro kept_intros worker; simp)+)
  then show "dgp s = g \<Longrightarrow> kept snd g (pay_workers F x s)" unfolding pay_workers_def .
qed

text \<open>The budget and the time of the next maintenance are part of the global properties; the head block is not touched.\<close>

definition same_head :: "database \<Rightarrow> database \<Rightarrow> bool" where
  "same_head s s' \<longleftrightarrow> head_block_number (dgp s') = head_block_number (dgp s) \<and> head_block_id (dgp s') = head_block_id (dgp s) \<and>
     dgp_time (dgp s') = dgp_time (dgp s)"

lemma same_head_trans: "same_head s t \<Longrightarrow> same_head t u \<Longrightarrow> same_head s u"
  by (simp add: same_head_def)

lemma same_head_dgp: "dgp s' = dgp s \<Longrightarrow> same_head s s'"
  by (simp add: same_head_def)

lemma process_budget_head:
  assumes "process_budget F s = Inr s'"
  shows "same_head s s'"
proof -
  obtain rec :: budget_record and left and s1 s2 :: database and x k and j :: nat and f where 1: "pay_workers F (worker_budget rec) s = Inr (left, s1)"
    and 2: "modify_asset_dyn j f s1 = Inr s2"
    and 3: "table_create budget_records put_budget_records no_clash x
       (s2\<lparr>dgp := (dgp s2)\<lparr>witness_budget := rec_witness_budget rec, last_budget_time := head_block_time s\<rparr>\<rparr>) = Inr (s', k)"
    using assms unfolding process_budget_def Let_def
    by (simp only: bind_eq_Inr split_paired_Ex prod.case sum.inject) blast
  have "dgp s2 = dgp s" using keptD [OF kept_pay_workers [OF refl] 1] keptD [OF kept_modify(5) [OF refl] 2] by simp
  then show ?thesis using keptD [OF kept_create_remove(4) [OF refl] 3] by (simp add: same_head_def)
qed

lemma maintenance_head:
  assumes "perform_chain_maintenance F mw mc n ts s = Inr s'"
  shows "same_head s s'"
proof -
  obtain s1 s2 buf s3 s4 s5 s6 s7 s8 t s10 s12 where
    a: "distribute_fba_balances F s = Inr s1" "create_buyback_orders F s1 = Inr s2"
    and b: "perform_account_maintenance F s2 = Inr (buf, s3)" "update_top_n_authorities s3 = Inr s4" "update_active_witnesses F mw buf s4 = Inr s5"
      "update_active_committee_members mc buf s5 = Inr s6" "update_worker_votes buf s6 = Inr s7"
    and c: "unscale_registration_fee s7 = Inr s8"
      "(if next_maintenance_time (dgp (adopt_pending_parameters s8)) < HARDFORK_613_TIME \<and> t \<ge> HARDFORK_613_TIME
        then deprecate_annual_members F (adopt_pending_parameters s8) else Inr (adopt_pending_parameters s8)) = Inr s10"
    and d: "reset_settled_volumes (s10\<lparr>dgp := (dgp s10)\<lparr>next_maintenance_time := t, accounts_registered_this_interval := 0\<rparr>\<rparr>) = Inr s12"
      "process_budget F s12 = Inr s'"
    using assms unfolding perform_chain_maintenance_def Let_def by (simp only: bind_eq_Inr split_paired_Ex prod.case) blast
  let ?s9 = "adopt_pending_parameters s8"
  have "dgp s2 = dgp s" using keptD [OF kept_fba [OF refl] a(1)] keptD [OF kept_buybacks [OF refl] a(2)] by simp
  moreover have "dgp s7 = dgp s2"
    using keptD [OF kept_account_maintenance [OF refl] b(1)] keptD [OF kept_elections(4) [OF refl] b(2)]
      keptD [OF kept_elections(1) [OF refl] b(3)] keptD [OF kept_elections(2) [OF refl] b(4)] keptD [OF kept_elections(3) [OF refl] b(5)] by simp
  moreover have "dgp ?s9 = dgp s7"
    using c(1) by (auto simp: unscale_registration_fee_def adopt_pending_parameters_def Let_def split: if_splits option.splits)
  moreover have "dgp s10 = dgp ?s9" using c(2) keptD [OF kept_deprecate [OF refl]] by (auto split: if_splits)
  moreover have "same_head s10 s12" using keptD [OF kept_volumes [OF refl] d(1)] by (simp add: same_head_def)
  moreover have "same_head s12 s'" by (rule process_budget_head [OF d(2)])
  ultimately show ?thesis by (simp add: same_head_def)
qed

lemma pay_signing_witness_head:
  assumes "update_signing_witness F i b s = Inr s'"
  shows "same_head s s'"
proof -
  obtain pay budget s1 and f :: "witness_object \<Rightarrow> witness_object result"
    where s1: "deposit_witness_pay F i pay (s\<lparr>dgp := (dgp s)\<lparr>witness_budget := budget\<rparr>\<rparr>) = Inr s1" and s': "modify_witness i f s1 = Inr s'"
    using assms by (auto simp: update_signing_witness_def Let_def ok_simps)
  have "dgp s1 = (dgp s)\<lparr>witness_budget := budget\<rparr>" using keptD [OF kept_cashback(2) [OF refl] s1] by simp
  then show ?thesis using keptD [OF kept_modify(8) [OF refl] s'] by (simp add: same_head_def)
qed

section \<open>Expiry\<close>

lemma kept_expired_limits [kept_intros]:
  assumes "dgp s = g"
  shows "kept (\<lambda>s. s) g (clear_expired_limit_orders F fees s)"
proof -
  have cancel: "kept fst g (apply_operation F fees cancel_context (Limit_Order_Cancel op) u)" if "dgp u = g" for op u
    unfolding apply_operation_def apply_evaluator.simps run_evaluator_def
    by (intro kept_intros kept_cancel_order) (simp_all add: that)
  show ?thesis unfolding clear_expired_limit_orders_def expire_limit_step_def
    by (intro kept_intros cancel kept_loop [where q = "\<lambda>s. s"]) (simp_all add: assms)
qed

lemma kept_settle_step:
  assumes "dgp (snd st) = g"
  shows "kept (step_state snd snd) g (settle_step F m i p v st)"
proof (cases st)
  case (Pair x s)
  have s: "dgp s = g" using assms Pair by simp
  have tried: "kept (step_state snd snd) g (try_match F c i p y x s)" for c y
  proof (cases "match_settlement F c i p y s")
    case (Inl e)
    then show ?thesis unfolding try_match_def by (simp only: sum.case) (intro kept_intros; simp add: s)
  next
    case (Inr r)
    obtain u z where r: "r = (u, z)" by (cases r)
    then have "dgp u = g" using keptD [OF kept_match(2) [OF s] Inr] by simp
    then show ?thesis unfolding try_match_def Inr r by (simp only: sum.case prod.case) (intro kept_intros; simp)
  qed
  show ?thesis unfolding settle_step_def Pair prod.case by (intro kept_intros tried) (simp_all add: s)
qed

lemma kept_settlements [kept_intros]:
  assumes "dgp s = g"
  shows "kept (\<lambda>s. s) g (process_force_settlements F s)"
proof -
  have exec: "kept (\<lambda>s. s) g (execute_settlement F m i x b d v u)" if "dgp u = g" for m i x b d v u
  proof -
    have "kept snd g (run_loop n (settle_step F m i p v) (y, u))" for n p y
      by (rule kept_loop [where q = snd]) (simp_all add: that kept_settle_step)
    then show ?thesis unfolding execute_settlement_def by (intro kept_intros)
  qed
  have go: "kept (step_state (\<lambda>(a, b, s). s) (\<lambda>s. s)) g (Inr (go_to_next_asset a v u))" if "dgp u = g" for a v u
    using that by (simp add: kept_def go_to_next_asset_def split: option.split)
  have step: "kept (step_state (\<lambda>(a, b, s). s) (\<lambda>s. s)) g (settlement_step F st)" if "dgp (case st of (a, b, s) \<Rightarrow> s) = g" for st
  proof (cases st)
    case (fields a v u)
    then have u: "dgp u = g" using that by simp
    show ?thesis unfolding settlement_step_def fields prod.case Let_def by (intro go exec kept_intros) (simp_all add: u)
  qed
  show ?thesis unfolding process_force_settlements_def
    by (intro kept_intros kept_loop [where q = "\<lambda>(a, b, s). s"] step) (simp_all add: assms)
qed

lemma kept_feeds [kept_intros]: "dgp s = g \<Longrightarrow> kept (\<lambda>s. s) g (update_expired_feeds F s)"
  unfolding update_expired_feeds_def update_expired_feed_def copy_exchange_rate_def Let_def by (intro kept_intros) simp_all

lemma kept_permits [kept_intros]: "dgp s = g \<Longrightarrow> kept (\<lambda>s. s) g (update_withdraw_permissions s)"
  unfolding update_withdraw_permissions_def permit_step_def by (intro kept_intros kept_loop [where q = "\<lambda>s. s"]) simp_all

end
