(* ===== verification/Block_Apply.thy ===== *)
theory Block_Apply
  imports Head_Frame
begin

text \<open>
  The application of a block (db_block.cpp, \<^verbatim>\<open>database::apply_block\<close>): the merkle root, the header, the transactions in order, the
  global state, the maintenance when its time has come, and the expiry of transactions, orders, feeds and permits at the end.

  What the code takes from outside the chain state is the record \<open>chain_env\<close>: the libraries, the fee schedule, the constants of the genesis
  file, the checkpoints in key order, the length of the undo history, and for the production of blocks the packed sizes and the signature
  with a private key. The table of proposals is not part of this state, so that
  the clearing of the expired ones is left out here (\<^verbatim>\<open>Proposals\<close> has it). The log of applied operations, the debug updates and the notification of observers are not part of the model.
\<close>

unbundle bit_operations_syntax

section \<open>Parameters set by the hard fork\<close>

definition HARDFORK_0001_BLOCK_NO :: u32 where "HARDFORK_0001_BLOCK_NO = 7210900"

definition GRAPHENE_DEFAULT_WITNESS_PAY_VESTING_SECONDS :: u32 where "GRAPHENE_DEFAULT_WITNESS_PAY_VESTING_SECONDS = 60 * 60 * 24"

definition hardfork_0001_parameters :: chain_parameters where
  "hardfork_0001_parameters = \<lparr> block_interval = 3, maintenance_interval = 86400, maintenance_skip_slots = 3,
     committee_proposal_review_period = 1209600, maximum_transaction_size = 2048, maximum_block_size = 2048000000,
     maximum_time_until_expiration = 86400, maximum_proposal_lifetime = 2419200, maximum_asset_whitelist_authorities = 10,
     maximum_asset_feed_publishers = 10, maximum_witness_count = 1001, maximum_committee_count = 1001, maximum_authority_membership = 10,
     reserve_percent_of_fee = 2000, network_percent_of_fee = 2000, lifetime_referrer_percent_of_fee = 3000,
     cashback_vesting_period_seconds = 31536000, cashback_vesting_threshold = 10000000, count_non_member_votes = True,
     allow_non_member_whitelists = False, witness_pay_per_block = 300000000,
     witness_pay_vesting_seconds = GRAPHENE_DEFAULT_WITNESS_PAY_VESTING_SECONDS, worker_budget_per_day = 50000000000000,
     accounts_per_fee_scale = 1000, account_fee_scale_bitshifts = 4, max_authority_depth = 2, account_create_basic_fee = 100000000 \<rparr>"

definition hard_fork_fast_update_fee :: "database \<Rightarrow> database" where
  "hard_fork_fast_update_fee s =
     (if head_block_number (dgp s) = HARDFORK_0001_BLOCK_NO then s\<lparr>pending_parameters := Some hardfork_0001_parameters\<rparr> else s)"

section \<open>Applying a block\<close>

record chain_env =
  env_fc :: fc_lib
  env_crypto :: crypto_lib
  env_block :: block_lib
  env_fees :: "operation \<Rightarrow> database \<Rightarrow> share_type"
  env_min_witness_count :: u16
  env_min_committee_member_count :: u16
  env_checkpoints :: "(u32 \<times> block_id) list"
  env_max_undo :: u32
  env_block_size :: "chain_block \<Rightarrow> nat"
  env_header_size :: nat
  env_public_key :: "nat \<Rightarrow> public_key"
  env_sign :: "nat \<Rightarrow> chain_block \<Rightarrow> nat"

definition skip_merkle_check :: u32 where "skip_merkle_check = push_bit 7 1"

definition on_state :: "(database \<Rightarrow> database result) \<Rightarrow> chain_db \<Rightarrow> chain_db result" where
  "on_state f c = bind (f (state c)) (\<lambda>s. Inr (c\<lparr>state := s\<rparr>))"

primrec apply_block_transactions :: "chain_env \<Rightarrow> u32 \<Rightarrow> processed_transaction list \<Rightarrow> chain_db \<Rightarrow> chain_db result" where
  "apply_block_transactions E skip [] c = Inr c"
| "apply_block_transactions E skip (tx # txs) c =
     bind (apply_transaction (env_fc E) (env_crypto E) (env_fees E) skip (fst tx) c) (\<lambda>(c', rs). apply_block_transactions E skip txs c')"

text \<open>
  The first part goes up to the update of the global properties, which also returns the new size of the undo and fork databases; the
  second part is the rest.
\<close>

definition begin_block :: "chain_env \<Rightarrow> u32 \<Rightarrow> chain_block \<Rightarrow> chain_db \<Rightarrow> (chain_db \<times> bool \<times> u32) result" where
  "begin_block E skip b c =
     bind (fc_assert (skips skip skip_merkle_check \<or> blk_merkle_root b = calculate_merkle_root (env_block E) b) ''transaction_merkle_root'') (\<lambda>_.
     bind (validate_block_header (env_block E) skip b (state c)) (\<lambda>_.
     let maint_needed = next_maintenance_time (dgp (state c)) \<le> blk_timestamp b in
     bind (apply_block_transactions E skip (blk_transactions b) c) (\<lambda>c1.
     bind (update_global_dynamic_data (env_block E) skip (env_checkpoints E) (env_max_undo E) b (state c1)) (\<lambda>(s, depth).
     Inr (c1\<lparr>state := s\<rparr>, maint_needed, depth)))))"

definition settle_block :: "chain_env \<Rightarrow> bool \<Rightarrow> chain_block \<Rightarrow> database \<Rightarrow> database result" where
  "settle_block E maint_needed b s =
     bind (update_signing_witness (env_fc E) (blk_witness b) b s) (\<lambda>s1.
     bind (update_last_irreversible_block (env_checkpoints E) s1) (\<lambda>s2.
     if maint_needed then perform_chain_maintenance (env_fc E) (env_min_witness_count E) (env_min_committee_member_count E)
       (chain_block_num b) (blk_timestamp b) s2 else Inr s2))"

definition expire_objects :: "chain_env \<Rightarrow> database \<Rightarrow> database result" where
  "expire_objects E s =
     bind (clear_expired_orders (env_fc E) (env_fees E) (hard_fork_fast_update_fee s)) (\<lambda>s1.
     bind (update_expired_feeds (env_fc E) s1) (\<lambda>s2.
     update_withdraw_permissions s2))"

definition finish_block :: "chain_env \<Rightarrow> bool \<Rightarrow> chain_block \<Rightarrow> chain_db \<Rightarrow> chain_db result" where
  "finish_block E maint_needed b c =
     bind (on_state (settle_block E maint_needed b) c) (\<lambda>c1.
     bind (create_block_summary (env_block E) b c1) (\<lambda>c2.
     bind (clear_expired_transactions c2) (\<lambda>c3.
     bind (on_state (expire_objects E) c3) (\<lambda>c4.
     on_state (\<lambda>s. update_witness_schedule (update_maintenance_flag maint_needed s)) c4))))"

text \<open>Below the last checkpoint almost every check is skipped.\<close>

definition checkpoint_skip :: "chain_env \<Rightarrow> u32 \<Rightarrow> chain_block \<Rightarrow> u32 result" where
  "checkpoint_skip E skip b =
     (let cs = env_checkpoints E; n = chain_block_num b in
      if cs \<noteq> [] \<and> snd (last cs) \<noteq> null_block_id then
        bind (case map_of cs n of None \<Rightarrow> Inr () | Some i \<Rightarrow> fc_assert (chain_block_id (env_block E) b = i) ''Block did not match checkpoint'') (\<lambda>_.
        Inr (if fst (last cs) \<ge> n then NOT 0 else skip))
      else Inr skip)"

definition apply_block :: "chain_env \<Rightarrow> u32 \<Rightarrow> chain_block \<Rightarrow> chain_db \<Rightarrow> chain_db result" where
  "apply_block E skip b c =
     bind (checkpoint_skip E skip b) (\<lambda>skip'.
     bind (begin_block E skip' b c) (\<lambda>(c1, maint_needed, depth).
     finish_block E maint_needed b c1))"

section \<open>A block keeps the ledger\<close>

primrec block_ready :: "chain_env \<Rightarrow> u32 \<Rightarrow> processed_transaction list \<Rightarrow> chain_db \<Rightarrow> bool" where
  "block_ready E skip [] c \<longleftrightarrow> True"
| "block_ready E skip (tx # txs) c \<longleftrightarrow>
     operations_ready (env_fc E) (env_fees E) fresh_evaluation_state (operations (fst tx)) (state c) \<and>
     (case apply_transaction (env_fc E) (env_crypto E) (env_fees E) skip (fst tx) c of
        Inl e \<Rightarrow> True | Inr (c', rs) \<Rightarrow> block_ready E skip txs c')"

primrec block_core :: "chain_env \<Rightarrow> u32 \<Rightarrow> processed_transaction list \<Rightarrow> chain_db \<Rightarrow> int" where
  "block_core E skip [] c = 0"
| "block_core E skip (tx # txs) c =
     operations_core (env_fc E) (env_fees E) fresh_evaluation_state (operations (fst tx)) (state c) +
     (case apply_transaction (env_fc E) (env_crypto E) (env_fees E) skip (fst tx) c of
        Inl e \<Rightarrow> 0 | Inr (c', rs) \<Rightarrow> block_core E skip txs c')"

lemma block_transactions_step:
  assumes F: "fc_laws (env_fc E)"
  shows "chain_inv (state c) \<Longrightarrow> block_ready E skip txs c \<Longrightarrow> apply_block_transactions E skip txs c = Inr c' \<Longrightarrow>
    chain_inv (state c') \<and> (\<forall>a. ledger a (state c') = ledger a (state c) + core_in a (block_core E skip txs c)) \<and>
    (balances_nonneg (state c) \<longrightarrow> balances_nonneg (state c'))"
proof (induction txs arbitrary: c)
  case (Cons tx txs)
  obtain c1 rs where 1: "apply_transaction (env_fc E) (env_crypto E) (env_fees E) skip (fst tx) c = Inr (c1, rs)"
    and 2: "apply_block_transactions E skip txs c1 = Inr c'"
    using Cons.prems(3) by (auto simp: ok_simps)
  have ops: "apply_operations (env_fc E) (env_fees E) fresh_evaluation_state (operations (fst tx)) (state c) = Inr (state c1, rs)"
    using apply_transaction_Inr(5) [OF 1] by blast
  have rd: "operations_ready (env_fc E) (env_fees E) fresh_evaluation_state (operations (fst tx)) (state c)" "block_ready E skip txs c1"
    using Cons.prems(2) 1 by simp_all
  have "\<not> skip_fee fresh_evaluation_state" by (simp add: fresh_evaluation_state_def)
  note st = apply_operations_step [OF F this Cons.prems(1) rd(1) ops]
  note ih = Cons.IH [OF conjunct1 [OF st] rd(2) 2]
  show ?case using st ih 1 by (auto simp: core_in_def)
qed (auto simp: core_in_def)

lemma update_global_conserves:
  assumes "chain_inv s" "update_global_dynamic_data B skip checkpoints max_undo b s = Inr (s', depth)"
  shows "conserves s s'"
proof -
  obtain slots :: u32 and s1 slot where s1: "fold_result (miss_slot b) [0..<unat (slots - 1)] s = Inr s1"
    and s': "s' = s1\<lparr>dgp := advance_dgp B checkpoints b (slot - 1) (dgp s1)\<rparr>"
    using assms(2) unfolding update_global_dynamic_data_def bind_eq_Inr Let_def sum.inject prod.inject by blast
  have 1: "conserves s s1" by (rule miss_slots_conserve [OF s1 assms(1)])
  then have "conserves s1 s'" by (simp add: s' conserves_def ledger_dgp advance_dgp_def)
  with 1 show ?thesis by (rule conserves_trans)
qed

lemma update_irreversible_conserves:
  assumes "chain_inv s" "update_last_irreversible_block checkpoints s = Inr s'"
  shows "conserves s s'"
  using assms by (auto simp: update_last_irreversible_block_def ok_simps Let_def conserves_def ledger_dgp)

lemma settle_block_conserves:
  assumes F: "fc_laws (env_fc E)" and inv: "chain_inv s" and nn: "balances_nonneg s" and ok: "settle_block E maint b s = Inr s'"
  shows "conserves s s'"
proof -
  obtain s1 s2 where 1: "update_signing_witness (env_fc E) (blk_witness b) b s = Inr s1"
    and 2: "update_last_irreversible_block (env_checkpoints E) s1 = Inr s2"
    and 3: "(if maint then perform_chain_maintenance (env_fc E) (env_min_witness_count E) (env_min_committee_member_count E)
             (chain_block_num b) (blk_timestamp b) s2 else Inr s2) = Inr s'"
    using ok unfolding settle_block_def bind_eq_Inr by blast
  note c1 = signing_witness_conserves [OF F inv 1]
  then have "chain_inv s1" by (simp add: conserves_def)
  note c2 = conserves_trans [OF c1 update_irreversible_conserves [OF this 2]]
  then have i2: "chain_inv s2" "balances_nonneg s2" using nn by (simp_all add: conserves_def)
  have "conserves s2 s'" using 3 maintenance_conserves [OF F i2] i2 by (auto split: if_splits)
  with c2 show "conserves s s'" by (rule conserves_trans)
qed

lemma expire_objects_conserves:
  assumes F: "fc_laws (env_fc E)" and inv: "chain_inv s" and ok: "expire_objects E s = Inr s'"
  shows "conserves s s'"
proof -
  let ?s0 = "hard_fork_fast_update_fee s"
  obtain s1 s2 where 1: "clear_expired_orders (env_fc E) (env_fees E) ?s0 = Inr s1"
    and 2: "update_expired_feeds (env_fc E) s1 = Inr s2" and 3: "update_withdraw_permissions s2 = Inr s'"
    using ok by (auto simp: expire_objects_def ok_simps)
  have c0: "conserves s ?s0" using inv by (simp add: hard_fork_fast_update_fee_def conserves_def)
  then have "chain_inv ?s0" by (simp add: conserves_def)
  note sh = fc_laws.clear_expired_orders_shifts [OF F this 1]
  note c1 = conserves_trans [OF c0 shifts_conserves [OF sh]]
  then have i1: "chain_inv s1" by (simp add: conserves_def)
  note c2 = conserves_trans [OF c1 fc_laws.update_expired_feeds_conserves [OF F i1 2]]
  then have i2: "chain_inv s2" by (simp add: conserves_def)
  from conserves_trans [OF c2 conjunct1 [OF permit_loop [OF i2 3]]] show "conserves s s'" .
qed

lemma schedule_conserves:
  assumes "chain_inv s" "update_witness_schedule (update_maintenance_flag f s) = Inr s'"
  shows "conserves s s'"
  using assms by (auto simp: update_witness_schedule_def update_maintenance_flag_def Let_def conserves_def ledger_dgp split: if_splits)

lemma schedule_head: "update_witness_schedule (update_maintenance_flag f s) = Inr s' \<Longrightarrow> same_head s s'"
  by (auto simp: update_witness_schedule_def update_maintenance_flag_def Let_def same_head_def split: if_splits)

lemma on_state_Inr: "on_state f c = Inr c' \<longleftrightarrow> (\<exists>s. f (state c) = Inr s \<and> c' = c\<lparr>state := s\<rparr>)"
  by (auto simp: on_state_def ok_simps)

lemma finish_block_Inr:
  assumes "finish_block E maint b c = Inr c'"
  shows "\<exists>s1 s2. settle_block E maint b (state c) = Inr s1 \<and> expire_objects E s1 = Inr s2 \<and>
    update_witness_schedule (update_maintenance_flag maint s2) = Inr (state c')"
  using assms
  by (fastforce simp: finish_block_def on_state_Inr create_block_summary_def clear_expired_transactions_def ok_simps Let_def)

lemma finish_block_conserves:
  assumes F: "fc_laws (env_fc E)" and inv: "chain_inv (state c)" and nn: "balances_nonneg (state c)"
    and ok: "finish_block E maint b c = Inr c'"
  shows "conserves (state c) (state c')"
proof -
  obtain s1 s2 where 1: "settle_block E maint b (state c) = Inr s1" and 2: "expire_objects E s1 = Inr s2"
    and 3: "update_witness_schedule (update_maintenance_flag maint s2) = Inr (state c')"
    using finish_block_Inr [OF ok] by blast
  note a = settle_block_conserves [OF F inv nn 1]
  then have "chain_inv s1" by (simp add: conserves_def)
  note b = conserves_trans [OF a expire_objects_conserves [OF F this 2]]
  then have "chain_inv s2" by (simp add: conserves_def)
  from conserves_trans [OF b schedule_conserves [OF this 3]] show ?thesis .
qed

text \<open>The block that was applied is the head, whatever it contains.\<close>

lemma finish_block_head:
  assumes "finish_block E maint b c = Inr c'"
  shows "same_head (state c) (state c')"
proof -
  obtain s1 s2 where 1: "settle_block E maint b (state c) = Inr s1" and 2: "expire_objects E s1 = Inr s2"
    and 3: "update_witness_schedule (update_maintenance_flag maint s2) = Inr (state c')"
    using finish_block_Inr [OF assms] by blast
  obtain u v where u: "update_signing_witness (env_fc E) (blk_witness b) b (state c) = Inr u"
    and v: "update_last_irreversible_block (env_checkpoints E) u = Inr v"
    and w: "(if maint then perform_chain_maintenance (env_fc E) (env_min_witness_count E) (env_min_committee_member_count E)
             (chain_block_num b) (blk_timestamp b) v else Inr v) = Inr s1"
    using 1 unfolding settle_block_def bind_eq_Inr by blast
  have "same_head u v" using v by (auto simp: update_last_irreversible_block_def ok_simps Let_def same_head_def)
  then have "same_head (state c) v" using pay_signing_witness_head [OF u] by (rule same_head_trans [rotated])
  moreover have "same_head v s1" using w maintenance_head by (auto simp: same_head_def split: if_splits)
  moreover have "kept (\<lambda>s. s) (dgp s1) (expire_objects E s1)"
    unfolding expire_objects_def clear_expired_orders_def by (intro kept_intros) (simp add: hard_fork_fast_update_fee_def)
  then have "same_head s1 s2" by (intro same_head_dgp keptD [OF _ 2])
  moreover have "same_head s2 (state c')" by (rule schedule_head [OF 3])
  ultimately show ?thesis by (simp add: same_head_def)
qed

lemma update_global_head:
  assumes "update_global_dynamic_data B skip checkpoints max_undo b s = Inr (s', depth)"
  shows "head_block_id (dgp s') = chain_block_id B b" "head_block_number (dgp s') = chain_block_num b" "dgp_time (dgp s') = blk_timestamp b"
  using assms by (auto simp: update_global_dynamic_data_def advance_dgp_def ok_simps Let_def)

lemma apply_block_head:
  assumes "apply_block E skip b c = Inr c'"
  shows "head_block_id (dgp (state c')) = chain_block_id (env_block E) b" "head_block_number (dgp (state c')) = chain_block_num b"
    "head_block_time (state c') = blk_timestamp b"
proof -
  obtain skip' c1 s maint depth where
    2: "update_global_dynamic_data (env_block E) skip' (env_checkpoints E) (env_max_undo E) b (state c1) = Inr (s, depth)"
    and 3: "finish_block E maint b (c1\<lparr>state := s\<rparr>) = Inr c'"
    using assms by (auto simp: apply_block_def begin_block_def ok_simps Let_def)
  show "head_block_id (dgp (state c')) = chain_block_id (env_block E) b" "head_block_number (dgp (state c')) = chain_block_num b"
    "head_block_time (state c') = blk_timestamp b"
    using update_global_head [OF 2] finish_block_head [OF 3] by (simp_all add: same_head_def head_block_time_def)
qed

lemma apply_block_step:
  assumes F: "fc_laws (env_fc E)" and inv: "chain_inv (state c)" and nn: "balances_nonneg (state c)"
    and skip: "checkpoint_skip E skip b = Inr skip'" and ready: "block_ready E skip' (blk_transactions b) c"
    and ok: "apply_block E skip b c = Inr c'"
  shows "chain_inv (state c')" "balances_nonneg (state c')"
    "ledger a (state c') = ledger a (state c) + core_in a (block_core E skip' (blk_transactions b) c)"
proof -
  obtain c1 s maint depth where 1: "apply_block_transactions E skip' (blk_transactions b) c = Inr c1"
    and 2: "update_global_dynamic_data (env_block E) skip' (env_checkpoints E) (env_max_undo E) b (state c1) = Inr (s, depth)"
    and 3: "finish_block E maint b (c1\<lparr>state := s\<rparr>) = Inr c'"
    using ok skip by (auto simp: apply_block_def begin_block_def ok_simps Let_def)
  note t = block_transactions_step [OF F inv ready 1]
  have i1: "chain_inv (state c1)" "balances_nonneg (state c1)" using t nn by simp_all
  note u = update_global_conserves [OF i1(1) 2]
  have i2: "chain_inv (state (c1\<lparr>state := s\<rparr>))" "balances_nonneg (state (c1\<lparr>state := s\<rparr>))" using u i1 by (simp_all add: conserves_def)
  note f = finish_block_conserves [OF F i2 3]
  show "chain_inv (state c')" "balances_nonneg (state c')"
    "ledger a (state c') = ledger a (state c) + core_in a (block_core E skip' (blk_transactions b) c)"
    using f u t i1 i2 by (auto simp: conserves_def)
qed

section \<open>Properties\<close>


definition demo_chain_env :: chain_env where
  "demo_chain_env = \<lparr> env_fc = fc_int64, env_crypto = demo_crypto, env_block = demo_block_lib, env_fees = (\<lambda>op s. 10),
     env_min_witness_count = 3, env_min_committee_member_count = 1, env_checkpoints = [], env_max_undo = 10000,
     env_block_size = (\<lambda>b. 100 + length (blk_transactions b)), env_header_size = 100, env_public_key = (\<lambda>k. k), env_sign = (\<lambda>k b. k) \<rparr>"

definition demo_head :: chain_db where
  "demo_head = demo_chain_db\<lparr>state := put_witnesses (witnesses demo_witnesses) ((state demo_chain_db)\<lparr>active_witnesses := [0, 1, 2],
     current_shuffled_witnesses := [2, 0, 1]\<rparr>), block_summaries := [3 \<mapsto> 77, 10 \<mapsto> 0, 11 \<mapsto> 0, 12 \<mapsto> 0]\<rparr>"

definition demo_full_block :: chain_block where
  "demo_full_block = demo_new_block\<lparr>blk_merkle_root := 2, blk_transactions := [(demo_trx, [])]\<rparr>"

lemma demo_head_inv: "chain_inv (state demo_head)" "balances_nonneg (state demo_head)"
proof -
  have "chain_inv ((state demo_chain_db)\<lparr>active_witnesses := [0, 1, 2], current_shuffled_witnesses := [2, 0, 1]\<rparr>)"
    using demo_chain_db_inv(1) by simp
  from witness_tab.inv_put [OF this, of "witnesses demo_witnesses"] show "chain_inv (state demo_head)"
    by (simp add: demo_head_def demo_witnesses_def index_inv_def sorted_rows_def rows_ok_def)
  show "balances_nonneg (state demo_head)" using demo_chain_db_inv(2) by (simp add: demo_head_def balances_nonneg_def)
qed


end
