(* ===== verification/Block_Database.thy ===== *)
theory Block_Database
  imports Fork_Database
begin

text \<open>
  The blocks on disk (block_database.cpp): a file of index entries, one per block number, and a file of packed blocks to which blocks are
  only appended.

  The files are lists. Writing an entry behind the end of the index fills the gap with empty entries, as the file system does. A
  position in the file of blocks is the number of blocks before it; packing belongs to the fc library, and \<open>size_of\<close> gives the size of a
  packed block. Unpacking what was read throws when nothing was read, and the fetching functions turn every exception into no result.
\<close>

section \<open>The files\<close>

record index_entry =
  block_pos :: nat
  block_size :: nat
  entry_id :: block_id

definition empty_entry :: index_entry where
  "empty_entry = \<lparr> block_pos = 0, block_size = 0, entry_id = null_block_id \<rparr>"

record 'b block_database =
  block_num_to_pos :: "index_entry list"
  blocks :: "'b list"

definition empty_block_database :: "'b block_database" where
  "empty_block_database = \<lparr> block_num_to_pos = [], blocks = [] \<rparr>"

text \<open>Writing an entry: the index grows to the position first.\<close>

definition write_entry :: "nat \<Rightarrow> index_entry \<Rightarrow> index_entry list \<Rightarrow> index_entry list" where
  "write_entry n e xs = (xs @ replicate (Suc n - length xs) empty_entry)[n := e]"

definition bdb_store :: "('b \<Rightarrow> block_id) \<Rightarrow> ('b \<Rightarrow> nat) \<Rightarrow> block_id \<Rightarrow> 'b \<Rightarrow> 'b block_database \<Rightarrow> 'b block_database" where
  "bdb_store id_of size_of i0 b d =
     (let i = (if i0 = null_block_id then id_of b else i0);
          e = \<lparr> block_pos = length (blocks d), block_size = size_of b, entry_id = i \<rparr> in
      d\<lparr>blocks := blocks d @ [b], block_num_to_pos := write_entry (unat (num_from_id i)) e (block_num_to_pos d)\<rparr>)"

definition entry_at :: "u32 \<Rightarrow> 'b block_database \<Rightarrow> index_entry option" where
  "entry_at n d = (if length (block_num_to_pos d) \<le> unat n then None else Some (block_num_to_pos d ! unat n))"

definition bdb_remove :: "block_id \<Rightarrow> 'b block_database \<Rightarrow> 'b block_database result" where
  "bdb_remove i d =
     (case entry_at (num_from_id i) d of
        None \<Rightarrow> Inl (Chain_Exception ''key_not_found_exception'')
      | Some e \<Rightarrow>
          Inr (if entry_id e = i
               then d\<lparr>block_num_to_pos := write_entry (unat (num_from_id i)) (e\<lparr>block_size := 0\<rparr>) (block_num_to_pos d)\<rparr> else d))"

definition bdb_contains :: "block_id \<Rightarrow> 'b block_database \<Rightarrow> bool" where
  "bdb_contains i d \<longleftrightarrow> i \<noteq> null_block_id \<and>
     (case entry_at (num_from_id i) d of None \<Rightarrow> False | Some e \<Rightarrow> entry_id e = i \<and> block_size e > 0)"

definition bdb_fetch_block_id :: "u32 \<Rightarrow> 'b block_database \<Rightarrow> block_id result" where
  "bdb_fetch_block_id n d =
     (case entry_at n d of
        None \<Rightarrow> Inl (Chain_Exception ''key_not_found_exception'')
      | Some e \<Rightarrow> bind (fc_assert (entry_id e \<noteq> null_block_id) ''Empty block_id in block_database'') (\<lambda>_. Inr (entry_id e)))"

definition read_block :: "index_entry \<Rightarrow> 'b block_database \<Rightarrow> 'b option" where
  "read_block e d = (if block_size e = 0 \<or> length (blocks d) \<le> block_pos e then None else Some (blocks d ! block_pos e))"

definition checked_block :: "('b \<Rightarrow> block_id) \<Rightarrow> index_entry \<Rightarrow> 'b block_database \<Rightarrow> 'b option" where
  "checked_block id_of e d =
     (case read_block e d of None \<Rightarrow> None | Some b \<Rightarrow> if id_of b = entry_id e then Some b else None)"

definition bdb_fetch_optional :: "('b \<Rightarrow> block_id) \<Rightarrow> block_id \<Rightarrow> 'b block_database \<Rightarrow> 'b option" where
  "bdb_fetch_optional id_of i d =
     (case entry_at (num_from_id i) d of
        None \<Rightarrow> None
      | Some e \<Rightarrow> if entry_id e \<noteq> i then None else checked_block id_of e d)"

definition bdb_fetch_by_number :: "('b \<Rightarrow> block_id) \<Rightarrow> u32 \<Rightarrow> 'b block_database \<Rightarrow> 'b option" where
  "bdb_fetch_by_number id_of n d = (case entry_at n d of None \<Rightarrow> None | Some e \<Rightarrow> checked_block id_of e d)"

definition last_entry :: "'b block_database \<Rightarrow> index_entry option" where
  "last_entry d = List.find (\<lambda>e. block_size e \<noteq> 0) (rev (block_num_to_pos d))"

definition bdb_last :: "'b block_database \<Rightarrow> 'b option" where
  "bdb_last d = (case last_entry d of None \<Rightarrow> None | Some e \<Rightarrow> read_block e d)"

definition bdb_last_id :: "'b block_database \<Rightarrow> block_id option" where
  "bdb_last_id d = map_option entry_id (last_entry d)"

section \<open>What is stored is found\<close>

lemma unat_eq_u32: "unat m = unat n \<longleftrightarrow> m = (n :: u32)"
  by (metis of_nat_unat ucast_id)

lemma entry_at_write:
  "entry_at m (d\<lparr>blocks := bs, block_num_to_pos := write_entry (unat n) e (block_num_to_pos d)\<rparr>) =
     (if m = n then Some e else if unat m < length (block_num_to_pos d) then entry_at m d else if m < n then Some empty_entry else None)"
proof -
  have "unat m = unat n"
    if "\<not> length xs + (Suc (unat n) - length xs) \<le> unat m" "\<not> unat m < unat n" "\<not> unat m < length xs" for xs :: "index_entry list"
    using that by linarith
  then show ?thesis by (auto simp: entry_at_def write_entry_def nth_append word_less_nat_alt unat_eq_u32)
qed

lemma entry_at_store:
  "entry_at m (bdb_store id_of size_of i b d) =
     (let j = (if i = null_block_id then id_of b else i) in
      if m = num_from_id j then Some \<lparr> block_pos = length (blocks d), block_size = size_of b, entry_id = j \<rparr>
      else if unat m < length (block_num_to_pos d) then entry_at m d else if m < num_from_id j then Some empty_entry else None)"
  unfolding bdb_store_def Let_def by (rule entry_at_write)

lemma entry_at_remove:
  assumes "bdb_remove i d = Inr d'"
  shows "\<exists>e. entry_at (num_from_id i) d = Some e \<and> blocks d' = blocks d \<and>
    entry_at m d' = (if m = num_from_id i \<and> entry_id e = i then Some (e\<lparr>block_size := 0\<rparr>) else entry_at m d)"
proof -
  obtain e where e: "entry_at (num_from_id i) d = Some e"
    and d': "d' = (if entry_id e = i then d\<lparr>block_num_to_pos := write_entry (unat (num_from_id i)) (e\<lparr>block_size := 0\<rparr>) (block_num_to_pos d)\<rparr> else d)"
    using assms by (auto simp: bdb_remove_def split: option.splits)
  have l: "unat (num_from_id i) < length (block_num_to_pos d)" using e by (auto simp: entry_at_def split: if_splits)
  have "entry_at m d' = (if m = num_from_id i \<and> entry_id e = i then Some (e\<lparr>block_size := 0\<rparr>) else entry_at m d)"
    using l by (auto simp: d' entry_at_def write_entry_def nth_list_update unat_eq_u32)
  then show ?thesis using e d' by auto
qed

section \<open>Properties\<close>



text \<open>A block stored under the id of another block is contained in the database and cannot be fetched.\<close>

lemma misplaced_block:
  assumes "0 < size_of b" "i \<noteq> null_block_id" "id_of b \<noteq> i"
  shows "bdb_contains i (bdb_store id_of size_of i b d)" "bdb_fetch_optional id_of i (bdb_store id_of size_of i b d) = None"
    "bdb_fetch_by_number id_of (num_from_id i) (bdb_store id_of size_of i b d) = None"
proof -
  let ?d' = "bdb_store id_of size_of i b d"
  let ?e = "\<lparr> block_pos = length (blocks d), block_size = size_of b, entry_id = i \<rparr>"
  have at: "entry_at (num_from_id i) ?d' = Some ?e" and bl: "blocks ?d' = blocks d @ [b]"
    using assms(2) by (simp_all add: entry_at_store) (simp add: bdb_store_def Let_def)
  then have "checked_block id_of ?e ?d' = None" using assms by (simp add: checked_block_def read_block_def)
  then show "bdb_contains i ?d'" "bdb_fetch_optional id_of i ?d' = None" "bdb_fetch_by_number id_of (num_from_id i) ?d' = None"
    using at assms by (simp_all add: bdb_contains_def bdb_fetch_optional_def bdb_fetch_by_number_def)
qed

end
