(* ===== verification/Chain_Control.thy ===== *)
theory Chain_Control
  imports Block_Apply Block_Database
begin

text \<open>
  The chain as a node controls it (db_block.cpp): pushing a block, switching to a longer fork, popping blocks, producing a block.

  The state of a node is the pool of pending transactions with the chain state, the undo history, the fork database and the
  blocks on disk. The undo history is the list of the states before each block, latest first: undoing the changes a session recorded returns to
  the state at its start (\<^verbatim>\<open>Undo_Database\<close>). Functions that throw after changing the node return the changed node with the error.

  Setting the sizes of the undo and fork databases is not undone when the block fails afterwards, as in the code. States beyond the size of the
  undo history are dropped when the session of the next block starts; the sessions of pending transactions may drop them earlier. The fork database holds blocks with their
  previous id beside them (\<open>fork_block\<close>).
\<close>

unbundle bit_operations_syntax

section \<open>The state of a node\<close>

record chain_node =
  pool :: node
  undo_states :: "chain_db list"
  undo_max :: u32
  forks :: "chain_block fork_db"
  store :: "chain_block block_database"

definition skip_fork_db :: u32 where "skip_fork_db = push_bit 3 1"
definition skip_block_size_check :: u32 where "skip_block_size_check = push_bit 4 1"

definition fork_block :: "chain_block \<Rightarrow> chain_block signed_block" where
  "fork_block b = \<lparr> previous = blk_previous b, contents = b \<rparr>"

definition fork_hash :: "chain_env \<Rightarrow> chain_block signed_block \<Rightarrow> nat" where
  "fork_hash E fb = block_digest (env_block E) (contents fb)"

definition id_of_block :: "chain_env \<Rightarrow> chain_block \<Rightarrow> block_id" where
  "id_of_block E b = chain_block_id (env_block E) b"

definition node_head_id :: "chain_node \<Rightarrow> block_id" where
  "node_head_id n = head_block_id (dgp (state (current (pool n))))"

definition node_head_num :: "chain_node \<Rightarrow> u32" where
  "node_head_num n = head_block_number (dgp (state (current (pool n))))"

section \<open>Known blocks\<close>

definition chain_is_known_block :: "block_id \<Rightarrow> chain_node \<Rightarrow> bool" where
  "chain_is_known_block i n \<longleftrightarrow> is_known_block (forks n) i \<or> bdb_contains i (store n)"

definition fetch_block_by_id :: "chain_env \<Rightarrow> block_id \<Rightarrow> chain_node \<Rightarrow> chain_block option" where
  "fetch_block_by_id E i n =
     (case fetch_block (forks n) i of
        Some it \<Rightarrow> Some (contents (data it))
      | None \<Rightarrow> bdb_fetch_optional (id_of_block E) i (store n))"

definition chain_fetch_by_number :: "chain_env \<Rightarrow> u32 \<Rightarrow> chain_node \<Rightarrow> chain_block option" where
  "chain_fetch_by_number E bn n =
     (let results = fetch_block_by_number (forks n) bn in
      if length results = 1 then Some (contents (data (hd results))) else bdb_fetch_by_number (id_of_block E) bn (store n))"

definition get_block_id_for_num :: "u32 \<Rightarrow> chain_node \<Rightarrow> block_id result" where
  "get_block_id_for_num bn n = bdb_fetch_block_id bn (store n)"

definition get_recent_transaction :: "nat \<Rightarrow> chain_node \<Rightarrow> signed_transaction result" where
  "get_recent_transaction trx_id n =
     (case find_row (\<lambda>t. tr_id t = trx_id) (transactions (current (pool n))) of
        None \<Rightarrow> Inl (Assert_Exception ''itr != index.end()'')
      | Some (k, t) \<Rightarrow> Inr (tr_trx t))"

definition branch_fuel :: "chain_node \<Rightarrow> nat" where
  "branch_fuel n = Suc (length (fork_index (forks n)) + length (unlinked_index (forks n)))"

definition get_block_ids_on_fork :: "block_id \<Rightarrow> chain_node \<Rightarrow> block_id list result" where
  "get_block_ids_on_fork head_of_fork n =
     bind (fetch_branch_from (branch_fuel n) (forks n) (node_head_id n) head_of_fork) (\<lambda>(firsts, seconds).
     Inr (map item_id seconds @ [previous (data (last firsts))]))"

section \<open>Checkpoints\<close>

text \<open>The checkpoints are a map in key order.\<close>

fun put_checkpoint :: "u32 \<times> block_id \<Rightarrow> (u32 \<times> block_id) list \<Rightarrow> (u32 \<times> block_id) list" where
  "put_checkpoint c [] = [c]"
| "put_checkpoint c (d # ds) = (if fst c < fst d then c # d # ds else if fst c = fst d then c # ds else d # put_checkpoint c ds)"

definition add_checkpoints :: "(u32 \<times> block_id) list \<Rightarrow> chain_env \<Rightarrow> chain_env" where
  "add_checkpoints checkpts E = E\<lparr>env_checkpoints := fold put_checkpoint checkpts (env_checkpoints E)\<rparr>"

definition before_last_checkpoint :: "chain_env \<Rightarrow> chain_node \<Rightarrow> bool" where
  "before_last_checkpoint E n \<longleftrightarrow> env_checkpoints E \<noteq> [] \<and> fst (last (env_checkpoints E)) \<ge> node_head_num n"

lemma put_checkpoint_map: "map_of (put_checkpoint c cs) = (map_of cs)(fst c \<mapsto> snd c)" if "sorted_wrt (\<lambda>x y. fst x < fst y) cs"
  using that by (induction cs) (auto simp: fun_eq_iff)

lemma put_checkpoint_keys: "fst ` set (put_checkpoint c cs) = insert (fst c) (fst ` set cs)"
  by (induction cs) auto

lemma put_checkpoint_sorted:
  "sorted_wrt (\<lambda>x y. fst x < fst y) cs \<Longrightarrow> sorted_wrt (\<lambda>x y. fst x < fst y) (put_checkpoint c cs)"
proof (induction cs)
  case (Cons d ds)
  then have "\<forall>k \<in> fst ` set (put_checkpoint c ds). fst d < k" if "fst d < fst c" using that by (auto simp: put_checkpoint_keys)
  with Cons show ?case by auto
qed simp

text \<open>Adding checkpoints keeps the map in order and changes no other entry.\<close>

lemma add_checkpoints_map:
  assumes "sorted_wrt (\<lambda>x y. fst x < fst y) (env_checkpoints E)"
  shows "sorted_wrt (\<lambda>x y. fst x < fst y) (env_checkpoints (add_checkpoints cs E)) \<and>
    map_of (env_checkpoints (add_checkpoints cs E)) = map_of (env_checkpoints E) ++ map_of (rev cs)"
proof -
  have "sorted_wrt (\<lambda>x y. fst x < fst y) ds \<Longrightarrow> sorted_wrt (\<lambda>x y. fst x < fst y) (fold put_checkpoint cs ds) \<and>
      map_of (fold put_checkpoint cs ds) = map_of ds ++ map_of (rev cs)" for ds :: "(u32 \<times> block_id) list"
  proof (induction cs arbitrary: ds)
    case (Cons c cs)
    then show ?case using put_checkpoint_sorted [OF Cons.prems, of c] put_checkpoint_map [OF Cons.prems, of c]
      by (cases c) (auto simp: map_add_def fun_eq_iff split: option.splits)
  qed simp
  from this [OF assms] show ?thesis by (simp add: add_checkpoints_def)
qed

section \<open>Popping blocks\<close>

definition chain_pop_block :: "chain_env \<Rightarrow> chain_node \<Rightarrow> chain_node \<times> unit result" where
  "chain_pop_block E n =
     (let n1 = n\<lparr>pool := reset_pending_session (pool n)\<rparr>; head_id = node_head_id n1 in
      case fetch_block_by_id E head_id n1 of
        None \<Rightarrow> (n1, Inl (Chain_Exception ''pop_empty_chain''))
      | Some head_block \<Rightarrow>
          (case pop_block (forks n1) of
             Inl e \<Rightarrow> (n1, Inl e)
           | Inr d \<Rightarrow>
               let n2 = n1\<lparr>forks := d\<rparr> in
               (case bdb_remove head_id (store n2) of
                  Inl e \<Rightarrow> (n2, Inl e)
                | Inr st \<Rightarrow>
                    let n3 = n2\<lparr>store := st\<rparr> in
                    (case undo_states n3 of
                       [] \<Rightarrow> (n3, Inl (Assert_Exception ''!_stack.empty()''))
                     | c # cs \<Rightarrow>
                         (n3\<lparr>undo_states := cs,
                            pool := (pool n3)\<lparr>current := c, popped_tx := blk_transactions head_block @ popped_tx (pool n3)\<rparr>\<rparr>, Inr ())))))"

lemma chain_pop_block_Inr:
  assumes "chain_pop_block E n = (n', Inr u)"
  shows "\<exists>cs. undo_states n = current (pool n') # cs \<and> undo_states n' = cs"
  using assms by (auto simp: chain_pop_block_def Let_def split: option.splits sum.splits list.splits)

text \<open>The loops that pop down to a block end because every round takes a state off the undo history.\<close>

function pop_to :: "chain_env \<Rightarrow> block_id \<Rightarrow> chain_node \<Rightarrow> chain_node \<times> unit result" where
  "pop_to E i n =
     (if node_head_id n = i then (n, Inr ())
      else case chain_pop_block E n of (n', r) \<Rightarrow> (case r of Inl e \<Rightarrow> (n', Inl e) | Inr u \<Rightarrow> pop_to E i n'))"
  by pat_completeness auto

termination
  by (relation "measure (\<lambda>(E, i, n). length (undo_states n))") (auto dest: chain_pop_block_Inr [OF sym])

declare pop_to.simps [simp del]

section \<open>Applying blocks in a session\<close>

definition start_of_block :: "chain_env \<Rightarrow> u32 \<Rightarrow> chain_block \<Rightarrow> chain_db \<Rightarrow> (chain_db \<times> bool \<times> u32) result" where
  "start_of_block E skip b c = bind (checkpoint_skip E skip b) (\<lambda>skip'. begin_block E skip' b c)"

text \<open>One block in an undo session: on success the session is committed and the block is stored under the given id.\<close>

definition try_block :: "chain_env \<Rightarrow> u32 \<Rightarrow> block_id \<Rightarrow> chain_block \<Rightarrow> chain_node \<Rightarrow> chain_node \<times> unit result" where
  "try_block E skip key b n =
     (let c = current (pool n); n1 = n\<lparr>undo_states := take (unat (undo_max n)) (undo_states n)\<rparr> in
      case start_of_block E skip b c of
        Inl e \<Rightarrow> (n1, Inl e)
      | Inr (c1, maint_needed, depth) \<Rightarrow>
          let n2 = n1\<lparr>undo_max := depth, forks := fork_set_max_size depth (forks n1)\<rparr> in
          (case finish_block E maint_needed b c1 of
             Inl e \<Rightarrow> (n2, Inl e)
           | Inr c2 \<Rightarrow>
               (n2\<lparr>undo_states := c # undo_states n2, pool := (pool n2)\<lparr>current := c2\<rparr>,
                  store := bdb_store (id_of_block E) (env_block_size E) key b (store n2)\<rparr>, Inr ())))"

fun apply_branch ::
  "chain_env \<Rightarrow> u32 \<Rightarrow> chain_block fork_item list \<Rightarrow> chain_node \<Rightarrow> chain_node \<times> (chain_error \<times> chain_block fork_item list) option" where
  "apply_branch E skip [] n = (n, None)"
| "apply_branch E skip (it # its) n =
     (case try_block E skip (item_id it) (contents (data it)) n of
        (n', Inl e) \<Rightarrow> (n', Some (e, it # its))
      | (n', Inr u) \<Rightarrow> apply_branch E skip its n')"

text \<open>The good fork is stored under the id of the new block, as the code has it.\<close>

fun restore_branch :: "chain_env \<Rightarrow> u32 \<Rightarrow> block_id \<Rightarrow> chain_block fork_item list \<Rightarrow> chain_node \<Rightarrow> chain_node \<times> unit result" where
  "restore_branch E skip key [] n = (n, Inr ())"
| "restore_branch E skip key (it # its) n =
     (case try_block E skip key (contents (data it)) n of
        (n', Inl e) \<Rightarrow> (n', Inl e)
      | (n', Inr u) \<Rightarrow> restore_branch E skip key its n')"

section \<open>Pushing a block\<close>

definition leave_bad_fork ::
  "chain_env \<Rightarrow> u32 \<Rightarrow> block_id \<Rightarrow> chain_error \<Rightarrow> chain_block fork_item list \<Rightarrow> chain_block fork_item list \<Rightarrow> chain_node \<Rightarrow> chain_node \<times> bool result" where
  "leave_bad_fork E skip new_id e rest seconds n =
     (let n1 = n\<lparr>forks := fork_set_head (Some (hd seconds)) (fold (\<lambda>it. fork_remove (item_id it)) rest (forks n))\<rparr> in
      case pop_to E (previous (data (last seconds))) n1 of
        (n2, Inl e') \<Rightarrow> (n2, Inl e')
      | (n2, Inr u) \<Rightarrow>
          (case restore_branch E skip new_id (rev seconds) n2 of
             (n3, Inl e') \<Rightarrow> (n3, Inl e')
           | (n3, Inr u) \<Rightarrow> (n3, Inl e)))"

definition switch_fork :: "chain_env \<Rightarrow> u32 \<Rightarrow> block_id \<Rightarrow> chain_block fork_item \<Rightarrow> chain_node \<Rightarrow> chain_node \<times> bool result" where
  "switch_fork E skip new_id new_head n =
     (case fetch_branch_from (branch_fuel n) (forks n) (item_id new_head) (node_head_id n) of
        Inl e \<Rightarrow> (n, Inl e)
      | Inr (firsts, seconds) \<Rightarrow>
          (case pop_to E (previous (data (last seconds))) n of
             (n1, Inl e) \<Rightarrow> (n1, Inl e)
           | (n1, Inr u) \<Rightarrow>
               (case apply_branch E skip (rev firsts) n1 of
                  (n2, None) \<Rightarrow> (n2, Inr True)
                | (n2, Some (e, rest)) \<Rightarrow> leave_bad_fork E skip new_id e rest seconds n2)))"

definition push_on_head :: "chain_env \<Rightarrow> u32 \<Rightarrow> chain_block \<Rightarrow> chain_node \<Rightarrow> chain_node \<times> bool result" where
  "push_on_head E skip b n =
     (case try_block E skip (id_of_block E b) b n of
        (n', Inl e) \<Rightarrow> (n'\<lparr>forks := fork_remove (id_of_block E b) (forks n')\<rparr>, Inl e)
      | (n', Inr u) \<Rightarrow> (n', Inr False))"

definition push_block_inner :: "chain_env \<Rightarrow> u32 \<Rightarrow> chain_block \<Rightarrow> chain_node \<Rightarrow> chain_node \<times> bool result" where
  "push_block_inner E skip b n =
     (if skips skip skip_fork_db then push_on_head E skip b n
      else
        case push_block (fork_hash E) (forks n) (fork_block b) of
          Inl e \<Rightarrow> (n, Inl e)
        | Inr (d, None) \<Rightarrow> (n\<lparr>forks := d\<rparr>, Inl (Chain_Exception ''null head''))
        | Inr (d, Some new_head) \<Rightarrow>
            let n1 = n\<lparr>forks := d\<rparr> in
            if previous (data new_head) \<noteq> node_head_id n1 then
              if block_num (data new_head) > node_head_num n1 then switch_fork E skip (id_of_block E b) new_head n1
              else (n1, Inr False)
            else push_on_head E skip b n1)"

text \<open>The pending transactions leave the node for the push and are pushed again afterwards.\<close>

definition chain_push_block :: "chain_env \<Rightarrow> u32 \<Rightarrow> chain_block \<Rightarrow> chain_node \<Rightarrow> chain_node \<times> bool result" where
  "chain_push_block E skip b n =
     (case without_pending_transactions (env_fc E) (env_crypto E) (env_fees E) skip
             (\<lambda>p. case push_block_inner E skip b (n\<lparr>pool := p\<rparr>) of (n', r) \<Rightarrow> (pool n', Inr (n', r))) (pool n) of
        (p, Inl e) \<Rightarrow> (n\<lparr>pool := p\<rparr>, Inl e)
      | (p, Inr (n', r)) \<Rightarrow> (n'\<lparr>pool := p\<rparr>, r))"

section \<open>Producing a block\<close>

definition may_produce :: "chain_env \<Rightarrow> u32 \<Rightarrow> time_point_sec \<Rightarrow> nat \<Rightarrow> nat \<Rightarrow> database \<Rightarrow> unit result" where
  "may_produce E skip when witness_id key s =
     bind (get_slot_at_time s when False) (\<lambda>slot_num.
     bind (fc_assert (slot_num > 0) ''slot_num > 0'') (\<lambda>_.
     bind (get_scheduled_witness s slot_num) (\<lambda>scheduled.
     bind (fc_assert (scheduled = witness_id) ''scheduled_witness == witness_id'') (\<lambda>_.
     bind (index_get (witnesses s) witness_id) (\<lambda>w.
     if skips skip skip_witness_signature then Inr ()
     else fc_assert (signing_key w = env_public_key E key) ''signing_key'')))))"

definition generate_block :: "chain_env \<Rightarrow> u32 \<Rightarrow> time_point_sec \<Rightarrow> nat \<Rightarrow> nat \<Rightarrow> chain_node \<Rightarrow> chain_node \<times> chain_block result" where
  "generate_block E skip when witness_id key n =
     (case may_produce E skip when witness_id key (state (current (pool n))) of
        Inl e \<Rightarrow> (n, Inl e)
      | Inr u \<Rightarrow>
          let (p, txs) = pending_block (env_fc E) (env_crypto E) (env_fees E) skip (env_header_size E) (pool n);
              n1 = n\<lparr>pool := p\<rparr>;
              b0 = \<lparr> blk_previous = node_head_id n1, blk_timestamp = when, blk_witness = witness_id, blk_merkle_root = 0, blk_signature = 0,
                     blk_transactions = txs \<rparr>;
              b1 = b0\<lparr>blk_merkle_root := calculate_merkle_root (env_block E) b0\<rparr>;
              b = (if skips skip skip_witness_signature then b1 else b1\<lparr>blk_signature := env_sign E key b1\<rparr>);
              max_size = uint (maximum_block_size (parameters (state (current p)))) in
          if \<not> skips skip skip_block_size_check \<and> int (env_block_size E b) > max_size
          then (n1, Inl (Assert_Exception ''fc::raw::pack_size(pending_block) <= maximum_block_size''))
          else
            (case chain_push_block E skip b n1 of
               (n2, Inl e) \<Rightarrow> (n2, Inl e)
             | (n2, Inr r) \<Rightarrow> (n2, Inr b)))"

section \<open>The undo history\<close>

text \<open>\<open>block_history E c ps\<close>: each state of the list became the one before it by the application of a block, the first became \<open>c\<close>.\<close>

primrec block_history :: "chain_env \<Rightarrow> chain_db \<Rightarrow> chain_db list \<Rightarrow> bool" where
  "block_history E c [] \<longleftrightarrow> True"
| "block_history E c (p # ps) \<longleftrightarrow> (\<exists>skip b. apply_block E skip b p = Inr c) \<and> block_history E p ps"

lemma block_history_take: "block_history E c ps \<Longrightarrow> block_history E c (take k ps)"
  by (induction ps arbitrary: c k) (auto simp: take_Cons split: nat.split)

lemma apply_block_parts:
  "apply_block E skip b c = Inr c' \<longleftrightarrow> (\<exists>c1 m d. start_of_block E skip b c = Inr (c1, m, d) \<and> finish_block E m b c1 = Inr c')"
  by (auto simp: apply_block_def start_of_block_def bind_eq_Inr)

text \<open>A block in a session either applies or leaves the pool alone; the history grows by one state or only loses old ones.\<close>

lemma try_block_cases:
  assumes "try_block E skip key b n = (n', r)"
  obtains (throws) e where "r = Inl e" "pool n' = pool n" "undo_states n' = take (unat (undo_max n)) (undo_states n)"
      "store n' = store n"
  | (applies) "r = Inr ()" "apply_block E skip b (current (pool n)) = Inr (current (pool n'))"
      "pending_session (pool n') = pending_session (pool n)" "pending_tx (pool n') = pending_tx (pool n)"
      "undo_states n' = current (pool n) # take (unat (undo_max n)) (undo_states n)"
      "store n' = bdb_store (id_of_block E) (env_block_size E) key b (store n)"
proof (cases "start_of_block E skip b (current (pool n))")
  case (Inl e)
  then show thesis using assms throws by (auto simp: try_block_def Let_def)
next
  case (Inr x)
  obtain c1 m d where x: "x = (c1, m, d)" by (cases x)
  show thesis
  proof (cases "finish_block E m b c1")
    case (Inl e)
    then show thesis using assms Inr x throws by (auto simp: try_block_def Let_def)
  next
    case (Inr c2)
    then show thesis using assms \<open>start_of_block E skip b (current (pool n)) = Inr x\<close> x applies apply_block_parts
      by (auto simp: try_block_def Let_def)
  qed
qed

definition quiet :: "chain_node \<Rightarrow> bool" where
  "quiet n \<longleftrightarrow> pending_session (pool n) = None \<and> pending_tx (pool n) = []"

definition consistent :: "chain_env \<Rightarrow> chain_node \<Rightarrow> bool" where
  "consistent E n \<longleftrightarrow> quiet n \<and> block_history E (current (pool n)) (undo_states n)"

lemma try_block_consistent: "consistent E n \<Longrightarrow> try_block E skip key b n = (n', r) \<Longrightarrow> consistent E n'"
  by (erule try_block_cases) (auto simp: consistent_def quiet_def intro: block_history_take)

lemma apply_branch_consistent: "consistent E n \<Longrightarrow> apply_branch E skip its n = (n', r) \<Longrightarrow> consistent E n'"
  by (induction its arbitrary: n) (auto split: prod.splits sum.splits dest: try_block_consistent)

lemma restore_branch_consistent: "consistent E n \<Longrightarrow> restore_branch E skip key its n = (n', r) \<Longrightarrow> consistent E n'"
  by (induction its arbitrary: n) (auto split: prod.splits sum.splits dest: try_block_consistent)

lemma pop_block_consistent:
  assumes "consistent E n" "chain_pop_block E n = (n', r)"
  shows "consistent E n'"
  using assms by (auto simp: consistent_def quiet_def chain_pop_block_def reset_pending_session_def Let_def
      split: option.splits sum.splits list.splits)

lemma pop_to_consistent: "consistent E n \<Longrightarrow> pop_to E i n = (n', r) \<Longrightarrow> consistent E n'"
proof (induction E i n rule: pop_to.induct)
  case (1 E i n)
  show ?case
  proof (cases "node_head_id n = i")
    case True
    then show ?thesis using 1(2,3) by (simp add: pop_to.simps [of E i n])
  next
    case False
    obtain m q where m: "chain_pop_block E n = (m, q)" by fastforce
    note c = pop_block_consistent [OF 1(2) m]
    show ?thesis using 1(1) [OF False m [symmetric]] 1(3) c False m by (cases q) (auto simp: pop_to.simps [of E i n])
  qed
qed

lemma consistent_forks [simp]: "consistent E (n\<lparr>forks := d\<rparr>) = consistent E n"
  by (simp add: consistent_def quiet_def)

lemma push_on_head_consistent: "consistent E n \<Longrightarrow> push_on_head E skip b n = (n', r) \<Longrightarrow> consistent E n'"
  by (auto simp: push_on_head_def split: prod.splits sum.splits dest: try_block_consistent)

lemma leave_bad_fork_consistent:
  "consistent E n \<Longrightarrow> leave_bad_fork E skip i e rest seconds n = (n', r) \<Longrightarrow> consistent E n'"
  by (auto simp: leave_bad_fork_def Let_def split: prod.splits sum.splits dest: pop_to_consistent [rotated] restore_branch_consistent)

lemma switch_fork_consistent: "consistent E n \<Longrightarrow> switch_fork E skip i h n = (n', r) \<Longrightarrow> consistent E n'"
  by (auto simp: switch_fork_def split: prod.splits sum.splits option.splits
      elim!: pop_to_consistent [rotated] apply_branch_consistent [rotated] leave_bad_fork_consistent [rotated])

lemma push_block_inner_consistent: "consistent E n \<Longrightarrow> push_block_inner E skip b n = (n', r) \<Longrightarrow> consistent E n'"
  by (auto simp: push_block_inner_def Let_def split: if_splits sum.splits option.splits
      elim!: push_on_head_consistent [rotated] switch_fork_consistent [rotated])

definition node_history :: "chain_env \<Rightarrow> chain_node \<Rightarrow> bool" where
  "node_history E n \<longleftrightarrow> block_history E (head_db (pool n)) (undo_states n)"

lemma cleared_consistent: "node_history E n \<Longrightarrow> consistent E (n\<lparr>pool := clear_pending (pool n)\<rparr>)"
  by (simp add: consistent_def quiet_def node_history_def)

text \<open>A push is the push on the head state with the pool put back around it.\<close>

lemma chain_push_block_cases:
  assumes "chain_push_block E skip b n = (n', r)"
  obtains m where "push_block_inner E skip b (n\<lparr>pool := clear_pending (pool n)\<rparr>) = (m, r)"
    "pending_ok (env_fc E) (env_crypto E) (env_fees E) (pool m) \<Longrightarrow>
       head_db (pool n') = head_db (pool m) \<and> pending_ok (env_fc E) (env_crypto E) (env_fees E) (pool n')"
    "undo_states n' = undo_states m" "forks n' = forks m" "store n' = store m"
proof -
  let ?restore = "restore_transactions (env_fc E) (env_crypto E) (env_fees E) skip"
  obtain m q where m: "push_block_inner E skip b (n\<lparr>pool := clear_pending (pool n)\<rparr>) = (m, q)" by fastforce
  let ?p = "?restore (pending_tx (pool n)) ((?restore (popped_tx (pool m)) (pool m))\<lparr>popped_tx := []\<rparr>)"
  have n': "n' = m\<lparr>pool := ?p\<rparr>" and q: "q = r"
    using assms m by (simp_all add: chain_push_block_def without_pending_transactions_def)
  have "head_db ?p = head_db (pool m) \<and> pending_ok (env_fc E) (env_crypto E) (env_fees E) ?p"
    if "pending_ok (env_fc E) (env_crypto E) (env_fees E) (pool m)"
    using restore_pending [OF that, of skip "popped_tx (pool m)"]
      restore_pending [of "env_fc E" "env_crypto E" "env_fees E" "(?restore (popped_tx (pool m)) (pool m))\<lparr>popped_tx := []\<rparr>"] by simp
  then show thesis using that [of m] m q n' by simp
qed

lemma head_db_None: "pending_session p = None \<Longrightarrow> head_db p = current p"
  by (simp add: head_db_def)

lemma quiet_pending_ok: "quiet n \<Longrightarrow> pending_ok F L fees (pool n) \<and> head_db (pool n) = current (pool n)"
  by (simp add: quiet_def pending_ok_def head_db_def)

lemma chain_push_block_history:
  assumes "node_history E n" "chain_push_block E skip b n = (n', r)"
  shows "node_history E n' \<and> pending_ok (env_fc E) (env_crypto E) (env_fees E) (pool n')"
  using assms(2)
proof (rule chain_push_block_cases)
  fix m
  assume m: "push_block_inner E skip b (n\<lparr>pool := clear_pending (pool n)\<rparr>) = (m, r)"
    and h: "pending_ok (env_fc E) (env_crypto E) (env_fees E) (pool m) \<Longrightarrow>
       head_db (pool n') = head_db (pool m) \<and> pending_ok (env_fc E) (env_crypto E) (env_fees E) (pool n')"
    and u: "undo_states n' = undo_states m"
  have c: "consistent E m" by (rule push_block_inner_consistent [OF cleared_consistent [OF assms(1)] m])
  then have q: "pending_ok (env_fc E) (env_crypto E) (env_fees E) (pool m)" "head_db (pool m) = current (pool m)"
    by (simp_all add: consistent_def quiet_pending_ok)
  show ?thesis using h [OF q(1)] c u q(2) by (simp add: node_history_def consistent_def)
qed

section \<open>The outcome of a push\<close>

text \<open>The search for the branches starts at the item with the id asked for.\<close>

lemma climb_both_hd: "climb_both k d a b as bs = Inr (as', bs') \<Longrightarrow> hd as' = hd (as @ [a]) \<and> as' \<noteq> []"
proof (induction k arbitrary: a b as bs)
  case 0
  then show ?case by (subst (asm) climb_both.simps) (auto split: if_splits)
next
  case (Suc k)
  show ?case
  proof (cases "previous (data a) = previous (data b)")
    case True
    then show ?thesis using Suc.prems by (subst (asm) climb_both.simps) auto
  next
    case False
    then obtain a' b' where "climb_both k d a' b' (as @ [a]) (bs @ [b]) = Inr (as', bs')"
      using Suc.prems by (subst (asm) climb_both.simps) (auto simp: ok_simps)
    from Suc.IH [OF this] show ?thesis by (cases as) auto
  qed
qed

lemma fetch_branch_first:
  assumes "fetch_branch_from k d i j = Inr (as, bs)"
  shows "find_item (fork_index d) i = Some (hd as)" "as \<noteq> []"
proof -
  obtain a b a1 as1 b1 bs1 where f: "find_item (fork_index d) i = Some a" "find_item (fork_index d) j = Some b"
    and c: "climb_to k d (block_num (data b)) a [] = Inr (a1, as1)" and l: "climb_both k d a1 b1 as1 bs1 = Inr (as, bs)"
    using assms by (auto simp: fetch_branch_from_def ok_simps split: option.splits)
  have "hd (as1 @ [a1]) = a" using climb_to_sound [OF c] by simp
  then show "find_item (fork_index d) i = Some (hd as)" "as \<noteq> []" using f(1) climb_both_hd [OF l] by simp_all
qed

text \<open>The fork database holds the blocks under the ids the blocks have.\<close>

definition forks_ok :: "chain_env \<Rightarrow> chain_block fork_db \<Rightarrow> bool" where
  "forks_ok E d \<longleftrightarrow> (\<forall>it \<in> held d. item_id it = id_of_block E (contents (data it)) \<and> previous (data it) = blk_previous (contents (data it)))"

lemma fst_id_of_block: "fst (id_of_block E b) = chain_block_num b"
  by (simp add: id_of_block_def chain_block_id_def)

lemma block_num_forks_ok: "forks_ok E d \<Longrightarrow> it \<in> held d \<Longrightarrow> block_num (data it) = chain_block_num (contents (data it))"
  by (simp add: forks_ok_def block_num_def chain_block_num_def)

lemma make_item_forks_ok:
  "item_id (make_item (fork_hash E) (fork_block b)) = id_of_block E b" "data (make_item (fork_hash E) (fork_block b)) = fork_block b"
  by (simp_all add: make_item_def signed_block_id_def fork_hash_def fork_block_def block_num_def id_of_block_def chain_block_id_def chain_block_num_def)

lemma link_item_same: "link_item d it = Inr it' \<Longrightarrow> item_id it' = item_id it \<and> data it' = data it"
  by (auto simp: link_item_def ok_simps split: if_splits option.splits)

lemma push_block_forks_ok:
  assumes "forks_ok E d" "push_block (fork_hash E) d (fork_block b) = Inr (d', h)"
  shows "forks_ok E d'" "h = fork_head d'"
proof -
  obtain it where l: "link_item d (make_item (fork_hash E) (fork_block b)) = Inr it"
    using assms(2) by (auto simp: push_block_def push_item_def ok_simps)
  have "item_id it = id_of_block E b" "data it = fork_block b" using link_item_same [OF l] by (simp_all add: make_item_forks_ok)
  then have it: "item_id it = id_of_block E (contents (data it)) \<and> previous (data it) = blk_previous (contents (data it))"
    by (simp add: fork_block_def)
  have "held d' \<subseteq> insert it (held d)"
    using assms(2) l by (auto simp: push_block_def push_item_def ok_simps held_def erase_below_def insert_item_def Let_def split: option.splits if_splits)
  then show "forks_ok E d'" using it assms(1) by (auto simp: forks_ok_def)
  show "h = fork_head d'" using assms(2) by (auto simp: push_block_def ok_simps)
qed

lemma apply_branch_replays:
  "apply_branch E skip its n = (n', None) \<Longrightarrow>
     fold_result (apply_block E skip) (map (\<lambda>it. contents (data it)) its) (current (pool n)) = Inr (current (pool n'))"
proof (induction its arbitrary: n)
  case (Cons it its)
  obtain m where t: "try_block E skip (item_id it) (contents (data it)) n = (m, Inr ())" and r: "apply_branch E skip its m = (n', None)"
    using Cons.prems by (auto split: prod.splits sum.splits)
  from t have "apply_block E skip (contents (data it)) (current (pool n)) = Inr (current (pool m))" by (rule try_block_cases) auto
  with Cons.IH [OF r] show ?case by simp
qed simp

lemma try_block_quiet: "quiet n \<Longrightarrow> try_block E skip key b n = (n', r) \<Longrightarrow> quiet n'"
  by (erule try_block_cases) (auto simp: quiet_def)

lemma apply_branch_quiet: "quiet n \<Longrightarrow> apply_branch E skip its n = (n', r) \<Longrightarrow> quiet n'"
  by (induction its arbitrary: n) (auto split: prod.splits sum.splits dest: try_block_quiet)

definition head_of :: "chain_db \<Rightarrow> block_id" where
  "head_of c = head_block_id (dgp (state c))"

lemma pop_to_reaches:
  "quiet n \<Longrightarrow> pop_to E i n = (n', Inr u) \<Longrightarrow>
     node_head_id n' = i \<and> quiet n' \<and> (\<exists>k. current (pool n') = (current (pool n) # undo_states n) ! k \<and> k \<le> length (undo_states n) \<and>
       undo_states n' = drop k (undo_states n) \<and> (\<forall>j < k. head_of ((current (pool n) # undo_states n) ! j) \<noteq> i))"
proof (induction E i n rule: pop_to.induct)
  case (1 E i n)
  show ?case
  proof (cases "node_head_id n = i")
    case True
    then show ?thesis using 1(2,3) by (auto simp: pop_to.simps [of E i n] intro!: exI [of _ 0])
  next
    case False
    then obtain m where m: "chain_pop_block E n = (m, Inr ())" and p: "pop_to E i m = (n', Inr u)"
      using 1(3) by (auto simp: pop_to.simps [of E i n] split: prod.splits sum.splits)
    obtain cs where cs: "undo_states n = current (pool m) # cs" "undo_states m = cs" using chain_pop_block_Inr [OF m] by blast
    have "quiet m" using 1(2) m by (auto simp: quiet_def chain_pop_block_def Let_def split: option.splits sum.splits list.splits)
    from 1(1) [OF False m [symmetric] refl this p] obtain k where "node_head_id n' = i" "quiet n'"
      "current (pool n') = (current (pool m) # cs) ! k" "k \<le> length cs" "undo_states n' = drop k cs"
      "\<forall>j < k. head_of ((current (pool m) # cs) ! j) \<noteq> i" using cs(2) by auto
    then show ?thesis using cs(1) False
      by (intro conjI exI [of _ "Suc k"]) (auto simp: less_Suc_eq_0_disj head_of_def node_head_id_def)
  qed
qed

lemma apply_blocks_head:
  assumes "fold_result (apply_block E skip) (bs @ [b]) c = Inr c'"
  shows "head_block_id (dgp (state c')) = id_of_block E b" "head_block_number (dgp (state c')) = chain_block_num b"
proof -
  obtain c1 where "apply_block E skip b c1 = Inr c'" using assms by (auto simp: fold_result_append ok_simps)
  from apply_block_head [OF this] show "head_block_id (dgp (state c')) = id_of_block E b"
    "head_block_number (dgp (state c')) = chain_block_num b" by (simp_all add: id_of_block_def)
qed

lemma leave_bad_fork_throws: "leave_bad_fork E skip i e rest seconds n = (n', r) \<Longrightarrow> \<exists>e'. r = Inl e'"
  by (auto simp: leave_bad_fork_def Let_def split: prod.splits sum.splits)

lemma switch_fork_outcome:
  assumes q: "quiet n" and ok: "forks_ok E (forks n)" and s: "switch_fork E skip i new_head n = (n', Inr r)"
  shows "r \<and> quiet n' \<and> node_head_id n' = item_id new_head \<and> node_head_num n' = fst (item_id new_head) \<and>
    (\<exists>base bs. base \<in> set (current (pool n) # undo_states n) \<and> bs \<noteq> [] \<and>
       fold_result (apply_block E skip) bs base = Inr (current (pool n')))"
proof -
  obtain firsts seconds m where f: "fetch_branch_from (branch_fuel n) (forks n) (item_id new_head) (node_head_id n) = Inr (firsts, seconds)"
    and p: "pop_to E (previous (data (last seconds))) n = (m, Inr ())" and a: "apply_branch E skip (rev firsts) m = (n', None)" and r
    using s by (auto simp: switch_fork_def split: prod.splits sum.splits option.splits dest: leave_bad_fork_throws)
  have hd: "hd firsts \<in> held (forks n)" "item_id (hd firsts) = item_id new_head" "firsts \<noteq> []"
    using find_item_Some [OF fetch_branch_first(1) [OF f]] fetch_branch_first(2) [OF f] by (auto simp: held_def)
  obtain x xs where xs: "firsts = x # xs" using hd(3) by (cases firsts) simp_all
  let ?bs = "map (\<lambda>it. contents (data it)) (rev firsts)"
  have run: "fold_result (apply_block E skip) ?bs (current (pool m)) = Inr (current (pool n'))" by (rule apply_branch_replays [OF a])
  obtain k where k: "k \<le> length (undo_states n)" "current (pool m) = (current (pool n) # undo_states n) ! k" and "quiet m"
    using pop_to_reaches [OF q p] by blast
  have "current (pool m) \<in> set (current (pool n) # undo_states n)" unfolding k(2) using k(1) by (intro nth_mem) simp
  moreover have "quiet n'" by (rule apply_branch_quiet [OF \<open>quiet m\<close> a])
  moreover have "id_of_block E (contents (data x)) = item_id new_head" using ok hd xs by (simp add: forks_ok_def)
  then have "node_head_id n' = item_id new_head" "node_head_num n' = fst (item_id new_head)"
    using apply_blocks_head [of E skip "map (\<lambda>it. contents (data it)) (rev xs)" "contents (data x)"] run xs
    by (auto simp: node_head_id_def node_head_num_def simp flip: fst_id_of_block [of E])
  ultimately show ?thesis using run \<open>r\<close> hd(3) by (intro conjI exI [of _ "current (pool m)"] exI [of _ ?bs]) simp_all
qed

lemma push_on_head_outcome:
  assumes "quiet n" "push_on_head E skip b n = (n', r)"
  shows "quiet n' \<and> (case r of Inl e \<Rightarrow> current (pool n') = current (pool n)
    | Inr switched \<Rightarrow> \<not> switched \<and> apply_block E skip b (current (pool n)) = Inr (current (pool n')))"
proof -
  obtain m q where t: "try_block E skip (id_of_block E b) b n = (m, q)" by fastforce
  from t show ?thesis
    by (rule try_block_cases) (use assms t in \<open>auto simp: push_on_head_def quiet_def\<close>)
qed

definition switches :: "chain_env \<Rightarrow> u32 \<Rightarrow> chain_block \<Rightarrow> chain_node \<Rightarrow> bool" where
  "switches E skip b n \<longleftrightarrow> \<not> skips skip skip_fork_db \<and>
     (case push_block (fork_hash E) (forks n) (fork_block b) of
        Inr (d, Some h) \<Rightarrow> previous (data h) \<noteq> head_block_id (dgp (state (head_db (pool n)))) \<and>
          head_block_number (dgp (state (head_db (pool n)))) < block_num (data h)
      | _ \<Rightarrow> False)"

lemma push_block_inner_stays:
  assumes "quiet n" "\<not> switches E skip b n" "push_block_inner E skip b n = (n', r)"
  shows "quiet n' \<and> (case r of Inl e \<Rightarrow> current (pool n') = current (pool n)
    | Inr switched \<Rightarrow> \<not> switched \<and> (current (pool n') = current (pool n) \<or> apply_block E skip b (current (pool n)) = Inr (current (pool n'))))"
proof -
  have head: ?thesis if "push_on_head E skip b m = (n', r)" "pool m = pool n" for m
    using push_on_head_outcome [OF _ that(1)] that(2) assms(1) by (auto simp: quiet_def split: sum.splits)
  consider m where "push_on_head E skip b m = (n', r)" "pool m = pool n" | e where "r = Inl e" "pool n' = pool n" | "r = Inr False" "pool n' = pool n"
    using assms by (auto simp: push_block_inner_def switches_def quiet_pending_ok node_head_id_def node_head_num_def Let_def
        split: if_splits sum.splits option.splits)
  then show ?thesis using head assms(1) by cases (auto simp: quiet_def)
qed

lemma push_block_inner_switches:
  assumes "quiet n" "forks_ok E (forks n)" "switches E skip b n" "push_block_inner E skip b n = (n', Inr r)"
  shows "r \<and> quiet n' \<and> node_head_num n < node_head_num n' \<and>
    (\<exists>base bs. base \<in> set (current (pool n) # undo_states n) \<and> bs \<noteq> [] \<and>
       fold_result (apply_block E skip) bs base = Inr (current (pool n')))"
proof -
  obtain d h where p: "push_block (fork_hash E) (forks n) (fork_block b) = Inr (d, Some h)"
    and h: "head_block_number (dgp (state (head_db (pool n)))) < block_num (data h)"
    and s: "switch_fork E skip (id_of_block E b) h (n\<lparr>forks := d\<rparr>) = (n', Inr r)"
    using assms(1,3,4) by (auto simp: switches_def push_block_inner_def quiet_pending_ok node_head_id_def node_head_num_def Let_def
        split: sum.splits option.splits)
  note ok = push_block_forks_ok [OF assms(2) p]
  have "h \<in> held d" using ok(2) by (simp add: held_def elem_set flip: ok(2))
  then have "block_num (data h) = fst (item_id h)"
    using ok(1) block_num_forks_ok [OF ok(1), of h] by (simp add: forks_ok_def fst_id_of_block)
  with switch_fork_outcome [OF _ _ s] assms(1) ok(1) h show ?thesis
    by (auto simp: quiet_pending_ok node_head_num_def quiet_def)
qed

section \<open>A failed switch\<close>

lemma branch_above_last:
  assumes "store_ok hash d" "branch d (x # xs)" "x \<in> held d" "y \<in> set (x # xs)"
  shows "y \<in> held d \<and> block_num (data (last (x # xs))) \<le> block_num (data y)"
  using assms(2-)
proof (induction xs arbitrary: x)
  case (Cons z zs)
  have l: "lock_item d (prev x) = Some z" "branch d (z # zs)" using Cons.prems(1) by simp_all
  have z: "z \<in> held d" using lock_item_num [OF assms(1) Cons.prems(2) l(1)] by blast
  have "block_num (data (last (x # z # zs))) \<le> block_num (data x)"
    using branch_num [OF assms(1) Cons.prems(1,2)] by (simp add: word_le_def)
  then show ?case using Cons.IH [OF l(2) z] Cons.prems(2,3) by auto
qed simp

lemma branch_ids_not_base:
  assumes ok: "store_ok hash d" "branch d (x # xs)" "x \<in> held d" and y: "y \<in> set (x # xs)"
  shows "item_id y \<noteq> previous (data (last (x # xs)))"
proof
  let ?l = "last (x # xs)"
  assume eq: "item_id y = previous (data ?l)"
  note b = branch_above_last [OF ok y]
  have l: "?l \<in> held d" using branch_num [OF ok] by blast
  then have "uint (block_num (data ?l)) = uint (num_from_id (previous (data ?l))) + 1"
    using ok(1) by (intro block_num_pos) (auto simp: store_ok_def item_ok_def)
  moreover have "num_from_id (previous (data ?l)) = block_num (data y)"
    using ok(1) b unfolding eq [symmetric] by (auto simp: store_ok_def item_ok_def signed_block_id_def num_from_id_def)
  ultimately show False using b by (simp add: word_le_def)
qed

text \<open>Applying a branch puts states headed by its blocks on top of the history, which may lose states at its end.\<close>

lemma apply_branch_states:
  "apply_branch E skip its n = (n', r) \<Longrightarrow> \<exists>ys k. current (pool n') # undo_states n' = ys @ take k (current (pool n) # undo_states n) \<and>
     (\<forall>c \<in> set ys. head_of c \<in> (\<lambda>it. id_of_block E (contents (data it))) ` set its)"
proof (induction its arbitrary: n)
  case Nil
  then show ?case by (intro exI [of _ "[]"] exI [of _ "Suc (length (undo_states n))"]) simp
next
  case (Cons it its)
  obtain m q where t: "try_block E skip (item_id it) (contents (data it)) n = (m, q)" by fastforce
  from t show ?case
  proof (rule try_block_cases)
    fix e assume "q = Inl e" "pool m = pool n" "undo_states m = take (unat (undo_max n)) (undo_states n)"
    then show ?thesis using Cons.prems t by (intro exI [of _ "[]"] exI [of _ "Suc (unat (undo_max n))"]) simp
  next
    assume a: "q = Inr ()" "apply_block E skip (contents (data it)) (current (pool n)) = Inr (current (pool m))"
      "undo_states m = current (pool n) # take (unat (undo_max n)) (undo_states n)"
    from Cons.IH [of m] Cons.prems t a(1) obtain ys k where ys: "current (pool n') # undo_states n' = ys @ take k (current (pool m) # undo_states m)"
      "\<forall>c \<in> set ys. head_of c \<in> (\<lambda>it. id_of_block E (contents (data it))) ` set its" by auto
    have h: "head_of (current (pool m)) = id_of_block E (contents (data it))"
      using apply_block_head(1) [OF a(2)] by (simp add: head_of_def id_of_block_def)
    show ?thesis
    proof (cases k)
      case 0
      then show ?thesis using ys by (intro exI [of _ ys] exI [of _ 0]) auto
    next
      case (Suc j)
      then have "current (pool n') # undo_states n' =
          (ys @ [current (pool m)]) @ take (min j (Suc (unat (undo_max n)))) (current (pool n) # undo_states n)"
        using ys(1) a(3) by (cases j) (simp_all add: min.commute take_Cons')
      then show ?thesis using ys(2) h
        by (intro exI [of _ "ys @ [current (pool m)]"] exI [of _ "min j (Suc (unat (undo_max n)))"]) auto
    qed
  qed
qed

text \<open>So popping to the block below the branch finds the state the branch started from.\<close>

lemma pop_to_start:
  assumes q: "quiet n" and st: "current (pool n) # undo_states n = ys @ take k (c # cs)"
    and ys: "\<forall>x \<in> set ys. head_of x \<noteq> i" and c: "head_of c = i" and p: "pop_to E i n = (n', Inr u)"
  shows "current (pool n') = c \<and> quiet n'"
proof -
  have len: "length (undo_states n) < length (ys @ take k (c # cs))" using arg_cong [OF st, of length] by simp
  obtain j where j: "current (pool n') = (ys @ take k (c # cs)) ! j" "j < length (ys @ take k (c # cs))"
    "\<forall>l < j. head_of ((ys @ take k (c # cs)) ! l) \<noteq> i" and h: "node_head_id n' = i" "quiet n'"
    using pop_to_reaches [OF q p] len unfolding st by (metis le_less_trans)
  have "\<not> j < length ys" using j(1) ys h(1) by (auto simp: nth_append head_of_def node_head_id_def)
  moreover have "\<not> length ys < j"
  proof
    assume l: "length ys < j"
    then have "(ys @ take k (c # cs)) ! length ys = c" using j(2) by (cases k) (simp_all add: nth_append)
    with j(3) l c show False by auto
  qed
  ultimately have "j = length ys" by simp
  then show ?thesis using j(1,2) h(2) by (cases k) (simp_all add: nth_append)
qed

lemma try_block_applies:
  assumes "apply_block E skip b (current (pool n)) = Inr c"
  shows "\<exists>n'. try_block E skip key b n = (n', Inr ()) \<and> current (pool n') = c"
  using assms by (auto simp: apply_block_parts try_block_def Let_def)

lemma restore_branch_replays:
  "fold_result (apply_block E skip) (map (\<lambda>it. contents (data it)) its) (current (pool n)) = Inr c \<Longrightarrow>
     \<exists>n'. restore_branch E skip key its n = (n', Inr ()) \<and> current (pool n') = c"
proof (induction its arbitrary: n)
  case (Cons it its)
  obtain c1 where a: "apply_block E skip (contents (data it)) (current (pool n)) = Inr c1"
    and r: "fold_result (apply_block E skip) (map (\<lambda>it. contents (data it)) its) c1 = Inr c"
    using Cons.prems by (auto simp: ok_simps)
  obtain m where "try_block E skip key (contents (data it)) n = (m, Inr ())" "current (pool m) = c1"
    using try_block_applies [OF a] by blast
  then show ?case using Cons.IH [of m] r by simp
qed simp

lemma switch_fork_restores:
  assumes q: "quiet n" and ok: "store_ok (fork_hash E) (forks n)" "forks_ok E (forks n)"
    and f: "fetch_branch_from (branch_fuel n) (forks n) (item_id new_head) (node_head_id n) = Inr (firsts, seconds)"
    and p: "pop_to E (previous (data (last seconds))) n = (m, Inr ())"
    and a: "apply_branch E skip (rev firsts) m = (m', Some (e, rest))"
    and old: "fold_result (apply_block E skip) (map (\<lambda>it. contents (data it)) (rev seconds)) (current (pool m)) = Inr (current (pool n))"
    and s: "switch_fork E skip i new_head n = (n', r)"
    and again: "pop_to E (previous (data (last seconds)))
      (m'\<lparr>forks := fork_set_head (Some (hd seconds)) (fold (\<lambda>it. fork_remove (item_id it)) rest (forks m'))\<rparr>) = (m2, Inr ())"
  shows "r = Inl e \<and> current (pool n') = current (pool n)"
proof -
  let ?i = "previous (data (last seconds))"
  let ?m' = "m'\<lparr>forks := fork_set_head (Some (hd seconds)) (fold (\<lambda>it. fork_remove (item_id it)) rest (forks m'))\<rparr>"
  have "quiet m" and hm: "head_of (current (pool m)) = ?i"
    using pop_to_reaches [OF q p] by (auto simp: head_of_def node_head_id_def)
  then have "quiet ?m'" using apply_branch_quiet [OF _ a] by (simp add: quiet_def)
  moreover obtain ys k where ys: "current (pool ?m') # undo_states ?m' = ys @ take k (current (pool m) # undo_states m)"
    "\<forall>c \<in> set ys. head_of c \<in> (\<lambda>it. id_of_block E (contents (data it))) ` set (rev firsts)"
    using apply_branch_states [OF a] by auto
  moreover have "id_of_block E (contents (data y)) \<noteq> ?i" if y: "y \<in> set firsts" for y
  proof -
    obtain x xs where xs: "firsts = x # xs" "x \<in> held (forks n)"
      using fetch_branch_first [OF f] by (cases firsts) (auto dest!: find_item_Some simp: held_def)
    have b: "branch (forks n) (x # xs)" "?i = previous (data (last (x # xs)))" using fetch_branch_sound [OF ok(1) f] xs(1) by simp_all
    have "item_id y = id_of_block E (contents (data y))"
      using branch_above_last [OF ok(1) b(1) xs(2)] y xs(1) ok(2) by (simp add: forks_ok_def)
    then show ?thesis using branch_ids_not_base [OF ok(1) b(1) xs(2)] y xs(1) b(2) by metis
  qed
  then have "\<forall>c \<in> set ys. head_of c \<noteq> ?i" using ys(2) by auto
  ultimately have "current (pool m2) = current (pool m)" using pop_to_start [OF _ _ _ hm again] by blast
  then obtain m3 where "restore_branch E skip i (rev seconds) m2 = (m3, Inr ())" "current (pool m3) = current (pool n)"
    using restore_branch_replays [of E skip "rev seconds" m2 "current (pool n)" i] old by auto
  then show ?thesis using s f p a again by (simp add: switch_fork_def leave_bad_fork_def)
qed

lemma generate_block_history:
  assumes "node_history E n" "generate_block E skip when witness_id key n = (n', r)"
  shows "node_history E n'"
proof -
  obtain p txs where p: "pending_block (env_fc E) (env_crypto E) (env_fees E) skip (env_header_size E) (pool n) = (p, txs)" by fastforce
  then have "p = reset_pending_session (pool n)" by (auto simp: pending_block_def Let_def split: prod.splits)
  then have "node_history E (n\<lparr>pool := p\<rparr>)" using assms(1) by (simp add: node_history_def head_db_None)
  then show ?thesis using assms p chain_push_block_history
    by (fastforce simp: generate_block_def Let_def split: sum.splits prod.splits if_splits)
qed

lemma chain_pop_block_history:
  assumes "node_history E n" "chain_pop_block E n = (n', r)"
  shows "node_history E n'"
  using assms by (auto simp: node_history_def head_db_None
      chain_pop_block_def Let_def split: option.splits sum.splits list.splits)

lemma apply_branch_succeeds:
  "fold_result (apply_block E skip) (map (\<lambda>it. contents (data it)) its) (current (pool n)) = Inr c \<Longrightarrow>
     \<exists>n'. apply_branch E skip its n = (n', None) \<and> current (pool n') = c"
proof (induction its arbitrary: n)
  case (Cons it its)
  obtain c1 where a: "apply_block E skip (contents (data it)) (current (pool n)) = Inr c1"
    and r: "fold_result (apply_block E skip) (map (\<lambda>it. contents (data it)) its) c1 = Inr c"
    using Cons.prems by (auto simp: ok_simps)
  obtain m where "try_block E skip (item_id it) (contents (data it)) n = (m, Inr ())" "current (pool m) = c1"
    using try_block_applies [OF a] by blast
  then show ?case using Cons.IH [of m] r by simp
qed simp

section \<open>Properties\<close>

text \<open>
  C2. The undo history of a node is a chain of blocks at every moment: each state in it became the next one by applying a
  block, the last of them the head state. Pushing a block, popping one and producing one keep this whatever their outcome,
  also when a switch to a fork fails half way, and after a push the pending transactions are again applied on the head.
\<close>

theorem node_history_invariant:
  assumes "node_history E n"
  shows "node_history E (fst (chain_push_block E skip b n)) \<and>
    pending_ok (env_fc E) (env_crypto E) (env_fees E) (pool (fst (chain_push_block E skip b n))) \<and>
    node_history E (fst (chain_pop_block E n)) \<and> node_history E (fst (generate_block E skip when witness_id key n))"
  using chain_push_block_history [OF assms surjective_pairing] chain_pop_block_history [OF assms surjective_pairing]
    generate_block_history [OF assms surjective_pairing] by blast

text \<open>
  Two blocks on the same predecessor, the first of them applied, and a block on the second: pushing it switches forks. With a wrong merkle root in
  the second block the switch fails.
\<close>

definition demo_flags :: u32 where "demo_flags = skip_witness_signature OR skip_witness_schedule_check"

definition demo_a10 :: chain_block where "demo_a10 = demo_new_block"
definition demo_b10 :: "nat \<Rightarrow> chain_block" where "demo_b10 rt = demo_new_block\<lparr>blk_witness := 0, blk_merkle_root := rt\<rparr>"
definition demo_b11 :: chain_block where
  "demo_b11 = demo_new_block\<lparr>blk_previous := (10, 7), blk_timestamp := 1500000020, blk_witness := 2\<rparr>"

definition demo_fork_item :: "chain_block \<Rightarrow> chain_block fork_item" where
  "demo_fork_item b = (make_item (fork_hash demo_chain_env) (fork_block b))\<lparr>prev := Some (blk_previous b)\<rparr>"

definition demo_forked :: "nat \<Rightarrow> chain_db \<Rightarrow> chain_node" where
  "demo_forked rt c = \<lparr> pool = \<lparr> current = c, pending_session = None, pending_tx = [], popped_tx = [] \<rparr>, undo_states = [demo_head], undo_max = 100,
     forks = \<lparr> fork_max_size = 1024, unlinked_index = [], fork_index = [demo_fork_item demo_a10, demo_fork_item (demo_b10 rt)],
       fork_head = Some (demo_fork_item demo_a10) \<rparr>,
     store = bdb_store (id_of_block demo_chain_env) (\<lambda>b. 100) (10, 8) demo_a10 empty_block_database \<rparr>"

lemmas demo_fork_simps = demo_forked_def demo_fork_item_def demo_a10_def demo_b10_def demo_b11_def demo_new_block_def make_item_def fork_hash_def
  fork_block_def signed_block_id_def block_num_def num_from_id_def demo_chain_env_def demo_block_lib_def id_of_block_def chain_block_id_def
  chain_block_num_def

lemma demo_blocks_apply:
  obtains c c2 where "apply_block demo_chain_env demo_flags demo_a10 demo_head = Inr c" "node_head_id (demo_forked rt c) = (10, 8)"
    "node_head_num (demo_forked rt c) = 10" "fold_result (apply_block demo_chain_env demo_flags) [demo_b10 0, demo_b11] demo_head = Inr c2"
proof -
  have "case apply_block demo_chain_env demo_flags demo_a10 demo_head of Inl e \<Rightarrow> False | Inr c \<Rightarrow> True" by code_simp
  then obtain c where c: "apply_block demo_chain_env demo_flags demo_a10 demo_head = Inr c" by (auto split: sum.splits)
  have "case fold_result (apply_block demo_chain_env demo_flags) [demo_b10 0, demo_b11] demo_head of Inl e \<Rightarrow> False | Inr c \<Rightarrow> True" by code_simp
  then obtain c2 where c2: "fold_result (apply_block demo_chain_env demo_flags) [demo_b10 0, demo_b11] demo_head = Inr c2"
    by (auto split: sum.splits)
  have "node_head_id (demo_forked rt c) = (10, 8)" "node_head_num (demo_forked rt c) = 10"
    using apply_block_head [OF c] by (simp_all add: node_head_id_def node_head_num_def demo_fork_simps)
  with that [OF c _ _ c2] show thesis by blast
qed

lemma demo_forked_ok: "forks_ok demo_chain_env (forks (demo_forked rt c))" "store_ok (fork_hash demo_chain_env) (forks (demo_forked rt c))"
  by (simp_all add: forks_ok_def store_ok_def item_ok_def held_def demo_fork_simps)

definition demo_switch :: "nat \<Rightarrow> chain_block fork_db" where
  "demo_switch rt = (forks (demo_forked rt demo_head))\<lparr>fork_index := map demo_fork_item [demo_a10, demo_b10 rt, demo_b11],
     fork_head := Some (demo_fork_item demo_b11)\<rparr>"

lemma demo_push:
  "push_block (fork_hash demo_chain_env) (forks (demo_forked rt c)) (fork_block demo_b11) = Inr (demo_switch rt, Some (demo_fork_item demo_b11))"
  by (simp add: push_block_def push_item_def check_not_too_old_def link_item_def find_item_def insert_item_def erase_below_def
      null_block_id_def demo_switch_def demo_fork_simps)

lemma demo_branches:
  "fetch_branch_from (Suc k) (demo_switch rt) (11, 9) (10, 8) = Inr ([demo_fork_item demo_b11, demo_fork_item (demo_b10 rt)], [demo_fork_item demo_a10])"
  by (simp add: fetch_branch_from_def climb_to.simps [of "Suc k"] climb_to.simps [of k] climb_both.simps [of "Suc k"] step_back_def lock_item_def
      find_item_def demo_switch_def demo_fork_simps)

lemma chain_pop_block_succeeds:
  assumes "quiet n" "fetch_block_by_id E (node_head_id n) n = Some b" "pop_block (forks n) = Inr d"
    "bdb_remove (node_head_id n) (store n) = Inr st" "undo_states n = c # cs"
  shows "\<exists>m. chain_pop_block E n = (m, Inr ()) \<and> current (pool m) = c \<and> quiet m"
proof -
  have "n\<lparr>pool := reset_pending_session (pool n)\<rparr> = n" using assms(1) by (simp add: quiet_def reset_pending_session_def)
  then show ?thesis using assms by (simp add: chain_pop_block_def quiet_def Let_def)
qed

lemma demo_pop:
  assumes "node_head_id (demo_forked rt c) = (10, 8)"
  shows "\<exists>m. pop_to demo_chain_env (9, 0) ((demo_forked rt c)\<lparr>forks := demo_switch rt\<rparr>) = (m, Inr ()) \<and> current (pool m) = demo_head \<and>
    quiet m"
proof -
  let ?n = "(demo_forked rt c)\<lparr>forks := demo_switch rt\<rparr>"
  have "case bdb_remove (10, 8) (store (demo_forked 0 demo_head)) of Inl e \<Rightarrow> False | Inr st \<Rightarrow> True" by code_simp
  then obtain st where st: "bdb_remove (10, 8) (store (demo_forked rt c)) = Inr st" by (auto simp: demo_forked_def split: sum.splits)
  have h: "node_head_id ?n = (10, 8)" using assms by (simp add: node_head_id_def)
  have f: "fetch_block_by_id demo_chain_env (10, 8) ?n = Some demo_a10"
    by (simp add: fetch_block_by_id_def fetch_block_def find_item_def demo_switch_def demo_fork_simps)
  have p: "pop_block (forks ?n) = Inr ((demo_switch rt)\<lparr>fork_head := Some (demo_fork_item (demo_b10 rt))\<rparr>)"
    by (simp add: pop_block_def lock_item_def find_item_def demo_switch_def demo_fork_simps)
  have q: "quiet ?n" "undo_states ?n = [demo_head]" "bdb_remove (10, 8) (store ?n) = Inr st" using st by (simp_all add: quiet_def demo_forked_def)
  have d: "head_of demo_head = (9, 0)" by code_simp
  obtain m where m: "chain_pop_block demo_chain_env ?n = (m, Inr ())" "current (pool m) = demo_head" "quiet m"
    using chain_pop_block_succeeds [OF q(1) _ p _ q(2)] f q(3) unfolding h by blast
  then show ?thesis using h d
    by (simp add: pop_to.simps [of _ _ ?n] pop_to.simps [of _ _ m] node_head_id_def head_of_def)
qed

text \<open>The push of the longer branch switches to it.\<close>

lemma demo_reached:
  assumes "node_head_id (demo_forked rt c) = (10, 8)" "node_head_num (demo_forked rt c) = 10"
  shows "push_block_inner demo_chain_env demo_flags demo_b11 (demo_forked rt c) =
    switch_fork demo_chain_env demo_flags (11, 9) (demo_fork_item demo_b11) ((demo_forked rt c)\<lparr>forks := demo_switch rt\<rparr>)"
proof -
  have h: "node_head_id ((demo_forked rt c)\<lparr>forks := d\<rparr>) = (10, 8)" "node_head_num ((demo_forked rt c)\<lparr>forks := d\<rparr>) = 10" for d
    using assms by (simp_all add: node_head_id_def node_head_num_def)
  have "\<not> skips demo_flags skip_fork_db" by code_simp
  moreover have "previous (data (demo_fork_item demo_b11)) = (10, 7)" "block_num (data (demo_fork_item demo_b11)) = 11"
    "id_of_block demo_chain_env demo_b11 = (11, 9)" by (simp_all add: demo_fork_simps)
  ultimately show ?thesis by (simp add: push_block_inner_def demo_push h Let_def)
qed

lemma demo_fetch:
  assumes "node_head_id (demo_forked rt c) = (10, 8)"
  shows "fetch_branch_from (branch_fuel ((demo_forked rt c)\<lparr>forks := demo_switch rt\<rparr>)) (demo_switch rt) (item_id (demo_fork_item demo_b11))
    (node_head_id ((demo_forked rt c)\<lparr>forks := demo_switch rt\<rparr>)) =
      Inr ([demo_fork_item demo_b11, demo_fork_item (demo_b10 rt)], [demo_fork_item demo_a10])"
proof -
  have "item_id (demo_fork_item demo_b11) = (11, 9)" "node_head_id ((demo_forked rt c)\<lparr>forks := demo_switch rt\<rparr>) = (10, 8)"
    using assms by (simp_all add: demo_fork_simps node_head_id_def)
  then show ?thesis using demo_branches by (simp add: branch_fuel_def)
qed

lemma demo_pushed:
  obtains c n' where "apply_block demo_chain_env demo_flags demo_a10 demo_head = Inr c"
    "chain_push_block demo_chain_env demo_flags demo_b11 (demo_forked 0 c) = (n', Inr True)"
proof -
  obtain c c2 where c: "apply_block demo_chain_env demo_flags demo_a10 demo_head = Inr c"
    and h: "node_head_id (demo_forked 0 c) = (10, 8)" "node_head_num (demo_forked 0 c) = 10"
    and c2: "fold_result (apply_block demo_chain_env demo_flags) [demo_b10 0, demo_b11] demo_head = Inr c2" by (rule demo_blocks_apply)
  let ?n = "(demo_forked 0 c)\<lparr>forks := demo_switch 0\<rparr>"
  obtain m where m: "pop_to demo_chain_env (9, 0) ?n = (m, Inr ())" "current (pool m) = demo_head" using demo_pop [OF h(1)] by blast
  have "contents (data (demo_fork_item b)) = b" for b by (simp add: demo_fork_item_def make_item_def fork_block_def)
  then obtain n' where n': "apply_branch demo_chain_env demo_flags (rev [demo_fork_item demo_b11, demo_fork_item (demo_b10 0)]) m = (n', None)"
    using apply_branch_succeeds [of demo_chain_env demo_flags "[demo_fork_item (demo_b10 0), demo_fork_item demo_b11]" m c2] c2 m(2) by auto
  have "previous (data (last [demo_fork_item demo_a10])) = (9, 0)" by (simp add: demo_fork_simps)
  then have "switch_fork demo_chain_env demo_flags (11, 9) (demo_fork_item demo_b11) ?n = (n', Inr True)"
    using demo_fetch [OF h(1)] m n' by (simp add: switch_fork_def del: rev.simps)
  then have "push_block_inner demo_chain_env demo_flags demo_b11 (demo_forked 0 c) = (n', Inr True)" using demo_reached [OF h] by simp
  moreover have "(demo_forked 0 c)\<lparr>pool := clear_pending (pool (demo_forked 0 c))\<rparr> = demo_forked 0 c"
    by (simp add: demo_forked_def clear_pending_def reset_pending_session_def)
  ultimately have "\<exists>n''. chain_push_block demo_chain_env demo_flags demo_b11 (demo_forked 0 c) = (n'', Inr True)"
    by (simp add: chain_push_block_def without_pending_transactions_def)
  with that [OF c] show thesis by blast
qed

theorem node_history_invariant_witness:
  "\<exists>c. node_history demo_chain_env (fst (chain_push_block demo_chain_env demo_flags demo_b11 (demo_forked 0 c))) \<and>
     snd (chain_push_block demo_chain_env demo_flags demo_b11 (demo_forked 0 c)) = Inr True"
proof -
  obtain c n' where c: "apply_block demo_chain_env demo_flags demo_a10 demo_head = Inr c"
    and n': "chain_push_block demo_chain_env demo_flags demo_b11 (demo_forked 0 c) = (n', Inr True)" by (rule demo_pushed)
  have "node_history demo_chain_env (demo_forked 0 c)" using c by (auto simp: node_history_def head_db_def demo_forked_def)
  from node_history_invariant [OF this] n' show ?thesis by (metis snd_conv)
qed

text \<open>
  C3. The outcome of a push that is not refused. If it did not switch forks, the head state is unchanged or the result of applying the new
  block to it. If it switched, the head state is the result of applying the blocks of a branch to a state of the history, and
  the head number grew. A push that throws without an attempt to switch leaves the head state as it was.
\<close>

theorem push_block_outcome:
  assumes "forks_ok E (forks n)" "chain_push_block E skip b n = (n', r)"
  shows "case r of
      Inr True \<Rightarrow> head_block_number (dgp (state (head_db (pool n)))) < head_block_number (dgp (state (head_db (pool n')))) \<and>
        (\<exists>base bs. base \<in> set (head_db (pool n) # undo_states n) \<and> bs \<noteq> [] \<and>
           fold_result (apply_block E skip) bs base = Inr (head_db (pool n')))
    | Inr False \<Rightarrow> head_db (pool n') = head_db (pool n) \<or> apply_block E skip b (head_db (pool n)) = Inr (head_db (pool n'))
    | Inl e \<Rightarrow> switches E skip b n \<or> head_db (pool n') = head_db (pool n)"
  using assms(2)
proof (rule chain_push_block_cases)
  let ?n = "n\<lparr>pool := clear_pending (pool n)\<rparr>"
  fix m
  assume m: "push_block_inner E skip b ?n = (m, r)"
    and h: "pending_ok (env_fc E) (env_crypto E) (env_fees E) (pool m) \<Longrightarrow>
       head_db (pool n') = head_db (pool m) \<and> pending_ok (env_fc E) (env_crypto E) (env_fees E) (pool n')"
  have q: "quiet ?n" by (simp add: quiet_def)
  have "head_db (pool ?n) = head_db (pool n)" "forks ?n = forks n" by (simp_all add: head_db_None)
  then have sw: "switches E skip b ?n = switches E skip b n" unfolding switches_def by metis
  have hd: "head_db (pool n') = current (pool m)" if "quiet m" using h quiet_pending_ok [OF that] by auto
  show ?thesis
  proof (cases "switches E skip b n")
    case True
    then show ?thesis using push_block_inner_switches [OF q, of E skip b m] assms(1) m sw hd
      by (cases r) (auto simp: node_head_num_def)
  next
    case False
    then show ?thesis using push_block_inner_stays [OF q, of E skip b m r] m sw hd by (auto split: sum.splits bool.splits)
  qed
qed

theorem push_block_outcome_witness:
  "\<exists>c base bs. base \<in> {c, demo_head} \<and> bs \<noteq> [] \<and> fold_result (apply_block demo_chain_env demo_flags) bs base =
     Inr (head_db (pool (fst (chain_push_block demo_chain_env demo_flags demo_b11 (demo_forked 0 c)))))"
proof -
  obtain c n' where n': "chain_push_block demo_chain_env demo_flags demo_b11 (demo_forked 0 c) = (n', Inr True)" by (rule demo_pushed)
  from push_block_outcome [OF demo_forked_ok(1) n'] have "\<exists>base bs. base \<in> {c, demo_head} \<and> bs \<noteq> [] \<and>
      fold_result (apply_block demo_chain_env demo_flags) bs base = Inr (head_db (pool n'))"
    by (simp add: demo_forked_def head_db_def [of "\<lparr>current = c, pending_session = None, pending_tx = [], popped_tx = []\<rparr>"])
  then show ?thesis using n' by (metis fst_conv)
qed



end
