(* ===== verification/Fee_Schedule.thy ===== *)
theory Fee_Schedule
  imports Operations
begin

text \<open>
  The fee schedule (protocol/fee_schedule.hpp, protocol/fee_schedule.cpp) with the fee of every operation (the \<^verbatim>\<open>calculate_fee\<close> members
  of protocol/*.cpp), and the validation of the chain parameters.

  The packed sizes of operations and memos belong to the fc library and are a parameter (the record \<open>pack_lib\<close>), as is
  whether an operation carries a memo, since memos are not part of the model. The loop that rounds a fee up runs on fuel; for a price with
  positive amounts of two assets, and for the unit price, it ends within the fuel (\<open>raise_fee_result\<close>).
\<close>

section \<open>The parameters of a fee\<close>

text \<open>
  The alternatives of \<^verbatim>\<open>fee_parameters\<close> by their fields. The fee of some operations is declared as \<^verbatim>\<open>share_type\<close>, of the others as \<^verbatim>\<open>uint64_t\<close>.
  The alternative of an operation is chosen by its position in the variant \<^verbatim>\<open>operation\<close>.
\<close>

datatype fee_parameters =
    No_Fee
  | Fee u64
  | Share_Fee share_type
  | Fee_And_Data u64 u32
  | Share_Fee_And_Data share_type u32
  | Fee_And_Outputs u64 u32
  | Account_Create_Fee u64 u64 u32
  | Membership_Fee u64 u64
  | Asset_Create_Fee u64 u64 u64 u32

record fee_schedule =
  parameters_of :: "(nat \<times> fee_parameters) list"
  fee_scale :: u32

fun operation_which :: "operation \<Rightarrow> nat" where
  "operation_which (Transfer op) = 0"
| "operation_which (Limit_Order_Create op) = 1"
| "operation_which (Limit_Order_Cancel op) = 2"
| "operation_which (Call_Order_Update op) = 3"
| "operation_which (Account_Create op) = 5"
| "operation_which (Account_Update op) = 6"
| "operation_which (Account_Whitelist op) = 7"
| "operation_which (Account_Upgrade op) = 8"
| "operation_which (Asset_Create op) = 10"
| "operation_which (Asset_Update op) = 11"
| "operation_which (Asset_Update_Bitasset op) = 12"
| "operation_which (Asset_Update_Feed_Producers op) = 13"
| "operation_which (Asset_Issue op) = 14"
| "operation_which (Asset_Reserve op) = 15"
| "operation_which (Asset_Fund_Fee_Pool op) = 16"
| "operation_which (Asset_Settle op) = 17"
| "operation_which (Asset_Global_Settle op) = 18"
| "operation_which (Asset_Publish_Feed op) = 19"
| "operation_which (Witness_Create op) = 20"
| "operation_which (Witness_Update op) = 21"
| "operation_which (Withdraw_Permission_Create op) = 25"
| "operation_which (Withdraw_Permission_Update op) = 26"
| "operation_which (Withdraw_Permission_Claim op) = 27"
| "operation_which (Withdraw_Permission_Delete op) = 28"
| "operation_which (Committee_Member_Create op) = 29"
| "operation_which (Committee_Member_Update op) = 30"
| "operation_which (Vesting_Balance_Create op) = 32"
| "operation_which (Vesting_Balance_Withdraw op) = 33"
| "operation_which (Worker_Create op) = 34"
| "operation_which (Custom op) = 35"
| "operation_which (Balance_Claim op) = 37"
| "operation_which (Override_Transfer op) = 38"
| "operation_which (Asset_Claim_Fees op) = 43"
| "operation_which (Lock_Balance op) = 45"
| "operation_which (Set_Lock_Data op) = 46"
| "operation_which (Unlock_Balance op) = 47"
| "operation_which (Donation_Balance op) = 48"

text \<open>The default of every alternative, in the order of the variant.\<close>

definition in_precision :: "int \<Rightarrow> u64" where
  "in_precision n = word_of_int (n * GRAPHENE_BLOCKCHAIN_PRECISION)"

definition default_fee_parameters :: "fee_parameters list" where
  "default_fee_parameters = (let P = GRAPHENE_BLOCKCHAIN_PRECISION; p = (word_of_int P :: u32) in
    [Fee_And_Data (in_precision 20) (10 * p), Fee (in_precision 5), Fee 0, Fee (in_precision 20), No_Fee,
     Account_Create_Fee (in_precision 5) (in_precision 2000) p, Share_Fee_And_Data (20 * P) p, Share_Fee 300000,
       Membership_Fee (in_precision 2000) (in_precision 10000), Fee (in_precision 500),
     Asset_Create_Fee (in_precision 500000) (in_precision 300000) (in_precision 5000) 10, Fee_And_Data (in_precision 500) 10,
       Fee (in_precision 500), Fee (in_precision 500), Fee_And_Data (in_precision 20) p,
     Fee (in_precision 20), Fee (in_precision 1), Fee (in_precision 100), Fee (in_precision 500), Fee (in_precision 1),
     Fee (in_precision 5000), Share_Fee (20 * P), Fee_And_Data (in_precision 20) 10, Fee_And_Data (in_precision 20) 10, Fee (in_precision 1),
     Fee (in_precision 1), Fee (in_precision 1), Fee_And_Data (in_precision 20) 10, Fee 0, Fee (in_precision 5000),
     Fee (in_precision 20), Fee (in_precision 1), Fee (in_precision 1), Fee (in_precision 20), Fee (in_precision 5000),
     Fee_And_Data (in_precision 1) 10, Fee (in_precision 1), No_Fee, Fee_And_Data (in_precision 20) 10, Fee_And_Outputs (in_precision 5) (5 * p),
     Fee_And_Outputs (in_precision 5) (5 * p), Fee (in_precision 5), No_Fee, Fee (in_precision 20), No_Fee,
     Fee_And_Data (in_precision 20) (10 * p), Fee_And_Data (in_precision 20) (10 * p), Fee_And_Data (in_precision 20) (10 * p),
       Fee_And_Data (in_precision 20) (10 * p)])"

definition get_default :: fee_schedule where
  "get_default = \<lparr> parameters_of = enumerate 0 default_fee_parameters, fee_scale = word_of_int GRAPHENE_100_PERCENT \<rparr>"

fun zero_fee :: "fee_parameters \<Rightarrow> fee_parameters" where
  "zero_fee No_Fee = No_Fee"
| "zero_fee (Fee f) = Fee 0"
| "zero_fee (Share_Fee f) = Share_Fee 0"
| "zero_fee (Fee_And_Data f k) = Fee_And_Data 0 0"
| "zero_fee (Share_Fee_And_Data f k) = Share_Fee_And_Data 0 0"
| "zero_fee (Fee_And_Outputs f k) = Fee_And_Outputs 0 0"
| "zero_fee (Account_Create_Fee b p k) = Account_Create_Fee 0 0 0"
| "zero_fee (Membership_Fee a l) = Membership_Fee 0 0"
| "zero_fee (Asset_Create_Fee s3 s4 l k) = Asset_Create_Fee 0 0 0 0"

definition zero_all_fees :: "fee_schedule \<Rightarrow> fee_schedule" where
  "zero_all_fees S = get_default\<lparr>parameters_of := map (\<lambda>(w, k). (w, zero_fee k)) (parameters_of get_default), fee_scale := 0\<rparr>"

section \<open>The fee of an operation\<close>

record pack_lib =
  has_memo :: "operation \<Rightarrow> bool"
  memo_size :: "operation \<Rightarrow> u64"
  operation_size :: "operation \<Rightarrow> u64"

definition calculate_data_fee :: "u64 \<Rightarrow> u64 \<Rightarrow> u64 result" where
  "calculate_data_fee bytes price_per_kbyte =
     (let r = (ucast bytes * ucast price_per_kbyte) div 1024 :: u128 in
      bind (fc_assert (uint r \<le> GRAPHENE_MAX_SHARE_SUPPLY) ''result <= GRAPHENE_MAX_SHARE_SUPPLY'') (\<lambda>_. Inr (ucast r)))"

text \<open>A data fee is added to a \<^verbatim>\<open>share_type\<close> with an overflow check and to a \<^verbatim>\<open>uint64_t\<close> with wrap-around.\<close>

definition add_data_fee :: "fc_lib \<Rightarrow> u64 \<Rightarrow> u32 \<Rightarrow> share_type \<Rightarrow> share_type result" where
  "add_data_fee F bytes k fee = bind (calculate_data_fee bytes (ucast k)) (\<lambda>d. safe_add F fee (sint d))"

definition wrap_data_fee :: "u64 \<Rightarrow> u32 \<Rightarrow> u64 \<Rightarrow> share_type result" where
  "wrap_data_fee bytes k fee = bind (calculate_data_fee bytes (ucast k)) (\<lambda>d. Inr (sint (fee + d)))"

definition memo_fee :: "fc_lib \<Rightarrow> pack_lib \<Rightarrow> operation \<Rightarrow> u64 \<Rightarrow> u32 \<Rightarrow> share_type result" where
  "memo_fee F L op fee k = (if has_memo L op then add_data_fee F (memo_size L op) k (sint fee) else Inr (sint fee))"

text \<open>\<^verbatim>\<open>static_variant::get\<close> throws on another alternative.\<close>

definition wrong_alternative :: "'r result" where
  "wrong_alternative = Inl (Assert_Exception ''static_variant'')"

fun get_fee_and_data :: "fee_parameters \<Rightarrow> (u64 \<times> u32) result" where
  "get_fee_and_data (Fee_And_Data f k) = Inr (f, k)"
| "get_fee_and_data _ = wrong_alternative"

text \<open>\<^verbatim>\<open>base_operation::calculate_fee\<close> and the operations that do not look at the size.\<close>

fun flat_fee :: "fee_parameters \<Rightarrow> share_type result" where
  "flat_fee (Fee f) = Inr (sint f)"
| "flat_fee (Share_Fee f) = Inr f"
| "flat_fee (Fee_And_Data f k) = Inr (sint f)"
| "flat_fee _ = wrong_alternative"

definition operation_calculate_fee :: "fc_lib \<Rightarrow> pack_lib \<Rightarrow> operation \<Rightarrow> fee_parameters \<Rightarrow> share_type result" where
  "operation_calculate_fee F L op params = (case op of
       Transfer x \<Rightarrow> bind (get_fee_and_data params) (\<lambda>(f, k). memo_fee F L op f k)
     | Override_Transfer x \<Rightarrow> bind (get_fee_and_data params) (\<lambda>(f, k). memo_fee F L op f k)
     | Withdraw_Permission_Claim x \<Rightarrow> bind (get_fee_and_data params) (\<lambda>(f, k). memo_fee F L op f k)
     | Account_Create x \<Rightarrow> (case params of
           Account_Create_Fee basic premium k \<Rightarrow>
             wrap_data_fee (operation_size L op) k (if is_cheap_name (acc_name x) then basic else premium)
         | _ \<Rightarrow> wrong_alternative)
     | Account_Update x \<Rightarrow> (case params of
           Share_Fee_And_Data f k \<Rightarrow> if aup_new_options x \<noteq> None then add_data_fee F (operation_size L op) k f else Inr f
         | _ \<Rightarrow> wrong_alternative)
     | Account_Upgrade x \<Rightarrow> (case params of
           Membership_Fee annual lifetime \<Rightarrow> Inr (sint (if upgrade_to_lifetime_member x then lifetime else annual))
         | _ \<Rightarrow> wrong_alternative)
     | Asset_Create x \<Rightarrow> (case params of
           Asset_Create_Fee s3 s4 long k \<Rightarrow>
             wrap_data_fee (operation_size L op) k
               (if length (ac_symbol x) = 3 then s3 else if length (ac_symbol x) = 4 then s4 else long)
         | _ \<Rightarrow> wrong_alternative)
     | Asset_Update x \<Rightarrow> bind (get_fee_and_data params) (\<lambda>(f, k). wrap_data_fee (operation_size L op) k f)
     | Asset_Issue x \<Rightarrow> bind (get_fee_and_data params) (\<lambda>(f, k). wrap_data_fee (memo_size L op) k f)
     | Custom x \<Rightarrow> bind (get_fee_and_data params) (\<lambda>(f, k). wrap_data_fee (operation_size L op) k f)
     | Balance_Claim x \<Rightarrow> Inr 0
     | _ \<Rightarrow> flat_fee params)"

text \<open>Fees as high as the maximal supply mark operations whose fee was set by mistake; the code replaces the maximum by a usable fee.\<close>

definition replace_max_fee :: "nat \<Rightarrow> u128 \<Rightarrow> u128" where
  "replace_max_fee w scaled =
     (let m = word_of_int GRAPHENE_MAX_SHARE_SUPPLY in
      if scaled \<ge> m then
        if 22 \<le> w \<and> w \<le> 24 then scaled - m + 300000000
        else if w = 10 then scaled - m + 10000000000000
        else if w = 11 then scaled - m + 1000000000
        else if w = 14 then scaled - m + 1000000000
        else scaled
      else scaled)"

definition raise_fee_step :: "fc_lib \<Rightarrow> price \<Rightarrow> int \<Rightarrow> asset \<Rightarrow> (asset, asset) loop_step result" where
  "raise_fee_step F rate scaled r =
     bind (asset_mul r rate) (\<lambda>c.
     bind (asset_lt c (mk_asset scaled 0)) (\<lambda>low.
     if low then bind (safe_add F (amount r) 1) (\<lambda>a. Inr (Continue (r\<lparr>amount := a\<rparr>))) else Inr (Finish r)))"

definition core_fee :: "fc_lib \<Rightarrow> pack_lib \<Rightarrow> fee_schedule \<Rightarrow> operation \<Rightarrow> int result" where
  "core_fee F L S op =
     (let w = operation_which op;
          params = (case map_of (parameters_of S) w of Some k \<Rightarrow> k | None \<Rightarrow> default_fee_parameters ! w) in
      bind (operation_calculate_fee F L op params) (\<lambda>v.
      let scaled = replace_max_fee w ((ucast (word_of_int v :: u64) * ucast (fee_scale S)) div word_of_int GRAPHENE_100_PERCENT) in
      bind (fc_assert (uint scaled \<le> GRAPHENE_MAX_SHARE_SUPPLY) ''scaled <= GRAPHENE_MAX_SHARE_SUPPLY'') (\<lambda>_. Inr (uint scaled))))"

definition calculate_fee :: "fc_lib \<Rightarrow> pack_lib \<Rightarrow> fee_schedule \<Rightarrow> operation \<Rightarrow> price \<Rightarrow> asset result" where
  "calculate_fee F L S op rate =
     bind (core_fee F L S op) (\<lambda>scaled.
     bind (asset_mul (mk_asset scaled 0) rate) (\<lambda>r0.
     bind (run_loop 3 (raise_fee_step F rate scaled) r0) (\<lambda>r.
     bind (fc_assert (amount r \<le> GRAPHENE_MAX_SHARE_SUPPLY) ''result.amount <= GRAPHENE_MAX_SHARE_SUPPLY'') (\<lambda>_. Inr r))))"

definition unit_price :: "nat \<Rightarrow> price" where
  "unit_price a = \<lparr> base = mk_asset 1 a, quote = mk_asset 1 a \<rparr>"

section \<open>Setting the fee\<close>

fun operation_set_fee :: "asset \<Rightarrow> operation \<Rightarrow> operation" where
  "operation_set_fee f (Transfer op) = Transfer (op\<lparr>tr_fee := f\<rparr>)"
| "operation_set_fee f (Limit_Order_Create op) = Limit_Order_Create (op\<lparr>lc_fee := f\<rparr>)"
| "operation_set_fee f (Limit_Order_Cancel op) = Limit_Order_Cancel (op\<lparr>lx_fee := f\<rparr>)"
| "operation_set_fee f (Call_Order_Update op) = Call_Order_Update (op\<lparr>call_order_update_operation.cu_fee := f\<rparr>)"
| "operation_set_fee f (Asset_Create op) = Asset_Create (op\<lparr>ac_fee := f\<rparr>)"
| "operation_set_fee f (Asset_Update op) = Asset_Update (op\<lparr>au_fee := f\<rparr>)"
| "operation_set_fee f (Asset_Update_Bitasset op) = Asset_Update_Bitasset (op\<lparr>ub_fee := f\<rparr>)"
| "operation_set_fee f (Asset_Update_Feed_Producers op) = Asset_Update_Feed_Producers (op\<lparr>fp_fee := f\<rparr>)"
| "operation_set_fee f (Asset_Issue op) = Asset_Issue (op\<lparr>ai_fee := f\<rparr>)"
| "operation_set_fee f (Asset_Reserve op) = Asset_Reserve (op\<lparr>ar_fee := f\<rparr>)"
| "operation_set_fee f (Asset_Fund_Fee_Pool op) = Asset_Fund_Fee_Pool (op\<lparr>af_fee := f\<rparr>)"
| "operation_set_fee f (Asset_Settle op) = Asset_Settle (op\<lparr>as_fee := f\<rparr>)"
| "operation_set_fee f (Asset_Global_Settle op) = Asset_Global_Settle (op\<lparr>gs_fee := f\<rparr>)"
| "operation_set_fee f (Asset_Publish_Feed op) = Asset_Publish_Feed (op\<lparr>pf_fee := f\<rparr>)"
| "operation_set_fee f (Withdraw_Permission_Create op) = Withdraw_Permission_Create (op\<lparr>wc_fee := f\<rparr>)"
| "operation_set_fee f (Withdraw_Permission_Update op) = Withdraw_Permission_Update (op\<lparr>wu_fee := f\<rparr>)"
| "operation_set_fee f (Withdraw_Permission_Claim op) = Withdraw_Permission_Claim (op\<lparr>wl_fee := f\<rparr>)"
| "operation_set_fee f (Withdraw_Permission_Delete op) = Withdraw_Permission_Delete (op\<lparr>wd_fee := f\<rparr>)"
| "operation_set_fee f (Vesting_Balance_Create op) = Vesting_Balance_Create (op\<lparr>vc_fee := f\<rparr>)"
| "operation_set_fee f (Vesting_Balance_Withdraw op) = Vesting_Balance_Withdraw (op\<lparr>vw_fee := f\<rparr>)"
| "operation_set_fee f (Override_Transfer op) = Override_Transfer (op\<lparr>ot_fee := f\<rparr>)"
| "operation_set_fee f (Asset_Claim_Fees op) = Asset_Claim_Fees (op\<lparr>cf_fee := f\<rparr>)"
| "operation_set_fee f (Lock_Balance op) = Lock_Balance (op\<lparr>lk_fee := f\<rparr>)"
| "operation_set_fee f (Set_Lock_Data op) = Set_Lock_Data (op\<lparr>sl_fee := f\<rparr>)"
| "operation_set_fee f (Unlock_Balance op) = Unlock_Balance (op\<lparr>ul_fee := f\<rparr>)"
| "operation_set_fee f (Donation_Balance op) = Donation_Balance (op\<lparr>dn_fee := f\<rparr>)"
| "operation_set_fee f (Account_Create op) = Account_Create (op\<lparr>acc_fee := f\<rparr>)"
| "operation_set_fee f (Account_Update op) = Account_Update (op\<lparr>aup_fee := f\<rparr>)"
| "operation_set_fee f (Account_Whitelist op) = Account_Whitelist (op\<lparr>awl_fee := f\<rparr>)"
| "operation_set_fee f (Account_Upgrade op) = Account_Upgrade (op\<lparr>agr_fee := f\<rparr>)"
| "operation_set_fee f (Witness_Create op) = Witness_Create (op\<lparr>wcr_fee := f\<rparr>)"
| "operation_set_fee f (Witness_Update op) = Witness_Update (op\<lparr>wup_fee := f\<rparr>)"
| "operation_set_fee f (Committee_Member_Create op) = Committee_Member_Create (op\<lparr>ccr_fee := f\<rparr>)"
| "operation_set_fee f (Committee_Member_Update op) = Committee_Member_Update (op\<lparr>cup_fee := f\<rparr>)"
| "operation_set_fee f (Worker_Create op) = Worker_Create (op\<lparr>wkc_fee := f\<rparr>)"
| "operation_set_fee f (Custom op) = Custom (op\<lparr>custom_operation.cu_fee := f\<rparr>)"
| "operation_set_fee f (Balance_Claim op) = Balance_Claim (op\<lparr>bc_fee := f\<rparr>)"

definition asset_max :: "asset \<Rightarrow> asset \<Rightarrow> asset result" where
  "asset_max a b = bind (asset_lt a b) (\<lambda>lt. Inr (if lt then b else a))"

definition MAX_FEE_STABILIZATION_ITERATION :: nat where "MAX_FEE_STABILIZATION_ITERATION = 4"

primrec stabilize_fee ::
  "nat \<Rightarrow> fc_lib \<Rightarrow> pack_lib \<Rightarrow> fee_schedule \<Rightarrow> price \<Rightarrow> asset \<Rightarrow> asset \<Rightarrow> operation \<Rightarrow> (operation \<times> asset) result" where
  "stabilize_fee 0 F L S rate f f_max op = Inr (op, f_max)"
| "stabilize_fee (Suc i) F L S rate f f_max op =
     (let op' = operation_set_fee f_max op in
      bind (calculate_fee F L S op' rate) (\<lambda>f2.
      if f = f2 then Inr (op', f_max)
      else bind (asset_max f_max f2) (\<lambda>m. stabilize_fee i F L S rate f2 m op')))"

definition set_fee :: "fc_lib \<Rightarrow> pack_lib \<Rightarrow> fee_schedule \<Rightarrow> operation \<Rightarrow> price \<Rightarrow> (operation \<times> asset) result" where
  "set_fee F L S op rate =
     bind (calculate_fee F L S op rate) (\<lambda>f. stabilize_fee MAX_FEE_STABILIZATION_ITERATION F L S rate f f op)"

section \<open>The chain parameters\<close>

definition GRAPHENE_MIN_TRANSACTION_SIZE_LIMIT :: u32 where "GRAPHENE_MIN_TRANSACTION_SIZE_LIMIT = 1024"
definition GRAPHENE_MIN_BLOCK_INTERVAL :: u8 where "GRAPHENE_MIN_BLOCK_INTERVAL = 1"
definition GRAPHENE_MAX_BLOCK_INTERVAL :: u8 where "GRAPHENE_MAX_BLOCK_INTERVAL = 30"
definition GRAPHENE_MIN_BLOCK_SIZE_LIMIT :: u32 where "GRAPHENE_MIN_BLOCK_SIZE_LIMIT = GRAPHENE_MIN_TRANSACTION_SIZE_LIMIT * 5"

text \<open>The sum of the two percentages is computed as an \<^verbatim>\<open>int\<close>, the difference of the two periods as a \<^verbatim>\<open>uint32_t\<close>.\<close>

definition chain_parameters_validate :: "chain_parameters \<Rightarrow> unit result" where
  "chain_parameters_validate p =
     bind (fc_assert (uint (reserve_percent_of_fee p) \<le> GRAPHENE_100_PERCENT) ''reserve_percent_of_fee'') (\<lambda>_.
     bind (fc_assert (uint (network_percent_of_fee p) \<le> GRAPHENE_100_PERCENT) ''network_percent_of_fee'') (\<lambda>_.
     bind (fc_assert (uint (lifetime_referrer_percent_of_fee p) \<le> GRAPHENE_100_PERCENT) ''lifetime_referrer_percent_of_fee'') (\<lambda>_.
     bind (fc_assert (uint (network_percent_of_fee p) + uint (lifetime_referrer_percent_of_fee p) \<le> GRAPHENE_100_PERCENT) ''network_percent_of_fee + lifetime_referrer_percent_of_fee'') (\<lambda>_.
     bind (fc_assert (block_interval p \<ge> GRAPHENE_MIN_BLOCK_INTERVAL) ''block_interval >= GRAPHENE_MIN_BLOCK_INTERVAL'') (\<lambda>_.
     bind (fc_assert (block_interval p \<le> GRAPHENE_MAX_BLOCK_INTERVAL) ''block_interval <= GRAPHENE_MAX_BLOCK_INTERVAL'') (\<lambda>_.
     bind (fc_assert (block_interval p > 0) ''block_interval > 0'') (\<lambda>_.
     bind (fc_assert (maintenance_interval p > ucast (block_interval p)) ''Maintenance interval must be longer than block interval'') (\<lambda>_.
     bind (fc_assert (maintenance_interval p mod ucast (block_interval p) = 0) ''Maintenance interval must be a multiple of block interval'') (\<lambda>_.
     bind (fc_assert (maximum_transaction_size p \<ge> GRAPHENE_MIN_TRANSACTION_SIZE_LIMIT) ''Transaction size limit is too low'') (\<lambda>_.
     bind (fc_assert (maximum_block_size p \<ge> GRAPHENE_MIN_BLOCK_SIZE_LIMIT) ''Block size limit is too low'') (\<lambda>_.
     bind (fc_assert (maximum_time_until_expiration p > ucast (block_interval p))
       ''Maximum transaction expiration time must be greater than a block interval'') (\<lambda>_.
     fc_assert (maximum_proposal_lifetime p - committee_proposal_review_period p > ucast (block_interval p))
       ''Committee proposal review period must be less than the maximum proposal lifetime''))))))))))))"

section \<open>Rounding up ends and gives the least sufficient fee\<close>

lemma default_fee_parameters_length: "length default_fee_parameters = 49"
  by (simp add: default_fee_parameters_def Let_def)

lemma le_div_iff:
  fixes k m q :: int
  assumes "0 < q"
  shows "k \<le> m div q \<longleftrightarrow> k * q \<le> m"
proof
  assume "k \<le> m div q"
  then have "k * q \<le> m div q * q" using assms by (intro mult_right_mono) auto
  also have "\<dots> \<le> m" using div_mult_mod_eq [of m q] pos_mod_sign [OF assms, of m] by linarith
  finally show "k * q \<le> m" .
next
  assume "k * q \<le> m"
  from zdiv_mono1 [OF this assms] show "k \<le> m div q" using assms by simp
qed

text \<open>Converting \<open>s\<close> by \<open>q / b\<close> and back: the quotient rounded down falls short by at most one.\<close>

lemma muldiv_round_trip:
  fixes s q b r :: int
  assumes "0 \<le> s" "0 < q" "0 < b"
  shows "r < s * q div b \<Longrightarrow> 0 \<le> r \<Longrightarrow> r * b div q < s" "s \<le> (s * q div b + 1) * b div q"
proof -
  have d: "s * q = b * (s * q div b) + s * q mod b" "0 \<le> s * q mod b" "s * q mod b < b" using assms(3) by simp_all
  show "r * b div q < s" if r: "r < s * q div b" "0 \<le> r"
  proof -
    have "(r + 1) * b \<le> (s * q div b) * b" using r(1) assms(3) by (intro mult_right_mono) auto
    moreover have "(r + 1) * b = r * b + b" "(s * q div b) * b = b * (s * q div b)" by (simp_all add: algebra_simps)
    ultimately have "r * b < s * q" using d assms(3) by linarith
    then show ?thesis using le_div_iff [OF assms(2), of s "r * b"] by linarith
  qed
  have "(s * q div b + 1) * b = b * (s * q div b) + b" by (simp add: algebra_simps)
  then have "s * q \<le> (s * q div b + 1) * b" using d by linarith
  then show "s \<le> (s * q div b + 1) * b div q" by (simp only: le_div_iff [OF assms(2)])
qed

text \<open>A price between the core asset and another one, by the direction of the conversion.\<close>

definition core_rate :: "price \<Rightarrow> bool" where
  "core_rate p \<longleftrightarrow> price_ok p \<and> asset_id (base p) \<noteq> asset_id (quote p) \<and> (asset_id (base p) = 0 \<or> asset_id (quote p) = 0)"

lemma core_rate_cases:
  assumes "core_rate p"
  obtains q b i where "0 < q" "q < 2 ^ 63" "0 < b" "b < 2 ^ 63" "i \<noteq> 0"
    "\<And>x. asset_mul (mk_asset x 0) p = scale x q b i" "\<And>x. asset_mul (mk_asset x i) p = scale x b q 0"
proof (cases "asset_id (base p) = 0")
  case True
  show thesis
    by (rule that [of "amount (quote p)" "amount (base p)" "asset_id (quote p)"])
      (use assms True in \<open>auto simp: core_rate_def price_ok_def asset_mul_def fc_assert_def\<close>)
next
  case False
  show thesis
    by (rule that [of "amount (base p)" "amount (quote p)" "asset_id (base p)"])
      (use assms False in \<open>auto simp: core_rate_def price_ok_def asset_mul_def fc_assert_def\<close>)
qed

lemma core_fee_range: "core_fee F L S op = Inr scaled \<Longrightarrow> 0 \<le> scaled \<and> scaled \<le> GRAPHENE_MAX_SHARE_SUPPLY"
  by (auto simp: core_fee_def ok_simps Let_def)

lemma max_supply_small: "x \<le> GRAPHENE_MAX_SHARE_SUPPLY + 1 \<Longrightarrow> x + 1 < 2 ^ 63"
  by (simp add: GRAPHENE_MAX_SHARE_SUPPLY_def)

lemma raise_fee_step_eq:
  assumes F: "fc_laws F" and r: "0 \<le> x" "x \<le> GRAPHENE_MAX_SHARE_SUPPLY + 1" "0 < b" "b < 2 ^ 63" "0 < q" "q < 2 ^ 63"
    and m: "asset_mul (mk_asset x i) p = scale x b q 0"
  shows "raise_fee_step F p s (mk_asset x i) =
    (if x * b div q > GRAPHENE_MAX_SHARE_SUPPLY then Inl (Assert_Exception ''result <= GRAPHENE_MAX_SHARE_SUPPLY'')
     else if x * b div q < s then Inr (Continue (mk_asset (x + 1) i)) else Inr (Finish (mk_asset x i)))"
proof -
  have small: "x < 2 ^ 63" using max_supply_small [OF r(2)] by simp
  have u: "uint (u128_muldiv x b q) = x * b div q" using r small by (intro uint_u128_muldiv_int64) auto
  have a: "safe_add F x 1 = Inr (x + 1)"
    using max_supply_small [OF r(2)] r(1) by (intro fc_laws.safe_add_ok [OF F]) (simp add: in_int64_def)
  show ?thesis using u a by (simp add: raise_fee_step_def m scale_def asset_lt_def fc_assert_def)
qed

text \<open>The loop takes at most one step up: the quotient rounded down, or one more.\<close>

lemma raise_fee_run:
  assumes F: "fc_laws F" and s: "0 \<le> s" "s * q div b \<le> GRAPHENE_MAX_SHARE_SUPPLY" and qb: "0 < b" "b < 2 ^ 63" "0 < q" "q < 2 ^ 63"
    and m: "\<And>x. asset_mul (mk_asset x i) p = scale x b q 0"
    and run: "run_loop 3 (raise_fee_step F p s) (mk_asset (s * q div b) i) = Inr r"
    and top: "amount r \<le> GRAPHENE_MAX_SHARE_SUPPLY"
  shows "asset_id r = i \<and> 0 \<le> amount r \<and> s \<le> amount r * b div q \<and> amount r * b div q \<le> GRAPHENE_MAX_SHARE_SUPPLY \<and>
    (\<forall>x. 0 \<le> x \<and> x < amount r \<longrightarrow> x * b div q < s)"
proof -
  let ?x = "s * q div b"
  note rt = muldiv_round_trip [OF s(1) qb(3,1)]
  have x': "?x \<le> GRAPHENE_MAX_SHARE_SUPPLY + 1" using s(2) by simp
  have x: "0 \<le> ?x" using s(1) qb by (simp add: pos_imp_zdiv_nonneg_iff)
  note 1 = raise_fee_step_eq [OF F x x' qb m, where s = s]
  show ?thesis
  proof (cases "?x * b div q < s")
    case False
    then have "r = mk_asset ?x i" "?x * b div q \<le> GRAPHENE_MAX_SHARE_SUPPLY"
      using run 1 by (auto simp: numeral_3_eq_3 run_loop.simps(2) split: if_splits)
    then show ?thesis using False x rt(1) by auto
  next
    case True
    have c: "run_loop 2 (raise_fee_step F p s) (mk_asset (?x + 1) i) = Inr r"
      using run 1 True by (auto simp: numeral_3_eq_3 numeral_2_eq_2 run_loop.simps(2) [of "Suc (Suc 0)"] split: if_splits)
    have x1: "0 \<le> ?x + 1" "?x + 1 \<le> GRAPHENE_MAX_SHARE_SUPPLY + 1" using x s(2) by simp_all
    have "r = mk_asset (?x + 1) i" "(?x + 1) * b div q \<le> GRAPHENE_MAX_SHARE_SUPPLY"
      using c raise_fee_step_eq [OF F x1 qb m, where s = s] rt(2)
      by (auto simp: numeral_2_eq_2 run_loop.simps(2) split: if_splits)
    moreover have "y * b div q < s" if "0 \<le> y" "y < ?x + 1" for y
      using that rt(1) [of y] True by (cases "y = ?x") simp_all
    ultimately show ?thesis using x rt(2) by auto
  qed
qed

text \<open>The fuel is enough: the run gives the result of the loop as the code has it.\<close>

lemma raise_fee_result:
  assumes F: "fc_laws F" and s: "0 \<le> s" "s * q div b \<le> GRAPHENE_MAX_SHARE_SUPPLY" and qb: "0 < b" "b < 2 ^ 63" "0 < q" "q < 2 ^ 63"
    and m: "\<And>x. asset_mul (mk_asset x i) p = scale x b q 0"
  shows "loop_result (raise_fee_step F p s) (mk_asset (s * q div b) i) (run_loop 3 (raise_fee_step F p s) (mk_asset (s * q div b) i))"
proof -
  let ?x = "s * q div b" and ?step = "raise_fee_step F p s"
  have x: "0 \<le> ?x" "?x \<le> GRAPHENE_MAX_SHARE_SUPPLY + 1" "0 \<le> ?x + 1" "?x + 1 \<le> GRAPHENE_MAX_SHARE_SUPPLY + 1"
    using s qb by (simp_all add: pos_imp_zdiv_nonneg_iff)
  note 1 = raise_fee_step_eq [OF F x(1,2) qb m, where s = s] and 2 = raise_fee_step_eq [OF F x(3,4) qb m, where s = s]
  have second: "loop_result ?step (mk_asset (?x + 1) i) (run_loop 2 ?step (mk_asset (?x + 1) i))"
    using 2 muldiv_round_trip(2) [OF s(1) qb(3,1)]
    by (auto simp: numeral_2_eq_2 run_loop.simps(2) intro: loop_result.throw loop_result.finish)
  show ?thesis
    using 1 second loop_result.continue [OF _ second]
    by (auto simp: numeral_3_eq_3 numeral_2_eq_2 run_loop.simps(2) [of "Suc (Suc 0)"] intro: loop_result.throw loop_result.finish)
qed

text \<open>With the unit price, the default of the code, the fee is the scaled fee itself.\<close>

lemma calculate_fee_unit_price:
  assumes F: "fc_laws F"
  shows "calculate_fee F L S op (unit_price 0) = bind (core_fee F L S op) (\<lambda>scaled. Inr (mk_asset scaled 0))"
proof (cases "core_fee F L S op")
  case (Inr s)
  then have s: "0 \<le> s" "s \<le> GRAPHENE_MAX_SHARE_SUPPLY" by (simp_all add: core_fee_range)
  have small: "s < 2 ^ 63" using s(2) by (simp add: GRAPHENE_MAX_SHARE_SUPPLY_def)
  have "scale s 1 1 0 = Inr (mk_asset s 0)" using s small by (simp add: scale_Inr)
  then have m: "asset_mul (mk_asset s 0) (unit_price 0) = Inr (mk_asset s 0)" by (simp add: asset_mul_def unit_price_def)
  have "raise_fee_step F (unit_price 0) s (mk_asset s 0) = Inr (Finish (mk_asset s 0))" by (simp add: raise_fee_step_def m asset_lt_def)
  then show ?thesis using Inr m s(2) by (simp add: calculate_fee_def numeral_3_eq_3 run_loop.simps(2))
qed (simp add: calculate_fee_def)

section \<open>Properties\<close>

text \<open>
  C25. The fee of an operation in another asset is the least amount that converts back to the fee in core: for any price between
  the core asset and another one, converting the calculated fee by the price gives at least the scaled fee of the schedule, and every smaller amount
  gives less. The calculated fee is not negative and not above the maximal supply.
\<close>

theorem calculate_fee_least:
  assumes F: "fc_laws F" and rate: "core_rate rate" and ok: "calculate_fee F L S op rate = Inr f"
  shows "\<exists>scaled c. core_fee F L S op = Inr scaled \<and> asset_mul f rate = Inr c \<and> asset_id c = 0 \<and> scaled \<le> amount c \<and>
    0 \<le> amount f \<and> amount f \<le> GRAPHENE_MAX_SHARE_SUPPLY \<and> asset_id f \<noteq> 0 \<and>
    (\<forall>x. 0 \<le> x \<and> x < amount f \<longrightarrow> (\<exists>c'. asset_mul (f\<lparr>amount := x\<rparr>) rate = Inr c' \<and> amount c' < scaled))"
  using rate
proof (rule core_rate_cases)
  fix q b :: int and i
  assume qb: "0 < q" "q < 2 ^ 63" "0 < b" "b < 2 ^ 63" "i \<noteq> 0"
    and to: "\<And>x. asset_mul (mk_asset x 0) rate = scale x q b i" and m: "\<And>x. asset_mul (mk_asset x i) rate = scale x b q 0"
  obtain s r0 where s: "core_fee F L S op = Inr s" and r0: "asset_mul (mk_asset s 0) rate = Inr r0"
    and run: "run_loop 3 (raise_fee_step F rate s) r0 = Inr f" and top: "amount f \<le> GRAPHENE_MAX_SHARE_SUPPLY"
    using ok by (auto simp: calculate_fee_def ok_simps)
  have s': "0 \<le> s" "s < 2 ^ 63" "s \<le> GRAPHENE_MAX_SHARE_SUPPLY" using core_fee_range [OF s] by (simp_all add: GRAPHENE_MAX_SHARE_SUPPLY_def)
  have x0: "r0 = mk_asset (s * q div b) i" "s * q div b \<le> GRAPHENE_MAX_SHARE_SUPPLY"
    using r0 s' qb unfolding to by (simp_all add: scale_Inr)
  from raise_fee_run [OF F s'(1) x0(2) qb(3,4,1,2) m run [unfolded x0(1)] top]
  have f: "asset_id f = i" "0 \<le> amount f" "s \<le> amount f * b div q" "amount f * b div q \<le> GRAPHENE_MAX_SHARE_SUPPLY"
    "\<forall>x. 0 \<le> x \<and> x < amount f \<longrightarrow> x * b div q < s" by blast+
  have conv: "asset_mul (mk_asset x i) rate = Inr (mk_asset (x * b div q) 0)"
    if "0 \<le> x" "x \<le> amount f" "x * b div q \<le> GRAPHENE_MAX_SHARE_SUPPLY" for x
    using that qb top unfolding m by (subst scale_Inr) (auto simp: GRAPHENE_MAX_SHARE_SUPPLY_def)
  have "asset_mul f rate = Inr (mk_asset (amount f * b div q) 0)" using conv [OF f(2) _ f(4)] f(1) by (cases f) simp
  moreover have "\<exists>c'. asset_mul (f\<lparr>amount := x\<rparr>) rate = Inr c' \<and> amount c' < s" if "0 \<le> x" "x < amount f" for x
  proof -
    have l: "x * b div q < s" using f(5) that by blast
    then have "asset_mul (mk_asset x i) rate = Inr (mk_asset (x * b div q) 0)" using that s'(3) by (intro conv) simp_all
    then show ?thesis using l f(1) by (cases f) simp
  qed
  ultimately show ?thesis using s f(1-3) top qb(5) by auto
qed

definition demo_pack :: pack_lib where
  "demo_pack = \<lparr> has_memo = (\<lambda>op. True), memo_size = (\<lambda>op. 512), operation_size = (\<lambda>op. 100) \<rparr>"

definition demo_payment :: operation where
  "demo_payment = Transfer \<lparr> tr_fee = mk_asset 0 0, tr_from = 5, tr_to = 6, tr_amount = mk_asset 1000 0 \<rparr>"

definition demo_rate :: price where
  "demo_rate = \<lparr> base = mk_asset 3 7, quote = mk_asset 2 0 \<rparr>"

theorem calculate_fee_least_witness:
  "\<exists>c. calculate_fee fc_int64 demo_pack get_default demo_payment demo_rate = Inr (mk_asset 3750000000 7) \<and>
     asset_mul (mk_asset 3750000000 7) demo_rate = Inr c \<and> 2500000000 \<le> amount c"
proof -
  have c: "calculate_fee fc_int64 demo_pack get_default demo_payment demo_rate = Inr (mk_asset 3750000000 7)" by code_simp
  have "core_fee fc_int64 demo_pack get_default demo_payment = Inr 2500000000" by code_simp
  moreover have "core_rate demo_rate" by (simp add: core_rate_def demo_rate_def price_ok_def)
  ultimately show ?thesis using calculate_fee_least [OF fc64.fc_laws_axioms _ c] c by auto
qed

text \<open>
  C37. The check that the review period of the committee is shorter than the life of a proposal does not hold what its message says: the
  difference wraps around, so that parameters with a review period longer than the life of a proposal are accepted, unless the difference is almost
  the whole range.
\<close>

theorem review_period_check_wraps:
  assumes "chain_parameters_validate p = Inr ()"
    and "uint (maximum_proposal_lifetime p) < uint review" "uint review - uint (maximum_proposal_lifetime p) < 2 ^ 32 - uint (block_interval p)"
  shows "chain_parameters_validate (p\<lparr>committee_proposal_review_period := review\<rparr>) = Inr ()"
proof -
  let ?d = "maximum_proposal_lifetime p - review"
  have lt: "uint review < 2 ^ 32" using uint_lt2p [of review] by simp
  have "(uint (maximum_proposal_lifetime p) - uint review + 2 ^ 32) mod 2 ^ 32 = uint (maximum_proposal_lifetime p) - uint review + 2 ^ 32"
    using assms(2) uint_ge_0 [of "maximum_proposal_lifetime p"] lt by (intro mod_pos_pos_trivial) linarith+
  then have "uint ?d = uint (maximum_proposal_lifetime p) - uint review + 2 ^ 32" by (simp add: uint_word_ariths)
  moreover have "uint (ucast (block_interval p) :: u32) = uint (block_interval p)" by (intro uint_up_ucast) (simp add: is_up)
  ultimately have "ucast (block_interval p) < ?d" using assms(3) by (simp add: word_less_def)
  then show ?thesis using assms(1) by (auto simp: chain_parameters_validate_def ok_simps)
qed

definition demo_parameters :: chain_parameters where
  "demo_parameters = (parameters demo_chain)\<lparr>block_interval := 5, maintenance_interval := 3600, maximum_transaction_size := 2048,
     maximum_block_size := 2048000, maximum_time_until_expiration := 86400, maximum_proposal_lifetime := 2419200,
     committee_proposal_review_period := 1209600, reserve_percent_of_fee := 2000, network_percent_of_fee := 2000,
     lifetime_referrer_percent_of_fee := 3000\<rparr>"

theorem review_period_check_wraps_witness:
  "chain_parameters_validate (demo_parameters\<lparr>committee_proposal_review_period := 2419201\<rparr>) = Inr ()"
proof -
  have "chain_parameters_validate demo_parameters = Inr ()" by code_simp
  from review_period_check_wraps [OF this, of 2419201] show ?thesis by (simp add: demo_parameters_def)
qed

text \<open>When the fee does not depend on the fee field, setting it takes one round and the operation carries the calculated fee.\<close>

lemma set_fee_settles:
  assumes "calculate_fee F L S op rate = Inr f" "calculate_fee F L S (operation_set_fee f op) rate = Inr f"
  shows "set_fee F L S op rate = Inr (operation_set_fee f op, f)"
  using assms by (simp add: set_fee_def MAX_FEE_STABILIZATION_ITERATION_def numeral_eq_Suc Let_def)

end
