(* ===== verification/Proposals.thy ===== *)
theory Proposals
  imports Transactions Fee_Schedule
begin

text \<open>
  Proposals (protocol/proposal.cpp, proposal_object.hpp, proposal_object.cpp, proposal_evaluator.cpp, and the parts of db_block.cpp and db_update.cpp that run
  them): creating, approving and deleting a proposed transaction, its execution once the approvals suffice or when it expires, and the
  index from accounts to proposals.

  A proposed operation is one of the operations of the model or the update of the global parameters, which only a proposal may carry
  (committee\_member\_evaluator.cpp). Proposals about proposals are not modelled. The state is the chain state with the table of proposals and the
  index; the log of applied operations is left out. The proposal evaluators are given by their evaluation and application, the fee of the
  operations that handle proposals is charged as for every operation (\<^verbatim>\<open>Evaluator\<close>).
\<close>

section \<open>Proposed operations\<close>

record update_global_parameters_operation =
  ugp_fee :: asset
  new_parameters :: chain_parameters

datatype proposed_operation = Chain_Operation operation | Update_Global_Parameters update_global_parameters_operation

definition update_global_parameters_validate :: "update_global_parameters_operation \<Rightarrow> unit result" where
  "update_global_parameters_validate op =
     bind (fc_assert (amount (ugp_fee op) \<ge> 0) ''fee.amount >= 0'') (\<lambda>_. chain_parameters_validate (new_parameters op))"

definition update_global_parameters_do_evaluate ::
  "bool \<Rightarrow> fc_lib \<Rightarrow> update_global_parameters_operation \<Rightarrow> fee_state \<Rightarrow> database \<Rightarrow> (unit \<times> fee_state) result" where
  "update_global_parameters_do_evaluate is_proposed_trx F op fs s =
     bind (fc_assert is_proposed_trx ''trx_state->_is_proposed_trx'') (\<lambda>_. Inr ((), fs))"

definition update_global_parameters_do_apply ::
  "fc_lib \<Rightarrow> update_global_parameters_operation \<Rightarrow> unit \<Rightarrow> fee_state \<Rightarrow> database \<Rightarrow> (database \<times> unit) result" where
  "update_global_parameters_do_apply F op e fs s = Inr (s\<lparr>pending_parameters := Some (new_parameters op)\<rparr>, ())"

definition update_global_parameters_evaluator :: "bool \<Rightarrow> (update_global_parameters_operation, unit, unit) evaluator" where
  "update_global_parameters_evaluator is_proposed_trx = \<lparr> fee_payer = (\<lambda>op. GRAPHENE_COMMITTEE_ACCOUNT), op_fee = ugp_fee,
     do_evaluate = update_global_parameters_do_evaluate is_proposed_trx, do_pay_fee = default_pay_fee,
     do_apply = update_global_parameters_do_apply \<rparr>"

fun proposed_validate :: "proposed_operation \<Rightarrow> unit result" where
  "proposed_validate (Chain_Operation op) = operation_validate op"
| "proposed_validate (Update_Global_Parameters op) = update_global_parameters_validate op"

fun proposed_required_authorities :: "proposed_operation \<Rightarrow> required_auths \<Rightarrow> required_auths" where
  "proposed_required_authorities (Chain_Operation op) r = operation_get_required_authorities op r"
| "proposed_required_authorities (Update_Global_Parameters op) r =
     r\<lparr>required_active := insort_insert GRAPHENE_COMMITTEE_ACCOUNT (required_active r)\<rparr>"

definition required_by :: "proposed_operation list \<Rightarrow> required_auths" where
  "required_by ops = fold proposed_required_authorities ops \<lparr> required_active = [], required_owner = [], other_auths = [] \<rparr>"

text \<open>Running a proposed operation in a proposed transaction, with the fee that the schedule asks for.\<close>

fun apply_proposed_operation ::
  "fc_lib \<Rightarrow> (proposed_operation \<Rightarrow> database \<Rightarrow> share_type) \<Rightarrow> proposed_operation \<Rightarrow> database \<Rightarrow> (database \<times> operation_result) result" where
  "apply_proposed_operation F fees (Chain_Operation op) s =
     apply_evaluator F fresh_evaluation_state (fees (Chain_Operation op) s) op s"
| "apply_proposed_operation F fees (Update_Global_Parameters op) s =
     run_evaluator F fresh_evaluation_state (fees (Update_Global_Parameters op) s) (update_global_parameters_evaluator True) (\<lambda>_. Void_Result) op s"

section \<open>The table and the index\<close>

record proposal_object =
  expiration_time :: time_point_sec
  review_period_time :: "time_point_sec option"
  proposed_ops :: "proposed_operation list"
  required_active_approvals :: "nat list"
  available_active_approvals :: "nat list"
  required_owner_approvals :: "nat list"
  available_owner_approvals :: "nat list"
  available_key_approvals :: "public_key list"

record proposal_db =
  chain :: database
  proposals :: "proposal_object index"
  account_to_proposals :: "nat \<rightharpoonup> nat set"

definition approvers :: "proposal_object \<Rightarrow> nat list" where
  "approvers p = required_active_approvals p @ required_owner_approvals p @ available_active_approvals p @ available_owner_approvals p"

definition approval_insert :: "nat \<Rightarrow> nat \<Rightarrow> (nat \<rightharpoonup> nat set) \<Rightarrow> (nat \<rightharpoonup> nat set)" where
  "approval_insert i a m = m(a \<mapsto> insert i (case m a of None \<Rightarrow> {} | Some ps \<Rightarrow> ps))"

definition approval_remove :: "nat \<Rightarrow> nat \<Rightarrow> (nat \<rightharpoonup> nat set) \<Rightarrow> (nat \<rightharpoonup> nat set)" where
  "approval_remove i a m =
     (case m a of None \<Rightarrow> m | Some ps \<Rightarrow> if ps - {i} = {} then m(a := None) else m(a \<mapsto> ps - {i}))"

definition object_inserted :: "nat \<Rightarrow> proposal_object \<Rightarrow> (nat \<rightharpoonup> nat set) \<Rightarrow> (nat \<rightharpoonup> nat set)" where
  "object_inserted i p m = fold (approval_insert i) (approvers p) m"

definition object_removed :: "nat \<Rightarrow> proposal_object \<Rightarrow> (nat \<rightharpoonup> nat set) \<Rightarrow> (nat \<rightharpoonup> nat set)" where
  "object_removed i p m = fold (approval_remove i) (approvers p) m"

definition create_proposal :: "proposal_object \<Rightarrow> proposal_db \<Rightarrow> (proposal_db \<times> nat) result" where
  "create_proposal p d =
     bind (index_create (\<lambda>x y. False) (proposals d) p) (\<lambda>(t, i).
     Inr (d\<lparr>proposals := t, account_to_proposals := object_inserted i p (account_to_proposals d)\<rparr>, i))"

definition remove_proposal :: "nat \<Rightarrow> proposal_db \<Rightarrow> proposal_db result" where
  "remove_proposal i d =
     bind (index_get (proposals d) i) (\<lambda>p.
     bind (index_remove (proposals d) i) (\<lambda>t.
     Inr (d\<lparr>proposals := t, account_to_proposals := object_removed i p (account_to_proposals d)\<rparr>)))"

section \<open>Creating a proposal\<close>

record proposal_create_operation =
  pc_fee :: asset
  pc_fee_paying_account :: nat
  pc_proposed_ops :: "proposed_operation list"
  pc_expiration_time :: time_point_sec
  review_period_seconds :: "u32 option"

fun validate_proposed :: "proposed_operation list \<Rightarrow> unit result" where
  "validate_proposed [] = Inr ()"
| "validate_proposed (op # ops) = bind (proposed_validate op) (\<lambda>_. validate_proposed ops)"

definition proposal_create_validate :: "proposal_create_operation \<Rightarrow> unit result" where
  "proposal_create_validate op =
     bind (fc_assert (pc_proposed_ops op \<noteq> []) ''!proposed_ops.empty()'') (\<lambda>_. validate_proposed (pc_proposed_ops op))"

definition committee_proposal :: "chain_parameters \<Rightarrow> time_point_sec \<Rightarrow> proposal_create_operation" where
  "committee_proposal global_params now = \<lparr> pc_fee = mk_asset 0 0, pc_fee_paying_account = 0, pc_proposed_ops = [],
     pc_expiration_time = now + maximum_proposal_lifetime global_params,
     review_period_seconds = Some (committee_proposal_review_period global_params) \<rparr>"

text \<open>The authority of the committee asks for a review period; other authorities than those of accounts are not supported.\<close>

definition check_review_period :: "u32 option \<Rightarrow> required_auths \<Rightarrow> chain_parameters \<Rightarrow> unit result" where
  "check_review_period review r p =
     (if GRAPHENE_COMMITTEE_ACCOUNT \<in> set (required_active r) \<union> set (required_owner r) then
        (case review of
           None \<Rightarrow> Inl (Chain_Exception ''proposal_create_review_period_required'')
         | Some t \<Rightarrow> graphene_assert (t \<ge> committee_proposal_review_period p) (Chain_Exception ''proposal_create_review_period_insufficient''))
      else Inr ())"

definition proposal_create_do_evaluate :: "proposal_create_operation \<Rightarrow> proposal_db \<Rightarrow> unit result" where
  "proposal_create_do_evaluate op d =
     (let s = chain d; now = head_block_time s; r = required_by (pc_proposed_ops op) in
      bind (fc_assert (pc_expiration_time op > now) ''Proposal has already expired on creation.'') (\<lambda>_.
      bind (fc_assert (pc_expiration_time op \<le> now + maximum_proposal_lifetime (parameters s)) ''Proposal expiration time is too far in the future.'') (\<lambda>_.
      bind (fc_assert (case review_period_seconds op of None \<Rightarrow> True | Some t \<Rightarrow> uint t < uint (pc_expiration_time op) - uint now)
        ''Proposal review period must be less than its overall lifetime.'') (\<lambda>_.
      bind (fc_assert (other_auths r = []) ''other.size() == 0'') (\<lambda>_.
      bind (check_review_period (review_period_seconds op) r (parameters s)) (\<lambda>_.
      bind (fc_assert (pc_proposed_ops op \<noteq> []) ''A transaction must have at least one operation'') (\<lambda>_.
      validate_proposed (pc_proposed_ops op))))))))"

definition new_proposal :: "proposal_create_operation \<Rightarrow> proposal_object" where
  "new_proposal op =
     (let r = required_by (pc_proposed_ops op) in
      \<lparr> expiration_time = pc_expiration_time op,
        review_period_time = map_option (\<lambda>t. pc_expiration_time op - t) (review_period_seconds op),
        proposed_ops = pc_proposed_ops op,
        required_active_approvals = filter (\<lambda>a. a \<notin> set (required_owner r)) (required_active r), available_active_approvals = [],
        required_owner_approvals = required_owner r, available_owner_approvals = [], available_key_approvals = [] \<rparr>)"

definition proposal_create_do_apply :: "proposal_create_operation \<Rightarrow> proposal_db \<Rightarrow> (proposal_db \<times> nat) result" where
  "proposal_create_do_apply op d = create_proposal (new_proposal op) d"

section \<open>Executing a proposal\<close>

definition is_authorized_to_execute :: "crypto_lib \<Rightarrow> proposal_object \<Rightarrow> database \<Rightarrow> bool" where
  "is_authorized_to_execute L p s =
     (case verify_authority (db_sign_env L s) (db_get_owner s) (unat (max_authority_depth (parameters s))) True
             (set (available_active_approvals p)) (set (available_owner_approvals p)) (required_by (proposed_ops p)) (available_key_approvals p) of
        Inl e \<Rightarrow> False | Inr u \<Rightarrow> True)"

primrec run_proposed ::
  "fc_lib \<Rightarrow> (proposed_operation \<Rightarrow> database \<Rightarrow> share_type) \<Rightarrow> proposed_operation list \<Rightarrow> database \<Rightarrow> (database \<times> operation_result list) result" where
  "run_proposed F fees [] s = Inr (s, [])"
| "run_proposed F fees (op # ops) s =
     bind (apply_proposed_operation F fees op s) (\<lambda>(s1, r). bind (run_proposed F fees ops s1) (\<lambda>(s2, rs). Inr (s2, r # rs)))"

definition push_proposal ::
  "fc_lib \<Rightarrow> (proposed_operation \<Rightarrow> database \<Rightarrow> share_type) \<Rightarrow> nat \<Rightarrow> proposal_db \<Rightarrow> (proposal_db \<times> operation_result list) result" where
  "push_proposal F fees i d =
     bind (index_get (proposals d) i) (\<lambda>p.
     bind (run_proposed F fees (proposed_ops p) (chain d)) (\<lambda>(s, rs).
     bind (remove_proposal i (d\<lparr>chain := s\<rparr>)) (\<lambda>d'. Inr (d', rs))))"

section \<open>Approving and deleting a proposal\<close>

record proposal_update_operation =
  pu_fee_paying_account :: nat
  pu_fee :: asset
  pu_proposal :: nat
  active_approvals_to_add :: "nat list"
  active_approvals_to_remove :: "nat list"
  owner_approvals_to_add :: "nat list"
  owner_approvals_to_remove :: "nat list"
  key_approvals_to_add :: "public_key list"
  key_approvals_to_remove :: "public_key list"

definition disjoint_lists :: "nat list \<Rightarrow> nat list \<Rightarrow> unit result" where
  "disjoint_lists xs ys = fc_assert (list_all (\<lambda>x. x \<notin> set ys) xs) ''Cannot add and remove approval at the same time.''"

definition proposal_update_validate :: "proposal_update_operation \<Rightarrow> unit result" where
  "proposal_update_validate op =
     bind (fc_assert (amount (pu_fee op) \<ge> 0) ''fee.amount >= 0'') (\<lambda>_.
     bind (fc_assert (\<not> (active_approvals_to_add op = [] \<and> active_approvals_to_remove op = [] \<and> owner_approvals_to_add op = [] \<and>
       owner_approvals_to_remove op = [] \<and> key_approvals_to_add op = [] \<and> key_approvals_to_remove op = [])) ''no approvals'') (\<lambda>_.
     bind (disjoint_lists (active_approvals_to_add op) (active_approvals_to_remove op)) (\<lambda>_.
     bind (disjoint_lists (owner_approvals_to_add op) (owner_approvals_to_remove op)) (\<lambda>_.
     disjoint_lists (key_approvals_to_add op) (key_approvals_to_remove op)))))"

text \<open>What the transaction with the update has to be signed by: the accounts and keys whose approval it changes.\<close>

definition proposal_update_required_authorities :: "proposal_update_operation \<Rightarrow> required_auths \<Rightarrow> required_auths" where
  "proposal_update_required_authorities op r =
     (let keys = fold insort_insert (key_approvals_to_add op @ key_approvals_to_remove op) [] in
      r\<lparr>required_active := fold insort_insert (active_approvals_to_add op @ active_approvals_to_remove op)
           (insort_insert (pu_fee_paying_account op) (required_active r)),
        required_owner := fold insort_insert (owner_approvals_to_add op @ owner_approvals_to_remove op) (required_owner r),
        other_auths := other_auths r @ [\<lparr> weight_threshold = of_nat (length keys), account_auths = [], key_auths = map (\<lambda>k. (k, 1)) keys,
          address_auths = [] \<rparr>]\<rparr>)"

definition proposal_update_do_evaluate :: "proposal_update_operation \<Rightarrow> proposal_db \<Rightarrow> proposal_object result" where
  "proposal_update_do_evaluate op d =
     bind (index_get (proposals d) (pu_proposal op)) (\<lambda>p.
     bind (case review_period_time p of
             None \<Rightarrow> Inr ()
           | Some t \<Rightarrow> if head_block_time (chain d) \<ge> t
               then fc_assert (active_approvals_to_add op = [] \<and> owner_approvals_to_add op = [])
                 ''This proposal is in its review period. No new approvals may be added.''
               else Inr ()) (\<lambda>_.
     bind (fc_assert (list_all (\<lambda>a. a \<in> set (available_active_approvals p)) (active_approvals_to_remove op)) ''available_active_approvals'') (\<lambda>_.
     bind (fc_assert (list_all (\<lambda>a. a \<in> set (available_owner_approvals p)) (owner_approvals_to_remove op)) ''available_owner_approvals'') (\<lambda>_.
     Inr p))))"

definition change_approvals :: "nat list \<Rightarrow> nat list \<Rightarrow> nat list \<Rightarrow> nat list" where
  "change_approvals to_add to_remove xs = filter (\<lambda>x. x \<notin> set to_remove) (fold insort_insert to_add xs)"

definition approved :: "proposal_update_operation \<Rightarrow> proposal_object \<Rightarrow> proposal_object" where
  "approved op p = p\<lparr>
     available_active_approvals := change_approvals (active_approvals_to_add op) (active_approvals_to_remove op) (available_active_approvals p),
     available_owner_approvals := change_approvals (owner_approvals_to_add op) (owner_approvals_to_remove op) (available_owner_approvals p),
     available_key_approvals := change_approvals (key_approvals_to_add op) (key_approvals_to_remove op) (available_key_approvals p)\<rparr>"

text \<open>A proposed transaction that fails is rolled back and stays until it expires.\<close>

definition proposal_update_do_apply ::
  "crypto_lib \<Rightarrow> fc_lib \<Rightarrow> (proposed_operation \<Rightarrow> database \<Rightarrow> share_type) \<Rightarrow> proposal_update_operation \<Rightarrow> proposal_db \<Rightarrow> proposal_db result" where
  "proposal_update_do_apply L F fees op d =
     bind (index_modify (\<lambda>x y. False) (proposals d) (pu_proposal op) (\<lambda>p. Inr (approved op p))) (\<lambda>t.
     let d1 = d\<lparr>proposals := t\<rparr> in
     bind (index_get t (pu_proposal op)) (\<lambda>p.
     if review_period_time p \<noteq> None then Inr d1
     else if is_authorized_to_execute L p (chain d1) then
       (case push_proposal F fees (pu_proposal op) d1 of Inl e \<Rightarrow> Inr d1 | Inr (d2, rs) \<Rightarrow> Inr d2)
     else Inr d1))"

record proposal_delete_operation =
  pd_fee_paying_account :: nat
  using_owner_authority :: bool
  pd_fee :: asset
  pd_proposal :: nat

definition proposal_delete_validate :: "proposal_delete_operation \<Rightarrow> unit result" where
  "proposal_delete_validate op = fc_assert (amount (pd_fee op) \<ge> 0) ''fee.amount >= 0''"

definition proposal_delete_do_evaluate :: "proposal_delete_operation \<Rightarrow> proposal_db \<Rightarrow> unit result" where
  "proposal_delete_do_evaluate op d =
     bind (index_get (proposals d) (pd_proposal op)) (\<lambda>p.
     fc_assert (pd_fee_paying_account op \<in> set (if using_owner_authority op then required_owner_approvals p else required_active_approvals p))
       ''Provided authority is not authoritative for this proposal.'')"

definition proposal_delete_do_apply :: "proposal_delete_operation \<Rightarrow> proposal_db \<Rightarrow> proposal_db result" where
  "proposal_delete_do_apply op d = remove_proposal (pd_proposal op) d"

section \<open>Expired proposals\<close>

definition first_to_expire :: "proposal_db \<Rightarrow> (nat \<times> proposal_object) option" where
  "first_to_expire d =
     (case sort_by (\<lambda>x y. expiration_time (snd x) < expiration_time (snd y)) (rows (proposals d)) of [] \<Rightarrow> None | x # xs \<Rightarrow> Some x)"

definition expire_proposal ::
  "crypto_lib \<Rightarrow> fc_lib \<Rightarrow> (proposed_operation \<Rightarrow> database \<Rightarrow> share_type) \<Rightarrow> nat \<Rightarrow> proposal_object \<Rightarrow> proposal_db \<Rightarrow> proposal_db result" where
  "expire_proposal L F fees i p d =
     (if is_authorized_to_execute L p (chain d) then
        (case push_proposal F fees i d of Inl e \<Rightarrow> remove_proposal i d | Inr (d', rs) \<Rightarrow> Inr d')
      else remove_proposal i d)"

lemma remove_proposal_rows:
  "remove_proposal i d = Inr d' \<Longrightarrow> rows (proposals d') = row_delete i (rows (proposals d)) \<and> i \<in> fst ` set (rows (proposals d))"
  by (auto simp: remove_proposal_def index_remove_Inr index_get_def ok_simps dest: index_find_Some_key)

lemma push_proposal_rows:
  "push_proposal F fees i d = Inr (d', rs) \<Longrightarrow> rows (proposals d') = row_delete i (rows (proposals d)) \<and> i \<in> fst ` set (rows (proposals d))"
  by (auto simp: push_proposal_def ok_simps dest!: remove_proposal_rows)

lemma expire_proposal_rows:
  "expire_proposal L F fees i p d = Inr d' \<Longrightarrow> rows (proposals d') = row_delete i (rows (proposals d)) \<and> i \<in> fst ` set (rows (proposals d))"
  by (auto simp: expire_proposal_def split: if_splits sum.splits dest: remove_proposal_rows push_proposal_rows)

lemma expire_proposal_shorter:
  "expire_proposal L F fees i p d = Inr d' \<Longrightarrow> length (rows (proposals d')) < length (rows (proposals d))"
  by (auto simp: row_delete_def dest!: expire_proposal_rows intro!: length_filter_less)

function clear_expired_proposals ::
  "crypto_lib \<Rightarrow> fc_lib \<Rightarrow> (proposed_operation \<Rightarrow> database \<Rightarrow> share_type) \<Rightarrow> proposal_db \<Rightarrow> proposal_db result" where
  "clear_expired_proposals L F fees d =
     (case first_to_expire d of
        None \<Rightarrow> Inr d
      | Some (i, p) \<Rightarrow>
          if expiration_time p \<le> head_block_time (chain d)
          then bind (expire_proposal L F fees i p d) (clear_expired_proposals L F fees) else Inr d)"
  by pat_completeness auto

termination
  by (relation "measure (\<lambda>(L, F, fees, d). length (rows (proposals d)))") (auto dest: expire_proposal_shorter)

declare clear_expired_proposals.simps [simp del]

section \<open>The loop ends without an error\<close>

lemma first_to_expire_Some:
  assumes "first_to_expire d = Some (i, p)"
  shows "(i, p) \<in> set (rows (proposals d))" "\<forall>x \<in> set (rows (proposals d)). expiration_time p \<le> expiration_time (snd x)"
proof -
  let ?lt = "\<lambda>x y. expiration_time (snd x) < expiration_time (snd y)" and ?rs = "rows (proposals d)"
  obtain xs where xs: "sort_by ?lt ?rs = (i, p) # xs" using assms by (auto simp: first_to_expire_def split: list.splits)
  have key: "sort_by ?lt ?rs = sort_key (\<lambda>x. expiration_time (snd x)) ?rs" by (rule sort_by_sort_key) simp
  show "(i, p) \<in> set ?rs" using arg_cong [OF xs, of set] by auto
  have "sorted (map (\<lambda>x. expiration_time (snd x)) (sort_key (\<lambda>x. expiration_time (snd x)) ?rs))" by simp
  then show "\<forall>x \<in> set ?rs. expiration_time p \<le> expiration_time (snd x)"
    unfolding key [symmetric] xs using arg_cong [OF xs, of set] by auto
qed

lemma first_to_expire_None: "first_to_expire d = None \<Longrightarrow> rows (proposals d) = []"
  by (auto simp: first_to_expire_def split: list.splits dest: arg_cong [of _ _ set])

lemma remove_proposal_succeeds: "i \<in> fst ` set (rows (proposals d)) \<Longrightarrow> \<exists>d'. remove_proposal i d = Inr d'"
  using index_find_None [of "proposals d" i] by (auto simp: remove_proposal_def index_get_def index_remove_def)

lemma expire_proposal_succeeds: "i \<in> fst ` set (rows (proposals d)) \<Longrightarrow> \<exists>d'. expire_proposal L F fees i p d = Inr d'"
  using remove_proposal_succeeds by (auto simp: expire_proposal_def split: sum.splits)

lemma clear_expired_proposals_total:
  "\<exists>d'. clear_expired_proposals L F fees d = Inr d' \<and>
     (\<forall>x \<in> set (rows (proposals d')). head_block_time (chain d') < expiration_time (snd x)) \<and>
     set (rows (proposals d')) \<subseteq> set (rows (proposals d))"
proof (induction L F fees d rule: clear_expired_proposals.induct)
  case (1 L F fees d)
  show ?case
  proof (cases "first_to_expire d")
    case None
    then show ?thesis using first_to_expire_None [OF None] by (simp add: clear_expired_proposals.simps [of L F fees d])
  next
    case (Some x)
    obtain i p where x: "x = (i, p)" by (cases x)
    note f = first_to_expire_Some [OF Some [unfolded x]]
    show ?thesis
    proof (cases "expiration_time p \<le> head_block_time (chain d)")
      case True
      have "i \<in> fst ` set (rows (proposals d))" using f(1) by (auto intro: rev_image_eqI)
      then obtain d1 where d1: "expire_proposal L F fees i p d = Inr d1" using expire_proposal_succeeds by blast
      have "set (rows (proposals d1)) \<subseteq> set (rows (proposals d))" using expire_proposal_rows [OF d1] by (auto simp: set_row_delete)
      then show ?thesis using "1.IH" [OF Some x [symmetric] True d1] Some x True d1
        by (auto simp: clear_expired_proposals.simps [of L F fees d])
    next
      case False
      then show ?thesis using Some x f(2) by (fastforce simp: clear_expired_proposals.simps [of L F fees d] not_le)
    qed
  qed
qed

section \<open>Who a proposal needs\<close>

lemma is_authorized_sound:
  assumes "is_authorized_to_execute L p s"
  defines "E \<equiv> db_sign_env L s" and "K \<equiv> set (available_key_approvals p)" and "OA \<equiv> set (available_owner_approvals p)"
    and "A \<equiv> {GRAPHENE_TEMP_ACCOUNT} \<union> set (available_active_approvals p) \<union> set (available_owner_approvals p)"
  shows "(\<forall>a \<in> set (required_active (required_by (proposed_ops p))). may_act E K A a \<or> owner_may_act E (db_get_owner s) K A a) \<and>
    (\<forall>a \<in> set (required_owner (required_by (proposed_ops p))). a \<in> OA \<or> owner_may_act E (db_get_owner s) K A a)"
proof -
  have v: "verify_authority E (db_get_owner s) (unat (max_authority_depth (parameters s))) True (set (available_active_approvals p)) OA
      (required_by (proposed_ops p)) (available_key_approvals p) = Inr ()"
    using assms(1) by (auto simp: is_authorized_to_execute_def E_def OA_def split: sum.splits)
  have "available_keys E = []" by (simp add: E_def db_sign_env_def)
  from verify_authority_accepts [OF v this] show ?thesis by (auto simp: K_def A_def OA_def)
qed

lemma push_proposal_chain:
  assumes "push_proposal F fees i d = Inr (d', rs)" "index_get (proposals d) i = Inr p"
  shows "run_proposed F fees (proposed_ops p) (chain d) = Inr (chain d', rs)"
  using assms by (auto simp: push_proposal_def remove_proposal_def ok_simps)

section \<open>A proposal keeps the ledger\<close>

interpretation update_parameters_ev: conserving_evaluator "update_global_parameters_evaluator b" "\<lambda>op s. True" for b
  by unfold_locales (auto simp: update_global_parameters_evaluator_def update_global_parameters_do_evaluate_def
      update_global_parameters_do_apply_def conserves_def ok_simps)

fun proposed_ready :: "proposed_operation \<Rightarrow> database \<Rightarrow> bool" where
  "proposed_ready (Chain_Operation op) s = operation_ready op s"
| "proposed_ready (Update_Global_Parameters op) s = True"

fun proposed_core :: "proposed_operation \<Rightarrow> database \<Rightarrow> int" where
  "proposed_core (Chain_Operation op) s = created_core op s"
| "proposed_core (Update_Global_Parameters op) s = 0"

primrec all_ready :: "fc_lib \<Rightarrow> (proposed_operation \<Rightarrow> database \<Rightarrow> share_type) \<Rightarrow> proposed_operation list \<Rightarrow> database \<Rightarrow> bool" where
  "all_ready F fees [] s \<longleftrightarrow> True"
| "all_ready F fees (op # ops) s \<longleftrightarrow> proposed_ready op s \<and>
     (case apply_proposed_operation F fees op s of Inl e \<Rightarrow> True | Inr (s', r) \<Rightarrow> all_ready F fees ops s')"

primrec all_core :: "fc_lib \<Rightarrow> (proposed_operation \<Rightarrow> database \<Rightarrow> share_type) \<Rightarrow> proposed_operation list \<Rightarrow> database \<Rightarrow> int" where
  "all_core F fees [] s = 0"
| "all_core F fees (op # ops) s = proposed_core op s +
     (case apply_proposed_operation F fees op s of Inl e \<Rightarrow> 0 | Inr (s', r) \<Rightarrow> all_core F fees ops s')"

lemma apply_proposed_step:
  assumes F: "fc_laws F" and inv: "chain_inv s" and rd: "proposed_ready op s" and ok: "apply_proposed_operation F fees op s = Inr (s', r)"
  shows "chain_inv s' \<and> (\<forall>a. ledger a s' = ledger a s + core_in a (proposed_core op s)) \<and> (balances_nonneg s \<longrightarrow> balances_nonneg s')"
proof (cases op)
  case (Chain_Operation x)
  let ?ts = fresh_evaluation_state
  have "apply_operation F (\<lambda>y t. fees op s) ?ts x s = Inr (s', r)" using ok Chain_Operation by (simp add: apply_operation_def)
  moreover have "\<not> skip_fee ?ts" by (simp add: fresh_evaluation_state_def)
  ultimately show ?thesis using apply_operation_step [OF F inv, of x ?ts] rd Chain_Operation by simp
next
  case (Update_Global_Parameters x)
  have "conserves s s'" using update_parameters_ev.run_evaluator_conserves [OF _ F inv] ok Update_Global_Parameters
    by (fastforce simp: fresh_evaluation_state_def)
  then show ?thesis using Update_Global_Parameters by (simp add: conserves_def core_in_def)
qed

lemma run_proposed_step:
  assumes F: "fc_laws F"
  shows "chain_inv s \<Longrightarrow> all_ready F fees ops s \<Longrightarrow> run_proposed F fees ops s = Inr (s', rs) \<Longrightarrow>
    chain_inv s' \<and> (\<forall>a. ledger a s' = ledger a s + core_in a (all_core F fees ops s)) \<and> (balances_nonneg s \<longrightarrow> balances_nonneg s')"
proof (induction ops arbitrary: s rs)
  case (Cons op ops)
  obtain s1 r rs' where 1: "apply_proposed_operation F fees op s = Inr (s1, r)" and 2: "run_proposed F fees ops s1 = Inr (s', rs')"
    using Cons.prems(3) by (auto simp: ok_simps)
  have rd: "proposed_ready op s" "all_ready F fees ops s1" using Cons.prems(2) 1 by simp_all
  note st = apply_proposed_step [OF F Cons.prems(1) rd(1) 1]
  note ih = Cons.IH [OF conjunct1 [OF st] rd(2) 2]
  show ?case using st ih 1 by (auto simp: core_in_def)
qed (auto simp: core_in_def)

section \<open>The index of approvals\<close>

lemma approval_insert_fold:
  "fold (approval_insert i) as m a = (if a \<in> set as then Some (insert i (case m a of None \<Rightarrow> {} | Some ps \<Rightarrow> ps)) else m a)"
  by (induction as arbitrary: m) (auto simp: approval_insert_def split: option.split)

lemma approval_remove_fold:
  "fold (approval_remove i) as m a =
     (if a \<in> set as then (case m a of None \<Rightarrow> None | Some ps \<Rightarrow> if ps - {i} = {} then None else Some (ps - {i})) else m a)"
  by (induction as arbitrary: m) (auto simp: approval_remove_def split: option.split)

text \<open>Removing a proposal takes back what inserting it added, also when approvals were given in between.\<close>

lemma index_of_approvals_roundtrip:
  assumes "\<forall>a ps. m a = Some ps \<longrightarrow> ps \<noteq> {} \<and> i \<notin> ps" "set (approvers p) \<subseteq> set (approvers p')"
  shows "object_removed i p' (object_inserted i p m) = m"
proof
  fix a
  show "object_removed i p' (object_inserted i p m) a = m a"
    using assms by (cases "m a") (auto simp: object_removed_def object_inserted_def approval_insert_fold approval_remove_fold)
qed

section \<open>Properties\<close>

text \<open>
  C14. An update of a proposal acts on the chain only with the approvals it needs: either the chain state stays and the proposal carries the changed
  approvals, or the proposal has no review period, every account whose active or owner authority its operations need is among the approvals or
  authorised through them, the chain state is the result of its operations, and the proposal is gone.
\<close>

theorem proposal_acts_only_authorised:
  assumes "proposal_update_do_apply L F fees op d = Inr d'" "index_get (proposals d) (pu_proposal op) = Inr p"
  defines "q \<equiv> approved op p"
  defines "E \<equiv> db_sign_env L (chain d)" and "K \<equiv> set (available_key_approvals q)"
    and "A \<equiv> {GRAPHENE_TEMP_ACCOUNT} \<union> set (available_active_approvals q) \<union> set (available_owner_approvals q)"
  shows "chain d' = chain d \<and> index_get (proposals d') (pu_proposal op) = Inr q \<or>
    review_period_time p = None \<and> (\<exists>rs. run_proposed F fees (proposed_ops p) (chain d) = Inr (chain d', rs)) \<and>
    pu_proposal op \<notin> fst ` set (rows (proposals d')) \<and>
    (\<forall>a \<in> set (required_active (required_by (proposed_ops p))). may_act E K A a \<or> owner_may_act E (db_get_owner (chain d)) K A a) \<and>
    (\<forall>a \<in> set (required_owner (required_by (proposed_ops p))).
       a \<in> set (available_owner_approvals q) \<or> owner_may_act E (db_get_owner (chain d)) K A a)"
proof -
  let ?i = "pu_proposal op"
  obtain t where t: "index_modify (\<lambda>x y. False) (proposals d) ?i (\<lambda>p. Inr (approved op p)) = Inr t" using assms(1) by (auto simp: proposal_update_do_apply_def ok_simps)
  let ?d1 = "d\<lparr>proposals := t\<rparr>"
  have key: "?i \<in> fst ` set (rows (proposals d))" using assms(2) by (auto simp: index_get_def ok_simps dest: index_find_Some_key)
  have q: "index_get t ?i = Inr q"
    using t assms(2) key by (auto simp: index_modify_Inr index_get_def index_find_def map_of_row_put q_def ok_simps)
  have p: "review_period_time q = review_period_time p" "proposed_ops q = proposed_ops p" by (simp_all add: q_def approved_def)
  consider "d' = ?d1" | d2 rs where "review_period_time q = None" "is_authorized_to_execute L q (chain d)" "push_proposal F fees ?i ?d1 = Inr (d2, rs)" "d' = d2"
    using assms(1) t q by (auto simp: proposal_update_do_apply_def Let_def split: if_splits sum.splits)
  then show ?thesis
  proof cases
    case 1
    then show ?thesis using q by simp
  next
    case 2
    have "run_proposed F fees (proposed_ops p) (chain d) = Inr (chain d', rs)" using push_proposal_chain [OF 2(3), of q] q 2(4) p by simp
    moreover have "?i \<notin> fst ` set (rows (proposals d'))" using push_proposal_rows [OF 2(3)] 2(4) by (auto simp: set_row_delete)
    ultimately show ?thesis using is_authorized_sound [OF 2(2)] 2(1) p unfolding E_def K_def A_def by auto
  qed
qed

definition demo_proposal :: proposal_object where
  "demo_proposal = new_proposal \<lparr> pc_fee = mk_asset 20 0, pc_fee_paying_account = 6, pc_proposed_ops = [Chain_Operation demo_transfer_op],
     pc_expiration_time = 1500000500, review_period_seconds = None \<rparr>"

definition demo_proposals :: proposal_db where
  "demo_proposals = \<lparr> chain = state demo_chain_db, proposals = \<lparr> next_id = 3, rows = [(2, demo_proposal)] \<rparr>,
     account_to_proposals = object_inserted 2 demo_proposal (\<lambda>a. None) \<rparr>"

definition demo_approval :: proposal_update_operation where
  "demo_approval = \<lparr> pu_fee_paying_account = 6, pu_fee = mk_asset 20 0, pu_proposal = 2, active_approvals_to_add = [5], active_approvals_to_remove = [],
     owner_approvals_to_add = [], owner_approvals_to_remove = [], key_approvals_to_add = [], key_approvals_to_remove = [] \<rparr>"

theorem proposal_acts_only_authorised_witness:
  "\<exists>d' rs. proposal_update_do_apply demo_crypto fc_int64 (\<lambda>op s. 10) demo_approval demo_proposals = Inr d' \<and> rows (proposals d') = [] \<and>
     run_proposed fc_int64 (\<lambda>op s. 10) [Chain_Operation demo_transfer_op] (chain demo_proposals) = Inr (chain d', rs)"
proof -
  let ?run = "proposal_update_do_apply demo_crypto fc_int64 (\<lambda>op s. 10) demo_approval demo_proposals"
  have "case ?run of Inl e \<Rightarrow> False | Inr d' \<Rightarrow> rows (proposals d') = []" by code_simp
  then obtain d' where d': "?run = Inr d'" "rows (proposals d') = []" by (auto split: sum.splits)
  have p: "index_get (proposals demo_proposals) (pu_proposal demo_approval) = Inr demo_proposal"
    by (simp add: index_get_def index_find_def the_object_def demo_proposals_def demo_approval_def)
  have "index_get (proposals d') i \<noteq> Inr q" for i q using d'(2) by (simp add: index_get_def index_find_def the_object_def)
  then obtain rs where "run_proposed fc_int64 (\<lambda>op s. 10) (proposed_ops demo_proposal) (chain demo_proposals) = Inr (chain d', rs)"
    using proposal_acts_only_authorised [OF d'(1) p] by blast
  then show ?thesis using d' by (auto simp: demo_proposal_def new_proposal_def Let_def)
qed


definition demo_due :: proposal_db where
  "demo_due = demo_proposals\<lparr>proposals := \<lparr> next_id = 4,
     rows = [(2, demo_proposal\<lparr>expiration_time := 5\<rparr>), (3, demo_proposal\<lparr>expiration_time := 4000000000\<rparr>)] \<rparr>\<rparr>"


text \<open>
  During the review period no approval of an account may be added; the check does not look at the approvals by key, which may still be added.
\<close>

lemma keys_added_in_review:
  assumes "index_get (proposals d) (pu_proposal op) = Inr p" "active_approvals_to_add op = []" "owner_approvals_to_add op = []"
    and "active_approvals_to_remove op = []" "owner_approvals_to_remove op = []"
  shows "proposal_update_do_evaluate op d = Inr p"
  using assms by (simp add: proposal_update_do_evaluate_def split: option.split)

end
