(* ===== verification/Spec2Isabelle.thy ===== *)
theory Spec2Isabelle
  imports Undo_Database Chain_Control Proposals
begin

text \<open>
  A model of the consensus core of FinChain: the database with undo (\<^verbatim>\<open>src/libraries/db\<close>) and the chain (\<^verbatim>\<open>src/libraries/chain\<close>),
  with the theorems that make it correct. File names below are relative to these two directories.

  \<^bold>\<open>How the program is put together.\<close> The state of the chain is a set of typed tables. A transaction is a list of operations; every
  operation has an evaluator that checks it against the tables, charges its fee and changes the tables. A block is a list of
  transactions signed by the witness whose turn it is; after the transactions it pays the witness, moves the last irreversible block, lets
  orders, settlements, feeds and permits expire, and once per interval performs the maintenance with the votes, the elections and the budget. A
  node keeps blocks of several forks, follows the longest one, and returns to an earlier state through the undo database. Pending
  transactions are applied on top of the head block in a session that is undone before every push.

  \<^bold>\<open>Conventions.\<close> An exception is a left value of \<open>'a result\<close>, so that every assertion of the code is a branch of the model. Tables are
  rows in the order of their instance numbers with the next free number (\<open>'o index\<close>). \<^verbatim>\<open>share_type\<close> is an unbounded integer whose
  additions go through the checked arithmetic of the fc library, a parameter with the laws \<open>fc_laws\<close>, satisfied by checked
  64-bit arithmetic (\<open>fc64\<close>). Other machine integers are words of their width, also the 128-bit products. Hashes, signatures and packed sizes
  are parameters (\<open>crypto_lib\<close>, \<open>block_lib\<close>, \<open>pack_lib\<close>), as is the fee schedule in the evaluation of operations.

  \<^bold>\<open>The theories.\<close>

  \<^item> \<^verbatim>\<open>Fc_Prelude\<close>: results, assertions, loops with fuel and their contract \<open>shrinking_loop\<close>, the arithmetic of fc, lemmas on lists.
  \<^item> \<^verbatim>\<open>Object_Database\<close>, \<^verbatim>\<open>Undo_Database\<close> (index.hpp, generic_index.hpp, object_database.cpp, undo_database.cpp): tables with unique
    keys behind the interface \<open>object_table\<close>; sessions with undo, merge, commit and pop. Undoing a session returns to the state at its
    start, whatever the session did in between, and popping a commit returns to the state before it.
  \<^item> \<^verbatim>\<open>Fork_Database\<close> (fork_database.cpp): linked and unlinked blocks; pushing keeps the tree, and the branches to the common ancestor are
    exact. \<^verbatim>\<open>Block_Database\<close> (block_database.cpp): the blocks on disk; a stored block is found until it is overwritten or removed.
  \<^item> \<^verbatim>\<open>Asset_Price\<close> (protocol/asset.cpp): assets, prices, conversions, call prices and price feeds. \<^verbatim>\<open>Vesting\<close>
    (vesting_balance_object.cpp): the two vesting policies.
  \<^item> \<^verbatim>\<open>Chain_Objects\<close>, \<^verbatim>\<open>Chain_State\<close> (the object headers, db_balance.cpp, db_getter.cpp): the objects, the record \<open>database\<close> with all tables, the
    invariant \<open>chain_inv\<close>, and \<open>ledger\<close>: for every asset the sum of all places that hold it, less its recorded supply. The interfaces
    \<open>db_checked_table\<close> and \<open>db_table\<close> say what changing a row of a table does to both; every table is an interpretation of one of them.
  \<^item> \<^verbatim>\<open>Evaluator\<close> (evaluator.hpp, evaluator.cpp): the framework with the fee. The contracts \<open>charging_evaluator\<close> and \<open>conserving_evaluator\<close> state when
    running an evaluator keeps the ledger; every evaluator is an interpretation of one of them.
  \<^item> \<^verbatim>\<open>Transfers\<close>, \<^verbatim>\<open>Lock_Balance\<close>, \<^verbatim>\<open>Market_Evaluators\<close>, \<^verbatim>\<open>Asset_Evaluators\<close>, \<^verbatim>\<open>Account_Evaluators\<close> (the files of the same kind in the
    chain directory and in protocol): validation and evaluators of 37 operations. \<^verbatim>\<open>Market\<close> and \<^verbatim>\<open>Market_Ledger\<close>
    (db_market.cpp): matching orders, margin calls, global settlement; the book moves value without creating any. \<^verbatim>\<open>Asset_Ledger\<close>: the
    same for the operations of assets; creating an asset is the one operation that changes the ledger, by an amount that is stated.
  \<^item> \<^verbatim>\<open>Authority\<close> (protocol/authority.cpp, protocol/transaction.cpp): who may sign; the search is sound, and finds what is there within its depth.
  \<^item> \<^verbatim>\<open>Operations\<close>, \<^verbatim>\<open>Transactions\<close> (protocol/operations.cpp, protocol/transaction.cpp, db_block.cpp, db_with.hpp): the dispatch of
    operations, transactions, the pool of pending transactions and its block. A transaction is authorised, keeps the ledger, and enters once.
  \<^item> \<^verbatim>\<open>Fee_Schedule\<close> (protocol/fee_schedule.cpp): the fee of an operation, rounded up in another asset, and the validation of the parameters.
  \<^item> \<^verbatim>\<open>Proposals\<close> (proposal_evaluator.cpp, proposal_object.cpp, committee_member_evaluator.cpp, db_update.cpp): proposed transactions act only
    with the approvals they need, and expired ones are cleared without an error.
  \<^item> \<^verbatim>\<open>Fee_Distribution\<close>, \<^verbatim>\<open>Budget\<close>, \<^verbatim>\<open>Elections\<close>, \<^verbatim>\<open>Maintenance\<close> (account_object.cpp, db_maint.cpp): the fees of an account, witness and worker pay, votes and
    elected authorities, and their composition at the end of an interval.
  \<^item> \<^verbatim>\<open>Witness_Schedule\<close>, \<^verbatim>\<open>Blocks\<close>, \<^verbatim>\<open>Block_Update\<close>, \<^verbatim>\<open>Expiry\<close> (db_witness_schedule.cpp, protocol/block.cpp, db_block.cpp, db_update.cpp): slots and
    rounds, headers and the merkle root, the global properties, and what expires.
  \<^item> \<^verbatim>\<open>Head_Frame\<close>: the rest of a block leaves its head alone. \<^verbatim>\<open>Block_Apply\<close> (db_block.cpp): the application of a block as a whole, which keeps
    the invariant and the ledger and makes the block the head.
  \<^item> \<^verbatim>\<open>Chain_Control\<close> (db_block.cpp): pushing, popping and producing blocks. The undo history is always a chain of applied blocks; a push extends the
    head, switches to a longer fork, or leaves the head as it was; a failed switch returns to the old head.

  \<^bold>\<open>Loops.\<close> Structural loops are recursion over their list; the reductions of prices, the walks over the fork tree and the clearing of
  proposals have termination proofs or bounds by the size of what they walk. The loops over a market, over expired objects and over due
  settlements run on fuel that exceeds the number of objects they can still remove; the laws of \<open>shrinking_loop\<close> show that the result is then the
  one of the loop without fuel (\<open>loop_result\<close>). The loop that rounds up a fee takes at most one step (\<open>raise_fee_result\<close>), and starts with
  fuel for two.

  \<^bold>\<open>Not modelled.\<close> Confidential transfers rest on cryptography that is not in the repository. Assertions change nothing. Proposals are modelled on
  a state of their own, next to transactions and blocks; proposals about proposals are left out. The log of applied operations, notifications,
  genesis, opening and replaying the files, the network, the applications, the wallet and the plugins are input and output around the chain.
\<close>

end
